(* ===== verification/Prelude.thy ===== *)
theory Prelude
  imports Main "HOL-Library.Word" "HOL-Library.Char_ord" "HOL-Library.List_Lexorder"
begin

text \<open>
  Shared vocabulary of the development: the types every component uses (bytes, Go strings,
  instants and durations), the 64-bit integer arithmetic of Go, big-endian integers
  (package \<^verbatim>\<open>encoding/binary\<close>), hexadecimal text (package \<^verbatim>\<open>encoding/hex\<close>), and the
  generic lemmas on lists, options and maps that the component theories share.

  A Go string is a sequence of bytes, so it is a \<^typ>\<open>string\<close> (each \<^typ>\<open>char\<close> is one byte);
  a \<^verbatim>\<open>[]byte\<close> is a list of 8-bit words.
\<close>

unbundle bit_operations_syntax

named_theorems go_lib \<open>evaluation rules for the modelled parts of Go's standard library\<close>
named_theorems wire \<open>layout facts of encoded data\<close>

section \<open>Types shared by the components\<close>

type_synonym byte = "8 word"
type_synonym bytes = "byte list"

text \<open>
  \<^verbatim>\<open>time.Time\<close> is an instant in nanoseconds and \<^verbatim>\<open>time.Duration\<close> a number of nanoseconds.
  Every operation that reads the clock takes the instant it reads as an argument.
\<close>

type_synonym instant = int
type_synonym duration = int

definition time_After :: "instant \<Rightarrow> instant \<Rightarrow> bool" where
  [go_lib]: "time_After a b \<longleftrightarrow> b < a"

abbreviation Second :: duration where "Second \<equiv> 1000000000"
abbreviation Minute :: duration where "Minute \<equiv> 60 * Second"
abbreviation Hour :: duration where "Hour \<equiv> 60 * Minute"

section \<open>64-bit signed integers\<close>

text \<open>\<^verbatim>\<open>int\<close> and \<^verbatim>\<open>int64\<close> are 64 bits wide and wrap around: \<open>wrap64\<close> is the value a
  mathematical result leaves in such a variable.\<close>

definition wrap64 :: "int \<Rightarrow> int" where
  "wrap64 x = (x + 2 ^ 63) mod 2 ^ 64 - 2 ^ 63"

definition is_int64 :: "int \<Rightarrow> bool" where
  "is_int64 x \<longleftrightarrow> - (2 ^ 63) \<le> x \<and> x < 2 ^ 63"

lemma wrap64_id [simp]: "is_int64 x \<Longrightarrow> wrap64 x = x"
  by (simp add: wrap64_def is_int64_def)

lemma wrap64_range: "is_int64 (wrap64 x)"
  by (simp add: wrap64_def is_int64_def)

text \<open>Go's integer division and remainder truncate towards zero; the divisors of the code are
  positive where they are used.\<close>

definition go_quot :: "int \<Rightarrow> int \<Rightarrow> int" where
  "go_quot a b = (if (a < 0) = (b < 0) then \<bar>a\<bar> div \<bar>b\<bar> else - (\<bar>a\<bar> div \<bar>b\<bar>))"

definition go_rem :: "int \<Rightarrow> int \<Rightarrow> int" where
  "go_rem a b = a - b * go_quot a b"

lemma go_quot_nonneg [simp]: "0 \<le> a \<Longrightarrow> 0 < b \<Longrightarrow> go_quot a b = a div b"
  by (simp add: go_quot_def)

lemma go_rem_nonneg [simp]: "0 \<le> a \<Longrightarrow> 0 < b \<Longrightarrow> go_rem a b = a mod b"
  by (simp add: go_rem_def minus_mult_div_eq_mod)

section \<open>Strings and byte slices\<close>

definition bytes_of_string :: "string \<Rightarrow> bytes" where
  "bytes_of_string s = map of_char s"

definition string_of_bytes :: "bytes \<Rightarrow> string" where
  "string_of_bytes bs = map (\<lambda>b. char_of (unat b)) bs"

lemma unat_byte_less: "unat (b :: byte) < 256"
  using unsigned_less [where ?'a = nat, of b] by simp

lemma byte_of_char_nat: "(of_char c :: byte) = of_nat (of_char c)"
  by (simp only: of_nat_of_char)

lemma byte_of_nat_unat [simp]: "(of_nat (unat b) :: byte) = b"
  by (metis of_int_of_nat_eq of_nat_unat word_of_int_uint)

lemma unat_of_char [simp]: "unat (of_char c :: byte) = of_char c"
proof -
  have "(of_char c :: byte) = of_nat (of_char c)" by (rule byte_of_char_nat)
  then show ?thesis by (simp add: unat_of_nat)
qed

lemma string_of_bytes_of_string [simp]: "string_of_bytes (bytes_of_string s) = s"
  by (induction s) (simp_all add: string_of_bytes_def bytes_of_string_def)

lemma bytes_of_string_of_bytes [simp]: "bytes_of_string (string_of_bytes bs) = bs"
proof (induction bs)
  case Nil
  then show ?case by (simp add: string_of_bytes_def bytes_of_string_def)
next
  case (Cons b bs)
  have "unat b < 256" by (rule unat_byte_less)
  then have "(of_char (char_of (unat b)) :: nat) = unat b" by simp
  then have "(of_char (char_of (unat b)) :: byte) = b"
    by (metis byte_of_char_nat byte_of_nat_unat)
  with Cons show ?case by (simp add: string_of_bytes_def bytes_of_string_def)
qed

lemma length_bytes_of_string [simp]: "length (bytes_of_string s) = length s"
  by (simp add: bytes_of_string_def)

lemma length_string_of_bytes [simp]: "length (string_of_bytes bs) = length bs"
  by (simp add: string_of_bytes_def)

lemma bytes_of_string_append [simp]:
  "bytes_of_string (s @ t) = bytes_of_string s @ bytes_of_string t"
  by (simp add: bytes_of_string_def)

lemma bytes_of_string_inject [simp]: "bytes_of_string s = bytes_of_string t \<longleftrightarrow> s = t"
  by (metis string_of_bytes_of_string)

section \<open>Hexadecimal text\<close>

definition hexdigit :: "nat \<Rightarrow> char" where
  "hexdigit n = ''0123456789abcdef'' ! n"

definition hex_byte :: "byte \<Rightarrow> string" where
  "hex_byte b = [hexdigit (unat b div 16), hexdigit (unat b mod 16)]"

text \<open>\<^verbatim>\<open>hex.EncodeToString\<close>.\<close>

definition hex_encode :: "bytes \<Rightarrow> string" where
  "hex_encode bs = concat (map hex_byte bs)"

lemma length_hex_encode [simp]: "length (hex_encode bs) = 2 * length bs"
  by (induction bs) (simp_all add: hex_encode_def hex_byte_def)

lemma hexdigit_in_alphabet: "n < 16 \<Longrightarrow> hexdigit n \<in> set ''0123456789abcdef''"
  unfolding hexdigit_def by (rule nth_mem) simp

lemma hex_encode_alphabet: "set (hex_encode bs) \<subseteq> set ''0123456789abcdef''"
proof (induction bs)
  case Nil
  then show ?case by (simp add: hex_encode_def)
next
  case (Cons b bs)
  have "unat b < 256" by (rule unat_byte_less)
  then have "unat b div 16 < 16" "unat b mod 16 < 16" by auto
  then have "set (hex_byte b) \<subseteq> set ''0123456789abcdef''"
    using hexdigit_in_alphabet [of "unat b div 16"] hexdigit_in_alphabet [of "unat b mod 16"]
    unfolding hex_byte_def by (simp only: list.set(2) [of "hexdigit _"] list.set(1) insert_subset empty_subsetI)
  then show ?case using Cons by (simp only: hex_encode_def list.map concat.simps set_append Un_least)
qed

text \<open>\<^verbatim>\<open>hex.DecodeString\<close>: an odd length or a byte outside \<open>[0-9a-fA-F]\<close> is an error.\<close>

definition unhexdigit :: "char \<Rightarrow> nat option" where
  "unhexdigit c =
     (let n = of_char c :: nat in
      if 48 \<le> n \<and> n \<le> 57 then Some (n - 48)
      else if 97 \<le> n \<and> n \<le> 102 then Some (n - 87)
      else if 65 \<le> n \<and> n \<le> 70 then Some (n - 55)
      else None)"

fun hex_decode :: "string \<Rightarrow> bytes option" where
  "hex_decode [] = Some []"
| "hex_decode [_] = None"
| "hex_decode (a # b # cs) =
     (case (unhexdigit a, unhexdigit b) of
        (Some x, Some y) \<Rightarrow> map_option ((#) (of_nat (16 * x + y))) (hex_decode cs)
      | _ \<Rightarrow> None)"

lemma unhexdigit_hexdigit [simp]: "n < 16 \<Longrightarrow> unhexdigit (hexdigit n) = Some n"
proof -
  assume "n < 16"
  then have "n \<in> set [0..<16]" by simp
  then show ?thesis
    by (simp add: upt_rec hexdigit_def unhexdigit_def) (elim disjE; simp)
qed

lemma hex_decode_encode [simp]: "hex_decode (hex_encode bs) = Some bs"
proof (induction bs)
  case Nil
  then show ?case by (simp add: hex_encode_def)
next
  case (Cons b bs)
  have "unat b < 256" by (rule unat_byte_less)
  then have d: "unat b div 16 < 16" "unat b mod 16 < 16" by auto
  have "16 * (unat b div 16) + unat b mod 16 = unat b" by simp
  then have "(of_nat (16 * (unat b div 16) + unat b mod 16) :: byte) = b"
    by (metis byte_of_nat_unat)
  with Cons d show ?case by (simp add: hex_encode_def hex_byte_def del: of_nat_add of_nat_mult)
qed

section \<open>Big-endian integers\<close>

definition put_be32 :: "32 word \<Rightarrow> bytes" where
  "put_be32 w = [ucast (drop_bit 24 w), ucast (drop_bit 16 w), ucast (drop_bit 8 w), ucast w]"

fun get_be32 :: "bytes \<Rightarrow> 32 word" where
  "get_be32 (a # b # c # d # _) =
     push_bit 24 (ucast a) OR push_bit 16 (ucast b) OR push_bit 8 (ucast c) OR ucast d"
| "get_be32 _ = 0"

lemma length_put_be32 [simp, wire]: "length (put_be32 w) = 4"
  by (simp add: put_be32_def)

lemma get_be32_put_be32 [simp, wire]: "get_be32 (put_be32 w @ xs) = w"
proof (rule bit_word_eqI)
  fix n assume "n < LENGTH(32)"
  then have "n < 8 \<or> (8 \<le> n \<and> n < 16) \<or> (16 \<le> n \<and> n < 24) \<or> (24 \<le> n \<and> n < 32)" by auto
  then show "bit (get_be32 (put_be32 w @ xs)) n = bit w n"
    by (auto simp: put_be32_def bit_simps not_le)
qed

definition put_be64 :: "64 word \<Rightarrow> bytes" where
  "put_be64 w = put_be32 (ucast (drop_bit 32 w)) @ put_be32 (ucast w)"

definition get_be64 :: "bytes \<Rightarrow> 64 word" where
  "get_be64 bs = push_bit 32 (ucast (get_be32 bs)) OR ucast (get_be32 (drop 4 bs))"

lemma length_put_be64 [simp, wire]: "length (put_be64 w) = 8"
  by (simp add: put_be64_def)

section \<open>Lists and maps\<close>

lemma take_drop_split: "n \<le> length xs \<Longrightarrow> length (take n xs) = n \<and> take n xs @ drop n xs = xs"
  by simp

lemma drop_append_exact: "length xs = n \<Longrightarrow> drop n (xs @ ys) = ys"
  by simp

lemma take_append_exact: "length xs = n \<Longrightarrow> take n (xs @ ys) = xs"
  by simp

text \<open>Deleting the keys of a map that satisfy a predicate, as a loop of \<^verbatim>\<open>delete\<close> over the
  entries does.\<close>

definition map_drop_if :: "('k \<Rightarrow> 'v \<Rightarrow> bool) \<Rightarrow> ('k \<rightharpoonup> 'v) \<Rightarrow> ('k \<rightharpoonup> 'v)" where
  "map_drop_if P m = (\<lambda>k. case m k of None \<Rightarrow> None | Some v \<Rightarrow> if P k v then None else Some v)"

lemma map_drop_if_Some [simp]:
  "map_drop_if P m k = Some v \<longleftrightarrow> m k = Some v \<and> \<not> P k v"
  by (auto simp: map_drop_if_def split: option.splits)

lemma map_drop_if_None [simp]:
  "map_drop_if P m k = None \<longleftrightarrow> (\<forall>v. m k = Some v \<longrightarrow> P k v)"
  by (auto simp: map_drop_if_def split: option.splits)

lemma dom_map_drop_if: "dom (map_drop_if P m) \<subseteq> dom m"
  by (auto simp: map_drop_if_def split: option.splits if_splits)

end
