(* ===== verification/Go_Strings.thy ===== *)
theory Go_Strings
  imports Prelude "HOL-Library.Sublist"
begin

text \<open>
  The parts of Go's packages \<^verbatim>\<open>strings\<close>, \<^verbatim>\<open>strconv\<close>, \<^verbatim>\<open>fmt\<close> (the verb \<^verbatim>\<open>%d\<close>) and \<^verbatim>\<open>path/filepath\<close> (Unix)
  that the components call, on byte strings. White space is Unicode's \<^verbatim>\<open>White_Space\<close> set in its
  UTF-8 encoding, so trimming is exact on every byte string. Case mapping is exact on ASCII
  strings (the fast path of \<^verbatim>\<open>strings.ToLower\<close>); what it does to a string with a byte above 127
  depends on the Unicode tables and is the argument \<open>uni\<close> of the definitions that use it.
\<close>

section \<open>Prefixes, suffixes, search\<close>

abbreviation HasPrefix :: "string \<Rightarrow> string \<Rightarrow> bool" where
  "HasPrefix s p \<equiv> prefix p s"

abbreviation HasSuffix :: "string \<Rightarrow> string \<Rightarrow> bool" where
  "HasSuffix s p \<equiv> suffix p s"

definition TrimPrefix :: "string \<Rightarrow> string \<Rightarrow> string" where
  [go_lib]: "TrimPrefix s p = (if prefix p s then drop (length p) s else s)"

definition TrimSuffix :: "string \<Rightarrow> string \<Rightarrow> string" where
  [go_lib]: "TrimSuffix s p = (if suffix p s then take (length s - length p) s else s)"

fun Contains :: "string \<Rightarrow> string \<Rightarrow> bool" where
  "Contains [] p \<longleftrightarrow> p = []"
| "Contains (c # s) p \<longleftrightarrow> prefix p (c # s) \<or> Contains s p"

definition ContainsAny :: "string \<Rightarrow> string \<Rightarrow> bool" where
  [go_lib]: "ContainsAny s chars \<longleftrightarrow> list_ex (\<lambda>c. c \<in> set chars) s"

text \<open>\<^verbatim>\<open>strings.ReplaceAll\<close> with a one-byte pattern.\<close>

definition ReplaceAll :: "string \<Rightarrow> char \<Rightarrow> string \<Rightarrow> string" where
  [go_lib]: "ReplaceAll s old new = concat (map (\<lambda>c. if c = old then new else [c]) s)"

text \<open>\<^verbatim>\<open>strings.Split\<close> with a one-byte separator.\<close>

fun Split :: "string \<Rightarrow> char \<Rightarrow> string list" where
  "Split [] sep = [[]]"
| "Split (c # s) sep =
     (if c = sep then [] # Split s sep
      else case Split s sep of [] \<Rightarrow> [[c]] | f # fs \<Rightarrow> (c # f) # fs)"

fun Join :: "string list \<Rightarrow> string \<Rightarrow> string" where
  "Join [] sep = []"
| "Join [f] sep = f"
| "Join (f # fs) sep = f @ sep @ Join fs sep"

section \<open>Trimming\<close>

definition space_seqs :: "string list" where
  "space_seqs =
    [[CHR 0x09], [CHR 0x0A], [CHR 0x0B], [CHR 0x0C], [CHR 0x0D], [CHR 0x20],
     [CHR 0xC2, CHR 0x85], [CHR 0xC2, CHR 0xA0], [CHR 0xE1, CHR 0x9A, CHR 0x80],
     [CHR 0xE2, CHR 0x80, CHR 0x80], [CHR 0xE2, CHR 0x80, CHR 0x81], [CHR 0xE2, CHR 0x80, CHR 0x82],
     [CHR 0xE2, CHR 0x80, CHR 0x83], [CHR 0xE2, CHR 0x80, CHR 0x84], [CHR 0xE2, CHR 0x80, CHR 0x85],
     [CHR 0xE2, CHR 0x80, CHR 0x86], [CHR 0xE2, CHR 0x80, CHR 0x87], [CHR 0xE2, CHR 0x80, CHR 0x88],
     [CHR 0xE2, CHR 0x80, CHR 0x89], [CHR 0xE2, CHR 0x80, CHR 0x8A], [CHR 0xE2, CHR 0x80, CHR 0xA8],
     [CHR 0xE2, CHR 0x80, CHR 0xA9], [CHR 0xE2, CHR 0x80, CHR 0xAF], [CHR 0xE2, CHR 0x81, CHR 0x9F],
     [CHR 0xE3, CHR 0x80, CHR 0x80]]"

definition seq_at :: "string list \<Rightarrow> string \<Rightarrow> nat" where
  "seq_at seqs s = (case find (\<lambda>p. prefix p s) seqs of None \<Rightarrow> 0 | Some p \<Rightarrow> length p)"

function strip_seqs :: "string list \<Rightarrow> string \<Rightarrow> string" where
  "strip_seqs seqs s =
     (if s = [] \<or> seq_at seqs s = 0 then s else strip_seqs seqs (drop (seq_at seqs s) s))"
  by pat_completeness auto
termination
  by (relation "measure (\<lambda>(seqs, s). length s)") auto

declare strip_seqs.simps [simp del]

definition TrimSpace :: "string \<Rightarrow> string" where
  "TrimSpace s =
     rev (strip_seqs (map rev space_seqs) (rev (strip_seqs space_seqs s)))"

text \<open>\<^verbatim>\<open>Trim\<close> and \<^verbatim>\<open>TrimRight\<close> with an ASCII cutset.\<close>

definition TrimRight :: "string \<Rightarrow> string \<Rightarrow> string" where
  [go_lib]: "TrimRight s cutset = rev (dropWhile (\<lambda>c. c \<in> set cutset) (rev s))"

definition Trim :: "string \<Rightarrow> string \<Rightarrow> string" where
  [go_lib]: "Trim s cutset = TrimRight (dropWhile (\<lambda>c. c \<in> set cutset) s) cutset"

text \<open>\<^verbatim>\<open>strings.Fields\<close>: the maximal runs without white space.\<close>

function fields_from :: "string \<Rightarrow> string \<Rightarrow> string list" where
  "fields_from s cur =
     (if s = [] then (if cur = [] then [] else [rev cur])
      else if seq_at space_seqs s \<noteq> 0 then
        (if cur = [] then [] else [rev cur]) @ fields_from (drop (seq_at space_seqs s) s) []
      else fields_from (tl s) (hd s # cur))"
  by pat_completeness auto
termination
  by (relation "measure (\<lambda>(s, cur). length s)") auto

declare fields_from.simps [simp del]

definition Fields :: "string \<Rightarrow> string list" where
  "Fields s = fields_from s []"

section \<open>Case\<close>

definition is_ascii :: "string \<Rightarrow> bool" where
  "is_ascii s \<longleftrightarrow> list_all (\<lambda>c. of_char c < (128::nat)) s"

definition lower_char :: "char \<Rightarrow> char" where
  "lower_char c = (if CHR ''A'' \<le> c \<and> c \<le> CHR ''Z'' then char_of (of_char c + (32::nat)) else c)"

definition upper_char :: "char \<Rightarrow> char" where
  "upper_char c = (if CHR ''a'' \<le> c \<and> c \<le> CHR ''z'' then char_of (of_char c - (32::nat)) else c)"

definition ToLower :: "(string \<Rightarrow> string) \<Rightarrow> string \<Rightarrow> string" where
  "ToLower uni s = (if is_ascii s then map lower_char s else uni s)"

definition ToUpper :: "(string \<Rightarrow> string) \<Rightarrow> string \<Rightarrow> string" where
  "ToUpper uni s = (if is_ascii s then map upper_char s else uni s)"

section \<open>Numbers\<close>

definition digit :: "nat \<Rightarrow> char" where
  "digit n = char_of (48 + n)"

definition is_digit :: "char \<Rightarrow> bool" where
  "is_digit c \<longleftrightarrow> CHR ''0'' \<le> c \<and> c \<le> CHR ''9''"

definition digit_val :: "char \<Rightarrow> nat" where
  "digit_val c = of_char c - 48"

fun nat_digits :: "nat \<Rightarrow> string" where
  "nat_digits n = (if n < 10 then [digit n] else nat_digits (n div 10) @ [digit (n mod 10)])"

declare nat_digits.simps [simp del]

text \<open>\<^verbatim>\<open>strconv.Itoa\<close>, \<^verbatim>\<open>fmt.Sprintf("%d", i)\<close>.\<close>

definition Itoa :: "int \<Rightarrow> string" where
  "Itoa i = (if i < 0 then CHR ''-'' # nat_digits (nat (- i)) else nat_digits (nat i))"

text \<open>\<^verbatim>\<open>fmt.Sprintf("%0*d", width, i)\<close> for a non-negative number.\<close>

definition zero_padded :: "nat \<Rightarrow> nat \<Rightarrow> string" where
  "zero_padded width n =
     (let d = nat_digits n in replicate (width - length d) (CHR ''0'') @ d)"

datatype num_error = ErrSyntax | ErrRange

text \<open>The digit loop of \<^verbatim>\<open>ParseUint(s, 10, 64)\<close>: it stops at the first byte that is no digit or
  at the first digit that leaves the range, whichever comes first.\<close>

fun parse_digits :: "nat \<Rightarrow> string \<Rightarrow> num_error + nat" where
  "parse_digits acc [] = Inr acc"
| "parse_digits acc (c # s) =
     (if \<not> is_digit c then Inl ErrSyntax
      else if 10 * acc + digit_val c \<ge> 2 ^ 64 then Inl ErrRange
      else parse_digits (10 * acc + digit_val c) s)"

text \<open>\<^verbatim>\<open>ParseInt(s, 10, 64)\<close> and \<^verbatim>\<open>Atoi\<close>: the value (the nearest bound on a range error, 0 on a
  syntax error) and the error.\<close>

definition ParseInt :: "string \<Rightarrow> int \<times> num_error option" where
  "ParseInt s0 =
     (let neg = (s0 \<noteq> [] \<and> hd s0 = CHR ''-'');
          s = (if s0 \<noteq> [] \<and> hd s0 \<in> {CHR ''-'', CHR ''+''} then tl s0 else s0)
      in if s = [] then (0, Some ErrSyntax)
         else case parse_digits 0 s of
             Inl ErrSyntax \<Rightarrow> (0, Some ErrSyntax)
           | Inl ErrRange \<Rightarrow> (if neg then - (2 ^ 63) else 2 ^ 63 - 1, Some ErrRange)
           | Inr un \<Rightarrow>
               if \<not> neg \<and> un \<ge> 2 ^ 63 then (2 ^ 63 - 1, Some ErrRange)
               else if neg \<and> un > 2 ^ 63 then (- (2 ^ 63), Some ErrRange)
               else (if neg then - int un else int un, None))"

abbreviation Atoi :: "string \<Rightarrow> int \<times> num_error option" where
  "Atoi \<equiv> ParseInt"

section \<open>Paths\<close>

fun clean_parts :: "bool \<Rightarrow> string list \<Rightarrow> string list \<Rightarrow> string list" where
  "clean_parts rooted [] out = rev out"
| "clean_parts rooted (e # es) out =
     (if e = [] \<or> e = ''.'' then clean_parts rooted es out
      else if e = ''..'' then
        (case out of
           [] \<Rightarrow> clean_parts rooted es (if rooted then [] else [''..''])
         | p # ps \<Rightarrow> clean_parts rooted es (if p = ''..'' then ''..'' # out else ps))
      else clean_parts rooted es (e # out))"

text \<open>\<^verbatim>\<open>filepath.Clean\<close>.\<close>

definition path_Clean :: "string \<Rightarrow> string" where
  "path_Clean path =
     (if path = [] then ''.''
      else
        let rooted = (hd path = CHR ''/''); parts = clean_parts rooted (Split path (CHR ''/'')) []
        in if rooted then CHR ''/'' # Join parts ''/''
           else if parts = [] then ''.'' else Join parts ''/'')"

definition after_last_slash :: "string \<Rightarrow> string" where
  "after_last_slash s = rev (takeWhile (\<lambda>c. c \<noteq> CHR ''/'') (rev s))"

text \<open>\<^verbatim>\<open>filepath.Base\<close>.\<close>

definition path_Base :: "string \<Rightarrow> string" where
  "path_Base path =
     (if path = [] then ''.''
      else
        let b = after_last_slash (rev (dropWhile (\<lambda>c. c = CHR ''/'') (rev path)))
        in if b = [] then ''/'' else b)"

text \<open>\<^verbatim>\<open>filepath.Dir\<close>.\<close>

definition path_Dir :: "string \<Rightarrow> string" where
  "path_Dir path = path_Clean (take (length path - length (after_last_slash path)) path)"

text \<open>\<^verbatim>\<open>filepath.Join\<close>.\<close>

fun path_Join :: "string list \<Rightarrow> string" where
  "path_Join [] = []"
| "path_Join (e # es) = (if e \<noteq> [] then path_Clean (Join (e # es) ''/'') else path_Join es)"

text \<open>\<^verbatim>\<open>filepath.Ext\<close>: from the last dot of the last path element.\<close>

definition path_Ext :: "string \<Rightarrow> string" where
  "path_Ext path =
     (let b = after_last_slash path in
      if CHR ''.'' \<in> set b then CHR ''.'' # rev (takeWhile (\<lambda>c. c \<noteq> CHR ''.'') (rev b)) else [])"

section \<open>Facts about numbers\<close>

lemma digit_range: "n < 10 \<Longrightarrow> is_digit (digit n) \<and> digit_val (digit n) = n"
  by (auto simp: is_digit_def digit_def digit_val_def less_eq_char_def)

lemma is_digit_nat_digits: "list_all is_digit (nat_digits n)"
proof (induction n rule: nat_digits.induct)
  case (1 n)
  then show ?case
    by (subst nat_digits.simps) (simp add: digit_range)
qed

lemma nat_digits_not_Nil [simp]: "nat_digits n \<noteq> []"
  by (subst nat_digits.simps) simp

lemma parse_digits_append:
  "parse_digits acc (s @ t) = (case parse_digits acc s of Inl e \<Rightarrow> Inl e | Inr n \<Rightarrow> parse_digits n t)"
  by (induction s arbitrary: acc) simp_all

lemma parse_nat_digits: "n < 2 ^ 64 \<Longrightarrow> parse_digits 0 (nat_digits n) = Inr n"
proof (induction n rule: nat_digits.induct)
  case (1 n)
  show ?case
  proof (cases "n < 10")
    case True
    then show ?thesis by (subst nat_digits.simps) (simp add: digit_range)
  next
    case False
    then have "parse_digits 0 (nat_digits (n div 10)) = Inr (n div 10)"
      using 1 by simp
    moreover have "10 * (n div 10) + n mod 10 = n" by simp
    ultimately show ?thesis
      using False "1.prems"
      by (subst nat_digits.simps) (simp add: parse_digits_append digit_range)
  qed
qed

lemma digit_not_sign: "is_digit c \<Longrightarrow> c \<notin> {CHR ''-'', CHR ''+''}"
  by (auto simp: is_digit_def less_eq_char_def)

lemma hd_nat_digits: "is_digit (hd (nat_digits n))"
  using is_digit_nat_digits [of n] by (metis list.pred_set list.set_sel(1) nat_digits_not_Nil)

text \<open>Printing a 64-bit integer and parsing it gives it back.\<close>

lemma ParseInt_Itoa: "is_int64 i \<Longrightarrow> ParseInt (Itoa i) = (i, None)"
proof (cases "i < 0")
  case True
  moreover assume "is_int64 i"
  ultimately have n: "nat (- i) \<le> 2 ^ 63" "int (nat (- i)) = - i" by (auto simp: is_int64_def)
  then have p: "parse_digits 0 (nat_digits (nat (- i))) = Inr (nat (- i))"
    by (intro parse_nat_digits) (rule order.strict_trans1, assumption, simp)
  show ?thesis using True n p by (simp add: ParseInt_def Itoa_def Let_def not_less [symmetric])
next
  case False
  moreover assume "is_int64 i"
  ultimately have n: "nat i < 2 ^ 63" "int (nat i) = i" by (auto simp: is_int64_def)
  then have p: "parse_digits 0 (nat_digits (nat i)) = Inr (nat i)"
    by (intro parse_nat_digits) (rule order.strict_trans, assumption, simp)
  have I: "Itoa i = nat_digits (nat i)" using False by (simp add: Itoa_def)
  show ?thesis
    unfolding ParseInt_def I
    using n p digit_not_sign [OF hd_nat_digits, of "nat i"] by (simp add: Let_def)
qed

text \<open>Distinct numbers print differently.\<close>

lemma length_nat_digits_bound: "n < 10 ^ k \<Longrightarrow> 0 < k \<Longrightarrow> length (nat_digits n) \<le> k"
proof (induction n arbitrary: k rule: nat_digits.induct)
  case (1 n)
  show ?case
  proof (cases "n < 10")
    case True
    then show ?thesis using "1.prems" by (subst nat_digits.simps) simp
  next
    case False
    then obtain j where k: "k = Suc j" "0 < j"
      using "1.prems" by (cases k; cases "k - 1") auto
    then have "n div 10 < 10 ^ j" using "1.prems" by (simp add: less_mult_imp_div_less mult.commute)
    then have "length (nat_digits (n div 10)) \<le> j" using 1 False k by blast
    then show ?thesis using False k by (subst nat_digits.simps) simp
  qed
qed

lemma ParseInt_int64: "ParseInt s = (i, None) \<Longrightarrow> is_int64 i"
  by (auto simp: ParseInt_def Let_def is_int64_def split: if_splits sum.splits num_error.splits)

section \<open>Files inside a directory\<close>

definition plain_name :: "string \<Rightarrow> bool" where
  "plain_name n \<longleftrightarrow> n \<noteq> [] \<and> CHR ''/'' \<notin> set n \<and> n \<noteq> ''.'' \<and> n \<noteq> ''..''"

text \<open>What \<^verbatim>\<open>filepath.Join\<close> puts before a plain file name.\<close>

definition dir_prefix :: "string \<Rightarrow> string" where
  "dir_prefix dir =
     (if dir = [] then []
      else
        let rooted = (hd dir = CHR ''/''); parts = clean_parts rooted (Split dir (CHR ''/'')) []
        in (if rooted then ''/'' else []) @ (if parts = [] then [] else Join parts ''/'' @ ''/''))"

lemma Split_not_Nil [simp]: "Split s c \<noteq> []"
  by (induction s) (auto split: list.splits)

lemma Split_plain: "c \<notin> set s \<Longrightarrow> Split s c = [s]"
  by (induction s) auto

lemma Split_append: "c \<notin> set t \<Longrightarrow> Split (s @ c # t) c = Split s c @ [t]"
  by (induction s) (auto simp: Split_plain split: list.splits)

lemma clean_parts_snoc:
  "plain_name n \<Longrightarrow> clean_parts r (es @ [n]) out = clean_parts r es out @ [n]"
  by (induction r es out rule: clean_parts.induct) (auto simp: plain_name_def split: list.splits)

lemma Join_snoc: "Join (es @ [n]) sep = (if es = [] then n else Join es sep @ sep @ n)"
  by (induction es sep rule: Join.induct) auto

lemma path_Join_plain:
  assumes "plain_name n"
  shows "path_Join [dir, n] = dir_prefix dir @ n"
proof (cases "dir = []")
  case True
  have "clean_parts False [n] [] = [n]" "hd n \<noteq> CHR ''/''"
    using clean_parts_snoc [OF assms, of False "[]" "[]"] assms by (cases n; auto simp: plain_name_def)+
  with True assms show ?thesis
    by (simp add: dir_prefix_def path_Clean_def Split_plain plain_name_def Let_def)
next
  case False
  have "Split (dir @ CHR ''/'' # n) (CHR ''/'') = Split dir (CHR ''/'') @ [n]"
    using assms by (intro Split_append) (simp add: plain_name_def)
  with False assms show ?thesis
    by (simp add: dir_prefix_def path_Clean_def clean_parts_snoc Join_snoc Let_def)
qed

lemma path_Join_plain_inject:
  "plain_name n \<Longrightarrow> plain_name n' \<Longrightarrow> path_Join [dir, n] = path_Join [dir, n'] \<longleftrightarrow> n = n'"
  by (simp add: path_Join_plain del: path_Join.simps)

text \<open>Cleaning a path keeps what follows its last slash, unless that is a dot or two.\<close>

lemma Split_suffix: "c \<notin> set v \<Longrightarrow> Split (u @ v) c = butlast (Split u c) @ [last (Split u c) @ v]"
  by (induction u) (auto simp: Split_plain split: list.splits)

lemma path_Clean_suffix:
  assumes "CHR ''/'' \<notin> set v" "\<And>t. t @ v \<notin> {[], ''.'', ''..''}"
  shows "\<exists>w. path_Clean (u @ v) = w @ v"
proof -
  let ?es = "butlast (Split u (CHR ''/''))" and ?t = "last (Split u (CHR ''/''))"
  have sl: "CHR ''/'' \<notin> set (last (Split s (CHR ''/'')))" for s
    by (induction s) (auto split: list.splits)
  have plain: "plain_name (?t @ v)" using assms sl [of u] by (auto simp: plain_name_def)
  have "\<exists>w. Join (clean_parts r (?es @ [?t @ v]) []) ''/'' = w @ v" for r
    by (auto simp: clean_parts_snoc [OF plain] Join_snoc)
  moreover have "u @ v \<noteq> []" using assms(2) [of u] by auto
  ultimately show ?thesis
    by (auto simp: path_Clean_def Let_def Split_suffix [OF assms(1)] clean_parts_snoc [OF plain])
      (metis append_Cons)+
qed

lemma path_Join_suffix:
  assumes "CHR ''/'' \<notin> set v" "\<And>t. t @ v \<notin> {[], ''.'', ''..''}"
  shows "\<exists>w. path_Join [dir, u @ v] = w @ v"
proof -
  have "u @ v \<noteq> []" using assms(2) [of u] by auto
  then show ?thesis
    using path_Clean_suffix [OF assms, of "dir @ ''/'' @ u"] path_Clean_suffix [OF assms, of u] by simp
qed

end
