(* ===== verification/Download_Links.thy ===== *)
theory Download_Links
  imports Go_Strings
begin

text \<open>
  Links of the download manager: \<^verbatim>\<open>internal/download/detector.go\<close> (link detection, file names) and
  \<^verbatim>\<open>internal/download/batch.go\<close> (batches of links with range patterns). Strings are byte strings; the
  regular expressions of \<^verbatim>\<open>batch.go\<close> are written out as matchers. \<^verbatim>\<open>NormalizeLink\<close> unwraps redirects with
  \<^verbatim>\<open>net/url\<close> and is a parameter.
\<close>

section \<open>Detection\<close>

datatype DownloadType = DownloadTypeDirect | DownloadTypeMagnet

definition web_link :: "string \<Rightarrow> bool" where
  "web_link lower \<longleftrightarrow> HasPrefix lower ''http://'' \<or> HasPrefix lower ''https://''"

definition IsDownloadLink :: "(string \<Rightarrow> string) \<Rightarrow> (string \<Rightarrow> string) \<Rightarrow> string \<Rightarrow> bool" where
  "IsDownloadLink uni NormalizeLink link =
     (let trimmed = TrimSpace link in
      if trimmed = [] then False
      else
        let norm = NormalizeLink trimmed; lower = ToLower uni norm in
        if web_link lower then length norm > 8 \<and> \<not> ContainsAny norm [CHR '' '', CHR 0x09, CHR 0x0D, CHR 0x0A]
        else if HasPrefix lower ''magnet:?'' then length norm > 8 \<and> Contains lower ''xt=urn:btih:''
        else False)"

definition DetectLinkType :: "(string \<Rightarrow> string) \<Rightarrow> (string \<Rightarrow> string) \<Rightarrow> string \<Rightarrow> DownloadType option" where
  "DetectLinkType uni NormalizeLink link =
     (let trimmed = TrimSpace link in
      if trimmed = [] then None
      else
        let lower = ToLower uni (NormalizeLink trimmed) in
        if web_link lower then Some DownloadTypeDirect
        else if HasPrefix lower ''magnet:?'' then Some DownloadTypeMagnet
        else None)"

definition or_fallback :: "string \<Rightarrow> string" where
  "or_fallback fallback = (if fallback \<noteq> [] then fallback else ''downloaded_file'')"

definition CleanFilename :: "string \<Rightarrow> string \<Rightarrow> string" where
  "CleanFilename name fallback =
     (let clean = path_Base (path_Clean (TrimSpace name)) in
      if clean \<in> {[], ''.'', ''/'', [CHR 0x5C], ''..''} then or_fallback fallback
      else
        let c1 = ReplaceAll clean (CHR 0x22) ''_''; c2 = ReplaceAll c1 (CHR 0x27) ''_'';
            c3 = ReplaceAll c2 (CHR ''/'') ''_''; c4 = ReplaceAll c3 (CHR 0x5C) ''_'';
            c5 = ReplaceAll c4 (CHR 0x0D) []; c6 = ReplaceAll c5 (CHR 0x0A) []
        in if Trim c6 ''._ '' = [] then or_fallback fallback else TrimRight c6 [CHR '' '', CHR 0x09])"

section \<open>Range patterns\<close>

definition maxBatchSize :: int where "maxBatchSize = 100"
definition maxPatternDepth :: nat where "maxPatternDepth = 3"

text \<open>The expressions \<^verbatim>\<open>\[(\d+)-(\d+)\]\<close> and \<^verbatim>\<open>\[([a-zA-Z])-([a-zA-Z])\]\<close> at the start of a string: the two groups
  and the rest.\<close>

definition is_letter :: "char \<Rightarrow> bool" where
  "is_letter c \<longleftrightarrow> (CHR ''a'' \<le> c \<and> c \<le> CHR ''z'') \<or> (CHR ''A'' \<le> c \<and> c \<le> CHR ''Z'')"

type_synonym matcher = "string \<Rightarrow> (string \<times> string \<times> string) option"

definition numRange :: matcher where
  "numRange s =
     (case s of
        [] \<Rightarrow> None
      | c # t \<Rightarrow>
          let a = takeWhile is_digit t; t1 = dropWhile is_digit t; b = takeWhile is_digit (tl t1); t2 = dropWhile is_digit (tl t1)
          in if c = CHR ''['' \<and> a \<noteq> [] \<and> t1 \<noteq> [] \<and> hd t1 = CHR ''-'' \<and> b \<noteq> [] \<and> t2 \<noteq> [] \<and> hd t2 = CHR '']''
             then Some (a, b, tl t2) else None)"

fun alphaRange :: matcher where
  "alphaRange (c0 # a # c1 # b # c2 # rest) =
     (if c0 = CHR ''['' \<and> is_letter a \<and> c1 = CHR ''-'' \<and> is_letter b \<and> c2 = CHR '']'' then Some ([a], [b], rest) else None)"
| "alphaRange _ = None"

text \<open>The leftmost match, with what precedes it; and the groups of all matches that do not overlap.\<close>

fun FindMatch :: "matcher \<Rightarrow> string \<Rightarrow> (string \<times> string \<times> string \<times> string) option" where
  "FindMatch m [] = None"
| "FindMatch m (c # s) =
     (case m (c # s) of
        Some (a, b, rest) \<Rightarrow> Some ([], a, b, rest)
      | None \<Rightarrow> map_option (\<lambda>(p, r). (c # p, r)) (FindMatch m s))"

function FindAll :: "matcher \<Rightarrow> string \<Rightarrow> (string \<times> string) list" where
  "FindAll m [] = []"
| "FindAll m (c # s) =
     (case m (c # s) of
        Some (a, b, rest) \<Rightarrow> (a, b) # (if length rest \<le> length s then FindAll m rest else [])
      | None \<Rightarrow> FindAll m s)"
  by pat_completeness auto
termination by (relation "measure (\<lambda>(m, s). length s)") auto

datatype batch_error = EmptyInput | PatternTooDeep | BatchTooLarge | NoLinks

text \<open>The projected number of combinations, one factor after the other, at the width of \<^verbatim>\<open>int\<close>.\<close>

definition num_span :: "string \<times> string \<Rightarrow> int option" where
  "num_span ab =
     (case ab of (a, b) \<Rightarrow>
        let sVal = fst (Atoi a); eVal = fst (Atoi b) in if sVal \<le> eVal then Some (wrap64 (eVal - sVal + 1)) else None)"

definition alpha_span :: "string \<times> string \<Rightarrow> int option" where
  "alpha_span ab =
     (case ab of (a, b) \<Rightarrow> if hd a \<le> hd b then Some (int (of_char (hd b)) - int (of_char (hd a)) + 1) else None)"

fun product_within :: "int \<Rightarrow> int \<Rightarrow> int option list \<Rightarrow> int option" where
  "product_within limit product [] = Some product"
| "product_within limit product (None # ds) = product_within limit product ds"
| "product_within limit product (Some d # ds) =
     (let p = wrap64 (product * d) in if p > limit then None else product_within limit p ds)"

definition validatePatternComplexity :: "string \<Rightarrow> int \<Rightarrow> batch_error option" where
  "validatePatternComplexity raw remainingLimit =
     (let numMatches = FindAll numRange raw; alphaMatches = FindAll alphaRange raw in
      if length numMatches + length alphaMatches > maxPatternDepth then Some PatternTooDeep
      else if product_within remainingLimit 1 (map num_span numMatches @ map alpha_span alphaMatches) = None
           then Some BatchTooLarge
      else None)"

text \<open>The loops of \<^verbatim>\<open>expandPattern\<close>: each substituted string is expanded in turn until \<open>maxItems\<close> are there.
  The first argument of \<open>expandPattern\<close> is how many levels \<^verbatim>\<open>maxPatternDepth\<close> still allows.\<close>

fun fill :: "(string \<Rightarrow> int \<Rightarrow> string list) \<Rightarrow> int \<Rightarrow> string list \<Rightarrow> string list \<Rightarrow> string list" where
  "fill expand maxItems [] out = out"
| "fill expand maxItems (sub # subs) out =
     (if int (length out) < maxItems
      then fill expand maxItems subs (out @ expand sub (maxItems - int (length out)))
      else out)"

definition format_index :: "string \<Rightarrow> string \<Rightarrow> int \<Rightarrow> string" where
  "format_index sStr eStr i =
     (if length sStr = length eStr \<and> HasPrefix sStr ''0'' then zero_padded (length sStr) (nat i) else Itoa i)"

definition num_subs :: "string \<Rightarrow> string list option" where
  "num_subs raw =
     (case FindMatch numRange raw of
        None \<Rightarrow> None
      | Some (pre, sStr, eStr, suf) \<Rightarrow>
          (case (Atoi sStr, Atoi eStr) of ((sVal, err1), (eVal, err2)) \<Rightarrow>
             if err1 = None \<and> err2 = None \<and> sVal \<le> eVal \<and> eVal - sVal < maxBatchSize
             then Some (map (\<lambda>i. pre @ format_index sStr eStr i @ suf) [sVal .. eVal])
             else None))"

definition alpha_subs :: "string \<Rightarrow> string list option" where
  "alpha_subs raw =
     (case FindMatch alphaRange raw of
        None \<Rightarrow> None
      | Some (pre, a, b, suf) \<Rightarrow>
          let sChar = of_char (hd a) :: nat; eChar = of_char (hd b) in
          if sChar \<le> eChar \<and> eChar - sChar < 26
          then Some (map (\<lambda>c. pre @ [char_of c] @ suf) [sChar ..< Suc eChar])
          else None)"

fun expandPattern :: "nat \<Rightarrow> string \<Rightarrow> int \<Rightarrow> string list" where
  "expandPattern 0 raw maxItems = [raw]"
| "expandPattern (Suc levels) raw maxItems =
     (if maxItems \<le> 0 then [raw]
      else case num_subs raw of
          Some subs \<Rightarrow> fill (expandPattern levels) maxItems subs []
        | None \<Rightarrow>
            (case alpha_subs raw of
               Some subs \<Rightarrow> fill (expandPattern levels) maxItems subs []
             | None \<Rightarrow> [raw]))"

text \<open>The tokens of the input and the loop over them; an error comes with the links found so far.\<close>

definition batch_tokens :: "string \<Rightarrow> string list" where
  "batch_tokens trimmed =
     filter (\<lambda>t. t \<noteq> [])
       (map TrimSpace (concat (map (\<lambda>line. let l = TrimSpace line in if l = [] then [] else Fields l) (Split trimmed (CHR 0x0A)))))"

fun add_links :: "(string \<Rightarrow> string) \<Rightarrow> string list \<Rightarrow> string list \<Rightarrow> string list \<times> batch_error option" where
  "add_links NormalizeLink [] results = (results, None)"
| "add_links NormalizeLink (u # us) results =
     (if int (length results) \<ge> maxBatchSize then (results, Some BatchTooLarge)
      else
        let norm = NormalizeLink u
        in add_links NormalizeLink us (if norm \<noteq> [] then results @ [norm] else results))"

fun expand_tokens :: "(string \<Rightarrow> string) \<Rightarrow> string list \<Rightarrow> string list \<Rightarrow> string list \<times> batch_error option" where
  "expand_tokens NormalizeLink [] results = (results, None)"
| "expand_tokens NormalizeLink (token # tokens) results =
     (let remaining = maxBatchSize - int (length results) in
      if remaining \<le> 0 then (results, Some BatchTooLarge)
      else case validatePatternComplexity token remaining of
          Some e \<Rightarrow> (results, Some e)
        | None \<Rightarrow>
            (case add_links NormalizeLink (expandPattern maxPatternDepth token remaining) results of
               (results', Some e) \<Rightarrow> (results', Some e)
             | (results', None) \<Rightarrow> expand_tokens NormalizeLink tokens results'))"

definition ExpandBatchLinks :: "(string \<Rightarrow> string) \<Rightarrow> string \<Rightarrow> string list \<times> batch_error option" where
  "ExpandBatchLinks NormalizeLink input =
     (let trimmed = TrimSpace input in
      if trimmed = [] then ([], Some EmptyInput)
      else case expand_tokens NormalizeLink (batch_tokens trimmed) [] of
          (results, Some e) \<Rightarrow> (results, Some e)
        | (results, None) \<Rightarrow> if results = [] then ([], Some NoLinks) else (results, None))"

section \<open>File names\<close>

lemma ReplaceAll_gone: "c \<notin> set new \<Longrightarrow> c \<notin> set (ReplaceAll s c new)"
  by (auto simp: ReplaceAll_def)

lemma ReplaceAll_keeps_out: "c \<notin> set s \<Longrightarrow> c \<notin> set new \<Longrightarrow> c \<notin> set (ReplaceAll s d new)"
  by (auto simp: ReplaceAll_def)

lemma set_TrimRight: "set (TrimRight s cs) \<subseteq> set s"
  using set_dropWhileD by (fastforce simp: TrimRight_def)

definition unsafe_chars :: "char set" where
  "unsafe_chars = {CHR ''/'', CHR 0x5C, CHR 0x22, CHR 0x27, CHR 0x0D, CHR 0x0A}"

lemma replaced_safe:
  "set (ReplaceAll (ReplaceAll (ReplaceAll (ReplaceAll (ReplaceAll (ReplaceAll s (CHR 0x22) ''_'') (CHR 0x27) ''_'')
     (CHR ''/'') ''_'') (CHR 0x5C) ''_'') (CHR 0x0D) []) (CHR 0x0A) []) \<inter> unsafe_chars = {}"
  unfolding unsafe_chars_def by (simp add: ReplaceAll_gone ReplaceAll_keeps_out)

lemma TrimRight_parts: "x \<in> set s \<Longrightarrow> x \<in> set (TrimRight s cs) \<or> x \<in> set cs"
proof -
  let ?P = "\<lambda>c. c \<in> set cs"
  assume "x \<in> set s"
  then have "x \<in> set (takeWhile ?P (rev s) @ dropWhile ?P (rev s))" by (simp only: takeWhile_dropWhile_id set_rev)
  then have "x \<in> set (takeWhile ?P (rev s)) \<or> x \<in> set (dropWhile ?P (rev s))" by (simp only: set_append Un_iff)
  then show ?thesis unfolding TrimRight_def set_rev by (auto dest: set_takeWhileD)
qed

lemma Trim_only: "set s \<subseteq> set cs \<Longrightarrow> Trim s cs = []"
proof -
  assume "set s \<subseteq> set cs"
  then have "dropWhile (\<lambda>c. c \<in> set cs) s = []" by (simp add: subset_iff)
  then show ?thesis by (simp only: Trim_def TrimRight_def rev.simps dropWhile.simps)
qed

lemma TrimRight_dots:
  assumes t: "TrimRight s [CHR '' '', CHR 0x09] \<in> {[], ''.'', ''..''}" and tab: "CHR 0x09 \<notin> set s"
  shows "Trim s ''._ '' = []"
proof (rule Trim_only)
  have "set (TrimRight s [CHR '' '', CHR 0x09]) \<subseteq> {CHR ''.''}" using t by auto
  then show "set s \<subseteq> set ''._ ''" using tab TrimRight_parts [of _ s "[CHR '' '', CHR 0x09]"] by fastforce
qed

section \<open>Batches\<close>

lemma length_fill:
  assumes "\<And>s n. 1 \<le> n \<Longrightarrow> int (length (f s n)) \<le> n"
  shows "int (length out) \<le> m \<Longrightarrow> int (length (fill f m subs out)) \<le> m"
proof (induction subs arbitrary: out)
  case (Cons s subs)
  show ?case
  proof (cases "int (length out) < m")
    case True
    then have "int (length (f s (m - int (length out)))) \<le> m - int (length out)" using assms by simp
    with True Cons show ?thesis by simp
  qed (use Cons in simp)
qed simp

lemma length_expandPattern: "1 \<le> m \<Longrightarrow> int (length (expandPattern k raw m)) \<le> m"
proof (induction k arbitrary: raw m)
  case (Suc k)
  then have "int (length (fill (expandPattern k) m subs [])) \<le> m" for subs by (intro length_fill) simp_all
  with Suc.prems show ?case by (simp split: option.splits)
qed simp

lemma add_links_bounded:
  assumes "int (length results) \<le> maxBatchSize" "[] \<notin> set results" "set results \<subseteq> range N"
  shows "int (length (fst (add_links N us results))) \<le> maxBatchSize \<and> [] \<notin> set (fst (add_links N us results)) \<and>
    set (fst (add_links N us results)) \<subseteq> range N"
  using assms by (induction N us results rule: add_links.induct) (auto simp: Let_def)

lemma expand_tokens_bounded:
  assumes "int (length results) \<le> maxBatchSize" "[] \<notin> set results" "set results \<subseteq> range N"
  shows "int (length (fst (expand_tokens N ts results))) \<le> maxBatchSize \<and> [] \<notin> set (fst (expand_tokens N ts results)) \<and>
    set (fst (expand_tokens N ts results)) \<subseteq> range N"
  using assms
proof (induction N ts results rule: expand_tokens.induct)
  case (2 N t ts results)
  let ?a = "add_links N (expandPattern maxPatternDepth t (maxBatchSize - int (length results))) results"
  have a: "int (length (fst ?a)) \<le> maxBatchSize" "[] \<notin> set (fst ?a)" "set (fst ?a) \<subseteq> range N"
    using add_links_bounded [OF "2.prems"] by blast+
  obtain rs e where A: "?a = (rs, e)" by fastforce
  note a = a [unfolded A fst_conv]
  consider "maxBatchSize - int (length results) \<le> 0"
    | "\<not> maxBatchSize - int (length results) \<le> 0" "validatePatternComplexity t (maxBatchSize - int (length results)) = None" "e = None"
    | "\<not> maxBatchSize - int (length results) \<le> 0" "e \<noteq> None \<or> validatePatternComplexity t (maxBatchSize - int (length results)) \<noteq> None"
    by blast
  then show ?case
  proof cases
    case 2
    have "(rs, None) = ?a" using A 2(3) by simp
    from "2.IH" [OF refl 2(1,2) this refl a] show ?thesis using 2 A by (simp add: Let_def)
  next
    case 3
    with A a "2.prems" show ?thesis by (auto simp: Let_def split: option.splits)
  qed (use "2.prems" in simp)
qed simp

section \<open>A single range\<close>

lemma takeWhile_digits: "list_all is_digit a \<Longrightarrow> \<not> is_digit c \<Longrightarrow> takeWhile is_digit (a @ c # t) = a"
  by (induction a) auto

lemma dropWhile_digits: "list_all is_digit a \<Longrightarrow> \<not> is_digit c \<Longrightarrow> dropWhile is_digit (a @ c # t) = c # t"
  by (induction a) auto

lemma numRange_here:
  assumes "list_all is_digit a" "a \<noteq> []" "list_all is_digit b" "b \<noteq> []"
  shows "numRange (CHR ''['' # a @ CHR ''-'' # b @ CHR '']'' # suf) = Some (a, b, suf)"
proof -
  have n: "\<not> is_digit (CHR ''-'')" "\<not> is_digit (CHR '']'')" by (simp_all add: is_digit_def less_eq_char_def)
  show ?thesis
    using n assms takeWhile_digits [OF assms(1) n(1)] dropWhile_digits [OF assms(1) n(1)]
      takeWhile_digits [OF assms(3) n(2)] dropWhile_digits [OF assms(3) n(2)] by (simp add: numRange_def)
qed

lemma no_bracket_match: "c \<noteq> CHR ''['' \<Longrightarrow> numRange (c # s) = None" "c \<noteq> CHR ''['' \<Longrightarrow> alphaRange (c # s) = None"
proof -
  show "c \<noteq> CHR ''['' \<Longrightarrow> numRange (c # s) = None" by (simp add: numRange_def Let_def)
  show "c \<noteq> CHR ''['' \<Longrightarrow> alphaRange (c # s) = None" by (cases "c # s" rule: alphaRange.cases) simp_all
qed

lemma FindMatch_skip:
  assumes "\<And>c s. c \<noteq> CHR ''['' \<Longrightarrow> m (c # s) = None" "CHR ''['' \<notin> set pre"
  shows "FindMatch m (pre @ t) = map_option (\<lambda>(p, r). (pre @ p, r)) (FindMatch m t)"
  using assms(2) by (induction pre) (auto simp: assms(1) option.map_comp comp_def case_prod_unfold option.map_ident)

lemma no_bracket_subs:
  assumes "CHR ''['' \<notin> set s"
  shows "num_subs s = None" "alpha_subs s = None"
  using FindMatch_skip [where m = numRange, OF no_bracket_match(1) assms, of "[]"]
    FindMatch_skip [where m = alphaRange, OF no_bracket_match(2) assms, of "[]"]
  by (simp_all add: num_subs_def alpha_subs_def)

lemma expand_plain: "CHR ''['' \<notin> set s \<Longrightarrow> expandPattern k s m = [s]"
  by (cases k) (simp_all add: no_bracket_subs)

lemma fill_plain:
  "(\<And>s. s \<in> set subs \<Longrightarrow> CHR ''['' \<notin> set s) \<Longrightarrow> int (length out + length subs) \<le> m \<Longrightarrow> fill (expandPattern k) m subs out = out @ subs"
  by (induction subs arbitrary: out) (auto simp: expand_plain)

lemma bracket_digits: "CHR ''['' \<notin> set (nat_digits n)"
  using is_digit_nat_digits [of n] by (auto simp: list_all_iff is_digit_def less_eq_char_def)

lemma bracket_format: "0 \<le> i \<Longrightarrow> CHR ''['' \<notin> set (format_index a b i)"
  using bracket_digits by (auto simp: format_index_def zero_padded_def Itoa_def Let_def)

section \<open>Properties\<close>

text \<open>a numeric range between two texts without brackets expands to exactly the numbers from its first to
  its last bound, in order, padded to the width of the bounds when they are equally long and start with a zero.\<close>

theorem numeric_range_expands:
  assumes "list_all is_digit a" "a \<noteq> []" "list_all is_digit b" "b \<noteq> []" "Atoi a = (i, None)" "Atoi b = (j, None)"
    and "CHR ''['' \<notin> set pre" "CHR ''['' \<notin> set suf" "0 \<le> i" "i \<le> j" "j - i < m" "m \<le> 100"
  shows "expandPattern maxPatternDepth (pre @ ''['' @ a @ ''-'' @ b @ '']'' @ suf) m =
    map (\<lambda>n. pre @ format_index a b n @ suf) [i .. j]"
proof -
  let ?raw = "pre @ CHR ''['' # a @ CHR ''-'' # b @ CHR '']'' # suf"
  let ?subs = "map (\<lambda>n. pre @ format_index a b n @ suf) [i .. j]"
  have "FindMatch numRange ?raw = Some (pre, a, b, suf)"
    using FindMatch_skip [where m = numRange, OF no_bracket_match(1) assms(7)] numRange_here [OF assms(1-4)] by simp
  then have "num_subs ?raw = Some ?subs" using assms by (simp add: num_subs_def maxBatchSize_def)
  moreover have "fill (expandPattern 2) m ?subs [] = ?subs"
    using assms(7-11) bracket_format by (subst fill_plain) auto
  ultimately show ?thesis using assms(9-11) by (simp add: maxPatternDepth_def numeral_3_eq_3 numeral_2_eq_2)
qed

theorem numeric_range_expands_witness:
  "expandPattern maxPatternDepth (''x'' @ ''['' @ ''08'' @ ''-'' @ ''10'' @ '']'' @ ''.z'') 5 = [''x08.z'', ''x09.z'', ''x10.z'']"
proof -
  have "Atoi ''08'' = (8, None)" "Atoi ''10'' = (10, None)"
    by (simp_all add: ParseInt_def is_digit_def digit_val_def less_eq_char_def)
  then have "expandPattern maxPatternDepth (''x'' @ ''['' @ ''08'' @ ''-'' @ ''10'' @ '']'' @ ''.z'') 5 =
      map (\<lambda>n. ''x'' @ format_index ''08'' ''10'' n @ ''.z'') [8 .. 10]"
    by (intro numeric_range_expands) (simp_all add: is_digit_def less_eq_char_def)
  then show ?thesis
    by (simp add: upto.simps format_index_def zero_padded_def nat_digits.simps digit_def char_of_def bit_0)
qed

lemma set_strip_seqs: "set (strip_seqs seqs s) \<subseteq> set s"
proof (induction seqs s rule: strip_seqs.induct)
  case (1 seqs s)
  then show ?case
    using set_drop_subset [of "seq_at seqs s" s] strip_seqs.simps [of seqs s] by (cases "s = [] \<or> seq_at seqs s = 0") auto
qed

lemma set_TrimSpace: "set (TrimSpace s) \<subseteq> set s"
  using set_strip_seqs [of "map rev space_seqs" "rev (strip_seqs space_seqs s)"] set_strip_seqs [of space_seqs s]
  by (auto simp: TrimSpace_def)

lemma set_Split: "p \<in> set (Split s c) \<Longrightarrow> set p \<subseteq> set s"
  by (induction s arbitrary: p) (fastforce split: if_splits list.splits)+

lemma set_clean_parts: "set (clean_parts r es out) \<subseteq> set es \<union> set out"
  by (induction r es out rule: clean_parts.induct) (auto split: if_splits list.splits)

lemma set_Join: "set (Join es sep) \<subseteq> \<Union> (set ` set es) \<union> set sep"
  by (induction es sep rule: Join.induct) auto

lemma set_path_Clean: "set (path_Clean s) \<subseteq> set s \<union> {CHR ''.'', CHR ''/''}"
proof -
  have "set (Join (clean_parts r (Split s (CHR ''/'')) []) ''/'') \<subseteq> set s \<union> {CHR ''/''}" for r
    using set_Join [of "clean_parts r (Split s (CHR ''/'')) []" "''/''"] set_clean_parts [of r "Split s (CHR ''/'')" "[]"]
      set_Split [of _ s] by fastforce
  from this [of True] this [of False] show ?thesis by (auto simp: path_Clean_def Let_def)
qed

lemma set_path_Base: "set (path_Base s) \<subseteq> set s \<union> {CHR ''.'', CHR ''/''}"
proof -
  have "set (after_last_slash (rev (dropWhile P (rev s)))) \<subseteq> set s" for P
    using set_takeWhileD set_dropWhileD by (fastforce simp: after_last_slash_def)
  then show ?thesis by (auto simp: path_Base_def Let_def)
qed

lemma cleaned_chars: "c \<notin> set name \<union> {CHR ''.'', CHR ''/''} \<Longrightarrow> c \<notin> set (path_Base (path_Clean (TrimSpace name)))"
  using set_path_Base set_path_Clean set_TrimSpace by blast

text \<open>a cleaned file name contains no path separator, quote or line break, and for a name without tabs it
  is neither empty nor one of the two directory names.\<close>

theorem CleanFilename_safe:
  assumes "set fallback \<inter> unsafe_chars = {}" "fallback \<notin> {''.'', ''..''}"
  shows "set (CleanFilename name fallback) \<inter> unsafe_chars = {} \<and>
    (CHR 0x09 \<notin> set name \<longrightarrow> CleanFilename name fallback \<notin> {[], ''.'', ''..''})"
proof -
  let ?b = "path_Base (path_Clean (TrimSpace name))"
  define c where "c = ReplaceAll (ReplaceAll (ReplaceAll (ReplaceAll (ReplaceAll (ReplaceAll ?b (CHR 0x22) ''_'') (CHR 0x27) ''_'')
     (CHR ''/'') ''_'') (CHR 0x5C) ''_'') (CHR 0x0D) []) (CHR 0x0A) []"
  have fb: "set (or_fallback fallback) \<inter> unsafe_chars = {}" "or_fallback fallback \<notin> {[], ''.'', ''..''}"
    using assms by (auto simp: or_fallback_def unsafe_chars_def)
  have safe: "set (TrimRight c cs) \<inter> unsafe_chars = {}" for cs
    using replaced_safe [of ?b] set_TrimRight [of c cs] unfolding c_def by blast
  have name: "TrimRight c [CHR '' '', CHR 0x09] \<notin> {[], ''.'', ''..''}" if "CHR 0x09 \<notin> set name" "Trim c ''._ '' \<noteq> []"
  proof -
    have t: "CHR 0x09 \<notin> set c" using cleaned_chars [of "CHR 0x09" name] that(1) by (simp add: c_def ReplaceAll_keeps_out)
    show ?thesis using TrimRight_dots [OF _ t] that(2) by blast
  qed
  have "CleanFilename name fallback = or_fallback fallback \<or>
      CleanFilename name fallback = TrimRight c [CHR '' '', CHR 0x09] \<and> Trim c ''._ '' \<noteq> []"
    by (simp add: CleanFilename_def Let_def c_def)
  then show ?thesis
  proof
    assume "CleanFilename name fallback = or_fallback fallback"
    with fb show ?thesis by simp
  next
    assume c: "CleanFilename name fallback = TrimRight c [CHR '' '', CHR 0x09] \<and> Trim c ''._ '' \<noteq> []"
    show ?thesis unfolding conjunct1 [OF c] using safe name c by blast
  qed
qed

theorem CleanFilename_safe_witness:
  "CleanFilename ''a/b'' ''f'' \<notin> {[], ''.'', ''..''}"
  using CleanFilename_safe [of "''f''" "''a/b''"] by (simp add: unsafe_chars_def)

text \<open>a tab hides the directory names: for such a path segment the cleaned name is the parent directory.\<close>

theorem CleanFilename_parent_directory:
  "CleanFilename (''x/..'' @ [CHR 0x09] @ ''/'') fallback = ''..''"
proof -
  have "path_Base (path_Clean (TrimSpace (''x/..'' @ [CHR 0x09] @ ''/''))) = ''..'' @ [CHR 0x09]" by code_simp
  then show ?thesis by (simp add: CleanFilename_def Let_def ReplaceAll_def Trim_def TrimRight_def)
qed

text \<open>a batch never yields more than a hundred links, with an error or without, and every link is
  non-empty and normalized.\<close>

theorem batch_bounded:
  "length (fst (ExpandBatchLinks N input)) \<le> 100 \<and> [] \<notin> set (fst (ExpandBatchLinks N input)) \<and>
   set (fst (ExpandBatchLinks N input)) \<subseteq> range N"
proof -
  have "length (fst (expand_tokens N ts [])) \<le> 100 \<and> [] \<notin> set (fst (expand_tokens N ts [])) \<and>
      set (fst (expand_tokens N ts [])) \<subseteq> range N" for ts
    using expand_tokens_bounded [of "[]" N ts] by (simp add: maxBatchSize_def)
  then show ?thesis
    by (simp add: ExpandBatchLinks_def Let_def split: prod.splits option.splits) (metis fst_conv)
qed

end
