(* ===== verification/Magnet.thy ===== *)
theory Magnet
  imports Download_Links
begin

text \<open>
  Magnet links: \<^verbatim>\<open>internal/download/magnet.go\<close>. The parameters of the URI as \<^verbatim>\<open>net/url\<close> reads them are an argument: for
  a name the list of its values, or \<^const>\<open>None\<close> when the URI does not parse. The base32 decoder of the standard
  library is written out for the one length the code gives it.
\<close>

section \<open>Base32\<close>

definition base32_digit :: "nat \<Rightarrow> char" where
  "base32_digit n = (if n < 26 then char_of (65 + n) else char_of (24 + n))"

definition base32_value :: "char \<Rightarrow> nat option" where
  "base32_value c =
     (let n = of_char c :: nat in
      if 65 \<le> n \<and> n \<le> 90 then Some (n - 65) else if 50 \<le> n \<and> n \<le> 55 then Some (n - 24) else None)"

fun from_digits :: "nat \<Rightarrow> nat list \<Rightarrow> nat" where
  "from_digits b [] = 0"
| "from_digits b (d # ds) = d * b ^ length ds + from_digits b ds"

fun to_digits :: "nat \<Rightarrow> nat \<Rightarrow> nat \<Rightarrow> nat list" where
  "to_digits b 0 n = []"
| "to_digits b (Suc k) n = n div b ^ k mod b # to_digits b k n"

text \<open>Eight digits are five bytes.\<close>

fun base32_groups :: "nat list \<Rightarrow> bytes" where
  "base32_groups (a # b # c # d # e # f # g # h # ds) =
     map of_nat (to_digits 256 5 (from_digits 32 [a, b, c, d, e, f, g, h])) @ base32_groups ds"
| "base32_groups _ = []"

text \<open>\<^verbatim>\<open>base32.StdEncoding.DecodeString\<close>, where twenty bytes come out: any character outside the alphabet is an error, or
  is skipped or padding, and then fewer bytes do.\<close>

definition base32_decode20 :: "string \<Rightarrow> bytes option" where
  "base32_decode20 s =
     (if length s = 32 \<and> list_all (\<lambda>c. base32_value c \<noteq> None) s then Some (base32_groups (map (the \<circ> base32_value) s)) else None)"

fun base32_encode :: "bytes \<Rightarrow> string" where
  "base32_encode (a # b # c # d # e # bs) =
     map base32_digit (to_digits 32 8 (from_digits 256 (map unat [a, b, c, d, e]))) @ base32_encode bs"
| "base32_encode _ = []"

section \<open>The parser\<close>

record MagnetInfo =
  mi_InfoHash :: bytes
  mi_HexHash :: string
  mi_DisplayName :: string
  mi_Trackers :: "string list"
  mi_WebSeeds :: "string list"
  mi_ExactSources :: "string list"
  mi_ExactLength :: int
  mi_PieceLength :: int

datatype magnet_error = NotMagnet | MalformedMagnet | NoTopic | NoInfoHash

definition topic_hash :: "(string \<Rightarrow> string) \<Rightarrow> string \<Rightarrow> (bytes \<times> string) option" where
  "topic_hash uni xt =
     (if \<not> HasPrefix (ToLower uni xt) ''urn:btih:'' then None
      else
        let rawHash = TrimSpace (TrimPrefix (TrimPrefix xt ''urn:btih:'') ''URN:BTIH:'') in
        if length rawHash = 40 then
          (case hex_decode rawHash of
             None \<Rightarrow> None
           | Some decoded \<Rightarrow> if length decoded = 20 then Some (decoded, ToLower uni rawHash) else None)
        else if length rawHash = 32 then
          (case base32_decode20 (ToUpper uni rawHash) of None \<Rightarrow> None | Some decoded \<Rightarrow> Some (decoded, hex_encode decoded))
        else None)"

fun first_hash :: "(string \<Rightarrow> string) \<Rightarrow> string list \<Rightarrow> (bytes \<times> string) option" where
  "first_hash uni [] = None"
| "first_hash uni (xt # xts) = (case topic_hash uni xt of Some r \<Rightarrow> Some r | None \<Rightarrow> first_hash uni xts)"

definition trimmed_values :: "string list \<Rightarrow> string list" where
  "trimmed_values vs = filter (\<lambda>v. v \<noteq> []) (map TrimSpace vs)"

definition first_value :: "string list \<Rightarrow> string" where
  "first_value vs = (case vs of [] \<Rightarrow> [] | v # _ \<Rightarrow> v)"

text \<open>\<^verbatim>\<open>xl\<close> and \<^verbatim>\<open>pl\<close>: a value that does not parse, or is out of range, counts as absent.\<close>

definition length_value :: "int \<Rightarrow> string \<Rightarrow> int" where
  "length_value least v = (if v = [] then 0 else case ParseInt v of (n, None) \<Rightarrow> (if n \<ge> least then n else 0) | (_, Some _) \<Rightarrow> 0)"

definition ParseMagnetURI ::
  "(string \<Rightarrow> string) \<Rightarrow> (string \<Rightarrow> (string \<Rightarrow> string list) option) \<Rightarrow> string \<Rightarrow> magnet_error + MagnetInfo" where
  "ParseMagnetURI uni query rawURI =
     (let raw = TrimSpace rawURI in
      if \<not> HasPrefix raw ''magnet:?'' then Inl NotMagnet
      else case query raw of
          None \<Rightarrow> Inl MalformedMagnet
        | Some q \<Rightarrow>
            if q ''xt'' = [] then Inl NoTopic
            else case first_hash uni (q ''xt'') of
                None \<Rightarrow> Inl NoInfoHash
              | Some (infoHash, hexHash) \<Rightarrow>
                  Inr \<lparr>mi_InfoHash = infoHash, mi_HexHash = hexHash,
                       mi_DisplayName = (let dn = first_value (q ''dn'') in if dn \<noteq> [] then CleanFilename dn [] else ''torrent_'' @ take 8 hexHash),
                       mi_Trackers = trimmed_values (q ''tr''), mi_WebSeeds = trimmed_values (q ''ws''),
                       mi_ExactSources = trimmed_values (q ''xs''), mi_ExactLength = length_value 0 (first_value (q ''xl'')),
                       mi_PieceLength = length_value 1 (first_value (q ''pl''))\<rparr>)"

section \<open>Digits\<close>

lemma length_to_digits [simp]: "length (to_digits b k n) = k"
  by (induction k) auto

lemma to_digits_less: "0 < b \<Longrightarrow> d \<in> set (to_digits b k n) \<Longrightarrow> d < b"
  by (induction k) auto

lemma to_digits_mod: "to_digits b k (n mod b ^ k) = to_digits b k n"
proof (induction k arbitrary: n)
  case (Suc k)
  have "n mod b ^ Suc k mod b ^ k = n mod b ^ k" by (simp add: mod_mod_cancel)
  then have "to_digits b k (n mod b ^ Suc k) = to_digits b k n" using Suc [of "n mod b ^ Suc k"] Suc [of n] by simp
  moreover have "n mod b ^ Suc k div b ^ k mod b = n div b ^ k mod b"
  proof -
    have "n mod (b ^ k * b) = b ^ k * (n div b ^ k mod b) + n mod b ^ k" by (rule mod_mult2_eq)
    then show ?thesis by (cases "b = 0") (auto simp: mult.commute div_mult_self4)
  qed
  ultimately show ?case by simp
qed simp

lemma from_to_digits: "from_digits b (to_digits b k n) = n mod b ^ k"
proof (induction k)
  case (Suc k)
  have "n mod (b ^ k * b) = b ^ k * (n div b ^ k mod b) + n mod b ^ k" by (rule mod_mult2_eq)
  then show ?case using Suc by (simp add: mult.commute)
qed simp

lemma from_digits_less: "0 < b \<Longrightarrow> list_all (\<lambda>d. d < b) ds \<Longrightarrow> from_digits b ds < b ^ length ds"
proof (induction ds)
  case (Cons d ds)
  then have "d * b ^ length ds + from_digits b ds < d * b ^ length ds + b ^ length ds" by simp
  also have "\<dots> = (d + 1) * b ^ length ds" by simp
  also have "\<dots> \<le> b * b ^ length ds" using Cons.prems by (intro mult_right_mono) auto
  finally show ?case by simp
qed simp

lemma to_from_digits: "0 < b \<Longrightarrow> list_all (\<lambda>d. d < b) ds \<Longrightarrow> to_digits b (length ds) (from_digits b ds) = ds"
proof (induction ds)
  case (Cons d ds)
  then have l: "from_digits b ds < b ^ length ds" "d < b" using from_digits_less by auto
  have "to_digits b (length ds) (d * b ^ length ds + from_digits b ds) = to_digits b (length ds) (from_digits b ds)"
    using to_digits_mod [of b "length ds" "d * b ^ length ds + from_digits b ds"] l by simp
  with Cons l show ?case by simp
qed simp

lemma digits_of_length: "length ds = k \<Longrightarrow> 0 < b \<Longrightarrow> list_all (\<lambda>d. d < b) ds \<Longrightarrow> to_digits b k (from_digits b ds) = ds"
  using to_from_digits by blast

lemma base32_value_digit: "n < 32 \<Longrightarrow> base32_value (base32_digit n) = Some n"
  by (auto simp: base32_value_def base32_digit_def Let_def)

section \<open>Both spellings of a hash\<close>

lemma base32_groups_append:
  assumes "length ds = 8"
  shows "base32_groups (ds @ rest) = map of_nat (to_digits 256 5 (from_digits 32 ds)) @ base32_groups rest"
proof -
  obtain x0 x1 x2 x3 x4 x5 x6 x7 where "ds = [x0, x1, x2, x3, x4, x5, x6, x7]"
    using assms by (auto simp: numeral_eq_Suc length_Suc_conv)
  then show ?thesis by (simp only: append_Cons append_Nil base32_groups.simps)
qed

lemma base32_group:
  assumes "length g = 5"
  shows "map of_nat (to_digits 256 5 (from_digits 32 (to_digits 32 8 (from_digits 256 (map unat g))))) = (g :: bytes)"
proof -
  have "from_digits 256 (map unat g) < 256 ^ length (map unat g)"
    using unat_byte_less by (intro from_digits_less) (simp_all add: list_all_iff)
  then have lt: "from_digits 256 (map unat g) mod 32 ^ 8 = from_digits 256 (map unat g)" using assms by simp
  have "to_digits 256 5 (from_digits 256 (map unat g)) = map unat g"
    using unat_byte_less assms by (intro digits_of_length) (simp_all add: list_all_iff)
  then show ?thesis unfolding from_to_digits lt by (simp add: comp_def)
qed

lemma base32_digits_value:
  assumes "list_all (\<lambda>d. d < 32) ds"
  shows "map (the \<circ> base32_value) (map base32_digit ds) = ds" "list_all (\<lambda>c. base32_value c \<noteq> None) (map base32_digit ds)"
  using assms by (induction ds) (auto simp: base32_value_digit)

lemma base32_groups_encode: "length bs mod 5 = 0 \<Longrightarrow> list_all (\<lambda>c. base32_value c \<noteq> None) (base32_encode bs) \<and>
    length (base32_encode bs) = 8 * (length bs div 5) \<and> base32_groups (map (the \<circ> base32_value) (base32_encode bs)) = bs"
proof (induction bs rule: base32_encode.induct)
  case (1 a b c d e bs)
  define ds where "ds = to_digits 32 8 (from_digits 256 (map unat [a, b, c, d, e]))"
  have ds: "length ds = 8" "list_all (\<lambda>d. d < 32) ds"
    using to_digits_less [of 32 _ 8] by (simp_all add: ds_def list_all_iff del: to_digits.simps)
  have enc: "base32_encode (a # b # c # d # e # bs) = map base32_digit ds @ base32_encode bs"
    unfolding ds_def base32_encode.simps ..
  have g: "map of_nat (to_digits 256 5 (from_digits 32 ds)) = [a, b, c, d, e]"
    unfolding ds_def by (rule base32_group) simp
  have "length bs mod 5 = 0" using 1(2) by simp
  from 1(1) [OF this] have IH: "list_all (\<lambda>c. base32_value c \<noteq> None) (base32_encode bs)"
    "length (base32_encode bs) = 8 * (length bs div 5)" "base32_groups (map (the \<circ> base32_value) (base32_encode bs)) = bs"
    by blast+
  show ?case
    unfolding enc map_append base32_digits_value(1) [OF ds(2)] base32_groups_append [OF ds(1)] g
    using base32_digits_value(2) [OF ds(2)] IH ds(1) by (simp add: div_add_self1)
qed auto

lemma base32_decode_encode: "length h = 20 \<Longrightarrow> base32_decode20 (base32_encode h) = Some h"
  using base32_groups_encode [of h] by (simp add: base32_decode20_def)

lemma length_base32_groups: "length ds mod 8 = 0 \<Longrightarrow> length (base32_groups ds) = 5 * (length ds div 8)"
  by (induction ds rule: base32_groups.induct) (auto simp del: to_digits.simps from_digits.simps)

lemma length_base32_decode20: "base32_decode20 s = Some b \<Longrightarrow> length b = 20"
  using length_base32_groups [of "map (the \<circ> base32_value) s"] by (auto simp: base32_decode20_def split: if_splits)

lemma of_char_hexdigit: "n < 16 \<Longrightarrow> of_char (hexdigit n) = (if n < 10 then 48 + n else 87 + n)"
proof -
  assume "n < 16"
  then have "n \<in> set [0..<16]" by simp
  then show ?thesis by (simp add: upt_rec hexdigit_def) (elim disjE; simp)
qed

lemma unhexdigit_lower:
  assumes "unhexdigit c = Some n"
  shows "of_char c < (128 :: nat) \<and> lower_char c = hexdigit n \<and> n < 16"
proof -
  let ?k = "of_char c :: nat"
  have n: "n < 16" "?k = (if n < 10 then 48 + n else if ?k \<ge> 97 then 87 + n else 55 + n)"
    using assms by (auto simp: unhexdigit_def Let_def split: if_splits)
  have "of_char (lower_char c) = (if 65 \<le> ?k \<and> ?k \<le> 90 then ?k + 32 else ?k)"
    by (simp add: lower_char_def less_eq_char_def)
  then have "of_char (lower_char c) = (of_char (hexdigit n) :: nat)"
    using n of_char_hexdigit [OF n(1)] by (auto split: if_splits)
  then show ?thesis using n by (auto split: if_splits)
qed

lemma hex_decode_lower:
  "hex_decode s = Some b \<Longrightarrow> is_ascii s \<and> map lower_char s = hex_encode b \<and> length s = 2 * length b"
proof (induction s arbitrary: b rule: hex_decode.induct)
  case (3 c1 c2 cs)
  obtain x y b' where xy: "unhexdigit c1 = Some x" "unhexdigit c2 = Some y" "hex_decode cs = Some b'" "b = of_nat (16 * x + y) # b'"
    using "3.prems" by (auto split: option.splits)
  note d = unhexdigit_lower
  have "hex_byte (of_nat (16 * x + y)) = [hexdigit x, hexdigit y]"
  proof -
    have "x < 16" "y < 16" using d xy(1,2) by blast+
    moreover from this have "unat (of_nat (16 * x + y) :: byte) = 16 * x + y" by (simp add: unat_of_nat del: of_nat_add of_nat_mult)
    ultimately show ?thesis by (simp add: hex_byte_def del: of_nat_add of_nat_mult)
  qed
  then show ?case using "3.IH" xy d by (simp add: is_ascii_def hex_encode_def)
qed (auto simp: is_ascii_def hex_encode_def)

lemma of_lower_char: "of_char (lower_char c) = (let n = of_char c :: nat in if 65 \<le> n \<and> n \<le> 90 then n + 32 else n)"
  by (auto simp: lower_char_def less_eq_char_def Let_def)

lemma unhexdigit_lower_char: "unhexdigit (lower_char c) = unhexdigit c"
  by (auto simp: unhexdigit_def of_lower_char Let_def)

lemma hex_decode_map_lower: "hex_decode (map lower_char s) = hex_decode s"
  by (induction s rule: hex_decode.induct) (auto simp: unhexdigit_lower_char split: option.splits)

text \<open>The characters of a hash are neither white space nor a colon.\<close>

definition plain_char :: "char \<Rightarrow> bool" where
  "plain_char c \<longleftrightarrow> 33 \<le> (of_char c :: nat) \<and> (of_char c :: nat) < 128 \<and> c \<noteq> CHR '':''"

lemma seq_at_plain:
  assumes "list_all plain_char s" "list_all (\<lambda>p. p \<noteq> [] \<and> \<not> plain_char (hd p)) seqs"
  shows "seq_at seqs s = 0"
proof -
  have "\<not> prefix p s" if "p \<in> set seqs" for p
  proof
    assume "prefix p s"
    moreover have "p \<noteq> []" "\<not> plain_char (hd p)" using that assms(2) by (auto simp: list_all_iff)
    ultimately have "hd p \<in> set s" by (auto simp: prefix_def)
    with \<open>\<not> plain_char (hd p)\<close> show False using assms(1) by (auto simp: list_all_iff)
  qed
  then have "find (\<lambda>p. prefix p s) seqs = None" by (simp add: find_None_iff)
  then show ?thesis by (simp add: seq_at_def)
qed

lemma strip_plain:
  assumes "list_all plain_char s" "list_all (\<lambda>p. p \<noteq> [] \<and> \<not> plain_char (hd p)) seqs"
  shows "strip_seqs seqs s = s"
  using seq_at_plain [OF assms] by (simp add: strip_seqs.simps)

lemma space_not_plain:
  "list_all (\<lambda>p. p \<noteq> [] \<and> \<not> plain_char (hd p)) space_seqs"
  "list_all (\<lambda>p. p \<noteq> [] \<and> \<not> plain_char (hd p)) (map rev space_seqs)"
  by (simp_all add: space_seqs_def plain_char_def)

lemma TrimSpace_plain: "list_all plain_char s \<Longrightarrow> TrimSpace s = s"
  using strip_plain [OF _ space_not_plain(1), of s] strip_plain [OF _ space_not_plain(2), of "rev s"] by (simp add: TrimSpace_def)

lemma plain_ascii: "list_all plain_char s \<Longrightarrow> is_ascii s"
  by (auto simp: list_all_iff is_ascii_def plain_char_def)

lemma hexdigit_plain: "unhexdigit c \<noteq> None \<Longrightarrow> plain_char c"
  by (auto simp: unhexdigit_def plain_char_def Let_def split: if_splits)

lemma hex_decode_digits: "hex_decode s \<noteq> None \<Longrightarrow> list_all (\<lambda>c. unhexdigit c \<noteq> None) s"
  by (induction s rule: hex_decode.induct) (auto split: option.splits)

lemma base32_value_plain: "base32_value (upper_char c) \<noteq> None \<Longrightarrow> plain_char c"
  by (auto simp: base32_value_def plain_char_def upper_char_def less_eq_char_def Let_def split: if_splits)

section \<open>What a link names\<close>

lemma topic_hash_plain:
  assumes "list_all plain_char s"
  shows "topic_hash uni (''urn:btih:'' @ s) =
    (if length s = 40 then (case hex_decode s of None \<Rightarrow> None | Some d \<Rightarrow> if length d = 20 then Some (d, ToLower uni s) else None)
     else if length s = 32 then map_option (\<lambda>d. (d, hex_encode d)) (base32_decode20 (ToUpper uni s)) else None)"
proof -
  have a: "is_ascii (''urn:btih:'' @ s)" using plain_ascii [OF assms] by (simp add: is_ascii_def)
  have "CHR '':'' \<notin> set s" using assms by (auto simp: list_all_iff plain_char_def)
  then have "\<not> prefix ''URN:BTIH:'' s" by (auto simp: prefix_def)
  moreover have "prefix ''urn:btih:'' (ToLower uni (''urn:btih:'' @ s))"
    using a by (simp add: ToLower_def lower_char_def less_eq_char_def)
  ultimately show ?thesis
    using TrimSpace_plain [OF assms] by (simp add: topic_hash_def TrimPrefix_def Let_def map_option_case)
qed

definition spells :: "string \<Rightarrow> bytes \<Rightarrow> bool" where
  "spells s h \<longleftrightarrow> length h = 20 \<and> (map lower_char s = hex_encode h \<or> map upper_char s = base32_encode h)"

lemma topic_hash_spelled:
  assumes "spells s h"
  shows "topic_hash uni (''urn:btih:'' @ s) = Some (h, hex_encode h)"
proof (cases "map lower_char s = hex_encode h")
  case True
  have d: "hex_decode s = Some h" using hex_decode_map_lower [of s] True by simp
  then have p: "list_all plain_char s" using hex_decode_digits [of s] hexdigit_plain by (auto simp: list_all_iff)
  have "length s = 40" using arg_cong [OF True, of length] assms by (simp add: spells_def)
  then show ?thesis
    unfolding topic_hash_plain [OF p] using d assms True plain_ascii [OF p] by (simp add: spells_def ToLower_def)
next
  case False
  then have e: "map upper_char s = base32_encode h" "length h = 20" using assms by (auto simp: spells_def)
  have "length (map upper_char s) = 32" unfolding e(1) using base32_groups_encode [of h] e(2) by simp
  then have g: "list_all (\<lambda>c. base32_value c \<noteq> None) (map upper_char s)" "length s = 32"
    using base32_groups_encode [of h] e unfolding length_map by simp_all
  have p: "list_all plain_char s" using g(1) base32_value_plain by (auto simp: list_all_iff)
  then show ?thesis
    unfolding topic_hash_plain [OF p] using g(2) e base32_decode_encode [OF e(2)] plain_ascii [OF p] by (simp add: ToUpper_def)
qed

lemma topic_hash_exact:
  assumes "topic_hash uni xt = Some (h, x)"
  shows "length h = 20 \<and> x = hex_encode h"
proof -
  let ?s = "TrimSpace (TrimPrefix (TrimPrefix xt ''urn:btih:'') ''URN:BTIH:'')"
  consider "hex_decode ?s = Some h" "length h = 20" "x = ToLower uni ?s"
    | "base32_decode20 (ToUpper uni ?s) = Some h" "x = hex_encode h" "length ?s = 32"
    using assms by (auto simp: topic_hash_def Let_def split: if_splits option.splits)
  then show ?thesis
  proof cases
    case 1
    with hex_decode_lower [of ?s h] show ?thesis by (simp add: ToLower_def)
  next
    case 2
    then show ?thesis using length_base32_decode20 by blast
  qed
qed

lemma first_hash_exact: "first_hash uni xts = Some (h, x) \<Longrightarrow> length h = 20 \<and> x = hex_encode h"
  by (induction xts) (auto dest: topic_hash_exact split: option.splits)

text \<open>C28: a magnet link is read as the torrent it names. When the first \<^verbatim>\<open>xt\<close> of a link spells a 20-byte info hash in
  hexadecimal or in base32, in letters of any case, the parse succeeds with exactly that hash, whatever the other
  parameters are; every hash the parser accepts has twenty bytes, and the string beside it is its encoding.\<close>

theorem magnet_identity:
  assumes "HasPrefix (TrimSpace raw) ''magnet:?''" "query (TrimSpace raw) = Some q"
    and "q ''xt'' = (''urn:btih:'' @ s) # rest" "spells s h"
  shows "\<exists>info. ParseMagnetURI uni query raw = Inr info \<and> mi_InfoHash info = h \<and> mi_HexHash info = hex_encode h \<and>
    (\<forall>raw' info'. ParseMagnetURI uni query raw' = Inr info' \<longrightarrow>
       length (mi_InfoHash info') = 20 \<and> mi_HexHash info' = hex_encode (mi_InfoHash info'))"
proof -
  have "length (mi_InfoHash i) = 20 \<and> mi_HexHash i = hex_encode (mi_InfoHash i)" if "ParseMagnetURI uni query r = Inr i" for r i
    using that first_hash_exact by (auto simp: ParseMagnetURI_def Let_def split: if_splits option.splits)
  then show ?thesis using assms topic_hash_spelled [OF assms(4), of uni] by (simp add: ParseMagnetURI_def Let_def)
qed

theorem magnet_identity_witness:
  "\<exists>info. ParseMagnetURI id (\<lambda>_. Some (\<lambda>k. if k = ''xt'' then [''urn:btih:000102030405060708090A0B0C0D0E0F10111213''] else []))
       ''magnet:?xt=urn:btih:000102030405060708090A0B0C0D0E0F10111213'' = Inr info \<and>
     mi_InfoHash info = map of_nat [0..<20]"
proof -
  have t: "TrimSpace ''magnet:?xt=urn:btih:000102030405060708090A0B0C0D0E0F10111213'' = ''magnet:?xt=urn:btih:000102030405060708090A0B0C0D0E0F10111213''"
    by code_simp
  have "spells ''000102030405060708090A0B0C0D0E0F10111213'' (map of_nat [0..<20])" by code_simp
  from magnet_identity [OF _ _ _ this, of "''magnet:?xt=urn:btih:000102030405060708090A0B0C0D0E0F10111213''"
      "\<lambda>_. Some (\<lambda>k. if k = ''xt'' then [''urn:btih:000102030405060708090A0B0C0D0E0F10111213''] else [])" _ "[]" id]
  show ?thesis unfolding t by auto
qed

end
