(* ===== verification/Network_Safety.thy ===== *)
theory Network_Safety
  imports Go_Strings
begin

text \<open>
  The address checks of the downloader: \<^verbatim>\<open>internal/download/security.go\<close>. A \<^verbatim>\<open>net.IP\<close> is its byte slice, of
  length 4 or 16. What the checks use of \<^verbatim>\<open>net\<close> and \<^verbatim>\<open>net/netip\<close> comes first. The split of a URL into scheme and
  host and the answers of the resolver are fields of the environment; the resolver may answer differently from
  one call to the next, so every call has an environment of its own. A connection is the address it is made to.
\<close>

unbundle bit_operations_syntax

section \<open>Addresses\<close>

definition mapped :: "bytes \<Rightarrow> bytes" where
  "mapped v4 = replicate 10 0 @ [0xff, 0xff] @ v4"

definition To4 :: "bytes \<Rightarrow> bytes option" where
  "To4 ip =
     (if length ip = 4 then Some ip
      else if length ip = 16 \<and> take 12 ip = replicate 10 0 @ [0xff, 0xff] then Some (drop 12 ip)
      else None)"

definition IPv6loopback :: bytes where "IPv6loopback = replicate 15 0 @ [1]"

definition IsLoopback :: "bytes \<Rightarrow> bool" where
  "IsLoopback ip = (case To4 ip of Some v \<Rightarrow> v ! 0 = 127 | None \<Rightarrow> ip = IPv6loopback)"

definition IsLinkLocalUnicast :: "bytes \<Rightarrow> bool" where
  "IsLinkLocalUnicast ip =
     (case To4 ip of
        Some v \<Rightarrow> v ! 0 = 169 \<and> v ! 1 = 254
      | None \<Rightarrow> length ip = 16 \<and> ip ! 0 = 0xfe \<and> ip ! 1 AND 0xc0 = 0x80)"

definition IsLinkLocalMulticast :: "bytes \<Rightarrow> bool" where
  "IsLinkLocalMulticast ip =
     (case To4 ip of
        Some v \<Rightarrow> v ! 0 = 224 \<and> v ! 1 = 0 \<and> v ! 2 = 0
      | None \<Rightarrow> length ip = 16 \<and> ip ! 0 = 0xff \<and> ip ! 1 AND 0x0f = 0x02)"

definition IsPrivate :: "bytes \<Rightarrow> bool" where
  "IsPrivate ip =
     (case To4 ip of
        Some v \<Rightarrow> v ! 0 = 10 \<or> v ! 0 = 172 \<and> v ! 1 AND 0xf0 = 16 \<or> v ! 0 = 192 \<and> v ! 1 = 168
      | None \<Rightarrow> length ip = 16 \<and> ip ! 0 AND 0xfe = 0xfc)"

text \<open>\<^verbatim>\<open>net.CIDRMask\<close>, the network \<^verbatim>\<open>net.ParseCIDR\<close> returns for an address and a prefix length, and
  \<^verbatim>\<open>IPNet.Contains\<close>.\<close>

fun CIDRMask :: "nat \<Rightarrow> nat \<Rightarrow> bytes" where
  "CIDRMask ones 0 = []"
| "CIDRMask ones (Suc len) = (if ones \<ge> 8 then 0xff # CIDRMask (ones - 8) len else NOT (mask (8 - ones)) # CIDRMask 0 len)"

definition and_bytes :: "bytes \<Rightarrow> bytes \<Rightarrow> bytes" where
  "and_bytes xs ys = map (\<lambda>(x, y). x AND y) (zip xs ys)"

definition cidr :: "bytes \<Rightarrow> nat \<Rightarrow> bytes \<times> bytes" where
  "cidr ip ones = (let m = CIDRMask ones (length ip) in (and_bytes ip m, m))"

definition ipnet_Contains :: "bytes \<times> bytes \<Rightarrow> bytes \<Rightarrow> bool" where
  "ipnet_Contains n ip =
     (let ip = (case To4 ip of Some v \<Rightarrow> v | None \<Rightarrow> ip)
      in length ip = length (fst n) \<and> and_bytes (fst n) (snd n) = and_bytes ip (snd n))"

text \<open>\<^verbatim>\<open>net.ParseIP\<close>: the dotted form, and groups of hexadecimal digits with at most one ellipsis and possibly a
  dotted tail; an address with a zone is refused. The result always has 16 bytes.\<close>

definition dotted_octet :: "string \<Rightarrow> byte option" where
  "dotted_octet s =
     (if s = [] \<or> \<not> list_all is_digit s \<or> (length s > 1 \<and> hd s = CHR ''0'') then None
      else let n = foldl (\<lambda>a c. a * 10 + digit_val c) 0 s in if n > 255 then None else Some (of_nat n))"

definition parseIPv4 :: "string \<Rightarrow> bytes option" where
  "parseIPv4 s =
     (case map dotted_octet (Split s (CHR ''.'')) of
        [Some a, Some b, Some c, Some d] \<Rightarrow> Some [a, b, c, d]
      | _ \<Rightarrow> None)"

definition is_hex :: "char \<Rightarrow> bool" where
  "is_hex c \<longleftrightarrow> unhexdigit c \<noteq> None"

definition hex_value :: "string \<Rightarrow> nat" where
  "hex_value s = foldl (\<lambda>a c. a * 16 + the (unhexdigit c)) 0 s"

fun v6_groups :: "nat \<Rightarrow> bytes \<Rightarrow> nat option \<Rightarrow> string \<Rightarrow> (bytes \<times> nat option \<times> string) option" where
  "v6_groups 0 ip ellipsis s = Some (ip, ellipsis, s)"
| "v6_groups (Suc n) ip ellipsis s =
     (let ds = takeWhile is_hex s; t = dropWhile is_hex s; ip1 = ip @ [of_nat (hex_value ds div 256), of_nat (hex_value ds)] in
      if ds = [] \<or> length ds > 4 then None
      else if t \<noteq> [] \<and> hd t = CHR ''.'' then
        if ellipsis = None \<and> length ip \<noteq> 12 \<or> length ip + 4 > 16 then None
        else (case parseIPv4 s of None \<Rightarrow> None | Some v \<Rightarrow> Some (ip @ v, ellipsis, []))
      else if t = [] then Some (ip1, ellipsis, [])
      else if hd t \<noteq> CHR '':'' \<or> tl t = [] then None
      else if hd (tl t) = CHR '':'' then
        if ellipsis \<noteq> None then None
        else if tl (tl t) = [] then Some (ip1, Some (length ip1), [])
        else v6_groups n ip1 (Some (length ip1)) (tl (tl t))
      else v6_groups n ip1 ellipsis (tl t))"

definition parseIPv6 :: "string \<Rightarrow> bytes option" where
  "parseIPv6 s =
     (let lead = HasPrefix s ''::'' in
      if lead \<and> drop 2 s = [] then Some (replicate 16 0)
      else case v6_groups 8 [] (if lead then Some 0 else None) (if lead then drop 2 s else s) of
          None \<Rightarrow> None
        | Some (ip, ellipsis, rest) \<Rightarrow>
            if rest \<noteq> [] then None
            else if length ip < 16 then
              (case ellipsis of None \<Rightarrow> None | Some k \<Rightarrow> Some (take k ip @ replicate (16 - length ip) 0 @ drop k ip))
            else if ellipsis \<noteq> None then None
            else Some ip)"

definition ParseIP :: "string \<Rightarrow> bytes option" where
  "ParseIP s =
     (case find (\<lambda>c. c \<in> {CHR ''.'', CHR '':'', CHR ''%''}) s of
        None \<Rightarrow> None
      | Some c \<Rightarrow>
          if c = CHR ''.'' then map_option mapped (parseIPv4 s)
          else if CHR ''%'' \<in> set s then None
          else parseIPv6 s)"

text \<open>\<^verbatim>\<open>net.SplitHostPort\<close>.\<close>

definition last_colon :: "string \<Rightarrow> nat" where
  "last_colon s = length s - Suc (length (takeWhile (\<lambda>c. c \<noteq> CHR '':'') (rev s)))"

definition SplitHostPort :: "string \<Rightarrow> (string \<times> string) option" where
  "SplitHostPort s =
     (let i = last_colon s; end = length (takeWhile (\<lambda>c. c \<noteq> CHR '']'') s);
          bracket = (s \<noteq> [] \<and> hd s = CHR ''['');
          host = (if bracket then drop 1 (take end s) else take i s)
      in if CHR '':'' \<notin> set s then None
         else if bracket \<and> (CHR '']'' \<notin> set s \<or> end + 1 \<noteq> i) then None
         else if \<not> bracket \<and> CHR '':'' \<in> set host then None
         else if CHR ''['' \<in> set (if bracket then drop 1 s else s) \<or> CHR '']'' \<in> set (if bracket then drop (end + 1) s else s) then None
         else Some (host, drop (i + 1) s))"

text \<open>\<^verbatim>\<open>strings.EqualFold\<close> against an ASCII string: besides the ASCII letters only the long s (U+017F) and the Kelvin
  sign (U+212A) fold to one.\<close>

fun fold_ascii :: "string \<Rightarrow> string" where
  "fold_ascii (a # b # c # s) =
     (if a = CHR 0xC5 \<and> b = CHR 0xBF then CHR ''s'' # fold_ascii (c # s)
      else if a = CHR 0xE2 \<and> b = CHR 0x84 \<and> c = CHR 0xAA then CHR ''k'' # fold_ascii s
      else lower_char a # fold_ascii (b # c # s))"
| "fold_ascii [a, b] = (if a = CHR 0xC5 \<and> b = CHR 0xBF then ''s'' else [lower_char a, lower_char b])"
| "fold_ascii [a] = [lower_char a]"
| "fold_ascii [] = []"

definition is_localhost :: "string \<Rightarrow> bool" where
  "is_localhost host \<longleftrightarrow> fold_ascii host = ''localhost''"

section \<open>The checks\<close>

definition privateCIDRs :: "(bytes \<times> bytes) list" where
  "privateCIDRs =
     [cidr [127, 0, 0, 0] 8, cidr [10, 0, 0, 0] 8, cidr [172, 16, 0, 0] 12, cidr [192, 168, 0, 0] 16, cidr [169, 254, 0, 0] 16,
      cidr [0, 0, 0, 0] 8, cidr (replicate 15 0 @ [1]) 128, cidr ([0xfe, 0x80] @ replicate 14 0) 10, cidr (0xfc # replicate 15 0) 7]"

definition IsPrivateIP :: "bytes \<Rightarrow> bool" where
  "IsPrivateIP ip =
     (if ip = [] then False
      else if IsLoopback ip \<or> IsLinkLocalUnicast ip \<or> IsLinkLocalMulticast ip \<or> IsPrivate ip then True
      else list_ex (\<lambda>block. ipnet_Contains block ip) privateCIDRs)"

record NetEnv =
  ne_url :: "string \<Rightarrow> (string \<times> string) option" \<comment> \<open>scheme and host name of a URL that parses\<close>
  ne_lookupIP :: "string \<Rightarrow> bytes list option"
  ne_AllowPrivateNetworks :: bool
  ne_uni :: "string \<Rightarrow> string"

datatype net_error = Malformed | BadScheme | NoHost | LocalHost | PrivateAddress | Unresolved | ResolvesPrivate | NoAddress | TooManyRedirects

definition check_host :: "NetEnv \<Rightarrow> string \<Rightarrow> net_error option" where
  "check_host env host =
     (if is_localhost host then Some LocalHost
      else case ParseIP host of
          Some ip \<Rightarrow> if IsPrivateIP ip then Some PrivateAddress else None
        | None \<Rightarrow>
            (case ne_lookupIP env host of
               None \<Rightarrow> Some Unresolved
             | Some ips \<Rightarrow> if list_ex IsPrivateIP ips then Some ResolvesPrivate else None))"

definition ValidateSafeURL :: "NetEnv \<Rightarrow> bool \<Rightarrow> string \<Rightarrow> net_error option" where
  "ValidateSafeURL env allowPrivate rawURL =
     (case ne_url env rawURL of
        None \<Rightarrow> Some Malformed
      | Some (scheme, hostname) \<Rightarrow>
          if ToLower (ne_uni env) scheme \<notin> {''http'', ''https''} then Some BadScheme
          else if hostname = [] then Some NoHost
          else if allowPrivate \<or> ne_AllowPrivateNetworks env then None
          else check_host env hostname)"

definition ValidatePeerAddress :: "NetEnv \<Rightarrow> bool \<Rightarrow> string \<Rightarrow> net_error option" where
  "ValidatePeerAddress env allowPrivate peerAddr =
     (if allowPrivate \<or> ne_AllowPrivateNetworks env then None
      else check_host env (case SplitHostPort peerAddr of Some (host, _) \<Rightarrow> host | None \<Rightarrow> peerAddr))"

datatype connection = DialAddress string | DialIP bytes string

definition SafeDialContext :: "NetEnv \<Rightarrow> bool \<Rightarrow> string \<Rightarrow> net_error + connection" where
  "SafeDialContext env allowPrivate addr =
     (case SplitHostPort addr of
        None \<Rightarrow> Inl Malformed
      | Some (host, port) \<Rightarrow>
          if allowPrivate \<or> ne_AllowPrivateNetworks env then Inr (DialAddress addr)
          else if is_localhost host then Inl LocalHost
          else case ParseIP host of
              Some ip \<Rightarrow> if IsPrivateIP ip then Inl PrivateAddress else Inr (DialIP ip port)
            | None \<Rightarrow>
                (case ne_lookupIP env host of
                   None \<Rightarrow> Inl Unresolved
                 | Some ips \<Rightarrow>
                     if list_ex IsPrivateIP ips then Inl ResolvesPrivate
                     else case find (\<lambda>ip. ip \<noteq> []) ips of None \<Rightarrow> Inl NoAddress | Some ip \<Rightarrow> Inr (DialIP ip port)))"

definition CheckRedirect :: "NetEnv \<Rightarrow> bool \<Rightarrow> int \<Rightarrow> nat \<Rightarrow> string \<Rightarrow> net_error option" where
  "CheckRedirect env allowPrivate maxRedirects via url =
     (let maxRedirects = (if maxRedirects \<le> 0 then 10 else maxRedirects) in
      if int via \<ge> maxRedirects then Some TooManyRedirects else ValidateSafeURL env allowPrivate url)"

text \<open>\<^verbatim>\<open>http.Client.Do\<close> over the redirects a server answers with: the requests it makes after the first \<open>via\<close> ones,
  each with the environment of its checks, and the error that ends them.\<close>

fun client_redirects :: "bool \<Rightarrow> int \<Rightarrow> nat \<Rightarrow> (NetEnv \<times> string) list \<Rightarrow> string list \<times> net_error option" where
  "client_redirects allowPrivate maxRedirects via [] = ([], None)"
| "client_redirects allowPrivate maxRedirects via ((env, u) # rest) =
     (case CheckRedirect env allowPrivate maxRedirects via u of
        Some e \<Rightarrow> ([], Some e)
      | None \<Rightarrow> (case client_redirects allowPrivate maxRedirects (Suc via) rest of (us, r) \<Rightarrow> (u # us, r)))"

section \<open>What counts as private\<close>

text \<open>Facts about bytes, by running through all of them.\<close>

lemma all_bytes: "list_all P [0..<256] \<Longrightarrow> P (unat (b :: byte))"
  using unat_byte_less [of b] by (auto simp: list_all_iff)

lemma byte_high_nibble: "(b :: byte) AND 0xf0 = 16 \<longleftrightarrow> 16 \<le> b \<and> b \<le> 31"
proof -
  have "list_all (\<lambda>n. ((of_nat n :: byte) AND 0xf0 = 16) = (16 \<le> (of_nat n :: byte) \<and> (of_nat n :: byte) \<le> 31)) [0..<256]" by code_simp
  from all_bytes [OF this, of b] show ?thesis by simp
qed

lemma byte_link_local: "(b :: byte) AND 0xc0 = 0x80 \<longleftrightarrow> 0x80 \<le> b \<and> b \<le> 0xbf"
proof -
  have "list_all (\<lambda>n. ((of_nat n :: byte) AND 0xc0 = 0x80) = (0x80 \<le> (of_nat n :: byte) \<and> (of_nat n :: byte) \<le> 0xbf)) [0..<256]" by code_simp
  from all_bytes [OF this, of b] show ?thesis by simp
qed

lemma byte_unique_local: "(b :: byte) AND 0xfe = 0xfc \<longleftrightarrow> b = 0xfc \<or> b = 0xfd"
proof -
  have "list_all (\<lambda>n. ((of_nat n :: byte) AND 0xfe = 0xfc) = ((of_nat n :: byte) = 0xfc \<or> (of_nat n :: byte) = 0xfd)) [0..<256]" by code_simp
  from all_bytes [OF this, of b] show ?thesis by simp
qed

lemma and_ff: "(b :: byte) AND 0xff = b"
proof -
  have "list_all (\<lambda>n. (of_nat n :: byte) AND 0xff = of_nat n) [0..<256]" by code_simp
  from all_bytes [OF this, of b] show ?thesis by simp
qed

lemma privateCIDRs_eq:
  "privateCIDRs =
     [([127, 0, 0, 0], [0xff, 0, 0, 0]), ([10, 0, 0, 0], [0xff, 0, 0, 0]), ([172, 16, 0, 0], [0xff, 0xf0, 0, 0]),
      ([192, 168, 0, 0], [0xff, 0xff, 0, 0]), ([169, 254, 0, 0], [0xff, 0xff, 0, 0]), ([0, 0, 0, 0], [0xff, 0, 0, 0]),
      (replicate 15 0 @ [1], replicate 16 0xff), ([0xfe, 0x80] @ replicate 14 0, [0xff, 0xc0] @ replicate 14 0),
      (0xfc # replicate 15 0, 0xfe # replicate 15 0)]"
  by code_simp

lemma and_bytes_Cons [simp]: "and_bytes (x # xs) (y # ys) = (x AND y) # and_bytes xs ys" "and_bytes [] ys = []" "and_bytes xs [] = []"
  by (simp_all add: and_bytes_def)

lemma and_bytes_zero: "length xs = n \<Longrightarrow> and_bytes xs (replicate n 0) = replicate n 0"
  by (induction xs arbitrary: n) auto

lemma and_bytes_ones: "length xs = n \<Longrightarrow> and_bytes xs (replicate n 0xff) = xs"
  by (induction xs arbitrary: n) (auto simp: and_ff)

text \<open>The reserved ranges: 0/8, 10/8, 127/8, 172.16/12, 192.168/16, 169.254/16 and 224.0.0/24, and for version 6
  the loopback address, \<^verbatim>\<open>fe80::/10\<close>, \<^verbatim>\<open>fc00::/7\<close> and the link-local multicast addresses.\<close>

definition reserved_v4 :: "byte \<Rightarrow> byte \<Rightarrow> byte \<Rightarrow> bool" where
  "reserved_v4 a b c \<longleftrightarrow>
     a \<in> {0, 10, 127} \<or> a = 172 \<and> 16 \<le> b \<and> b \<le> 31 \<or> a = 192 \<and> b = 168 \<or> a = 169 \<and> b = 254 \<or> a = 224 \<and> b = 0 \<and> c = 0"

definition reserved_v6 :: "bytes \<Rightarrow> bool" where
  "reserved_v6 ip \<longleftrightarrow>
     ip = replicate 15 0 @ [1] \<or> ip ! 0 = 0xfe \<and> 0x80 \<le> ip ! 1 \<and> ip ! 1 \<le> 0xbf \<or> ip ! 0 \<in> {0xfc, 0xfd} \<or>
     ip ! 0 = 0xff \<and> ip ! 1 AND 0x0f = 2"

lemma private_v4: "To4 ip = Some [a, b, c, d] \<Longrightarrow> IsPrivateIP ip \<longleftrightarrow> reserved_v4 a b c"
proof -
  assume t: "To4 ip = Some [a, b, c, d]"
  then have "ip \<noteq> []" by (auto simp: To4_def)
  moreover have "list_ex (\<lambda>block. ipnet_Contains block ip) privateCIDRs \<longleftrightarrow>
      a \<in> {0, 10, 127} \<or> a = 172 \<and> 16 \<le> b \<and> b \<le> 31 \<or> a = 192 \<and> b = 168 \<or> a = 169 \<and> b = 254"
    using byte_high_nibble [of b] by (auto simp: privateCIDRs_eq ipnet_Contains_def t and_ff)
  ultimately show ?thesis
    using byte_high_nibble [of b]
    by (auto simp: IsPrivateIP_def IsLoopback_def IsLinkLocalUnicast_def IsLinkLocalMulticast_def IsPrivate_def t reserved_v4_def)
qed

lemma private_v6:
  assumes t: "To4 ip = None" and n: "length ip = 16"
  shows "IsPrivateIP ip \<longleftrightarrow> reserved_v6 ip"
proof -
  obtain x y zs where ip: "ip = x # y # zs" "length zs = 14" using n by (auto simp: numeral_eq_Suc length_Suc_conv)
  have c: "ipnet_Contains b ip \<longleftrightarrow> length (fst b) = 16 \<and> and_bytes (fst b) (snd b) = and_bytes ip (snd b)" for b
    using n by (auto simp: ipnet_Contains_def t)
  have "ipnet_Contains (replicate 15 0 @ [1], replicate 16 0xff) ip \<longleftrightarrow> ip = replicate 15 0 @ [1]"
    using and_bytes_ones [OF n] and_bytes_ones [of "replicate 15 0 @ [1]" 16] by (auto simp: c)
  moreover have "ipnet_Contains ([0xfe, 0x80] @ replicate 14 0, [0xff, 0xc0] @ replicate 14 0) ip \<longleftrightarrow> x = 0xfe \<and> y AND 0xc0 = 0x80"
    unfolding c using and_bytes_zero [OF ip(2)] and_bytes_zero [of "replicate 14 0" 14] by (auto simp: ip(1) and_ff)
  moreover have "ipnet_Contains (0xfc # replicate 15 0, 0xfe # replicate 15 0) ip \<longleftrightarrow> x AND 0xfe = 0xfc"
    unfolding c using and_bytes_zero [of "y # zs" 15] and_bytes_zero [of "replicate 15 0" 15] ip(2) by (auto simp: ip(1))
  ultimately have "list_ex (\<lambda>block. ipnet_Contains block ip) privateCIDRs \<longleftrightarrow>
      ip = replicate 15 0 @ [1] \<or> x = 0xfe \<and> y AND 0xc0 = 0x80 \<or> x AND 0xfe = 0xfc"
    by (simp add: privateCIDRs_eq) (simp add: c)
  moreover have "IsLoopback ip \<longleftrightarrow> ip = replicate 15 0 @ [1]" by (simp add: IsLoopback_def t IPv6loopback_def)
  moreover have "IsLinkLocalUnicast ip \<longleftrightarrow> x = 0xfe \<and> y AND 0xc0 = 0x80" "IsLinkLocalMulticast ip \<longleftrightarrow> x = 0xff \<and> y AND 0x0f = 2"
    "IsPrivate ip \<longleftrightarrow> x AND 0xfe = 0xfc" "ip ! 0 = x" "ip ! 1 = y" "ip \<noteq> []"
    using n by (simp_all add: IsLinkLocalUnicast_def IsLinkLocalMulticast_def IsPrivate_def t) (simp_all add: ip(1))
  ultimately show ?thesis
    using byte_link_local [of y] byte_unique_local [of x] unfolding IsPrivateIP_def reserved_v6_def by auto
qed

lemma To4_unmapped:
  assumes "length ip = 16" "\<forall>v. ip \<noteq> mapped v"
  shows "To4 ip = None"
proof -
  have "take 12 ip \<noteq> replicate 10 0 @ [0xff, 0xff]"
    using assms(2) append_take_drop_id [of 12 ip] unfolding mapped_def by (metis append.assoc)
  then show ?thesis using assms(1) by (simp add: To4_def)
qed

section \<open>Properties\<close>

text \<open>C27: the addresses the checks refuse are exactly the reserved ranges, whether an address of version 4 comes as four
  bytes or mapped into sixteen; of the addresses of version 6 only the loopback address, \<^verbatim>\<open>fe80::/10\<close>, \<^verbatim>\<open>fc00::/7\<close>
  and the link-local multicast addresses are refused.\<close>

theorem private_addresses_exact:
  "IsPrivateIP [a, b, c, d] = reserved_v4 a b c \<and> IsPrivateIP (mapped [a, b, c, d]) = reserved_v4 a b c \<and>
   (length ip = 16 \<and> (\<forall>v. ip \<noteq> mapped v) \<longrightarrow> IsPrivateIP ip = reserved_v6 ip)"
proof -
  show ?thesis
    using private_v4 [of "[a, b, c, d]" a b c d] private_v4 [of "mapped [a, b, c, d]" a b c d] private_v6 [OF To4_unmapped, of ip]
    by (auto simp: To4_def mapped_def)
qed

lemma ip_first: "(0xfe :: byte) \<noteq> 0" by simp

theorem private_addresses_exact_witness:
  "IsPrivateIP [169, 254, 169, 254] \<and> \<not> IsPrivateIP [8, 8, 8, 8] \<and> IsPrivateIP (0xfe # 0x81 # replicate 14 0)"
proof -
  let ?ip = "0xfe # 0x81 # replicate 14 (0 :: byte)"
  have "hd (mapped v) = 0" for v by (simp add: mapped_def hd_append)
  then have "?ip \<noteq> mapped v" for v by (metis list.sel(1) ip_first)
  then show ?thesis
    using private_addresses_exact [of 169 254 169 254 ?ip] private_addresses_exact [of 8 8 8 8 ?ip]
    by (simp add: reserved_v4_def reserved_v6_def)
qed

lemma check_host_resolved: "check_host env host = None \<Longrightarrow> ParseIP host = None \<Longrightarrow> ne_lookupIP env host = Some ips \<Longrightarrow> \<not> list_ex IsPrivateIP ips"
  by (simp add: check_host_def split: if_splits)

text \<open>C19: a dial without the permission for private networks connects, if at all, to one address that was checked
  in the same call: an address written in the host itself or one of the answers of the resolver, outside every
  reserved range. What an earlier check of the URL has seen does not matter, so an answer of the resolver that
  changes in between leads nowhere.\<close>

theorem dial_reaches_no_private_address:
  assumes "SafeDialContext env False addr = Inr con" "\<not> ne_AllowPrivateNetworks env"
  shows "\<exists>host port ip. SplitHostPort addr = Some (host, port) \<and> con = DialIP ip port \<and>
    (ParseIP host = Some ip \<or> (\<exists>ips. ne_lookupIP env host = Some ips \<and> ip \<in> set ips)) \<and>
    (\<forall>a b c d. ip \<in> {[a, b, c, d], mapped [a, b, c, d]} \<longrightarrow> \<not> reserved_v4 a b c) \<and>
    (length ip = 16 \<and> (\<forall>v. ip \<noteq> mapped v) \<longrightarrow> \<not> reserved_v6 ip)"
proof -
  obtain host port where hp: "SplitHostPort addr = Some (host, port)"
    using assms(1) by (auto simp: SafeDialContext_def split: option.splits)
  obtain ip where ip: "con = DialIP ip port" "\<not> IsPrivateIP ip"
    "ParseIP host = Some ip \<or> (\<exists>ips. ne_lookupIP env host = Some ips \<and> ip \<in> set ips)"
    using assms by (auto simp: SafeDialContext_def hp list_ex_iff find_Some_iff split: option.splits if_splits)
  have "To4 ip = Some [a, b, c, d]" if "ip \<in> {[a, b, c, d], mapped [a, b, c, d]}" for a b c d
    using that by (auto simp: To4_def mapped_def)
  then have v4: "\<not> reserved_v4 a b c" if "ip \<in> {[a, b, c, d], mapped [a, b, c, d]}" for a b c d
    using private_v4 ip(2) that by blast
  have "\<not> reserved_v6 ip" if "length ip = 16" "\<forall>v. ip \<noteq> mapped v"
    using private_v6 [OF To4_unmapped] that ip(2) by blast
  with hp ip v4 show ?thesis by blast
qed

theorem dial_reaches_no_private_address_witness:
  "let env = \<lparr>ne_url = (\<lambda>_. None), ne_lookupIP = (\<lambda>_. Some [[8, 8, 4, 4]]), ne_AllowPrivateNetworks = False, ne_uni = (\<lambda>s. s)\<rparr>
   in SafeDialContext env False ''dns.google:443'' = Inr (DialIP [8, 8, 4, 4] ''443'') \<and> \<not> reserved_v4 8 8 4"
proof -
  let ?env = "\<lparr>ne_url = (\<lambda>_. None), ne_lookupIP = (\<lambda>_. Some [[8, 8, 4, 4]]), ne_AllowPrivateNetworks = False, ne_uni = (\<lambda>s. s)\<rparr>"
  have p: "SplitHostPort ''dns.google:443'' = Some (''dns.google'', ''443'')" "\<not> is_localhost ''dns.google''" "ParseIP ''dns.google'' = None"
    "\<not> IsPrivateIP [8, 8, 4, 4]"
    by code_simp+
  then have d: "SafeDialContext ?env False ''dns.google:443'' = Inr (DialIP [8, 8, 4, 4] ''443'')" by (simp add: SafeDialContext_def)
  then obtain ip where "DialIP [8, 8, 4, 4] ''443'' = DialIP ip ''443''"
    "\<forall>a b c d. ip \<in> {[a, b, c, d], mapped [a, b, c, d]} \<longrightarrow> \<not> reserved_v4 a b c"
    using dial_reaches_no_private_address [OF d] by (metis NetEnv.select_convs(3) connection.inject(2))
  then have "\<not> reserved_v4 8 8 4" by blast
  with d show ?thesis by simp
qed

text \<open>the unspecified address of version 6 is in none of the ranges, and operating systems connect it to the
  local host: a link to \<^verbatim>\<open>http://[::]/\<close> reaches local services. Its version 4 counterpart is refused.\<close>

theorem unspecified_address_allowed:
  assumes "\<not> ne_AllowPrivateNetworks env" "ne_url env url = Some (''http'', ''::'')"
  shows "ValidateSafeURL env False url = None \<and> SafeDialContext env False ''[::]:80'' = Inr (DialIP (replicate 16 0) ''80'') \<and>
    SafeDialContext env False ''0.0.0.0:80'' = Inl PrivateAddress"
proof -
  have p: "ParseIP ''::'' = Some (replicate 16 0)" "SplitHostPort ''[::]:80'' = Some (''::'', ''80'')" "\<not> is_localhost ''::''"
    "\<not> IsPrivateIP (replicate 16 0)" "ParseIP ''0.0.0.0'' = Some (mapped [0, 0, 0, 0])" "SplitHostPort ''0.0.0.0:80'' = Some (''0.0.0.0'', ''80'')"
    "\<not> is_localhost ''0.0.0.0''" "IsPrivateIP (mapped [0, 0, 0, 0])" "is_ascii ''http''" "map lower_char ''http'' = ''http''"
    by code_simp+
  then show ?thesis using assms by (simp add: ValidateSafeURL_def check_host_def SafeDialContext_def ToLower_def)
qed

theorem unspecified_address_allowed_witness:
  "SafeDialContext \<lparr>ne_url = (\<lambda>_. Some (''http'', ''::'')), ne_lookupIP = (\<lambda>_. None), ne_AllowPrivateNetworks = False, ne_uni = (\<lambda>s. s)\<rparr>
     False ''[::]:80'' = Inr (DialIP (replicate 16 0) ''80'')"
  using unspecified_address_allowed [of "\<lparr>ne_url = (\<lambda>_. Some (''http'', ''::'')), ne_lookupIP = (\<lambda>_. None),
    ne_AllowPrivateNetworks = False, ne_uni = (\<lambda>s. s)\<rparr>" "''http://[::]/''"] by simp

text \<open>following redirects makes fewer than the permitted number of further requests, each to a URL that passed the
  check, and stops with an error at the first one that does not.\<close>

theorem redirects_bounded:
  assumes "client_redirects allow maxRedirects 1 answers = (us, r)" "m = (if maxRedirects \<le> 0 then 10 else maxRedirects)"
  shows "int (length us) < m \<and> us = take (length us) (map snd answers) \<and>
    list_all (\<lambda>(env, u). ValidateSafeURL env allow u = None) (take (length us) answers) \<and> (r = None \<longleftrightarrow> length us = length answers)"
proof -
  have m: "0 < m" using assms(2) by simp
  have "int (length us) \<le> max 0 (m - int via) \<and> us = take (length us) (map snd answers) \<and>
      list_all (\<lambda>(env, u). ValidateSafeURL env allow u = None) (take (length us) answers) \<and> (r = None \<longleftrightarrow> length us = length answers)"
    if "client_redirects allow maxRedirects via answers = (us, r)" for via
    using that
  proof (induction answers arbitrary: via us r)
    case (Cons a answers)
    obtain env u where a: "a = (env, u)" by (rule prod.exhaust)
    show ?case
    proof (cases "CheckRedirect env allow maxRedirects via u")
      case None
      obtain us' where us': "client_redirects allow maxRedirects (Suc via) answers = (us', r)" "us = u # us'"
        using Cons.prems by (auto simp: a None split: prod.splits)
      moreover have "int via < m" "ValidateSafeURL env allow u = None"
        using None assms(2) by (auto simp: CheckRedirect_def Let_def split: if_splits)
      ultimately show ?thesis using Cons.IH [OF us'(1)] by (auto simp: a)
    next
      case (Some e)
      show ?thesis using Cons.prems by (auto simp: a Some)
    qed
  qed auto
  from this [OF assms(1)] m show ?thesis by auto
qed

theorem redirects_bounded_witness:
  "let env = \<lparr>ne_url = (\<lambda>_. Some (''https'', ''1.1.1.1'')), ne_lookupIP = (\<lambda>_. None), ne_AllowPrivateNetworks = False, ne_uni = (\<lambda>s. s)\<rparr>;
       rs = client_redirects False 2 1 [(env, ''a''), (env, ''b'')]
   in int (length (fst rs)) < 2 \<and> snd rs \<noteq> None"
proof -
  let ?env = "\<lparr>ne_url = (\<lambda>_. Some (''https'', ''1.1.1.1'')), ne_lookupIP = (\<lambda>_. None), ne_AllowPrivateNetworks = False, ne_uni = (\<lambda>s. s)\<rparr>"
  obtain us r where rs: "client_redirects False 2 1 [(?env, ''a''), (?env, ''b'')] = (us, r)" by (rule prod.exhaust)
  from redirects_bounded [OF rs refl] show ?thesis unfolding Let_def rs by (cases r) auto
qed

end
