(* ===== verification/Bencode.thy ===== *)
theory Bencode
  imports Go_Strings
begin

text \<open>
  The bencode codec of \<^verbatim>\<open>internal/download/bencode.go\<close>. A decoded \<^verbatim>\<open>interface{}\<close> is a \<open>bval\<close>; a
  \<^verbatim>\<open>map[string]interface{}\<close> is the list of its entries in the order of their keys, and
  assigning to a key inserts or replaces. A \<^verbatim>\<open>bufio.Reader\<close> is the string it has yet to deliver.
  The decoder's recursion is bounded by fuel; \<open>UnmarshalBencode\<close> supplies twice the input's
  length plus one, which is proved to be always enough.
\<close>

section \<open>Values and errors\<close>

datatype bval =
    BInt int
  | BStr string
  | BList "bval list"
  | BDict "(string \<times> bval) list"
  | BOther \<comment> \<open>a value of any other Go type\<close>

datatype bencode_error =
    UnexpectedEnd | DepthLimit | UnexpectedToken char | IntTooLong | BadInt num_error
  | InvalidStringLength | ExcessiveStringLength | UnsupportedType | OutOfFuel

definition maxBencodeDepth :: nat where "maxBencodeDepth = 32"
definition maxBencodeStringLen :: int where "maxBencodeStringLen = 10 * 1024 * 1024"

text \<open>Assignment to a map entry.\<close>

fun dict_put :: "string \<Rightarrow> bval \<Rightarrow> (string \<times> bval) list \<Rightarrow> (string \<times> bval) list" where
  "dict_put k v [] = [(k, v)]"
| "dict_put k v ((k', v') # es) =
     (if k < k' then (k, v) # (k', v') # es
      else if k = k' then (k, v) # es
      else (k', v') # dict_put k v es)"

section \<open>Decoding\<close>

fun decodeInt :: "string \<Rightarrow> string \<Rightarrow> bencode_error + (int \<times> string)" where
  "decodeInt buf [] = Inl UnexpectedEnd"
| "decodeInt buf (b # r) =
     (if b = CHR ''e'' then
        (case ParseInt buf of (i, None) \<Rightarrow> Inr (i, r) | (_, Some e) \<Rightarrow> Inl (BadInt e))
      else if length buf \<ge> 20 then Inl IntTooLong
      else decodeInt (buf @ [b]) r)"

fun decode_len :: "string \<Rightarrow> string \<Rightarrow> bencode_error + (string \<times> string)" where
  "decode_len lenBuf [] = Inl UnexpectedEnd"
| "decode_len lenBuf (b # r) =
     (if b = CHR '':'' then Inr (lenBuf, r)
      else if \<not> is_digit b then Inl InvalidStringLength
      else decode_len (lenBuf @ [b]) r)"

definition decodeString :: "string \<Rightarrow> bencode_error + (string \<times> string)" where
  "decodeString r =
     (case decode_len [] r of
        Inl e \<Rightarrow> Inl e
      | Inr (lenBuf, r') \<Rightarrow>
          (case ParseInt lenBuf of
             (strLen, err) \<Rightarrow>
               if err \<noteq> None \<or> strLen < 0 \<or> strLen > maxBencodeStringLen then Inl ExcessiveStringLength
               else if length r' < nat strLen then Inl UnexpectedEnd
               else Inr (take (nat strLen) r', drop (nat strLen) r')))"

fun decodeValue :: "nat \<Rightarrow> nat \<Rightarrow> string \<Rightarrow> bencode_error + (bval \<times> string)"
  and decodeList :: "nat \<Rightarrow> nat \<Rightarrow> bval list \<Rightarrow> string \<Rightarrow> bencode_error + (bval \<times> string)"
  and decodeDict :: "nat \<Rightarrow> nat \<Rightarrow> (string \<times> bval) list \<Rightarrow> string \<Rightarrow> bencode_error + (bval \<times> string)" where
  "decodeValue 0 depth r = Inl OutOfFuel"
| "decodeValue (Suc f) depth r =
     (if depth > maxBencodeDepth then Inl DepthLimit
      else case r of
          [] \<Rightarrow> Inl UnexpectedEnd
        | b # r' \<Rightarrow>
            if b = CHR ''i'' then
              (case decodeInt [] r' of Inl e \<Rightarrow> Inl e | Inr (i, r'') \<Rightarrow> Inr (BInt i, r''))
            else if b = CHR ''l'' then decodeList f depth [] r'
            else if b = CHR ''d'' then decodeDict f depth [] r'
            else if is_digit b then
              (case decodeString r of Inl e \<Rightarrow> Inl e | Inr (s, r'') \<Rightarrow> Inr (BStr s, r''))
            else Inl (UnexpectedToken b))"
| "decodeList 0 depth list r = Inl OutOfFuel"
| "decodeList (Suc f) depth list r =
     (case r of
        [] \<Rightarrow> Inl UnexpectedEnd
      | b # r' \<Rightarrow>
          if b = CHR ''e'' then Inr (BList list, r')
          else case decodeValue f (depth + 1) r of
              Inl e \<Rightarrow> Inl e
            | Inr (item, r'') \<Rightarrow> decodeList f depth (list @ [item]) r'')"
| "decodeDict 0 depth dict r = Inl OutOfFuel"
| "decodeDict (Suc f) depth dict r =
     (case r of
        [] \<Rightarrow> Inl UnexpectedEnd
      | b # r' \<Rightarrow>
          if b = CHR ''e'' then Inr (BDict dict, r')
          else case decodeString r of
              Inl e \<Rightarrow> Inl e
            | Inr (key, r1) \<Rightarrow>
                (case decodeValue f (depth + 1) r1 of
                   Inl e \<Rightarrow> Inl e
                 | Inr (val, r2) \<Rightarrow> decodeDict f depth (dict_put key val dict) r2))"

definition UnmarshalBencode :: "string \<Rightarrow> bencode_error + bval" where
  "UnmarshalBencode data =
     (case decodeValue (2 * length data + 1) 0 data of Inl e \<Rightarrow> Inl e | Inr (v, _) \<Rightarrow> Inr v)"

section \<open>Encoding\<close>

definition encodeString :: "string \<Rightarrow> string" where
  "encodeString s = Itoa (int (length s)) @ '':'' @ s"

fun encodeValue :: "bval \<Rightarrow> string option"
  and encodeItems :: "bval list \<Rightarrow> string option"
  and encodeEntries :: "(string \<times> bval) list \<Rightarrow> string option" where
  "encodeValue (BStr s) = Some (encodeString s)"
| "encodeValue (BInt i) = Some (''i'' @ Itoa i @ ''e'')"
| "encodeValue (BList vs) = map_option (\<lambda>s. ''l'' @ s @ ''e'') (encodeItems vs)"
| "encodeValue (BDict es) = map_option (\<lambda>s. ''d'' @ s @ ''e'') (encodeEntries es)"
| "encodeValue BOther = None"
| "encodeItems [] = Some []"
| "encodeItems (v # vs) =
     (case encodeValue v of
        None \<Rightarrow> None
      | Some s \<Rightarrow> map_option ((@) s) (encodeItems vs))"
| "encodeEntries [] = Some []"
| "encodeEntries ((k, v) # es) =
     (case encodeValue v of
        None \<Rightarrow> None
      | Some s \<Rightarrow> map_option ((@) (encodeString k @ s)) (encodeEntries es))"

definition MarshalBencode :: "bval \<Rightarrow> bencode_error + string" where
  "MarshalBencode v = (case encodeValue v of None \<Rightarrow> Inl UnsupportedType | Some s \<Rightarrow> Inr s)"

section \<open>Well-formed values\<close>

definition str_ok :: "string \<Rightarrow> bool" where
  "str_ok s \<longleftrightarrow> int (length s) \<le> maxBencodeStringLen"

text \<open>\<open>fits d v\<close>: at nesting depth \<open>d\<close> the value is within what the decoder accepts, and its maps
  are maps (keys in strictly increasing order).\<close>

fun fits :: "nat \<Rightarrow> bval \<Rightarrow> bool" where
  "fits d (BInt i) \<longleftrightarrow> d \<le> maxBencodeDepth \<and> is_int64 i"
| "fits d (BStr s) \<longleftrightarrow> d \<le> maxBencodeDepth \<and> str_ok s"
| "fits d (BList vs) \<longleftrightarrow> d \<le> maxBencodeDepth \<and> list_all (fits (Suc d)) vs"
| "fits d (BDict es) \<longleftrightarrow> d \<le> maxBencodeDepth \<and> sorted_wrt (<) (map fst es) \<and>
     list_all (\<lambda>(k, v). str_ok k \<and> fits (Suc d) v) es"
| "fits d BOther \<longleftrightarrow> False"

section \<open>Decoding what was encoded\<close>

lemma decode_len_digits:
  "list_all is_digit ds \<Longrightarrow> decode_len buf (ds @ CHR '':'' # s) = Inr (buf @ ds, s)"
proof (induction ds arbitrary: buf)
  case Nil
  then show ?case by simp
next
  case (Cons d ds)
  then have "d \<noteq> CHR '':''" by (auto simp: is_digit_def less_eq_char_def)
  with Cons show ?case by simp
qed

lemma decodeString_encodeString:
  assumes "str_ok s"
  shows "decodeString (encodeString s @ rest) = Inr (s, rest)"
proof -
  have i: "is_int64 (int (length s))"
    using assms by (simp add: str_ok_def is_int64_def maxBencodeStringLen_def)
  have "decode_len [] (encodeString s @ rest) = Inr (Itoa (int (length s)), s @ rest)"
    using decode_len_digits [OF is_digit_nat_digits, of "[]" "length s" "s @ rest"]
    by (simp add: encodeString_def Itoa_def)
  then show ?thesis
    using assms ParseInt_Itoa [OF i] by (simp add: decodeString_def str_ok_def)
qed

lemma hd_encodeString: "\<exists>c cs. encodeString s @ rest = c # cs \<and> is_digit c"
proof -
  obtain c cs where "nat_digits (length s) = c # cs" by (meson nat_digits_not_Nil neq_Nil_conv)
  then show ?thesis using hd_nat_digits [of "length s"] by (simp add: encodeString_def Itoa_def)
qed

lemma Itoa_no_e: "CHR ''e'' \<notin> set (Itoa i)"
proof -
  have "CHR ''e'' \<notin> set (nat_digits n)" for n
    using is_digit_nat_digits [of n] by (auto simp: list_all_iff is_digit_def less_eq_char_def)
  then show ?thesis by (simp add: Itoa_def)
qed

lemma length_Itoa:
  assumes "is_int64 i"
  shows "length (Itoa i) \<le> 20"
proof -
  have "nat i < 10 ^ 19" "nat (- i) < 10 ^ 19"
    using assms by (auto simp: is_int64_def)
  then have "length (nat_digits (nat i)) \<le> 19" "length (nat_digits (nat (- i))) \<le> 19"
    by (auto intro: length_nat_digits_bound)
  then show ?thesis by (simp add: Itoa_def)
qed

lemma decodeInt_scan:
  "CHR ''e'' \<notin> set s \<Longrightarrow> length buf + length s \<le> 20 \<Longrightarrow>
   decodeInt buf (s @ CHR ''e'' # rest) = decodeInt (buf @ s) (CHR ''e'' # rest)"
  by (induction s arbitrary: buf) auto

lemma decodeInt_Itoa: "is_int64 i \<Longrightarrow> decodeInt [] (Itoa i @ CHR ''e'' # rest) = Inr (i, rest)"
  using decodeInt_scan [OF Itoa_no_e, of "[]" i rest] length_Itoa [of i] ParseInt_Itoa [of i] by simp

lemma dict_put_last:
  assumes "\<forall>e \<in> set es. fst e < k"
  shows "dict_put k v es = es @ [(k, v)]"
  using assms by (induction es) auto

lemma encodeValue_head:
  "encodeValue v = Some s \<Longrightarrow> \<exists>c cs. s = c # cs \<and> c \<noteq> CHR ''e''"
proof (cases v)
  case (BStr x)
  moreover assume "encodeValue v = Some s"
  ultimately show ?thesis
    using hd_encodeString [of x "[]"] by (auto simp: is_digit_def less_eq_char_def)
qed auto

lemma encode_decode:
  shows encode_decode_value: "encodeValue v = Some s \<Longrightarrow> fits d v \<Longrightarrow> f \<ge> 2 * length s \<Longrightarrow>
      decodeValue f d (s @ rest) = Inr (v, rest)"
    and encode_decode_items: "encodeItems vs = Some s \<Longrightarrow> list_all (fits (Suc d)) vs \<Longrightarrow>
      f \<ge> 2 * length s + 1 \<Longrightarrow>
      decodeList f d acc (s @ CHR ''e'' # rest) = Inr (BList (acc @ vs), rest)"
    and encode_decode_entries: "encodeEntries es = Some s \<Longrightarrow>
      list_all (\<lambda>(k, v). str_ok k \<and> fits (Suc d) v) es \<Longrightarrow>
      sorted_wrt (<) (map fst (dacc @ es)) \<Longrightarrow> f \<ge> 2 * length s + 1 \<Longrightarrow>
      decodeDict f d dacc (s @ CHR ''e'' # rest) = Inr (BDict (dacc @ es), rest)"
proof (induction v and vs and es arbitrary: s d f rest and s d f rest acc and s d f rest dacc
    rule: encodeValue_encodeItems_encodeEntries.induct)
  case (1 x)
  obtain c cs where c: "encodeString x @ rest = c # cs" "is_digit c" using hd_encodeString by blast
  from 1 obtain f' where f: "f = Suc f'" by (cases f) (auto simp: encodeString_def)
  from c have "c \<noteq> CHR ''i''" "c \<noteq> CHR ''l''" "c \<noteq> CHR ''d''"
    by (auto simp: is_digit_def less_eq_char_def)
  with 1 c f show ?case
    using decodeString_encodeString [of x rest] by auto
next
  case (2 i)
  then obtain f' where f: "f = Suc f'" by (cases f) auto
  with 2 show ?case by (auto simp: decodeInt_Itoa)
next
  case (3 vs)
  then obtain t where t: "encodeItems vs = Some t" "s = ''l'' @ t @ ''e''" by auto
  with 3 obtain f' where f: "f = Suc f'" by (cases f) auto
  with 3 t show ?case using "3.IH" [of t d f' "[]" rest] by auto
next
  case (4 es)
  then obtain t where t: "encodeEntries es = Some t" "s = ''d'' @ t @ ''e''" by auto
  with 4 obtain f' where f: "f = Suc f'" by (cases f) auto
  with 4 t show ?case using "4.IH" [of t d "[]" f' rest] by auto
next
  case (7 v vs)
  then obtain t u where t: "encodeValue v = Some t" "encodeItems vs = Some u" "s = t @ u"
    by (auto split: option.splits)
  obtain c cs where c: "t = c # cs" "c \<noteq> CHR ''e''" using encodeValue_head [OF t(1)] by auto
  from 7 obtain f' where f: "f = Suc f'" by (cases f) auto
  have "decodeValue f' (Suc d) (t @ u @ CHR ''e'' # rest) = Inr (v, u @ CHR ''e'' # rest)"
    using 7 t f by auto
  moreover have "decodeList f' d (acc @ [v]) (u @ CHR ''e'' # rest) = Inr (BList ((acc @ [v]) @ vs), rest)"
    using 7 t f c by auto
  ultimately show ?case using t f c by simp
next
  case (9 k v es)
  then obtain t u where t: "encodeValue v = Some t" "encodeEntries es = Some u"
      "s = encodeString k @ t @ u"
    by (auto split: option.splits)
  obtain c cs where c: "t = c # cs" "c \<noteq> CHR ''e''" using encodeValue_head [OF t(1)] by auto
  obtain b bs where b: "encodeString k @ t @ u @ CHR ''e'' # rest = b # bs" "is_digit b"
    using hd_encodeString by blast
  then have be: "b \<noteq> CHR ''e''" by (auto simp: is_digit_def less_eq_char_def)
  from 9 obtain f' where f: "f = Suc f'" by (cases f) auto
  have k: "decodeString (b # bs) = Inr (k, t @ u @ CHR ''e'' # rest)"
    unfolding b(1) [symmetric] using 9 by (intro decodeString_encodeString) simp
  have v: "decodeValue f' (Suc d) (t @ u @ CHR ''e'' # rest) = Inr (v, u @ CHR ''e'' # rest)"
    using 9 t f by auto
  have put: "dict_put k v dacc = dacc @ [(k, v)]"
    using 9 by (intro dict_put_last) (auto simp: sorted_wrt_append)
  have "decodeDict f' d (dacc @ [(k, v)]) (u @ CHR ''e'' # rest)
      = Inr (BDict ((dacc @ [(k, v)]) @ es), rest)"
    using 9 t f c by auto
  with b be k v put f t(3) show ?case by simp
qed (auto simp: le_Suc_eq Suc_le_eq dest: less_imp_Suc_add)

lemma fits_encodable:
  shows "fits d v \<Longrightarrow> \<exists>s. encodeValue v = Some s"
    and "list_all (fits (Suc d)) vs \<Longrightarrow> \<exists>s. encodeItems vs = Some s"
    and "list_all (\<lambda>(k, v). str_ok k \<and> fits (Suc d) v) es \<Longrightarrow> \<exists>s. encodeEntries es = Some s"
  by (induction v and vs and es arbitrary: d and d and d
      rule: encodeValue_encodeItems_encodeEntries.induct) fastforce+

section \<open>What the decoder accepts\<close>

lemma decodeInt_int64: "decodeInt buf r = Inr (i, r') \<Longrightarrow> is_int64 i \<and> length r' < length r"
  by (induction buf r rule: decodeInt.induct)
    (auto simp: ParseInt_int64 split: if_splits prod.splits option.splits)

lemma decode_len_shorter: "decode_len b r = Inr (l, r') \<Longrightarrow> length r' < length r"
  by (induction b r rule: decode_len.induct) (auto split: if_splits)

lemma decodeString_ok:
  "decodeString r = Inr (s, r') \<Longrightarrow> str_ok s \<and> length r' < length r"
  by (auto simp: decodeString_def str_ok_def split: sum.splits prod.splits if_splits
      dest!: decode_len_shorter)

lemma list_all_dict_put:
  "list_all P es \<Longrightarrow> P (k, v) \<Longrightarrow> list_all P (dict_put k v es)"
  by (induction es) auto

lemma set_dict_put: "fst ` set (dict_put k v es) = insert k (fst ` set es)"
  by (induction k v es rule: dict_put.induct) (simp_all add: insert_commute)

lemma sorted_dict_put:
  "sorted_wrt (<) (map fst es) \<Longrightarrow> sorted_wrt (<) (map fst (dict_put k v es))"
proof (induction es)
  case (Cons e es)
  then show ?case
    using set_dict_put [of k v es] by (cases e) (auto simp: not_less_iff_gr_or_eq)
qed simp

lemma decoded_fits:
  shows "decodeValue f d r = Inr (v, r') \<Longrightarrow> fits d v \<and> length r' < length r"
    and "decodeList f d l r = Inr (v, r') \<Longrightarrow> d \<le> maxBencodeDepth \<Longrightarrow> list_all (fits (Suc d)) l \<Longrightarrow>
      fits d v \<and> length r' < length r"
    and "decodeDict f d es r = Inr (v, r') \<Longrightarrow> d \<le> maxBencodeDepth \<Longrightarrow>
      list_all (\<lambda>(k, v). str_ok k \<and> fits (Suc d) v) es \<Longrightarrow> sorted_wrt (<) (map fst es) \<Longrightarrow>
      fits d v \<and> length r' < length r"
proof (induction f arbitrary: d r l es v r')
  case (Suc f)
  {
    case 1
    then show ?case
      using Suc.IH(2) [of d "[]"] Suc.IH(3) [of d "[]"]
      by (fastforce split: if_splits list.splits sum.splits prod.splits
          dest: decodeInt_int64 decodeString_ok)
  next
    case 2
    then consider "r = CHR ''e'' # r'" "v = BList l"
      | x r2 where "decodeValue f (Suc d) r = Inr (x, r2)" "decodeList f d (l @ [x]) r2 = Inr (v, r')"
      by (auto split: if_splits list.splits sum.splits prod.splits)
    then show ?case
      by cases (use 2 Suc.IH(1) Suc.IH(2) in \<open>fastforce+\<close>)
  next
    case 3
    then consider "r = CHR ''e'' # r'" "v = BDict es"
      | k r1 x r2 where "decodeString r = Inr (k, r1)" "decodeValue f (Suc d) r1 = Inr (x, r2)"
          "decodeDict f d (dict_put k x es) r2 = Inr (v, r')"
      by (auto split: if_splits list.splits sum.splits prod.splits)
    then show ?case
    proof cases
      case (2 k r1 x r2)
      note k = decodeString_ok [OF 2(1)] and x = Suc.IH(1) [OF 2(2)]
      have "fits d v \<and> length r' < length r2"
        using 3 k x by (intro Suc.IH(3) [OF 2(3)] list_all_dict_put sorted_dict_put) auto
      with k x show ?thesis by auto
    qed (use 3 in auto)
  }
qed auto

lemma decodeInt_fuel: "decodeInt b r \<noteq> Inl OutOfFuel"
  by (induction b r rule: decodeInt.induct) (auto split: prod.splits option.splits)

lemma decode_len_fuel: "decode_len b r \<noteq> Inl OutOfFuel"
  by (induction b r rule: decode_len.induct) auto

lemma decodeString_fuel: "decodeString r \<noteq> Inl OutOfFuel"
  using decode_len_fuel [of "[]" r] by (auto simp: decodeString_def split: sum.splits prod.splits)

lemma enough_fuel:
  shows "f \<ge> 2 * length r + 1 \<Longrightarrow> decodeValue f d r \<noteq> Inl OutOfFuel"
    and "f \<ge> 2 * length r + 2 \<Longrightarrow> decodeList f d l r \<noteq> Inl OutOfFuel"
    and "f \<ge> 2 * length r + 2 \<Longrightarrow> decodeDict f d es r \<noteq> Inl OutOfFuel"
proof (induction f arbitrary: d r l es)
  case (Suc f)
  {
    case 1
    then show ?case
      using Suc.IH(2,3)
      by (auto split: list.splits sum.splits prod.splits simp: decodeInt_fuel decodeString_fuel)
  next
    case 2
    then have v: "decodeValue f (Suc d) r \<noteq> Inl OutOfFuel" using Suc.IH(1) by simp
    have "decodeList f d (l @ [x]) r' \<noteq> Inl OutOfFuel" if "decodeValue f (Suc d) r = Inr (x, r')" for x r'
      using 2 decoded_fits(1) [OF that] by (intro Suc.IH(2)) simp
    with v show ?case by (auto split: list.splits sum.splits prod.splits)
  next
    case 3
    have v: "decodeValue f (Suc d) r1 \<noteq> Inl OutOfFuel" if "decodeString r = Inr (k, r1)" for k r1
      using 3 decodeString_ok [OF that] by (intro Suc.IH(1)) simp
    have "decodeDict f d (dict_put k x es) r2 \<noteq> Inl OutOfFuel"
      if "decodeString r = Inr (k, r1)" "decodeValue f (Suc d) r1 = Inr (x, r2)" for k r1 x r2
      using 3 decodeString_ok [OF that(1)] decoded_fits(1) [OF that(2)] by (intro Suc.IH(3)) simp
    with v show ?case
      using decodeString_fuel [of r] by (auto split: list.splits sum.splits prod.splits)
  }
qed auto

lemma nested_lists_refused:
  assumes "d + k \<ge> 34" "d \<le> 33" "f \<ge> 2 * k" "k > 0"
  shows "decodeValue f d (replicate k (CHR ''l'') @ rest) = Inl DepthLimit"
  using assms
proof (induction k arbitrary: f d)
  case (Suc k)
  obtain f' where f: "f = Suc (Suc f')" using Suc.prems(3) by (cases f; cases "f - 1") auto
  show ?case
  proof (cases "d = 33")
    case False
    then obtain k' where k: "k = Suc k'" using Suc.prems by (cases k) auto
    have "decodeValue f' (Suc d) (replicate k (CHR ''l'') @ rest) = Inl DepthLimit"
      using Suc.prems False f k by (intro Suc.IH) auto
    then have "decodeList (Suc f') d [] (replicate k (CHR ''l'') @ rest) = Inl DepthLimit"
      by (simp add: k)
    moreover have "decodeValue (Suc (Suc f')) d (CHR ''l'' # replicate k (CHR ''l'') @ rest)
        = decodeList (Suc f') d [] (replicate k (CHR ''l'') @ rest)"
      using Suc.prems False by (subst decodeValue.simps(2)) (simp add: maxBencodeDepth_def)
    ultimately show ?thesis by (simp only: f replicate_Suc append_Cons)
  qed (simp add: f maxBencodeDepth_def)
qed simp

lemmas decode_numeral =
  decodeValue.simps(2) [of "pred_numeral n" for n, folded numeral_eq_Suc]
  decodeList.simps(2) [of "pred_numeral n" for n, folded numeral_eq_Suc]
  decodeDict.simps(2) [of "pred_numeral n" for n, folded numeral_eq_Suc]

section \<open>Properties\<close>

lemma UnmarshalBencode_fits: "UnmarshalBencode data = Inr v \<Longrightarrow> fits 0 v"
  by (auto simp: UnmarshalBencode_def simp del: decodeValue.simps split: sum.splits
      dest: decoded_fits(1))

lemma fits_Marshal:
  assumes "fits 0 v"
  obtains s where "MarshalBencode v = Inr s" "UnmarshalBencode s = Inr v"
proof -
  obtain s where s: "encodeValue v = Some s" using fits_encodable(1) [OF assms] by blast
  have "decodeValue (2 * length s + 1) 0 s = Inr (v, [])"
    using encode_decode_value [OF s assms, of "2 * length s + 1" "[]"] by simp
  with s show ?thesis by (intro that [of s]) (simp_all add: MarshalBencode_def UnmarshalBencode_def)
qed

text \<open>C30: a value within the decoder's limits (64-bit integers, strings of at most 10 MiB, nesting of
  at most 32 levels) is encoded without error and decoding the result gives the value back.\<close>

theorem Unmarshal_Marshal:
  assumes "fits 0 v"
  shows "\<exists>s. MarshalBencode v = Inr s \<and> UnmarshalBencode s = Inr v"
  using fits_Marshal [OF assms] by blast

theorem Unmarshal_Marshal_witness:
  "\<exists>s. MarshalBencode (BDict [(''a'', BInt (- 3)), (''info'', BList [BStr ''x:e'', BDict []])]) = Inr s \<and>
       UnmarshalBencode s = Inr (BDict [(''a'', BInt (- 3)), (''info'', BList [BStr ''x:e'', BDict []])])"
  by (rule Unmarshal_Marshal)
    (simp add: maxBencodeDepth_def is_int64_def str_ok_def maxBencodeStringLen_def less_char_def)

text \<open>whatever bytes a peer sends, if they are accepted then the value is one the encoder can
  write, within all the decoder's limits, and the canonical encoding decodes to the same value: what
  the info-hash is computed from does not depend on the order or spelling of the received form.\<close>

theorem Unmarshal_canonical:
  assumes "UnmarshalBencode data = Inr v"
  shows "fits 0 v \<and> (\<exists>s. MarshalBencode v = Inr s \<and> UnmarshalBencode s = Inr v)"
  using UnmarshalBencode_fits [OF assms] fits_Marshal [of v] by metis

theorem Unmarshal_canonical_witness:
  "fits 0 (BDict [(''a'', BInt 7), (''b'', BStr ''x'')]) \<and>
   (\<exists>s. MarshalBencode (BDict [(''a'', BInt 7), (''b'', BStr ''x'')]) = Inr s \<and>
        UnmarshalBencode s = Inr (BDict [(''a'', BInt 7), (''b'', BStr ''x'')]))"
  by (rule Unmarshal_canonical [of "''d1:b1:x1:ai7ee''"])
    (simp add: UnmarshalBencode_def decode_numeral decodeString_def ParseInt_def is_digit_def
      digit_val_def less_eq_char_def less_char_def maxBencodeDepth_def maxBencodeStringLen_def)

text \<open>C34: decoding ends on every input, with a value or one of the code's own errors (the recursion
  never needs more than twice the length of the input plus one calls); more than 33 nested opening
  brackets are refused whatever follows them.\<close>

theorem Unmarshal_total:
  "UnmarshalBencode data \<noteq> Inl OutOfFuel \<and>
   UnmarshalBencode (replicate (Suc n + 33) (CHR ''l'') @ rest) = Inl DepthLimit"
proof
  show "UnmarshalBencode data \<noteq> Inl OutOfFuel"
    using enough_fuel(1) [of data "2 * length data + 1" 0]
    by (auto simp: UnmarshalBencode_def simp del: decodeValue.simps split: sum.splits)
  have "decodeValue (2 * length (replicate (Suc n + 33) (CHR ''l'') @ rest) + 1) 0
      (replicate (Suc n + 33) (CHR ''l'') @ rest) = Inl DepthLimit"
    by (rule nested_lists_refused) auto
  then show "UnmarshalBencode (replicate (Suc n + 33) (CHR ''l'') @ rest) = Inl DepthLimit"
    unfolding UnmarshalBencode_def by (simp only: sum.case)
qed

end
