(* ===== verification/Go_Crypto.thy ===== *)
theory Go_Crypto
  imports Prelude
begin

text \<open>
  The parts of Go's standard cryptography the program calls, as executable functions on
  bytes: SHA-256 (\<^verbatim>\<open>crypto/sha256\<close>, FIPS 180-4), HMAC-SHA-256 (\<^verbatim>\<open>crypto/hmac\<close>, RFC 2104), the
  AES block cipher in its three key sizes (\<^verbatim>\<open>crypto/aes\<close>, FIPS 197) and Galois/counter mode with
  a 12-byte nonce and a 16-byte tag (\<^verbatim>\<open>crypto/cipher\<close>, SP 800-38D). The interface
  \<^verbatim>\<open>cipher.AEAD\<close> is the locale \<open>aead\<close>, interpreted on this AES-GCM.

  No theorem of the development rests on the secrecy or collision resistance of these
  functions: what is used of them is their determinism, their output lengths and that
  opening a sealed message returns it.
\<close>

section \<open>SHA-256\<close>

type_synonym u32 = "32 word"

definition sha256_K :: "u32 list" where
  "sha256_K =
    [
     1116352408, 1899447441, 3049323471, 3921009573, 961987163, 1508970993, 2453635748, 2870763221,
     3624381080, 310598401, 607225278, 1426881987, 1925078388, 2162078206, 2614888103, 3248222580,
     3835390401, 4022224774, 264347078, 604807628, 770255983, 1249150122, 1555081692, 1996064986,
     2554220882, 2821834349, 2952996808, 3210313671, 3336571891, 3584528711, 113926993, 338241895,
     666307205, 773529912, 1294757372, 1396182291, 1695183700, 1986661051, 2177026350, 2456956037,
     2730485921, 2820302411, 3259730800, 3345764771, 3516065817, 3600352804, 4094571909, 275423344,
     430227734, 506948616, 659060556, 883997877, 958139571, 1322822218, 1537002063, 1747873779,
     1955562222, 2024104815, 2227730452, 2361852424, 2428436474, 2756734187, 3204031479, 3329325298
    ]"

definition sha256_H0 :: "u32 list" where
  "sha256_H0 =
    [
     1779033703, 3144134277, 1013904242, 2773480762, 1359893119, 2600822924, 528734635, 1541459225
    ]"

definition sha256_pad :: "bytes \<Rightarrow> bytes" where
  "sha256_pad m =
     m @ [0x80] @ replicate ((119 - length m mod 64) mod 64) 0 @ put_be64 (of_nat (8 * length m))"

fun words_be :: "bytes \<Rightarrow> u32 list" where
  "words_be (a # b # c # d # bs) = get_be32 [a, b, c, d] # words_be bs"
| "words_be _ = []"

text \<open>The message schedule, built backwards: the list holds the last words first.\<close>

fun sha256_extend :: "nat \<Rightarrow> u32 list \<Rightarrow> u32 list" where
  "sha256_extend 0 ws = ws"
| "sha256_extend (Suc n) ws =
     (let w15 = ws ! 14; w2 = ws ! 1;
          s0 = word_rotr 7 w15 XOR word_rotr 18 w15 XOR drop_bit 3 w15;
          s1 = word_rotr 17 w2 XOR word_rotr 19 w2 XOR drop_bit 10 w2
      in sha256_extend n ((s1 + ws ! 6 + s0 + ws ! 15) # ws))"

definition sha256_schedule :: "bytes \<Rightarrow> u32 list" where
  "sha256_schedule block = rev (sha256_extend 48 (rev (words_be block)))"

fun sha256_round :: "u32 \<times> u32 \<Rightarrow> u32 list \<Rightarrow> u32 list" where
  "sha256_round (k, w) [a, b, c, d, e, f, g, h] =
     (let s1 = word_rotr 6 e XOR word_rotr 11 e XOR word_rotr 25 e;
          ch = (e AND f) XOR (NOT e AND g);
          t1 = h + s1 + ch + k + w;
          s0 = word_rotr 2 a XOR word_rotr 13 a XOR word_rotr 22 a;
          maj = (a AND b) XOR (a AND c) XOR (b AND c)
      in [t1 + (s0 + maj), a, b, c, d + t1, e, f, g])"
| "sha256_round _ v = v"

definition sha256_block :: "u32 list \<Rightarrow> bytes \<Rightarrow> u32 list" where
  "sha256_block h block = map2 (+) h (fold sha256_round (zip sha256_K (sha256_schedule block)) h)"

function sha256_blocks :: "u32 list \<Rightarrow> bytes \<Rightarrow> u32 list" where
  "sha256_blocks h bs =
     (if bs = [] then h else sha256_blocks (sha256_block h (take 64 bs)) (drop 64 bs))"
  by pat_completeness auto
termination
  by (relation "measure (\<lambda>(h, bs). length bs)") auto

declare sha256_blocks.simps [simp del]

definition sha256 :: "bytes \<Rightarrow> bytes" where
  "sha256 m = concat (map put_be32 (sha256_blocks sha256_H0 (sha256_pad m)))"

section \<open>HMAC-SHA-256\<close>

definition hmac_pad_key :: "bytes \<Rightarrow> bytes" where
  "hmac_pad_key key =
     (let k = (if length key > 64 then sha256 key else key) in k @ replicate (64 - length k) 0)"

definition hmac_sha256 :: "bytes \<Rightarrow> bytes \<Rightarrow> bytes" where
  "hmac_sha256 key m =
     (let k = hmac_pad_key key
      in sha256 (map (\<lambda>b. b XOR 0x5c) k @ sha256 (map (\<lambda>b. b XOR 0x36) k @ m)))"

section \<open>AES\<close>

definition aes_sbox :: "byte list" where
  "aes_sbox =
    [
     0x63, 0x7c, 0x77, 0x7b, 0xf2, 0x6b, 0x6f, 0xc5, 0x30, 0x01, 0x67, 0x2b, 0xfe, 0xd7, 0xab, 0x76,
     0xca, 0x82, 0xc9, 0x7d, 0xfa, 0x59, 0x47, 0xf0, 0xad, 0xd4, 0xa2, 0xaf, 0x9c, 0xa4, 0x72, 0xc0,
     0xb7, 0xfd, 0x93, 0x26, 0x36, 0x3f, 0xf7, 0xcc, 0x34, 0xa5, 0xe5, 0xf1, 0x71, 0xd8, 0x31, 0x15,
     0x04, 0xc7, 0x23, 0xc3, 0x18, 0x96, 0x05, 0x9a, 0x07, 0x12, 0x80, 0xe2, 0xeb, 0x27, 0xb2, 0x75,
     0x09, 0x83, 0x2c, 0x1a, 0x1b, 0x6e, 0x5a, 0xa0, 0x52, 0x3b, 0xd6, 0xb3, 0x29, 0xe3, 0x2f, 0x84,
     0x53, 0xd1, 0x00, 0xed, 0x20, 0xfc, 0xb1, 0x5b, 0x6a, 0xcb, 0xbe, 0x39, 0x4a, 0x4c, 0x58, 0xcf,
     0xd0, 0xef, 0xaa, 0xfb, 0x43, 0x4d, 0x33, 0x85, 0x45, 0xf9, 0x02, 0x7f, 0x50, 0x3c, 0x9f, 0xa8,
     0x51, 0xa3, 0x40, 0x8f, 0x92, 0x9d, 0x38, 0xf5, 0xbc, 0xb6, 0xda, 0x21, 0x10, 0xff, 0xf3, 0xd2,
     0xcd, 0x0c, 0x13, 0xec, 0x5f, 0x97, 0x44, 0x17, 0xc4, 0xa7, 0x7e, 0x3d, 0x64, 0x5d, 0x19, 0x73,
     0x60, 0x81, 0x4f, 0xdc, 0x22, 0x2a, 0x90, 0x88, 0x46, 0xee, 0xb8, 0x14, 0xde, 0x5e, 0x0b, 0xdb,
     0xe0, 0x32, 0x3a, 0x0a, 0x49, 0x06, 0x24, 0x5c, 0xc2, 0xd3, 0xac, 0x62, 0x91, 0x95, 0xe4, 0x79,
     0xe7, 0xc8, 0x37, 0x6d, 0x8d, 0xd5, 0x4e, 0xa9, 0x6c, 0x56, 0xf4, 0xea, 0x65, 0x7a, 0xae, 0x08,
     0xba, 0x78, 0x25, 0x2e, 0x1c, 0xa6, 0xb4, 0xc6, 0xe8, 0xdd, 0x74, 0x1f, 0x4b, 0xbd, 0x8b, 0x8a,
     0x70, 0x3e, 0xb5, 0x66, 0x48, 0x03, 0xf6, 0x0e, 0x61, 0x35, 0x57, 0xb9, 0x86, 0xc1, 0x1d, 0x9e,
     0xe1, 0xf8, 0x98, 0x11, 0x69, 0xd9, 0x8e, 0x94, 0x9b, 0x1e, 0x87, 0xe9, 0xce, 0x55, 0x28, 0xdf,
     0x8c, 0xa1, 0x89, 0x0d, 0xbf, 0xe6, 0x42, 0x68, 0x41, 0x99, 0x2d, 0x0f, 0xb0, 0x54, 0xbb, 0x16
    ]"

definition sub_byte :: "byte \<Rightarrow> byte" where
  "sub_byte b = aes_sbox ! unat b"

definition xtime :: "byte \<Rightarrow> byte" where
  "xtime b = push_bit 1 b XOR (if bit b 7 then 0x1b else 0)"

text \<open>Key expansion: the words of the schedule, last word first. \<open>nk\<close> is the key length in words.\<close>

fun aes_expand :: "nat \<Rightarrow> nat \<Rightarrow> nat \<Rightarrow> byte \<Rightarrow> bytes list \<Rightarrow> bytes list" where
  "aes_expand 0 nk i rcon ws = ws"
| "aes_expand (Suc n) nk i rcon ws =
     (let prev = hd ws; old = ws ! (nk - 1)
      in if i mod nk = 0 then
           (case map sub_byte (rotate1 prev) of
              t # ts \<Rightarrow> aes_expand n nk (Suc i) (xtime rcon) (map2 (XOR) old ((t XOR rcon) # ts) # ws)
            | [] \<Rightarrow> ws)
         else if nk = 8 \<and> i mod nk = 4 then
           aes_expand n nk (Suc i) rcon (map2 (XOR) old (map sub_byte prev) # ws)
         else aes_expand n nk (Suc i) rcon (map2 (XOR) old prev # ws))"

fun quads :: "bytes \<Rightarrow> bytes list" where
  "quads (a # b # c # d # bs) = [a, b, c, d] # quads bs"
| "quads _ = []"

definition aes_round_keys :: "bytes \<Rightarrow> bytes list" where
  "aes_round_keys key =
     (let nk = length key div 4 in rev (aes_expand (4 * (nk + 7) - nk) nk nk 1 (rev (quads key))))"

fun sixteens :: "bytes list \<Rightarrow> bytes list" where
  "sixteens (a # b # c # d # ws) = (a @ b @ c @ d) # sixteens ws"
| "sixteens _ = []"

fun shift_rows :: "bytes \<Rightarrow> bytes" where
  "shift_rows [s0, s1, s2, s3, s4, s5, s6, s7, s8, s9, s10, s11, s12, s13, s14, s15] =
     [s0, s5, s10, s15, s4, s9, s14, s3, s8, s13, s2, s7, s12, s1, s6, s11]"
| "shift_rows s = s"

fun mix_columns :: "bytes \<Rightarrow> bytes" where
  "mix_columns (a # b # c # d # s) =
     (xtime a XOR (xtime b XOR b) XOR c XOR d) # (a XOR xtime b XOR (xtime c XOR c) XOR d) #
     (a XOR b XOR xtime c XOR (xtime d XOR d)) # ((xtime a XOR a) XOR b XOR c XOR xtime d) #
     mix_columns s"
| "mix_columns s = s"

fun aes_rounds :: "bytes list \<Rightarrow> bytes \<Rightarrow> bytes" where
  "aes_rounds [] s = s"
| "aes_rounds [k] s = map2 (XOR) (shift_rows (map sub_byte s)) k"
| "aes_rounds (k # ks) s =
     aes_rounds ks (map2 (XOR) (mix_columns (shift_rows (map sub_byte s))) k)"

definition aes_block :: "bytes \<Rightarrow> bytes \<Rightarrow> bytes" where
  "aes_block key s =
     (case sixteens (aes_round_keys key) of
        [] \<Rightarrow> s
      | k # ks \<Rightarrow> aes_rounds ks (map2 (XOR) s k))"

section \<open>Galois/counter mode\<close>

fun word_of_block :: "bytes \<Rightarrow> 128 word" where
  "word_of_block bs = fold (\<lambda>b acc. push_bit 8 acc OR ucast b) (take 16 (bs @ replicate 16 0)) 0"

definition block_of_word :: "128 word \<Rightarrow> bytes" where
  "block_of_word w = map (\<lambda>i. ucast (drop_bit (8 * (15 - i)) w)) [0..<16]"

fun gf_mult_steps :: "nat \<Rightarrow> 128 word \<Rightarrow> 128 word \<Rightarrow> 128 word \<Rightarrow> 128 word" where
  "gf_mult_steps 0 x v z = z"
| "gf_mult_steps (Suc n) x v z =
     gf_mult_steps n x
       (if bit v 0 then drop_bit 1 v XOR push_bit 120 0xe1 else drop_bit 1 v)
       (if bit x n then z XOR v else z)"

definition gf_mult :: "128 word \<Rightarrow> 128 word \<Rightarrow> 128 word" where
  "gf_mult x y = gf_mult_steps 128 x y 0"

function ghash_blocks :: "128 word \<Rightarrow> bytes \<Rightarrow> 128 word \<Rightarrow> 128 word" where
  "ghash_blocks h bs y =
     (if bs = [] then y
      else ghash_blocks h (drop 16 bs) (gf_mult (y XOR word_of_block (take 16 bs)) h))"
  by pat_completeness auto
termination
  by (relation "measure (\<lambda>(h, bs, y). length bs)") auto

declare ghash_blocks.simps [simp del]

text \<open>The program always passes \<^verbatim>\<open>nil\<close> as additional data.\<close>

definition ghash :: "128 word \<Rightarrow> bytes \<Rightarrow> 128 word" where
  "ghash h c =
     (let y = ghash_blocks h c 0; lens = put_be64 0 @ put_be64 (of_nat (8 * length c))
      in gf_mult (y XOR word_of_block lens) h)"

definition gcm_counter :: "bytes \<Rightarrow> nat \<Rightarrow> bytes" where
  "gcm_counter nonce i = nonce @ put_be32 (of_nat (Suc i))"

definition gcm_keystream :: "bytes \<Rightarrow> bytes \<Rightarrow> nat \<Rightarrow> bytes" where
  "gcm_keystream key nonce n =
     (let ks = concat (map (\<lambda>i. aes_block key (gcm_counter nonce (Suc i))) [0..<(n + 15) div 16])
      in take n (ks @ replicate n 0))"

definition gcm_tag :: "bytes \<Rightarrow> bytes \<Rightarrow> bytes \<Rightarrow> bytes" where
  "gcm_tag key nonce c =
     (let h = word_of_block (aes_block key (replicate 16 0))
      in block_of_word (ghash h c XOR word_of_block (aes_block key (gcm_counter nonce 0))))"

definition xor_bytes :: "bytes \<Rightarrow> bytes \<Rightarrow> bytes" where
  "xor_bytes = map2 (XOR)"

definition gcm_Seal :: "bytes \<Rightarrow> bytes \<Rightarrow> bytes \<Rightarrow> bytes" where
  "gcm_Seal key nonce plaintext =
     (let c = xor_bytes plaintext (gcm_keystream key nonce (length plaintext))
      in c @ gcm_tag key nonce c)"

definition gcm_Open :: "bytes \<Rightarrow> bytes \<Rightarrow> bytes \<Rightarrow> bytes option" where
  "gcm_Open key nonce ciphertext =
     (if length ciphertext < 16 then None
      else
        let n = length ciphertext - 16; c = take n ciphertext; tag = drop n ciphertext
        in if tag = gcm_tag key nonce c then Some (xor_bytes c (gcm_keystream key nonce n))
           else None)"

text \<open>\<^verbatim>\<open>aes.NewCipher\<close> accepts keys of 16, 24 or 32 bytes; the cipher is its key.\<close>

definition aes_NewCipher :: "bytes \<Rightarrow> bytes option" where
  "aes_NewCipher key = (if length key \<in> {16, 24, 32} then Some key else None)"

section \<open>Lengths and the law of the mode\<close>

lemma length_sha256_round: "length (sha256_round kw v) = length v"
  by (cases "(kw, v)" rule: sha256_round.cases) (simp_all add: Let_def)

lemma length_fold_sha256_round: "length (fold sha256_round kws v) = length v"
  by (induction kws arbitrary: v) (simp_all add: length_sha256_round)

lemma length_sha256_block: "length (sha256_block h block) = length h"
  by (simp add: sha256_block_def length_fold_sha256_round)

lemma length_sha256_blocks: "length (sha256_blocks h bs) = length h"
proof (induction h bs rule: sha256_blocks.induct)
  case (1 h bs)
  then show ?case
    by (subst sha256_blocks.simps) (simp add: length_sha256_block)
qed

lemma length_concat_put_be32: "length (concat (map put_be32 ws)) = 4 * length ws"
  by (induction ws) simp_all

lemma length_sha256 [simp, wire]: "length (sha256 m) = 32"
  by (simp add: sha256_def length_concat_put_be32 length_sha256_blocks sha256_H0_def)

lemma length_hmac_sha256 [simp, wire]: "length (hmac_sha256 key m) = 32"
  by (simp add: hmac_sha256_def Let_def)

lemma length_xor_bytes [simp]: "length (xor_bytes a b) = min (length a) (length b)"
  by (simp add: xor_bytes_def)

lemma xor_bytes_twice: "length ks = length p \<Longrightarrow> xor_bytes (xor_bytes p ks) ks = p"
  by (induction p ks rule: list_induct2') (simp_all add: xor_bytes_def xor.assoc)

lemma length_gcm_keystream [simp]: "length (gcm_keystream key nonce n) = n"
  by (simp add: gcm_keystream_def Let_def)

lemma length_gcm_tag [simp]: "length (gcm_tag key nonce c) = 16"
  by (simp add: gcm_tag_def Let_def block_of_word_def)

lemma length_gcm_Seal: "length (gcm_Seal key nonce p) = length p + 16"
  by (simp add: gcm_Seal_def Let_def)

lemma gcm_Open_Seal: "gcm_Open key nonce (gcm_Seal key nonce p) = Some p"
  by (simp add: gcm_Open_def gcm_Seal_def Let_def xor_bytes_twice)

lemma length_gcm_Open: "gcm_Open key nonce c = Some p \<Longrightarrow> length c = length p + 16"
  by (auto simp: gcm_Open_def Let_def split: if_splits)

section \<open>The AEAD interface\<close>

record AEAD =
  Seal :: "bytes \<Rightarrow> bytes \<Rightarrow> bytes"
  Open :: "bytes \<Rightarrow> bytes \<Rightarrow> bytes option"

definition cipher_NewGCM :: "bytes \<Rightarrow> AEAD" where
  "cipher_NewGCM key = \<lparr>Seal = gcm_Seal key, Open = gcm_Open key\<rparr>"

locale aead =
  fixes gcm :: AEAD
  assumes length_Seal: "length (Seal gcm nonce p) = length p + 16"
    and Open_Seal: "Open gcm nonce (Seal gcm nonce p) = Some p"
    and length_Open: "Open gcm nonce c = Some p \<Longrightarrow> length c = length p + 16"
begin

lemma Seal_not_Nil: "Seal gcm nonce p \<noteq> []"
  using length_Seal [of nonce p] by auto

lemma Seal_inject: "Seal gcm nonce p = Seal gcm nonce q \<longleftrightarrow> p = q"
  by (metis Open_Seal option.inject)

end

interpretation aes_gcm: aead "cipher_NewGCM key" for key
  by unfold_locales (auto simp: cipher_NewGCM_def length_gcm_Seal gcm_Open_Seal dest: length_gcm_Open)

end
