(* ===== verification/Stream_Crypto.thy ===== *)
theory Stream_Crypto
  imports Go_Crypto
begin

text \<open>
  The chunked encryption of \<^verbatim>\<open>internal/crypto\<close>: the \<^verbatim>\<open>EncryptStream\<close> that frames every write as
  \<^verbatim>\<open>[4 bytes length][12 bytes nonce][ciphertext + tag]\<close>, the \<^verbatim>\<open>DecryptStream\<close> with its three ways
  to seek, and the whole-block encryption of vault keys.

  An \<^verbatim>\<open>io.Writer\<close> is the bytes it has accepted and the room it has left; an \<^verbatim>\<open>io.Reader\<close> is its
  content, its position, the interfaces it implements, and whether its content ends with
  an I/O error instead of \<^verbatim>\<open>io.EOF\<close>. The reusable buffers (\<^verbatim>\<open>packetBuf\<close>, \<^verbatim>\<open>hdrBuf\<close>, \<^verbatim>\<open>cipherBuf\<close>,
  \<^verbatim>\<open>plainBuf\<close>) carry nothing from one call to the next: each is written before it is read, and
  \<^verbatim>\<open>buf\<close>, which may alias \<^verbatim>\<open>plainBuf\<close>, is empty whenever \<^verbatim>\<open>plainBuf\<close> is written. They are not state.
\<close>

section \<open>Readers and writers\<close>

datatype stream_error =
    EOF | UnexpectedEOF | ReadFault | SeekFault | ShortWrite
  | InvalidKeySize | InvalidChunkLength | AuthenticationFailed | NegativeOffset
  | DataTooShort | RandFault

record writer =
  w_data :: bytes
  w_room :: "nat option"

definition writer_Write :: "bytes \<Rightarrow> writer \<Rightarrow> writer \<times> bool" where
  "writer_Write p w =
     (case w_room w of
        None \<Rightarrow> (w\<lparr>w_data := w_data w @ p\<rparr>, True)
      | Some r \<Rightarrow>
          if length p \<le> r then (w\<lparr>w_data := w_data w @ p, w_room := Some (r - length p)\<rparr>, True)
          else (w\<lparr>w_data := w_data w @ take r p, w_room := Some 0\<rparr>, False))"

datatype reader_kind = PlainReader | ReadSeeker | ReadSeekerAt

record reader =
  r_data :: bytes
  r_pos :: nat
  r_kind :: reader_kind
  r_fault :: bool
  r_seek_fault :: bool

definition new_reader :: "reader_kind \<Rightarrow> bytes \<Rightarrow> reader" where
  "new_reader kind d =
     \<lparr>r_data = d, r_pos = 0, r_kind = kind, r_fault = False, r_seek_fault = False\<rparr>"

definition unread :: "reader \<Rightarrow> bytes" where
  "unread r = drop (r_pos r) (r_data r)"

text \<open>\<^verbatim>\<open>io.ReadFull\<close>: all \<open>n\<close> bytes, or everything that was left and an error.\<close>

definition ReadFull :: "nat \<Rightarrow> reader \<Rightarrow> reader \<times> (stream_error + bytes)" where
  "ReadFull n r =
     (if n \<le> length (unread r) then (r\<lparr>r_pos := r_pos r + n\<rparr>, Inr (take n (unread r)))
      else (r\<lparr>r_pos := r_pos r + length (unread r)\<rparr>,
            Inl (if r_fault r then ReadFault else if unread r = [] then EOF else UnexpectedEOF)))"

text \<open>\<^verbatim>\<open>ReaderAt.ReadAt\<close> does not move the position and reports a short read as \<^verbatim>\<open>io.EOF\<close>.\<close>

definition ReadAt :: "nat \<Rightarrow> nat \<Rightarrow> reader \<Rightarrow> stream_error + bytes" where
  "ReadAt n off r =
     (let avail = drop off (r_data r)
      in if n \<le> length avail then Inr (take n avail)
         else Inl (if r_fault r then ReadFault else EOF))"

text \<open>\<^verbatim>\<open>Seek(pos, io.SeekStart)\<close>; seeking past the end is allowed.\<close>

definition Seek :: "nat \<Rightarrow> reader \<Rightarrow> reader \<times> stream_error option" where
  "Seek pos r = (if r_seek_fault r then (r, Some SeekFault) else (r\<lparr>r_pos := pos\<rparr>, None))"

section \<open>Blocks (vault.go)\<close>

definition SaltSize :: nat where "SaltSize = 32"
definition NonceSize :: nat where "NonceSize = 12"
definition TagSize :: nat where "TagSize = 16"
definition KeySize :: nat where "KeySize = 32"

lemmas crypto_sizes [simp] = SaltSize_def NonceSize_def TagSize_def KeySize_def

text \<open>\<open>rnd\<close> is what \<^verbatim>\<open>rand.Reader\<close> delivers; fewer than 12 bytes is its failure.\<close>

definition EncryptBlock :: "bytes \<Rightarrow> bytes \<Rightarrow> bytes \<Rightarrow> stream_error + bytes" where
  "EncryptBlock rnd data key =
     (case aes_NewCipher key of
        None \<Rightarrow> Inl InvalidKeySize
      | Some block \<Rightarrow>
          let aesgcm = cipher_NewGCM block; nonce = take NonceSize rnd
          in if length nonce < NonceSize then Inl RandFault
             else Inr (nonce @ Seal aesgcm nonce data))"

definition DecryptBlock :: "bytes \<Rightarrow> bytes \<Rightarrow> stream_error + bytes" where
  "DecryptBlock data key =
     (if length data < NonceSize + TagSize then Inl DataTooShort
      else
        let nonce = take NonceSize data; ciphertext = drop NonceSize data
        in case aes_NewCipher key of
             None \<Rightarrow> Inl InvalidKeySize
           | Some block \<Rightarrow>
               (case Open (cipher_NewGCM block) nonce ciphertext of
                  None \<Rightarrow> Inl AuthenticationFailed
                | Some p \<Rightarrow> Inr p))"

section \<open>EncryptStream\<close>

record EncryptStream =
  es_w :: writer
  es_aesgcm :: AEAD
  es_key :: bytes

definition NewEncryptStream :: "writer \<Rightarrow> bytes \<Rightarrow> stream_error + EncryptStream" where
  "NewEncryptStream w key =
     (case aes_NewCipher key of
        None \<Rightarrow> Inl InvalidKeySize
      | Some block \<Rightarrow> Inr \<lparr>es_w = w, es_aesgcm = cipher_NewGCM block, es_key = key\<rparr>)"

text \<open>The frame one \<^verbatim>\<open>Write\<close> produces; the length field is a \<^verbatim>\<open>uint32\<close> conversion and wraps.\<close>

definition chunk_nonce :: "bytes \<Rightarrow> bytes \<Rightarrow> bytes" where
  "chunk_nonce key p = take NonceSize (hmac_sha256 key p)"

definition packet :: "AEAD \<Rightarrow> bytes \<Rightarrow> bytes \<Rightarrow> bytes" where
  "packet aesgcm key p =
     (let nonce = chunk_nonce key p; chunkLen = (of_nat (length p + TagSize) :: 32 word)
      in put_be32 chunkLen @ nonce @ Seal aesgcm nonce p)"

definition EncryptStream_Write :: "bytes \<Rightarrow> EncryptStream \<Rightarrow> EncryptStream \<times> (stream_error + nat)" where
  "EncryptStream_Write p s =
     (if length p = 0 then (s, Inr 0)
      else
        case writer_Write (packet (es_aesgcm s) (es_key s) p) (es_w s) of
          (w', ok) \<Rightarrow> (s\<lparr>es_w := w'\<rparr>, if ok then Inr (length p) else Inl ShortWrite))"

text \<open>A caller's sequence of writes that stops at the first error.\<close>

fun write_all :: "bytes list \<Rightarrow> EncryptStream \<Rightarrow> EncryptStream \<times> stream_error option" where
  "write_all [] s = (s, None)"
| "write_all (p # ps) s =
     (case EncryptStream_Write p s of
        (s', Inl e) \<Rightarrow> (s', Some e)
      | (s', Inr _) \<Rightarrow> write_all ps s')"

section \<open>DecryptStream\<close>

record DecryptStream =
  ds_r :: reader
  ds_aesgcm :: AEAD
  ds_buf :: bytes

definition NewDecryptStream :: "reader \<Rightarrow> bytes \<Rightarrow> stream_error + DecryptStream" where
  "NewDecryptStream r key =
     (case aes_NewCipher key of
        None \<Rightarrow> Inl InvalidKeySize
      | Some block \<Rightarrow> Inr \<lparr>ds_r = r, ds_aesgcm = cipher_NewGCM block, ds_buf = []\<rparr>)"

definition MaxChunkSize :: nat where
  "MaxChunkSize = 50 * 1024 * 1024"

definition bad_chunk_len :: "32 word \<Rightarrow> bool" where
  "bad_chunk_len chunkLen \<longleftrightarrow> unat chunkLen < TagSize \<or> unat chunkLen > MaxChunkSize"

text \<open>Reading and opening the ciphertext of a chunk whose length and nonce are known.\<close>

definition open_chunk ::
  "32 word \<Rightarrow> bytes \<Rightarrow> DecryptStream \<Rightarrow> DecryptStream \<times> (stream_error + bytes)" where
  "open_chunk chunkLen nonce s =
     (case ReadFull (unat chunkLen) (ds_r s) of
        (r', Inl e) \<Rightarrow> (s\<lparr>ds_r := r'\<rparr>, Inl e)
      | (r', Inr ct) \<Rightarrow>
          (s\<lparr>ds_r := r'\<rparr>,
           case Open (ds_aesgcm s) nonce ct of
             None \<Rightarrow> Inl AuthenticationFailed
           | Some plaintext \<Rightarrow> Inr plaintext))"

text \<open>The framed read that \<^verbatim>\<open>Read\<close> and \<^verbatim>\<open>PreloadFirstChunk\<close> share: header, length check, ciphertext.\<close>

definition next_chunk :: "DecryptStream \<Rightarrow> DecryptStream \<times> (stream_error + bytes)" where
  "next_chunk s =
     (case ReadFull (4 + NonceSize) (ds_r s) of
        (r', Inl e) \<Rightarrow> (s\<lparr>ds_r := r'\<rparr>, Inl e)
      | (r', Inr hdr) \<Rightarrow>
          let s' = s\<lparr>ds_r := r'\<rparr>; chunkLen = get_be32 hdr; nonce = drop 4 hdr
          in if bad_chunk_len chunkLen then (s', Inl InvalidChunkLength)
             else open_chunk chunkLen nonce s')"

definition DecryptStream_Read ::
  "nat \<Rightarrow> DecryptStream \<Rightarrow> DecryptStream \<times> (stream_error + bytes)" where
  "DecryptStream_Read n s =
     (if n = 0 then (s, Inr [])
      else if ds_buf s \<noteq> [] then
        (s\<lparr>ds_buf := drop n (ds_buf s)\<rparr>, Inr (take n (ds_buf s)))
      else
        case next_chunk s of
          (s', Inl e) \<Rightarrow> (s', Inl e)
        | (s', Inr plaintext) \<Rightarrow>
            (if n < length plaintext then s'\<lparr>ds_buf := drop n plaintext\<rparr> else s',
             Inr (take n plaintext)))"

definition PreloadFirstChunk :: "DecryptStream \<Rightarrow> DecryptStream \<times> stream_error option" where
  "PreloadFirstChunk s =
     (if ds_buf s \<noteq> [] then (s, None)
      else
        case next_chunk s of
          (s', Inl e) \<Rightarrow> (s', Some e)
        | (s', Inr plaintext) \<Rightarrow> (s'\<lparr>ds_buf := plaintext\<rparr>, None))"

text \<open>Facts the loops below terminate by: a chunk that is read shortens what is left to read.\<close>

lemma ReadFull_unread:
  "ReadFull n r = (r', Inr bs) \<Longrightarrow> unread r = bs @ unread r' \<and> length bs = n"
  by (auto simp: ReadFull_def unread_def add.commute simp flip: drop_drop split: if_splits)

lemma ReadFull_fields:
  "ReadFull n r = (r', x) \<Longrightarrow>
   r_data r' = r_data r \<and> r_kind r' = r_kind r \<and> r_fault r' = r_fault r \<and>
   r_seek_fault r' = r_seek_fault r"
  by (auto simp: ReadFull_def split: if_splits)

lemma next_chunk_shrinks:
  "next_chunk s = (s', Inr p) \<Longrightarrow>
   length (unread (ds_r s')) + 16 \<le> length (unread (ds_r s)) \<and> ds_buf s' = ds_buf s"
  by (auto simp: next_chunk_def open_chunk_def Let_def dest!: ReadFull_unread
      split: prod.splits sum.splits if_splits option.splits)

definition read_progress :: "(DecryptStream \<times> DecryptStream) set" where
  "read_progress = measures [\<lambda>s. length (unread (ds_r s)), \<lambda>s. length (ds_buf s)]"

lemma wf_read_progress: "wf read_progress"
  by (simp add: read_progress_def)

lemma Read_shrinks:
  assumes "(s', Inr out) = DecryptStream_Read n s" "n \<noteq> 0"
  shows "(s', s) \<in> read_progress"
  using assms
  by (auto simp: read_progress_def DecryptStream_Read_def dest!: next_chunk_shrinks
      split: prod.splits sum.splits if_splits)

text \<open>\<^verbatim>\<open>io.CopyN(io.Discard, s, offset)\<close>: \<^verbatim>\<open>io.Discard\<close> reads through an 8192-byte buffer, the
  limit reader shortens the last read. Running out of data is reported as \<^verbatim>\<open>io.EOF\<close>.\<close>

function discard :: "nat \<Rightarrow> DecryptStream \<Rightarrow> DecryptStream \<times> stream_error option" where
  "discard rest s =
     (if rest = 0 then (s, None)
      else
        case DecryptStream_Read (min rest 8192) s of
          (s', Inl e) \<Rightarrow> (s', Some e)
        | (s', Inr out) \<Rightarrow> discard (rest - length out) s')"
  by pat_completeness auto
termination
  by (relation "inv_image read_progress snd") (auto simp: wf_read_progress intro: Read_shrinks)

text \<open>The scan over chunk lengths with \<^verbatim>\<open>ReadAt\<close>. \<open>cur\<close> is \<^verbatim>\<open>currentOffset\<close>.\<close>

function seek_readerAt ::
  "nat \<Rightarrow> nat \<Rightarrow> nat \<Rightarrow> DecryptStream \<Rightarrow> DecryptStream \<times> stream_error option" where
  "seek_readerAt offset cur diskPos s =
     (if cur < offset then
        case ReadAt 4 diskPos (ds_r s) of
          Inl e \<Rightarrow> (s, Some e)
        | Inr lenBuf \<Rightarrow>
            let chunkLen = get_be32 lenBuf in
            if bad_chunk_len chunkLen then (s, Some InvalidChunkLength)
            else
              let plainLen = unat chunkLen - TagSize in
              if cur + plainLen \<le> offset then
                seek_readerAt offset (cur + plainLen) (diskPos + 4 + NonceSize + unat chunkLen) s
              else
                (case Seek diskPos (ds_r s) of
                   (r1, Some e) \<Rightarrow> (s\<lparr>ds_r := r1\<rparr>, Some e)
                 | (r1, None) \<Rightarrow>
                     (case ReadFull (4 + NonceSize) r1 of
                        (r2, Inl e) \<Rightarrow> (s\<lparr>ds_r := r2\<rparr>, Some e)
                      | (r2, Inr hdr) \<Rightarrow>
                          (case open_chunk chunkLen (drop 4 hdr) (s\<lparr>ds_r := r2\<rparr>) of
                             (s3, Inl e) \<Rightarrow> (s3, Some e)
                           | (s3, Inr plaintext) \<Rightarrow>
                               (s3\<lparr>ds_buf := drop (offset - cur) plaintext\<rparr>, None))))
      else (s, None))"
  by pat_completeness auto
termination
  by (relation "measure (\<lambda>(offset, cur, diskPos, s). length (r_data (ds_r s)) - diskPos)")
    (auto simp: ReadAt_def Let_def split: if_splits)

text \<open>The same scan for a seeker without \<^verbatim>\<open>ReadAt\<close>: it moves the reader itself.\<close>

function seek_seeker ::
  "nat \<Rightarrow> nat \<Rightarrow> DecryptStream \<Rightarrow> DecryptStream \<times> stream_error option" where
  "seek_seeker offset cur s =
     (if cur < offset then
        case ReadFull 4 (ds_r s) of
          (r1, Inl e) \<Rightarrow> (s\<lparr>ds_r := r1\<rparr>, Some e)
        | (r1, Inr lenBuf) \<Rightarrow>
            let chunkLen = get_be32 lenBuf in
            if bad_chunk_len chunkLen then (s\<lparr>ds_r := r1\<rparr>, Some InvalidChunkLength)
            else
              let plainLen = unat chunkLen - TagSize in
              if cur + plainLen \<le> offset then
                (case Seek (r_pos r1 + NonceSize + unat chunkLen) r1 of
                   (r2, Some e) \<Rightarrow> (s\<lparr>ds_r := r2\<rparr>, Some e)
                 | (r2, None) \<Rightarrow> seek_seeker offset (cur + plainLen) (s\<lparr>ds_r := r2\<rparr>))
              else
                (case ReadFull NonceSize r1 of
                   (r2, Inl e) \<Rightarrow> (s\<lparr>ds_r := r2\<rparr>, Some e)
                 | (r2, Inr nonce) \<Rightarrow>
                     (case open_chunk chunkLen nonce (s\<lparr>ds_r := r2\<rparr>) of
                        (s3, Inl e) \<Rightarrow> (s3, Some e)
                      | (s3, Inr plaintext) \<Rightarrow>
                          (s3\<lparr>ds_buf := drop (offset - cur) plaintext\<rparr>, None)))
      else (s, None))"
  by pat_completeness auto
termination
  by (relation "measure (\<lambda>(offset, cur, s). length (r_data (ds_r s)) - r_pos (ds_r s))")
    (auto simp: ReadFull_def Seek_def unread_def Let_def split: if_splits)

declare discard.simps [simp del] seek_readerAt.simps [simp del] seek_seeker.simps [simp del]

definition SeekTo :: "int \<Rightarrow> DecryptStream \<Rightarrow> DecryptStream \<times> stream_error option" where
  "SeekTo offset s =
     (if offset < 0 then (s, Some NegativeOffset)
      else
        let s0 = s\<lparr>ds_buf := []\<rparr>; off = nat offset in
        if r_kind (ds_r s) = PlainReader then
          (if offset = 0 then (s0, None) else discard off s0)
        else
          case Seek 0 (ds_r s0) of
            (r1, Some e) \<Rightarrow> (s0\<lparr>ds_r := r1\<rparr>, Some e)
          | (r1, None) \<Rightarrow>
              let s1 = s0\<lparr>ds_r := r1\<rparr> in
              if offset = 0 then (s1, None)
              else if r_kind (ds_r s) = ReadSeekerAt then seek_readerAt off 0 0 s1
              else seek_seeker off 0 s1)"

text \<open>\<^verbatim>\<open>io.ReadAll\<close> over the stream with reads of at most \<open>n\<close> bytes: everything read and the
  error that ended it.\<close>

function read_all :: "nat \<Rightarrow> DecryptStream \<Rightarrow> bytes \<times> stream_error option" where
  "read_all n s =
     (if n = 0 then ([], None)
      else
        case DecryptStream_Read n s of
          (s', Inl e) \<Rightarrow> ([], Some e)
        | (s', Inr out) \<Rightarrow> (case read_all n s' of (rest, e) \<Rightarrow> (out @ rest, e)))"
  by pat_completeness auto
termination
  by (relation "inv_image read_progress snd") (auto simp: wf_read_progress intro: Read_shrinks)

declare read_all.simps [simp del]

lemma read_all_error:
  "DecryptStream_Read n s = (s', Inl e) \<Longrightarrow> 0 < n \<Longrightarrow> read_all n s = ([], Some e)"
  by (subst read_all.simps) simp

lemma read_all_step:
  "DecryptStream_Read n s = (s', Inr out) \<Longrightarrow> 0 < n \<Longrightarrow> read_all n s' = (rest, e) \<Longrightarrow>
   read_all n s = (out @ rest, e)"
  by (subst read_all.simps) simp

section \<open>Framing facts\<close>

definition chunk_ok :: "bytes \<Rightarrow> bool" where
  "chunk_ok p \<longleftrightarrow> length p + TagSize \<le> MaxChunkSize"

definition frames :: "AEAD \<Rightarrow> bytes \<Rightarrow> bytes list \<Rightarrow> bytes" where
  "frames gcm key ps = concat (map (packet gcm key) ps)"

lemma frames_simps [simp]:
  "frames gcm key [] = []"
  "frames gcm key (p # ps) = packet gcm key p @ frames gcm key ps"
  by (simp_all add: frames_def)

lemma length_chunk_nonce [simp, wire]: "length (chunk_nonce key p) = 12"
  by (simp add: chunk_nonce_def)

lemma unat_chunk_len: "n + 16 < 2 ^ 32 \<Longrightarrow> unat (of_nat (n + 16) :: 32 word) = n + 16"
  by (simp add: unat_of_nat del: of_nat_add)

lemma chunk_ok_len:
  assumes "chunk_ok p"
  shows "unat (of_nat (length p + 16) :: 32 word) = length p + 16"
    and "\<not> bad_chunk_len (of_nat (length p + 16))"
proof -
  show *: "unat (of_nat (length p + 16) :: 32 word) = length p + 16"
    using assms by (intro unat_chunk_len) (simp add: chunk_ok_def MaxChunkSize_def)
  show "\<not> bad_chunk_len (of_nat (length p + 16))"
    using assms unfolding bad_chunk_len_def * by (simp add: chunk_ok_def)
qed

lemma ReadFull_exact:
  assumes "unread r = bs @ rest" and "length bs = n"
  shows "ReadFull n r = (r\<lparr>r_pos := r_pos r + n\<rparr>, Inr bs)"
  using assms by (simp add: ReadFull_def)

lemma unread_advance:
  assumes "unread r = bs @ rest" and "length bs = n"
  shows "unread (r\<lparr>r_pos := r_pos r + n\<rparr>) = rest"
proof -
  have "unread (r\<lparr>r_pos := r_pos r + n\<rparr>) = drop n (unread r)"
    by (simp add: unread_def add.commute)
  then show ?thesis using assms by simp
qed

lemma ReadFull_empty: "unread r = [] \<Longrightarrow> 0 < n \<Longrightarrow> \<not> r_fault r \<Longrightarrow> ReadFull n r = (r, Inl EOF)"
  by (simp add: ReadFull_def)

text \<open>\<open>stream_at s key ps\<close>: what is left of the reader is exactly the frames of \<open>ps\<close>.\<close>

definition stream_at :: "DecryptStream \<Rightarrow> bytes \<Rightarrow> bytes list \<Rightarrow> bool" where
  "stream_at s key ps \<longleftrightarrow>
     unread (ds_r s) = frames (ds_aesgcm s) key ps \<and> \<not> r_fault (ds_r s) \<and> list_all chunk_ok ps"

text \<open>The same with further data behind the frames.\<close>

definition stream_upto :: "DecryptStream \<Rightarrow> bytes \<Rightarrow> bytes list \<Rightarrow> bytes \<Rightarrow> bool" where
  "stream_upto s key ps tail \<longleftrightarrow>
     unread (ds_r s) = frames (ds_aesgcm s) key ps @ tail \<and> \<not> r_fault (ds_r s) \<and>
     list_all chunk_ok ps"

lemma stream_upto_at: "stream_upto s key ps [] = stream_at s key ps"
  by (simp add: stream_upto_def stream_at_def)

lemma next_chunk_end: "stream_at s key [] \<Longrightarrow> next_chunk s = (s, Inl EOF)"
  by (simp add: next_chunk_def stream_at_def ReadFull_empty)

definition advance :: "nat \<Rightarrow> DecryptStream \<Rightarrow> DecryptStream" where
  "advance n s = s\<lparr>ds_r := (ds_r s)\<lparr>r_pos := r_pos (ds_r s) + n\<rparr>\<rparr>"

lemma advance_sel [simp]:
  "ds_buf (advance n s) = ds_buf s" "ds_aesgcm (advance n s) = ds_aesgcm s"
  "r_data (ds_r (advance n s)) = r_data (ds_r s)" "r_fault (ds_r (advance n s)) = r_fault (ds_r s)"
  "r_pos (ds_r (advance n s)) = r_pos (ds_r s) + n"
  "r_seek_fault (ds_r (advance n s)) = r_seek_fault (ds_r s)"
  by (simp_all add: advance_def)

context aead
begin

lemma length_packet [wire]: "length (packet gcm key p) = length p + 32"
  by (simp add: packet_def Let_def length_Seal)

lemma open_chunk_exact:
  assumes "ds_aesgcm s = gcm" "chunk_ok p"
    and "unread (ds_r s) = Seal gcm nonce p @ rest"
  shows "open_chunk (of_nat (length p + 16)) nonce s = (advance (length p + 16) s, Inr p)"
  using assms chunk_ok_len(1) [OF assms(2)]
  by (simp add: open_chunk_def advance_def ReadFull_exact [OF assms(3)] length_Seal Open_Seal)

lemma next_chunk_packet:
  assumes gcm: "ds_aesgcm s = gcm" and ok: "chunk_ok p"
    and un: "unread (ds_r s) = packet gcm key p @ rest"
  shows "next_chunk s = (advance (length p + 32) s, Inr p)"
proof -
  let ?n = "chunk_nonce key p" and ?l = "of_nat (length p + 16) :: 32 word"
  have un': "unread (ds_r s) = (put_be32 ?l @ ?n) @ Seal gcm ?n p @ rest"
    using un by (simp add: packet_def Let_def)
  have hdr: "ReadFull 16 (ds_r s) = ((ds_r s)\<lparr>r_pos := r_pos (ds_r s) + 16\<rparr>, Inr (put_be32 ?l @ ?n))"
    by (rule ReadFull_exact [OF un']) simp
  have "unread ((ds_r s)\<lparr>r_pos := r_pos (ds_r s) + 16\<rparr>) = Seal gcm ?n p @ rest"
    by (rule unread_advance [OF un']) simp
  then have "open_chunk ?l ?n (advance 16 s) = (advance (length p + 16) (advance 16 s), Inr p)"
    using gcm ok by (intro open_chunk_exact) (simp_all add: advance_def)
  then show ?thesis
    using hdr chunk_ok_len(2) [OF ok]
    by (simp add: next_chunk_def advance_def Let_def ac_simps)
qed

lemma stream_at_advance:
  assumes "ds_aesgcm s = gcm" "stream_at s key (p # ps)"
  shows "stream_at (advance (length p + 32) s) key ps"
  using assms(2) unfolding stream_at_def
  by (simp add: advance_def assms(1) unread_advance length_packet)

text \<open>One read of a stream that still holds data: a prefix of the remaining plaintext.\<close>

lemma next_chunk_upto:
  assumes "ds_aesgcm s = gcm" "stream_upto s key (p # ps) tail"
  shows "next_chunk s = (advance (length p + 32) s, Inr p)"
    and "stream_upto (advance (length p + 32) s) key ps tail"
proof -
  have un: "unread (ds_r s) = packet gcm key p @ (frames gcm key ps @ tail)" and ok: "chunk_ok p"
    using assms by (auto simp: stream_upto_def)
  show "next_chunk s = (advance (length p + 32) s, Inr p)"
    by (rule next_chunk_packet [OF assms(1) ok un])
  show "stream_upto (advance (length p + 32) s) key ps tail"
    using assms unread_advance [OF un] by (simp add: stream_upto_def advance_def length_packet)
qed

lemma Read_stream:
  assumes gcm: "ds_aesgcm s = gcm" and at: "stream_upto s key ps tail" and n: "0 < n"
    and more: "ds_buf s \<noteq> [] \<or> ps \<noteq> []"
  shows "\<exists>s' out qs. DecryptStream_Read n s = (s', Inr out) \<and> ds_aesgcm s' = gcm \<and>
           stream_upto s' key qs tail \<and> ds_buf s @ concat ps = out @ ds_buf s' @ concat qs \<and>
           length out \<le> n"
proof (cases "ds_buf s = []")
  case False
  then have "DecryptStream_Read n s =
      (s\<lparr>ds_buf := drop n (ds_buf s)\<rparr>, Inr (take n (ds_buf s)))"
    using n by (simp add: DecryptStream_Read_def)
  moreover have "stream_upto (s\<lparr>ds_buf := drop n (ds_buf s)\<rparr>) key ps tail"
    using at by (simp add: stream_upto_def)
  ultimately show ?thesis using gcm by (intro exI [of _ ps] exI conjI) (auto simp flip: append_assoc)
next
  case True
  then obtain p qs where ps: "ps = p # qs" using more by (cases ps) auto
  let ?s' = "(advance (length p + 32) s)\<lparr>ds_buf := drop n p\<rparr>"
  have "DecryptStream_Read n s = (?s', Inr (take n p))"
    using True n next_chunk_upto(1) [OF gcm at [unfolded ps]]
    by (auto simp: DecryptStream_Read_def advance_def)
  moreover have "stream_upto ?s' key qs tail"
    using next_chunk_upto(2) [OF gcm at [unfolded ps]] by (simp add: stream_upto_def)
  ultimately show ?thesis
    using gcm True ps by (intro exI [of _ qs] exI conjI) (auto simp flip: append_assoc)
qed

text \<open>Reading to the end returns the buffered bytes, then every remaining chunk, then the error
  the tail of the data causes.\<close>

definition tail_error :: "bytes \<Rightarrow> stream_error \<Rightarrow> bool" where
  "tail_error tail e \<longleftrightarrow>
     (\<forall>s. ds_aesgcm s = gcm \<and> unread (ds_r s) = tail \<and> \<not> r_fault (ds_r s) \<longrightarrow>
        (\<exists>s'. next_chunk s = (s', Inl e)))"

lemma read_all_upto:
  assumes "ds_aesgcm s = gcm" "stream_upto s key ps tail" "0 < n" "tail_error tail e"
  shows "read_all n s = (ds_buf s @ concat ps, Some e)"
  using assms
proof (induction n s arbitrary: ps rule: read_all.induct)
  case (1 n s)
  note IH = "1.IH" and prems = "1.prems"
  show ?case
  proof (cases "ds_buf s \<noteq> [] \<or> ps \<noteq> []")
    case False
    then obtain s' where "next_chunk s = (s', Inl e)"
      using prems by (auto simp: tail_error_def stream_upto_def)
    then have "DecryptStream_Read n s = (s', Inl e)"
      using False prems by (simp add: DecryptStream_Read_def)
    then show ?thesis using read_all_error prems False by simp
  next
    case True
    from Read_stream [OF prems(1,2,3) True] obtain s' out qs
      where R: "DecryptStream_Read n s = (s', Inr out)" "ds_aesgcm s' = gcm"
        "stream_upto s' key qs tail" "ds_buf s @ concat ps = out @ ds_buf s' @ concat qs" by blast
    have "read_all n s' = (ds_buf s' @ concat qs, Some e)"
      using IH [OF _ R(1) [symmetric] refl R(2,3)] prems by simp
    then show ?thesis using read_all_step [OF R(1)] prems R(4) by simp
  qed
qed

lemma tail_error_Nil: "tail_error [] EOF"
  by (auto simp: tail_error_def next_chunk_def ReadFull_empty)

lemma read_all_stream:
  assumes "ds_aesgcm s = gcm" "stream_at s key ps" "0 < n"
  shows "read_all n s = (ds_buf s @ concat ps, Some EOF)"
  using assms by (intro read_all_upto [OF _ _ _ tail_error_Nil]) (simp_all add: stream_upto_at)

text \<open>Discarding within the remaining plaintext skips exactly that many bytes.\<close>

lemma discard_stream:
  assumes "ds_aesgcm s = gcm" "stream_at s key ps" "rest \<le> length (ds_buf s @ concat ps)"
  shows "\<exists>s' qs. discard rest s = (s', None) \<and> ds_aesgcm s' = gcm \<and> stream_at s' key qs \<and>
           ds_buf s' @ concat qs = drop rest (ds_buf s @ concat ps)"
  using assms
proof (induction rest s arbitrary: ps rule: discard.induct)
  case (1 rest s)
  note IH = "1.IH" and prems = "1.prems"
  show ?case
  proof (cases "rest = 0")
    case True
    then have "discard rest s = (s, None)" by (subst discard.simps) simp
    then show ?thesis using prems True by auto
  next
    case False
    then have "ds_buf s \<noteq> [] \<or> ps \<noteq> []" using prems(3) by auto
    from Read_stream [OF prems(1) prems(2) [folded stream_upto_at] _ this, of "min rest 8192"] False
    obtain s' out qs where R: "DecryptStream_Read (min rest 8192) s = (s', Inr out)"
      "ds_aesgcm s' = gcm" "stream_at s' key qs" "length out \<le> rest"
      "ds_buf s @ concat ps = out @ ds_buf s' @ concat qs"
      by (auto simp: stream_upto_at)
    have len: "rest - length out \<le> length (ds_buf s' @ concat qs)"
      using prems(3) R(4,5) by (metis le_diff_conv length_append add.commute)
    have "discard rest s = discard (rest - length out) s'"
      using False R(1) by (subst discard.simps) simp
    moreover have "drop rest (ds_buf s @ concat ps) = drop (rest - length out) (ds_buf s' @ concat qs)"
      using R(4,5) by simp
    ultimately show ?thesis using IH [OF False R(1) [symmetric] refl R(2,3) len] by simp
  qed
qed

end

section \<open>Seeking\<close>

text \<open>\<open>boundary ps n\<close>: the offset \<open>n\<close> is the start of one of the chunks or the end of the last.\<close>

fun boundary :: "bytes list \<Rightarrow> nat \<Rightarrow> bool" where
  "boundary [] n \<longleftrightarrow> n = 0"
| "boundary (p # ps) n \<longleftrightarrow> n = 0 \<or> (length p \<le> n \<and> boundary ps (n - length p))"

definition at_pos :: "nat \<Rightarrow> DecryptStream \<Rightarrow> DecryptStream" where
  "at_pos n s = s\<lparr>ds_r := (ds_r s)\<lparr>r_pos := n\<rparr>\<rparr>"

lemma at_pos_sel [simp]:
  "ds_buf (at_pos n s) = ds_buf s" "ds_aesgcm (at_pos n s) = ds_aesgcm s"
  "r_data (ds_r (at_pos n s)) = r_data (ds_r s)" "r_fault (ds_r (at_pos n s)) = r_fault (ds_r s)"
  "r_pos (ds_r (at_pos n s)) = n" "r_seek_fault (ds_r (at_pos n s)) = r_seek_fault (ds_r s)"
  by (simp_all add: at_pos_def)

lemma stream_at_buf [simp]: "stream_at (s\<lparr>ds_buf := b\<rparr>) key ps = stream_at s key ps"
  by (simp add: stream_at_def)

context aead
begin

lemma packet_parts:
  "packet gcm key p =
     put_be32 (of_nat (length p + 16)) @ chunk_nonce key p @ Seal gcm (chunk_nonce key p) p"
  by (simp add: packet_def Let_def)

lemma seek_seeker_skip:
  assumes gcm: "ds_aesgcm s = gcm" and at: "stream_at s key (p # ps)"
    and seek: "\<not> r_seek_fault (ds_r s)" and le: "cur < offset" "cur + length p \<le> offset"
  shows "seek_seeker offset cur s = seek_seeker offset (cur + length p) (advance (length p + 32) s)"
proof -
  let ?l = "of_nat (length p + 16) :: 32 word"
  have ok: "chunk_ok p" using at by (simp add: stream_at_def)
  have "unread (ds_r s) = put_be32 ?l @ (chunk_nonce key p @ Seal gcm (chunk_nonce key p) p @ frames gcm key ps)"
    using at gcm by (simp add: stream_at_def packet_parts del: of_nat_add)
  then have R: "ReadFull 4 (ds_r s) = ((ds_r s)\<lparr>r_pos := r_pos (ds_r s) + 4\<rparr>, Inr (put_be32 ?l))"
    by (rule ReadFull_exact) simp
  have g: "get_be32 (put_be32 ?l) = ?l" using get_be32_put_be32 [of ?l "[]"] by simp
  show ?thesis
    using le seek chunk_ok_len [OF ok]
    by (subst seek_seeker.simps)
      (simp add: R g Let_def Seek_def advance_def ac_simps del: of_nat_add)
qed

lemma seek_seeker_hit:
  assumes gcm: "ds_aesgcm s = gcm" and at: "stream_at s key (p # ps)"
    and le: "cur < offset" "offset < cur + length p"
  shows "seek_seeker offset cur s =
    ((advance (length p + 32) s)\<lparr>ds_buf := drop (offset - cur) p\<rparr>, None)"
proof -
  let ?l = "of_nat (length p + 16) :: 32 word" and ?n = "chunk_nonce key p"
  let ?r1 = "(ds_r s)\<lparr>r_pos := r_pos (ds_r s) + 4\<rparr>"
  let ?r2 = "(ds_r s)\<lparr>r_pos := r_pos (ds_r s) + 16\<rparr>"
  have ok: "chunk_ok p" using at by (simp add: stream_at_def)
  have u0: "unread (ds_r s) = put_be32 ?l @ (?n @ Seal gcm ?n p @ frames gcm key ps)"
    using at gcm by (simp add: stream_at_def packet_parts del: of_nat_add)
  then have R: "ReadFull 4 (ds_r s) = (?r1, Inr (put_be32 ?l))"
    by (rule ReadFull_exact) simp
  have u1: "unread ?r1 = ?n @ (Seal gcm ?n p @ frames gcm key ps)"
    by (rule unread_advance [OF u0]) simp
  then have R2: "ReadFull 12 ?r1 = (?r2, Inr ?n)"
    using ReadFull_exact [OF u1, of 12] by (simp add: ac_simps)
  have u2: "unread ?r2 = Seal gcm ?n p @ frames gcm key ps"
    using unread_advance [OF u1, of 12] by (simp add: ac_simps)
  have O: "open_chunk ?l ?n (s\<lparr>ds_r := ?r2\<rparr>) = (advance (length p + 16) (s\<lparr>ds_r := ?r2\<rparr>), Inr p)"
    using gcm ok u2 by (intro open_chunk_exact) simp_all
  have g: "get_be32 (put_be32 ?l) = ?l" using get_be32_put_be32 [of ?l "[]"] by simp
  show ?thesis
    using le chunk_ok_len [OF ok]
    by (subst seek_seeker.simps)
      (simp add: R R2 O g Let_def advance_def ac_simps del: of_nat_add)
qed

lemma seek_seeker_spec:
  assumes "ds_aesgcm s = gcm" "stream_at s key ps" "\<not> r_seek_fault (ds_r s)" "ds_buf s = []"
    and "cur \<le> offset" "offset \<le> cur + length (concat ps)"
  shows "\<exists>s' qs. seek_seeker offset cur s = (s', None) \<and> ds_aesgcm s' = gcm \<and>
           stream_at s' key qs \<and> ds_buf s' @ concat qs = drop (offset - cur) (concat ps)"
  using assms
proof (induction ps arbitrary: s cur)
  case Nil
  then have "seek_seeker offset cur s = (s, None)" by (subst seek_seeker.simps) simp
  with Nil show ?case by auto
next
  case (Cons p ps)
  show ?case
  proof (cases "cur = offset")
    case True
    then have "seek_seeker offset cur s = (s, None)" by (subst seek_seeker.simps) simp
    with Cons.prems True show ?thesis by (intro exI [of _ s] exI [of _ "p # ps"]) simp
  next
    case False
    then have lt: "cur < offset" using Cons.prems by simp
    show ?thesis
    proof (cases "cur + length p \<le> offset")
      case True
      have "seek_seeker offset cur s = seek_seeker offset (cur + length p) (advance (length p + 32) s)"
        using Cons.prems lt True by (intro seek_seeker_skip)
      moreover have "stream_at (advance (length p + 32) s) key ps"
        using Cons.prems by (intro stream_at_advance)
      ultimately show ?thesis
        using Cons.IH [of "advance (length p + 32) s" "cur + length p"] Cons.prems True by simp
    next
      case hit: False
      then have "seek_seeker offset cur s =
          ((advance (length p + 32) s)\<lparr>ds_buf := drop (offset - cur) p\<rparr>, None)"
        using Cons.prems lt by (intro seek_seeker_hit) simp_all
      moreover have "stream_at (advance (length p + 32) s) key ps"
        using Cons.prems by (intro stream_at_advance)
      ultimately show ?thesis using Cons.prems hit by (auto intro!: exI [of _ ps])
    qed
  qed
qed

lemma seek_readerAt_skip:
  assumes gcm: "ds_aesgcm s = gcm" and at: "stream_at (at_pos pos s) key (p # ps)"
    and le: "cur < offset" "cur + length p \<le> offset"
  shows "seek_readerAt offset cur pos s =
    seek_readerAt offset (cur + length p) (pos + (length p + 32)) s"
proof -
  let ?l = "of_nat (length p + 16) :: 32 word"
  have ok: "chunk_ok p" using at by (simp add: stream_at_def)
  have "drop pos (r_data (ds_r s)) = put_be32 ?l @ (chunk_nonce key p @ Seal gcm (chunk_nonce key p) p @ frames gcm key ps)"
    using at gcm by (simp add: stream_at_def unread_def packet_parts del: of_nat_add)
  then have R: "ReadAt 4 pos (ds_r s) = Inr (put_be32 ?l)"
    by (simp add: ReadAt_def)
  have g: "get_be32 (put_be32 ?l) = ?l" using get_be32_put_be32 [of ?l "[]"] by simp
  show ?thesis
    using le chunk_ok_len [OF ok]
    by (subst seek_readerAt.simps) (simp add: R g Let_def ac_simps del: of_nat_add)
qed

lemma seek_readerAt_hit:
  assumes gcm: "ds_aesgcm s = gcm" and at: "stream_at (at_pos pos s) key (p # ps)"
    and seek: "\<not> r_seek_fault (ds_r s)" and le: "cur < offset" "offset < cur + length p"
  shows "seek_readerAt offset cur pos s =
    ((at_pos (pos + (length p + 32)) s)\<lparr>ds_buf := drop (offset - cur) p\<rparr>, None)"
proof -
  let ?l = "of_nat (length p + 16) :: 32 word" and ?n = "chunk_nonce key p"
  let ?r1 = "(ds_r s)\<lparr>r_pos := pos\<rparr>" and ?r2 = "(ds_r s)\<lparr>r_pos := pos + 16\<rparr>"
  have ok: "chunk_ok p" using at by (simp add: stream_at_def)
  have u1: "unread ?r1 = (put_be32 ?l @ ?n) @ (Seal gcm ?n p @ frames gcm key ps)"
    using at gcm by (simp add: stream_at_def at_pos_def packet_parts del: of_nat_add)
  then have R: "ReadAt 4 pos (ds_r s) = Inr (put_be32 ?l)"
    by (simp add: ReadAt_def unread_def)
  have R2: "ReadFull 16 ?r1 = (?r2, Inr (put_be32 ?l @ ?n))"
    using ReadFull_exact [OF u1, of 16] by simp
  have u2: "unread ?r2 = Seal gcm ?n p @ frames gcm key ps"
    using unread_advance [OF u1, of 16] by simp
  have O: "open_chunk ?l ?n (s\<lparr>ds_r := ?r2\<rparr>) = (advance (length p + 16) (s\<lparr>ds_r := ?r2\<rparr>), Inr p)"
    using gcm ok u2 by (intro open_chunk_exact) simp_all
  have g: "get_be32 (put_be32 ?l) = ?l" using get_be32_put_be32 [of ?l "[]"] by simp
  show ?thesis
    using le seek chunk_ok_len [OF ok]
    by (subst seek_readerAt.simps)
      (simp add: R R2 O g Let_def Seek_def advance_def at_pos_def ac_simps del: of_nat_add)
qed

lemma stream_at_pos_advance:
  assumes "ds_aesgcm s = gcm" "stream_at (at_pos pos s) key (p # ps)"
  shows "stream_at (at_pos (pos + (length p + 32)) s) key ps"
  using stream_at_advance [OF _ assms(2)] assms(1) by (simp add: advance_def at_pos_def)

text \<open>With \<^verbatim>\<open>ReadAt\<close> the scan ends inside a chunk, or leaves the stream untouched at a boundary.\<close>

lemma seek_readerAt_boundary:
  assumes "ds_aesgcm s = gcm" "stream_at (at_pos pos s) key ps" "cur \<le> offset"
    and "boundary ps (offset - cur)"
  shows "seek_readerAt offset cur pos s = (s, None)"
  using assms
proof (induction ps arbitrary: pos cur)
  case Nil
  then show ?case by (subst seek_readerAt.simps) simp
next
  case (Cons p ps)
  show ?case
  proof (cases "cur = offset")
    case True
    then show ?thesis by (subst seek_readerAt.simps) simp
  next
    case False
    then have "cur < offset" "cur + length p \<le> offset" "boundary ps (offset - (cur + length p))"
      using Cons.prems by (auto simp: diff_diff_left)
    with Cons.IH [of "pos + (length p + 32)" "cur + length p"] Cons.prems
      seek_readerAt_skip [of s pos key p ps cur offset] stream_at_pos_advance [of s pos key p ps]
    show ?thesis by simp
  qed
qed

lemma seek_readerAt_inside:
  assumes "ds_aesgcm s = gcm" "stream_at (at_pos pos s) key ps" "\<not> r_seek_fault (ds_r s)"
    and "cur \<le> offset" "offset \<le> cur + length (concat ps)" "\<not> boundary ps (offset - cur)"
  shows "\<exists>s' qs. seek_readerAt offset cur pos s = (s', None) \<and> ds_aesgcm s' = gcm \<and>
           stream_at s' key qs \<and> ds_buf s' @ concat qs = drop (offset - cur) (concat ps)"
  using assms
proof (induction ps arbitrary: pos cur)
  case Nil
  then show ?case by simp
next
  case (Cons p ps)
  then have lt: "cur < offset" by (cases "cur = offset") auto
  show ?case
  proof (cases "cur + length p \<le> offset")
    case True
    then have "\<not> boundary ps (offset - (cur + length p))"
      using Cons.prems by (auto simp: diff_diff_left)
    with Cons.IH [of "pos + (length p + 32)" "cur + length p"] Cons.prems lt True
      seek_readerAt_skip [of s pos key p ps cur offset] stream_at_pos_advance [of s pos key p ps]
    show ?thesis by simp
  next
    case False
    then have "seek_readerAt offset cur pos s =
        ((at_pos (pos + (length p + 32)) s)\<lparr>ds_buf := drop (offset - cur) p\<rparr>, None)"
      using Cons.prems lt by (intro seek_readerAt_hit) simp_all
    with stream_at_pos_advance [of s pos key p ps] Cons.prems False
    show ?thesis by (auto intro!: exI [of _ ps])
  qed
qed

end

section \<open>Damaged and oversized streams\<close>

context aead
begin

lemma tail_error_truncated:
  assumes ok: "chunk_ok p" and k: "0 < k" "k < length (packet gcm key p)"
  shows "tail_error (take k (packet gcm key p)) (if k = 16 then EOF else UnexpectedEOF)"
  unfolding tail_error_def
proof (intro allI impI, elim conjE)
  fix s :: DecryptStream
  assume gcm: "ds_aesgcm s = gcm" and un: "unread (ds_r s) = take k (packet gcm key p)"
    and fault: "\<not> r_fault (ds_r s)"
  let ?l = "of_nat (length p + 16) :: 32 word" and ?n = "chunk_nonce key p"
  let ?r = "(ds_r s)\<lparr>r_pos := r_pos (ds_r s) + 16\<rparr>"
  have lenk: "length (unread (ds_r s)) = k" using un k by simp
  show "\<exists>s'. next_chunk s = (s', Inl (if k = 16 then EOF else UnexpectedEOF))"
  proof (cases "k < 16")
    case True
    then show ?thesis using lenk k fault by (auto simp: next_chunk_def ReadFull_def)
  next
    case False
    then have un': "unread (ds_r s) = (put_be32 ?l @ ?n) @ take (k - 16) (Seal gcm ?n p)"
      using un by (simp add: packet_parts del: of_nat_add)
    have R: "ReadFull 16 (ds_r s) = (?r, Inr (put_be32 ?l @ ?n))"
      by (rule ReadFull_exact [OF un']) simp
    have u: "unread ?r = take (k - 16) (Seal gcm ?n p)"
      by (rule unread_advance [OF un']) simp
    have lt: "k - 16 < length p + 16" using k False by (simp add: length_packet)
    then have "length (unread ?r) = k - 16" using u by (simp add: length_Seal)
    then have "\<exists>s'. open_chunk ?l ?n (s\<lparr>ds_r := ?r\<rparr>) =
        (s', Inl (if k = 16 then EOF else UnexpectedEOF))"
      using lt fault chunk_ok_len(1) [OF ok] False
      by (auto simp: open_chunk_def ReadFull_def simp del: of_nat_add)
    then show ?thesis
      using R chunk_ok_len(2) [OF ok] by (simp add: next_chunk_def Let_def del: of_nat_add)
  qed
qed

lemma tail_error_oversized:
  assumes "MaxChunkSize < length p + 16" "length p + 16 < 2 ^ 32"
  shows "tail_error (packet gcm key p @ rest) InvalidChunkLength"
  unfolding tail_error_def
proof (intro allI impI, elim conjE)
  fix s :: DecryptStream
  let ?l = "of_nat (length p + 16) :: 32 word"
  assume "unread (ds_r s) = packet gcm key p @ rest"
  then have un: "unread (ds_r s) =
      (put_be32 ?l @ chunk_nonce key p) @ (Seal gcm (chunk_nonce key p) p @ rest)"
    by (simp add: packet_parts del: of_nat_add)
  have "ReadFull 16 (ds_r s) =
      ((ds_r s)\<lparr>r_pos := r_pos (ds_r s) + 16\<rparr>, Inr (put_be32 ?l @ chunk_nonce key p))"
    by (rule ReadFull_exact [OF un]) simp
  moreover have "bad_chunk_len ?l"
    using assms unat_chunk_len [OF assms(2)] by (simp add: bad_chunk_len_def del: of_nat_add)
  ultimately show "\<exists>s'. next_chunk s = (s', Inl InvalidChunkLength)"
    by (simp add: next_chunk_def Let_def del: of_nat_add)
qed

end

section \<open>Properties of the AES-GCM streams\<close>

definition empty_writer :: writer where
  "empty_writer = \<lparr>w_data = [], w_room = None\<rparr>"

text \<open>A stream over an encrypted file, at whatever position earlier calls left it.\<close>

definition opened_on :: "reader_kind \<Rightarrow> bytes \<Rightarrow> bytes list \<Rightarrow> DecryptStream \<Rightarrow> bool" where
  "opened_on kind key ps s \<longleftrightarrow>
     r_kind (ds_r s) = kind \<and> r_data (ds_r s) = frames (cipher_NewGCM key) key ps \<and>
     \<not> r_fault (ds_r s) \<and> \<not> r_seek_fault (ds_r s) \<and> list_all chunk_ok ps \<and>
     ds_aesgcm s = cipher_NewGCM key"

definition fresh_stream :: "reader_kind \<Rightarrow> bytes \<Rightarrow> bytes \<Rightarrow> DecryptStream" where
  "fresh_stream kind key data =
     \<lparr>ds_r = new_reader kind data, ds_aesgcm = cipher_NewGCM key, ds_buf = []\<rparr>"

lemma NewDecryptStream_fresh:
  "aes_NewCipher key \<noteq> None \<Longrightarrow>
   NewDecryptStream (new_reader kind data) key = Inr (fresh_stream kind key data)"
  by (auto simp: NewDecryptStream_def fresh_stream_def aes_NewCipher_def split: if_splits)

lemma fresh_stream_upto:
  "list_all chunk_ok ps \<Longrightarrow>
   stream_upto (fresh_stream kind key (frames (cipher_NewGCM key) key ps @ tail)) key ps tail"
  by (simp add: stream_upto_def fresh_stream_def new_reader_def unread_def)

lemma fresh_stream_sel [simp]:
  "ds_aesgcm (fresh_stream kind key d) = cipher_NewGCM key" "ds_buf (fresh_stream kind key d) = []"
  by (simp_all add: fresh_stream_def)

lemma write_all_frames:
  assumes "w_room (es_w es) = None"
  shows "write_all ps es =
    (es\<lparr>es_w := (es_w es)\<lparr>w_data := w_data (es_w es) @
          frames (es_aesgcm es) (es_key es) (filter (\<lambda>p. p \<noteq> []) ps)\<rparr>\<rparr>, None)"
  using assms
  by (induction ps arbitrary: es) (auto simp: EncryptStream_Write_def writer_Write_def)

lemma concat_filter_nonempty: "concat (filter (\<lambda>p. p \<noteq> []) ps) = concat ps"
  by (induction ps) auto

lemma opened_on_rewound:
  assumes "opened_on kind key ps s"
  shows "stream_at (at_pos 0 (s\<lparr>ds_buf := b\<rparr>)) key ps"
  using assms by (simp add: opened_on_def stream_at_def at_pos_def unread_def)

text \<open>C14: whatever sequence of writes a caller makes through an \<^verbatim>\<open>EncryptStream\<close> (any AES key
  size, any chunking, empty writes included, no chunk above the decoder's limit), the writes
  succeed and a \<^verbatim>\<open>DecryptStream\<close> over the bytes written returns exactly the concatenation of
  the writes and then a clean end of file, whatever the size of the read buffer.\<close>

theorem encrypt_decrypt_stream:
  assumes "aes_NewCipher key \<noteq> None" and "list_all chunk_ok ps" and "0 < n"
  shows "\<exists>es es' ds. NewEncryptStream empty_writer key = Inr es \<and> write_all ps es = (es', None) \<and>
           NewDecryptStream (new_reader kind (w_data (es_w es'))) key = Inr ds \<and>
           read_all n ds = (concat ps, Some EOF)"
proof -
  let ?es = "\<lparr>es_w = empty_writer, es_aesgcm = cipher_NewGCM key, es_key = key\<rparr>"
  let ?ps = "filter (\<lambda>p. p \<noteq> []) ps"
  have 1: "NewEncryptStream empty_writer key = Inr ?es"
    using assms(1) by (auto simp: NewEncryptStream_def aes_NewCipher_def split: if_splits)
  obtain es' where 2: "write_all ps ?es = (es', None)"
    and d: "w_data (es_w es') = frames (cipher_NewGCM key) key ?ps"
    using write_all_frames [of ?es ps] by (auto simp: empty_writer_def)
  have at: "stream_upto (fresh_stream kind key (frames (cipher_NewGCM key) key ?ps @ [])) key ?ps []"
    using assms(2) by (intro fresh_stream_upto) (auto simp: list_all_iff)
  have "read_all n (fresh_stream kind key (w_data (es_w es'))) = (concat ps, Some EOF)"
    using aes_gcm.read_all_upto [OF _ at assms(3) aes_gcm.tail_error_Nil]
    by (simp add: d concat_filter_nonempty)
  with 1 2 NewDecryptStream_fresh [OF assms(1)] show ?thesis by blast
qed

theorem encrypt_decrypt_stream_witness:
  "\<exists>es es' ds. NewEncryptStream empty_writer (replicate 32 7) = Inr es \<and>
     write_all [[1, 2, 3], [], [4]] es = (es', None) \<and>
     NewDecryptStream (new_reader ReadSeeker (w_data (es_w es'))) (replicate 32 7) = Inr ds \<and>
     read_all 2 ds = ([1, 2, 3, 4], Some EOF)"
  using encrypt_decrypt_stream [of "replicate 32 7" "[[1, 2, 3], [], [4]]" 2 ReadSeeker]
  by (simp add: aes_NewCipher_def chunk_ok_def MaxChunkSize_def)

text \<open>on a seekable reader without \<^verbatim>\<open>ReadAt\<close>, \<^verbatim>\<open>SeekTo(offset)\<close> succeeds for every offset
  within the plaintext, from any earlier position of the stream, and reading on returns
  exactly the plaintext from that offset.\<close>

theorem SeekTo_seeker:
  assumes s: "opened_on ReadSeeker key ps s" and n: "0 < n"
    and off: "0 \<le> offset" "nat offset \<le> length (concat ps)"
  shows "\<exists>s'. SeekTo offset s = (s', None) \<and>
           read_all n s' = (drop (nat offset) (concat ps), Some EOF)"
proof -
  let ?s1 = "at_pos 0 (s\<lparr>ds_buf := []\<rparr>)"
  have at: "stream_at ?s1 key ps" "ds_aesgcm ?s1 = cipher_NewGCM key"
    "\<not> r_seek_fault (ds_r ?s1)" "ds_buf ?s1 = []"
    using opened_on_rewound [OF s] s by (simp_all add: opened_on_def)
  have S: "SeekTo offset s = (if offset = 0 then (?s1, None) else seek_seeker (nat offset) 0 ?s1)"
    using s off(1) by (simp add: SeekTo_def opened_on_def Let_def Seek_def at_pos_def)
  obtain s' qs where "seek_seeker (nat offset) 0 ?s1 = (s', None)" "ds_aesgcm s' = cipher_NewGCM key"
    "stream_at s' key qs" "ds_buf s' @ concat qs = drop (nat offset) (concat ps)"
    using aes_gcm.seek_seeker_spec [OF at(2,1,3,4), of 0 "nat offset"] off(2) by auto
  then show ?thesis
    using S at aes_gcm.read_all_stream [of s' key key qs n] aes_gcm.read_all_stream [of ?s1 key key ps n] n
    by (cases "offset = 0") simp_all
qed

theorem SeekTo_seeker_witness:
  "let k = replicate 16 9; s = fresh_stream ReadSeeker k (frames (cipher_NewGCM k) k [[1, 2, 3], [4, 5]])
   in \<exists>s'. SeekTo 3 s = (s', None) \<and> read_all 7 s' = ([4, 5], Some EOF)"
  using SeekTo_seeker [of "replicate 16 9" "[[1, 2, 3], [4, 5]]"
      "fresh_stream ReadSeeker (replicate 16 9)
         (frames (cipher_NewGCM (replicate 16 9)) (replicate 16 9) [[1, 2, 3], [4, 5]])" 7 3]
  by (simp add: opened_on_def fresh_stream_def new_reader_def chunk_ok_def MaxChunkSize_def Let_def)

text \<open>Where the scan with \<^verbatim>\<open>ReadAt\<close> leaves the stream, inside a chunk and at its start.\<close>

lemma SeekTo_inside_at:
  assumes s: "opened_on ReadSeekerAt key ps s"
    and off: "0 \<le> offset" "nat offset \<le> length (concat ps)" "\<not> boundary ps (nat offset)"
  shows "\<exists>s' qs. SeekTo offset s = (s', None) \<and> ds_aesgcm s' = cipher_NewGCM key \<and> stream_at s' key qs \<and>
           ds_buf s' @ concat qs = drop (nat offset) (concat ps)"
proof -
  let ?s1 = "at_pos 0 (s\<lparr>ds_buf := []\<rparr>)"
  have at: "stream_at (at_pos 0 ?s1) key ps" "ds_aesgcm ?s1 = cipher_NewGCM key"
    "\<not> r_seek_fault (ds_r ?s1)"
    using opened_on_rewound [OF s] s by (simp_all add: opened_on_def at_pos_def)
  have "offset \<noteq> 0" using off(3) by (cases ps) auto
  then have S: "SeekTo offset s = seek_readerAt (nat offset) 0 0 ?s1"
    using s off(1) by (simp add: SeekTo_def opened_on_def Let_def Seek_def at_pos_def)
  then show ?thesis using aes_gcm.seek_readerAt_inside [OF at(2,1,3), of 0 "nat offset"] off by auto
qed

lemma SeekTo_boundary_at:
  assumes s: "opened_on ReadSeekerAt key ps s" and off: "0 \<le> offset" "boundary ps (nat offset)"
  shows "\<exists>s'. SeekTo offset s = (s', None) \<and> ds_aesgcm s' = cipher_NewGCM key \<and> stream_at s' key ps \<and> ds_buf s' = []"
proof -
  let ?s1 = "at_pos 0 (s\<lparr>ds_buf := []\<rparr>)"
  have at: "stream_at (at_pos 0 ?s1) key ps" "stream_at ?s1 key ps"
    "ds_aesgcm ?s1 = cipher_NewGCM key" "ds_buf ?s1 = []"
    using opened_on_rewound [OF s] s by (simp_all add: opened_on_def at_pos_def)
  have "SeekTo offset s = (if offset = 0 then (?s1, None) else seek_readerAt (nat offset) 0 0 ?s1)"
    using s off(1) by (simp add: SeekTo_def opened_on_def Let_def Seek_def at_pos_def)
  then have "SeekTo offset s = (?s1, None)"
    using aes_gcm.seek_readerAt_boundary [OF at(3,1), of 0 "nat offset"] off by simp
  then show ?thesis using at by blast
qed

text \<open>on a reader with \<^verbatim>\<open>ReadAt\<close> (an \<^verbatim>\<open>*os.File\<close>), \<^verbatim>\<open>SeekTo(offset)\<close> does the same for every
  offset that falls strictly inside a chunk.\<close>

theorem SeekTo_readerAt_inside:
  assumes s: "opened_on ReadSeekerAt key ps s" and n: "0 < n"
    and off: "0 \<le> offset" "nat offset \<le> length (concat ps)" "\<not> boundary ps (nat offset)"
  shows "\<exists>s'. SeekTo offset s = (s', None) \<and>
           read_all n s' = (drop (nat offset) (concat ps), Some EOF)"
proof -
  from SeekTo_inside_at [OF s off] obtain s' qs where "SeekTo offset s = (s', None)" "ds_aesgcm s' = cipher_NewGCM key"
    "stream_at s' key qs" "ds_buf s' @ concat qs = drop (nat offset) (concat ps)" by blast
  then show ?thesis using aes_gcm.read_all_stream [of s' key key qs n] n by simp
qed

theorem SeekTo_readerAt_inside_witness:
  "let k = replicate 16 9; s = fresh_stream ReadSeekerAt k (frames (cipher_NewGCM k) k [[1, 2, 3], [4, 5]])
   in \<exists>s'. SeekTo 4 s = (s', None) \<and> read_all 7 s' = ([5], Some EOF)"
  using SeekTo_readerAt_inside [of "replicate 16 9" "[[1, 2, 3], [4, 5]]"
      "fresh_stream ReadSeekerAt (replicate 16 9)
         (frames (cipher_NewGCM (replicate 16 9)) (replicate 16 9) [[1, 2, 3], [4, 5]])" 7 4]
  by (simp add: opened_on_def fresh_stream_def new_reader_def chunk_ok_def MaxChunkSize_def Let_def)

text \<open>at an offset that is the start of a chunk (or the end of the data), the \<^verbatim>\<open>ReadAt\<close> scan
  leaves its loop without ever moving the reader, which was rewound to the start: \<^verbatim>\<open>SeekTo\<close>
  reports success and reading on returns the plaintext from its first byte, not from the
  offset.\<close>

theorem SeekTo_readerAt_boundary:
  assumes s: "opened_on ReadSeekerAt key ps s" and n: "0 < n"
    and off: "0 \<le> offset" "boundary ps (nat offset)"
  shows "\<exists>s'. SeekTo offset s = (s', None) \<and> read_all n s' = (concat ps, Some EOF)"
proof -
  from SeekTo_boundary_at [OF s off] obtain s' where "SeekTo offset s = (s', None)" "ds_aesgcm s' = cipher_NewGCM key"
    "stream_at s' key ps" "ds_buf s' = []" by blast
  then show ?thesis using aes_gcm.read_all_stream [of s' key key ps n] n by simp
qed

theorem SeekTo_readerAt_boundary_witness:
  "let k = replicate 16 9; s = fresh_stream ReadSeekerAt k (frames (cipher_NewGCM k) k [[1, 2, 3], [4, 5]])
   in \<exists>s'. SeekTo 3 s = (s', None) \<and> read_all 7 s' = ([1, 2, 3, 4, 5], Some EOF)"
  using SeekTo_readerAt_boundary [of "replicate 16 9" "[[1, 2, 3], [4, 5]]"
      "fresh_stream ReadSeekerAt (replicate 16 9)
         (frames (cipher_NewGCM (replicate 16 9)) (replicate 16 9) [[1, 2, 3], [4, 5]])" 7 3]
  by (simp add: opened_on_def fresh_stream_def new_reader_def chunk_ok_def MaxChunkSize_def Let_def)

text \<open>on a reader that cannot seek, \<^verbatim>\<open>SeekTo(offset)\<close> on a fresh stream decrypts and discards:
  it succeeds within the plaintext and reading on returns the plaintext from the offset.\<close>

theorem SeekTo_plain:
  assumes ok: "list_all chunk_ok ps" and n: "0 < n"
    and off: "0 \<le> offset" "nat offset \<le> length (concat ps)"
  shows "\<exists>s'. SeekTo offset (fresh_stream PlainReader key (frames (cipher_NewGCM key) key ps)) = (s', None) \<and>
           read_all n s' = (drop (nat offset) (concat ps), Some EOF)"
proof -
  let ?s = "fresh_stream PlainReader key (frames (cipher_NewGCM key) key ps)"
  have at: "stream_at ?s key ps"
    using fresh_stream_upto [OF ok, of PlainReader key "[]"] by (simp add: stream_upto_at)
  have S: "SeekTo offset ?s = (if offset = 0 then (?s, None) else discard (nat offset) ?s)"
    using off(1) by (simp add: SeekTo_def fresh_stream_def new_reader_def Let_def)
  obtain s' qs where "discard (nat offset) ?s = (s', None)" "ds_aesgcm s' = cipher_NewGCM key"
    "stream_at s' key qs" "ds_buf s' @ concat qs = drop (nat offset) (concat ps)"
    using aes_gcm.discard_stream [OF _ at, of key "nat offset"] off(2) by auto
  then show ?thesis
    using S at aes_gcm.read_all_stream [of s' key key qs n] aes_gcm.read_all_stream [of ?s key key ps n] n
    by (cases "offset = 0") simp_all
qed

theorem SeekTo_plain_witness:
  "let k = replicate 24 1 in
   \<exists>s'. SeekTo 2 (fresh_stream PlainReader k (frames (cipher_NewGCM k) k [[1, 2, 3], [4, 5]])) = (s', None) \<and>
        read_all 1 s' = ([3, 4, 5], Some EOF)"
  using SeekTo_plain [of "[[1, 2, 3], [4, 5]]" 1 2 "replicate 24 1"]
  by (simp add: chunk_ok_def MaxChunkSize_def Let_def)

text \<open>C39: a stream cut off inside a chunk yields the complete chunks before it and then an
  error, which is \<^verbatim>\<open>io.ErrUnexpectedEOF\<close> in every case but one: a cut right behind a 16-byte
  header is reported as a clean \<^verbatim>\<open>io.EOF\<close>, the same as the proper end of the stream.\<close>

theorem truncated_stream:
  assumes "list_all chunk_ok (ps @ [p])" "0 < n" "0 < k" "k < length p + 32"
  shows "read_all n (fresh_stream kind key
           (frames (cipher_NewGCM key) key ps @ take k (packet (cipher_NewGCM key) key p))) =
         (concat ps, Some (if k = 16 then EOF else UnexpectedEOF))"
proof -
  let ?tail = "take k (packet (cipher_NewGCM key) key p)"
  have t: "aes_gcm.tail_error key ?tail (if k = 16 then EOF else UnexpectedEOF)"
    using assms by (intro aes_gcm.tail_error_truncated) (simp_all add: aes_gcm.length_packet)
  have "stream_upto (fresh_stream kind key (frames (cipher_NewGCM key) key ps @ ?tail)) key ps ?tail"
    using assms(1) by (intro fresh_stream_upto) simp
  from aes_gcm.read_all_upto [OF _ this assms(2) t] show ?thesis by simp
qed

theorem truncated_stream_witness:
  "let k = replicate 16 0; g = cipher_NewGCM k in
   read_all 9 (fresh_stream PlainReader k (frames g k [[1, 2]] @ take 16 (packet g k [3]))) = ([1, 2], Some EOF) \<and>
   read_all 9 (fresh_stream PlainReader k (frames g k [[1, 2]] @ take 17 (packet g k [3]))) = ([1, 2], Some UnexpectedEOF)"
  using truncated_stream [of "[[1, 2]]" "[3]" 9 16 PlainReader "replicate 16 0"]
    truncated_stream [of "[[1, 2]]" "[3]" 9 17 PlainReader "replicate 16 0"]
  by (simp add: chunk_ok_def MaxChunkSize_def Let_def)

text \<open>the encoder accepts chunks the decoder refuses. A write of more than 50 MiB less the
  tag is framed and reported as written, but a stream holding it ends there with the
  decoder's length error.\<close>

theorem oversized_chunk_unreadable:
  assumes ok: "list_all chunk_ok ps" and big: "\<not> chunk_ok p" "length p + 16 < 2 ^ 32" and n: "0 < n"
    and es: "es = \<lparr>es_w = empty_writer, es_aesgcm = cipher_NewGCM key, es_key = key\<rparr>"
    and W: "EncryptStream_Write p es = (es', res)"
  shows "res = Inr (length p) \<and>
    read_all n (fresh_stream kind key
      (frames (cipher_NewGCM key) key ps @ w_data (es_w es') @ rest)) =
    (concat ps, Some InvalidChunkLength)"
proof -
  let ?pk = "packet (cipher_NewGCM key) key p"
  have p: "p \<noteq> []" using big(1) by (auto simp: chunk_ok_def MaxChunkSize_def)
  then have w: "res = Inr (length p)" "w_data (es_w es') = ?pk"
    using W es by (auto simp: EncryptStream_Write_def writer_Write_def empty_writer_def)
  have t: "aes_gcm.tail_error key (?pk @ rest) InvalidChunkLength"
    using big by (intro aes_gcm.tail_error_oversized) (simp_all add: chunk_ok_def)
  have "stream_upto (fresh_stream kind key (frames (cipher_NewGCM key) key ps @ ?pk @ rest)) key ps (?pk @ rest)"
    using ok by (rule fresh_stream_upto)
  from aes_gcm.read_all_upto [OF _ this n t] w show ?thesis by simp
qed

theorem oversized_chunk_unreadable_witness:
  "\<exists>es' res. EncryptStream_Write (replicate 52428785 0)
       \<lparr>es_w = empty_writer, es_aesgcm = cipher_NewGCM (replicate 32 0), es_key = replicate 32 0\<rparr> = (es', res) \<and>
     res = Inr 52428785 \<and>
     read_all 1 (fresh_stream ReadSeeker (replicate 32 0) (w_data (es_w es'))) = ([], Some InvalidChunkLength)"
proof -
  let ?es = "\<lparr>es_w = empty_writer, es_aesgcm = cipher_NewGCM (replicate 32 0), es_key = replicate 32 0\<rparr>"
  obtain es' res where W: "EncryptStream_Write (replicate 52428785 0) ?es = (es', res)"
    by (cases "EncryptStream_Write (replicate 52428785 0) ?es")
  have "list_all chunk_ok []" "\<not> chunk_ok (replicate 52428785 0)"
    "length (replicate 52428785 (0 :: byte)) + 16 < 2 ^ 32"
    by (simp_all only: list.pred_inject chunk_ok_def MaxChunkSize_def length_replicate TagSize_def) simp_all
  from oversized_chunk_unreadable [OF this zero_less_one refl W, of ReadSeeker "[]"] W
  show ?thesis by (auto simp only: length_replicate frames_simps append.simps append_Nil2 concat.simps)
qed

text \<open>\<^verbatim>\<open>PreloadFirstChunk\<close> verifies the first chunk without consuming anything a reader sees:
  it succeeds exactly when there is a byte or a chunk left, and a full read afterwards
  returns what it would have returned without the call.\<close>

theorem PreloadFirstChunk_transparent:
  assumes gcm: "ds_aesgcm s = cipher_NewGCM key" and at: "stream_at s key ps" and n: "0 < n"
    and P: "PreloadFirstChunk s = (s', e)"
  shows "read_all n s' = read_all n s \<and> (e = None \<longleftrightarrow> ds_buf s \<noteq> [] \<or> ps \<noteq> [])"
proof (cases "ds_buf s \<noteq> []")
  case True
  with P show ?thesis by (auto simp: PreloadFirstChunk_def)
next
  case False
  show ?thesis
  proof (cases ps)
    case Nil
    then have "next_chunk s = (s, Inl EOF)" using next_chunk_end at by simp
    with P False Nil show ?thesis by (auto simp: PreloadFirstChunk_def)
  next
    case (Cons p qs)
    note up = aes_gcm.next_chunk_upto [OF gcm, of key p qs "[]"]
    have "s' = (advance (length p + 32) s)\<lparr>ds_buf := p\<rparr>" "e = None"
      using P False Cons at up(1) by (auto simp: PreloadFirstChunk_def stream_upto_at)
    moreover from this have "stream_at s' key qs" "ds_aesgcm s' = cipher_NewGCM key"
      using up(2) Cons at gcm by (auto simp: stream_upto_at)
    ultimately show ?thesis
      using aes_gcm.read_all_stream [of s' key key qs n] aes_gcm.read_all_stream [OF gcm at n]
        False Cons n by simp
  qed
qed

theorem PreloadFirstChunk_transparent_witness:
  "let k = replicate 16 5; s = fresh_stream PlainReader k (frames (cipher_NewGCM k) k [[8, 9]])
   in read_all 3 (fst (PreloadFirstChunk s)) = read_all 3 s \<and> snd (PreloadFirstChunk s) = None"
proof -
  let ?k = "replicate 16 5 :: bytes"
  let ?s = "fresh_stream PlainReader ?k (frames (cipher_NewGCM ?k) ?k [[8, 9]])"
  have at: "stream_at ?s ?k [[8, 9]]"
    using fresh_stream_upto [of "[[8, 9]]" PlainReader ?k "[]"]
    by (simp add: stream_upto_at chunk_ok_def MaxChunkSize_def)
  have "PreloadFirstChunk ?s = (fst (PreloadFirstChunk ?s), snd (PreloadFirstChunk ?s))" by simp
  from PreloadFirstChunk_transparent [OF fresh_stream_sel(1) at _ this, of 3]
  show ?thesis by (simp add: Let_def)
qed

text \<open>block encryption of a key round-trips: with a valid key and 12 random bytes,
  \<^verbatim>\<open>EncryptBlock\<close> succeeds and \<^verbatim>\<open>DecryptBlock\<close> under the same key returns the data.\<close>

theorem DecryptBlock_EncryptBlock:
  assumes "aes_NewCipher key \<noteq> None" and "NonceSize \<le> length rnd"
  shows "\<exists>c. EncryptBlock rnd data key = Inr c \<and> DecryptBlock c key = Inr data \<and>
           length c = length data + 28"
proof -
  obtain block where b: "aes_NewCipher key = Some block" using assms(1) by auto
  have l: "length (take NonceSize rnd) = 12" using assms(2) by simp
  then show ?thesis
    using b assms(2)
    by (simp add: EncryptBlock_def DecryptBlock_def Let_def aes_gcm.Open_Seal aes_gcm.length_Seal min_def)
qed

theorem DecryptBlock_EncryptBlock_witness:
  "\<exists>c. EncryptBlock (replicate 12 3) [1, 2] (replicate 32 4) = Inr c \<and>
       DecryptBlock c (replicate 32 4) = Inr [1, 2] \<and> length c = 30"
  using DecryptBlock_EncryptBlock [of "replicate 32 4" "replicate 12 3" "[1, 2]"]
  by (simp add: aes_NewCipher_def)

end
