(* ===== verification/Go_Files.thy ===== *)
theory Go_Files
  imports Go_Strings
begin

text \<open>
  The file system as the storage components see it: a map from paths to the bytes of the
  regular file there, and the calls of package \<^verbatim>\<open>os\<close> on it. Any call may also fail for a reason
  outside the program (permissions, a full disk, a rename across devices): which calls
  fail is the argument \<open>fails\<close> of every operation, so a theorem about an operation holds for
  every pattern of failures it does not exclude. Directories are not represented: a path
  names a regular file or nothing.
\<close>

type_synonym fs = "string \<rightharpoonup> bytes"

datatype os_call =
    StatCall string | OpenCall string | CreateCall string | ReadCall string
  | CopyCall string string | WriteCall string | RenameCall string string
  | RemoveCall string | MkdirCall string

type_synonym faults = "os_call \<Rightarrow> bool"

definition no_faults :: faults where
  "no_faults = (\<lambda>_. False)"

lemma no_faults [simp]: "\<not> no_faults c"
  by (simp add: no_faults_def)

definition os_Stat :: "faults \<Rightarrow> string \<Rightarrow> fs \<Rightarrow> bool" where
  "os_Stat fails p fs \<longleftrightarrow> \<not> fails (StatCall p) \<and> fs p \<noteq> None"

definition os_Open :: "faults \<Rightarrow> string \<Rightarrow> fs \<Rightarrow> bytes option" where
  "os_Open fails p fs = (if fails (OpenCall p) then None else fs p)"

definition os_ReadFile :: "faults \<Rightarrow> string \<Rightarrow> fs \<Rightarrow> bytes option" where
  "os_ReadFile fails p fs =
     (if fails (OpenCall p) \<or> fails (ReadCall p) then None else fs p)"

definition os_Create :: "faults \<Rightarrow> string \<Rightarrow> fs \<Rightarrow> fs option" where
  "os_Create fails p fs = (if fails (CreateCall p) then None else Some (fs(p \<mapsto> [])))"

text \<open>\<^verbatim>\<open>os.WriteFile\<close> truncates the file and then writes; a write that fails leaves it empty.\<close>

definition os_WriteFile :: "faults \<Rightarrow> string \<Rightarrow> bytes \<Rightarrow> fs \<Rightarrow> fs \<times> bool" where
  "os_WriteFile fails p d fs =
     (if fails (CreateCall p) then (fs, False)
      else if fails (WriteCall p) then (fs(p \<mapsto> []), False)
      else (fs(p \<mapsto> d), True))"

definition os_Remove :: "faults \<Rightarrow> string \<Rightarrow> fs \<Rightarrow> fs" where
  "os_Remove fails p fs = (if fails (RemoveCall p) then fs else fs(p := None))"

definition os_Rename :: "faults \<Rightarrow> string \<Rightarrow> string \<Rightarrow> fs \<Rightarrow> fs option" where
  "os_Rename fails p q fs =
     (if fails (RenameCall p q) then None
      else case fs p of None \<Rightarrow> None | Some d \<Rightarrow> Some ((fs(p := None))(q \<mapsto> d)))"

lemmas os_defs =
  os_Stat_def os_Open_def os_ReadFile_def os_Create_def os_WriteFile_def os_Remove_def os_Rename_def

lemma os_Remove_other: "q \<noteq> p \<Longrightarrow> os_Remove fails p fs q = fs q"
  by (simp add: os_Remove_def)

lemma os_Remove_same [simp]: "\<not> fails (RemoveCall p) \<Longrightarrow> os_Remove fails p fs p = None"
  by (simp add: os_Remove_def)

lemma os_Remove_shrinks: "os_Remove fails p fs q = Some d \<Longrightarrow> fs q = Some d"
  by (auto simp: os_Remove_def split: if_splits)

end
