(* ===== verification/CAS_Engine.thy ===== *)
theory CAS_Engine
  imports Go_Files Go_Crypto
begin

text \<open>
  Content-addressable storage, \<^verbatim>\<open>internal/storage/cas.go\<close>: hash validation, the sharded path of a
  blob, the in-memory existence cache and the move of a finished upload into the store.
  The state of an engine is its base directory and the set of hashes in its cache; the
  blobs themselves are in the file system.
\<close>

section \<open>The engine\<close>

record CASEngine =
  BaseDir :: string
  existCache :: "string set"

definition NewCASEngine :: "faults \<Rightarrow> string \<Rightarrow> CASEngine option" where
  "NewCASEngine fails baseDir =
     (if fails (MkdirCall baseDir) then None else Some \<lparr>BaseDir = baseDir, existCache = {}\<rparr>)"

definition is_hex_char :: "char \<Rightarrow> bool" where
  "is_hex_char c \<longleftrightarrow>
     (CHR ''0'' \<le> c \<and> c \<le> CHR ''9'') \<or> (CHR ''a'' \<le> c \<and> c \<le> CHR ''f'') \<or>
     (CHR ''A'' \<le> c \<and> c \<le> CHR ''F'')"

definition IsValidHash :: "string \<Rightarrow> bool" where
  "IsValidHash hash \<longleftrightarrow> length hash = 64 \<and> list_all is_hex_char hash"

definition cas_Path :: "CASEngine \<Rightarrow> string \<Rightarrow> string" where
  "cas_Path c hash =
     (if \<not> IsValidHash hash then path_Join [BaseDir c, ''invalid_hash'']
      else
        BaseDir c @ (if BaseDir c \<noteq> [] \<and> last (BaseDir c) \<noteq> CHR ''/'' then ''/'' else []) @
        take 2 hash @ ''/'' @ take 2 (drop 2 hash) @ ''/'' @ hash)"

definition cas_Exists :: "faults \<Rightarrow> fs \<Rightarrow> string \<Rightarrow> CASEngine \<Rightarrow> CASEngine \<times> bool" where
  "cas_Exists fails fs hash c =
     (if \<not> IsValidHash hash then (c, False)
      else if hash \<in> existCache c then (c, True)
      else if os_Stat fails (cas_Path c hash) fs
           then (c\<lparr>existCache := insert hash (existCache c)\<rparr>, True)
      else (c, False))"

definition cas_Invalidate :: "string \<Rightarrow> CASEngine \<Rightarrow> CASEngine" where
  "cas_Invalidate hash c = c\<lparr>existCache := existCache c - {hash}\<rparr>"

definition cas_ClearCache :: "CASEngine \<Rightarrow> CASEngine" where
  "cas_ClearCache c = c\<lparr>existCache := {}\<rparr>"

definition hash_of :: "bytes \<Rightarrow> string" where
  "hash_of d = hex_encode (sha256 d)"

definition ComputeHash :: "faults \<Rightarrow> string \<Rightarrow> fs \<Rightarrow> string option" where
  "ComputeHash fails filePath fs =
     (case os_Open fails filePath fs of
        None \<Rightarrow> None
      | Some d \<Rightarrow> if fails (ReadCall filePath) then None else Some (hash_of d))"

text \<open>\<^verbatim>\<open>MoveToCASWithStatus\<close>: the result is the hash and whether the blob existed before, or \<^const>\<open>None\<close>
  for an error. The copy across file systems, when it fails, has created a prefix of the
  blob, which it then removes; \<open>part\<close> is how many bytes had been copied.\<close>

definition MoveToCASWithStatus ::
  "faults \<Rightarrow> nat \<Rightarrow> string \<Rightarrow> CASEngine \<times> fs \<Rightarrow> (CASEngine \<times> fs) \<times> (string \<times> bool) option" where
  "MoveToCASWithStatus fails part tempPath st =
     (case st of (c, fs) \<Rightarrow>
       (case ComputeHash fails tempPath fs of
          None \<Rightarrow> ((c, fs), None)
        | Some hash \<Rightarrow>
            let destPath = cas_Path c hash in
            (case cas_Exists fails fs hash c of
               (c1, True) \<Rightarrow> ((c1, os_Remove fails tempPath fs), Some (hash, True))
             | (c1, False) \<Rightarrow>
                 if fails (MkdirCall (path_Dir destPath)) then ((c1, fs), None)
                 else
                   let stored = c1\<lparr>existCache := insert hash (existCache c1)\<rparr> in
                   (case os_Rename fails tempPath destPath fs of
                      Some fs' \<Rightarrow> ((stored, fs'), Some (hash, False))
                    | None \<Rightarrow>
                        (case os_Open fails tempPath fs of
                           None \<Rightarrow> ((c1, fs), None)
                         | Some d \<Rightarrow>
                             (case os_Create fails destPath fs of
                                None \<Rightarrow> ((c1, fs), None)
                              | Some fs1 \<Rightarrow>
                                  if fails (CopyCall tempPath destPath) then
                                    ((c1, os_Remove fails destPath (fs1(destPath \<mapsto> take part d))), None)
                                  else
                                    ((stored, os_Remove fails tempPath (fs1(destPath \<mapsto> d))),
                                     Some (hash, False))))))))"

definition MoveToCAS ::
  "faults \<Rightarrow> nat \<Rightarrow> string \<Rightarrow> CASEngine \<times> fs \<Rightarrow> (CASEngine \<times> fs) \<times> string option" where
  "MoveToCAS fails part tempPath st =
     (case MoveToCASWithStatus fails part tempPath st of (st', r) \<Rightarrow> (st', map_option fst r))"

section \<open>Hashes and paths\<close>

lemma hex_char_is_hex: "c \<in> set ''0123456789abcdef'' \<Longrightarrow> is_hex_char c"
  by (auto simp: is_hex_char_def less_eq_char_def)

lemma IsValidHash_hex_encode: "length bs = 32 \<Longrightarrow> IsValidHash (hex_encode bs)"
  using hex_encode_alphabet [of bs] hex_char_is_hex
  by (auto simp: IsValidHash_def list_all_iff simp del: set_simps)

lemma IsValidHash_hash_of [simp]: "IsValidHash (hash_of d)"
  by (simp add: hash_of_def IsValidHash_hex_encode)

lemma ComputeHash_Some:
  assumes "ComputeHash fails p fs = Some h"
  obtains d where "fs p = Some d" "hash_of d = h" "\<not> fails (OpenCall p)"
  using assms by (auto simp: ComputeHash_def os_Open_def split: if_splits option.splits)

lemma cas_Path_valid:
  "IsValidHash h \<Longrightarrow> \<exists>pre. cas_Path c h = pre @ h"
  by (auto simp: cas_Path_def)

lemma cas_Path_inject:
  assumes "IsValidHash h" "IsValidHash h'" "cas_Path c h = cas_Path c' h'"
  shows "h = h'"
proof -
  obtain p p' where "cas_Path c h = p @ h" "cas_Path c' h' = p' @ h'"
    using cas_Path_valid assms(1,2) by blast
  moreover have "length h = length h'" using assms(1,2) by (simp add: IsValidHash_def)
  ultimately show ?thesis using assms(3) by simp
qed

lemma cas_Path_cache [simp]: "cas_Path (c\<lparr>existCache := x\<rparr>) h = cas_Path c h"
  by (simp add: cas_Path_def)

lemma cas_Exists_sel:
  "cas_Exists fails fs h c = (c', b) \<Longrightarrow>
   BaseDir c' = BaseDir c \<and> cas_Path c' = cas_Path c \<and> existCache c \<subseteq> existCache c'"
  by (auto simp: cas_Exists_def cas_Path_def fun_eq_iff split: if_splits)

section \<open>The storage invariant\<close>

text \<open>Every cached hash names a blob on disk, and every blob is stored under its own hash.\<close>

definition cas_inv :: "CASEngine \<times> fs \<Rightarrow> bool" where
  "cas_inv st \<longleftrightarrow>
     (\<forall>h \<in> existCache (fst st). IsValidHash h \<and> snd st (cas_Path (fst st) h) \<noteq> None) \<and>
     (\<forall>h d. IsValidHash h \<longrightarrow> snd st (cas_Path (fst st) h) = Some d \<longrightarrow> hash_of d = h)"

text \<open>A path that is no blob's path, as the temporary directory's paths are.\<close>

definition outside_store :: "CASEngine \<times> fs \<Rightarrow> string \<Rightarrow> bool" where
  "outside_store st p \<longleftrightarrow> (\<forall>h. IsValidHash h \<longrightarrow> p \<noteq> cas_Path (fst st) h)"

definition blob_at :: "CASEngine \<times> fs \<Rightarrow> string \<Rightarrow> bytes option" where
  "blob_at st h = (if IsValidHash h then snd st (cas_Path (fst st) h) else None)"

lemma outside_store_cong: "cas_Path c = cas_Path c' \<Longrightarrow> outside_store (c, fs) p = outside_store (c', fs') p"
  by (simp add: outside_store_def)

lemma blob_at_temp: "outside_store (c, fs) p \<Longrightarrow> blob_at (c, fs(p := x)) = blob_at (c, fs)"
  by (auto simp: blob_at_def outside_store_def fun_eq_iff)

lemma outside_store_hash: "outside_store (c, fs) p \<Longrightarrow> cas_Path c (hash_of d) \<noteq> p"
  using IsValidHash_hash_of [of d] unfolding outside_store_def by fastforce

text \<open>A name with an extension that is no hexadecimal digit is never a blob's, wherever its directory is.\<close>

lemma outside_store_ext:
  assumes "p = w @ v" "v \<noteq> []" "\<not> is_hex_char (last v)"
  shows "outside_store st p"
proof -
  have "p \<noteq> cas_Path (fst st) h" if h: "IsValidHash h" for h
  proof -
    obtain pre where "cas_Path (fst st) h = pre @ h" using cas_Path_valid [OF h] by blast
    moreover have n: "h \<noteq> []" using h by (auto simp: IsValidHash_def)
    moreover have "is_hex_char (last h)" using h last_in_set [OF n] by (auto simp: IsValidHash_def list_all_iff)
    ultimately show ?thesis using assms by (metis last_appendR)
  qed
  then show ?thesis by (simp add: outside_store_def)
qed

lemma cas_inv_cached: "cas_inv (c, fs) \<Longrightarrow> h \<in> existCache c \<Longrightarrow> \<exists>d. fs (cas_Path c h) = Some d"
  by (auto simp: cas_inv_def)

lemma cas_Exists_True:
  assumes "cas_inv (c, fs)" "cas_Exists fails fs h c = (c', True)"
  shows "IsValidHash h \<and> fs (cas_Path c h) \<noteq> None \<and> existCache c' = insert h (existCache c)"
  using assms by (auto simp: cas_inv_def cas_Exists_def os_Stat_def split: if_splits)

lemma cas_Exists_False: "cas_Exists fails fs h c = (c', False) \<Longrightarrow> c' = c"
  by (auto simp: cas_Exists_def split: if_splits)

text \<open>Storing the right bytes under a hash, removing a temporary file, and remembering the
  hash keep the invariant.\<close>

lemma cas_inv_update:
  assumes inv: "cas_inv (c, fs)" and d: "hash_of d = h" and out: "outside_store (c, fs) p"
  shows "cas_inv (c\<lparr>existCache := insert h (existCache c)\<rparr>, (fs(p := x))(cas_Path c h \<mapsto> d))"
proof -
  have h: "IsValidHash h" using d by auto
  have p: "cas_Path c h' \<noteq> p" if "IsValidHash h'" for h'
    using out that by (auto simp: outside_store_def)
  show ?thesis unfolding cas_inv_def fst_conv snd_conv
  proof (intro conjI ballI allI impI)
    fix h' assume "h' \<in> existCache (c\<lparr>existCache := insert h (existCache c)\<rparr>)"
    then consider "h' = h" | "h' \<in> existCache c" by auto
    then show "IsValidHash h'"
      and "((fs(p := x))(cas_Path c h \<mapsto> d)) (cas_Path (c\<lparr>existCache := insert h (existCache c)\<rparr>) h') \<noteq> None"
      using inv h p by (cases; simp add: cas_inv_def)+
  next
    fix h' d'
    assume "IsValidHash h'"
      and "((fs(p := x))(cas_Path c h \<mapsto> d)) (cas_Path (c\<lparr>existCache := insert h (existCache c)\<rparr>) h') = Some d'"
    then show "hash_of d' = h'"
      using inv h p d cas_Path_inject [of h' h c c]
      by (cases "cas_Path c h' = cas_Path c h") (auto simp: cas_inv_def)
  qed
qed

lemma cas_inv_remove_temp:
  assumes "cas_inv (c, fs)" "outside_store (c, fs) p"
  shows "cas_inv (c, fs(p := x))"
  using assms by (auto simp: cas_inv_def outside_store_def)

lemma cas_inv_drop_blob:
  assumes "cas_inv (c, fs)" "IsValidHash h" "h \<notin> existCache c"
  shows "cas_inv (c, fs(cas_Path c h := None))"
proof -
  have "cas_Path c h' \<noteq> cas_Path c h" if "h' \<in> existCache c" for h'
    using assms that cas_Path_inject [of h' h c c] by (auto simp: cas_inv_def)
  then show ?thesis using assms(1) by (auto simp: cas_inv_def)
qed

text \<open>The cases of a move, as the code's exits.\<close>

inductive move_outcome ::
  "faults \<Rightarrow> nat \<Rightarrow> string \<Rightarrow> CASEngine \<Rightarrow> fs \<Rightarrow> CASEngine \<Rightarrow> fs \<Rightarrow> (string \<times> bool) option \<Rightarrow> bool"
  for fails part p c fs where
    unreadable: "ComputeHash fails p fs = None \<Longrightarrow> move_outcome fails part p c fs c fs None"
  | dedup: "ComputeHash fails p fs = Some h \<Longrightarrow> cas_Exists fails fs h c = (c', True) \<Longrightarrow>
      move_outcome fails part p c fs c' (os_Remove fails p fs) (Some (h, True))"
  | failed: "ComputeHash fails p fs = Some h \<Longrightarrow> fs p = Some d \<Longrightarrow>
      cas_Exists fails fs h c = (c, False) \<Longrightarrow>
      fs' = fs \<or> fs' = os_Remove fails (cas_Path c h) (fs(cas_Path c h \<mapsto> take part d)) \<Longrightarrow>
      move_outcome fails part p c fs c fs' None"
  | stored: "ComputeHash fails p fs = Some h \<Longrightarrow> fs p = Some d \<Longrightarrow>
      cas_Exists fails fs h c = (c, False) \<Longrightarrow>
      fs' = (fs(p := None))(cas_Path c h \<mapsto> d) \<or> fs' = os_Remove fails p (fs(cas_Path c h \<mapsto> d)) \<Longrightarrow>
      move_outcome fails part p c fs (c\<lparr>existCache := insert h (existCache c)\<rparr>) fs' (Some (h, False))"

lemma move_outcome_sound:
  assumes "MoveToCASWithStatus fails part p (c, fs) = ((c', fs'), r)"
  shows "move_outcome fails part p c fs c' fs' r"
proof (cases "ComputeHash fails p fs")
  case None
  then show ?thesis
    using assms by (auto simp: MoveToCASWithStatus_def intro: unreadable)
next
  case (Some h)
  then obtain d where d: "fs p = Some d" "\<not> fails (OpenCall p)" by (rule ComputeHash_Some)
  obtain c1 b where E: "cas_Exists fails fs h c = (c1, b)" by fastforce
  show ?thesis
  proof (cases b)
    case True
    then show ?thesis
      using assms Some E by (auto simp: MoveToCASWithStatus_def Let_def intro: dedup)
  next
    case False
    then have E': "cas_Exists fails fs h c = (c, False)" using E cas_Exists_False by auto
    note exit = assms [unfolded MoveToCASWithStatus_def os_Rename_def os_Open_def os_Create_def Let_def,
        simplified prod.case Some E' d option.case bool.case if_False if_True]
    note outcomes = failed [OF Some d(1) E' disjI1 [OF refl]] failed [OF Some d(1) E' disjI2 [OF refl]]
      stored [OF Some d(1) E' disjI1 [OF refl]] stored [OF Some d(1) E' disjI2 [OF refl]]
    show ?thesis
      using exit d(2) outcomes by (auto simp: d(1) split: if_splits)
  qed
qed

text \<open>No exit of a move breaks the invariant, unless a failed copy cannot clean up after itself.\<close>

lemma move_outcome_inv:
  assumes "move_outcome fails part p c fs c' fs' r" "cas_inv (c, fs)" "outside_store (c, fs) p"
    and rm: "\<And>q. \<not> fails (RemoveCall q)"
  shows "cas_inv (c', fs')"
  using assms(1)
proof cases
  case unreadable
  then show ?thesis using assms(2) by simp
next
  case (dedup h)
  then have "cas_inv (c', fs)"
    using assms(2) cas_Exists_True [of c fs fails h c'] cas_Exists_sel [of fails fs h c c' True]
    by (auto simp: cas_inv_def)
  then have "cas_inv (c', fs(p := None))"
    using assms(3) cas_Exists_sel [OF dedup(4)]
    by (intro cas_inv_remove_temp) (simp_all add: outside_store_def)
  then show ?thesis using dedup rm by (simp add: os_Remove_def)
next
  case (failed h d)
  then have h: "hash_of d = h" by (auto elim: ComputeHash_Some)
  then have "h \<notin> existCache c" using failed by (auto simp: cas_Exists_def split: if_splits)
  then have "cas_inv (c, fs(cas_Path c h := None))"
    using h by (intro cas_inv_drop_blob assms(2)) auto
  then show ?thesis using failed assms(2) rm by (auto simp: os_Remove_def)
next
  case (stored h d)
  then have h: "hash_of d = h" by (auto elim: ComputeHash_Some)
  have "fs' = (fs(p := None))(cas_Path c h \<mapsto> d) \<or> fs' = (fs(cas_Path c h \<mapsto> d))(p := None)"
    using stored rm by (auto simp: os_Remove_def)
  moreover have "cas_Path c h \<noteq> p"
    using outside_store_hash [OF assms(3)] h by auto
  ultimately have "fs' = (fs(p := None))(cas_Path c h \<mapsto> d)" by (auto simp: fun_upd_twist)
  then show ?thesis using cas_inv_update [OF assms(2) h assms(3)] stored by simp
qed

text \<open>What a successful move stores, and what no move destroys.\<close>

lemma move_outcome_blob:
  assumes "move_outcome fails part p c fs c' fs' (Some (h, e))" "cas_inv (c, fs)"
    "outside_store (c, fs) p"
  shows "\<exists>d. fs p = Some d \<and> h = hash_of d \<and> blob_at (c', fs') h \<noteq> None \<and>
           (\<not> e \<longrightarrow> blob_at (c', fs') h = Some d) \<and> (\<not> fails (RemoveCall p) \<longrightarrow> fs' p = None)"
proof -
  have np: "IsValidHash k \<Longrightarrow> cas_Path c k \<noteq> p" for k using assms(3) by (auto simp: outside_store_def)
  from assms(1) show ?thesis
  proof cases
    case (dedup)
    then obtain d where d: "fs p = Some d" "hash_of d = h" by (auto elim: ComputeHash_Some)
    have "IsValidHash h" "fs (cas_Path c h) \<noteq> None"
      using cas_Exists_True [OF assms(2)] dedup by auto
    then show ?thesis
      using dedup d np cas_Exists_sel [of fails fs h c c' True]
      by (auto simp: blob_at_def os_Remove_def)
  next
    case (stored d)
    then have "hash_of d = h" by (auto elim: ComputeHash_Some)
    then show ?thesis using stored np [of h] by (auto simp: blob_at_def os_Remove_def)
  qed
qed

lemma move_outcome_keeps:
  assumes "move_outcome fails part p c fs c' fs' r" "cas_inv (c, fs)" "outside_store (c, fs) p"
    and st: "\<And>q. \<not> fails (StatCall q)" and old: "blob_at (c, fs) k = Some x"
  shows "blob_at (c', fs') k = Some x"
proof -
  have k: "IsValidHash k" "fs (cas_Path c k) = Some x" "cas_Path c k \<noteq> p" "hash_of x = k"
    using old assms(2,3) by (auto simp: blob_at_def outside_store_def cas_inv_def split: if_splits)
  from assms(1) show ?thesis
  proof cases
    case unreadable
    then show ?thesis using old by simp
  next
    case (dedup h)
    then show ?thesis
      using k cas_Exists_sel [of fails fs h c c' True] by (auto simp: blob_at_def os_Remove_def)
  next
    case (failed h d)
    then have "IsValidHash h" "fs (cas_Path c h) = None"
      using st by (auto simp: cas_Exists_def os_Stat_def elim: ComputeHash_Some split: if_splits)
    then show ?thesis using failed k by (auto simp: blob_at_def os_Remove_def)
  next
    case (stored h d)
    then have "IsValidHash h" "fs (cas_Path c h) = None"
      using st by (auto simp: cas_Exists_def os_Stat_def elim: ComputeHash_Some split: if_splits)
    then show ?thesis using stored k by (auto simp: blob_at_def os_Remove_def)
  qed
qed

lemma move_outcome_dir:
  "move_outcome fails part p c fs c' fs' r \<Longrightarrow> BaseDir c' = BaseDir c \<and> cas_Path c' = cas_Path c"
  by (erule move_outcome.cases) (auto dest: cas_Exists_sel simp: fun_eq_iff)

section \<open>The store as its clients see it\<close>

text \<open>
  The upload and the download pipeline rely on a store of blobs: moving a finished temporary
  file in returns the hash of its bytes, under which exactly such a blob can be read from
  then on, and nothing already stored is lost.
\<close>

locale blob_store =
  fixes move :: "string \<Rightarrow> 's \<Rightarrow> 's \<times> (string \<times> bool) option"
    and blob :: "'s \<Rightarrow> string \<Rightarrow> bytes option"
    and temp :: "'s \<Rightarrow> string \<Rightarrow> bytes option"
    and is_temp :: "'s \<Rightarrow> string \<Rightarrow> bool"
    and invar :: "'s \<Rightarrow> bool"
  assumes move_blob: "invar s \<Longrightarrow> is_temp s p \<Longrightarrow> move p s = (s', Some (h, e)) \<Longrightarrow>
        \<exists>d d'. temp s p = Some d \<and> h = hash_of d \<and> blob s' h = Some d' \<and> hash_of d' = h"
    and move_keeps: "invar s \<Longrightarrow> is_temp s p \<Longrightarrow> move p s = (s', r) \<Longrightarrow> blob s k = Some x \<Longrightarrow>
        blob s' k = Some x"
    and move_invar: "invar s \<Longrightarrow> is_temp s p \<Longrightarrow> move p s = (s', r) \<Longrightarrow> invar s'"
    and move_temp: "is_temp s q \<Longrightarrow> move p s = (s', r) \<Longrightarrow> is_temp s' q"
begin

fun moves :: "string list \<Rightarrow> 's \<Rightarrow> 's \<times> (string \<times> bool) option list" where
  "moves [] s = (s, [])"
| "moves (p # ps) s =
     (case move p s of (s', r) \<Rightarrow> (case moves ps s' of (s'', rs) \<Rightarrow> (s'', r # rs)))"

lemma moves_keep:
  "invar s \<Longrightarrow> list_all (is_temp s) ps \<Longrightarrow> moves ps s = (s', rs) \<Longrightarrow> blob s k = Some x \<Longrightarrow>
   blob s' k = Some x \<and> invar s'"
proof (induction ps arbitrary: s rs)
  case Nil
  then show ?case by simp
next
  case (Cons p ps)
  obtain s1 r where m: "move p s = (s1, r)" by fastforce
  have "list_all (is_temp s1) ps" using Cons.prems(2) move_temp [OF _ m] by (auto simp: list_all_iff)
  with Cons m show ?case
    by (auto split: prod.splits intro: move_keeps [OF _ _ m] move_invar [OF _ _ m])
qed

text \<open>After any sequence of moves, every hash handed out reads back bytes with that hash.\<close>

lemma moves_readable:
  "invar s \<Longrightarrow> list_all (is_temp s) ps \<Longrightarrow> moves ps s = (s', rs) \<Longrightarrow> Some (h, e) \<in> set rs \<Longrightarrow>
   \<exists>d. blob s' h = Some d \<and> hash_of d = h"
proof (induction ps arbitrary: s rs)
  case Nil
  then show ?case by simp
next
  case (Cons p ps)
  obtain s1 r where m: "move p s = (s1, r)" by fastforce
  obtain rs' where ms: "moves ps s1 = (s', rs')" "rs = r # rs'"
    using Cons.prems(3) m by (auto split: prod.splits)
  have t: "list_all (is_temp s1) ps" using Cons.prems(2) move_temp [OF _ m] by (auto simp: list_all_iff)
  have i: "invar s1" using Cons.prems m move_invar by auto
  show ?case
  proof (cases "r = Some (h, e)")
    case True
    then obtain d where "blob s1 h = Some d" "hash_of d = h"
      using move_blob [OF Cons.prems(1) _ m [unfolded True]] Cons.prems(2) by auto
    then show ?thesis using moves_keep [OF i t ms(1)] by blast
  next
    case False
    then show ?thesis using Cons.IH [OF i t ms(1)] ms(2) Cons.prems(4) by auto
  qed
qed

end

text \<open>The calls a store relies on: a file that exists can be removed, and looking for a blob
  succeeds when it is there. Every other call may fail.\<close>

definition steady :: "faults \<Rightarrow> faults" where
  "steady fails = (\<lambda>c. case c of RemoveCall _ \<Rightarrow> False | StatCall _ \<Rightarrow> False | _ \<Rightarrow> fails c)"

lemma steady_simps [simp]: "\<not> steady fails (RemoveCall p)" "\<not> steady fails (StatCall p)"
  by (simp_all add: steady_def)

lemma steady_id: "(\<And>p. \<not> fails (RemoveCall p) \<and> \<not> fails (StatCall p)) \<Longrightarrow> steady fails = fails"
  by (auto simp: steady_def fun_eq_iff split: os_call.splits)

interpretation cas: blob_store "MoveToCASWithStatus (steady fails) part" blob_at
  "\<lambda>st p. snd st p" outside_store cas_inv for fails part
proof unfold_locales
  fix s p s' h e
  assume a: "cas_inv s" "outside_store s p" "MoveToCASWithStatus (steady fails) part p s = (s', Some (h, e))"
  obtain c fs c' fs' where s: "s = (c, fs)" "s' = (c', fs')" by (cases s, cases s')
  have m: "move_outcome (steady fails) part p c fs c' fs' (Some (h, e))"
    using a(3) s by (intro move_outcome_sound) simp
  then have "cas_inv s'" using move_outcome_inv a s by auto
  with move_outcome_blob [OF m] a s
  show "\<exists>d d'. snd s p = Some d \<and> h = hash_of d \<and> blob_at s' h = Some d' \<and> hash_of d' = h"
    by (fastforce simp: blob_at_def cas_inv_def split: if_splits)
next
  fix s p s' r k x
  assume a: "cas_inv s" "outside_store s p" "MoveToCASWithStatus (steady fails) part p s = (s', r)"
    "blob_at s k = Some x"
  obtain c fs c' fs' where s: "s = (c, fs)" "s' = (c', fs')" by (cases s, cases s')
  then have "move_outcome (steady fails) part p c fs c' fs' r"
    using a(3) by (intro move_outcome_sound) simp
  from move_outcome_keeps [OF this] a s show "blob_at s' k = Some x" by simp
next
  fix s p s' r
  assume a: "cas_inv s" "outside_store s p" "MoveToCASWithStatus (steady fails) part p s = (s', r)"
  obtain c fs c' fs' where s: "s = (c, fs)" "s' = (c', fs')" by (cases s, cases s')
  then have "move_outcome (steady fails) part p c fs c' fs' r"
    using a(3) by (intro move_outcome_sound) simp
  from move_outcome_inv [OF this] a s show "cas_inv s'" by simp
next
  fix s q p s' r
  assume a: "outside_store s q" "MoveToCASWithStatus (steady fails) part p s = (s', r)"
  obtain c fs c' fs' where s: "s = (c, fs)" "s' = (c', fs')" by (cases s, cases s')
  then have "move_outcome (steady fails) part p c fs c' fs' r"
    using a(2) by (intro move_outcome_sound) simp
  from move_outcome_dir [OF this] a s show "outside_store s' q" by (simp add: outside_store_def)
qed

section \<open>Properties\<close>

lemma example_paths:
  assumes "c = \<lparr>BaseDir = ''cas'', existCache = S\<rparr>"
  shows "IsValidHash h \<Longrightarrow> cas_Path c h \<noteq> CHR ''t'' # t" "IsValidHash h \<Longrightarrow> CHR ''t'' # t \<noteq> cas_Path c h"
    "outside_store (c, fs) (CHR ''t'' # t)"
  using assms by (auto simp: cas_Path_def outside_store_def)

fun move_all ::
  "faults \<Rightarrow> nat \<Rightarrow> string list \<Rightarrow> CASEngine \<times> fs \<Rightarrow> (CASEngine \<times> fs) \<times> (string \<times> bool) option list" where
  "move_all fails part [] st = (st, [])"
| "move_all fails part (p # ps) st =
     (case MoveToCASWithStatus fails part p st of
        (st', r) \<Rightarrow> (case move_all fails part ps st' of (st'', rs) \<Rightarrow> (st'', r # rs)))"

lemma move_all_moves: "move_all (steady fails) part ps st = cas.moves fails part ps st"
  by (induction ps arbitrary: st) (auto split: prod.splits)

text \<open>C15: whatever finished uploads are moved into the store, in any order and whichever system
  calls fail (other than removing a file and looking one up), the store's invariant holds
  afterwards, every blob that was readable still is with the same bytes, and every hash that
  a move returned reads back bytes with exactly that SHA-256.\<close>

theorem store_loses_nothing:
  assumes "cas_inv st" "list_all (outside_store st) ps"
    and ok: "\<And>p. \<not> fails (RemoveCall p) \<and> \<not> fails (StatCall p)"
    and run: "move_all fails part ps st = (st', rs)"
  shows "(blob_at st k = Some x \<longrightarrow> blob_at st' k = Some x) \<and>
         (Some (h, e) \<in> set rs \<longrightarrow> (\<exists>d. blob_at st' h = Some d \<and> hash_of d = h))"
proof -
  have "cas.moves fails part ps st = (st', rs)"
    using run steady_id [OF ok] move_all_moves [of fails part ps st] by simp
  then show ?thesis
    using cas.moves_keep [OF assms(1,2)] cas.moves_readable [OF assms(1,2)] by blast
qed

theorem store_loses_nothing_witness:
  "let st = (\<lparr>BaseDir = ''cas'', existCache = {}\<rparr>, [''tmp/u1'' \<mapsto> [1, 2], ''tmp/u2'' \<mapsto> [1, 2]]) in
   \<forall>h e. Some (h, e) \<in> set (snd (move_all no_faults 0 [''tmp/u1'', ''tmp/u2''] st)) \<longrightarrow>
     (\<exists>d. blob_at (fst (move_all no_faults 0 [''tmp/u1'', ''tmp/u2''] st)) h = Some d \<and> hash_of d = h)"
proof -
  let ?st = "(\<lparr>BaseDir = ''cas'', existCache = {}\<rparr>, [''tmp/u1'' \<mapsto> [1, 2], ''tmp/u2'' \<mapsto> [1, 2]])"
  have "cas_inv ?st" by (auto simp: cas_inv_def example_paths split: if_splits)
  moreover have "list_all (outside_store ?st) [''tmp/u1'', ''tmp/u2'']"
    by (simp add: example_paths)
  ultimately have "(blob_at ?st [] = Some [] \<longrightarrow> blob_at (fst (move_all no_faults 0 [''tmp/u1'', ''tmp/u2''] ?st)) [] = Some []) \<and>
      (Some (h, e) \<in> set (snd (move_all no_faults 0 [''tmp/u1'', ''tmp/u2''] ?st)) \<longrightarrow>
       (\<exists>d. blob_at (fst (move_all no_faults 0 [''tmp/u1'', ''tmp/u2''] ?st)) h = Some d \<and> hash_of d = h))" for h e
    by (intro store_loses_nothing [where fails = no_faults and part = 0]) (simp_all only: no_faults prod.collapse simp_thms)
  then show ?thesis unfolding Let_def by blast
qed

text \<open>moving a file whose bytes are already stored deduplicates: the call returns the same
  hash with the flag set, deletes the temporary file and changes no blob. A first move of
  readable bytes, when no call fails, returns their SHA-256 and stores exactly them.\<close>

theorem move_then_dedup:
  assumes inv: "cas_inv (c, fs)" and out: "outside_store (c, fs) p" "outside_store (c, fs) q" "p \<noteq> q"
    and d: "fs p = Some d" "fs q = Some d" and new: "blob_at (c, fs) (hash_of d) = None"
  shows "\<exists>c1 fs1 c2 fs2.
      MoveToCASWithStatus no_faults 0 p (c, fs) = ((c1, fs1), Some (hash_of d, False)) \<and>
      blob_at (c1, fs1) (hash_of d) = Some d \<and> fs1 p = None \<and>
      MoveToCASWithStatus no_faults 0 q (c1, fs1) = ((c2, fs2), Some (hash_of d, True)) \<and>
      fs2 = fs1(q := None) \<and> cas_inv (c2, fs2)"
proof -
  let ?h = "hash_of d"
  let ?c1 = "c\<lparr>existCache := insert ?h (existCache c)\<rparr>"
  let ?fs1 = "(fs(p := None))(cas_Path c ?h \<mapsto> d)"
  have np: "cas_Path c ?h \<noteq> p" "cas_Path c ?h \<noteq> q"
    using out outside_store_hash by auto
  have "?h \<notin> existCache c" "fs (cas_Path c ?h) = None"
    using inv new by (auto simp: cas_inv_def blob_at_def)
  then have m1: "MoveToCASWithStatus no_faults 0 p (c, fs) = ((?c1, ?fs1), Some (?h, False))"
    using d by (simp add: MoveToCASWithStatus_def ComputeHash_def cas_Exists_def os_defs Let_def)
  have m2: "MoveToCASWithStatus no_faults 0 q (?c1, ?fs1) = ((?c1, ?fs1(q := None)), Some (?h, True))"
    using d np out(3) by (simp add: MoveToCASWithStatus_def ComputeHash_def cas_Exists_def os_defs Let_def)
  have "cas_inv (?c1, ?fs1)" by (rule cas_inv_update [OF inv refl out(1)])
  then have "cas_inv (?c1, ?fs1(q := None))"
    using cas_inv_remove_temp [of ?c1 ?fs1 q None] out(2) by (simp add: outside_store_def)
  then show ?thesis using m1 m2 np by (intro exI conjI) (auto simp: blob_at_def)
qed

theorem move_then_dedup_witness:
  "\<exists>c1 fs1 c2 fs2.
      MoveToCASWithStatus no_faults 0 ''tmp/u1''
        (\<lparr>BaseDir = ''cas'', existCache = {}\<rparr>, [''tmp/u1'' \<mapsto> [7], ''tmp/u2'' \<mapsto> [7]]) =
        ((c1, fs1), Some (hash_of [7], False)) \<and>
      blob_at (c1, fs1) (hash_of [7]) = Some [7] \<and> fs1 ''tmp/u1'' = None \<and>
      MoveToCASWithStatus no_faults 0 ''tmp/u2'' (c1, fs1) = ((c2, fs2), Some (hash_of [7], True)) \<and>
      fs2 = fs1(''tmp/u2'' := None) \<and> cas_inv (c2, fs2)"
proof -
  let ?c = "\<lparr>BaseDir = ''cas'', existCache = {}\<rparr>" and ?fs = "[''tmp/u1'' \<mapsto> [7], ''tmp/u2'' \<mapsto> [7]]"
  have "cas_inv (?c, ?fs)" "blob_at (?c, ?fs) (hash_of [7]) = None"
    by (auto simp: cas_inv_def blob_at_def example_paths split: if_splits)
  moreover have "outside_store (?c, ?fs) ''tmp/u1''" "outside_store (?c, ?fs) ''tmp/u2''"
    by (simp_all add: example_paths)
  ultimately show ?thesis by (intro move_then_dedup) simp_all
qed

text \<open>a hash that is still in the existence cache after its blob has been deleted makes the
  next upload of the same bytes disappear: the move deletes the temporary file, reports a
  deduplicated success, and no copy of the bytes is left. After \<^verbatim>\<open>Invalidate\<close> of the hash the
  same move stores the blob.\<close>

theorem stale_cache_discards_upload:
  assumes d: "fs p = Some d" and out: "outside_store (c, fs) p"
    and stale: "hash_of d \<in> existCache c" "fs (cas_Path c (hash_of d)) = None"
  shows "(\<exists>c' fs'. MoveToCASWithStatus no_faults 0 p (c, fs) = ((c', fs'), Some (hash_of d, True)) \<and>
            fs' p = None \<and> blob_at (c', fs') (hash_of d) = None) \<and>
         (\<exists>c' fs'. MoveToCASWithStatus no_faults 0 p (cas_Invalidate (hash_of d) c, fs) =
            ((c', fs'), Some (hash_of d, False)) \<and> blob_at (c', fs') (hash_of d) = Some d)"
  using d stale
  by (auto simp: MoveToCASWithStatus_def ComputeHash_def cas_Exists_def cas_Invalidate_def os_defs
      Let_def blob_at_def)

theorem stale_cache_discards_upload_witness:
  "\<exists>c' fs'. MoveToCASWithStatus no_faults 0 ''tmp/u''
       (\<lparr>BaseDir = ''cas'', existCache = {hash_of [1]}\<rparr>, [''tmp/u'' \<mapsto> [1]]) =
       ((c', fs'), Some (hash_of [1], True)) \<and> fs' ''tmp/u'' = None \<and> blob_at (c', fs') (hash_of [1]) = None"
  using stale_cache_discards_upload [of "[''tmp/u'' \<mapsto> [1]]" "''tmp/u''" "[1]"
      "\<lparr>BaseDir = ''cas'', existCache = {hash_of [1]}\<rparr>"]
  by (simp add: example_paths)

text \<open>a blob's path stays inside the base directory (what follows it is hexadecimal digits
  and separators only, so no \<^verbatim>\<open>..\<close>), and different hashes have different paths.\<close>

theorem cas_Path_contained:
  assumes "IsValidHash h" "IsValidHash h'"
  shows "(\<exists>rest. cas_Path c h = BaseDir c @ rest \<and> list_all (\<lambda>x. is_hex_char x \<or> x = CHR ''/'') rest) \<and>
         (cas_Path c h = cas_Path c h' \<longleftrightarrow> h = h')"
proof
  have "list_all is_hex_char h" using assms(1) by (simp add: IsValidHash_def)
  then have "list_all is_hex_char (take n h)" "list_all is_hex_char (take n (drop m h))" for n m
    by (auto simp: list_all_iff dest: in_set_takeD in_set_dropD)
  with \<open>list_all is_hex_char h\<close>
  show "\<exists>rest. cas_Path c h = BaseDir c @ rest \<and> list_all (\<lambda>x. is_hex_char x \<or> x = CHR ''/'') rest"
    using assms(1) by (auto simp: cas_Path_def list_all_iff)
  show "cas_Path c h = cas_Path c h' \<longleftrightarrow> h = h'" using assms cas_Path_inject by blast
qed

theorem cas_Path_contained_witness:
  "cas_Path \<lparr>BaseDir = ''/srv/cas'', existCache = {}\<rparr> (replicate 64 (CHR ''a'')) \<noteq>
   cas_Path \<lparr>BaseDir = ''/srv/cas'', existCache = {}\<rparr> (replicate 64 (CHR ''B''))"
  using cas_Path_contained [of "replicate 64 (CHR ''a'')" "replicate 64 (CHR ''B'')"
      "\<lparr>BaseDir = ''/srv/cas'', existCache = {}\<rparr>"]
  by (simp add: IsValidHash_def is_hex_char_def less_eq_char_def list_all_iff)

end
