(* ===== verification/Upload_Sessions.thy ===== *)
theory Upload_Sessions
  imports Go_Files
begin

text \<open>
  The resumable-upload sessions of \<^verbatim>\<open>internal/upload/session.go\<close>: the table in memory and, beside it
  on disk, a temporary file and a metadata document per session. The state of every operation is the
  manager and the file system. The metadata text is written and read by the codec arguments \<open>enc\<close>
  and \<open>dec\<close>. Go iterates over a map in an arbitrary order: operations that do take the order as an
  argument. \<^verbatim>\<open>os.ReadDir\<close> is the argument \<open>entries\<close>, the names it lists (\<^const>\<open>None\<close> for an error).
\<close>

section \<open>State\<close>

record Session =
  s_ID :: string
  s_OwnerID :: int
  s_FolderID :: string
  s_Filename :: string
  s_MimeType :: string
  s_ExpectedSize :: int
  s_UploadedSize :: int
  s_TempFilePath :: string
  s_PlaintextHash :: string
  s_StartedAt :: instant
  s_LastActiveAt :: instant

text \<open>The document has the fields of the session, without its lock.\<close>

record SessionMetadata =
  m_ID :: string
  m_OwnerID :: int
  m_FolderID :: string
  m_Filename :: string
  m_MimeType :: string
  m_ExpectedSize :: int
  m_UploadedSize :: int
  m_TempFilePath :: string
  m_PlaintextHash :: string
  m_StartedAt :: instant
  m_LastActiveAt :: instant

record SessionManager =
  sessions :: "string \<rightharpoonup> Session"
  TempDir :: string

definition metadata_of :: "Session \<Rightarrow> SessionMetadata" where
  "metadata_of s =
     \<lparr>m_ID = s_ID s, m_OwnerID = s_OwnerID s, m_FolderID = s_FolderID s, m_Filename = s_Filename s,
      m_MimeType = s_MimeType s, m_ExpectedSize = s_ExpectedSize s, m_UploadedSize = s_UploadedSize s,
      m_TempFilePath = s_TempFilePath s, m_PlaintextHash = s_PlaintextHash s,
      m_StartedAt = s_StartedAt s, m_LastActiveAt = s_LastActiveAt s\<rparr>"

definition session_of :: "SessionMetadata \<Rightarrow> Session" where
  "session_of m =
     \<lparr>s_ID = m_ID m, s_OwnerID = m_OwnerID m, s_FolderID = m_FolderID m, s_Filename = m_Filename m,
      s_MimeType = m_MimeType m, s_ExpectedSize = m_ExpectedSize m, s_UploadedSize = m_UploadedSize m,
      s_TempFilePath = m_TempFilePath m, s_PlaintextHash = m_PlaintextHash m,
      s_StartedAt = m_StartedAt m, s_LastActiveAt = m_LastActiveAt m\<rparr>"

lemma session_of_metadata_of [simp]: "session_of (metadata_of s) = s"
  by (simp add: session_of_def metadata_of_def)

definition meta_name :: "string \<Rightarrow> string" where
  "meta_name sid = ''upload_'' @ sid @ ''.meta.json''"

definition temp_name :: "string \<Rightarrow> string" where
  "temp_name sid = ''upload_'' @ sid @ ''.tmp''"

definition metaPath :: "SessionManager \<Rightarrow> string \<Rightarrow> string" where
  "metaPath sm sid = path_Join [TempDir sm, meta_name sid]"

section \<open>Operations\<close>

definition PersistSession ::
  "faults \<Rightarrow> (SessionMetadata \<Rightarrow> bytes option) \<Rightarrow> SessionManager \<Rightarrow> Session \<Rightarrow> fs \<Rightarrow> fs \<times> bool" where
  "PersistSession fails enc sm sess fs =
     (case enc (metadata_of sess) of
        None \<Rightarrow> (fs, False)
      | Some data \<Rightarrow> os_WriteFile fails (metaPath sm (s_ID sess)) data fs)"

definition is_meta_name :: "string \<Rightarrow> bool" where
  "is_meta_name n \<longleftrightarrow> HasPrefix n ''upload_'' \<and> HasSuffix n ''.meta.json''"

fun restore ::
  "faults \<Rightarrow> (bytes \<Rightarrow> SessionMetadata option) \<Rightarrow> string list \<Rightarrow> SessionManager \<times> fs \<Rightarrow> SessionManager \<times> fs" where
  "restore fails dec [] st = st"
| "restore fails dec (n # ns) (sm, fs) =
     (if \<not> is_meta_name n then restore fails dec ns (sm, fs)
      else
        let mp = path_Join [TempDir sm, n] in
        case os_ReadFile fails mp fs of
          None \<Rightarrow> restore fails dec ns (sm, fs)
        | Some data \<Rightarrow>
            (case dec data of
               None \<Rightarrow> restore fails dec ns (sm, fs)
             | Some meta \<Rightarrow>
                 if os_Stat fails (m_TempFilePath meta) fs \<and> m_ID meta \<noteq> [] then
                   restore fails dec ns
                     (sm\<lparr>sessions := (sessions sm)(m_ID meta \<mapsto> session_of meta)\<rparr>, fs)
                 else restore fails dec ns (sm, os_Remove fails mp fs)))"

text \<open>Directories among the entries are skipped: \<open>entries\<close> holds the names of regular files.\<close>

definition NewSessionManager ::
  "faults \<Rightarrow> (bytes \<Rightarrow> SessionMetadata option) \<Rightarrow> string \<Rightarrow> string list option \<Rightarrow> fs \<Rightarrow> (SessionManager \<times> fs) option" where
  "NewSessionManager fails dec tempDir entries fs =
     (if fails (MkdirCall tempDir) then None
      else
        let sm = \<lparr>sessions = Map.empty, TempDir = tempDir\<rparr> in
        Some (case entries of None \<Rightarrow> (sm, fs) | Some ns \<Rightarrow> restore fails dec ns (sm, fs)))"

text \<open>\<^verbatim>\<open>GenerateID\<close>: \<open>rnd\<close> are the sixteen bytes the random source delivered.\<close>

definition GenerateID :: "bytes \<Rightarrow> string" where
  "GenerateID rnd = hex_encode rnd"

definition CreateSession ::
  "faults \<Rightarrow> (SessionMetadata \<Rightarrow> bytes option) \<Rightarrow> bytes \<Rightarrow> instant \<Rightarrow> int \<Rightarrow> string \<Rightarrow> string \<Rightarrow> string \<Rightarrow> int \<Rightarrow>
   SessionManager \<times> fs \<Rightarrow> (SessionManager \<times> fs) \<times> Session option" where
  "CreateSession fails enc rnd now ownerID folderID filename mimeType sz st =
     (case st of (sm, fs) \<Rightarrow>
        let sid = GenerateID rnd; tempPath = path_Join [TempDir sm, temp_name sid] in
        case os_Create fails tempPath fs of
          None \<Rightarrow> ((sm, fs), None)
        | Some fs1 \<Rightarrow>
            let sess = \<lparr>s_ID = sid, s_OwnerID = ownerID, s_FolderID = folderID, s_Filename = filename,
                        s_MimeType = mimeType, s_ExpectedSize = sz, s_UploadedSize = 0,
                        s_TempFilePath = tempPath, s_PlaintextHash = [], s_StartedAt = now,
                        s_LastActiveAt = now\<rparr>;
                sm1 = sm\<lparr>sessions := (sessions sm)(sid \<mapsto> sess)\<rparr>
            in ((sm1, fst (PersistSession fails enc sm1 sess fs1)), Some sess))"

definition GetSession :: "SessionManager \<Rightarrow> string \<Rightarrow> Session option" where
  "GetSession sm sid = sessions sm sid"

text \<open>A session is a shared object: a caller that holds its lock changes its fields in place.\<close>

definition modify_session :: "string \<Rightarrow> (Session \<Rightarrow> Session) \<Rightarrow> SessionManager \<Rightarrow> SessionManager" where
  "modify_session sid f sm = sm\<lparr>sessions := (sessions sm)(sid := map_option f (sessions sm sid))\<rparr>"

definition matches_upload :: "int \<Rightarrow> string \<Rightarrow> string \<Rightarrow> int \<Rightarrow> Session \<Rightarrow> bool" where
  "matches_upload ownerID folderID filename sz s \<longleftrightarrow>
     s_OwnerID s = ownerID \<and> s_FolderID s = folderID \<and> s_Filename s = filename \<and>
     s_ExpectedSize s = sz \<and> s_UploadedSize s < s_ExpectedSize s"

fun FindActiveSession ::
  "faults \<Rightarrow> string list \<Rightarrow> int \<Rightarrow> string \<Rightarrow> string \<Rightarrow> int \<Rightarrow> SessionManager \<times> fs \<Rightarrow> Session option" where
  "FindActiveSession fails [] ownerID folderID filename sz st = None"
| "FindActiveSession fails (sid # order) ownerID folderID filename sz (sm, fs) =
     (case sessions sm sid of
        None \<Rightarrow> FindActiveSession fails order ownerID folderID filename sz (sm, fs)
      | Some s \<Rightarrow>
          if matches_upload ownerID folderID filename sz s \<and> os_Stat fails (s_TempFilePath s) fs then Some s
          else FindActiveSession fails order ownerID folderID filename sz (sm, fs))"

definition unlink_session :: "faults \<Rightarrow> SessionManager \<Rightarrow> string \<Rightarrow> Session \<Rightarrow> fs \<Rightarrow> fs" where
  "unlink_session fails sm sid s fs =
     os_Remove fails (metaPath sm sid) (os_Remove fails (s_TempFilePath s) fs)"

definition DeleteSession :: "faults \<Rightarrow> string \<Rightarrow> SessionManager \<times> fs \<Rightarrow> SessionManager \<times> fs" where
  "DeleteSession fails sid st =
     (case st of (sm, fs) \<Rightarrow>
        (sm\<lparr>sessions := (sessions sm)(sid := None)\<rparr>,
         case sessions sm sid of None \<Rightarrow> fs | Some s \<Rightarrow> unlink_session fails sm sid s fs))"

fun sweep ::
  "faults \<Rightarrow> (Session \<Rightarrow> bool) \<Rightarrow> string list \<Rightarrow> SessionManager \<times> fs \<Rightarrow> int \<Rightarrow> (SessionManager \<times> fs) \<times> int" where
  "sweep fails P [] st cleaned = (st, cleaned)"
| "sweep fails P (sid # order) (sm, fs) cleaned =
     (case sessions sm sid of
        None \<Rightarrow> sweep fails P order (sm, fs) cleaned
      | Some s \<Rightarrow>
          if P s then sweep fails P order (DeleteSession fails sid (sm, fs)) (cleaned + 1)
          else sweep fails P order (sm, fs) cleaned)"

definition CleanupStaleSessions ::
  "faults \<Rightarrow> string list \<Rightarrow> instant \<Rightarrow> duration \<Rightarrow> SessionManager \<times> fs \<Rightarrow> (SessionManager \<times> fs) \<times> int" where
  "CleanupStaleSessions fails order now maxAge st =
     sweep fails (\<lambda>s. now - s_LastActiveAt s > maxAge) order st 0"

definition is_upload_file :: "string \<Rightarrow> bool" where
  "is_upload_file n \<longleftrightarrow> HasPrefix n ''upload_'' \<and> (HasSuffix n ''.tmp'' \<or> HasSuffix n ''.meta.json'')"

fun remove_orphans :: "faults \<Rightarrow> string \<Rightarrow> string list \<Rightarrow> fs \<Rightarrow> fs" where
  "remove_orphans fails dir [] fs = fs"
| "remove_orphans fails dir (n # ns) fs =
     (if is_upload_file n then remove_orphans fails dir ns (os_Remove fails (path_Join [dir, n]) fs)
      else remove_orphans fails dir ns fs)"

text \<open>The listing for the safety scan is taken after the sessions are gone: \<open>listing\<close> gives the names
  for the file system of that moment.\<close>

definition PurgeAll ::
  "faults \<Rightarrow> string list \<Rightarrow> (fs \<Rightarrow> string list option) \<Rightarrow> SessionManager \<times> fs \<Rightarrow> (SessionManager \<times> fs) \<times> int" where
  "PurgeAll fails order listing st =
     (case sweep fails (\<lambda>_. True) order st 0 of ((sm, fs), cleaned) \<Rightarrow>
        ((sm, case listing fs of None \<Rightarrow> fs | Some ns \<Rightarrow> remove_orphans fails (TempDir sm) ns fs), cleaned))"

section \<open>Names and paths\<close>

definition is_id :: "string \<Rightarrow> bool" where
  "is_id sid \<longleftrightarrow> sid \<noteq> [] \<and> CHR ''/'' \<notin> set sid"

lemma GenerateID_is_id: "rnd \<noteq> [] \<Longrightarrow> is_id (GenerateID rnd)"
  using hex_encode_alphabet [of rnd] length_hex_encode [of rnd]
  by (auto simp: is_id_def GenerateID_def simp del: length_hex_encode)

lemma plain_names [simp]:
  "is_id sid \<Longrightarrow> plain_name (meta_name sid)" "is_id sid \<Longrightarrow> plain_name (temp_name sid)"
  by (auto simp: plain_name_def meta_name_def temp_name_def is_id_def)

lemma name_inject [simp]:
  "meta_name a = meta_name b \<longleftrightarrow> a = b" "temp_name a = temp_name b \<longleftrightarrow> a = b"
  by (simp_all add: meta_name_def temp_name_def)

lemma meta_not_temp [simp]: "meta_name a \<noteq> temp_name b" "temp_name b \<noteq> meta_name a"
proof -
  have "last (meta_name a) \<noteq> last (temp_name b)" by (simp add: meta_name_def temp_name_def)
  then show "meta_name a \<noteq> temp_name b" "temp_name b \<noteq> meta_name a" by metis+
qed

lemma is_meta_name_meta [simp]: "is_meta_name (meta_name sid)"
  by (simp add: is_meta_name_def meta_name_def suffix_def)

lemma is_upload_file_names [simp]: "is_upload_file (meta_name sid)" "is_upload_file (temp_name sid)"
  by (simp_all add: is_upload_file_def meta_name_def temp_name_def suffix_def)

abbreviation in_dir :: "SessionManager \<Rightarrow> string \<Rightarrow> string" where
  "in_dir sm n \<equiv> path_Join [TempDir sm, n]"

lemmas in_dir_inject [simp] = path_Join_plain_inject

declare path_Join.simps [simp del]

section \<open>Memory and disk agree\<close>

text \<open>The handler that opens a session notes the announced hash in it after its document has been
  written, so the hash of the document can be an older one: a session agrees with its document up to
  this field.\<close>

definition with_hash :: "string \<Rightarrow> Session \<Rightarrow> Session" where
  "with_hash h s = s\<lparr>s_PlaintextHash := h\<rparr>"

lemma with_hash_simps [simp]:
  "s_ID (with_hash h s) = s_ID s" "s_TempFilePath (with_hash h s) = s_TempFilePath s"
  "s_PlaintextHash (with_hash h s) = h" "with_hash h (with_hash h' s) = with_hash h s"
  "with_hash (s_PlaintextHash s) s = s"
  by (simp_all add: with_hash_def)

definition on_disk :: "(SessionMetadata \<Rightarrow> bytes option) \<Rightarrow> SessionManager \<Rightarrow> string \<Rightarrow> Session \<Rightarrow> fs \<Rightarrow> bool" where
  "on_disk enc sm sid s fs \<longleftrightarrow>
     is_id sid \<and> s_ID s = sid \<and> s_TempFilePath s = in_dir sm (temp_name sid) \<and>
     fs (in_dir sm (temp_name sid)) \<noteq> None \<and> fs (in_dir sm (meta_name sid)) \<noteq> None \<and>
     (\<exists>h. fs (in_dir sm (meta_name sid)) = enc (metadata_of (with_hash h s)))"

definition disk_ok :: "(SessionMetadata \<Rightarrow> bytes option) \<Rightarrow> SessionManager \<times> fs \<Rightarrow> bool" where
  "disk_ok enc = (\<lambda>(sm, fs).
     (\<forall>sid s. sessions sm sid = Some s \<longrightarrow> on_disk enc sm sid s fs) \<and>
     (\<forall>n. plain_name n \<and> is_meta_name n \<and> fs (in_dir sm n) \<noteq> None \<longrightarrow>
        (\<exists>sid s. sessions sm sid = Some s \<and> n = meta_name sid)))"

lemma on_diskI:
  "is_id sid \<Longrightarrow> s_ID s = sid \<Longrightarrow> s_TempFilePath s = in_dir sm (temp_name sid) \<Longrightarrow>
   fs (in_dir sm (temp_name sid)) \<noteq> None \<Longrightarrow> fs (in_dir sm (meta_name sid)) = enc (metadata_of s) \<Longrightarrow>
   enc (metadata_of s) \<noteq> None \<Longrightarrow> on_disk enc sm sid s fs"
  unfolding on_disk_def by (metis with_hash_simps(5))

lemma on_disk_with_hash: "on_disk enc sm sid s fs \<Longrightarrow> on_disk enc sm sid (with_hash h s) fs"
  by (simp add: on_disk_def)

lemma disk_ok_meta:
  "disk_ok enc (sm, fs) \<Longrightarrow> plain_name n \<Longrightarrow> is_meta_name n \<Longrightarrow> fs (in_dir sm n) \<noteq> None \<Longrightarrow>
   \<exists>sid s. sessions sm sid = Some s \<and> n = meta_name sid"
  unfolding disk_ok_def by blast

lemma disk_okI:
  assumes "\<And>sid s. sessions sm sid = Some s \<Longrightarrow> on_disk enc sm sid s fs"
    and "\<And>n. plain_name n \<Longrightarrow> is_meta_name n \<Longrightarrow> fs (in_dir sm n) \<noteq> None \<Longrightarrow>
      \<exists>sid s. sessions sm sid = Some s \<and> n = meta_name sid"
  shows "disk_ok enc (sm, fs)"
  unfolding disk_ok_def using assms by blast

lemma on_disk_cong:
  "on_disk enc sm sid s fs \<Longrightarrow> TempDir sm' = TempDir sm \<Longrightarrow>
   fs' (in_dir sm (temp_name sid)) \<noteq> None \<Longrightarrow> fs' (in_dir sm (meta_name sid)) = fs (in_dir sm (meta_name sid)) \<Longrightarrow>
   on_disk enc sm' sid s fs'"
  by (simp add: on_disk_def)

text \<open>One step of a manager in which no system call fails: a new session, progress of an upload (its
  bytes, then its fields and its document), the announced hash noted in memory only, the end of a
  session, a sweep.\<close>

inductive sm_step :: "(SessionMetadata \<Rightarrow> bytes option) \<Rightarrow> SessionManager \<times> fs \<Rightarrow> SessionManager \<times> fs \<Rightarrow> bool"
  for enc where
  create: "rnd \<noteq> [] \<Longrightarrow> sessions (fst st) (GenerateID rnd) = None \<Longrightarrow>
    sm_step enc st (fst (CreateSession no_faults enc rnd now ownerID folderID filename mimeType sz st))"
| progress: "sessions sm sid = Some s \<Longrightarrow> s_ID (f s) = s_ID s \<Longrightarrow> s_TempFilePath (f s) = s_TempFilePath s \<Longrightarrow>
    sm_step enc (sm, fs)
      (modify_session sid f sm, fst (PersistSession no_faults enc sm (f s) (fs(s_TempFilePath s \<mapsto> d))))"
| announce: "sm_step enc (sm, fs) (modify_session sid (with_hash h) sm, fs)"
| delete: "sm_step enc st (DeleteSession no_faults sid st)"
| cleanup: "sm_step enc st (fst (CleanupStaleSessions no_faults order now maxAge st))"

lemma CreateSession_disk_ok:
  assumes inv: "disk_ok enc (sm, fs)" and enc: "\<And>m. enc m \<noteq> None"
    and rnd: "rnd \<noteq> []" and fresh: "sessions sm (GenerateID rnd) = None"
  shows "disk_ok enc (fst (CreateSession no_faults enc rnd now ownerID folderID filename mimeType sz (sm, fs)))"
proof -
  let ?i = "GenerateID rnd"
  let ?s = "\<lparr>s_ID = ?i, s_OwnerID = ownerID, s_FolderID = folderID, s_Filename = filename,
      s_MimeType = mimeType, s_ExpectedSize = sz, s_UploadedSize = 0, s_TempFilePath = in_dir sm (temp_name ?i),
      s_PlaintextHash = [], s_StartedAt = now, s_LastActiveAt = now\<rparr>"
  obtain d where d: "enc (metadata_of ?s) = Some d" using enc by blast
  let ?fs = "(fs(in_dir sm (temp_name ?i) \<mapsto> []))(in_dir sm (meta_name ?i) \<mapsto> d)"
  have i: "is_id ?i" by (rule GenerateID_is_id [OF rnd])
  have r: "fst (CreateSession no_faults enc rnd now ownerID folderID filename mimeType sz (sm, fs)) =
      (sm\<lparr>sessions := (sessions sm)(?i \<mapsto> ?s)\<rparr>, ?fs)"
    using d by (simp add: CreateSession_def Let_def os_defs PersistSession_def metaPath_def)
  have old: "on_disk enc (sm\<lparr>sessions := x\<rparr>) sid s ?fs" if "sessions sm sid = Some s" for sid s x
  proof -
    have o: "on_disk enc sm sid s fs" using inv that by (simp add: disk_ok_def)
    moreover have "sid \<noteq> ?i" using fresh that by auto
    moreover have "is_id sid" using o by (simp add: on_disk_def)
    ultimately show ?thesis using i by (intro on_disk_cong [OF o]) (auto simp: on_disk_def)
  qed
  have new: "on_disk enc (sm\<lparr>sessions := x\<rparr>) ?i ?s ?fs" for x
    using i d by (intro on_diskI) simp_all
  have "\<exists>sid s. ((sessions sm)(?i \<mapsto> ?s)) sid = Some s \<and> n = meta_name sid"
    if n: "plain_name n" "is_meta_name n" "?fs (in_dir sm n) \<noteq> None" for n
  proof (cases "n = meta_name ?i")
    case False
    have "n \<noteq> temp_name ?i" using that(2) by (auto simp: is_meta_name_def temp_name_def suffix_def)
    then have "fs (in_dir sm n) \<noteq> None" using that False i by (auto split: if_splits)
    then obtain sid s where "sessions sm sid = Some s" "n = meta_name sid"
      using disk_ok_meta [OF inv n(1,2)] by blast
    then show ?thesis using fresh by (intro exI [of _ sid] exI [of _ s]) auto
  qed auto
  with old new show ?thesis unfolding r by (intro disk_okI) (auto split: if_splits)
qed

lemma progress_disk_ok:
  assumes inv: "disk_ok enc (sm, fs)" and enc: "\<And>m. enc m \<noteq> None"
    and s: "sessions sm sid = Some s" "s_ID (f s) = s_ID s" "s_TempFilePath (f s) = s_TempFilePath s"
  shows "disk_ok enc (modify_session sid f sm, fst (PersistSession no_faults enc sm (f s) (fs(s_TempFilePath s \<mapsto> d))))"
proof -
  have o: "on_disk enc sm sid s fs" using inv s by (simp add: disk_ok_def)
  then have i: "is_id sid" "s_ID s = sid" "s_TempFilePath s = in_dir sm (temp_name sid)" by (auto simp: on_disk_def)
  obtain e where e: "enc (metadata_of (f s)) = Some e" using enc by blast
  let ?fs = "(fs(in_dir sm (temp_name sid) \<mapsto> d))(in_dir sm (meta_name sid) \<mapsto> e)"
  have r: "fst (PersistSession no_faults enc sm (f s) (fs(s_TempFilePath s \<mapsto> d))) = ?fs"
    using e i s by (simp add: PersistSession_def os_defs metaPath_def)
  have old: "on_disk enc (modify_session sid f sm) sid' s' ?fs" if "sessions sm sid' = Some s'" "sid' \<noteq> sid" for sid' s'
  proof -
    have o: "on_disk enc sm sid' s' fs" using inv that by (simp add: disk_ok_def)
    moreover have "is_id sid'" using o by (simp add: on_disk_def)
    ultimately show ?thesis using i that
      by (intro on_disk_cong [OF o]) (auto simp: on_disk_def modify_session_def)
  qed
  have new: "on_disk enc (modify_session sid f sm) sid (f s) ?fs"
    using i e s by (intro on_diskI) (simp_all add: modify_session_def)
  have "\<exists>sid' s'. sessions (modify_session sid f sm) sid' = Some s' \<and> n = meta_name sid'"
    if n: "plain_name n" "is_meta_name n" "?fs (in_dir sm n) \<noteq> None" for n
  proof (cases "n = meta_name sid")
    case False
    have "n \<noteq> temp_name sid" using that(2) by (auto simp: is_meta_name_def temp_name_def suffix_def)
    then have "fs (in_dir sm n) \<noteq> None" using that False i by (auto split: if_splits)
    then obtain sid' s' where "sessions sm sid' = Some s'" "n = meta_name sid'"
      using disk_ok_meta [OF inv n(1,2)] by blast
    then show ?thesis using False by (intro exI [of _ sid'] exI [of _ s']) (auto simp: modify_session_def)
  qed (use s in \<open>auto simp: modify_session_def\<close>)
  moreover have "TempDir (modify_session sid f sm) = TempDir sm" by (simp add: modify_session_def)
  moreover have "on_disk enc (modify_session sid f sm) sid' s' ?fs"
    if "sessions (modify_session sid f sm) sid' = Some s'" for sid' s'
    using that old new s by (cases "sid' = sid") (auto simp: modify_session_def)
  ultimately show ?thesis unfolding r by (intro disk_okI) simp_all
qed

lemma announce_disk_ok:
  assumes "disk_ok enc (sm, fs)"
  shows "disk_ok enc (modify_session sid (with_hash h) sm, fs)"
proof (rule disk_okI)
  fix sid' s' assume s': "sessions (modify_session sid (with_hash h) sm) sid' = Some s'"
  then obtain s where s: "sessions sm sid' = Some s" "s' = s \<or> s' = with_hash h s"
    by (auto simp: modify_session_def split: if_splits)
  then have "on_disk enc sm sid' s fs" using assms by (simp add: disk_ok_def)
  with s(2) have "on_disk enc sm sid' s' fs" using on_disk_with_hash by blast
  then show "on_disk enc (modify_session sid (with_hash h) sm) sid' s' fs"
    by (rule on_disk_cong) (use \<open>on_disk enc sm sid' s' fs\<close> in \<open>simp_all add: on_disk_def modify_session_def\<close>)
next
  fix n assume n: "plain_name n" "is_meta_name n"
    "fs (in_dir (modify_session sid (with_hash h) sm) n) \<noteq> None"
  have "TempDir (modify_session sid (with_hash h) sm) = TempDir sm" by (simp add: modify_session_def)
  then obtain sid' s where "sessions sm sid' = Some s" "n = meta_name sid'"
    using disk_ok_meta [OF assms n(1,2)] n(3) by auto
  then show "\<exists>sid' s. sessions (modify_session sid (with_hash h) sm) sid' = Some s \<and> n = meta_name sid'"
    by (cases "sid' = sid") (auto simp: modify_session_def)
qed

lemma DeleteSession_disk_ok:
  assumes inv: "disk_ok enc (sm, fs)"
  shows "disk_ok enc (DeleteSession no_faults sid (sm, fs))"
proof (cases "sessions sm sid")
  case None
  then show ?thesis using inv by (simp add: DeleteSession_def fun_upd_idem)
next
  case (Some s)
  have "on_disk enc sm sid s fs" using inv Some by (simp add: disk_ok_def)
  then have i: "is_id sid" "s_TempFilePath s = in_dir sm (temp_name sid)" by (auto simp: on_disk_def)
  let ?fs = "(fs(in_dir sm (temp_name sid) := None))(in_dir sm (meta_name sid) := None)"
  have r: "DeleteSession no_faults sid (sm, fs) = (sm\<lparr>sessions := (sessions sm)(sid := None)\<rparr>, ?fs)"
    using Some i by (simp add: DeleteSession_def unlink_session_def os_defs metaPath_def)
  have old: "on_disk enc (sm\<lparr>sessions := x\<rparr>) sid' s' ?fs" if "sessions sm sid' = Some s'" "sid' \<noteq> sid" for sid' s' x
  proof -
    have o: "on_disk enc sm sid' s' fs" using inv that by (simp add: disk_ok_def)
    moreover have "is_id sid'" using o by (simp add: on_disk_def)
    ultimately show ?thesis using i that by (intro on_disk_cong [OF o]) (auto simp: on_disk_def)
  qed
  have "\<exists>sid' s'. sid' \<noteq> sid \<and> sessions sm sid' = Some s' \<and> n = meta_name sid'"
    if n: "plain_name n" "is_meta_name n" "?fs (in_dir sm n) \<noteq> None" for n
  proof -
    have "n \<noteq> meta_name sid" using that(3) by auto
    moreover have "fs (in_dir sm n) \<noteq> None" using that(3) by (auto split: if_splits)
    moreover from this obtain sid' s' where "sessions sm sid' = Some s'" "n = meta_name sid'"
      using disk_ok_meta [OF inv n(1,2)] by blast
    ultimately show ?thesis by (intro exI [of _ sid'] exI [of _ s']) auto
  qed
  then have "\<exists>sid' s'. ((sessions sm)(sid := None)) sid' = Some s' \<and> n = meta_name sid'"
    if "plain_name n" "is_meta_name n" "?fs (in_dir sm n) \<noteq> None" for n
    using that by fastforce
  with old show ?thesis unfolding r by (intro disk_okI) (auto split: if_splits)
qed

lemma sweep_disk_ok:
  "disk_ok enc st \<Longrightarrow> disk_ok enc (fst (sweep no_faults P order st n))"
proof (induction order arbitrary: st n)
  case (Cons sid order)
  obtain sm fs where st: "st = (sm, fs)" by fastforce
  show ?case
    using Cons.IH [OF DeleteSession_disk_ok [of enc sm fs sid]] Cons.IH [OF Cons.prems] Cons.prems
    by (auto simp: st simp del: no_faults split: option.splits)
qed simp

lemma sm_step_disk_ok:
  assumes "sm_step enc st st'" "disk_ok enc st" "\<And>m. enc m \<noteq> None"
  shows "disk_ok enc st'"
  using assms(1)
proof cases
  case (create rnd now ownerID folderID filename mimeType sz)
  then show ?thesis using CreateSession_disk_ok assms(2,3) by (cases st) auto
next
  case (progress sm sid s f fs d)
  then show ?thesis using progress_disk_ok assms(2,3) by auto
next
  case announce
  then show ?thesis using announce_disk_ok assms(2) by auto
next
  case (delete sid)
  then show ?thesis using DeleteSession_disk_ok assms(2) by (cases st) auto
next
  case (cleanup order now maxAge)
  then show ?thesis using sweep_disk_ok assms(2) by (auto simp: CleanupStaleSessions_def)
qed

lemma sm_steps_disk_ok:
  "(sm_step enc)\<^sup>*\<^sup>* st st' \<Longrightarrow> disk_ok enc st \<Longrightarrow> (\<And>m. enc m \<noteq> None) \<Longrightarrow> disk_ok enc st'"
  by (induction rule: rtranclp_induct) (auto intro: sm_step_disk_ok)

section \<open>Restart\<close>

lemma restore_session:
  assumes "on_disk enc sm0 sid s fs" "TempDir sm = TempDir sm0"
    "fs (in_dir sm0 (meta_name sid)) = enc (metadata_of (with_hash h s))"
    "\<And>d. enc (metadata_of (with_hash h s)) = Some d \<Longrightarrow> dec d = Some (metadata_of (with_hash h s))"
  shows "restore no_faults dec (meta_name sid # ns) (sm, fs)
    = restore no_faults dec ns (sm\<lparr>sessions := (sessions sm)(sid \<mapsto> with_hash h s)\<rparr>, fs)"
proof -
  obtain d where d: "enc (metadata_of (with_hash h s)) = Some d" using assms(1,3) by (auto simp: on_disk_def)
  have m: "m_TempFilePath (metadata_of (with_hash h s)) = s_TempFilePath s" "m_ID (metadata_of (with_hash h s)) = s_ID s"
    by (simp_all add: metadata_of_def)
  show ?thesis
    using assms d by (simp add: on_disk_def os_defs m is_id_def del: no_faults add: no_faults_def)
qed

definition saved_sessions :: "(string \<Rightarrow> string) \<Rightarrow> SessionManager \<Rightarrow> string \<rightharpoonup> Session" where
  "saved_sessions H sm = (\<lambda>sid. map_option (with_hash (H sid)) (sessions sm sid))"

lemma restore_all:
  assumes inv: "disk_ok enc (sm0, fs)"
    and H: "\<And>sid s. sessions sm0 sid = Some s \<Longrightarrow>
      fs (in_dir sm0 (meta_name sid)) = enc (metadata_of (with_hash (H sid) s))"
    and dec: "\<And>sid s d. sessions sm0 sid = Some s \<Longrightarrow> enc (metadata_of (with_hash (H sid) s)) = Some d \<Longrightarrow>
      dec d = Some (metadata_of (with_hash (H sid) s))"
  shows "TempDir sm = TempDir sm0 \<Longrightarrow> \<forall>n \<in> set ns. plain_name n \<and> fs (in_dir sm0 n) \<noteq> None \<Longrightarrow>
    restore no_faults dec ns (sm, fs) =
      (sm\<lparr>sessions := (\<lambda>sid. if sessions sm0 sid \<noteq> None \<and> meta_name sid \<in> set ns then saved_sessions H sm0 sid
                           else sessions sm sid)\<rparr>, fs)"
proof (induction ns arbitrary: sm)
  case (Cons n ns)
  show ?case
  proof (cases "is_meta_name n")
    case True
    then obtain sid s where s: "sessions sm0 sid = Some s" "n = meta_name sid"
      using disk_ok_meta [OF inv, of n] Cons.prems by auto
    have "on_disk enc sm0 sid s fs" using inv s by (simp add: disk_ok_def)
    note step = restore_session [OF this Cons.prems(1) H [OF s(1)] dec [OF s(1)], where ns = ns]
    let ?sm = "sm\<lparr>sessions := (sessions sm)(sid \<mapsto> with_hash (H sid) s)\<rparr>"
    have "restore no_faults dec ns (?sm, fs) =
      (sm\<lparr>sessions := (\<lambda>sid'. if sessions sm0 sid' \<noteq> None \<and> meta_name sid' \<in> set ns then saved_sessions H sm0 sid'
          else ((sessions sm)(sid \<mapsto> with_hash (H sid) s)) sid')\<rparr>, fs)"
      using Cons.IH [of ?sm] Cons.prems by (simp del: no_faults cong: if_cong)
    then show ?thesis using step s by (auto simp: fun_eq_iff saved_sessions_def simp del: no_faults)
  next
    case False
    then have "(meta_name sid = n) = False" for sid by auto
    then show ?thesis using False Cons by (simp del: no_faults)
  qed
qed simp

lemma saved_hashes:
  assumes "disk_ok enc (sm, fs)"
  obtains H where "\<And>sid s. sessions sm sid = Some s \<Longrightarrow>
      fs (in_dir sm (meta_name sid)) = enc (metadata_of (with_hash (H sid) s)) \<and>
      (fs (in_dir sm (meta_name sid)) = enc (metadata_of s) \<longrightarrow> H sid = s_PlaintextHash s)"
proof -
  have "\<exists>h. \<forall>s. sessions sm sid = Some s \<longrightarrow>
      fs (in_dir sm (meta_name sid)) = enc (metadata_of (with_hash h s)) \<and>
      (fs (in_dir sm (meta_name sid)) = enc (metadata_of s) \<longrightarrow> h = s_PlaintextHash s)" for sid
  proof (cases "sessions sm sid")
    case (Some s)
    then have o: "on_disk enc sm sid s fs" using assms by (simp add: disk_ok_def)
    show ?thesis
    proof (cases "fs (in_dir sm (meta_name sid)) = enc (metadata_of s)")
      case True
      then show ?thesis using Some by (intro exI [of _ "s_PlaintextHash s"]) simp
    next
      case False
      then show ?thesis using Some o by (auto simp: on_disk_def)
    qed
  qed simp
  then show thesis using that by metis
qed

section \<open>Sweeping\<close>

lemma DeleteSession_sessions [simp]:
  "sessions (fst (DeleteSession fails sid st)) = (sessions (fst st))(sid := None)"
  "TempDir (fst (DeleteSession fails sid st)) = TempDir (fst st)"
  by (simp_all add: DeleteSession_def split: prod.splits)

lemma sweep_sessions:
  assumes "distinct order"
  shows "sessions (fst (fst (sweep fails P order st n))) =
      map_drop_if (\<lambda>sid s. sid \<in> set order \<and> P s) (sessions (fst st)) \<and>
    TempDir (fst (fst (sweep fails P order st n))) = TempDir (fst st) \<and>
    snd (sweep fails P order st n) = n + int (card {sid \<in> set order. \<exists>s. sessions (fst st) sid = Some s \<and> P s})"
  using assms
proof (induction order arbitrary: st n)
  case Nil
  show ?case by (cases st) (auto simp: map_drop_if_def fun_eq_iff split: option.splits)
next
  case (Cons sid order)
  obtain sm fs where st: "st = (sm, fs)" by fastforce
  let ?S = "\<lambda>xs. {sid \<in> set xs. \<exists>s. sessions sm sid = Some s \<and> P s}"
  show ?case
  proof (cases "\<exists>s. sessions sm sid = Some s \<and> P s")
    case True
    then obtain s where s: "sessions sm sid = Some s" "P s" by auto
    have e: "{i \<in> set order. \<exists>s. ((sessions sm)(sid := None)) i = Some s \<and> P s} = ?S order"
      using Cons.prems by auto
    have c: "?S (sid # order) = insert sid (?S order)" using s by auto
    have "card (?S (sid # order)) = Suc (card (?S order))"
      unfolding c using Cons.prems by (intro card_insert_disjoint) auto
    then show ?thesis
      using Cons.IH [of "DeleteSession fails sid (sm, fs)" "n + 1"] Cons.prems s e
      by (auto simp: st fun_eq_iff map_drop_if_def split: option.splits)
  next
    case False
    then have c: "?S (sid # order) = ?S order" by auto
    have "sweep fails P (sid # order) st n = sweep fails P order st n"
      using False by (auto simp: st split: option.splits)
    with c False show ?thesis
      using Cons.IH [of st n] Cons.prems by (auto simp: st fun_eq_iff map_drop_if_def split: option.splits)
  qed
qed

lemma DeleteSession_fs:
  assumes "disk_ok enc (sm, fs)" "sessions sm sid = Some s"
  shows "snd (DeleteSession no_faults sid (sm, fs)) p =
    (if p = in_dir sm (temp_name sid) \<or> p = in_dir sm (meta_name sid) then None else fs p)"
  using assms by (auto simp: DeleteSession_def unlink_session_def os_defs metaPath_def disk_ok_def on_disk_def)

lemma sweep_fs:
  assumes "disk_ok enc st"
  shows "snd (fst (sweep no_faults P order st n)) p =
    (if \<exists>sid s. sid \<in> set order \<and> sessions (fst st) sid = Some s \<and> P s \<and>
          p \<in> {in_dir (fst st) (temp_name sid), in_dir (fst st) (meta_name sid)} then None else snd st p)"
  using assms
proof (induction order arbitrary: st n)
  case Nil
  show ?case by (cases st) simp
next
  case (Cons sid order)
  obtain sm fs where st: "st = (sm, fs)" by fastforce
  show ?case
  proof (cases "\<exists>s. sessions sm sid = Some s \<and> P s")
    case True
    then obtain s where s: "sessions sm sid = Some s" "P s" by auto
    have inv: "disk_ok enc (sm, fs)" using Cons.prems by (simp add: st)
    have "sweep no_faults P (sid # order) st n = sweep no_faults P order (DeleteSession no_faults sid (sm, fs)) (n + 1)"
      using s by (simp add: st del: no_faults)
    then show ?thesis
      using Cons.IH [OF DeleteSession_disk_ok [OF inv], of sid "n + 1"] s
      by (auto simp: DeleteSession_fs [OF inv s(1)] st simp del: no_faults)
  next
    case False
    then have "sweep no_faults P (sid # order) st n = sweep no_faults P order st n"
      by (auto simp: st simp del: no_faults split: option.splits)
    then show ?thesis using Cons.IH [OF Cons.prems] False by (auto simp: st simp del: no_faults)
  qed
qed

lemma remove_orphans_gone:
  "n \<in> set ns \<Longrightarrow> is_upload_file n \<Longrightarrow> remove_orphans no_faults dir ns fs (path_Join [dir, n]) = None"
proof -
  have shrink: "fs p = None \<Longrightarrow> remove_orphans no_faults dir ns fs p = None" for ns fs p
    by (induction ns arbitrary: fs) (auto simp: os_Remove_def)
  show "n \<in> set ns \<Longrightarrow> is_upload_file n \<Longrightarrow> remove_orphans no_faults dir ns fs (path_Join [dir, n]) = None"
    by (induction ns arbitrary: fs) (auto simp: os_Remove_def shrink)
qed

lemma remove_orphans_other:
  "(\<And>n. n \<in> set ns \<Longrightarrow> is_upload_file n \<Longrightarrow> p \<noteq> path_Join [dir, n]) \<Longrightarrow> remove_orphans fails dir ns fs p = fs p"
  by (induction ns arbitrary: fs) (auto simp: os_Remove_def)

text \<open>What \<^verbatim>\<open>os.ReadDir\<close> lists.\<close>

definition lists_dir :: "string \<Rightarrow> fs \<Rightarrow> string list \<Rightarrow> bool" where
  "lists_dir dir fs ns \<longleftrightarrow> (\<forall>n. n \<in> set ns \<longleftrightarrow> plain_name n \<and> fs (path_Join [dir, n]) \<noteq> None)"

section \<open>Properties\<close>

text \<open>C23: half-finished uploads survive a restart: after any sequence of creations, announced hashes,
  progress, deletions and sweeps in a directory that started without session documents, a new manager
  on the same disk has exactly the sessions of the old one, starting it changes nothing on disk, and
  every session has its fields again: all of them when its document was written since its last change
  (every chunk writes it), all but the announced hash, which is noted in memory only, otherwise.\<close>

theorem restart_restores_sessions:
  assumes start: "\<And>n. plain_name n \<Longrightarrow> is_meta_name n \<Longrightarrow> fs0 (path_Join [dir, n]) = None"
    and run: "(sm_step enc)\<^sup>*\<^sup>* (\<lparr>sessions = Map.empty, TempDir = dir\<rparr>, fs0) (sm, fs)"
    and total: "\<And>m. enc m \<noteq> None"
    and codec: "\<And>sid s h d. sessions sm sid = Some s \<Longrightarrow> fs (metaPath sm sid) = Some d \<Longrightarrow>
      enc (metadata_of (s\<lparr>s_PlaintextHash := h\<rparr>)) = Some d \<Longrightarrow> dec d = Some (metadata_of (s\<lparr>s_PlaintextHash := h\<rparr>))"
    and dirs: "TempDir sm = dir" and listing: "lists_dir dir fs ns"
  shows "\<exists>sm'. NewSessionManager no_faults dec dir (Some ns) fs = Some (sm', fs) \<and>
    TempDir sm' = dir \<and> dom (sessions sm') = dom (sessions sm) \<and>
    (\<forall>sid s. sessions sm sid = Some s \<longrightarrow>
       (\<exists>h. sessions sm' sid = Some (s\<lparr>s_PlaintextHash := h\<rparr>)) \<and>
       (fs (metaPath sm sid) = enc (metadata_of s) \<longrightarrow> sessions sm' sid = Some s))"
proof -
  have "disk_ok enc (\<lparr>sessions = Map.empty, TempDir = dir\<rparr>, fs0)"
    using start by (intro disk_okI) auto
  then have inv: "disk_ok enc (sm, fs)" using sm_steps_disk_ok [OF run] total by blast
  obtain H where H: "\<And>sid s. sessions sm sid = Some s \<Longrightarrow>
      fs (in_dir sm (meta_name sid)) = enc (metadata_of (with_hash (H sid) s)) \<and>
      (fs (in_dir sm (meta_name sid)) = enc (metadata_of s) \<longrightarrow> H sid = s_PlaintextHash s)"
    using saved_hashes [OF inv] by blast
  let ?new = "\<lparr>sessions = Map.empty, TempDir = dir\<rparr>"
  have dec: "dec d = Some (metadata_of (with_hash (H sid) s))"
    if "sessions sm sid = Some s" "enc (metadata_of (with_hash (H sid) s)) = Some d" for sid s d
    using codec [OF that(1), of d "H sid"] H [OF that(1)] that(2) by (simp add: with_hash_def metaPath_def)
  have "restore no_faults dec ns (?new, fs) =
      (?new\<lparr>sessions := (\<lambda>sid. if sessions sm sid \<noteq> None \<and> meta_name sid \<in> set ns then saved_sessions H sm sid
                            else sessions ?new sid)\<rparr>, fs)"
    using listing dirs H by (intro restore_all [OF inv _ dec]) (auto simp: lists_dir_def)
  moreover have "meta_name sid \<in> set ns" if "sessions sm sid = Some s" for sid s
    using that inv listing dirs by (auto simp: disk_ok_def on_disk_def lists_dir_def)
  then have "(\<lambda>sid. if sessions sm sid \<noteq> None \<and> meta_name sid \<in> set ns then saved_sessions H sm sid
      else sessions ?new sid) = saved_sessions H sm"
    by (auto simp: fun_eq_iff saved_sessions_def) (metis option.exhaust)
  ultimately have "NewSessionManager no_faults dec dir (Some ns) fs = Some (?new\<lparr>sessions := saved_sessions H sm\<rparr>, fs)"
    by (simp add: NewSessionManager_def Let_def)
  moreover have "dom (saved_sessions H sm) = dom (sessions sm)" by (auto simp: saved_sessions_def dom_def)
  moreover have "(\<exists>h. saved_sessions H sm sid = Some (s\<lparr>s_PlaintextHash := h\<rparr>)) \<and>
      (fs (metaPath sm sid) = enc (metadata_of s) \<longrightarrow> saved_sessions H sm sid = Some s)"
    if "sessions sm sid = Some s" for sid s
  proof -
    have "saved_sessions H sm sid = Some (with_hash (H sid) s)" using that by (simp add: saved_sessions_def)
    moreover have "H sid = s_PlaintextHash s" if "fs (metaPath sm sid) = enc (metadata_of s)"
      using H [OF \<open>sessions sm sid = Some s\<close>] that by (simp add: metaPath_def)
    ultimately show ?thesis by (auto simp: with_hash_def)
  qed
  ultimately show ?thesis by (intro exI [of _ "?new\<lparr>sessions := saved_sessions H sm\<rparr>"]) simp
qed

text \<open>The announced hash of an upload that has not received a chunk does not survive a restart.\<close>

lemma announced_hash_is_lost:
  assumes "disk_ok enc (sm, fs)" "sessions sm sid = Some s"
    "fs (metaPath sm sid) = enc (metadata_of s)" "dec (the (enc (metadata_of s))) = Some (metadata_of s)"
  shows "restore no_faults dec [meta_name sid] (\<lparr>sessions = Map.empty, TempDir = TempDir sm\<rparr>,
      snd (modify_session sid (with_hash h) sm, fs)) = (\<lparr>sessions = [sid \<mapsto> s], TempDir = TempDir sm\<rparr>, fs)"
proof -
  have o: "on_disk enc sm sid s fs" using assms(1,2) by (simp add: disk_ok_def)
  have d: "dec d = Some (metadata_of s)" if "enc (metadata_of s) = Some d" for d using assms(4) that by simp
  show ?thesis
    using restore_session [OF o, of "\<lparr>sessions = Map.empty, TempDir = TempDir sm\<rparr>" "s_PlaintextHash s" dec "[]"]
      assms(3) d by (simp add: metaPath_def del: no_faults restore.simps(2))
qed

text \<open>C31: a sweep removes exactly the sessions that have been inactive for longer than the limit, with
  their temporary file and their document, reports how many they were, and touches nothing else in
  memory or on disk, whatever the order of iteration.\<close>

theorem cleanup_exact:
  assumes inv: "disk_ok enc (sm, fs)" and order: "distinct order" "set order = dom (sessions sm)"
    and run: "CleanupStaleSessions no_faults order now maxAge (sm, fs) = ((sm', fs'), n)"
  shows "sessions sm' = map_drop_if (\<lambda>_ s. now - s_LastActiveAt s > maxAge) (sessions sm) \<and>
    n = int (card {sid. \<exists>s. sessions sm sid = Some s \<and> now - s_LastActiveAt s > maxAge}) \<and>
    disk_ok enc (sm', fs') \<and>
    (\<forall>p. fs' p = (if \<exists>sid s. sessions sm sid = Some s \<and> now - s_LastActiveAt s > maxAge \<and>
           p \<in> {in_dir sm (temp_name sid), in_dir sm (meta_name sid)} then None else fs p))"
proof -
  let ?P = "\<lambda>s. now - s_LastActiveAt s > maxAge"
  have r: "sweep no_faults ?P order (sm, fs) 0 = ((sm', fs'), n)"
    using run by (simp only: CleanupStaleSessions_def)
  have in_order: "sid \<in> set order" if "sessions sm sid = Some s" for sid s using that order(2) by auto
  have "map_drop_if (\<lambda>sid s. sid \<in> set order \<and> ?P s) (sessions sm) = map_drop_if (\<lambda>_. ?P) (sessions sm)"
    using in_order by (auto simp: fun_eq_iff map_drop_if_def split: option.splits)
  moreover have "{sid \<in> set order. \<exists>s. sessions sm sid = Some s \<and> ?P s} = {sid. \<exists>s. sessions sm sid = Some s \<and> ?P s}"
    using in_order by auto
  ultimately have "sessions sm' = map_drop_if (\<lambda>_. ?P) (sessions sm)"
    "n = int (card {sid. \<exists>s. sessions sm sid = Some s \<and> ?P s})"
    using sweep_sessions [OF order(1), of no_faults ?P "(sm, fs)" 0] r by (simp_all del: no_faults)
  moreover have "disk_ok enc (sm', fs')" using sweep_disk_ok [OF inv, of ?P order 0] r by (simp del: no_faults)
  moreover have "fs' p = (if \<exists>sid s. sessions sm sid = Some s \<and> ?P s \<and>
           p \<in> {in_dir sm (temp_name sid), in_dir sm (meta_name sid)} then None else fs p)" for p
  proof -
    have "(\<exists>sid s. sid \<in> set order \<and> sessions sm sid = Some s \<and> ?P s \<and> p \<in> {in_dir sm (temp_name sid), in_dir sm (meta_name sid)})
        = (\<exists>sid s. sessions sm sid = Some s \<and> ?P s \<and> p \<in> {in_dir sm (temp_name sid), in_dir sm (meta_name sid)})"
      using in_order by blast
    then show ?thesis using sweep_fs [OF inv, of ?P order 0 p] unfolding r fst_conv snd_conv by presburger
  qed
  ultimately show ?thesis by blast
qed

text \<open>the panic purge leaves no session in memory and no upload file in the directory, orphans of
  crashed runs included, and does not touch files that are neither upload files of the directory nor
  the temporary file of a session.\<close>

theorem purge_leaves_nothing:
  assumes order: "distinct order" "set order = dom (sessions sm)"
    and listing: "let fs1 = snd (fst (sweep no_faults (\<lambda>_. True) order (sm, fs) 0))
      in listing fs1 = Some ns \<and> lists_dir (TempDir sm) fs1 ns"
    and run: "PurgeAll no_faults order listing (sm, fs) = ((sm', fs'), n)"
  shows "sessions sm' = Map.empty \<and> n = int (card (dom (sessions sm))) \<and>
    (\<forall>name. plain_name name \<and> is_upload_file name \<longrightarrow> fs' (path_Join [TempDir sm, name]) = None)"
proof -
  obtain sm1 fs1 m where s: "sweep no_faults (\<lambda>_. True) order (sm, fs) 0 = ((sm1, fs1), m)" by (metis prod.collapse)
  have ns: "listing fs1 = Some ns" "lists_dir (TempDir sm) fs1 ns"
    using listing s by (simp_all add: Let_def del: no_faults)
  note sw = sweep_sessions [OF order(1), of no_faults "\<lambda>_. True" "(sm, fs)" 0]
  have S: "sessions sm1 = map_drop_if (\<lambda>sid s. sid \<in> set order \<and> True) (sessions sm)" "TempDir sm1 = TempDir sm"
    "m = int (card {sid \<in> set order. \<exists>s. sessions sm sid = Some s \<and> True})"
    using sw s by (simp_all del: no_faults)
  have r: "sm' = sm1" "n = m" "fs' = remove_orphans no_faults (TempDir sm) ns fs1"
    using run s ns S(2) by (simp_all add: PurgeAll_def del: no_faults)
  have "sessions sm' = Map.empty"
    using S(1) order(2) r(1) by (auto simp: fun_eq_iff map_drop_if_def split: option.splits)
  moreover have "{sid \<in> set order. \<exists>s. sessions sm sid = Some s \<and> True} = dom (sessions sm)"
    using order(2) by auto
  moreover have "fs' (path_Join [TempDir sm, name]) = None" if "plain_name name" "is_upload_file name" for name
  proof (cases "name \<in> set ns")
    case True
    then show ?thesis using that r(3) remove_orphans_gone by simp
  next
    case False
    then have "fs1 (path_Join [TempDir sm, name]) = None" using ns(2) that by (auto simp: lists_dir_def)
    moreover have "fs' (path_Join [TempDir sm, name]) = fs1 (path_Join [TempDir sm, name])"
      unfolding r(3) using False ns(2) that by (intro remove_orphans_other) (auto simp: lists_dir_def)
    ultimately show ?thesis by simp
  qed
  ultimately show ?thesis using S(3) r(2) by simp
qed

section \<open>Concrete managers\<close>

definition one_rnd :: bytes where
  "one_rnd = [1]"

definition one_manager :: "(SessionMetadata \<Rightarrow> bytes option) \<Rightarrow> SessionManager \<times> fs" where
  "one_manager enc = fst (CreateSession no_faults enc one_rnd 100 7 ''root'' ''a.txt'' ''text/plain'' 10
     (\<lparr>sessions = Map.empty, TempDir = ''/tmp''\<rparr>, Map.empty))"

definition one_session :: Session where
  "one_session = \<lparr>s_ID = ''01'', s_OwnerID = 7, s_FolderID = ''root'', s_Filename = ''a.txt'',
     s_MimeType = ''text/plain'', s_ExpectedSize = 10, s_UploadedSize = 0, s_TempFilePath = ''/tmp/upload_01.tmp'',
     s_PlaintextHash = [], s_StartedAt = 100, s_LastActiveAt = 100\<rparr>"

lemma one_paths:
  "GenerateID one_rnd = ''01''" "path_Join [''/tmp'', n] = path_Clean (''/tmp/'' @ n)"
  "path_Clean ''/tmp/upload_01.tmp'' = ''/tmp/upload_01.tmp''"
  "path_Clean ''/tmp/upload_01.meta.json'' = ''/tmp/upload_01.meta.json''"
  by code_simp+

lemma one_manager_eq:
  "one_manager (\<lambda>_. Some [9]) = (\<lparr>sessions = [''01'' \<mapsto> one_session], TempDir = ''/tmp''\<rparr>,
     [''/tmp/upload_01.tmp'' \<mapsto> [], ''/tmp/upload_01.meta.json'' \<mapsto> [9]])"
  by (simp add: one_manager_def CreateSession_def Let_def os_defs PersistSession_def metaPath_def one_paths
      one_session_def meta_name_def temp_name_def)

lemma one_step:
  "sm_step (\<lambda>_. Some [9]) (\<lparr>sessions = Map.empty, TempDir = ''/tmp''\<rparr>, Map.empty) (one_manager (\<lambda>_. Some [9]))"
  unfolding one_manager_def by (rule sm_step.create) (simp_all add: one_rnd_def)

lemma one_disk_ok: "disk_ok (\<lambda>_. Some [9]) (one_manager (\<lambda>_. Some [9]))"
  by (rule sm_step_disk_ok [OF one_step]) (auto intro!: disk_okI)

lemma one_listing: "lists_dir ''/tmp'' (snd (one_manager (\<lambda>_. Some [9]))) [''upload_01.tmp'', ''upload_01.meta.json'']"
proof -
  have p: "dir_prefix ''/tmp'' = ''/tmp/''" by code_simp
  have n: "plain_name ''upload_01.tmp''" "plain_name ''upload_01.meta.json''" by (auto simp: plain_name_def)
  have "path_Join [''/tmp'', n] = ''/tmp/'' @ n" if "plain_name n" for n
    using path_Join_plain [OF that] p by simp
  then show ?thesis using n by (auto simp: lists_dir_def one_manager_eq)
qed

text \<open>A codec whose document shows whether a hash is noted.\<close>

definition hash_enc :: "SessionMetadata \<Rightarrow> bytes option" where
  "hash_enc m = Some [if m_PlaintextHash m = [] then 9 else 8]"

definition announced_manager :: "SessionManager \<times> fs" where
  "announced_manager = (modify_session ''01'' (with_hash ''ab'') (fst (one_manager hash_enc)), snd (one_manager hash_enc))"

lemma one_manager_hash_enc: "one_manager hash_enc = one_manager (\<lambda>_. Some [9])"
  by (simp add: one_manager_def CreateSession_def Let_def os_defs PersistSession_def hash_enc_def metadata_of_def
      metaPath_def)

lemma announced_manager_eq:
  "announced_manager = (\<lparr>sessions = [''01'' \<mapsto> one_session\<lparr>s_PlaintextHash := ''ab''\<rparr>], TempDir = ''/tmp''\<rparr>,
     [''/tmp/upload_01.tmp'' \<mapsto> [], ''/tmp/upload_01.meta.json'' \<mapsto> [9]])"
  by (simp add: announced_manager_def one_manager_hash_enc one_manager_eq modify_session_def with_hash_def)

lemma announced_run:
  "(sm_step hash_enc)\<^sup>*\<^sup>* (\<lparr>sessions = Map.empty, TempDir = ''/tmp''\<rparr>, Map.empty) announced_manager"
proof -
  have "sm_step hash_enc (\<lparr>sessions = Map.empty, TempDir = ''/tmp''\<rparr>, Map.empty) (one_manager hash_enc)"
    unfolding one_manager_def by (rule sm_step.create) (simp_all add: one_rnd_def)
  moreover have "sm_step hash_enc (one_manager hash_enc) announced_manager"
    unfolding announced_manager_def using sm_step.announce [of hash_enc "fst (one_manager hash_enc)" "snd (one_manager hash_enc)"] by simp
  ultimately show ?thesis by (meson r_into_rtranclp rtranclp_trans)
qed

theorem restart_restores_sessions_witness:
  "\<exists>sm' h. NewSessionManager no_faults (\<lambda>d. if d = [9] then Some (metadata_of one_session) else None) ''/tmp''
     (Some [''upload_01.tmp'', ''upload_01.meta.json'']) (snd announced_manager) = Some (sm', snd announced_manager) \<and>
   sessions sm' ''01'' = Some (one_session\<lparr>s_PlaintextHash := h\<rparr>)"
proof -
  obtain sm fs where m: "announced_manager = (sm, fs)" by fastforce
  have e: "(sm, fs) = (\<lparr>sessions = [''01'' \<mapsto> one_session\<lparr>s_PlaintextHash := ''ab''\<rparr>], TempDir = ''/tmp''\<rparr>,
     [''/tmp/upload_01.tmp'' \<mapsto> [], ''/tmp/upload_01.meta.json'' \<mapsto> [9]])"
    using m announced_manager_eq by (rule trans [OF sym])
  have s: "sessions sm = [''01'' \<mapsto> one_session\<lparr>s_PlaintextHash := ''ab''\<rparr>]" "TempDir sm = ''/tmp''"
    "fs = snd (one_manager (\<lambda>_. Some [9]))" "fs (metaPath sm ''01'') = Some [9]"
    using e one_manager_eq by (simp_all add: metaPath_def meta_name_def one_paths)
  have h: "h = []" if "hash_enc (metadata_of (one_session\<lparr>s_PlaintextHash := h\<rparr>)) = Some [9]" for h
    using that by (auto simp: hash_enc_def metadata_of_def split: if_splits)
  have "one_session\<lparr>s_PlaintextHash := []\<rparr> = one_session" by (simp add: one_session_def)
  with h have "metadata_of (one_session\<lparr>s_PlaintextHash := h\<rparr>) = metadata_of one_session"
    if "hash_enc (metadata_of (one_session\<lparr>s_PlaintextHash := h\<rparr>)) = Some [9]" for h using that by fastforce
  then have c: "(if d = [9] then Some (metadata_of one_session) else None) =
      Some (metadata_of (s'\<lparr>s_PlaintextHash := h\<rparr>))"
    if "sessions sm sid = Some s'" "fs (metaPath sm sid) = Some d"
      "hash_enc (metadata_of (s'\<lparr>s_PlaintextHash := h\<rparr>)) = Some d" for sid s' h d
    using that s by (auto split: if_splits)
  have l: "lists_dir ''/tmp'' fs [''upload_01.tmp'', ''upload_01.meta.json'']" using one_listing s(3) by simp
  have "sessions sm ''01'' = Some (one_session\<lparr>s_PlaintextHash := ''ab''\<rparr>)" using s(1) by simp
  moreover let ?dec = "\<lambda>d. if d = [9] then Some (metadata_of one_session) else None"
  have "\<exists>sm'. NewSessionManager no_faults ?dec ''/tmp'' (Some [''upload_01.tmp'', ''upload_01.meta.json'']) fs = Some (sm', fs) \<and>
    TempDir sm' = ''/tmp'' \<and> dom (sessions sm') = dom (sessions sm) \<and>
    (\<forall>sid s. sessions sm sid = Some s \<longrightarrow>
       (\<exists>h. sessions sm' sid = Some (s\<lparr>s_PlaintextHash := h\<rparr>)) \<and>
       (fs (metaPath sm sid) = hash_enc (metadata_of s) \<longrightarrow> sessions sm' sid = Some s))"
    by (rule restart_restores_sessions [where dec = ?dec, OF _ announced_run [unfolded m] _ _ s(2) l])
      (use c in \<open>simp_all add: hash_enc_def\<close>)
  then obtain sm' where r: "NewSessionManager no_faults ?dec ''/tmp''
     (Some [''upload_01.tmp'', ''upload_01.meta.json'']) fs = Some (sm', fs)"
    "\<And>sid s. sessions sm sid = Some s \<Longrightarrow> \<exists>h. sessions sm' sid = Some (s\<lparr>s_PlaintextHash := h\<rparr>)"
    by blast
  ultimately obtain h where "sessions sm' ''01'' = Some (one_session\<lparr>s_PlaintextHash := ''ab'', s_PlaintextHash := h\<rparr>)"
    by blast
  then show ?thesis using r(1) by (auto simp: m simp del: no_faults)
qed

theorem cleanup_exact_witness:
  "let (sm, fs) = one_manager (\<lambda>_. Some [9]); ((sm', fs'), n) = CleanupStaleSessions no_faults [''01''] 200 50 (sm, fs)
   in sessions sm' = Map.empty \<and> n = 1 \<and> fs' ''/tmp/upload_01.tmp'' = None"
proof -
  obtain sm fs where m: "one_manager (\<lambda>_. Some [9]) = (sm, fs)" by fastforce
  obtain sm' fs' n where r: "CleanupStaleSessions no_faults [''01''] 200 50 (sm, fs) = ((sm', fs'), n)"
    by (metis prod.collapse)
  have s: "sessions sm = [''01'' \<mapsto> one_session]" "TempDir sm = ''/tmp''" using m one_manager_eq by auto
  have d: "\<exists>s. sessions sm ''01'' = Some s \<and> 200 - s_LastActiveAt s > 50" by (simp add: s one_session_def)
  note c = cleanup_exact [OF one_disk_ok [unfolded m] _ _ r]
  have "sessions sm' = Map.empty" "{sid. \<exists>s. sessions sm sid = Some s \<and> 200 - s_LastActiveAt s > 50} = {''01''}"
    using c d by (auto simp: s map_drop_if_def fun_eq_iff one_session_def split: if_splits)
  moreover have "fs' (in_dir sm (temp_name ''01'')) = None"
  proof -
    have "\<exists>sid s. sessions sm sid = Some s \<and> 200 - s_LastActiveAt s > 50 \<and>
        in_dir sm (temp_name ''01'') \<in> {in_dir sm (temp_name sid), in_dir sm (meta_name sid)}"
      using d by blast
    then show ?thesis using c by (simp add: s)
  qed
  moreover have "in_dir sm (temp_name ''01'') = ''/tmp/upload_01.tmp''" by (simp add: s temp_name_def one_paths)
  moreover have "n = int (card {sid. \<exists>s. sessions sm sid = Some s \<and> 200 - s_LastActiveAt s > 50})"
    using c by (simp add: s)
  ultimately show ?thesis by (simp add: m r)
qed

theorem purge_leaves_nothing_witness:
  "let (sm, fs) = one_manager (\<lambda>_. Some [9]); ((sm', fs'), n) = PurgeAll no_faults [''01''] (\<lambda>_. Some []) (sm, fs)
   in sessions sm' = Map.empty \<and> n = 1 \<and> fs' (path_Join [''/tmp'', ''upload_01.tmp'']) = None"
proof -
  obtain sm fs where m: "one_manager (\<lambda>_. Some [9]) = (sm, fs)" by fastforce
  obtain sm' fs' n where r: "PurgeAll no_faults [''01''] (\<lambda>_. Some []) (sm, fs) = ((sm', fs'), n)"
    by (metis prod.collapse)
  have s: "sessions sm = [''01'' \<mapsto> one_session]" "TempDir sm = ''/tmp''"
    "fs = [''/tmp/upload_01.tmp'' \<mapsto> [], ''/tmp/upload_01.meta.json'' \<mapsto> [9]]" using m one_manager_eq by auto
  have "snd (fst (sweep no_faults (\<lambda>_. True) [''01''] (sm, fs) 0)) = Map.empty"
    by (auto simp: s DeleteSession_def unlink_session_def os_defs metaPath_def one_session_def one_paths meta_name_def)
  then have "sessions sm' = Map.empty \<and> n = int (card (dom (sessions sm))) \<and>
    (\<forall>name. plain_name name \<and> is_upload_file name \<longrightarrow> fs' (path_Join [TempDir sm, name]) = None)"
    by (intro purge_leaves_nothing [OF _ _ _ r]) (auto simp: s lists_dir_def Let_def)
  moreover have "plain_name ''upload_01.tmp'' \<and> is_upload_file ''upload_01.tmp''"
    by (auto simp: plain_name_def is_upload_file_def suffix_def)
  ultimately show ?thesis by (simp add: m r s(1,2))
qed

end
