(* ===== verification/Expiring_Store.thy ===== *)
theory Expiring_Store
  imports Prelude
begin

text \<open>
  The contract that the program's expiring tables share: challenges of the proof of ownership, vault
  keys, user sessions and framework sessions are all kept in a map whose entries carry an expiry.
  The client facts are proved once here; each component interprets the locale on its own operations.
\<close>

locale expiring_store =
  fixes lookup :: "instant \<Rightarrow> 's \<Rightarrow> 'k \<Rightarrow> 'v option"
    and store :: "'e \<Rightarrow> 's \<Rightarrow> 's"
    and key :: "'e \<Rightarrow> 'k"
    and entry :: "'e \<Rightarrow> 'v"
    and remove :: "'k \<Rightarrow> 's \<Rightarrow> 's"
    and expiry :: "'v \<Rightarrow> instant"
  assumes lookup_store: "lookup now (store e s) k =
      (if k = key e then (if time_After now (expiry (entry e)) then None else Some (entry e)) else lookup now s k)"
    and lookup_remove: "lookup now (remove k s) k' = (if k' = k then None else lookup now s k')"
    and lookup_unexpired: "lookup now s k = Some v \<Longrightarrow> now \<le> expiry v"
    and lookup_earlier: "lookup now s k = Some v \<Longrightarrow> now' \<le> now \<Longrightarrow> lookup now' s k = Some v"
begin

lemma alive: "now \<le> expiry (entry e) \<Longrightarrow> lookup now (store e s) (key e) = Some (entry e)"
  by (simp add: lookup_store time_After_def)

lemma dead: "expiry (entry e) < now \<Longrightarrow> lookup now (store e s) (key e) = None"
  by (simp add: lookup_store time_After_def)

text \<open>What is gone stays gone: an entry that cannot be looked up now cannot be looked up later, unless
  it is stored again.\<close>

lemma never_returns: "lookup now s k = None \<Longrightarrow> now \<le> now' \<Longrightarrow> lookup now' s k = None"
  using lookup_earlier [of now' s k _ now] by (cases "lookup now' s k") auto

text \<open>Any sequence of removals and of stores under other keys leaves a removed key absent.\<close>

lemma consumed_once:
  assumes "\<And>f. f \<in> set fs \<Longrightarrow> (\<exists>k'. f = remove k') \<or> (\<exists>e. key e \<noteq> k \<and> f = store e)"
  shows "lookup now (foldl (\<lambda>s f. f s) (remove k s) fs) k = None"
proof -
  have "lookup now s' k = None \<Longrightarrow> lookup now (foldl (\<lambda>s f. f s) s' fs) k = None" for s'
    using assms
  proof (induction fs arbitrary: s')
    case (Cons f fs)
    from Cons.prems(2) [of f] have "lookup now (f s') k = None"
      using Cons.prems(1) by (auto simp: lookup_store lookup_remove)
    then show ?case using Cons.IH [of "f s'"] Cons.prems(2) by simp
  qed simp
  then show ?thesis by (simp add: lookup_remove)
qed

end

text \<open>The lookup all implementations use: present and not past its expiry.\<close>

definition unexpired :: "instant \<Rightarrow> ('v \<Rightarrow> instant) \<Rightarrow> 'v option \<Rightarrow> 'v option" where
  "unexpired now expiry r = (case r of None \<Rightarrow> None | Some v \<Rightarrow> if time_After now (expiry v) then None else Some v)"

lemma unexpired_Some [simp]: "unexpired now e r = Some v \<longleftrightarrow> r = Some v \<and> now \<le> e v"
  by (auto simp: unexpired_def time_After_def split: option.splits)

lemma unexpired_simps [simp]:
  "unexpired now e None = None" "unexpired now e (Some v) = (if time_After now (e v) then None else Some v)"
  by (simp_all add: unexpired_def)

end
