(* ===== verification/Proof_Of_Ownership.thy ===== *)
theory Proof_Of_Ownership
  imports Expiring_Store Go_Strings Go_Crypto
begin

text \<open>
  The proof of ownership of \<^verbatim>\<open>internal/upload/pow.go\<close>: a client that claims to have a file that is
  already stored must answer a challenge, an HMAC over samples of the file at offsets derived from a
  random nonce. The package's map of challenges is the state.
\<close>

record PoWChallenge =
  ch_CasHash :: string
  ch_Nonce :: string
  ch_Offsets :: "int list"
  ch_SampleSize :: int
  ch_ExpiresAt :: instant

type_synonym pow_store = "string \<rightharpoonup> PoWChallenge"

definition DefaultSampleSize :: int where "DefaultSampleSize = 1024"
definition ChallengeTTL :: duration where "ChallengeTTL = 5 * Minute"

definition SavePoWChallenge :: "PoWChallenge \<Rightarrow> pow_store \<Rightarrow> pow_store" where
  "SavePoWChallenge ch s = s(ch_Nonce ch \<mapsto> ch)"

definition GetPoWChallenge :: "instant \<Rightarrow> pow_store \<Rightarrow> string \<Rightarrow> PoWChallenge option" where
  "GetPoWChallenge now s nonce = unexpired now ch_ExpiresAt (s nonce)"

definition DeletePoWChallenge :: "string \<Rightarrow> pow_store \<Rightarrow> pow_store" where
  "DeletePoWChallenge nonce s = s(nonce := None)"

text \<open>\<^verbatim>\<open>(int64(binary.BigEndian.Uint64(h[8k:8k+8])) & 0x7fffffffffffffff) % maxOffset\<close>.\<close>

definition sample_offset :: "bytes \<Rightarrow> nat \<Rightarrow> int \<Rightarrow> int" where
  "sample_offset h k maxOffset =
     go_rem (uint (get_be64 (take 8 (drop (8 * k) h)) AND 0x7fffffffffffffff)) maxOffset"

text \<open>\<open>rnd\<close> is what the random source delivers; fewer than 32 bytes is its failure.\<close>

definition GeneratePoWChallenge ::
  "instant \<Rightarrow> bytes \<Rightarrow> string \<Rightarrow> int \<Rightarrow> pow_store \<Rightarrow> pow_store \<times> PoWChallenge option" where
  "GeneratePoWChallenge now rnd casHash fileSize s =
     (if casHash = [] then (s, None)
      else
        let sampleSize = (if fileSize > 0 \<and> fileSize < DefaultSampleSize then fileSize else DefaultSampleSize)
        in if length rnd < 32 then (s, None)
           else
             let nonce = hex_encode (take 32 rnd);
                 maxOffset = wrap64 (fileSize - sampleSize);
                 offsets = (if maxOffset \<le> 0 then [0]
                   else let h = sha256 (bytes_of_string (nonce @ '':'' @ casHash))
                        in [sample_offset h 0 maxOffset, sample_offset h 1 maxOffset, sample_offset h 2 maxOffset]);
                 ch = \<lparr>ch_CasHash = casHash, ch_Nonce = nonce, ch_Offsets = offsets,
                       ch_SampleSize = sampleSize, ch_ExpiresAt = now + ChallengeTTL\<rparr>
             in (SavePoWChallenge ch s, Some ch))"

text \<open>The file is its bytes; \<open>io\<close> says at which offsets seeking or reading fails. A sample that runs past
  the end is what is left.\<close>

fun sample_bytes :: "(int \<Rightarrow> bool) \<Rightarrow> bytes \<Rightarrow> int list \<Rightarrow> int \<Rightarrow> bytes option" where
  "sample_bytes io d [] sampleSize = Some []"
| "sample_bytes io d (off # offs) sampleSize =
     (if off < 0 \<or> io off then None
      else map_option ((@) (take (nat sampleSize) (drop (nat off) d))) (sample_bytes io d offs sampleSize))"

definition ComputeSampleHMAC :: "(int \<Rightarrow> bool) \<Rightarrow> bytes \<Rightarrow> int list \<Rightarrow> int \<Rightarrow> string \<Rightarrow> string option" where
  "ComputeSampleHMAC io d offsets sampleSize nonce =
     map_option (\<lambda>m. hex_encode (hmac_sha256 (bytes_of_string nonce) m)) (sample_bytes io d offsets sampleSize)"

definition VerifyPoW :: "(int \<Rightarrow> bool) \<Rightarrow> bytes \<Rightarrow> PoWChallenge \<Rightarrow> string \<Rightarrow> bool" where
  "VerifyPoW io d ch clientProof =
     (case ComputeSampleHMAC io d (ch_Offsets ch) (ch_SampleSize ch) (ch_Nonce ch) of
        None \<Rightarrow> False
      | Some expected \<Rightarrow> expected = clientProof)"

section \<open>The table of challenges\<close>

interpretation pow: expiring_store GetPoWChallenge SavePoWChallenge ch_Nonce "\<lambda>ch. ch" DeletePoWChallenge ch_ExpiresAt
  by unfold_locales (auto simp: GetPoWChallenge_def SavePoWChallenge_def DeletePoWChallenge_def time_After_def)

section \<open>Offsets\<close>

lemma sample_offset_range: "0 < m \<Longrightarrow> 0 \<le> sample_offset h k m \<and> sample_offset h k m < m"
  by (simp add: sample_offset_def)

lemma sample_bytes_full:
  "(\<And>off. off \<in> set offs \<Longrightarrow> 0 \<le> off \<and> off + n \<le> int (length d)) \<Longrightarrow> 0 \<le> n \<Longrightarrow>
   \<exists>m. sample_bytes (\<lambda>_. False) d offs n = Some m \<and> length m = length offs * nat n"
proof (induction offs)
  case (Cons off offs)
  then obtain m where m: "sample_bytes (\<lambda>_. False) d offs n = Some m" "length m = length offs * nat n" by auto
  have "length (take (nat n) (drop (nat off) d)) = nat n"
    using Cons.prems(1) [of off] Cons.prems(2) by (simp add: min_def) linarith
  with m Cons.prems(1) [of off] show ?case by auto
qed simp

lemma Generate_shape:
  assumes "GeneratePoWChallenge now rnd casHash fileSize s = (s', Some ch)"
  shows "s' = SavePoWChallenge ch s \<and> ch_CasHash ch = casHash \<and> ch_ExpiresAt ch = now + ChallengeTTL"
  using assms by (auto simp: GeneratePoWChallenge_def Let_def split: if_splits)

lemma Generate_offsets:
  assumes "GeneratePoWChallenge now rnd casHash fileSize s = (s', Some ch)" "0 < fileSize" "fileSize < 2 ^ 63"
  shows "0 < ch_SampleSize ch \<and> ch_SampleSize ch \<le> fileSize \<and>
    (\<forall>off \<in> set (ch_Offsets ch). 0 \<le> off \<and>
       (off + ch_SampleSize ch < fileSize \<or> (ch_SampleSize ch = fileSize \<and> off = 0)))"
proof -
  define n where "n = (if fileSize < DefaultSampleSize then fileSize else DefaultSampleSize)"
  have n: "0 < n" "n \<le> fileSize" using assms(2) by (auto simp: n_def DefaultSampleSize_def)
  have w: "wrap64 (fileSize - n) = fileSize - n" using n assms(3) by (intro wrap64_id) (simp add: is_int64_def)
  have "ch_SampleSize ch = n \<and> ch_Offsets ch = (if fileSize - n \<le> 0 then [0] else
      let h = sha256 (bytes_of_string (hex_encode (take 32 rnd) @ '':'' @ casHash))
      in [sample_offset h 0 (fileSize - n), sample_offset h 1 (fileSize - n), sample_offset h 2 (fileSize - n)])"
    using assms w by (auto simp: GeneratePoWChallenge_def Let_def n_def split: if_splits)
  with n show ?thesis
    using sample_offset_range [of "fileSize - n"] by (auto simp: Let_def split: if_splits) (smt (verit))+
qed

section \<open>Properties\<close>

text \<open>an owner of the file passes: for a file of the declared size every sample lies inside it in
  full, the challenge can be answered until it expires, the answer computed from the same bytes is
  accepted, and after it has been consumed the same challenge is never found again, however many
  other challenges are issued or consumed in between.\<close>

theorem pow_honest_client:
  assumes gen: "GeneratePoWChallenge now rnd casHash (int (length d)) s = (s', Some ch)"
    and d: "0 < length d" "int (length d) < 2 ^ 63"
    and others: "\<And>f. f \<in> set fs \<Longrightarrow> (\<exists>k. f = DeletePoWChallenge k) \<or> (\<exists>e. ch_Nonce e \<noteq> ch_Nonce ch \<and> f = SavePoWChallenge e)"
  shows "(\<forall>t \<le> now + ChallengeTTL. GetPoWChallenge t s' (ch_Nonce ch) = Some ch) \<and>
    (\<exists>proof. ComputeSampleHMAC (\<lambda>_. False) d (ch_Offsets ch) (ch_SampleSize ch) (ch_Nonce ch) = Some proof \<and>
       VerifyPoW (\<lambda>_. False) d ch proof) \<and>
    GetPoWChallenge later (foldl (\<lambda>s f. f s) (DeletePoWChallenge (ch_Nonce ch) s') fs) (ch_Nonce ch) = None"
proof (intro conjI)
  note sh = Generate_shape [OF gen]
  show "\<forall>t \<le> now + ChallengeTTL. GetPoWChallenge t s' (ch_Nonce ch) = Some ch"
    using sh pow.alive [of _ ch s] by auto
  have "\<exists>m. sample_bytes (\<lambda>_. False) d (ch_Offsets ch) (ch_SampleSize ch) = Some m \<and>
      length m = length (ch_Offsets ch) * nat (ch_SampleSize ch)"
    using Generate_offsets [OF gen _ d(2)] d(1) by (intro sample_bytes_full) fastforce+
  then obtain m where m: "sample_bytes (\<lambda>_. False) d (ch_Offsets ch) (ch_SampleSize ch) = Some m" by blast
  show "\<exists>proof. ComputeSampleHMAC (\<lambda>_. False) d (ch_Offsets ch) (ch_SampleSize ch) (ch_Nonce ch) = Some proof \<and>
       VerifyPoW (\<lambda>_. False) d ch proof"
    by (simp add: VerifyPoW_def ComputeSampleHMAC_def m)
  show "GetPoWChallenge later (foldl (\<lambda>s f. f s) (DeletePoWChallenge (ch_Nonce ch) s') fs) (ch_Nonce ch) = None"
    by (rule pow.consumed_once) (use others in blast)
qed

theorem pow_honest_client_witness:
  "\<exists>s' ch. GeneratePoWChallenge 0 (replicate 32 3) ''abc'' (int (length [5 :: byte, 6, 7])) Map.empty = (s', Some ch) \<and>
     GetPoWChallenge 0 s' (ch_Nonce ch) = Some ch \<and>
     GetPoWChallenge 1 (foldl (\<lambda>s f. f s) (DeletePoWChallenge (ch_Nonce ch) s') []) (ch_Nonce ch) = None"
proof -
  obtain s' ch where g: "GeneratePoWChallenge 0 (replicate 32 3) ''abc'' (int (length [5 :: byte, 6, 7])) Map.empty = (s', Some ch)"
    by (simp add: GeneratePoWChallenge_def Let_def)
  show ?thesis using pow_honest_client [OF g, of "[]" 1] g by (auto simp: ChallengeTTL_def)
qed

text \<open>the samples never include the last byte of a file larger than one sample: two files that differ
  only there answer every challenge alike, so the proof accepts the wrong file.\<close>

theorem pow_ignores_last_byte:
  assumes gen: "GeneratePoWChallenge now rnd casHash (int (length (d @ [x]))) s = (s', Some ch)"
    and big: "DefaultSampleSize < int (length (d @ [x]))" "int (length (d @ [x])) < 2 ^ 63"
  shows "VerifyPoW (\<lambda>_. False) (d @ [x]) ch proof = VerifyPoW (\<lambda>_. False) (d @ [y]) ch proof"
proof -
  have sz: "ch_SampleSize ch = DefaultSampleSize"
    using gen big(1) by (auto simp: GeneratePoWChallenge_def Let_def split: if_splits)
  have off: "0 \<le> off \<and> off + ch_SampleSize ch \<le> int (length d)" if "off \<in> set (ch_Offsets ch)" for off
    using Generate_offsets [OF gen _ big(2)] that big(1) sz by fastforce
  have "sample_bytes (\<lambda>_. False) (d @ [x]) offs n = sample_bytes (\<lambda>_. False) (d @ [y]) offs n"
    if "\<And>off. off \<in> set offs \<Longrightarrow> 0 \<le> off \<and> off + n \<le> int (length d)" for offs n
    using that
  proof (induction offs)
    case (Cons off offs)
    have "nat n - (length d - nat off) = 0" using Cons.prems [of off] by simp linarith
    then have "take (nat n) (drop (nat off) (d @ [x])) = take (nat n) (drop (nat off) (d @ [y]))"
      by (simp add: take_append drop_append)
    with Cons show ?case by simp
  qed simp
  then show ?thesis using off by (simp add: VerifyPoW_def ComputeSampleHMAC_def)
qed

theorem pow_ignores_last_byte_witness:
  "\<exists>s' ch. GeneratePoWChallenge 0 (replicate 32 3) ''abc'' (int (length (replicate 2000 0 @ [1 :: byte]))) Map.empty = (s', Some ch) \<and>
     VerifyPoW (\<lambda>_. False) (replicate 2000 0 @ [1]) ch ''00'' = VerifyPoW (\<lambda>_. False) (replicate 2000 0 @ [2]) ch ''00''"
proof -
  obtain s' ch where g: "GeneratePoWChallenge 0 (replicate 32 3) ''abc'' (int (length (replicate 2000 0 @ [1 :: byte]))) Map.empty = (s', Some ch)"
    by (simp add: GeneratePoWChallenge_def Let_def)
  show ?thesis using pow_ignores_last_byte [OF g] g by (auto simp: DefaultSampleSize_def)
qed

end
