(* ===== verification/Upload_Pipeline.thy ===== *)
theory Upload_Pipeline
  imports Stream_Crypto CAS_Engine Upload_Sessions Proof_Of_Ownership
begin

text \<open>
  The upload handlers of \<^verbatim>\<open>internal/controllers/upload_controller.go\<close>: a session is opened, chunks
  are encrypted onto its temporary file, and the last one moves the file into the content-addressable
  store and records it. A handler is a function of the controller's state, of the request, and of an
  environment record: the clock, the random bytes, which system calls fail, how much the disk still
  takes, the storage key, which folders belong to the vault, the quota. The \<^verbatim>\<open>files\<close> table is the list of
  its rows; a query with \<^verbatim>\<open>LIMIT 1\<close> returns the first match.
\<close>

section \<open>State\<close>

record FileRow =
  f_id :: string
  f_owner :: int
  f_folder :: string
  f_name :: string
  f_mime :: string
  f_size :: int
  f_cas :: string
  f_plain :: string
  f_deleted :: bool

record UploadController =
  u_sm :: SessionManager
  u_cas :: CASEngine
  u_fs :: fs
  u_completed :: "string \<rightharpoonup> instant"
  u_files :: "FileRow list"
  u_pow :: pow_store

record UploadEnv =
  e_now :: instant
  e_rnd :: bytes
  e_fails :: faults
  e_room :: "nat option" \<comment> \<open>bytes the disk still takes, \<open>None\<close> for any number\<close>
  e_part :: nat \<comment> \<open>bytes a failing copy into the store has written\<close>
  e_seekFails :: bool
  e_truncFails :: bool
  e_enc :: "SessionMetadata \<Rightarrow> bytes option"
  e_order :: "string list" \<comment> \<open>iteration order of the session map\<close>
  e_quota :: int
  e_stdKey :: bytes
  e_isVault :: "string \<Rightarrow> bool"
  e_folderIDs :: "string list" \<comment> \<open>ids in the folders table\<close>
  e_insertFails :: bool

datatype upload_response =
    HttpError int
  | ChallengeRequired PoWChallenge
  | AlreadyStored string string
  | ResumedSession string int
  | CreatedSession string
  | AlreadyProcessed int
  | OffsetMismatch int
  | ChunkIncomplete int
  | UploadCompleted string
  | Deduplicated string string
  | StatusCompleted
  | StatusIncomplete int int
  | Aborted

section \<open>Requests\<close>

text \<open>\<^verbatim>\<open>parseContentRangeHeader\<close>: start, end and total, or no range.\<close>

definition parseContentRangeHeader :: "string \<Rightarrow> (int \<times> int \<times> int) option" where
  "parseContentRangeHeader header =
     (if header = [] \<or> \<not> HasPrefix header ''bytes '' then None
      else case Split (TrimPrefix header ''bytes '') (CHR ''/'') of
          [p0, p1] \<Rightarrow>
            (case Split p0 (CHR ''-'') of
               [r0, r1] \<Rightarrow>
                 (case (ParseInt r0, ParseInt r1) of ((s, err1), (e, err2)) \<Rightarrow>
                    if err1 \<noteq> None \<or> err2 \<noteq> None \<or> s < 0 \<or> e < s then None
                    else Some (s, e, if p1 \<noteq> ''*'' then fst (ParseInt p1) else - 1))
             | _ \<Rightarrow> None)
        | _ \<Rightarrow> None)"

text \<open>A sum that does not fit an \<^verbatim>\<open>int64\<close> makes the query or the scan fail, and the code goes on with 0.\<close>

definition GetUserStorageUsed :: "int \<Rightarrow> FileRow list \<Rightarrow> int" where
  "GetUserStorageUsed ownerID rows =
     (let t = sum_list (map f_size (filter (\<lambda>r. f_owner r = ownerID \<and> \<not> f_deleted r) rows))
      in if wrap64 t = t then t else 0)"

section \<open>The buffered temporary file\<close>

text \<open>A \<^verbatim>\<open>bufio.Writer\<close> of 2 MiB on a file opened for appending. A failed write leaves what the disk still
  took and makes every later write fail.\<close>

record bufio =
  bw_disk :: bytes
  bw_room :: "nat option"
  bw_buf :: bytes
  bw_err :: bool

definition bufio_size :: nat where "bufio_size = 2 * 1024 * 1024"

definition disk_write :: "bytes \<Rightarrow> bufio \<Rightarrow> bufio \<times> bool" where
  "disk_write d b =
     (case bw_room b of
        None \<Rightarrow> (b\<lparr>bw_disk := bw_disk b @ d\<rparr>, True)
      | Some r \<Rightarrow>
          if length d \<le> r then (b\<lparr>bw_disk := bw_disk b @ d, bw_room := Some (r - length d)\<rparr>, True)
          else (b\<lparr>bw_disk := bw_disk b @ take r d, bw_room := Some 0, bw_err := True\<rparr>, False))"

definition bufio_Flush :: "bufio \<Rightarrow> bufio" where
  "bufio_Flush b =
     (if bw_err b \<or> bw_buf b = [] then b
      else case disk_write (bw_buf b) b of
          (b', True) \<Rightarrow> b'\<lparr>bw_buf := []\<rparr>
        | (b', False) \<Rightarrow> b')"

function bufio_Write :: "bytes \<Rightarrow> bufio \<Rightarrow> bufio \<times> bool" where
  "bufio_Write p b =
     (if bw_err b then (b, False)
      else if length p > bufio_size - length (bw_buf b) then
        (if bw_buf b = [] then disk_write p b
         else
           let n = bufio_size - length (bw_buf b);
               b1 = bufio_Flush (b\<lparr>bw_buf := bw_buf b @ take n p\<rparr>)
           in if bw_err b1 then (b1, False) else bufio_Write (drop n p) b1)
      else (b\<lparr>bw_buf := bw_buf b @ p\<rparr>, True))"
  by pat_completeness auto
termination
proof (relation "measure (\<lambda>(p, b). 2 * length p + (if bw_buf b = [] then 0 else 1))", simp, goal_cases)
  case (1 p b n b1)
  then have "bw_buf b1 = []"
    by (auto simp: bufio_Flush_def disk_write_def split: option.splits if_splits)
  with 1 show ?case by auto
qed

declare bufio_Write.simps [simp del]

text \<open>The request body: the pieces its reads deliver (at most 1 MiB each, the size of the copy buffer) and
  whether it ends with an error. \<^verbatim>\<open>io.LimitReader\<close> cuts it after \<open>n\<close> bytes, and past the limit no error
  is seen.\<close>

fun limit_pieces :: "nat \<Rightarrow> bytes list \<Rightarrow> bytes list" where
  "limit_pieces n [] = []"
| "limit_pieces n (p # ps) = (if n = 0 then [] else take n p # limit_pieces (n - length p) ps)"

text \<open>\<^verbatim>\<open>io.CopyBuffer\<close> into the encryption stream: every piece becomes one packet.\<close>

fun copy_pieces :: "bytes \<Rightarrow> bytes list \<Rightarrow> bufio \<Rightarrow> int \<Rightarrow> bufio \<times> int \<times> bool" where
  "copy_pieces key [] b written = (b, written, True)"
| "copy_pieces key (p # ps) b written =
     (if p = [] then copy_pieces key ps b written
      else case bufio_Write (packet (cipher_NewGCM key) key p) b of
          (b', False) \<Rightarrow> (b', written, False)
        | (b', True) \<Rightarrow> copy_pieces key ps b' (written + int (length p)))"

record ChunkRequest =
  cr_session :: string
  cr_range :: string
  cr_length :: int
  cr_body :: "bytes list"
  cr_bodyErr :: bool
  cr_vaultKey :: "bytes option" \<comment> \<open>the key of an authenticated vault context\<close>
  cr_cookieKey :: "bytes option" \<comment> \<open>the key of the session cookie\<close>

section \<open>UploadChunk\<close>

definition range_check :: "ChunkRequest \<Rightarrow> Session \<Rightarrow> upload_response option" where
  "range_check rq s =
     (case parseContentRangeHeader (cr_range rq) of
        None \<Rightarrow> None
      | Some (crStart, crEnd, _) \<Rightarrow>
          if crEnd < s_UploadedSize s then Some (AlreadyProcessed (s_UploadedSize s))
          else if crStart \<noteq> s_UploadedSize s then Some (OffsetMismatch (s_UploadedSize s))
          else None)"

definition chunk_key :: "UploadEnv \<Rightarrow> ChunkRequest \<Rightarrow> Session \<Rightarrow> bytes option" where
  "chunk_key env rq s =
     (if e_isVault env (s_FolderID s) then
        (case cr_vaultKey rq of
           Some k \<Rightarrow>
             if k \<noteq> [] \<and> k \<noteq> e_stdKey env then Some k
             else (case cr_cookieKey rq of Some k' \<Rightarrow> (if k' \<noteq> [] then Some k' else None) | None \<Rightarrow> None)
         | None \<Rightarrow> (case cr_cookieKey rq of Some k' \<Rightarrow> (if k' \<noteq> [] then Some k' else None) | None \<Rightarrow> None))
      else Some (e_stdKey env))"

text \<open>The checks between opening the file and reading the body, in their order.\<close>

definition admit :: "UploadEnv \<Rightarrow> ChunkRequest \<Rightarrow> Session \<Rightarrow> FileRow list \<Rightarrow> upload_response + bytes" where
  "admit env rq s rows =
     (case chunk_key env rq s of
        None \<Rightarrow> Inl (HttpError 401)
      | Some vk \<Rightarrow>
          (case aes_NewCipher vk of
             None \<Rightarrow> Inl (HttpError 500)
           | Some _ \<Rightarrow>
               if s_ExpectedSize s = 0 \<and> cr_length rq > 0 then Inl (HttpError 400)
               else if s_ExpectedSize s > 0 \<and> s_UploadedSize s > s_ExpectedSize s then Inl (HttpError 400)
               else if s_ExpectedSize s - s_UploadedSize s < 0 then Inl (HttpError 400)
               else if e_quota env > 0 \<and>
                 wrap64 (GetUserStorageUsed (s_OwnerID s) rows +
                   (s_UploadedSize s + max 0 (cr_length rq))) > e_quota env then Inl (HttpError 413)
               else Inr vk))"

text \<open>\<^verbatim>\<open>remaining+1\<close> is an \<^verbatim>\<open>int64\<close>: for the largest size it wraps around, and a negative limit reads
  nothing. The transfer: the file afterwards, the number of plaintext bytes, and whether it succeeded.\<close>

definition write_chunk :: "UploadEnv \<Rightarrow> bytes \<Rightarrow> ChunkRequest \<Rightarrow> int \<Rightarrow> bytes \<Rightarrow> bytes \<times> int \<times> bool" where
  "write_chunk env vk rq remaining disk =
     (let limit = nat (wrap64 (remaining + 1));
          readErr = (cr_bodyErr rq \<and> length (concat (cr_body rq)) < limit)
      in case copy_pieces vk (limit_pieces limit (cr_body rq))
                \<lparr>bw_disk = disk, bw_room = e_room env, bw_buf = [], bw_err = False\<rparr> 0 of
           (b, written, ok) \<Rightarrow> (bw_disk (bufio_Flush b), written, ok \<and> \<not> readErr))"

definition truncated :: "UploadEnv \<Rightarrow> bytes \<Rightarrow> bytes \<Rightarrow> bytes" where
  "truncated env old new = (if e_truncFails env then new else take (length old) new)"

text \<open>The end of an upload: into the store, out of the session table, into the files table.\<close>

definition finish_upload :: "UploadEnv \<Rightarrow> Session \<Rightarrow> UploadController \<Rightarrow> UploadController \<times> upload_response" where
  "finish_upload env s st =
     (case MoveToCASWithStatus (e_fails env) (e_part env) (s_TempFilePath s) (u_cas st, u_fs st) of
        ((cas, fs), None) \<Rightarrow> (st\<lparr>u_cas := cas, u_fs := fs\<rparr>, HttpError 500)
      | ((cas, fs), Some (casHash, existedBefore)) \<Rightarrow>
          (case DeleteSession (e_fails env) (s_ID s) (u_sm st, fs) of (sm, fs1) \<Rightarrow>
             let st1 = st\<lparr>u_cas := cas, u_fs := fs1, u_sm := sm, u_completed := (u_completed st)(s_ID s \<mapsto> e_now env)\<rparr> in
             if e_insertFails env then
               ((if existedBefore then st1
                 else st1\<lparr>u_fs := os_Remove (e_fails env) (cas_Path cas casHash) fs1,
                          u_cas := cas_Invalidate casHash cas\<rparr>), HttpError 500)
             else
               (st1\<lparr>u_files := u_files st @
                  [\<lparr>f_id = ''file_'' @ Itoa (e_now env div Second) @ ''_'' @ take 8 (GenerateID (e_rnd env)),
                    f_owner = s_OwnerID s,
                    f_folder = (if s_FolderID s \<noteq> [] \<and> s_FolderID s \<noteq> ''root'' then s_FolderID s else []),
                    f_name = s_Filename s, f_mime = s_MimeType s, f_size = s_UploadedSize s,
                    f_cas = casHash, f_plain = s_PlaintextHash s, f_deleted = False\<rparr>]\<rparr>,
                UploadCompleted casHash)))"

definition UploadChunk :: "UploadEnv \<Rightarrow> ChunkRequest \<Rightarrow> UploadController \<Rightarrow> UploadController \<times> upload_response" where
  "UploadChunk env rq st =
     (case GetSession (u_sm st) (cr_session rq) of
        None \<Rightarrow> (st, HttpError 404)
      | Some s \<Rightarrow>
          (case range_check rq s of
             Some r \<Rightarrow> (st, r)
           | None \<Rightarrow>
               let temp = s_TempFilePath s in
               if e_fails env (OpenCall temp) then (st, HttpError 500)
               else
                 let disk = (case u_fs st temp of None \<Rightarrow> [] | Some d \<Rightarrow> d);
                     st0 = st\<lparr>u_fs := (u_fs st)(temp \<mapsto> disk)\<rparr>
                 in case admit env rq s (u_files st) of
                      Inl r \<Rightarrow> (st0, r)
                    | Inr vk \<Rightarrow>
                        if e_seekFails env then (st0, HttpError 500)
                        else
                        (case write_chunk env vk rq (s_ExpectedSize s - s_UploadedSize s) disk of
                           (disk1, written, ok) \<Rightarrow>
                             let undo = st\<lparr>u_fs := (u_fs st)(temp \<mapsto> truncated env disk disk1)\<rparr> in
                             if \<not> ok then (undo, HttpError 500)
                             else if wrap64 (s_UploadedSize s + written) > s_ExpectedSize s then (undo, HttpError 400)
                             else
                               let s1 = s\<lparr>s_UploadedSize := wrap64 (s_UploadedSize s + written), s_LastActiveAt := e_now env\<rparr>;
                                   sm1 = modify_session (cr_session rq) (\<lambda>_. s1) (u_sm st);
                                   st1 = st\<lparr>u_sm := sm1, u_fs := fst (PersistSession (e_fails env) (e_enc env) sm1 s1
                                                                    ((u_fs st)(temp \<mapsto> disk1)))\<rparr>
                               in if s_UploadedSize s1 \<ge> s_ExpectedSize s1 then finish_upload env s1 st1
                                  else (st1, ChunkIncomplete (s_UploadedSize s1)))))"

section \<open>The other handlers\<close>

record InitRequest =
  iq_Filename :: string
  iq_MimeType :: string
  iq_Size :: int
  iq_FolderID :: string
  iq_CasHash :: string
  iq_user :: int
  iq_unlocked :: bool \<comment> \<open>the session cookie has a vault key\<close>

definition clean_upload_name :: "string \<Rightarrow> string \<Rightarrow> string" where
  "clean_upload_name fallback name =
     (let c = path_Base (path_Clean name) in if c \<in> {''.'', ''/'', []} then fallback else c)"

definition quota_exceeded :: "UploadEnv \<Rightarrow> int \<Rightarrow> int \<Rightarrow> FileRow list \<Rightarrow> bool" where
  "quota_exceeded env userID sz rows \<longleftrightarrow>
     e_quota env > 0 \<and> sz > 0 \<and> wrap64 (GetUserStorageUsed userID rows + sz) > e_quota env"

definition preset_folders :: "string set" where
  "preset_folders = {[], ''f1'', ''f2'', ''f3''}"

text \<open>The lookup for deduplication: the blob and its folder, and the engine, whose cache it may extend.\<close>

definition find_blob :: "UploadEnv \<Rightarrow> string \<Rightarrow> UploadController \<Rightarrow> CASEngine \<times> (string \<times> string) option" where
  "find_blob env casHash st =
     (let (existingCas, existingFolder) =
            (case find (\<lambda>r. (f_plain r = casHash \<or> f_cas r = casHash) \<and> \<not> f_deleted r) (u_files st) of
               None \<Rightarrow> ([], []) | Some r \<Rightarrow> (f_cas r, f_folder r));
          (cas1, cas2) = (if existingCas = [] then
              (case cas_Exists (e_fails env) (u_fs st) casHash (u_cas st) of (c, b) \<Rightarrow> (c, if b then casHash else []))
            else (u_cas st, existingCas))
      in if cas2 = [] then (cas1, None)
         else case cas_Exists (e_fails env) (u_fs st) cas2 cas1 of
             (c, True) \<Rightarrow> (c, Some (cas2, existingFolder))
           | (c, False) \<Rightarrow> (c, None))"

definition resume_or_create :: "UploadEnv \<Rightarrow> InitRequest \<Rightarrow> string \<Rightarrow> string \<Rightarrow> UploadController \<Rightarrow> UploadController \<times> upload_response" where
  "resume_or_create env rq folderID cleanFilename st =
     (let create = (\<lambda>_.
            case CreateSession (e_fails env) (e_enc env) (e_rnd env) (e_now env) (iq_user rq) folderID cleanFilename
                   (iq_MimeType rq) (iq_Size rq) (u_sm st, u_fs st) of
              ((sm, fs), None) \<Rightarrow> (st\<lparr>u_sm := sm, u_fs := fs\<rparr>, HttpError 500)
            | ((sm, fs), Some s) \<Rightarrow>
                (st\<lparr>u_sm := modify_session (s_ID s) (\<lambda>x. x\<lparr>s_PlaintextHash := iq_CasHash rq\<rparr>) sm, u_fs := fs\<rparr>,
                 CreatedSession (s_ID s)))
      in case FindActiveSession (e_fails env) (e_order env) (iq_user rq) folderID cleanFilename (iq_Size rq) (u_sm st, u_fs st) of
           None \<Rightarrow> create ()
         | Some s \<Rightarrow>
             if s_UploadedSize s > 0 then
               let s1 = s\<lparr>s_LastActiveAt := e_now env\<rparr>; sm1 = modify_session (s_ID s) (\<lambda>_. s1) (u_sm st)
               in (st\<lparr>u_sm := sm1, u_fs := fst (PersistSession (e_fails env) (e_enc env) sm1 s1 (u_fs st))\<rparr>,
                   ResumedSession (s_ID s) (s_UploadedSize s))
             else create ())"

definition open_session :: "UploadEnv \<Rightarrow> InitRequest \<Rightarrow> string \<Rightarrow> string \<Rightarrow> UploadController \<Rightarrow> UploadController \<times> upload_response" where
  "open_session env rq folderID cleanFilename st =
     (case find (\<lambda>r. f_owner r = iq_user rq \<and>
             (if folderID = [] then f_folder r \<in> {[], ''root''} else f_folder r = folderID) \<and>
             f_name r = cleanFilename \<and> f_size r = iq_Size rq \<and> \<not> f_deleted r) (u_files st) of
        Some r \<Rightarrow>
          if iq_Size rq > 0 \<and> f_id r \<noteq> [] \<and> f_cas r \<noteq> [] then (st, AlreadyStored (f_cas r) (f_id r))
          else resume_or_create env rq folderID cleanFilename st
      | None \<Rightarrow> resume_or_create env rq folderID cleanFilename st)"

definition InitSession :: "UploadEnv \<Rightarrow> InitRequest \<Rightarrow> UploadController \<Rightarrow> UploadController \<times> upload_response" where
  "InitSession env rq st =
     (let cleanFilename = clean_upload_name ''untitled'' (iq_Filename rq);
          folderID = (if iq_FolderID rq = ''root'' then [] else iq_FolderID rq)
      in if iq_Size rq < 0 then (st, HttpError 400)
         else if iq_Size rq = 0 \<and> iq_MimeType rq \<in> {[], ''application/octet-stream''} \<and> path_Ext cleanFilename = []
           then (st, HttpError 400)
         else if folderID \<notin> preset_folders \<and> folderID \<notin> set (e_folderIDs env) then (st, HttpError 400)
         else if e_isVault env folderID \<and> \<not> iq_unlocked rq then (st, HttpError 401)
         else if quota_exceeded env (iq_user rq) (iq_Size rq) (u_files st) then (st, HttpError 413)
         else if iq_CasHash rq = [] then open_session env rq folderID cleanFilename st
         else if \<not> IsValidHash (iq_CasHash rq) then (st, HttpError 400)
         else
           case find_blob env (iq_CasHash rq) st of
             (cas, None) \<Rightarrow> open_session env rq folderID cleanFilename (st\<lparr>u_cas := cas\<rparr>)
           | (cas, Some (existingCas, existingFolder)) \<Rightarrow>
               let st1 = st\<lparr>u_cas := cas\<rparr> in
               if e_isVault env folderID \<noteq> e_isVault env existingFolder
               then open_session env rq folderID cleanFilename st1
               else case GeneratePoWChallenge (e_now env) (e_rnd env) existingCas (iq_Size rq) (u_pow st1) of
                   (pow, Some ch) \<Rightarrow> (st1\<lparr>u_pow := pow\<rparr>, ChallengeRequired ch)
                 | (pow, None) \<Rightarrow> open_session env rq folderID cleanFilename (st1\<lparr>u_pow := pow\<rparr>))"

record VerifyPoWRequest =
  vq_CasHash :: string
  vq_Nonce :: string
  vq_Proof :: string
  vq_Filename :: string
  vq_MimeType :: string
  vq_Size :: int
  vq_FolderID :: string
  vq_user :: int

definition VerifyProofOfOwnership ::
  "UploadEnv \<Rightarrow> VerifyPoWRequest \<Rightarrow> UploadController \<Rightarrow> UploadController \<times> upload_response" where
  "VerifyProofOfOwnership env rq st =
     (case GetPoWChallenge (e_now env) (u_pow st) (vq_Nonce rq) of
        None \<Rightarrow> (st, HttpError 400)
      | Some ch \<Rightarrow>
          if ch_CasHash ch \<noteq> vq_CasHash rq then (st, HttpError 400)
          else if quota_exceeded env (vq_user rq) (vq_Size rq) (u_files st) then (st, HttpError 413)
          else
            (case cas_Exists (e_fails env) (u_fs st) (ch_CasHash ch) (u_cas st) of
               (cas, False) \<Rightarrow> (st\<lparr>u_cas := cas\<rparr>, HttpError 404)
             | (cas, True) \<Rightarrow>
                 (case os_Open (e_fails env) (cas_Path cas (ch_CasHash ch)) (u_fs st) of
                    None \<Rightarrow> (st\<lparr>u_cas := cas\<rparr>, HttpError 500)
                  | Some blob \<Rightarrow>
                      if \<not> VerifyPoW (\<lambda>_. e_fails env (ReadCall (cas_Path cas (ch_CasHash ch)))) blob ch (vq_Proof rq)
                      then (st\<lparr>u_cas := cas\<rparr>, HttpError 401)
                      else
                        let st1 = st\<lparr>u_cas := cas, u_pow := DeletePoWChallenge (vq_Nonce rq) (u_pow st)\<rparr>;
                            fileID = ''file_'' @ Itoa (e_now env div Second) @ ''_'' @ take 8 (GenerateID (e_rnd env));
                            folderID = (if vq_FolderID rq = ''root'' then [] else vq_FolderID rq)
                        in if e_insertFails env then (st1, HttpError 500)
                           else (st1\<lparr>u_files := u_files st @
                               [\<lparr>f_id = fileID, f_owner = vq_user rq, f_folder = folderID,
                                 f_name = clean_upload_name ''unnamed_file'' (vq_Filename rq), f_mime = vq_MimeType rq,
                                 f_size = vq_Size rq, f_cas = ch_CasHash ch, f_plain = vq_CasHash rq, f_deleted = False\<rparr>]\<rparr>,
                             Deduplicated (ch_CasHash ch) fileID))))"

definition GetStatus :: "UploadEnv \<Rightarrow> string \<Rightarrow> bool \<Rightarrow> UploadController \<Rightarrow> UploadController \<times> upload_response" where
  "GetStatus env sessionID unlocked st =
     (case GetSession (u_sm st) sessionID of
        None \<Rightarrow>
          (case u_completed st sessionID of
             None \<Rightarrow> (st, HttpError 404)
           | Some completedAt \<Rightarrow>
               if e_now env - completedAt < 2 * Minute then (st, StatusCompleted)
               else (st\<lparr>u_completed := (u_completed st)(sessionID := None)\<rparr>, HttpError 404))
      | Some s \<Rightarrow>
          if e_isVault env (s_FolderID s) \<and> \<not> unlocked then (st, HttpError 401)
          else (st, StatusIncomplete (s_UploadedSize s) (s_ExpectedSize s)))"

definition AbortSession :: "UploadEnv \<Rightarrow> string \<Rightarrow> bool \<Rightarrow> UploadController \<Rightarrow> UploadController \<times> upload_response" where
  "AbortSession env sessionID unlocked st =
     (case GetSession (u_sm st) sessionID of
        None \<Rightarrow> (st, HttpError 404)
      | Some s \<Rightarrow>
          if e_isVault env (s_FolderID s) \<and> \<not> unlocked then (st, HttpError 401)
          else
            (case DeleteSession (e_fails env) sessionID (u_sm st, u_fs st) of (sm, fs) \<Rightarrow>
               (st\<lparr>u_sm := sm, u_completed := (u_completed st)(sessionID := None),
                   u_fs := (if s_TempFilePath s \<noteq> [] then os_Remove (e_fails env) (s_TempFilePath s) fs else fs)\<rparr>,
                Aborted)))"

definition PruneCompletedSessions :: "UploadEnv \<Rightarrow> duration \<Rightarrow> UploadController \<Rightarrow> UploadController" where
  "PruneCompletedSessions env ttl st =
     st\<lparr>u_completed := map_drop_if (\<lambda>_ t. e_now env - t > ttl) (u_completed st)\<rparr>"

definition PurgeAllSessions :: "UploadEnv \<Rightarrow> (fs \<Rightarrow> string list option) \<Rightarrow> UploadController \<Rightarrow> UploadController" where
  "PurgeAllSessions env listing st =
     (case PurgeAll (e_fails env) (e_order env) listing (u_sm st, u_fs st) of ((sm, fs), _) \<Rightarrow>
        st\<lparr>u_sm := sm, u_fs := fs, u_completed := Map.empty\<rparr>)"

section \<open>The buffered file\<close>

text \<open>On a disk with room, what is on disk and in the buffer grows by exactly the bytes written.\<close>

definition roomy :: "bufio \<Rightarrow> bool" where
  "roomy b \<longleftrightarrow> bw_room b = None \<and> \<not> bw_err b \<and> length (bw_buf b) \<le> bufio_size"

lemma bufio_Flush_roomy:
  assumes "bw_room b = None" "\<not> bw_err b"
  shows "bufio_Flush b = b\<lparr>bw_disk := bw_disk b @ bw_buf b, bw_buf := []\<rparr>"
  using assms by (cases "bw_buf b") (simp_all add: bufio_Flush_def disk_write_def)

lemma bufio_Write_roomy:
  assumes "roomy b"
  shows "\<exists>b'. bufio_Write p b = (b', True) \<and> roomy b' \<and>
           bw_disk b' @ bw_buf b' = bw_disk b @ bw_buf b @ p"
  using assms
proof (induction p b rule: bufio_Write.induct)
  case (1 p b)
  let ?n = "bufio_size - length (bw_buf b)"
  let ?b1 = "bufio_Flush (b\<lparr>bw_buf := bw_buf b @ take ?n p\<rparr>)"
  have r: "bw_room b = None" "\<not> bw_err b" "length (bw_buf b) \<le> bufio_size"
    using "1.prems" by (simp_all add: roomy_def)
  have b1: "?b1 = b\<lparr>bw_disk := bw_disk b @ bw_buf b @ take ?n p, bw_buf := []\<rparr>"
    using r by (subst bufio_Flush_roomy) simp_all
  consider "length p \<le> ?n" | "length p > ?n" "bw_buf b = []" | "length p > ?n" "bw_buf b \<noteq> []"
    by linarith
  then show ?case
  proof cases
    case 1
    then show ?thesis using r by (subst bufio_Write.simps) (auto simp: roomy_def)
  next
    case 2
    then show ?thesis using r by (subst bufio_Write.simps) (auto simp: roomy_def disk_write_def)
  next
    case 3
    have "roomy ?b1" using r by (simp add: b1 roomy_def)
    then obtain b' where b': "bufio_Write (drop ?n p) ?b1 = (b', True)" "roomy b'"
      "bw_disk b' @ bw_buf b' = bw_disk ?b1 @ bw_buf ?b1 @ drop ?n p"
      using "1.IH" [OF r(2) 3(1,2) refl refl] r by (auto simp: b1)
    have "bufio_Write p b = (b', True)"
      using r 3 b'(1) by (subst bufio_Write.simps) (simp add: b1 Let_def)
    with b' show ?thesis by (simp add: b1)
  qed
qed

lemma copy_pieces_roomy:
  assumes "roomy b"
  shows "\<exists>b'. copy_pieces key ps b w = (b', w + int (length (concat ps)), True) \<and> roomy b' \<and>
           bw_disk b' @ bw_buf b' =
             bw_disk b @ bw_buf b @ frames (cipher_NewGCM key) key (filter (\<lambda>p. p \<noteq> []) ps)"
  using assms
proof (induction ps arbitrary: b w)
  case (Cons p ps)
  show ?case
  proof (cases "p = []")
    case True
    then show ?thesis using Cons by simp
  next
    case False
    obtain b1 where b1: "bufio_Write (packet (cipher_NewGCM key) key p) b = (b1, True)" "roomy b1"
      "bw_disk b1 @ bw_buf b1 = bw_disk b @ bw_buf b @ packet (cipher_NewGCM key) key p"
      using bufio_Write_roomy [OF Cons.prems] by blast
    from Cons.IH [OF b1(2), of "w + int (length p)"] obtain b' where
      "copy_pieces key ps b1 (w + int (length p)) = (b', w + int (length p) + int (length (concat ps)), True)"
      "roomy b'" "bw_disk b' @ bw_buf b' = (bw_disk b1 @ bw_buf b1) @ frames (cipher_NewGCM key) key (filter (\<lambda>p. p \<noteq> []) ps)"
      by auto
    then show ?thesis using False b1(1) unfolding b1(3) by (simp add: add.assoc)
  qed
qed simp

lemma concat_limit_pieces: "concat (limit_pieces n ps) = take n (concat ps)"
  by (induction n ps rule: limit_pieces.induct) auto

lemma set_limit_pieces: "q \<in> set (limit_pieces n ps) \<Longrightarrow> \<exists>p \<in> set ps. length q \<le> length p"
  by (induction n ps rule: limit_pieces.induct) (auto split: if_splits)

text \<open>The packets one request adds.\<close>

definition new_pieces :: "ChunkRequest \<Rightarrow> int \<Rightarrow> bytes list" where
  "new_pieces rq remaining = filter (\<lambda>p. p \<noteq> []) (limit_pieces (nat (wrap64 (remaining + 1))) (cr_body rq))"

lemma write_chunk_roomy:
  assumes "e_room env = None"
  shows "write_chunk env key rq remaining disk =
     (disk @ frames (cipher_NewGCM key) key (new_pieces rq remaining), int (length (concat (new_pieces rq remaining))),
      \<not> (cr_bodyErr rq \<and> length (concat (cr_body rq)) < nat (wrap64 (remaining + 1))))"
proof -
  let ?b = "\<lparr>bw_disk = disk, bw_room = e_room env, bw_buf = [], bw_err = False\<rparr>"
  let ?ps = "limit_pieces (nat (wrap64 (remaining + 1))) (cr_body rq)"
  have "roomy ?b" using assms by (simp add: roomy_def)
  from copy_pieces_roomy [OF this, of key ?ps 0] obtain b' where
    b': "copy_pieces key ?ps ?b 0 = (b', int (length (concat ?ps)), True)" "roomy b'"
    "bw_disk b' @ bw_buf b' = disk @ frames (cipher_NewGCM key) key (new_pieces rq remaining)"
    by (auto simp: new_pieces_def)
  have "concat (new_pieces rq remaining) = concat ?ps"
    by (simp only: new_pieces_def concat_filter_nonempty)
  then show ?thesis
    using b' by (simp add: write_chunk_def Let_def bufio_Flush_roomy roomy_def del: length_concat)
qed

section \<open>An upload in progress\<close>

text \<open>The session \<open>s0\<close> has received the bytes \<open>x\<close>: its temporary file holds packets of exactly those bytes
  under the key, and its counter is their number. Only the counter and the time of the last activity
  change while it runs.\<close>

definition received :: "Session \<Rightarrow> bytes \<Rightarrow> instant \<Rightarrow> Session" where
  "received s0 x t = s0\<lparr>s_UploadedSize := int (length x), s_LastActiveAt := t\<rparr>"

definition framed :: "bytes \<Rightarrow> bytes \<Rightarrow> bytes \<Rightarrow> bool" where
  "framed key x d \<longleftrightarrow> (\<exists>ps. d = frames (cipher_NewGCM key) key ps \<and> list_all chunk_ok ps \<and> concat ps = x)"

definition paths_apart :: "Session \<Rightarrow> UploadController \<Rightarrow> bool" where
  "paths_apart s0 st \<longleftrightarrow>
     (let metaP = metaPath (u_sm st) (s_ID s0)
      in outside_store (u_cas st, u_fs st) (s_TempFilePath s0) \<and> outside_store (u_cas st, u_fs st) metaP \<and>
         metaP \<noteq> s_TempFilePath s0)"

text \<open>A session announced with the largest \<^verbatim>\<open>int64\<close> takes no bytes: the limit of its first request wraps
  around. Every smaller one takes the body of a request.\<close>

definition takes_bytes :: "Session \<Rightarrow> bool" where
  "takes_bytes s0 \<longleftrightarrow> s_ExpectedSize s0 < 2 ^ 63 - 1"

definition accepted :: "Session \<Rightarrow> ChunkRequest \<Rightarrow> bytes" where
  "accepted s0 rq = (if takes_bytes s0 then concat (cr_body rq) else [])"

definition receiving :: "Session \<Rightarrow> bytes \<Rightarrow> bytes \<Rightarrow> UploadController \<Rightarrow> bool" where
  "receiving s0 key x st \<longleftrightarrow>
     (\<exists>t d. GetSession (u_sm st) (s_ID s0) = Some (received s0 x t) \<and> u_fs st (s_TempFilePath s0) = Some d \<and>
        framed key x d) \<and>
     int (length x) \<le> s_ExpectedSize s0 \<and> s_ExpectedSize s0 < 2 ^ 63 \<and> (takes_bytes s0 \<or> x = []) \<and>
     cas_inv (u_cas st, u_fs st) \<and> paths_apart s0 st"

text \<open>The blob with this hash is an encryption of the bytes \<open>y\<close>, and decrypts to them through any reader and any buffer.\<close>

definition blob_reads :: "bytes \<Rightarrow> string \<Rightarrow> bytes \<Rightarrow> UploadController \<Rightarrow> bool" where
  "blob_reads key h y st \<longleftrightarrow>
     (\<exists>d. blob_at (u_cas st, u_fs st) h = Some d \<and> hash_of d = h \<and> framed key y d \<and>
        (\<forall>kind n. 0 < n \<longrightarrow>
           (\<exists>ds. NewDecryptStream (new_reader kind d) key = Inr ds \<and> read_all n ds = (y, Some EOF))))"

text \<open>What a request relies on: the disk has room and truncates, files can be removed and looked up, and
  the copy buffer bounds the pieces of the body. Every other call may fail.\<close>

definition benign :: "UploadEnv \<Rightarrow> ChunkRequest \<Rightarrow> bool" where
  "benign env rq \<longleftrightarrow>
     e_room env = None \<and> \<not> e_truncFails env \<and> (\<forall>p. \<not> e_fails env (RemoveCall p) \<and> \<not> e_fails env (StatCall p)) \<and>
     list_all (\<lambda>p. length p \<le> 1024 * 1024) (cr_body rq)"

lemma received_sel [simp]:
  "s_ID (received s0 x t) = s_ID s0" "s_TempFilePath (received s0 x t) = s_TempFilePath s0"
  "s_ExpectedSize (received s0 x t) = s_ExpectedSize s0" "s_UploadedSize (received s0 x t) = int (length x)"
  "s_FolderID (received s0 x t) = s_FolderID s0" "s_OwnerID (received s0 x t) = s_OwnerID s0"
  "s_Filename (received s0 x t) = s_Filename s0" "s_MimeType (received s0 x t) = s_MimeType s0"
  "s_PlaintextHash (received s0 x t) = s_PlaintextHash s0"
  by (simp_all add: received_def)

lemma chunk_key_received [simp]: "chunk_key env rq (received s0 x t) = chunk_key env rq s0"
  by (simp add: chunk_key_def)

lemma framed_Nil [simp]: "framed key [] []"
  unfolding framed_def by (intro exI [of _ "[]"]) simp

lemma framed_append:
  assumes "framed key x d" "list_all chunk_ok qs"
  shows "framed key (x @ concat qs) (d @ frames (cipher_NewGCM key) key qs)"
proof -
  from assms(1) obtain ps where "d = frames (cipher_NewGCM key) key ps" "list_all chunk_ok ps" "concat ps = x"
    by (auto simp: framed_def)
  then show ?thesis unfolding framed_def
    using assms(2) by (intro exI [of _ "ps @ qs"]) (auto simp: frames_def)
qed

lemma framed_reads:
  assumes "framed key x d" "aes_NewCipher key \<noteq> None" "0 < n"
  shows "\<exists>ds. NewDecryptStream (new_reader kind d) key = Inr ds \<and> read_all n ds = (x, Some EOF)"
proof -
  from assms(1) obtain ps where ps: "d = frames (cipher_NewGCM key) key ps" "list_all chunk_ok ps" "concat ps = x"
    by (auto simp: framed_def)
  have at: "stream_upto (fresh_stream kind key (frames (cipher_NewGCM key) key ps @ [])) key ps []"
    using ps(2) by (rule fresh_stream_upto)
  have "read_all n (fresh_stream kind key d) = (x, Some EOF)"
    using aes_gcm.read_all_upto [OF _ at assms(3) aes_gcm.tail_error_Nil] ps by simp
  with NewDecryptStream_fresh [OF assms(2)] show ?thesis by blast
qed

lemma new_pieces_chunk_ok:
  assumes "benign env rq"
  shows "list_all chunk_ok (new_pieces rq remaining)"
proof -
  have "length q \<le> 1024 * 1024" if "q \<in> set (new_pieces rq remaining)" for q
    using that assms set_limit_pieces [of q "nat (wrap64 (remaining + 1))" "cr_body rq"]
    by (fastforce simp: new_pieces_def benign_def list_all_iff)
  then show ?thesis by (force simp: list_all_iff chunk_ok_def MaxChunkSize_def)
qed

lemma limit_small: "0 \<le> remaining \<Longrightarrow> remaining < 2 ^ 63 - 1 \<Longrightarrow> wrap64 (remaining + 1) = remaining + 1"
  by (intro wrap64_id) (simp add: is_int64_def)

lemma limit_pieces_0 [simp]: "limit_pieces 0 ps = []"
  by (cases ps) simp_all

lemma new_pieces_largest [simp]: "new_pieces rq (2 ^ 63 - 1) = []"
  by (simp add: new_pieces_def wrap64_def)

lemma new_pieces_whole:
  assumes "0 \<le> remaining" "remaining < 2 ^ 63 - 1" "int (length (concat (new_pieces rq remaining))) \<le> remaining"
  shows "concat (new_pieces rq remaining) = concat (cr_body rq)"
proof -
  have "concat (new_pieces rq remaining) = take (nat (remaining + 1)) (concat (cr_body rq))"
    by (simp add: new_pieces_def limit_small [OF assms(1,2)] concat_filter_nonempty concat_limit_pieces)
  with assms show ?thesis by (simp add: min_def split: if_splits)
qed

text \<open>The bytes of a request in the session: no sum leaves \<^verbatim>\<open>int64\<close>, and what fits is the whole body.\<close>

lemma new_pieces_fit:
  assumes "int (length x) \<le> s_ExpectedSize s0" "s_ExpectedSize s0 < 2 ^ 63" "takes_bytes s0 \<or> x = []"
  shows "wrap64 (int (length x) + int (length (concat (new_pieces rq (s_ExpectedSize s0 - int (length x)))))) =
      int (length x) + int (length (concat (new_pieces rq (s_ExpectedSize s0 - int (length x)))))"
    and "int (length (x @ concat (new_pieces rq (s_ExpectedSize s0 - int (length x))))) \<le> s_ExpectedSize s0 \<Longrightarrow>
      concat (new_pieces rq (s_ExpectedSize s0 - int (length x))) = accepted s0 rq"
    and "takes_bytes s0 \<or> concat (new_pieces rq (s_ExpectedSize s0 - int (length x))) = []"
proof -
  let ?r = "s_ExpectedSize s0 - int (length x)"
  have c: "?r < 2 ^ 63 - 1 \<and> takes_bytes s0 \<or> new_pieces rq ?r = [] \<and> x = [] \<and> \<not> takes_bytes s0"
  proof (cases "takes_bytes s0")
    case False
    then have "?r = 2 ^ 63 - 1" using assms by (simp add: takes_bytes_def)
    then show ?thesis using False assms(3) by (simp only: new_pieces_largest simp_thms)
  qed (simp add: takes_bytes_def)
  have "length (concat (new_pieces rq ?r)) \<le> nat (?r + 1)" if "?r < 2 ^ 63 - 1"
    using that assms(1) limit_small [of ?r]
    by (simp add: new_pieces_def concat_filter_nonempty concat_limit_pieces del: length_concat)
  then have "is_int64 (int (length x) + int (length (concat (new_pieces rq ?r))))"
    using c assms(1,2) by (auto simp: is_int64_def takes_bytes_def simp del: length_concat)
  then show "wrap64 (int (length x) + int (length (concat (new_pieces rq ?r)))) =
      int (length x) + int (length (concat (new_pieces rq ?r)))" by (rule wrap64_id)
  show "concat (new_pieces rq ?r) = accepted s0 rq" if "int (length (x @ concat (new_pieces rq ?r))) \<le> s_ExpectedSize s0"
    using c that assms(1) new_pieces_whole [of ?r rq] by (auto simp: accepted_def simp del: length_concat)
  show "takes_bytes s0 \<or> concat (new_pieces rq ?r) = []" using c by auto
qed

lemma rewrite_same: "u_fs st p = Some d \<Longrightarrow> st\<lparr>u_fs := (u_fs st)(p \<mapsto> d)\<rparr> = st"
  by (cases st) (simp add: map_upd_triv)

lemma truncated_undo: "\<not> e_truncFails env \<Longrightarrow> truncated env disk (disk @ d) = disk"
  by (simp add: truncated_def)

text \<open>Writing outside the store keeps its invariant.\<close>

lemma PersistSession_fs:
  "\<exists>y. fst (PersistSession fails enc sm s fs) = fs(metaPath sm (s_ID s) := y)"
  by (auto simp: PersistSession_def os_WriteFile_def intro: exI [of _ "fs (metaPath sm (s_ID s))"] split: option.splits)

lemma metaPath_modify [simp]: "metaPath (modify_session sid f sm) = metaPath sm"
  by (simp add: metaPath_def modify_session_def fun_eq_iff)

lemma outside_store_fst: "outside_store (c, fs) p = outside_store (c, fs') p"
  by (simp add: outside_store_def)

text \<open>The accepted bytes of a request.\<close>

lemma receiving_more:
  assumes R: "receiving s0 key x st" and S: "GetSession (u_sm st) (s_ID s0) = Some (received s0 x t)"
    and D: "u_fs st (s_TempFilePath s0) = Some d" and ok: "list_all chunk_ok qs"
    and len: "int (length (x @ concat qs)) \<le> s_ExpectedSize s0" and small: "takes_bytes s0 \<or> concat qs = []"
  shows "receiving s0 key (x @ concat qs)
     (let s1 = (received s0 x t)\<lparr>s_UploadedSize := int (length x) + int (length (concat qs)), s_LastActiveAt := now\<rparr>;
          sm1 = modify_session (s_ID s0) (\<lambda>_. s1) (u_sm st)
      in st\<lparr>u_sm := sm1, u_fs := fst (PersistSession fails enc sm1 s1
             ((u_fs st)(s_TempFilePath s0 \<mapsto> d @ frames (cipher_NewGCM key) key qs)))\<rparr>)"
proof -
  let ?s1 = "(received s0 x t)\<lparr>s_UploadedSize := int (length x) + int (length (concat qs)), s_LastActiveAt := now\<rparr>"
  let ?sm1 = "modify_session (s_ID s0) (\<lambda>_. ?s1) (u_sm st)"
  let ?fs = "(u_fs st)(s_TempFilePath s0 \<mapsto> d @ frames (cipher_NewGCM key) key qs)"
  obtain y where y: "fst (PersistSession fails enc ?sm1 ?s1 ?fs) = ?fs(metaPath (u_sm st) (s_ID s0) := y)"
    using PersistSession_fs [of fails enc ?sm1 ?s1 ?fs] by auto
  have fr: "framed key (x @ concat qs) (d @ frames (cipher_NewGCM key) key qs)"
    using R D ok by (intro framed_append) (auto simp: receiving_def)
  have ap: "outside_store (u_cas st, u_fs st) (s_TempFilePath s0)"
    "outside_store (u_cas st, u_fs st) (metaPath (u_sm st) (s_ID s0))"
    "metaPath (u_sm st) (s_ID s0) \<noteq> s_TempFilePath s0"
    using R by (simp_all add: receiving_def paths_apart_def Let_def)
  have s1: "?s1 = received s0 (x @ concat qs) now"
    by (simp add: received_def del: length_concat)
  have g: "GetSession ?sm1 (s_ID s0) = Some (received s0 (x @ concat qs) now)"
    using S by (simp add: GetSession_def modify_session_def s1 [symmetric])
  have "cas_inv (u_cas st, ?fs)"
    using R ap(1) by (intro cas_inv_remove_temp) (auto simp: receiving_def)
  then have inv: "cas_inv (u_cas st, ?fs(metaPath (u_sm st) (s_ID s0) := y))"
    by (rule cas_inv_remove_temp) (use ap(2) in \<open>simp add: outside_store_def\<close>)
  have small': "takes_bytes s0 \<or> x @ concat qs = []" using small R by (auto simp: receiving_def)
  show ?thesis unfolding Let_def receiving_def
    using g fr ap len inv small' R [unfolded receiving_def]
    by (intro conjI exI [of _ now] exI [of _ "d @ frames (cipher_NewGCM key) key qs"])
      (simp_all add: y paths_apart_def outside_store_def Let_def del: length_concat length_append)
qed

text \<open>The end of an upload that has received everything: the move either leaves it as it was or stores its
  packets, and then the session's files go.\<close>

lemma move_fails:
  assumes R: "receiving s0 key y st"
    and calls: "\<And>p. \<not> e_fails env (RemoveCall p) \<and> \<not> e_fails env (StatCall p)"
    and M: "MoveToCASWithStatus (e_fails env) part (s_TempFilePath s0) (u_cas st, u_fs st) = ((c', fs'), None)"
  shows "receiving s0 key y (st\<lparr>u_cas := c', u_fs := fs'\<rparr>) \<and> cas_inv (c', fs')"
proof -
  note mo = move_outcome_sound [OF M]
  have inv: "cas_inv (u_cas st, u_fs st)" and ap: "outside_store (u_cas st, u_fs st) (s_TempFilePath s0)"
    using R by (simp_all add: receiving_def paths_apart_def Let_def)
  have inv': "cas_inv (c', fs')" using move_outcome_inv [OF mo inv ap] calls by blast
  have np: "s_TempFilePath s0 \<noteq> cas_Path (u_cas st) (hash_of d)" for d
    using outside_store_hash [OF ap, of d] by metis
  have "fs' (s_TempFilePath s0) = u_fs st (s_TempFilePath s0)"
    using mo np by cases (auto simp: os_Remove_def elim!: ComputeHash_Some)
  moreover have "c' = u_cas st" using mo by cases simp_all
  ultimately show ?thesis
    using R inv' by (auto simp: receiving_def paths_apart_def Let_def outside_store_def)
qed

lemma move_then_delete:
  assumes R: "receiving s0 key y st"
    and calls: "\<And>p. \<not> fails (RemoveCall p) \<and> \<not> fails (StatCall p)"
    and coll: "\<And>d d'. framed key y d \<Longrightarrow> blob_at (u_cas st, u_fs st) (hash_of d) = Some d' \<Longrightarrow> d' = d"
    and M: "MoveToCASWithStatus fails part (s_TempFilePath s0) (u_cas st, u_fs st) = ((c', fs'), Some (h, e))"
    and D: "DeleteSession fails (s_ID s0) (u_sm st, fs') = (sm1, fs1)"
  shows "cas_inv (c', fs1) \<and> fs1 (s_TempFilePath s0) = None \<and> GetSession sm1 (s_ID s0) = None \<and> IsValidHash h \<and>
    (\<exists>d. framed key y d \<and> blob_at (c', fs1) h = Some d \<and> hash_of d = h)"
proof -
  let ?temp = "s_TempFilePath s0" and ?meta = "metaPath (u_sm st) (s_ID s0)"
  note mo = move_outcome_sound [OF M]
  have inv: "cas_inv (u_cas st, u_fs st)" and ap: "outside_store (u_cas st, u_fs st) ?temp"
    "outside_store (u_cas st, u_fs st) ?meta"
    using R by (simp_all add: receiving_def paths_apart_def Let_def)
  have out': "outside_store (c', fs'') ?temp" "outside_store (c', fs'') ?meta" for fs''
    using ap move_outcome_dir [OF mo] by (simp_all add: outside_store_def)
  have inv': "cas_inv (c', fs')" using move_outcome_inv [OF mo inv ap(1)] calls by blast
  obtain d where d: "u_fs st ?temp = Some d" "h = hash_of d" "blob_at (c', fs') h \<noteq> None"
    "\<not> e \<Longrightarrow> blob_at (c', fs') h = Some d"
    using move_outcome_blob [OF mo inv ap(1)] by blast
  have fr: "framed key y d" using R d(1) by (auto simp: receiving_def)
  obtain t where S: "sessions (u_sm st) (s_ID s0) = Some (received s0 y t)"
    using R by (auto simp: receiving_def GetSession_def)
  have fs1: "fs1 = (fs'(?temp := None))(?meta := None)"
    using D by (simp add: DeleteSession_def unlink_session_def os_Remove_def S calls)
  obtain d' where d': "blob_at (c', fs') h = Some d'" using d(3) by blast
  have "d' = d"
  proof (cases e)
    case True
    have "blob_at (u_cas st, u_fs st) h = Some d'"
      using mo d' True move_outcome_dir [OF mo]
      by cases (auto simp: blob_at_def os_Remove_def split: if_splits)
    then show ?thesis using coll [OF fr] d(2) by simp
  qed (use d(4) d' in simp)
  moreover have "blob_at (c', fs1) h = blob_at (c', fs') h"
    using out' by (auto simp: fs1 blob_at_def outside_store_def)
  moreover have "cas_inv (c', fs1)"
    unfolding fs1 by (intro cas_inv_remove_temp [OF cas_inv_remove_temp [OF inv']] out')
  moreover have "GetSession sm1 (s_ID s0) = None" using D by (auto simp: DeleteSession_def GetSession_def)
  ultimately show ?thesis using d(2) d' fr by (auto simp: fs1)
qed

lemma cas_inv_forget:
  assumes "cas_inv (c, fs)" "IsValidHash h" "\<not> fails (RemoveCall (cas_Path c h))"
  shows "cas_inv (cas_Invalidate h c, os_Remove fails (cas_Path c h) fs)"
proof -
  have "cas_inv (cas_Invalidate h c, fs)" "h \<notin> existCache (cas_Invalidate h c)"
    using assms(1) by (auto simp: cas_inv_def cas_Invalidate_def)
  from cas_inv_drop_blob [OF this(1) assms(2) this(2)] show ?thesis
    using assms(3) by (simp add: os_Remove_def cas_Invalidate_def)
qed

definition recorded :: "Session \<Rightarrow> string \<Rightarrow> FileRow list \<Rightarrow> FileRow list \<Rightarrow> bool" where
  "recorded s0 h rows rows' \<longleftrightarrow>
     (\<exists>row. rows' = rows @ [row] \<and> f_cas row = h \<and> f_size row = s_ExpectedSize s0 \<and> f_owner row = s_OwnerID s0 \<and>
        f_folder row = (if s_FolderID s0 \<noteq> [] \<and> s_FolderID s0 \<noteq> ''root'' then s_FolderID s0 else []) \<and>
        f_name row = s_Filename s0 \<and> f_plain row = s_PlaintextHash s0 \<and> \<not> f_deleted row)"

lemma finish_upload_moves:
  assumes R: "receiving s0 key y st" and len: "int (length y) = s_ExpectedSize s0"
    and key: "aes_NewCipher key \<noteq> None"
    and calls: "\<And>p. \<not> e_fails env (RemoveCall p) \<and> \<not> e_fails env (StatCall p)"
    and coll: "\<And>d d'. framed key y d \<Longrightarrow> blob_at (u_cas st, u_fs st) (hash_of d) = Some d' \<Longrightarrow> d' = d"
    and F: "finish_upload env (received s0 y t) st = (st', r)"
  shows "cas_inv (u_cas st', u_fs st') \<and>
    ((r = HttpError 500 \<and> u_files st' = u_files st \<and>
       (receiving s0 key y st' \<or> GetSession (u_sm st') (s_ID s0) = None)) \<or>
     (\<exists>h. r = UploadCompleted h \<and> blob_reads key h y st' \<and> GetSession (u_sm st') (s_ID s0) = None \<and>
       u_fs st' (s_TempFilePath s0) = None \<and> recorded s0 h (u_files st) (u_files st')))"
proof -
  obtain c' fs' m where M: "MoveToCASWithStatus (e_fails env) (e_part env) (s_TempFilePath s0) (u_cas st, u_fs st) = ((c', fs'), m)"
    by (metis prod.exhaust)
  show ?thesis
  proof (cases m)
    case None
    then show ?thesis
      using move_fails [OF R calls M [unfolded None]] F M by (auto simp: finish_upload_def)
  next
    case (Some he)
    obtain h e where he: "he = (h, e)" by fastforce
    obtain sm1 fs1 where D: "DeleteSession (e_fails env) (s_ID s0) (u_sm st, fs') = (sm1, fs1)" by fastforce
    note fin = move_then_delete [OF R calls coll M [unfolded Some he] D]
    show ?thesis
    proof (cases "e_insertFails env")
      case True
      have "cas_inv (cas_Invalidate h c', os_Remove (e_fails env) (cas_Path c' h) fs1)"
        using fin calls by (intro cas_inv_forget) auto
      moreover note F' = F [unfolded finish_upload_def received_sel M Some he Let_def D prod.case option.case if_P [OF True],
          unfolded prod.inject]
      ultimately show ?thesis using fin by (cases e) auto
    next
      case False
      note F' = F [unfolded finish_upload_def received_sel M Some he Let_def D prod.case option.case if_not_P [OF False],
          unfolded prod.inject]
      have st': "u_cas st' = c'" "u_fs st' = fs1" "u_sm st' = sm1" "r = UploadCompleted h"
        and rec: "recorded s0 h (u_files st) (u_files st')"
        using F' len by (auto simp: recorded_def)
      have "blob_reads key h y st'"
        using fin framed_reads [OF _ key] by (auto simp: blob_reads_def st')
      then show ?thesis using fin st' rec by auto
    qed
  qed
qed

text \<open>The exits of a request to an upload in progress: refused without a change, its bytes taken with more
  to come, or its bytes taken and the upload finished.\<close>

definition with_bytes :: "UploadEnv \<Rightarrow> Session \<Rightarrow> bytes \<Rightarrow> instant \<Rightarrow> bytes list \<Rightarrow> bytes \<Rightarrow> bytes \<Rightarrow> UploadController \<Rightarrow> UploadController" where
  "with_bytes env s0 x t qs key d st =
     (let s1 = (received s0 x t)\<lparr>s_UploadedSize := int (length x) + int (length (concat qs)), s_LastActiveAt := e_now env\<rparr>;
          sm1 = modify_session (s_ID s0) (\<lambda>_. s1) (u_sm st)
      in st\<lparr>u_sm := sm1, u_fs := fst (PersistSession (e_fails env) (e_enc env) sm1 s1
             ((u_fs st)(s_TempFilePath s0 \<mapsto> d @ frames (cipher_NewGCM key) key qs)))\<rparr>)"

lemma received_more:
  "(received s0 x t)\<lparr>s_UploadedSize := int (length x) + int (length (concat qs)), s_LastActiveAt := now\<rparr> =
   received s0 (x @ concat qs) now"
  by (simp add: received_def del: length_concat)

lemma UploadChunk_exits:
  assumes S: "GetSession (u_sm st) (s_ID s0) = Some (received s0 x t)" and sid: "cr_session rq = s_ID s0"
    and D: "u_fs st (s_TempFilePath s0) = Some d" and B: "benign env rq"
    and U: "UploadChunk env rq st = (st', r)"
    and len: "int (length x) \<le> s_ExpectedSize s0" "s_ExpectedSize s0 < 2 ^ 63" "takes_bytes s0 \<or> x = []"
  obtains (refused) "st' = st" "r \<in> range HttpError \<union> range AlreadyProcessed \<union> range OffsetMismatch"
  | (more) key where "admit env rq (received s0 x t) (u_files st) = Inr key"
      "let qs = new_pieces rq (s_ExpectedSize s0 - int (length x)); y = x @ concat qs in
         int (length y) < s_ExpectedSize s0 \<and> st' = with_bytes env s0 x t qs key d st \<and> r = ChunkIncomplete (int (length y))"
  | (last) key where "admit env rq (received s0 x t) (u_files st) = Inr key"
      "let qs = new_pieces rq (s_ExpectedSize s0 - int (length x)); y = x @ concat qs in
         int (length y) = s_ExpectedSize s0 \<and>
         finish_upload env (received s0 y (e_now env)) (with_bytes env s0 x t qs key d st) = (st', r)"
proof -
  let ?qs = "new_pieces rq (s_ExpectedSize s0 - int (length x))"
  note B' = B [unfolded benign_def, THEN conjunct1] B [unfolded benign_def, THEN conjunct2, THEN conjunct1]
  note U' = U [unfolded UploadChunk_def sid S option.case received_sel Let_def D rewrite_same [OF D]
      write_chunk_roomy [OF B'(1)] prod.case truncated_undo [OF B'(2)] new_pieces_fit(1) [OF len]]
  show thesis
  proof (cases "range_check rq (received s0 x t)")
    case (Some q)
    then have "q \<in> range AlreadyProcessed \<union> range OffsetMismatch"
      by (auto simp: range_check_def split: option.splits if_splits)
    then show thesis using refused U' Some by auto
  next
    case None
    show thesis
    proof (cases "admit env rq (received s0 x t) (u_files st)")
      case (Inl q)
      then have "q \<in> range HttpError"
        by (auto simp: admit_def split: option.splits if_splits)
      then show thesis using refused U' None Inl by (auto split: if_splits)
    next
      case (Inr key)
      note U'' = U' [unfolded None Inr option.case sum.case]
      let ?n = "int (length (x @ concat ?qs))"
      consider "st' = st" "r \<in> range HttpError"
        | "?n < s_ExpectedSize s0" "st' = with_bytes env s0 x t ?qs key d st" "r = ChunkIncomplete ?n"
        | "?n = s_ExpectedSize s0"
          "finish_upload env (received s0 (x @ concat ?qs) (e_now env)) (with_bytes env s0 x t ?qs key d st) = (st', r)"
        using U'' unfolding with_bytes_def received_more received_sel Let_def
        by (auto simp del: length_concat split: if_splits)
      then show thesis using refused more [OF Inr] last [OF Inr] by cases (auto simp: Let_def)
    qed
  qed
qed

lemma with_bytes_receiving:
  assumes R: "receiving s0 key x st" and S: "GetSession (u_sm st) (s_ID s0) = Some (received s0 x t)"
    and D: "u_fs st (s_TempFilePath s0) = Some d" and ok: "list_all chunk_ok qs"
    and len: "int (length (x @ concat qs)) \<le> s_ExpectedSize s0" and small: "takes_bytes s0 \<or> concat qs = []"
  shows "receiving s0 key (x @ concat qs) (with_bytes env s0 x t qs key d st)"
  unfolding with_bytes_def by (rule receiving_more [OF assms])

lemma with_bytes_blobs:
  assumes "paths_apart s0 st"
  shows "blob_at (u_cas st, u_fs (with_bytes env s0 x t qs key d st)) = blob_at (u_cas st, u_fs st)"
    and "u_cas (with_bytes env s0 x t qs key d st) = u_cas st"
    and "u_files (with_bytes env s0 x t qs key d st) = u_files st"
proof -
  let ?s1 = "received s0 (x @ concat qs) (e_now env)"
  let ?sm1 = "modify_session (s_ID s0) (\<lambda>_. ?s1) (u_sm st)"
  let ?fs = "(u_fs st)(s_TempFilePath s0 \<mapsto> d @ frames (cipher_NewGCM key) key qs)"
  obtain y where "fst (PersistSession (e_fails env) (e_enc env) ?sm1 ?s1 ?fs) = ?fs(metaPath (u_sm st) (s_ID s0) := y)"
    using PersistSession_fs [of "e_fails env" "e_enc env" ?sm1 ?s1 ?fs] by auto
  then show "blob_at (u_cas st, u_fs (with_bytes env s0 x t qs key d st)) = blob_at (u_cas st, u_fs st)"
    using assms
    by (auto simp: with_bytes_def received_more blob_at_def fun_eq_iff paths_apart_def outside_store_def Let_def)
qed (simp_all add: with_bytes_def Let_def)

lemma admit_key:
  "admit env rq s rows = Inr key \<Longrightarrow> chunk_key env rq s = Some key \<and> aes_NewCipher key \<noteq> None"
  by (auto simp: admit_def split: option.splits if_splits)

text \<open>The abstract upload: what a response says about the bytes \<open>y\<close> the session would have received.\<close>

definition chunk_spec :: "Session \<Rightarrow> bytes \<Rightarrow> bytes \<Rightarrow> UploadController \<Rightarrow> UploadController \<Rightarrow> upload_response \<Rightarrow> bool" where
  "chunk_spec s0 key y st st' r =
    (case r of
      ChunkIncomplete n \<Rightarrow> receiving s0 key y st' \<and> n = int (length y) \<and> n < s_ExpectedSize s0 \<and>
        u_files st' = u_files st \<and> blob_at (u_cas st', u_fs st') = blob_at (u_cas st, u_fs st)
    | UploadCompleted h \<Rightarrow> int (length y) = s_ExpectedSize s0 \<and> blob_reads key h y st' \<and>
        recorded s0 h (u_files st) (u_files st') \<and> GetSession (u_sm st') (s_ID s0) = None \<and>
        u_fs st' (s_TempFilePath s0) = None \<and> cas_inv (u_cas st', u_fs st')
    | HttpError code \<Rightarrow> st' = st \<or>
        (code = 500 \<and> int (length y) = s_ExpectedSize s0 \<and> u_files st' = u_files st \<and> cas_inv (u_cas st', u_fs st') \<and>
         (receiving s0 key y st' \<or> GetSession (u_sm st') (s_ID s0) = None))
    | _ \<Rightarrow> st' = st)"

lemma chunk_step:
  assumes R: "receiving s0 key x st" and sid: "cr_session rq = s_ID s0" and B: "benign env rq"
    and K: "chunk_key env rq s0 \<in> {None, Some key}" and U: "UploadChunk env rq st = (st', r)"
    and y: "y = x @ accepted s0 rq"
    and coll: "\<And>d d'. framed key y d \<Longrightarrow> blob_at (u_cas st, u_fs st) (hash_of d) = Some d' \<Longrightarrow> d' = d"
  shows "chunk_spec s0 key y st st' r"
proof -
  obtain t d where S: "GetSession (u_sm st) (s_ID s0) = Some (received s0 x t)" and D: "u_fs st (s_TempFilePath s0) = Some d"
    and len: "int (length x) \<le> s_ExpectedSize s0" "s_ExpectedSize s0 < 2 ^ 63" "takes_bytes s0 \<or> x = []"
    and ap: "paths_apart s0 st"
    using R by (auto simp: receiving_def)
  let ?qs = "new_pieces rq (s_ExpectedSize s0 - int (length x))"
  have ok: "list_all chunk_ok ?qs" using B by (rule new_pieces_chunk_ok)
  have whole: "x @ concat ?qs = y" if "int (length (x @ concat ?qs)) \<le> s_ExpectedSize s0"
    using new_pieces_fit(2) [OF len that] by (simp add: y)
  note small = new_pieces_fit(3) [OF len, of rq]
  from S sid D B U len show ?thesis
  proof (cases rule: UploadChunk_exits)
    case refused
    then show ?thesis by (auto simp: chunk_spec_def split: upload_response.splits)
  next
    case (more k)
    then have k: "k = key" using admit_key [of env rq _ _ k] K by fastforce
    have e: "int (length (x @ concat ?qs)) \<le> s_ExpectedSize s0" using more(2) unfolding Let_def by linarith
    note R' = with_bytes_receiving [OF R S D ok e small]
    show ?thesis
      using more(2) [unfolded Let_def whole [OF e]] with_bytes_blobs [OF ap] R' [unfolded whole [OF e]] by (simp add: k chunk_spec_def)
  next
    case (last k)
    then have k: "k = key" "aes_NewCipher key \<noteq> None" using admit_key [of env rq _ _ k] K by fastforce+
    have e: "int (length (x @ concat ?qs)) \<le> s_ExpectedSize s0" using last(2) unfolding Let_def by linarith
    note R' = with_bytes_receiving [OF R S D ok e small, of env, unfolded whole [OF e]]
    have n: "int (length y) = s_ExpectedSize s0"
      and F: "finish_upload env (received s0 y (e_now env)) (with_bytes env s0 x t ?qs key d st) = (st', r)"
      using last(2) by (simp_all only: Let_def k whole [OF e])
    have calls: "\<not> e_fails env (RemoveCall p) \<and> \<not> e_fails env (StatCall p)" for p
      using B by (simp add: benign_def)
    note fin = finish_upload_moves [OF R' n k(2) calls _ F, unfolded with_bytes_blobs [OF ap], OF coll]
    then show ?thesis using n by (auto simp: chunk_spec_def)
  qed
qed

text \<open>A client's sequence of requests, and the bytes the server acknowledged.\<close>

fun upload_all :: "(UploadEnv \<times> ChunkRequest) list \<Rightarrow> UploadController \<Rightarrow> UploadController \<times> upload_response list" where
  "upload_all [] st = (st, [])"
| "upload_all ((env, rq) # rqs) st =
     (case UploadChunk env rq st of (st1, r) \<Rightarrow>
        case upload_all rqs st1 of (st2, rs) \<Rightarrow> (st2, r # rs))"

definition taken :: "ChunkRequest \<Rightarrow> upload_response \<Rightarrow> bytes" where
  "taken rq r = (case r of ChunkIncomplete _ \<Rightarrow> concat (cr_body rq) | UploadCompleted _ \<Rightarrow> concat (cr_body rq) | _ \<Rightarrow> [])"

fun acknowledged :: "(UploadEnv \<times> ChunkRequest) list \<Rightarrow> upload_response list \<Rightarrow> bytes" where
  "acknowledged ((env, rq) # rqs) (r # rs) = taken rq r @ acknowledged rqs rs"
| "acknowledged _ _ = []"

definition client_of :: "Session \<Rightarrow> bytes \<Rightarrow> UploadEnv \<times> ChunkRequest \<Rightarrow> bool" where
  "client_of s0 key = (\<lambda>(env, rq). cr_session rq = s_ID s0 \<and> benign env rq \<and> chunk_key env rq s0 \<in> {None, Some key})"

definition unfinished :: "upload_response \<Rightarrow> bool" where
  "unfinished r \<longleftrightarrow> r \<notin> range UploadCompleted \<and> r \<noteq> HttpError 500"

lemma unfinished_step:
  assumes "receiving s0 key x st" "takes_bytes s0" "client_of s0 key (env, rq)" "UploadChunk env rq st = (st', r)" "unfinished r"
  shows "receiving s0 key (x @ taken rq r) st' \<and> u_files st' = u_files st \<and>
         blob_at (u_cas st', u_fs st') = blob_at (u_cas st, u_fs st)"
proof -
  obtain t d where S: "GetSession (u_sm st) (s_ID s0) = Some (received s0 x t)" and D: "u_fs st (s_TempFilePath s0) = Some d"
    and len: "int (length x) \<le> s_ExpectedSize s0" "s_ExpectedSize s0 < 2 ^ 63" "takes_bytes s0 \<or> x = []"
    and ap: "paths_apart s0 st"
    using assms(1) by (auto simp: receiving_def)
  let ?qs = "new_pieces rq (s_ExpectedSize s0 - int (length x))"
  have c: "cr_session rq = s_ID s0" "benign env rq" "chunk_key env rq s0 \<in> {None, Some key}"
    using assms(3) by (simp_all add: client_of_def)
  from S c(1) D c(2) assms(4) len show ?thesis
  proof (cases rule: UploadChunk_exits)
    case refused
    then show ?thesis using assms(1) by (auto simp: taken_def)
  next
    case (more k)
    then have k: "k = key" using admit_key [of env rq _ _ k] c(3) by fastforce
    have e: "int (length (x @ concat ?qs)) \<le> s_ExpectedSize s0" using more(2) unfolding Let_def by linarith
    have w: "concat ?qs = concat (cr_body rq)"
      using new_pieces_fit(2) [OF len e] assms(2) by (simp add: accepted_def)
    note R' = with_bytes_receiving [OF assms(1) S D new_pieces_chunk_ok [OF c(2)] e new_pieces_fit(3) [OF len]]
    show ?thesis
      using more(2) with_bytes_blobs [OF ap] R' by (simp add: k Let_def w taken_def)
  next
    case (last k)
    then obtain s1 st1 where "finish_upload env s1 st1 = (st', r)" by (auto simp: Let_def)
    then have "\<not> unfinished r"
      by (auto simp: finish_upload_def unfinished_def Let_def split: option.splits prod.splits if_splits)
    then show ?thesis using assms(5) by simp
  qed
qed

lemma unfinished_run:
  assumes "receiving s0 key x st" "takes_bytes s0" "list_all (client_of s0 key) rqs" "upload_all rqs st = (st', rs)"
    "list_all unfinished rs"
  shows "receiving s0 key (x @ acknowledged rqs rs) st' \<and> u_files st' = u_files st \<and>
         blob_at (u_cas st', u_fs st') = blob_at (u_cas st, u_fs st)"
  using assms
proof (induction rqs arbitrary: x st rs)
  case (Cons a rqs)
  obtain env rq where a: "a = (env, rq)" by fastforce
  obtain st1 r rs1 where 1: "UploadChunk env rq st = (st1, r)" "upload_all rqs st1 = (st', rs1)" "rs = r # rs1"
    using Cons.prems(4) by (auto simp: a split: prod.splits)
  have "receiving s0 key (x @ taken rq r) st1 \<and> u_files st1 = u_files st \<and>
        blob_at (u_cas st1, u_fs st1) = blob_at (u_cas st, u_fs st)"
    using Cons.prems 1 by (intro unfinished_step) (auto simp: a)
  with Cons.IH [of "x @ taken rq r", OF _ _ _ 1(2)] Cons.prems show ?case by (simp add: a 1(3))
qed simp

text \<open>A session of the largest size stays as empty as it was, and no request completes it.\<close>

lemma largest_step:
  assumes R: "receiving s0 key [] st" and corner: "\<not> takes_bytes s0" and c: "client_of s0 key (env, rq)"
    and U: "UploadChunk env rq st = (st', r)"
  shows "receiving s0 key [] st' \<and> (r = ChunkIncomplete 0 \<or> st' = st \<and> r \<notin> range UploadCompleted)"
proof -
  obtain t d where S: "GetSession (u_sm st) (s_ID s0) = Some (received s0 [] t)" and D: "u_fs st (s_TempFilePath s0) = Some d"
    and len: "int (length ([] :: bytes)) \<le> s_ExpectedSize s0" "s_ExpectedSize s0 < 2 ^ 63" "takes_bytes s0 \<or> [] = ([] :: bytes)"
    using R by (auto simp: receiving_def)
  let ?qs = "new_pieces rq (s_ExpectedSize s0 - int (length ([] :: bytes)))"
  have c': "cr_session rq = s_ID s0" "benign env rq" "chunk_key env rq s0 \<in> {None, Some key}"
    using c by (simp_all add: client_of_def)
  have qs: "concat ?qs = []" using new_pieces_fit(3) [OF len] corner by blast
  from S c'(1) D c'(2) U len show ?thesis
  proof (cases rule: UploadChunk_exits)
    case refused
    then show ?thesis using R by auto
  next
    case (more k)
    then have k: "k = key" using admit_key [of env rq _ _ k] c'(3) by fastforce
    have e: "int (length ([] @ concat ?qs)) \<le> s_ExpectedSize s0" unfolding qs using len(1) by simp
    note R' = with_bytes_receiving [OF R S D new_pieces_chunk_ok [OF c'(2)] e disjI2 [OF qs]]
    show ?thesis using more(2) R' unfolding Let_def qs k by simp
  next
    case (last k)
    then have "s_ExpectedSize s0 = 0" unfolding Let_def qs by simp
    then show ?thesis using corner by (simp add: takes_bytes_def)
  qed
qed

lemma largest_run:
  assumes "receiving s0 key [] st" "\<not> takes_bytes s0" "list_all (client_of s0 key) rqs" "upload_all rqs st = (st', rs)"
  shows "receiving s0 key [] st' \<and> set rs \<inter> range UploadCompleted = {}"
  using assms
proof (induction rqs arbitrary: st rs)
  case (Cons a rqs)
  obtain env rq where a: "a = (env, rq)" by fastforce
  obtain st1 r rs1 where 1: "UploadChunk env rq st = (st1, r)" "upload_all rqs st1 = (st', rs1)" "rs = r # rs1"
    using Cons.prems(4) by (auto simp: a split: prod.splits)
  from largest_step [OF Cons.prems(1,2) _ 1(1)] have "receiving s0 key [] st1" "r \<notin> range UploadCompleted"
    using Cons.prems(3) by (auto simp: a)
  with Cons.IH [OF _ _ _ 1(2)] Cons.prems show ?case by (auto simp: 1(3))
qed simp

lemma upload_all_append:
  "upload_all (rqs @ [(env, rq)]) st =
     (case upload_all rqs st of (st1, rs) \<Rightarrow> case UploadChunk env rq st1 of (st2, r) \<Rightarrow> (st2, rs @ [r]))"
  by (induction rqs arbitrary: st) (auto split: prod.splits)

lemma acknowledged_append:
  "length rqs = length rs \<Longrightarrow> acknowledged (rqs @ [(env, rq)]) (rs @ [r]) = acknowledged rqs rs @ taken rq r"
  by (induction rqs rs rule: list_induct2) auto

lemma length_upload_all: "upload_all rqs st = (st', rs) \<Longrightarrow> length rs = length rqs"
  by (induction rqs arbitrary: st rs) (auto split: prod.splits)

lemma move_no_faults:
  assumes "fs p = Some d"
  shows "\<exists>c' fs' e. MoveToCASWithStatus no_faults part p (c, fs) = ((c', fs'), Some (hash_of d, e))"
proof -
  obtain c1 b where "cas_Exists no_faults fs (hash_of d) c = (c1, b)" by fastforce
  then show ?thesis
    using assms by (cases b) (auto simp: MoveToCASWithStatus_def ComputeHash_def os_defs Let_def simp del: no_faults simp: no_faults)
qed

text \<open>Progress: a chunk in order that fits is taken when nothing fails.\<close>

definition smooth :: "Session \<Rightarrow> bytes \<Rightarrow> UploadEnv \<Rightarrow> ChunkRequest \<Rightarrow> bool" where
  "smooth s0 key env rq \<longleftrightarrow>
     e_fails env = no_faults \<and> e_room env = None \<and> \<not> e_seekFails env \<and> \<not> e_truncFails env \<and> \<not> e_insertFails env \<and>
     e_quota env \<le> 0 \<and> cr_session rq = s_ID s0 \<and> chunk_key env rq s0 = Some key \<and> \<not> cr_bodyErr rq \<and>
     concat (cr_body rq) \<noteq> [] \<and> list_all (\<lambda>p. length p \<le> 1024 * 1024) (cr_body rq)"

definition starts_at :: "nat \<Rightarrow> ChunkRequest \<Rightarrow> bool" where
  "starts_at n rq = (case parseContentRangeHeader (cr_range rq) of None \<Rightarrow> True | Some (a, _, _) \<Rightarrow> a = int n)"

fun in_order :: "nat \<Rightarrow> (UploadEnv \<times> ChunkRequest) list \<Rightarrow> bool" where
  "in_order n [] = True"
| "in_order n ((env, rq) # rqs) = (starts_at n rq \<and> in_order (n + length (concat (cr_body rq))) rqs)"

fun sent :: "(UploadEnv \<times> ChunkRequest) list \<Rightarrow> bytes" where
  "sent [] = []"
| "sent ((env, rq) # rqs) = concat (cr_body rq) @ sent rqs"

lemma range_check_in_order: "starts_at (length x) rq \<Longrightarrow> range_check rq (received s0 x t) = None"
  by (auto simp: starts_at_def range_check_def parseContentRangeHeader_def Let_def split: option.splits if_splits list.splits prod.splits)

lemma smooth_client: "smooth s0 key env rq \<Longrightarrow> client_of s0 key (env, rq)"
  by (simp add: smooth_def client_of_def benign_def)

lemma new_pieces_fits:
  "int (length (x @ concat (cr_body rq))) \<le> n \<Longrightarrow> n < 2 ^ 63 - 1 \<Longrightarrow>
   concat (new_pieces rq (n - int (length x))) = concat (cr_body rq)"
  by (simp add: new_pieces_def limit_small concat_filter_nonempty concat_limit_pieces del: length_concat)

lemma smooth_step:
  assumes R: "receiving s0 key x st" and small: "takes_bytes s0" and sm: "smooth s0 key env rq" and ord: "starts_at (length x) rq"
    and key: "aes_NewCipher key \<noteq> None" and y: "y = x @ concat (cr_body rq)" and fits: "int (length y) \<le> s_ExpectedSize s0"
  shows "\<exists>st1. receiving s0 key y st1 \<and> UploadChunk env rq st =
     (if int (length y) < s_ExpectedSize s0 then (st1, ChunkIncomplete (int (length y)))
      else finish_upload env (received s0 y (e_now env)) st1)"
proof -
  let ?qs = "new_pieces rq (s_ExpectedSize s0 - int (length x))"
  obtain t d where S: "GetSession (u_sm st) (s_ID s0) = Some (received s0 x t)" and D: "u_fs st (s_TempFilePath s0) = Some d"
    using R by (auto simp: receiving_def)
  have room: "e_room env = None" and B: "benign env rq"
    using sm smooth_client [OF sm] by (simp_all add: smooth_def client_of_def)
  have "length x < length y" using sm by (simp add: smooth_def y del: concat_eq_Nil_conv length_concat)
  then have pos: "0 < s_ExpectedSize s0" "int (length x) < s_ExpectedSize s0" using fits by linarith+
  have A: "admit env rq (received s0 x t) (u_files st) = Inr key"
    using sm pos key by (auto simp: smooth_def admit_def)
  have w: "concat ?qs = concat (cr_body rq)"
    using fits small unfolding y takes_bytes_def by (rule new_pieces_fits)
  have wr: "wrap64 (int (length y)) = int (length y)"
    using fits small by (intro wrap64_id) (simp add: is_int64_def takes_bytes_def)
  have n: "int (length x) + int (length (concat (cr_body rq))) = int (length y)" by (simp add: y del: length_concat)
  have f: "(received s0 x t)\<lparr>s_UploadedSize := int (length y), s_LastActiveAt := e_now env\<rparr> = received s0 y (e_now env)"
    by (simp add: received_def)
  have "receiving s0 key (x @ concat ?qs) (with_bytes env s0 x t ?qs key d st)"
    using fits unfolding y w [symmetric] by (rule with_bytes_receiving [OF R S D new_pieces_chunk_ok [OF B] _ disjI1 [OF small]])
  moreover have "UploadChunk env rq st =
     (if int (length y) < s_ExpectedSize s0 then (with_bytes env s0 x t ?qs key d st, ChunkIncomplete (int (length y)))
      else finish_upload env (received s0 y (e_now env)) (with_bytes env s0 x t ?qs key d st))"
    unfolding UploadChunk_def with_bytes_def received_more w y [symmetric]
    using sm S D fits range_check_in_order [OF ord, of s0 t]
    by (simp add: A write_chunk_roomy [OF room] w n wr f Let_def smooth_def del: length_concat)
  ultimately show ?thesis using w y by metis
qed

lemma finish_completes:
  assumes "e_fails env = no_faults" "\<not> e_insertFails env" "u_fs st (s_TempFilePath s) = Some d"
  shows "\<exists>st' h. finish_upload env s st = (st', UploadCompleted h)"
proof -
  obtain c' fs' e where
    "MoveToCASWithStatus no_faults (e_part env) (s_TempFilePath s) (u_cas st, u_fs st) = ((c', fs'), Some (hash_of d, e))"
    using move_no_faults [of "u_fs st" "s_TempFilePath s" d, OF assms(3)] by blast
  then show ?thesis
    unfolding finish_upload_def assms(1) using assms(2) by (auto simp: Let_def split: prod.splits)
qed

lemma wrap64_over:
  assumes "2 ^ 63 \<le> a" "a < 2 ^ 64"
  shows "wrap64 a = a - 2 ^ 64"
proof -
  have "(a + 2 ^ 63) mod 2 ^ 64 = (a - 2 ^ 63 + 2 ^ 64) mod 2 ^ 64" by (simp add: add.commute)
  also have "\<dots> = a - 2 ^ 63" unfolding mod_add_self2 using assms by (intro mod_pos_pos_trivial) simp_all
  finally show ?thesis by (simp add: wrap64_def)
qed

lemma no_late_413:
  "snd (open_session env rq folderID name st) \<noteq> HttpError 413"
  by (auto simp: open_session_def resume_or_create_def Let_def split: option.splits prod.splits if_splits)

section \<open>Properties\<close>

text \<open>C2: one \<^verbatim>\<open>UploadChunk\<close> request to a session that has received the bytes \<open>x\<close>, whichever of the calls
  to open, seek, persist, rename, copy and insert fail, implements the abstract upload: it acknowledges
  the chunk and the session has received \<open>x\<close> and the body, with fewer bytes than announced; or it
  completes, the announced number of bytes is reached, the blob under the returned hash decrypts to
  \<open>x\<close> and the body, one row with that hash and size is recorded, and session and temporary file are
  gone; or it changes nothing; or, on the last bytes only, it answers 500 after taking them. A session
  announced with the largest \<^verbatim>\<open>int64\<close> is the exception: the limit of the body wraps around there, and a
  request takes none of its bytes.\<close>

theorem UploadChunk_refines:
  assumes R: "receiving s0 key x st" and sid: "cr_session rq = s_ID s0" and B: "benign env rq"
    and K: "chunk_key env rq s0 \<in> {None, Some key}" and U: "UploadChunk env rq st = (st', r)"
    and y: "y = x @ (if s_ExpectedSize s0 < 2 ^ 63 - 1 then concat (cr_body rq) else [])"
    and coll: "\<And>d d'. framed key y d \<Longrightarrow> blob_at (u_cas st, u_fs st) (hash_of d) = Some d' \<Longrightarrow> d' = d"
  shows "case r of
      ChunkIncomplete n \<Rightarrow> receiving s0 key y st' \<and> n = int (length y) \<and> n < s_ExpectedSize s0 \<and>
        u_files st' = u_files st \<and> blob_at (u_cas st', u_fs st') = blob_at (u_cas st, u_fs st)
    | UploadCompleted h \<Rightarrow> int (length y) = s_ExpectedSize s0 \<and> blob_reads key h y st' \<and>
        recorded s0 h (u_files st) (u_files st') \<and> GetSession (u_sm st') (s_ID s0) = None \<and>
        u_fs st' (s_TempFilePath s0) = None \<and> cas_inv (u_cas st', u_fs st')
    | HttpError code \<Rightarrow> st' = st \<or>
        (code = 500 \<and> int (length y) = s_ExpectedSize s0 \<and> u_files st' = u_files st \<and> cas_inv (u_cas st', u_fs st') \<and>
         (receiving s0 key y st' \<or> GetSession (u_sm st') (s_ID s0) = None))
    | _ \<Rightarrow> st' = st"
  using chunk_step [OF R sid B K U _ coll] y unfolding chunk_spec_def accepted_def takes_bytes_def by blast

lemma resumable_run:
  assumes R: "receiving s0 key [] st" and C: "list_all (client_of s0 key) (rqs @ [(env, rq)])"
    and run: "upload_all (rqs @ [(env, rq)]) st = (st', rs @ [UploadCompleted h])" and un: "list_all unfinished rs"
    and y: "y = acknowledged (rqs @ [(env, rq)]) (rs @ [UploadCompleted h])"
    and coll: "\<And>d d'. framed key y d \<Longrightarrow> blob_at (u_cas st, u_fs st) (hash_of d) = Some d' \<Longrightarrow> d' = d"
  shows "blob_reads key h y st' \<and> int (length y) = s_ExpectedSize s0 \<and> recorded s0 h (u_files st) (u_files st')"
proof -
  obtain st1 where 1: "upload_all rqs st = (st1, rs)" "UploadChunk env rq st1 = (st', UploadCompleted h)"
    using run by (auto simp: upload_all_append split: prod.splits)
  have small: "takes_bytes s0"
  proof (rule ccontr)
    assume "\<not> takes_bytes s0"
    from largest_run [OF R this C run] show False by auto
  qed
  have inv: "receiving s0 key (acknowledged rqs rs) st1" "u_files st1 = u_files st"
    "blob_at (u_cas st1, u_fs st1) = blob_at (u_cas st, u_fs st)"
    using unfinished_run [OF R small _ 1(1) un] C by simp_all
  have y': "y = acknowledged rqs rs @ accepted s0 rq"
    using length_upload_all [OF 1(1)] small by (simp add: y acknowledged_append taken_def accepted_def)
  from C have "cr_session rq = s_ID s0" "benign env rq" "chunk_key env rq s0 \<in> {None, Some key}"
    by (simp_all add: client_of_def)
  from chunk_step [OF inv(1) this 1(2) y'] coll show ?thesis by (simp add: inv chunk_spec_def)
qed

text \<open>C3: a resumable upload delivers what the server acknowledged. Over any sequence of requests to one
  session (chunks in order, retries of chunks already stored, wrong offsets, refused and interrupted
  requests, any chunk sizes), none of them answered 500, the response that completes the upload names a
  blob that decrypts to exactly the acknowledged bodies in their order, as many as announced.\<close>

theorem resumable_upload:
  assumes R: "receiving s0 key [] st" and C: "list_all (client_of s0 key) (rqs @ [(env, rq)])"
    and run: "upload_all (rqs @ [(env, rq)]) st = (st', rs @ [UploadCompleted h])" and un: "list_all unfinished rs"
    and y: "y = acknowledged (rqs @ [(env, rq)]) (rs @ [UploadCompleted h])"
    and coll: "\<And>d d'. framed key y d \<Longrightarrow> blob_at (u_cas st, u_fs st) (hash_of d) = Some d' \<Longrightarrow> d' = d"
  shows "blob_reads key h y st' \<and> int (length y) = s_ExpectedSize s0 \<and> recorded s0 h (u_files st) (u_files st')"
  using resumable_run [OF R C run un y] coll by blast

text \<open>C4: an upload always finishes: when no call fails, no quota is configured and the announced size is
  not the largest \<^verbatim>\<open>int64\<close> (such a session takes no bytes), the client that sends non-empty chunks in order, of
  any sizes, until the announced number of bytes is reached gets every chunk acknowledged and, for the
  last one, a hash whose blob decrypts to the bytes sent.\<close>

theorem upload_completes:
  assumes "receiving s0 key x st" "aes_NewCipher key \<noteq> None"
    and "rqs \<noteq> []" "list_all (\<lambda>(env, rq). smooth s0 key env rq) rqs" "in_order (length x) rqs"
    and "y = x @ sent rqs" "int (length y) = s_ExpectedSize s0" "s_ExpectedSize s0 < 2 ^ 63 - 1"
    and "\<And>d d'. framed key y d \<Longrightarrow> blob_at (u_cas st, u_fs st) (hash_of d) = Some d' \<Longrightarrow> d' = d"
  shows "\<exists>st' rs h. upload_all rqs st = (st', rs @ [UploadCompleted h]) \<and> list_all unfinished rs \<and>
           blob_reads key h y st' \<and> recorded s0 h (u_files st) (u_files st')"
  using assms
proof (induction rqs arbitrary: x st)
  case (Cons a rqs)
  obtain env rq where a: "a = (env, rq)" by fastforce
  let ?z = "x @ concat (cr_body rq)"
  have small: "takes_bytes s0" using Cons.prems(8) by (simp add: takes_bytes_def)
  have sm: "smooth s0 key env rq" and ord: "starts_at (length x) rq" using Cons.prems by (simp_all add: a)
  have cl: "cr_session rq = s_ID s0" "benign env rq" "chunk_key env rq s0 \<in> {None, Some key}"
    using smooth_client [OF sm] by (simp_all add: client_of_def)
  have yz: "y = ?z @ sent rqs" using Cons.prems(6) by (simp add: a)
  then have fits: "int (length ?z) \<le> s_ExpectedSize s0" using Cons.prems(7) by simp
  obtain st0 where st0: "receiving s0 key ?z st0"
    and U: "UploadChunk env rq st = (if int (length ?z) < s_ExpectedSize s0 then (st0, ChunkIncomplete (int (length ?z)))
      else finish_upload env (received s0 ?z (e_now env)) st0)"
    using smooth_step [OF Cons.prems(1) small sm ord Cons.prems(2) refl fits] by blast
  show ?case
  proof (cases "rqs = []")
    case True
    then have z: "?z = y" using yz by simp
    obtain d where "u_fs st0 (s_TempFilePath (received s0 y (e_now env))) = Some d"
      using st0 by (auto simp: receiving_def)
    then obtain st1 h where "finish_upload env (received s0 y (e_now env)) st0 = (st1, UploadCompleted h)"
      using finish_completes [of env st0 "received s0 y (e_now env)" d] sm by (auto simp: smooth_def)
    then have U1: "UploadChunk env rq st = (st1, UploadCompleted h)" using U Cons.prems(7) by (simp add: z)
    have "chunk_spec s0 key y st st1 (UploadCompleted h)"
      by (rule chunk_step [OF Cons.prems(1) cl U1 _ Cons.prems(9)]) (use small in \<open>simp_all add: z [symmetric] accepted_def\<close>)
    then show ?thesis using True U1 by (intro exI [of _ st1] exI [of _ "[] :: upload_response list"] exI [of _ h]) (auto simp: a chunk_spec_def)
  next
    case False
    have "sent rqs \<noteq> []" using False Cons.prems(4) by (cases rqs) (auto simp: a smooth_def)
    then have "int (length ?z) < s_ExpectedSize s0"
      using Cons.prems(7) yz by (metis length_append length_greater_0_conv less_add_same_cancel1 of_nat_less_iff)
    then have U1: "UploadChunk env rq st = (st0, ChunkIncomplete (int (length ?z)))" using U by simp
    have un: "unfinished (ChunkIncomplete (int (length ?z)))" by (auto simp: unfinished_def)
    have keep: "u_files st0 = u_files st" "blob_at (u_cas st0, u_fs st0) = blob_at (u_cas st, u_fs st)"
      using unfinished_step [OF Cons.prems(1) small smooth_client [OF sm] U1 un] by simp_all
    have ord': "in_order (length ?z) rqs" "list_all (\<lambda>(env, rq). smooth s0 key env rq) rqs"
      using Cons.prems by (simp_all add: a del: length_concat)
    obtain st' rs h where "upload_all rqs st0 = (st', rs @ [UploadCompleted h])" "list_all unfinished rs"
      "blob_reads key h y st'" "recorded s0 h (u_files st0) (u_files st')"
      using Cons.IH [OF st0 Cons.prems(2) False ord'(2,1) yz Cons.prems(7,8)] Cons.prems(9) keep by auto
    then show ?thesis
      using U1 un keep
      by (intro exI [of _ st'] exI [of _ "ChunkIncomplete (int (length ?z)) # rs"] exI [of _ h]) (simp add: a)
  qed
qed simp

text \<open>when the disk is full, a last chunk that fits the write buffer is still acknowledged: the error
  of the final flush is dropped, so the upload completes with the hash of the bytes that were on disk
  before the request, and the recorded size is the announced one although the chunk is lost.\<close>

theorem full_disk_loses_chunk:
  assumes S: "GetSession (u_sm st) (cr_session rq) = Some s" and sid: "cr_session rq = s_ID s"
    and D: "u_fs st (s_TempFilePath s) = Some d" and apart: "metaPath (u_sm st) (s_ID s) \<noteq> s_TempFilePath s"
    and A: "admit env rq s (u_files st) = Inr key" and room: "e_room env = Some 0"
    and calls: "e_fails env = no_faults" "\<not> e_seekFails env" "\<not> e_insertFails env"
    and body: "cr_range rq = []" "cr_body rq = [p]" "p \<noteq> []" "length p + 32 \<le> bufio_size" "\<not> cr_bodyErr rq"
    and last: "s_UploadedSize s + int (length p) = s_ExpectedSize s" and int64: "is_int64 (s_ExpectedSize s)"
  shows "\<exists>st' row. UploadChunk env rq st = (st', UploadCompleted (hash_of d)) \<and>
           u_files st' = u_files st @ [row] \<and> f_size row = s_ExpectedSize s"
proof -
  let ?gcm = "cipher_NewGCM key"
  have small: "wrap64 (int (length p) + 1) = int (length p) + 1"
    using body(4) by (intro wrap64_id) (simp add: is_int64_def bufio_size_def)
  have lim: "limit_pieces (nat (int (length p) + 1)) [p] = [p]" by (auto simp: nat_add_distrib)
  have pk: "length (packet ?gcm key p) = length p + 32" "packet ?gcm key p \<noteq> []"
    using aes_gcm.length_packet [of key key p] by auto
  have w: "bufio_Write (packet ?gcm key p) \<lparr>bw_disk = d, bw_room = Some 0, bw_buf = [], bw_err = False\<rparr> =
      (\<lparr>bw_disk = d, bw_room = Some 0, bw_buf = packet ?gcm key p, bw_err = False\<rparr>, True)"
    using body(4) pk by (subst bufio_Write.simps) simp
  have wc: "write_chunk env key rq (s_ExpectedSize s - s_UploadedSize s) d = (d, int (length p), True)"
    unfolding write_chunk_def Let_def body room
    using last body(3,5) pk by (simp add: w small lim [simplified] bufio_Flush_def disk_write_def flip: last)
  let ?s1 = "s\<lparr>s_UploadedSize := s_ExpectedSize s, s_LastActiveAt := e_now env\<rparr>"
  let ?sm1 = "modify_session (s_ID s) (\<lambda>_. ?s1) (u_sm st)"
  let ?fs1 = "fst (PersistSession no_faults (e_enc env) ?sm1 ?s1 ((u_fs st)(s_TempFilePath s \<mapsto> d)))"
  have U: "UploadChunk env rq st = finish_upload env ?s1 (st\<lparr>u_sm := ?sm1, u_fs := ?fs1\<rparr>)"
    using S D A calls(2) last wrap64_id [OF int64]
    by (simp add: UploadChunk_def range_check_def parseContentRangeHeader_def body(1) calls(1) wc Let_def flip: sid)
  have "?fs1 (s_TempFilePath s) = Some d"
    using PersistSession_fs [of no_faults "e_enc env" ?sm1 ?s1 "(u_fs st)(s_TempFilePath s \<mapsto> d)"] apart by auto
  from move_no_faults [of ?fs1 "s_TempFilePath s" d, OF this] obtain c' fs' e where
    "MoveToCASWithStatus no_faults (e_part env) (s_TempFilePath s) (u_cas st, ?fs1) = ((c', fs'), Some (hash_of d, e))"
    by blast
  then show ?thesis
    unfolding U finish_upload_def calls(1) using calls(3) by (auto simp: Let_def split: prod.splits)
qed

text \<open>a session whose bytes are all there but whose move into the store failed (the 500 of the last
  chunk) cannot be finished by the client's retries: every retry with a \<^verbatim>\<open>Content-Range\<close> inside the
  file is answered "already processed" and changes nothing, and \<^verbatim>\<open>InitSession\<close> never offers the session
  for resumption.\<close>

theorem full_session_never_retried:
  assumes S: "GetSession (u_sm st) (cr_session rq) = Some s" and full: "s_UploadedSize s = s_ExpectedSize s"
    and range: "parseContentRangeHeader (cr_range rq) = Some (a, b, c)" "b < s_ExpectedSize s"
  shows "UploadChunk env rq st = (st, AlreadyProcessed (s_ExpectedSize s)) \<and>
         FindActiveSession fails order ownerID folderID name sz (u_sm st, u_fs st) \<noteq> Some s"
proof
  show "UploadChunk env rq st = (st, AlreadyProcessed (s_ExpectedSize s))"
    using assms by (simp add: UploadChunk_def range_check_def)
  show "FindActiveSession fails order ownerID folderID name sz (u_sm st, u_fs st) \<noteq> Some s"
    by (induction order) (use full in \<open>auto simp: matches_upload_def split: option.splits\<close>)
qed

text \<open>the quota of \<^verbatim>\<open>InitSession\<close> is exact as long as usage and size add up within 64 bits: an upload
  of a valid size into the root folder is refused with 413 exactly when it would exceed the quota. Where
  the sum overflows, it wraps to a negative number and no size is refused for the quota.\<close>

theorem quota_exact_until_overflow:
  assumes Q: "0 < e_quota env" and sz: "0 < iq_Size rq" "iq_Size rq < 2 ^ 63" and F: "iq_FolderID rq = []" "\<not> e_isVault env []"
    and used: "used = GetUserStorageUsed (iq_user rq) (u_files st)" "0 \<le> used"
  shows "(used + iq_Size rq < 2 ^ 63 \<longrightarrow>
            (snd (InitSession env rq st) = HttpError 413 \<longleftrightarrow> used + iq_Size rq > e_quota env)) \<and>
         (2 ^ 63 \<le> used + iq_Size rq \<longrightarrow> snd (InitSession env rq st) \<noteq> HttpError 413)"
proof -
  have range: "used < 2 ^ 63"
    using wrap64_range [of used] used by (auto simp: GetUserStorageUsed_def is_int64_def Let_def split: if_splits)
  have "snd (InitSession env rq st) = HttpError 413 \<longleftrightarrow> quota_exceeded env (iq_user rq) (iq_Size rq) (u_files st)"
    using sz F no_late_413
    by (auto simp: InitSession_def preset_folders_def Let_def split: prod.splits option.splits)
  moreover have "quota_exceeded env (iq_user rq) (iq_Size rq) (u_files st) \<longleftrightarrow> wrap64 (used + iq_Size rq) > e_quota env"
    using Q sz by (simp add: quota_exceeded_def used)
  moreover have "wrap64 (used + iq_Size rq) = used + iq_Size rq" if "used + iq_Size rq < 2 ^ 63"
    using that used sz by (intro wrap64_id) (simp add: is_int64_def)
  moreover have "wrap64 (used + iq_Size rq) < 0" if "2 ^ 63 \<le> used + iq_Size rq"
    using that range sz wrap64_over [of "used + iq_Size rq"] by simp
  ultimately show ?thesis using Q by auto
qed

section \<open>Witnesses\<close>

definition ex_session :: Session where
  "ex_session = \<lparr>s_ID = ''a1'', s_OwnerID = 1, s_FolderID = [], s_Filename = ''f.bin'', s_MimeType = ''x/y'',
     s_ExpectedSize = 3, s_UploadedSize = 0, s_TempFilePath = ''tmp/upload_a1.tmp'', s_PlaintextHash = [],
     s_StartedAt = 0, s_LastActiveAt = 0\<rparr>"

definition ex_upload :: UploadController where
  "ex_upload = \<lparr>u_sm = \<lparr>sessions = [''a1'' \<mapsto> ex_session], TempDir = ''tmp''\<rparr>,
     u_cas = \<lparr>BaseDir = ''cas'', existCache = {}\<rparr>, u_fs = [''tmp/upload_a1.tmp'' \<mapsto> []],
     u_completed = Map.empty, u_files = [], u_pow = Map.empty\<rparr>"

definition ex_env :: "nat option \<Rightarrow> UploadEnv" where
  "ex_env room = \<lparr>e_now = 5, e_rnd = [1], e_fails = no_faults, e_room = room, e_part = 0, e_seekFails = False,
     e_truncFails = False, e_enc = (\<lambda>_. Some [9]), e_order = [''a1''], e_quota = 0, e_stdKey = replicate 32 7,
     e_isVault = (\<lambda>_. False), e_folderIDs = [], e_insertFails = False\<rparr>"

definition ex_chunk :: "string \<Rightarrow> bytes \<Rightarrow> ChunkRequest" where
  "ex_chunk rng p = \<lparr>cr_session = ''a1'', cr_range = rng, cr_length = int (length p), cr_body = [p], cr_bodyErr = False,
     cr_vaultKey = None, cr_cookieKey = None\<rparr>"

lemma ex_meta: "path_Clean ''tmp/upload_a1.meta.json'' = ''tmp/upload_a1.meta.json''" by code_simp

lemmas ex_defs = ex_upload_def ex_session_def ex_env_def ex_chunk_def

lemma ex_receiving: "receiving ex_session key [] ex_upload"
proof -
  have r: "received ex_session [] 0 = ex_session" by (simp add: received_def ex_session_def)
  have "cas_inv (u_cas ex_upload, u_fs ex_upload)"
    by (auto simp: ex_defs cas_inv_def example_paths split: if_splits)
  moreover have "paths_apart ex_session ex_upload"
    by (simp add: paths_apart_def metaPath_def meta_name_def ex_defs ex_meta example_paths Let_def)
  moreover have "GetSession (u_sm ex_upload) ''a1'' = Some (received ex_session [] 0)"
    unfolding r by (simp add: ex_upload_def GetSession_def)
  ultimately show ?thesis unfolding receiving_def
    by (intro conjI exI [of _ 0] exI [of _ "[]"]) (simp_all add: ex_upload_def ex_session_def takes_bytes_def)
qed

lemma ex_no_blob: "blob_at (u_cas ex_upload, u_fs ex_upload) h = None"
  by (auto simp: blob_at_def ex_upload_def example_paths)

lemma ex_client: "length p \<le> 1024 * 1024 \<Longrightarrow> client_of ex_session (replicate 32 7) (ex_env None, ex_chunk rng p)"
  by (simp add: client_of_def benign_def chunk_key_def ex_defs)

lemma ex_smooth: "p \<noteq> [] \<Longrightarrow> length p \<le> 1024 * 1024 \<Longrightarrow> smooth ex_session (replicate 32 7) (ex_env None) (ex_chunk rng p)"
  by (simp add: smooth_def chunk_key_def ex_defs)

lemma ex_sel [simp]:
  "s_ExpectedSize ex_session = 3" "s_ID ex_session = ''a1''" "u_files ex_upload = []"
  "concat (cr_body (ex_chunk rng p)) = p" "e_now (ex_env room) = 5"
  by (simp_all add: ex_defs)

lemma ex_takes: "takes_bytes ex_session" by (simp add: takes_bytes_def)

lemma ex_range: "parseContentRangeHeader ''bytes 2-2/3'' = Some (2, 2, 3)" "parseContentRangeHeader [] = None"
  by (simp_all add: parseContentRangeHeader_def TrimPrefix_def ParseInt_def digit_val_def is_digit_def)

lemma ex_key: "aes_NewCipher (replicate 32 7) \<noteq> None" by (simp add: aes_NewCipher_def)

abbreviation "ex_requests \<equiv> [(ex_env None, ex_chunk [] [1, 2]), (ex_env None, ex_chunk ''bytes 2-2/3'' [3])]"

lemma ex_in_order: "in_order 0 ex_requests" "sent ex_requests = [1, 2, 3]"
  by (simp_all add: starts_at_def ex_chunk_def ex_range)

theorem UploadChunk_refines_witness:
  "\<exists>st' r. UploadChunk (ex_env None) (ex_chunk [] [1, 2]) ex_upload = (st', r) \<and>
     (case r of
        ChunkIncomplete n \<Rightarrow> receiving ex_session (replicate 32 7) [1, 2] st' \<and> n = 2 \<and> n < 3 \<and> u_files st' = []
      | UploadCompleted h \<Rightarrow> False
      | HttpError code \<Rightarrow> st' = ex_upload
      | _ \<Rightarrow> st' = ex_upload)"
proof -
  obtain st' r where U: "UploadChunk (ex_env None) (ex_chunk [] [1, 2]) ex_upload = (st', r)" by (rule prod.exhaust)
  have c: "cr_session (ex_chunk [] [1, 2]) = s_ID ex_session" "benign (ex_env None) (ex_chunk [] [1, 2])"
    "chunk_key (ex_env None) (ex_chunk [] [1, 2]) ex_session \<in> {None, Some (replicate 32 7)}"
    using ex_client [of "[1, 2]" "[]"] by (simp_all add: client_of_def)
  have b: "[1, 2] = [] @ (if s_ExpectedSize ex_session < 2 ^ 63 - 1 then concat (cr_body (ex_chunk [] [1, 2])) else [])"
    by (simp add: ex_chunk_def)
  note spec = UploadChunk_refines [OF ex_receiving c U b, unfolded ex_no_blob]
  show ?thesis
    using spec U by (intro exI [of _ st'] exI [of _ r]) (cases r; simp)
qed

theorem upload_completes_witness:
  "\<exists>st' rs h. upload_all ex_requests ex_upload = (st', rs @ [UploadCompleted h]) \<and> list_all unfinished rs \<and>
     blob_reads (replicate 32 7) h [1, 2, 3] st' \<and> recorded ex_session h (u_files ex_upload) (u_files st')"
  by (rule upload_completes [OF ex_receiving ex_key]) (simp_all add: ex_smooth ex_in_order [simplified] ex_no_blob)

lemma ex_run:
  "\<exists>st' r1 h. upload_all ex_requests ex_upload = (st', [r1] @ [UploadCompleted h]) \<and> list_all unfinished [r1] \<and>
     acknowledged ex_requests ([r1] @ [UploadCompleted h]) = [1, 2, 3]"
proof -
  have starts: "starts_at 0 (ex_chunk [] [1, 2])" "starts_at 2 (ex_chunk ''bytes 2-2/3'' [3])"
    by (simp_all add: starts_at_def ex_chunk_def ex_range)
  have y: "[1, 2] = [] @ concat (cr_body (ex_chunk [] [1, 2]))" by simp
  obtain st1 where R1: "receiving ex_session (replicate 32 7) [1, 2] st1"
    and U1: "UploadChunk (ex_env None) (ex_chunk [] [1, 2]) ex_upload = (st1, ChunkIncomplete 2)"
    using smooth_step [OF ex_receiving ex_takes ex_smooth [of "[1, 2]" "[]"] _ ex_key y] starts by auto
  have z: "[1, 2, 3] = [1, 2] @ concat (cr_body (ex_chunk ''bytes 2-2/3'' [3]))" by (simp add: ex_chunk_def)
  obtain st2 where R2: "receiving ex_session (replicate 32 7) [1, 2, 3] st2"
    and U2: "UploadChunk (ex_env None) (ex_chunk ''bytes 2-2/3'' [3]) st1 =
      finish_upload (ex_env None) (received ex_session [1, 2, 3] 5) st2"
    using smooth_step [OF R1 ex_takes ex_smooth [of "[3]" "''bytes 2-2/3''"] _ ex_key z] starts by (auto simp: numeral_2_eq_2)
  obtain d where "u_fs st2 (s_TempFilePath (received ex_session [1, 2, 3] 5)) = Some d" using R2 by (auto simp: receiving_def)
  from finish_completes [OF _ _ this, of "ex_env None"] obtain st' h where
    "finish_upload (ex_env None) (received ex_session [1, 2, 3] 5) st2 = (st', UploadCompleted h)"
    by (auto simp: ex_env_def)
  with U1 U2 show ?thesis
    by (intro exI [of _ st'] exI [of _ "ChunkIncomplete 2"] exI [of _ h]) (auto simp: unfinished_def taken_def ex_chunk_def)
qed

theorem resumable_upload_witness:
  "\<exists>st' rs h. upload_all ex_requests ex_upload = (st', rs @ [UploadCompleted h]) \<and>
     blob_reads (replicate 32 7) h [1, 2, 3] st'"
proof -
  obtain st' r1 h where 1: "upload_all ex_requests ex_upload = (st', [r1] @ [UploadCompleted h])"
    "list_all unfinished [r1]" "[1, 2, 3] = acknowledged ex_requests ([r1] @ [UploadCompleted h])"
    using ex_run by metis
  have "blob_reads (replicate 32 7) h [1, 2, 3] st' \<and> int (length [1 :: byte, 2, 3]) = s_ExpectedSize ex_session \<and>
      recorded ex_session h (u_files ex_upload) (u_files st')"
    using 1 ex_no_blob
    by (intro resumable_upload [OF ex_receiving, where rqs = "[(ex_env None, ex_chunk [] [1, 2])]" and env = "ex_env None"
          and rq = "ex_chunk ''bytes 2-2/3'' [3]" and rs = "[r1]"]) (simp_all add: ex_client)
  with 1(1) show ?thesis by blast
qed

theorem full_disk_loses_chunk_witness:
  "\<exists>st' row. UploadChunk (ex_env (Some 0)) (ex_chunk [] [1, 2, 3]) ex_upload = (st', UploadCompleted (hash_of [])) \<and>
     u_files st' = [row] \<and> f_size row = 3"
  using full_disk_loses_chunk [of ex_upload "ex_chunk [] [1, 2, 3]" ex_session "[]" "ex_env (Some 0)" "replicate 32 7" "[1, 2, 3]"]
  by (simp add: ex_defs GetSession_def metaPath_def meta_name_def ex_meta admit_def chunk_key_def aes_NewCipher_def bufio_size_def is_int64_def)

theorem full_session_never_retried_witness:
  "let s = ex_session\<lparr>s_UploadedSize := 3\<rparr>; st = ex_upload\<lparr>u_sm := \<lparr>sessions = [''a1'' \<mapsto> s], TempDir = ''tmp''\<rparr>\<rparr>
   in UploadChunk (ex_env None) (ex_chunk ''bytes 2-2/3'' [3]) st = (st, AlreadyProcessed 3) \<and>
      FindActiveSession no_faults [''a1''] 1 [] ''f.bin'' 3 (u_sm st, u_fs st) \<noteq> Some s"
proof -
  let ?s = "ex_session\<lparr>s_UploadedSize := 3\<rparr>"
  let ?st = "ex_upload\<lparr>u_sm := \<lparr>sessions = [''a1'' \<mapsto> ?s], TempDir = ''tmp''\<rparr>\<rparr>"
  have "GetSession (u_sm ?st) (cr_session (ex_chunk ''bytes 2-2/3'' [3])) = Some ?s"
    by (simp add: GetSession_def ex_chunk_def)
  moreover have "parseContentRangeHeader (cr_range (ex_chunk ''bytes 2-2/3'' [3])) = Some (2, 2, 3)"
    by (simp add: ex_chunk_def ex_range)
  ultimately have "UploadChunk (ex_env None) (ex_chunk ''bytes 2-2/3'' [3]) ?st = (?st, AlreadyProcessed (s_ExpectedSize ?s)) \<and>
      FindActiveSession no_faults [''a1''] 1 [] ''f.bin'' 3 (u_sm ?st, u_fs ?st) \<noteq> Some ?s"
    by (intro full_session_never_retried [where a = 2 and b = 2 and c = 3]) simp_all
  moreover have "s_ExpectedSize ?s = 3" by simp
  ultimately show ?thesis unfolding Let_def by metis
qed

theorem quota_exact_until_overflow_witness:
  "let row = \<lparr>f_id = ''x'', f_owner = 1, f_folder = [], f_name = ''n'', f_mime = [], f_size = 10, f_cas = ''h'', f_plain = [], f_deleted = False\<rparr>;
       st = ex_upload\<lparr>u_files := [row]\<rparr>; env = (ex_env None)\<lparr>e_quota := 100\<rparr>;
       rq = (\<lambda>n. \<lparr>iq_Filename = ''a'', iq_MimeType = ''t'', iq_Size = n, iq_FolderID = [], iq_CasHash = [], iq_user = 1, iq_unlocked = False\<rparr>)
   in snd (InitSession env (rq 91) st) = HttpError 413 \<and> snd (InitSession env (rq (2 ^ 63 - 1)) st) \<noteq> HttpError 413"
proof -
  let ?row = "\<lparr>f_id = ''x'', f_owner = 1, f_folder = [], f_name = ''n'', f_mime = [], f_size = 10, f_cas = ''h'', f_plain = [], f_deleted = False\<rparr>"
  let ?st = "ex_upload\<lparr>u_files := [?row]\<rparr>" and ?env = "(ex_env None)\<lparr>e_quota := 100\<rparr>"
  let ?rq = "\<lambda>n. \<lparr>iq_Filename = ''a'', iq_MimeType = ''t'', iq_Size = n, iq_FolderID = [], iq_CasHash = [], iq_user = 1, iq_unlocked = False\<rparr>"
  have u: "10 = GetUserStorageUsed (iq_user (?rq n)) (u_files ?st)" for n
    by (simp add: GetUserStorageUsed_def wrap64_def)
  have "snd (InitSession ?env (?rq 91) ?st) = HttpError 413"
    using quota_exact_until_overflow [of ?env "?rq 91" 10 ?st] u by (simp add: ex_env_def)
  moreover have "snd (InitSession ?env (?rq (2 ^ 63 - 1)) ?st) \<noteq> HttpError 413"
    using quota_exact_until_overflow [of ?env "?rq (2 ^ 63 - 1)" 10 ?st] u by (simp add: ex_env_def)
  ultimately show ?thesis unfolding Let_def by blast
qed

end
