(* ===== verification/Download_State.thy ===== *)
theory Download_State
  imports Go_Files
begin

text \<open>
  The block bitmap and the progress journal of \<^verbatim>\<open>internal/download/state.go\<close>. A \<^verbatim>\<open>make\<close> with a
  negative length panics: the constructors that call it return an option. The journal's JSON text
  is produced and read by the codec arguments \<open>enc\<close> and \<open>dec\<close>; what the code relies on is only that
  reading back the text that was written gives the same fields.
\<close>

section \<open>Bitset\<close>

record Bitset =
  bs_data :: bytes
  bs_size :: int

definition make_bytes :: "int \<Rightarrow> bytes option" where
  "make_bytes n = (if n < 0 then None else Some (replicate (nat n) 0))"

text \<open>The built-in \<^verbatim>\<open>copy(dst, src)\<close>.\<close>

definition go_copy :: "bytes \<Rightarrow> bytes \<Rightarrow> bytes" where
  "go_copy dst src = take (length dst) src @ drop (length src) dst"

definition NewBitset :: "int \<Rightarrow> Bitset option" where
  "NewBitset sz =
     map_option (\<lambda>d. \<lparr>bs_data = d, bs_size = sz\<rparr>) (make_bytes (go_quot (wrap64 (sz + 7)) 8))"

definition NewBitsetFromBytes :: "bytes \<Rightarrow> int \<Rightarrow> Bitset option" where
  "NewBitsetFromBytes data sz =
     map_option (\<lambda>b. \<lparr>bs_data = go_copy b data, bs_size = sz\<rparr>)
       (make_bytes (go_quot (wrap64 (sz + 7)) 8))"

definition bit_mask :: "int \<Rightarrow> byte" where
  "bit_mask index = push_bit (nat index mod 8) 1"

definition bs_Set :: "Bitset \<Rightarrow> int \<Rightarrow> Bitset" where
  "bs_Set b index =
     (if index < 0 \<or> index \<ge> bs_size b then b
      else let k = nat index div 8 in
        b\<lparr>bs_data := (bs_data b)[k := (bs_data b ! k) OR bit_mask index]\<rparr>)"

definition bs_Clear :: "Bitset \<Rightarrow> int \<Rightarrow> Bitset" where
  "bs_Clear b index =
     (if index < 0 \<or> index \<ge> bs_size b then b
      else let k = nat index div 8 in
        b\<lparr>bs_data := (bs_data b)[k := (bs_data b ! k) AND NOT (bit_mask index)]\<rparr>)"

definition bs_IsSet :: "Bitset \<Rightarrow> int \<Rightarrow> bool" where
  "bs_IsSet b index =
     (if index < 0 \<or> index \<ge> bs_size b then False
      else (bs_data b ! (nat index div 8)) AND bit_mask index \<noteq> 0)"

text \<open>The counting loop runs over the bit indices \<open>0 \<le> i < size\<close>.\<close>

definition bs_CompletedCount :: "Bitset \<Rightarrow> int" where
  "bs_CompletedCount b =
     foldl (\<lambda>count i. if (bs_data b ! (nat i div 8)) AND bit_mask i \<noteq> 0 then count + 1 else count)
       0 [0 .. bs_size b - 1]"

definition bs_IsAllSet :: "Bitset \<Rightarrow> bool" where
  "bs_IsAllSet b \<longleftrightarrow> bs_CompletedCount b = bs_size b"

text \<open>Enough bytes for the bits: what the constructors establish and every operation keeps.\<close>

definition bs_wf :: "Bitset \<Rightarrow> bool" where
  "bs_wf b \<longleftrightarrow> 0 \<le> bs_size b \<and> length (bs_data b) = nat ((bs_size b + 7) div 8)"

section \<open>The interface of a block set\<close>

text \<open>What the downloader relies on: membership after adding and removing a block, and a count
  that is the number of members.\<close>

locale block_set =
  fixes inv :: "'b \<Rightarrow> bool"
    and capacity :: "'b \<Rightarrow> int"
    and member :: "'b \<Rightarrow> int \<Rightarrow> bool"
    and add :: "'b \<Rightarrow> int \<Rightarrow> 'b"
    and remove :: "'b \<Rightarrow> int \<Rightarrow> 'b"
    and count :: "'b \<Rightarrow> int"
  assumes capacity_nonneg: "inv b \<Longrightarrow> 0 \<le> capacity b"
    and member_range: "inv b \<Longrightarrow> member b i \<Longrightarrow> 0 \<le> i \<and> i < capacity b"
    and inv_add: "inv b \<Longrightarrow> inv (add b i)"
    and inv_remove: "inv b \<Longrightarrow> inv (remove b i)"
    and capacity_add: "inv b \<Longrightarrow> capacity (add b i) = capacity b"
    and capacity_remove: "inv b \<Longrightarrow> capacity (remove b i) = capacity b"
    and member_add: "inv b \<Longrightarrow> member (add b i) j \<longleftrightarrow> member b j \<or> (j = i \<and> 0 \<le> i \<and> i < capacity b)"
    and member_remove: "inv b \<Longrightarrow> member (remove b i) j \<longleftrightarrow> member b j \<and> j \<noteq> i"
    and count_card: "inv b \<Longrightarrow> count b = int (card {i. member b i})"
begin

lemma members_finite: "inv b \<Longrightarrow> finite {i. member b i}"
  by (rule finite_subset [of _ "{0 ..< capacity b}"]) (auto dest: member_range)

lemma add_all:
  "inv b \<Longrightarrow> inv (foldl add b is) \<and> capacity (foldl add b is) = capacity b \<and>
     (member (foldl add b is) j \<longleftrightarrow> member b j \<or> (j \<in> set is \<and> 0 \<le> j \<and> j < capacity b))"
  by (induction "is" arbitrary: b) (auto simp: inv_add capacity_add member_add)

lemma count_le: "inv b \<Longrightarrow> count b \<le> capacity b"
proof -
  assume b: "inv b"
  have "card {i. member b i} \<le> card {0 ..< capacity b}"
    using member_range [OF b] by (intro card_mono) auto
  then show ?thesis using b capacity_nonneg [OF b] by (simp add: count_card)
qed

lemma count_full:
  assumes b: "inv b"
  shows "count b = capacity b \<longleftrightarrow> (\<forall>i. 0 \<le> i \<and> i < capacity b \<longrightarrow> member b i)"
proof
  assume "count b = capacity b"
  then have "card {i. member b i} = card {0 ..< capacity b}"
    using capacity_nonneg [OF b] by (simp add: count_card [OF b])
  moreover have "{i. member b i} \<subseteq> {0 ..< capacity b}" using member_range [OF b] by auto
  ultimately have all: "{i. member b i} = {0 ..< capacity b}" by (intro card_subset_eq) auto
  have "member b i" if "0 \<le> i" "i < capacity b" for i
    using that all by (metis atLeastLessThan_iff mem_Collect_eq)
  then show "\<forall>i. 0 \<le> i \<and> i < capacity b \<longrightarrow> member b i" by blast
next
  assume "\<forall>i. 0 \<le> i \<and> i < capacity b \<longrightarrow> member b i"
  then have "{i. member b i} = {0 ..< capacity b}"
    using member_range [OF b] by (intro set_eqI) (metis atLeastLessThan_iff mem_Collect_eq)
  then show "count b = capacity b" using capacity_nonneg [OF b] by (simp add: count_card [OF b])
qed

lemma count_add:
  assumes b: "inv b" and i: "0 \<le> i" "i < capacity b"
  shows "count (add b i) = (if member b i then count b else count b + 1)"
proof -
  have "{j. member (add b i) j} = insert i {j. member b j}" using b i by (auto simp: member_add)
  then show ?thesis
    using b members_finite [OF b] by (simp add: count_card inv_add card_insert_if)
qed

end

section \<open>The bit map is a block set\<close>

lemma mask_bit: "(w AND bit_mask i \<noteq> 0) = bit w (nat i mod 8)"
  by (simp add: bit_mask_def bit_iff_and_push_bit_not_eq_0)

lemma bit_bit_mask: "bit (bit_mask i) n \<longleftrightarrow> n = nat i mod 8"
  by (auto simp: bit_mask_def bit_simps simp del: push_bit_of_1)

lemma bit_index_less: "bs_wf b \<Longrightarrow> 0 \<le> i \<Longrightarrow> i < bs_size b \<Longrightarrow> nat i div 8 < length (bs_data b)"
  unfolding bs_wf_def by linarith

lemma bs_IsSet_bit:
  "bs_IsSet b i \<longleftrightarrow> 0 \<le> i \<and> i < bs_size b \<and> bit (bs_data b ! (nat i div 8)) (nat i mod 8)"
  by (auto simp: bs_IsSet_def mask_bit)

lemma same_bit: "0 \<le> i \<Longrightarrow> 0 \<le> j \<Longrightarrow> nat i div 8 = nat j div 8 \<Longrightarrow> nat i mod 8 = nat j mod 8 \<Longrightarrow> i = j"
  by (metis div_mult_mod_eq eq_nat_nat_iff)

lemma bs_wf_Set: "bs_wf b \<Longrightarrow> bs_wf (bs_Set b i)"
  by (simp add: bs_wf_def bs_Set_def Let_def)

lemma bs_wf_Clear: "bs_wf b \<Longrightarrow> bs_wf (bs_Clear b i)"
  by (simp add: bs_wf_def bs_Clear_def Let_def)

lemma bs_size_Set [simp]: "bs_size (bs_Set b i) = bs_size b"
  by (simp add: bs_Set_def Let_def)

lemma bs_size_Clear [simp]: "bs_size (bs_Clear b i) = bs_size b"
  by (simp add: bs_Clear_def Let_def)

lemma bs_IsSet_Set:
  assumes "bs_wf b"
  shows "bs_IsSet (bs_Set b i) j \<longleftrightarrow> bs_IsSet b j \<or> (j = i \<and> 0 \<le> i \<and> i < bs_size b)"
proof (cases "0 \<le> i \<and> i < bs_size b \<and> 0 \<le> j \<and> j < bs_size b")
  case True
  then have "nat i div 8 < length (bs_data b)" using assms bit_index_less by blast
  with True show ?thesis
    by (cases "nat i div 8 = nat j div 8")
      (auto simp: bs_IsSet_bit bs_Set_def Let_def bit_or_iff bit_bit_mask dest: same_bit)
next
  case False
  then show ?thesis by (auto simp: bs_IsSet_def bs_Set_def Let_def)
qed

lemma bs_IsSet_Clear:
  assumes "bs_wf b"
  shows "bs_IsSet (bs_Clear b i) j \<longleftrightarrow> bs_IsSet b j \<and> j \<noteq> i"
proof (cases "0 \<le> i \<and> i < bs_size b \<and> 0 \<le> j \<and> j < bs_size b")
  case True
  then have "nat i div 8 < length (bs_data b)" using assms bit_index_less by blast
  with True show ?thesis
    by (cases "nat i div 8 = nat j div 8")
      (auto simp: bs_IsSet_bit bs_Clear_def Let_def bit_and_iff bit_not_iff bit_bit_mask dest: same_bit)
next
  case False
  then show ?thesis by (auto simp: bs_IsSet_def bs_Clear_def Let_def)
qed

lemma foldl_count:
  "foldl (\<lambda>c i. if P i then c + 1 else c) (n :: int) xs = n + int (length (filter P xs))"
  by (induction xs arbitrary: n) auto

lemma bs_CompletedCount_card: "bs_CompletedCount b = int (card {i. bs_IsSet b i})"
proof -
  let ?P = "\<lambda>i. (bs_data b ! (nat i div 8)) AND bit_mask i \<noteq> 0"
  have "{i. bs_IsSet b i} = set (filter ?P [0 .. bs_size b - 1])"
    by (auto simp: bs_IsSet_def)
  then have "card {i. bs_IsSet b i} = length (filter ?P [0 .. bs_size b - 1])"
    by (simp add: distinct_card del: set_filter)
  then show ?thesis by (simp add: bs_CompletedCount_def foldl_count)
qed

interpretation bitset: block_set bs_wf bs_size bs_IsSet bs_Set bs_Clear bs_CompletedCount
proof
  fix b :: Bitset and i j :: int
  assume b: "bs_wf b"
  show "0 \<le> bs_size b" using b by (simp add: bs_wf_def)
  show "0 \<le> i \<and> i < bs_size b" if "bs_IsSet b i" using that by (simp add: bs_IsSet_bit)
  show "bs_IsSet (bs_Set b i) j = (bs_IsSet b j \<or> j = i \<and> 0 \<le> i \<and> i < bs_size b)"
    by (rule bs_IsSet_Set [OF b])
  show "bs_IsSet (bs_Clear b i) j = (bs_IsSet b j \<and> j \<noteq> i)" by (rule bs_IsSet_Clear [OF b])
qed (simp_all add: bs_wf_Set bs_wf_Clear bs_CompletedCount_card)

lemma bs_IsAllSet_iff:
  "bs_wf b \<Longrightarrow> bs_IsAllSet b \<longleftrightarrow> (\<forall>i. 0 \<le> i \<and> i < bs_size b \<longrightarrow> bs_IsSet b i)"
  unfolding bs_IsAllSet_def by (rule bitset.count_full)

text \<open>Constructors.\<close>

lemma num_bytes: "0 \<le> sz \<Longrightarrow> sz + 7 < 2 ^ 63 \<Longrightarrow> go_quot (wrap64 (sz + 7)) 8 = (sz + 7) div 8"
  by (subst wrap64_id) (auto simp: is_int64_def)

lemma NewBitset_empty:
  assumes "0 \<le> sz" "sz + 7 < 2 ^ 63"
  obtains b where "NewBitset sz = Some b" "bs_wf b" "bs_size b = sz" "\<And>i. \<not> bs_IsSet b i"
proof
  let ?b = "\<lparr>bs_data = replicate (nat ((sz + 7) div 8)) 0, bs_size = sz\<rparr>"
  show "NewBitset sz = Some ?b" using assms by (simp add: NewBitset_def num_bytes make_bytes_def)
  show w: "bs_wf ?b" using assms by (simp add: bs_wf_def)
  show "bs_size ?b = sz" by simp
  show "\<not> bs_IsSet ?b i" for i using bit_index_less [OF w, of i] by (auto simp: bs_IsSet_bit)
qed

lemma go_copy_same: "length src = length dst \<Longrightarrow> go_copy dst src = src"
  by (simp add: go_copy_def)

text \<open>Restoring the bytes of a bit map gives the same bit map.\<close>

lemma NewBitsetFromBytes_data:
  assumes "bs_wf b" "bs_size b + 7 < 2 ^ 63"
  shows "NewBitsetFromBytes (bs_data b) (bs_size b) = Some b"
  using assms
  by (auto simp: NewBitsetFromBytes_def num_bytes make_bytes_def bs_wf_def go_copy_same
      pos_imp_zdiv_nonneg_iff not_less)

section \<open>The progress journal\<close>

text \<open>The fields of the JSON document; the in-memory state adds the bit map, which may be nil.\<close>

record Journal =
  TaskID :: string
  URL :: string
  ResolvedURL :: string
  ETag :: string
  LastModified :: string
  TotalBytes :: int
  BlockSize :: int
  TotalBlocks :: int
  BitsetBytes :: bytes
  UpdatedAt :: instant

record DownloadState =
  journal :: Journal
  bitset :: "Bitset option"

definition default_block :: "int \<Rightarrow> int" where
  "default_block blockSize = (if blockSize \<le> 0 then 2 * 1024 * 1024 else blockSize)"

definition block_count :: "int \<Rightarrow> int \<Rightarrow> int" where
  "block_count totalBytes blockSize =
     (let n = go_quot (wrap64 (totalBytes + blockSize - 1)) blockSize in if n \<le> 0 then 1 else n)"

definition NewDownloadState ::
  "instant \<Rightarrow> string \<Rightarrow> string \<Rightarrow> string \<Rightarrow> string \<Rightarrow> string \<Rightarrow> int \<Rightarrow> int \<Rightarrow> DownloadState option" where
  "NewDownloadState now taskID url resolvedURL etag lastModified totalBytes blockSize0 =
     (let blockSize = default_block blockSize0; totalBlocks = block_count totalBytes blockSize
      in map_option (\<lambda>b.
          \<lparr>journal = \<lparr>TaskID = taskID, URL = url, ResolvedURL = resolvedURL, ETag = etag,
             LastModified = lastModified, TotalBytes = totalBytes, BlockSize = blockSize,
             TotalBlocks = totalBlocks, BitsetBytes = bs_data b, UpdatedAt = now\<rparr>,
           bitset = Some b\<rparr>) (NewBitset totalBlocks))"

definition MarkBlockCompleted :: "instant \<Rightarrow> DownloadState \<Rightarrow> int \<Rightarrow> DownloadState option" where
  "MarkBlockCompleted now s blockIndex =
     (case (case bitset s of
              Some b \<Rightarrow> Some b
            | None \<Rightarrow> NewBitsetFromBytes (BitsetBytes (journal s)) (TotalBlocks (journal s))) of
        None \<Rightarrow> None
      | Some b \<Rightarrow>
          let b' = bs_Set b blockIndex in
          Some \<lparr>journal = (journal s)\<lparr>BitsetBytes := bs_data b', UpdatedAt := now\<rparr>, bitset = Some b'\<rparr>)"

text \<open>\<^verbatim>\<open>Save\<close> writes the document to a temporary file and renames it; the result says whether it
  returned without an error.\<close>

definition Save ::
  "faults \<Rightarrow> (Journal \<Rightarrow> bytes option) \<Rightarrow> instant \<Rightarrow> string \<Rightarrow> DownloadState \<Rightarrow> fs \<Rightarrow> DownloadState \<times> fs \<times> bool" where
  "Save fails enc now filePath s fs =
     (let j = (case bitset s of None \<Rightarrow> journal s | Some b \<Rightarrow> (journal s)\<lparr>BitsetBytes := bs_data b\<rparr>);
          s' = s\<lparr>journal := j\<lparr>UpdatedAt := now\<rparr>\<rparr>
      in case enc (journal s') of
           None \<Rightarrow> (s', fs, False)
         | Some data \<Rightarrow>
             if fails (MkdirCall (path_Dir filePath)) then (s', fs, False)
             else
               let tmpFile = filePath @ ''.tmp'' in
               case os_WriteFile fails tmpFile data fs of
                 (fs1, False) \<Rightarrow> (s', fs1, False)
               | (fs1, True) \<Rightarrow>
                   (case os_Rename fails tmpFile filePath fs1 of
                      None \<Rightarrow> (s', fs1, False)
                    | Some fs2 \<Rightarrow> (s', fs2, True)))"

datatype load_result = Loaded DownloadState | LoadError | LoadPanic

definition LoadDownloadState ::
  "faults \<Rightarrow> (bytes \<Rightarrow> Journal option) \<Rightarrow> string \<Rightarrow> fs \<Rightarrow> load_result" where
  "LoadDownloadState fails dec filePath fs =
     (case os_ReadFile fails filePath fs of
        None \<Rightarrow> LoadError
      | Some data \<Rightarrow>
          (case dec data of
             None \<Rightarrow> LoadError
           | Some j \<Rightarrow>
               (case NewBitsetFromBytes (BitsetBytes j) (TotalBlocks j) of
                  None \<Rightarrow> LoadPanic
                | Some b \<Rightarrow> Loaded \<lparr>journal = j, bitset = Some b\<rparr>)))"

section \<open>Checking that the remote file is unchanged\<close>

record HeadRequest =
  hr_url :: string
  hr_headers :: "(string \<times> string) list"

record HeadResponse =
  StatusCode :: int
  ContentLength :: int
  header_ETag :: string

definition DefaultBrowserUserAgent :: string where
  "DefaultBrowserUserAgent = ''Mozilla/5.0 (Windows NT 10.0; Win64; x64) AppleWebKit/537.36 (KHTML, like Gecko) Chrome/130.0.0.0 Safari/537.36''"

text \<open>The request and the network are the argument \<open>send\<close>: no response when the request cannot be
  built or sent. The result is the pair the code returns, with the error as a flag.\<close>

definition ValidateRemoteIntegrity ::
  "(HeadRequest \<Rightarrow> HeadResponse option) \<Rightarrow> DownloadState \<Rightarrow> bool \<times> bool" where
  "ValidateRemoteIntegrity send s =
     (let j = journal s;
          reqURL = (if ResolvedURL j = [] then URL j else ResolvedURL j);
          req = \<lparr>hr_url = reqURL,
                 hr_headers = (''User-Agent'', DefaultBrowserUserAgent) #
                   (if ETag j \<noteq> [] then [(''If-Match'', ETag j)]
                    else if LastModified j \<noteq> [] then [(''If-Unmodified-Since'', LastModified j)]
                    else [])\<rparr>
      in case send req of
           None \<Rightarrow> (False, True)
         | Some resp \<Rightarrow>
             if StatusCode resp = 412 then (False, False)
             else if StatusCode resp = 200 \<or> StatusCode resp = 206 then
               (if TotalBytes j > 0 \<and> ContentLength resp > 0 \<and> ContentLength resp \<noteq> TotalBytes j
                then (False, False)
                else if ETag j \<noteq> [] \<and> header_ETag resp \<noteq> [] \<and> header_ETag resp \<noteq> ETag j
                then (False, False)
                else (True, False))
             else (False, True))"

section \<open>Invariant of the state\<close>

definition ds_wf :: "DownloadState \<Rightarrow> bool" where
  "ds_wf s \<longleftrightarrow> (\<exists>b. bitset s = Some b \<and> bs_wf b \<and> bs_size b = TotalBlocks (journal s) \<and>
     bs_size b + 7 < 2 ^ 63 \<and> BitsetBytes (journal s) = bs_data b)"

definition block_done :: "DownloadState \<Rightarrow> int \<Rightarrow> bool" where
  "block_done s i \<longleftrightarrow> (case bitset s of None \<Rightarrow> False | Some b \<Rightarrow> bs_IsSet b i)"

lemma block_count_pos: "0 < block_count t b"
  by (simp add: block_count_def Let_def)

lemma block_count_eq:
  assumes "0 < b" "0 \<le> t" "t + b < 2 ^ 63"
  shows "block_count t b = (if t = 0 then 1 else (t + b - 1) div b)"
proof -
  have w: "wrap64 (t + b - 1) = t + b - 1" using assms by (intro wrap64_id) (auto simp: is_int64_def)
  show ?thesis
  proof (cases "t = 0")
    case True
    then show ?thesis using assms w by (simp add: block_count_def)
  next
    case False
    then have "0 < (t + b - 1) div b" using assms by (simp add: pos_imp_zdiv_pos_iff)
    then show ?thesis using False assms w by (simp add: block_count_def Let_def)
  qed
qed

lemma NewDownloadState_wf:
  assumes "0 \<le> totalBytes" "totalBytes + default_block blockSize + 7 < 2 ^ 63"
  obtains s where "NewDownloadState now tid u ru et lm totalBytes blockSize = Some s" "ds_wf s"
    "\<And>i. \<not> block_done s i" "TotalBlocks (journal s) = block_count totalBytes (default_block blockSize)"
proof -
  let ?b = "default_block blockSize" and ?n = "block_count totalBytes (default_block blockSize)"
  have b: "0 < ?b" by (simp add: default_block_def)
  have "(totalBytes + ?b - 1) div ?b \<le> (totalBytes + ?b - 1) div 1"
    using assms(1) b by (intro zdiv_mono2) auto
  then have "?n + 7 < 2 ^ 63" using assms b by (simp add: block_count_eq)
  then obtain bs where "NewBitset ?n = Some bs" "bs_wf bs" "bs_size bs = ?n" "\<And>i. \<not> bs_IsSet bs i"
    using NewBitset_empty [of ?n] block_count_pos [of totalBytes ?b] by auto
  with \<open>?n + 7 < 2 ^ 63\<close> show ?thesis
    by (intro that [of "the (NewDownloadState now tid u ru et lm totalBytes blockSize)"])
      (simp_all add: NewDownloadState_def Let_def ds_wf_def block_done_def)
qed

lemma MarkBlockCompleted_done:
  assumes "ds_wf s"
  obtains s' where "MarkBlockCompleted now s i = Some s'" "ds_wf s'"
    "\<And>j. block_done s' j \<longleftrightarrow> block_done s j \<or> (j = i \<and> 0 \<le> i \<and> i < TotalBlocks (journal s))"
    "TotalBlocks (journal s') = TotalBlocks (journal s)"
  using assms
  by (auto simp: MarkBlockCompleted_def ds_wf_def block_done_def Let_def bs_wf_Set bs_IsSet_Set)

lemma Save_shape:
  assumes "Save fails enc now p s fs = (s', fs', ok)"
  shows "bitset s' = bitset s \<and>
    (ok \<longrightarrow> (\<exists>d. enc (journal s') = Some d \<and> fs' p = Some d)) \<and>
    (\<not> ok \<longrightarrow> fs' p = fs p)"
  using assms
  by (auto simp: Save_def Let_def os_defs split: option.splits if_splits prod.splits bool.splits)

lemma Save_journal:
  "ds_wf s \<Longrightarrow> Save fails enc now p s fs = (s', fs', ok) \<Longrightarrow>
   s' = s\<lparr>journal := (journal s)\<lparr>UpdatedAt := now\<rparr>\<rparr>"
  by (auto simp: Save_def Let_def ds_wf_def split: option.splits if_splits prod.splits bool.splits)

section \<open>Properties\<close>

text \<open>marking blocks and counting them is exact: after any sequence of marks a block is
  completed if and only if it was marked and lies inside the file, the count is the number of such
  blocks, and the download is complete exactly when every block was marked.\<close>

theorem bitset_tracks_blocks:
  assumes "0 \<le> sz" "sz + 7 < 2 ^ 63"
  shows "\<exists>b0. NewBitset sz = Some b0 \<and>
    (let b = foldl bs_Set b0 marks in
       (\<forall>i. bs_IsSet b i \<longleftrightarrow> i \<in> set marks \<and> 0 \<le> i \<and> i < sz) \<and>
       bs_CompletedCount b = int (card {i \<in> set marks. 0 \<le> i \<and> i < sz}) \<and>
       (bs_IsAllSet b \<longleftrightarrow> {0 ..< sz} \<subseteq> set marks) \<and>
       NewBitsetFromBytes (bs_data b) sz = Some b)"
proof -
  obtain b0 where b0: "NewBitset sz = Some b0" "bs_wf b0" "bs_size b0 = sz" "\<And>i. \<not> bs_IsSet b0 i"
    using NewBitset_empty [OF assms] by blast
  let ?b = "foldl bs_Set b0 marks"
  note all = bitset.add_all [OF b0(2), of marks]
  have m: "bs_IsSet ?b i \<longleftrightarrow> i \<in> set marks \<and> 0 \<le> i \<and> i < sz" for i using all b0 by simp
  have w: "bs_wf ?b" "bs_size ?b = sz" using all b0 by auto
  have "bs_IsAllSet ?b \<longleftrightarrow> {0 ..< sz} \<subseteq> set marks"
    using bs_IsAllSet_iff [OF w(1)] w(2) m by (auto simp: subset_eq)
  moreover have "NewBitsetFromBytes (bs_data ?b) sz = Some ?b"
    using NewBitsetFromBytes_data [OF w(1)] w(2) assms by simp
  moreover have "Collect (bs_IsSet ?b) = {i \<in> set marks. 0 \<le> i \<and> i < sz}" using m by auto
  ultimately show ?thesis using b0(1) m by (simp add: Let_def bs_CompletedCount_card)
qed

theorem bitset_tracks_blocks_witness:
  "\<exists>b0. NewBitset 10 = Some b0 \<and>
    (let marks = [9, 3, 12, 3 :: int]; b = foldl bs_Set b0 marks in
       (\<forall>i. bs_IsSet b i \<longleftrightarrow> i \<in> set marks \<and> 0 \<le> i \<and> i < 10) \<and>
       bs_CompletedCount b = int (card {i \<in> set marks. 0 \<le> i \<and> i < 10}) \<and>
       (bs_IsAllSet b \<longleftrightarrow> {0 ..< 10} \<subseteq> set marks) \<and>
       NewBitsetFromBytes (bs_data b) 10 = Some b)"
  unfolding Let_def by (rule bitset_tracks_blocks [unfolded Let_def]) simp_all

text \<open>C38: saving the journal is all or nothing: whichever system call fails, the journal at its path
  is either the old one, untouched, or the new one in full; and a journal that was saved and is
  loaded again gives back the same fields and the same set of completed blocks.\<close>

theorem Save_then_Load:
  assumes wf: "ds_wf s"
    and codec: "\<And>d. enc ((journal s)\<lparr>UpdatedAt := now\<rparr>) = Some d \<Longrightarrow>
      dec d = Some ((journal s)\<lparr>UpdatedAt := now\<rparr>)"
    and save: "Save fails enc now p s fs = (s', fs', ok)"
    and readable: "\<not> fails (OpenCall p)" "\<not> fails (ReadCall p)"
  shows "(\<not> ok \<longrightarrow> fs' p = fs p) \<and>
    (ok \<longrightarrow> LoadDownloadState fails dec p fs' = Loaded s' \<and> (\<forall>i. block_done s' i = block_done s i))"
proof (intro conjI impI)
  assume "\<not> ok"
  then show "fs' p = fs p" using Save_shape [OF save] by blast
next
  assume ok
  have s': "s' = s\<lparr>journal := (journal s)\<lparr>UpdatedAt := now\<rparr>\<rparr>" by (rule Save_journal [OF wf save])
  obtain d where d: "enc (journal s') = Some d" "fs' p = Some d"
    using Save_shape [OF save] \<open>ok\<close> by blast
  have "dec d = Some (journal s')" using codec d(1) s' by simp
  moreover obtain b where "bitset s = Some b"
      "NewBitsetFromBytes (BitsetBytes (journal s)) (TotalBlocks (journal s)) = Some b"
    using wf NewBitsetFromBytes_data by (fastforce simp: ds_wf_def)
  ultimately show "LoadDownloadState fails dec p fs' = Loaded s'"
    using d readable by (simp add: LoadDownloadState_def os_ReadFile_def s')
  show "\<forall>i. block_done s' i = block_done s i" by (simp add: s' block_done_def)
qed

text \<open>The witness saves a journal of ten blocks, two of them done, through a codec that knows this
  one document.\<close>

definition sample_bits :: Bitset where
  "sample_bits = foldl bs_Set \<lparr>bs_data = [0, 0], bs_size = 10\<rparr> [3, 9]"

definition sample_state :: DownloadState where
  "sample_state =
     \<lparr>journal = \<lparr>TaskID = ''t1'', URL = ''http://h/f'', ResolvedURL = [], ETag = [], LastModified = [],
        TotalBytes = 100, BlockSize = 10, TotalBlocks = 10, BitsetBytes = bs_data sample_bits, UpdatedAt = 0\<rparr>,
      bitset = Some sample_bits\<rparr>"

lemma sample_state_wf: "ds_wf sample_state"
  by (simp add: ds_wf_def sample_state_def sample_bits_def bs_Set_def bs_wf_def Let_def)

theorem Save_then_Load_witness:
  "let enc = (\<lambda>j. Some [1]); dec = (\<lambda>d. if d = [1] then Some ((journal sample_state)\<lparr>UpdatedAt := 5\<rparr>) else None);
       (s', fs', ok) = Save no_faults enc 5 ''j'' sample_state Map.empty
   in ok \<and> LoadDownloadState no_faults dec ''j'' fs' = Loaded s' \<and> block_done s' 9 = block_done sample_state 9"
proof -
  let ?enc = "\<lambda>j. Some [1 :: byte]"
  let ?dec = "\<lambda>d. if d = [1 :: byte] then Some ((journal sample_state)\<lparr>UpdatedAt := 5\<rparr>) else None"
  obtain s' fs' ok where e: "Save no_faults ?enc 5 ''j'' sample_state Map.empty = (s', fs', ok)"
    by (metis prod_cases3)
  have "ok" using e by (auto simp: Save_def Let_def os_defs no_faults_def)
  moreover have "ok \<longrightarrow> LoadDownloadState no_faults ?dec ''j'' fs' = Loaded s' \<and>
      (\<forall>i. block_done s' i = block_done sample_state i)"
    using Save_then_Load [OF sample_state_wf _ e, of ?dec] by simp
  ultimately show ?thesis using e by (simp add: Let_def)
qed

end
