(* ===== verification/Accelerated.thy ===== *)
theory Accelerated
  imports Download_State
begin

text \<open>
  The segmented downloader of \<^verbatim>\<open>internal/download/accelerated.go\<close>: the piece coordinator, the
  transfer of one piece, and the worker pool. Each coordinator call runs under its mutex and is one
  function here. The workers run concurrently: \<open>dl_step\<close> lets any worker take its next action, a
  transfer being interleaved read by read with everything the other workers do. The remote host, the
  clock and the disk are what the arguments of a step say.
\<close>

section \<open>Pieces\<close>

datatype PieceStatus = PiecePending | PieceInFlight | PieceCompleted | PieceFailed

record Piece =
  pIndex :: int
  pStart :: int
  pEnd :: int
  pLength :: int
  pStatus :: PieceStatus
  pWorker :: int
  pAttempts :: int
  pLastActive :: instant

record PieceCoordinator =
  pc_pieces :: "Piece list"
  pc_completed :: int
  pc_totalBytes :: int
  pc_totalPieces :: int
  pc_stallTimeout :: duration
  pc_maxRetries :: int

definition new_piece :: "int \<Rightarrow> int \<Rightarrow> int \<Rightarrow> Piece" where
  "new_piece totalBytes blockSize i =
     (let start = wrap64 (i * blockSize);
          end0 = wrap64 (start + blockSize - 1);
          end1 = (if end0 \<ge> totalBytes then totalBytes - 1 else end0)
      in \<lparr>pIndex = i, pStart = start, pEnd = end1, pLength = end1 - start + 1,
          pStatus = PiecePending, pWorker = 0, pAttempts = 0, pLastActive = 0\<rparr>)"

definition NewPieceCoordinator :: "int \<Rightarrow> int \<Rightarrow> duration \<Rightarrow> int \<Rightarrow> PieceCoordinator" where
  "NewPieceCoordinator totalBytes blockSize0 stallTimeout maxRetries =
     (let blockSize = default_block blockSize0; totalPieces = block_count totalBytes blockSize
      in \<lparr>pc_pieces = map (new_piece totalBytes blockSize) [0 .. totalPieces - 1], pc_completed = 0,
          pc_totalBytes = totalBytes, pc_totalPieces = totalPieces,
          pc_stallTimeout = stallTimeout, pc_maxRetries = maxRetries\<rparr>)"

definition set_piece :: "PieceCoordinator \<Rightarrow> int \<Rightarrow> Piece \<Rightarrow> PieceCoordinator" where
  "set_piece pc i p = pc\<lparr>pc_pieces := (pc_pieces pc)[nat i := p]\<rparr>"

abbreviation piece_at :: "PieceCoordinator \<Rightarrow> int \<Rightarrow> Piece" where
  "piece_at pc i \<equiv> pc_pieces pc ! nat i"

fun apply_bits :: "Bitset \<Rightarrow> int list \<Rightarrow> PieceCoordinator \<Rightarrow> int \<Rightarrow> PieceCoordinator \<times> int" where
  "apply_bits b [] pc restoredBytes = (pc, restoredBytes)"
| "apply_bits b (i # is) pc restoredBytes =
     (if bs_IsSet b i then
        apply_bits b is
          ((set_piece pc i ((piece_at pc i)\<lparr>pStatus := PieceCompleted\<rparr>))
             \<lparr>pc_completed := pc_completed pc + 1\<rparr>)
          (restoredBytes + pLength (piece_at pc i))
      else apply_bits b is pc restoredBytes)"

definition ApplyBitset :: "PieceCoordinator \<Rightarrow> Bitset \<Rightarrow> PieceCoordinator \<times> int" where
  "ApplyBitset pc b = apply_bits b [0 .. min (pc_totalPieces pc) (bs_size b) - 1] pc 0"

fun first_index :: "('a \<Rightarrow> bool) \<Rightarrow> 'a list \<Rightarrow> nat option" where
  "first_index P [] = None"
| "first_index P (x # xs) = (if P x then Some 0 else map_option Suc (first_index P xs))"

definition assign_piece :: "int \<Rightarrow> instant \<Rightarrow> Piece \<Rightarrow> Piece" where
  "assign_piece workerID now p =
     p\<lparr>pStatus := PieceInFlight, pWorker := workerID, pLastActive := now, pAttempts := pAttempts p + 1\<rparr>"

definition stalled :: "PieceCoordinator \<Rightarrow> int \<Rightarrow> instant \<Rightarrow> Piece \<Rightarrow> bool" where
  "stalled pc workerID now p \<longleftrightarrow>
     pStatus p = PieceInFlight \<and> pWorker p \<noteq> workerID \<and> now - pLastActive p > pc_stallTimeout pc \<and>
     pAttempts p < pc_maxRetries pc"

text \<open>The piece handed out is a pointer into the coordinator's table: its index here.\<close>

definition NextPiece :: "int \<Rightarrow> instant \<Rightarrow> PieceCoordinator \<Rightarrow> int option \<times> PieceCoordinator" where
  "NextPiece workerID now pc =
     (case first_index (\<lambda>p. pStatus p = PiecePending) (pc_pieces pc) of
        Some k \<Rightarrow> (Some (int k), set_piece pc (int k) (assign_piece workerID now (pc_pieces pc ! k)))
      | None \<Rightarrow>
          (case first_index (stalled pc workerID now) (pc_pieces pc) of
             Some k \<Rightarrow> (Some (int k), set_piece pc (int k) (assign_piece workerID now (pc_pieces pc ! k)))
           | None \<Rightarrow> (None, pc)))"

definition in_table :: "PieceCoordinator \<Rightarrow> int \<Rightarrow> bool" where
  "in_table pc i \<longleftrightarrow> 0 \<le> i \<and> i < int (length (pc_pieces pc))"

definition MarkCompleted :: "int \<Rightarrow> PieceCoordinator \<Rightarrow> PieceCoordinator" where
  "MarkCompleted i pc =
     (if in_table pc i \<and> pStatus (piece_at pc i) \<noteq> PieceCompleted
      then (set_piece pc i ((piece_at pc i)\<lparr>pStatus := PieceCompleted\<rparr>))
             \<lparr>pc_completed := pc_completed pc + 1\<rparr>
      else pc)"

definition RequeuePiece :: "int \<Rightarrow> PieceCoordinator \<Rightarrow> PieceCoordinator" where
  "RequeuePiece i pc =
     (if in_table pc i \<and> pStatus (piece_at pc i) \<noteq> PieceCompleted
      then set_piece pc i ((piece_at pc i)\<lparr>pStatus :=
             (if pAttempts (piece_at pc i) \<ge> pc_maxRetries pc then PieceFailed else PiecePending)\<rparr>)
      else pc)"

definition TouchPiece :: "instant \<Rightarrow> int \<Rightarrow> PieceCoordinator \<Rightarrow> PieceCoordinator" where
  "TouchPiece now i pc =
     (if in_table pc i then set_piece pc i ((piece_at pc i)\<lparr>pLastActive := now\<rparr>) else pc)"

definition IsCompleted :: "PieceCoordinator \<Rightarrow> bool" where
  "IsCompleted pc \<longleftrightarrow> pc_completed pc \<ge> pc_totalPieces pc"

definition ComputeDynamicBlockSize :: "int \<Rightarrow> int \<Rightarrow> int \<Rightarrow> int" where
  "ComputeDynamicBlockSize totalBytes minBlock maxBlock =
     (if totalBytes \<le> 0 then minBlock
      else let calculated = go_quot totalBytes 64 in
        if calculated < minBlock then minBlock
        else if calculated > maxBlock then maxBlock
        else calculated)"

section \<open>Transfer of one piece\<close>

text \<open>\<^verbatim>\<open>File.WriteAt\<close> past the end pads with zeros; \<^verbatim>\<open>File.Truncate\<close> cuts or pads.\<close>

definition WriteAt :: "bytes \<Rightarrow> int \<Rightarrow> bytes \<Rightarrow> bytes" where
  "WriteAt f off d =
     (let k = nat off in take k f @ replicate (k - length f) 0 @ d @ drop (k + length d) f)"

definition Truncate :: "int \<Rightarrow> bytes \<Rightarrow> bytes" where
  "Truncate n f = take (nat n) f @ replicate (nat n - length f) 0"

datatype read_err = ReadEOF | ReadFail

text \<open>One turn of the read loop sees the context cancelled or gets the result of \<^verbatim>\<open>Body.Read\<close>. A disk
  write fails at the offsets where \<open>disk\<close> says how many bytes it wrote before failing.\<close>

datatype body_event = CtxDone | BodyRead bytes "read_err option"

datatype outcome = PieceOK | PieceCanceled | PieceRateLimited | PieceError

record Transfer =
  t_file :: bytes
  t_coord :: PieceCoordinator
  t_offset :: int
  t_read :: int
  t_counter :: int

definition body_turn ::
  "(int \<Rightarrow> nat option) \<Rightarrow> instant \<Rightarrow> int \<Rightarrow> body_event \<Rightarrow> Transfer \<Rightarrow> Transfer \<times> outcome option" where
  "body_turn disk now i ev t =
     (case ev of
        CtxDone \<Rightarrow> (t, Some PieceCanceled)
      | BodyRead d rErr \<Rightarrow>
          (case (if d \<noteq> [] then disk (t_offset t) else None) of
             Some k \<Rightarrow> (t\<lparr>t_file := WriteAt (t_file t) (t_offset t) (take k d)\<rparr>, Some PieceError)
           | None \<Rightarrow>
               let n = int (length d);
                   t1 = (if d \<noteq> [] then
                           t\<lparr>t_file := WriteAt (t_file t) (t_offset t) d, t_offset := t_offset t + n,
                             t_read := t_read t + n, t_counter := t_counter t + n,
                             t_coord := TouchPiece now i (t_coord t)\<rparr>
                         else t)
               in (t1, case rErr of
                     None \<Rightarrow> None
                   | Some ReadFail \<Rightarrow> Some PieceError
                   | Some ReadEOF \<Rightarrow>
                       Some (if t_read t1 \<noteq> pLength (piece_at (t_coord t1) i) then PieceError
                             else PieceOK))))"

text \<open>The whole of \<^verbatim>\<open>downloadPiece\<close> with nothing interleaved; no outcome when the body has not ended.
  The response is its status and the events of its body.\<close>

fun body_loop ::
  "(int \<Rightarrow> nat option) \<Rightarrow> instant \<Rightarrow> int \<Rightarrow> body_event list \<Rightarrow> Transfer \<Rightarrow> Transfer \<times> outcome option" where
  "body_loop disk now i [] t = (t, None)"
| "body_loop disk now i (ev # evs) t =
     (case body_turn disk now i ev t of
        (t', None) \<Rightarrow> body_loop disk now i evs t'
      | (t', Some oc) \<Rightarrow> (t', Some oc))"

definition status_outcome :: "int \<Rightarrow> outcome option" where
  "status_outcome status =
     (if status = 429 \<or> status = 503 then Some PieceRateLimited
      else if status \<noteq> 206 then Some PieceError
      else None)"

definition downloadPiece ::
  "(int \<Rightarrow> nat option) \<Rightarrow> instant \<Rightarrow> (int \<Rightarrow> int \<Rightarrow> (int \<times> body_event list) option) \<Rightarrow> int \<Rightarrow>
   bytes \<Rightarrow> int \<Rightarrow> PieceCoordinator \<Rightarrow> Transfer \<times> outcome option" where
  "downloadPiece disk now get i destFile counter coord =
     (let p = piece_at coord i;
          t = \<lparr>t_file = destFile, t_coord = coord, t_offset = pStart p, t_read = 0, t_counter = counter\<rparr>
      in case get (pStart p) (pEnd p) of
           None \<Rightarrow> (t, Some PieceError)
         | Some (status, body) \<Rightarrow>
             (case status_outcome status of
                Some oc \<Rightarrow> (t, Some oc)
              | None \<Rightarrow> body_loop disk now i body t))"

section \<open>The worker pool\<close>

record Download =
  d_file :: bytes
  d_coord :: PieceCoordinator
  d_counter :: int
  d_state :: DownloadState

datatype phase = Idle | Fetching int int int | Journaling int | Stopped

text \<open>What a worker does with the outcome of its piece.\<close>

definition after_piece :: "outcome \<Rightarrow> int \<Rightarrow> Download \<Rightarrow> Download \<times> phase" where
  "after_piece oc i d =
     (case oc of
        PieceOK \<Rightarrow> (d\<lparr>d_coord := MarkCompleted i (d_coord d)\<rparr>, Journaling i)
      | PieceCanceled \<Rightarrow> (d, Stopped)
      | _ \<Rightarrow> (d\<lparr>d_coord := RequeuePiece i (d_coord d)\<rparr>, Idle))"

definition transfer_of :: "Download \<Rightarrow> int \<Rightarrow> int \<Rightarrow> Transfer" where
  "transfer_of d off n =
     \<lparr>t_file = d_file d, t_coord = d_coord d, t_offset = off, t_read = n, t_counter = d_counter d\<rparr>"

definition put_transfer :: "Transfer \<Rightarrow> Download \<Rightarrow> Download" where
  "put_transfer t d = d\<lparr>d_file := t_file t, d_coord := t_coord t, d_counter := t_counter t\<rparr>"

text \<open>The next step of the worker with number \<open>w\<close>. \<open>honest\<close> says which body events the remote host may
  produce for a transfer that stands at an offset of a piece.\<close>

inductive dl_step ::
  "(Piece \<Rightarrow> int \<Rightarrow> body_event \<Rightarrow> bool) \<Rightarrow> Download \<times> (int \<Rightarrow> phase) \<Rightarrow> Download \<times> (int \<Rightarrow> phase) \<Rightarrow> bool"
  for host where
  finish: "ws w = Idle \<Longrightarrow> IsCompleted (d_coord d) \<Longrightarrow> dl_step host (d, ws) (d, ws(w := Stopped))"
| cancel: "ws w = Idle \<Longrightarrow> dl_step host (d, ws) (d, ws(w := Stopped))"
| take_piece: "ws w = Idle \<Longrightarrow> \<not> IsCompleted (d_coord d) \<Longrightarrow> NextPiece w now (d_coord d) = (Some i, pc) \<Longrightarrow>
    dl_step host (d, ws) (d\<lparr>d_coord := pc\<rparr>, ws(w := Fetching i (pStart (piece_at pc i)) 0))"
| wait: "ws w = Idle \<Longrightarrow> \<not> IsCompleted (d_coord d) \<Longrightarrow> NextPiece w now (d_coord d) = (None, pc) \<Longrightarrow>
    dl_step host (d, ws) (d\<lparr>d_coord := pc\<rparr>, ws)"
| refused: "ws w = Fetching i off 0 \<Longrightarrow> oc \<in> {PieceRateLimited, PieceError, PieceCanceled} \<Longrightarrow>
    after_piece oc i d = (d', ph) \<Longrightarrow> dl_step host (d, ws) (d', ws(w := ph))"
| transfer: "ws w = Fetching i off n \<Longrightarrow> host (piece_at (d_coord d) i) off ev \<Longrightarrow>
    body_turn disk now i ev (transfer_of d off n) = (t, None) \<Longrightarrow>
    dl_step host (d, ws) (put_transfer t d, ws(w := Fetching i (t_offset t) (t_read t)))"
| transferred: "ws w = Fetching i off n \<Longrightarrow> host (piece_at (d_coord d) i) off ev \<Longrightarrow>
    body_turn disk now i ev (transfer_of d off n) = (t, Some oc) \<Longrightarrow>
    after_piece oc i (put_transfer t d) = (d', ph) \<Longrightarrow> dl_step host (d, ws) (d', ws(w := ph))"
| journal_block: "ws w = Journaling i \<Longrightarrow> MarkBlockCompleted now (d_state d) i = Some st \<Longrightarrow>
    dl_step host (d, ws) (d\<lparr>d_state := st\<rparr>, ws(w := Idle))"

inductive_cases dl_stepE: "dl_step host (d, ws) (d', ws')"

section \<open>Setting a download up\<close>

record AcceleratedConfig =
  MaxConnections :: int
  MinBlockSize :: int
  MaxBlockSize :: int
  MinAccelerationBytes :: int
  StallTimeout :: duration
  MaxRetriesPerBlock :: int

definition DefaultAcceleratedConfig :: AcceleratedConfig where
  "DefaultAcceleratedConfig =
     \<lparr>MaxConnections = 20, MinBlockSize = 1 * 1024 * 1024, MaxBlockSize = 8 * 1024 * 1024,
      MinAccelerationBytes = 5 * 1024 * 1024, StallTimeout = 12 * Second, MaxRetriesPerBlock = 4\<rparr>"

text \<open>The configuration of \<^verbatim>\<open>NewAcceleratedDownloader\<close>; the HTTP client is the caller's.\<close>

definition NewAcceleratedDownloader :: "AcceleratedConfig option \<Rightarrow> AcceleratedConfig" where
  "NewAcceleratedDownloader config =
     (let cfg = DefaultAcceleratedConfig; pick = (\<lambda>f c. if f c > 0 then f c else f cfg :: int)
      in case config of
           None \<Rightarrow> cfg
         | Some c \<Rightarrow>
             \<lparr>MaxConnections = pick MaxConnections c, MinBlockSize = pick MinBlockSize c,
              MaxBlockSize = pick MaxBlockSize c, MinAccelerationBytes = pick MinAccelerationBytes c,
              StallTimeout = pick StallTimeout c, MaxRetriesPerBlock = pick MaxRetriesPerBlock c\<rparr>)"

text \<open>Steps 2 and 3 of \<^verbatim>\<open>DownloadToFile\<close>, after the probe: nothing when the file is not eligible. The
  saved journal is what \<^verbatim>\<open>LoadDownloadState\<close> gave (nothing on an error or without a state path) and \<open>send\<close>
  answers the integrity request.\<close>

definition setup_download ::
  "AcceleratedConfig \<Rightarrow> instant \<Rightarrow> string \<Rightarrow> string \<Rightarrow> string \<Rightarrow> string \<Rightarrow> bool \<Rightarrow> int \<Rightarrow>
   DownloadState option \<Rightarrow> (HeadRequest \<Rightarrow> HeadResponse option) \<Rightarrow> bytes \<Rightarrow> Download option" where
  "setup_download cfg now taskID targetURL execURL finalURL resumable totalBytes saved send file =
     (if \<not> resumable \<or> totalBytes < MinAccelerationBytes cfg then None
      else
        let blockSize = ComputeDynamicBlockSize totalBytes (MinBlockSize cfg) (MaxBlockSize cfg);
            restored = (case saved of
                None \<Rightarrow> None
              | Some st \<Rightarrow>
                  if TotalBytes (journal st) = totalBytes \<and> fst (ValidateRemoteIntegrity send st)
                  then Some st else None);
            state = (case restored of
                Some st \<Rightarrow> Some st
              | None \<Rightarrow> NewDownloadState now taskID targetURL execURL finalURL [] totalBytes blockSize);
            coord0 = NewPieceCoordinator totalBytes blockSize (StallTimeout cfg) (MaxRetriesPerBlock cfg)
        in case state of
             None \<Rightarrow> None
           | Some st \<Rightarrow>
               (case bitset st of
                  None \<Rightarrow> None
                | Some b \<Rightarrow>
                    let (coord, downloaded) =
                          (if bs_CompletedCount b > 0 then ApplyBitset coord0 b else (coord0, 0))
                    in Some \<lparr>d_file = Truncate totalBytes file, d_coord = coord,
                             d_counter = downloaded, d_state = st\<rparr>))"

definition worker_count :: "AcceleratedConfig \<Rightarrow> int list \<Rightarrow> PieceCoordinator \<Rightarrow> int" where
  "worker_count cfg maxThreads coord =
     (let c0 = (case maxThreads of m # _ \<Rightarrow> (if m > 0 then m else MaxConnections cfg) | [] \<Rightarrow> MaxConnections cfg);
          c1 = (if c0 \<le> 0 then 20 else c0);
          c2 = (if c1 > 32 then 32 else c1)
      in if pc_totalPieces coord < c2 then pc_totalPieces coord else c2)"

section \<open>The interface of the coordinator\<close>

text \<open>What the worker pool relies on: handing out, touching and requeueing pieces never changes which
  pieces are done, completing a piece adds just that one, and the pool is finished exactly when every
  piece is done.\<close>

locale piece_pool =
  fixes wf :: "'c \<Rightarrow> bool"
    and valid :: "int \<Rightarrow> bool"
    and finished_piece :: "'c \<Rightarrow> int \<Rightarrow> bool"
    and finished :: "'c \<Rightarrow> bool"
    and hand_out :: "int \<Rightarrow> instant \<Rightarrow> 'c \<Rightarrow> int option \<times> 'c"
    and complete :: "int \<Rightarrow> 'c \<Rightarrow> 'c"
    and requeue :: "int \<Rightarrow> 'c \<Rightarrow> 'c"
    and touch :: "instant \<Rightarrow> int \<Rightarrow> 'c \<Rightarrow> 'c"
  assumes finished_iff: "wf c \<Longrightarrow> finished c \<longleftrightarrow> (\<forall>i. valid i \<longrightarrow> finished_piece c i)"
    and hand_out_wf: "wf c \<Longrightarrow> hand_out w now c = (r, c') \<Longrightarrow> wf c'"
    and hand_out_done: "wf c \<Longrightarrow> hand_out w now c = (r, c') \<Longrightarrow> finished_piece c' i = finished_piece c i"
    and hand_out_open: "wf c \<Longrightarrow> hand_out w now c = (Some j, c') \<Longrightarrow> valid j \<and> \<not> finished_piece c j"
    and complete_wf: "wf c \<Longrightarrow> wf (complete j c)"
    and complete_done: "wf c \<Longrightarrow> finished_piece (complete j c) i \<longleftrightarrow> finished_piece c i \<or> (i = j \<and> valid j)"
    and requeue_wf: "wf c \<Longrightarrow> wf (requeue j c)"
    and requeue_done: "wf c \<Longrightarrow> finished_piece (requeue j c) i = finished_piece c i"
    and touch_wf: "wf c \<Longrightarrow> wf (touch now j c)"
    and touch_done: "wf c \<Longrightarrow> finished_piece (touch now j c) i = finished_piece c i"
begin

lemma complete_mono: "wf c \<Longrightarrow> finished_piece c i \<Longrightarrow> finished_piece (complete j c) i"
  by (simp add: complete_done)

lemma complete_idem: "wf c \<Longrightarrow> finished_piece (complete j (complete j c)) i = finished_piece (complete j c) i"
  by (auto simp: complete_done complete_wf)

lemma unfinished_open: "wf c \<Longrightarrow> hand_out w now c = (Some j, c') \<Longrightarrow> \<not> finished c'"
  using finished_iff hand_out_wf hand_out_open hand_out_done by blast

end

section \<open>Geometry of the pieces\<close>

definition geometry :: "Piece \<Rightarrow> int \<times> int \<times> int" where
  "geometry p = (pStart p, pEnd p, pLength p)"

definition done_count :: "Piece list \<Rightarrow> int" where
  "done_count ps = int (length (filter (\<lambda>p. pStatus p = PieceCompleted) ps))"

text \<open>The table has the pieces of a fresh coordinator, up to status and bookkeeping, and the counter is
  the number of completed ones.\<close>

definition pc_wf :: "int \<Rightarrow> int \<Rightarrow> PieceCoordinator \<Rightarrow> bool" where
  "pc_wf tot bs pc \<longleftrightarrow>
     pc_totalPieces pc = block_count tot bs \<and>
     map geometry (pc_pieces pc) = map (\<lambda>i. geometry (new_piece tot bs i)) [0 .. block_count tot bs - 1] \<and>
     pc_completed pc = done_count (pc_pieces pc)"

definition piece_done :: "PieceCoordinator \<Rightarrow> int \<Rightarrow> bool" where
  "piece_done pc i \<longleftrightarrow> in_table pc i \<and> pStatus (piece_at pc i) = PieceCompleted"

definition valid_piece :: "int \<Rightarrow> int \<Rightarrow> int \<Rightarrow> bool" where
  "valid_piece tot bs i \<longleftrightarrow> 0 \<le> i \<and> i < block_count tot bs"

lemma pc_wf_length: "pc_wf tot bs pc \<Longrightarrow> int (length (pc_pieces pc)) = block_count tot bs"
  using block_count_pos [of tot bs] by (auto simp: pc_wf_def dest!: arg_cong [where f = length])

lemma pc_wf_in_table: "pc_wf tot bs pc \<Longrightarrow> in_table pc i \<longleftrightarrow> valid_piece tot bs i"
  by (simp add: in_table_def valid_piece_def pc_wf_length)

lemma pc_wf_geometry:
  assumes "pc_wf tot bs pc" "valid_piece tot bs i"
  shows "geometry (piece_at pc i) = geometry (new_piece tot bs i)"
proof -
  have "nat i < length (pc_pieces pc)"
    using assms pc_wf_length [OF assms(1)] by (auto simp: valid_piece_def)
  then have "geometry (piece_at pc i) = map geometry (pc_pieces pc) ! nat i" by simp
  also have "\<dots> = geometry (new_piece tot bs i)"
    using assms by (simp add: pc_wf_def valid_piece_def nth_upto)
  finally show ?thesis .
qed

lemma new_piece_geometry:
  assumes "0 < bs" "0 \<le> tot" "tot + bs < 2 ^ 63" "valid_piece tot bs i"
  shows "pStart (new_piece tot bs i) = i * bs \<and> pEnd (new_piece tot bs i) = min (i * bs + bs) tot - 1
    \<and> pLength (new_piece tot bs i) = min (i * bs + bs) tot - i * bs \<and> 0 \<le> i * bs \<and> i * bs \<le> tot"
proof -
  have "i * bs \<le> tot"
  proof (cases "tot = 0")
    case True
    with assms have "i = 0" by (simp add: valid_piece_def block_count_eq)
    with True show ?thesis by simp
  next
    case False
    then have "(i + 1) * bs \<le> ((tot + bs - 1) div bs) * bs"
      using assms by (intro mult_right_mono) (auto simp: valid_piece_def block_count_eq)
    also have "\<dots> = tot + bs - 1 - (tot + bs - 1) mod bs" by (simp only: minus_mod_eq_div_mult)
    also have "\<dots> \<le> tot + bs - 1" using pos_mod_sign [OF assms(1), of "tot + bs - 1"] by linarith
    finally show ?thesis by (simp add: algebra_simps)
  qed
  moreover have "0 \<le> i * bs" using assms by (simp add: valid_piece_def)
  ultimately have "wrap64 (i * bs) = i * bs" "wrap64 (i * bs + bs - 1) = i * bs + bs - 1"
    using assms by (auto intro!: wrap64_id simp: is_int64_def)
  with \<open>i * bs \<le> tot\<close> \<open>0 \<le> i * bs\<close> show ?thesis by (simp add: new_piece_def Let_def)
qed

lemma byte_in_piece:
  assumes "0 < bs" "tot + bs < 2 ^ 63" "0 \<le> k" "k < tot"
  shows "valid_piece tot bs (k div bs) \<and> (k div bs) * bs \<le> k \<and> k < (k div bs) * bs + bs"
proof -
  have "k div bs \<le> (tot - 1) div bs" using assms by (intro zdiv_mono1) auto
  also have "(tot - 1) div bs + 1 = (tot - 1 + bs) div bs"
    using assms div_add_self2 [of bs "tot - 1"] by simp
  then have "(tot - 1) div bs < (tot - 1 + bs) div bs" by simp
  finally have "k div bs < block_count tot bs"
    using assms by (simp add: block_count_eq algebra_simps)
  moreover have "0 \<le> k div bs" using assms by (simp add: pos_imp_zdiv_nonneg_iff)
  moreover have e: "k div bs * bs = k - k mod bs" by (simp add: minus_mod_eq_div_mult)
  moreover have "0 \<le> k mod bs" "k mod bs < bs" using assms by auto
  ultimately show ?thesis unfolding e by (simp add: valid_piece_def)
qed

section \<open>Every coordinator operation keeps the table\<close>

lemma done_count_simps [simp]:
  "done_count [] = 0"
  "done_count (p # ps) = (if pStatus p = PieceCompleted then 1 else 0) + done_count ps"
  by (simp_all add: done_count_def)

lemma done_count_update:
  "k < length ps \<Longrightarrow> done_count (ps[k := p]) =
     done_count ps - (if pStatus (ps ! k) = PieceCompleted then 1 else 0)
       + (if pStatus p = PieceCompleted then 1 else 0)"
proof (induction ps arbitrary: k)
  case (Cons q ps)
  then show ?case using Cons.IH [of "k - 1"] by (cases k) simp_all
qed simp

lemma first_index_Some:
  "first_index P xs = Some k \<Longrightarrow> k < length xs \<and> P (xs ! k)"
  by (induction P xs arbitrary: k rule: first_index.induct) (auto split: if_splits)

lemma first_index_None: "first_index P xs = None \<longleftrightarrow> (\<forall>x \<in> set xs. \<not> P x)"
  by (induction P xs rule: first_index.induct) auto

text \<open>An update that leaves the geometry alone and does not touch completion.\<close>

lemma pc_wf_set_piece:
  assumes "pc_wf tot bs pc" "in_table pc i" "geometry p = geometry (piece_at pc i)"
    and "n = (if pStatus p = PieceCompleted then 1 else 0)
           - (if pStatus (piece_at pc i) = PieceCompleted then 1 else 0)"
  shows "pc_wf tot bs ((set_piece pc i p)\<lparr>pc_completed := pc_completed pc + n\<rparr>)"
proof -
  have "map geometry ((pc_pieces pc)[nat i := p]) = map geometry (pc_pieces pc)"
    using assms unfolding map_update
    by (intro list_update_same_conv [THEN iffD2]) (auto simp: in_table_def nat_less_iff)
  then show ?thesis
    using assms by (simp add: pc_wf_def set_piece_def done_count_update in_table_def nat_less_iff)
qed

lemma pc_wf_set_piece_same:
  assumes "pc_wf tot bs pc" "in_table pc i" "geometry p = geometry (piece_at pc i)"
    and "pStatus p = PieceCompleted \<longleftrightarrow> pStatus (piece_at pc i) = PieceCompleted"
  shows "pc_wf tot bs (set_piece pc i p)"
  using pc_wf_set_piece [OF assms(1-3) refl] assms(4) by (simp add: set_piece_def)

lemma piece_done_set_piece:
  "in_table pc i \<Longrightarrow> piece_done (set_piece pc i p) j \<longleftrightarrow>
     (if j = i then pStatus p = PieceCompleted else piece_done pc j)"
  by (auto simp: piece_done_def set_piece_def in_table_def nth_list_update)

lemma piece_done_counter [simp]: "piece_done (pc\<lparr>pc_completed := n\<rparr>) j = piece_done pc j"
  by (simp add: piece_done_def in_table_def)

lemma NextPiece_cases:
  assumes "NextPiece w now pc = (r, pc')"
  obtains "r = None" "pc' = pc"
  | k where "r = Some (int k)" "k < length (pc_pieces pc)" "pc' = set_piece pc (int k) (assign_piece w now (pc_pieces pc ! k))"
      "pStatus (pc_pieces pc ! k) = PiecePending \<or> stalled pc w now (pc_pieces pc ! k)"
proof (cases "first_index (\<lambda>p. pStatus p = PiecePending) (pc_pieces pc)")
  case (Some k)
  with first_index_Some [OF Some] assms show ?thesis by (intro that(2) [of k]) (simp_all add: NextPiece_def)
next
  case none: None
  show ?thesis
  proof (cases "first_index (stalled pc w now) (pc_pieces pc)")
    case (Some k)
    with first_index_Some [OF Some] none assms show ?thesis
      by (intro that(2) [of k]) (simp_all add: NextPiece_def)
  qed (use none assms that(1) in \<open>simp add: NextPiece_def\<close>)
qed

lemma geometry_updates [simp]:
  "geometry (p\<lparr>pStatus := st\<rparr>) = geometry p"
  "geometry (p\<lparr>pLastActive := t\<rparr>) = geometry p"
  "geometry (assign_piece w now p) = geometry p"
  by (simp_all add: geometry_def assign_piece_def)

lemma assign_status [simp]: "pStatus (assign_piece w now p) = PieceInFlight"
  by (simp add: assign_piece_def)

lemma NextPiece_keeps:
  assumes "pc_wf tot bs pc" "NextPiece w now pc = (r, pc')"
  shows "pc_wf tot bs pc' \<and> (piece_done pc' i \<longleftrightarrow> piece_done pc i) \<and>
    (\<forall>j. r = Some j \<longrightarrow> valid_piece tot bs j \<and> \<not> piece_done pc j)"
  using assms(2)
proof (cases rule: NextPiece_cases)
  case (2 k)
  then have t: "in_table pc (int k)" by (simp add: in_table_def)
  have s: "pStatus (pc_pieces pc ! k) \<noteq> PieceCompleted" using 2 by (auto simp: stalled_def)
  then have "pc_wf tot bs pc'" using 2 t assms(1) by (auto intro!: pc_wf_set_piece_same)
  moreover have "piece_done pc' i \<longleftrightarrow> piece_done pc i"
    using 2 t s by (auto simp: piece_done_set_piece) (auto simp: piece_done_def)
  moreover have "valid_piece tot bs (int k) \<and> \<not> piece_done pc (int k)"
    using t s assms(1) by (simp add: pc_wf_in_table piece_done_def)
  ultimately show ?thesis using 2 by simp
qed (use assms in simp)

lemma MarkCompleted_keeps:
  assumes "pc_wf tot bs pc"
  shows "pc_wf tot bs (MarkCompleted j pc) \<and>
    (piece_done (MarkCompleted j pc) i \<longleftrightarrow> piece_done pc i \<or> (i = j \<and> valid_piece tot bs j))"
proof (cases "in_table pc j \<and> pStatus (piece_at pc j) \<noteq> PieceCompleted")
  case True
  then have "pc_wf tot bs (MarkCompleted j pc)"
    unfolding MarkCompleted_def using assms by (simp add: pc_wf_set_piece)
  with True show ?thesis
    using assms by (auto simp: MarkCompleted_def piece_done_set_piece pc_wf_in_table)
next
  case False
  then show ?thesis
    using assms by (auto simp: MarkCompleted_def piece_done_def pc_wf_in_table)
qed

lemma RequeuePiece_keeps:
  assumes "pc_wf tot bs pc"
  shows "pc_wf tot bs (RequeuePiece j pc) \<and> (piece_done (RequeuePiece j pc) i \<longleftrightarrow> piece_done pc i)"
proof (cases "in_table pc j \<and> pStatus (piece_at pc j) \<noteq> PieceCompleted")
  case True
  then have "pc_wf tot bs (RequeuePiece j pc)"
    unfolding RequeuePiece_def using assms by (simp add: pc_wf_set_piece_same)
  with True show ?thesis
    by (auto simp: RequeuePiece_def piece_done_set_piece) (auto simp: piece_done_def)
qed (use assms in \<open>auto simp: RequeuePiece_def\<close>)

lemma TouchPiece_keeps:
  assumes "pc_wf tot bs pc"
  shows "pc_wf tot bs (TouchPiece now j pc) \<and> (piece_done (TouchPiece now j pc) i \<longleftrightarrow> piece_done pc i)"
proof (cases "in_table pc j")
  case True
  then have "pc_wf tot bs (TouchPiece now j pc)"
    unfolding TouchPiece_def using assms by (simp add: pc_wf_set_piece_same)
  with True show ?thesis
    by (auto simp: TouchPiece_def piece_done_set_piece) (auto simp: piece_done_def)
qed (use assms in \<open>auto simp: TouchPiece_def\<close>)

lemma done_count_full: "done_count ps \<ge> int (length ps) \<longleftrightarrow> (\<forall>p \<in> set ps. pStatus p = PieceCompleted)"
  using length_filter_le [of "\<lambda>p. pStatus p = PieceCompleted" ps]
  by (auto simp: done_count_def filter_id_conv dest: length_filter_less [of _ ps] intro: ccontr)

lemma IsCompleted_iff:
  assumes "pc_wf tot bs pc"
  shows "IsCompleted pc \<longleftrightarrow> (\<forall>i. valid_piece tot bs i \<longrightarrow> piece_done pc i)"
proof -
  have "IsCompleted pc \<longleftrightarrow> (\<forall>p \<in> set (pc_pieces pc). pStatus p = PieceCompleted)"
    using assms pc_wf_length [OF assms] done_count_full [of "pc_pieces pc"]
    by (simp add: IsCompleted_def pc_wf_def)
  also have "\<dots> \<longleftrightarrow> (\<forall>k < length (pc_pieces pc). pStatus (pc_pieces pc ! k) = PieceCompleted)"
    by (simp add: all_set_conv_all_nth)
  also have "\<dots> \<longleftrightarrow> (\<forall>i. in_table pc i \<longrightarrow> piece_done pc i)"
    by (auto simp: piece_done_def in_table_def) (metis nat_int of_nat_0_le_iff of_nat_less_iff)
  finally show ?thesis using assms by (simp add: pc_wf_in_table)
qed

interpretation pool: piece_pool "pc_wf tot bs" "valid_piece tot bs" piece_done IsCompleted
  NextPiece MarkCompleted RequeuePiece TouchPiece for tot bs
proof
  fix c c' :: PieceCoordinator and w now r i j
  assume c: "pc_wf tot bs c"
  show "IsCompleted c = (\<forall>i. valid_piece tot bs i \<longrightarrow> piece_done c i)" by (rule IsCompleted_iff [OF c])
  show "pc_wf tot bs c'" "piece_done c' i = piece_done c i" if "NextPiece w now c = (r, c')"
    using NextPiece_keeps [OF c that] by simp_all
  show "valid_piece tot bs j \<and> \<not> piece_done c j" if "NextPiece w now c = (Some j, c')"
    using NextPiece_keeps [OF c that] by simp
qed (simp_all add: MarkCompleted_keeps RequeuePiece_keeps TouchPiece_keeps)

section \<open>An honest remote host\<close>

text \<open>The bytes of a partial response are those of the requested range of the remote file, possibly cut
  short; reads and errors come in any pattern.\<close>

definition honest :: "bytes \<Rightarrow> Piece \<Rightarrow> int \<Rightarrow> body_event \<Rightarrow> bool" where
  "honest remote p off ev =
     (case ev of
        CtxDone \<Rightarrow> True
      | BodyRead d _ \<Rightarrow> off + int (length d) \<le> pEnd p + 1 \<and> d = take (length d) (drop (nat off) remote))"

definition range_ok :: "bytes \<Rightarrow> bytes \<Rightarrow> int \<Rightarrow> int \<Rightarrow> bool" where
  "range_ok remote f a b \<longleftrightarrow>
     (\<forall>k < length remote. a \<le> int k \<and> int k < b \<longrightarrow> f ! k = remote ! k)"

definition block_end :: "bytes \<Rightarrow> int \<Rightarrow> int \<Rightarrow> int" where
  "block_end remote bs i = min (i * bs + bs) (int (length remote))"

definition block_ok :: "bytes \<Rightarrow> bytes \<Rightarrow> int \<Rightarrow> int \<Rightarrow> bool" where
  "block_ok remote f bs i \<longleftrightarrow> range_ok remote f (i * bs) (block_end remote bs i)"

lemma range_ok_empty [simp]: "range_ok remote f a a"
  by (auto simp: range_ok_def)

lemma range_ok_join: "range_ok remote f a b \<Longrightarrow> range_ok remote f b c \<Longrightarrow> range_ok remote f a c"
  unfolding range_ok_def by (metis not_le)

lemma all_blocks_ok:
  assumes "0 < bs" "int (length remote) + bs < 2 ^ 63" "length f = length remote"
    and "\<And>i. valid_piece (int (length remote)) bs i \<Longrightarrow> block_ok remote f bs i"
  shows "f = remote"
proof (rule nth_equalityI [OF assms(3)])
  fix k assume k: "k < length f"
  let ?i = "int k div bs"
  have b: "valid_piece (int (length remote)) bs ?i" "?i * bs \<le> int k" "int k < ?i * bs + bs"
    using byte_in_piece [of bs "int (length remote)" "int k"] k assms by auto
  show "f ! k = remote ! k"
    using assms(4) [OF b(1), unfolded block_ok_def range_ok_def block_end_def, rule_format, of k]
      b(2,3) k assms(3) by simp
qed

text \<open>A write of the right bytes never damages a byte that was already right.\<close>

lemma WriteAt_honest:
  assumes "length f = length remote" "0 \<le> off" "off + int (length d) \<le> int (length remote)"
    and "d = take (length d) (drop (nat off) remote)"
  shows "length (WriteAt f off d) = length remote \<and>
    (range_ok remote f a b \<longrightarrow> range_ok remote (WriteAt f off d) a b) \<and>
    range_ok remote (WriteAt f off d) off (off + int (length d))"
proof -
  have W: "WriteAt f off d = take (nat off) f @ d @ drop (nat off + length d) f"
    using assms(1-3) by (simp add: WriteAt_def Let_def)
  have len: "length (WriteAt f off d) = length remote"
    using assms(1-3) unfolding W by (simp add: min_def nat_le_iff) linarith
  have d: "d ! j = remote ! (nat off + j)" if "j < length d" for j
    using that assms(3) by (subst assms(4)) (simp add: nth_take nth_drop)
  have "WriteAt f off d ! k = (if nat off \<le> k \<and> k < nat off + length d then remote ! k else f ! k)"
    if "k < length remote" for k
    using that assms(1-3) d [of "k - nat off"] unfolding W
    by (auto simp: nth_append min_def nth_drop)
  then show ?thesis using len assms(2) by (auto simp: range_ok_def)
qed

lemma WriteAt_honest_prefix:
  assumes "d = take (length d) (drop (nat off) remote)"
  shows "take k d = take (length (take k d)) (drop (nat off) remote)"
  using assms by (metis append_take_drop_id append_eq_conv_conj take_take)

definition fetch_ok :: "bytes \<Rightarrow> int \<Rightarrow> bytes \<Rightarrow> int \<Rightarrow> int \<Rightarrow> int \<Rightarrow> bool" where
  "fetch_ok remote bs f i off n \<longleftrightarrow>
     valid_piece (int (length remote)) bs i \<and> 0 \<le> n \<and> off = i * bs + n \<and> off \<le> block_end remote bs i \<and>
     range_ok remote f (i * bs) off"

lemma pc_wf_piece:
  assumes "0 < bs" "int (length remote) + bs < 2 ^ 63" "pc_wf (int (length remote)) bs pc"
    "valid_piece (int (length remote)) bs i"
  shows "pStart (piece_at pc i) = i * bs \<and> pEnd (piece_at pc i) + 1 = block_end remote bs i \<and>
    pLength (piece_at pc i) = block_end remote bs i - i * bs \<and>
    0 \<le> i * bs \<and> i * bs \<le> block_end remote bs i \<and> block_end remote bs i \<le> int (length remote)"
  using pc_wf_geometry [OF assms(3,4)] new_piece_geometry [OF assms(1) _ assms(2,4)] assms(1)
  by (simp add: geometry_def block_end_def min_def)

lemma body_turn_honest:
  assumes bs: "0 < bs" "int (length remote) + bs < 2 ^ 63"
    and wf: "pc_wf (int (length remote)) bs (t_coord t)" and len: "length (t_file t) = length remote"
    and ok: "fetch_ok remote bs (t_file t) i (t_offset t) (t_read t)"
    and host: "honest remote (piece_at (t_coord t) i) (t_offset t) ev"
    and turn: "body_turn disk now i ev t = (t', oc)"
  shows "pc_wf (int (length remote)) bs (t_coord t') \<and> length (t_file t') = length remote \<and>
    (\<forall>j. piece_done (t_coord t') j = piece_done (t_coord t) j) \<and>
    (\<forall>a b. range_ok remote (t_file t) a b \<longrightarrow> range_ok remote (t_file t') a b) \<and>
    fetch_ok remote bs (t_file t') i (t_offset t') (t_read t') \<and>
    (oc = Some PieceOK \<longrightarrow> block_ok remote (t_file t') bs i)"
proof (cases ev)
  case CtxDone
  then show ?thesis using turn wf len ok by (auto simp: body_turn_def)
next
  case (BodyRead d e)
  have v: "valid_piece (int (length remote)) bs i" using ok by (simp add: fetch_ok_def)
  note p = pc_wf_piece [OF bs wf v] and p' = pc_wf_piece [OF bs conjunct1 [OF TouchPiece_keeps [OF wf]] v]
  have d: "t_offset t + int (length d) \<le> block_end remote bs i" "d = take (length d) (drop (nat (t_offset t)) remote)"
    using host p by (simp_all add: BodyRead honest_def)
  have o: "0 \<le> t_offset t" using ok p by (simp add: fetch_ok_def)
  have w: "length (WriteAt (t_file t) (t_offset t) (take k d)) = length remote \<and>
    (range_ok remote (t_file t) a b \<longrightarrow> range_ok remote (WriteAt (t_file t) (t_offset t) (take k d)) a b) \<and>
    range_ok remote (WriteAt (t_file t) (t_offset t) (take k d)) (t_offset t) (t_offset t + int (length (take k d)))"
    for k a b
    using d(1) p by (intro WriteAt_honest [OF len o _ WriteAt_honest_prefix [OF d(2)]]) (simp add: min_def)
  show ?thesis
  proof (cases "d = []")
    case True
    then show ?thesis
      using turn wf len ok p
      by (auto simp: BodyRead body_turn_def Let_def fetch_ok_def block_ok_def split: option.splits read_err.splits if_splits)
  next
    case d0: False
    show ?thesis
    proof (cases "disk (t_offset t)")
      case (Some k)
      then have "t' = t\<lparr>t_file := WriteAt (t_file t) (t_offset t) (take k d)\<rparr>" "oc = Some PieceError"
        using turn d0 by (auto simp: BodyRead body_turn_def)
      then show ?thesis using w wf ok by (auto simp: fetch_ok_def)
    next
      case None
      let ?f = "WriteAt (t_file t) (t_offset t) d"
      have t': "t' = t\<lparr>t_file := ?f, t_offset := t_offset t + int (length d), t_read := t_read t + int (length d),
          t_counter := t_counter t + int (length d), t_coord := TouchPiece now i (t_coord t)\<rparr>"
        using turn d0 None by (auto simp: BodyRead body_turn_def Let_def)
      have full: "range_ok remote ?f (i * bs) (t_offset t + int (length d))"
        using w [of "length d" "i * bs" "t_offset t"] ok range_ok_join by (auto simp: fetch_ok_def)
      have "oc = Some PieceOK \<Longrightarrow> t_offset t + int (length d) = block_end remote bs i"
        using turn d0 None p' ok
        by (auto simp: BodyRead body_turn_def Let_def fetch_ok_def
            split: option.splits read_err.splits if_splits)
      then show ?thesis
        using w [of "length d"] wf full ok d(1)
        by (auto simp: t' fetch_ok_def block_ok_def TouchPiece_keeps)
    qed
  qed
qed

section \<open>Invariant of the worker pool\<close>

definition phase_ok :: "bytes \<Rightarrow> int \<Rightarrow> Download \<Rightarrow> phase \<Rightarrow> bool" where
  "phase_ok remote bs d ph =
     (case ph of
        Fetching i off n \<Rightarrow> fetch_ok remote bs (d_file d) i off n
      | Journaling i \<Rightarrow> piece_done (d_coord d) i
      | _ \<Rightarrow> True)"

definition dl_inv :: "bytes \<Rightarrow> int \<Rightarrow> Download \<times> (int \<Rightarrow> phase) \<Rightarrow> bool" where
  "dl_inv remote bs = (\<lambda>(d, ws).
     length (d_file d) = length remote \<and> pc_wf (int (length remote)) bs (d_coord d) \<and> ds_wf (d_state d) \<and>
     (\<forall>i. piece_done (d_coord d) i \<longrightarrow> block_ok remote (d_file d) bs i) \<and>
     (\<forall>i. block_done (d_state d) i \<longrightarrow> piece_done (d_coord d) i) \<and>
     (\<forall>w. phase_ok remote bs d (ws w)))"

text \<open>A step that only gains right bytes and completed pieces keeps every other worker's claim.\<close>

lemma phase_ok_mono:
  assumes "phase_ok remote bs d ph"
    and "\<And>a b. range_ok remote (d_file d) a b \<Longrightarrow> range_ok remote (d_file d') a b"
    and "\<And>i. piece_done (d_coord d) i \<Longrightarrow> piece_done (d_coord d') i"
  shows "phase_ok remote bs d' ph"
  using assms by (auto simp: phase_ok_def fetch_ok_def split: phase.splits)

lemma dl_inv_update:
  assumes inv: "dl_inv remote bs (d, ws)"
    and "length (d_file d') = length remote" "pc_wf (int (length remote)) bs (d_coord d')" "ds_wf (d_state d')"
    and keep: "\<And>a b. range_ok remote (d_file d) a b \<Longrightarrow> range_ok remote (d_file d') a b"
    and mono: "\<And>i. piece_done (d_coord d) i \<Longrightarrow> piece_done (d_coord d') i"
    and new: "\<And>i. piece_done (d_coord d') i \<Longrightarrow> piece_done (d_coord d) i \<or> block_ok remote (d_file d') bs i"
    and jr: "\<And>i. block_done (d_state d') i \<Longrightarrow> piece_done (d_coord d') i"
    and ph: "phase_ok remote bs d' ph"
  shows "dl_inv remote bs (d', ws(w := ph))"
proof -
  have old: "block_ok remote (d_file d') bs i" if "piece_done (d_coord d) i" for i
    using that inv keep unfolding dl_inv_def block_ok_def by simp
  have others: "phase_ok remote bs d' (ws v)" for v
  proof -
    have "phase_ok remote bs d (ws v)" using inv by (simp add: dl_inv_def)
    then show ?thesis by (rule phase_ok_mono) (fact keep, fact mono)
  qed
  have "block_ok remote (d_file d') bs i" if "piece_done (d_coord d') i" for i
    using new [OF that] old by blast
  with assms others show ?thesis unfolding dl_inv_def by simp
qed

lemma after_piece_inv:
  assumes inv: "dl_inv remote bs (d, ws)" and ap: "after_piece oc i d = (d', ph)"
    and ok: "oc = PieceOK \<Longrightarrow> valid_piece (int (length remote)) bs i \<and> block_ok remote (d_file d) bs i"
  shows "dl_inv remote bs (d', ws(w := ph))"
proof -
  have wf: "pc_wf (int (length remote)) bs (d_coord d)" using inv by (simp add: dl_inv_def)
  show ?thesis
    using ap inv ok MarkCompleted_keeps [OF wf, of i] RequeuePiece_keeps [OF wf, of i]
    by (intro dl_inv_update [OF inv])
      (auto simp: after_piece_def dl_inv_def phase_ok_def split: outcome.splits)
qed

lemma transfer_inv:
  assumes bs: "0 < bs" "int (length remote) + bs < 2 ^ 63"
    and inv: "dl_inv remote bs (d, ws)" and w: "ws w = Fetching i off n"
    and host: "honest remote (piece_at (d_coord d) i) off ev"
    and turn: "body_turn disk now i ev (transfer_of d off n) = (t, oc)"
  shows "dl_inv remote bs (put_transfer t d, ws(w := Fetching i (t_offset t) (t_read t))) \<and>
    (oc = Some PieceOK \<longrightarrow> block_ok remote (t_file t) bs i) \<and> valid_piece (int (length remote)) bs i"
proof -
  have f: "fetch_ok remote bs (d_file d) i off n"
    using inv w unfolding dl_inv_def by (auto simp: phase_ok_def dest!: spec [of _ w])
  have t: "pc_wf (int (length remote)) bs (t_coord t) \<and> length (t_file t) = length remote \<and>
    (\<forall>j. piece_done (t_coord t) j = piece_done (d_coord d) j) \<and>
    (\<forall>a b. range_ok remote (d_file d) a b \<longrightarrow> range_ok remote (t_file t) a b) \<and>
    fetch_ok remote bs (t_file t) i (t_offset t) (t_read t) \<and>
    (oc = Some PieceOK \<longrightarrow> block_ok remote (t_file t) bs i)"
    using body_turn_honest [OF bs _ _ _ _ turn] inv f host by (simp add: dl_inv_def transfer_of_def)
  have "dl_inv remote bs (put_transfer t d, ws(w := Fetching i (t_offset t) (t_read t)))"
    using t inv by (intro dl_inv_update [OF inv]) (auto simp: put_transfer_def dl_inv_def phase_ok_def)
  then show ?thesis using t f by (simp add: fetch_ok_def)
qed

lemma dl_step_inv:
  assumes bs: "0 < bs" "int (length remote) + bs < 2 ^ 63"
    and step: "dl_step (honest remote) s s'" and inv: "dl_inv remote bs s"
  shows "dl_inv remote bs s'"
  using step inv
proof cases
  case (finish ws w d)
  then show ?thesis using inv by (auto simp: dl_inv_def phase_ok_def)
next
  case (cancel ws w d)
  then show ?thesis using inv by (auto simp: dl_inv_def phase_ok_def)
next
  case (take_piece ws w d now i pc)
  then have wf: "pc_wf (int (length remote)) bs (d_coord d)" using inv by (simp add: dl_inv_def)
  note k = NextPiece_keeps [OF wf take_piece(5)]
  then have f: "fetch_ok remote bs (d_file d) i (pStart (piece_at pc i)) 0"
    using pc_wf_piece [OF bs, of pc i] by (simp add: fetch_ok_def)
  show ?thesis
    unfolding take_piece(2) using inv take_piece(1) k f
    by (intro dl_inv_update [of remote bs d ws]) (auto simp: dl_inv_def phase_ok_def)
next
  case (wait ws w d now pc)
  then have "pc = d_coord d" by (auto elim: NextPiece_cases)
  with wait inv show ?thesis by simp
next
  case (refused ws w i off oc d d' ph)
  then show ?thesis using after_piece_inv [of remote bs d ws oc i d' ph w] inv by auto
next
  case (transfer ws w i off n d ev disk now t)
  then show ?thesis using transfer_inv [OF bs] inv by auto
next
  case (transferred ws w i off n d ev disk now t oc d' ph)
  note t = transfer_inv [OF bs inv [unfolded transferred(1)] transferred(3-5)]
  have "dl_inv remote bs (d', (ws(w := Fetching i (t_offset t) (t_read t)))(w := ph))"
    using t by (intro after_piece_inv [OF _ transferred(6)]) (auto simp: put_transfer_def)
  then show ?thesis using transferred(2) by simp
next
  case (journal_block ws w i now d st)
  then have p: "piece_done (d_coord d) i" "ds_wf (d_state d)"
    using inv unfolding dl_inv_def by (auto simp: phase_ok_def dest!: spec [of _ w])
  then obtain st' where "MarkBlockCompleted now (d_state d) i = Some st'" "ds_wf st'"
      "\<And>j. block_done st' j \<longrightarrow> block_done (d_state d) j \<or> j = i"
    using MarkBlockCompleted_done by metis
  with journal_block(4) have st: "ds_wf st" "\<And>j. block_done st j \<longrightarrow> block_done (d_state d) j \<or> j = i"
    by auto
  show ?thesis
    unfolding journal_block(2) using inv journal_block(1) p st
    by (intro dl_inv_update [of remote bs d ws]) (auto simp: dl_inv_def phase_ok_def)
qed

lemma dl_steps_inv:
  "(dl_step (honest remote))\<^sup>*\<^sup>* s s' \<Longrightarrow> 0 < bs \<Longrightarrow> int (length remote) + bs < 2 ^ 63 \<Longrightarrow>
   dl_inv remote bs s \<Longrightarrow> dl_inv remote bs s'"
  by (induction rule: rtranclp_induct) (auto intro: dl_step_inv)

section \<open>The pool starts in its invariant\<close>

lemma NewPieceCoordinator_wf:
  assumes "0 < bs"
  shows "pc_wf tot bs (NewPieceCoordinator tot bs st r) \<and> \<not> piece_done (NewPieceCoordinator tot bs st r) i"
proof -
  have n: "\<forall>p \<in> set (map (new_piece tot bs) [0 .. block_count tot bs - 1]). pStatus p = PiecePending"
    by (auto simp: new_piece_def Let_def)
  then have "done_count (map (new_piece tot bs) [0 .. block_count tot bs - 1]) = 0"
    by (simp add: done_count_def filter_empty_conv)
  moreover have "\<not> piece_done (NewPieceCoordinator tot bs st r) i"
    using n assms
    by (auto simp: piece_done_def in_table_def NewPieceCoordinator_def Let_def default_block_def not_le
        new_piece_def)
  ultimately show ?thesis
    using assms by (simp add: pc_wf_def NewPieceCoordinator_def Let_def default_block_def comp_def)
qed

lemma apply_bits_keeps:
  assumes "pc_wf tot bs pc" "distinct is" "\<forall>i \<in> set is. valid_piece tot bs i \<and> \<not> piece_done pc i"
    and "apply_bits b is pc n = (pc', n')"
  shows "pc_wf tot bs pc' \<and> (piece_done pc' j \<longleftrightarrow> piece_done pc j \<or> (j \<in> set is \<and> bs_IsSet b j))"
  using assms
proof (induction b "is" pc n rule: apply_bits.induct)
  case (2 b i "is" pc n)
  let ?pc = "(set_piece pc i ((piece_at pc i)\<lparr>pStatus := PieceCompleted\<rparr>))\<lparr>pc_completed := pc_completed pc + 1\<rparr>"
  have i: "valid_piece tot bs i" "\<not> piece_done pc i" using 2(5) by auto
  then have m: "?pc = MarkCompleted i pc"
    using 2(3) by (simp add: MarkCompleted_def pc_wf_in_table piece_done_def)
  note k = MarkCompleted_keeps [OF 2(3), of i]
  show ?case
  proof (cases "bs_IsSet b i")
    case True
    then have "apply_bits b is (MarkCompleted i pc) (n + pLength (piece_at pc i)) = (pc', n')"
      using 2(6) m by simp
    then have "pc_wf tot bs pc' \<and> (piece_done pc' j \<longleftrightarrow> piece_done (MarkCompleted i pc) j \<or> (j \<in> set is \<and> bs_IsSet b j))"
      using 2(1) [OF True] 2(4,5) k m by auto
    then show ?thesis using k i True by auto
  next
    case False
    then show ?thesis using 2(2) [OF False] 2(3-6) by auto
  qed
qed simp

lemma ApplyBitset_keeps:
  assumes "pc_wf tot bs pc" "\<And>i. \<not> piece_done pc i" "ApplyBitset pc b = (pc', n')"
  shows "pc_wf tot bs pc' \<and> (piece_done pc' j \<longrightarrow> bs_IsSet b j) \<and>
    (bs_IsSet b j \<longrightarrow> j < block_count tot bs \<longrightarrow> piece_done pc' j)"
proof -
  have "pc_totalPieces pc = block_count tot bs" using assms(1) by (simp add: pc_wf_def)
  then have "pc_wf tot bs pc' \<and> (piece_done pc' j \<longleftrightarrow> piece_done pc j \<or>
      (j \<in> set [0 .. min (block_count tot bs) (bs_size b) - 1] \<and> bs_IsSet b j))"
    using assms(2,3) unfolding ApplyBitset_def
    by (intro apply_bits_keeps [OF assms(1)]) (auto simp: valid_piece_def)
  then show ?thesis using assms(2) by (auto simp: bs_IsSet_bit)
qed

lemma block_size_pos:
  "0 < MinBlockSize cfg \<Longrightarrow> 0 < MaxBlockSize cfg \<Longrightarrow>
   0 < ComputeDynamicBlockSize t (MinBlockSize cfg) (MaxBlockSize cfg)"
  by (auto simp: ComputeDynamicBlockSize_def Let_def)

lemma length_Truncate [simp]: "length (Truncate n f) = nat n"
  by (auto simp: Truncate_def)

definition resumable_state :: "bytes \<Rightarrow> int \<Rightarrow> bytes \<Rightarrow> DownloadState \<Rightarrow> bool" where
  "resumable_state remote bs f st \<longleftrightarrow>
     ds_wf st \<and> TotalBlocks (journal st) = block_count (int (length remote)) bs \<and>
     (\<forall>i. block_done st i \<longrightarrow> block_ok remote f bs i)"

lemma setup_download_Some:
  assumes "setup_download cfg now tid u eu fu res t saved send f = Some d"
  defines "bs \<equiv> ComputeDynamicBlockSize t (MinBlockSize cfg) (MaxBlockSize cfg)"
  defines "c0 \<equiv> NewPieceCoordinator t bs (StallTimeout cfg) (MaxRetriesPerBlock cfg)"
  shows "\<exists>st b. (saved = Some st \<or> NewDownloadState now tid u eu fu [] t bs = Some st) \<and> bitset st = Some b \<and>
    d_file d = Truncate t f \<and> d_state d = st \<and>
    d_coord d = fst (if bs_CompletedCount b > 0 then ApplyBitset c0 b else (c0, 0))"
proof -
  define state where "state = (case (case saved of None \<Rightarrow> None
      | Some st \<Rightarrow> if TotalBytes (journal st) = t \<and> fst (ValidateRemoteIntegrity send st) then Some st else None) of
        Some st \<Rightarrow> Some st | None \<Rightarrow> NewDownloadState now tid u eu fu [] t bs)"
  have or: "saved = Some st \<or> NewDownloadState now tid u eu fu [] t bs = Some st" if "state = Some st" for st
    using that by (auto simp: state_def split: option.splits if_splits)
  have "\<exists>st b. state = Some st \<and> bitset st = Some b \<and> d = \<lparr>d_file = Truncate t f,
      d_coord = fst (if bs_CompletedCount b > 0 then ApplyBitset c0 b else (c0, 0)),
      d_counter = snd (if bs_CompletedCount b > 0 then ApplyBitset c0 b else (c0, 0)), d_state = st\<rparr>"
    using assms(1) unfolding setup_download_def Let_def bs_def [symmetric] c0_def [symmetric] state_def [symmetric]
    by (auto split: if_split_asm option.splits simp: case_prod_beta)
  with or show ?thesis by fastforce
qed

lemma setup_inv:
  fixes cfg remote
  defines "bs \<equiv> ComputeDynamicBlockSize (int (length remote)) (MinBlockSize cfg) (MaxBlockSize cfg)"
  assumes cfg: "0 < MinBlockSize cfg" "0 < MaxBlockSize cfg" "int (length remote) + bs + 7 < 2 ^ 63"
    and start: "setup_download cfg now tid u eu fu res (int (length remote)) saved send f = Some d"
    and resumed: "\<And>st. saved = Some st \<Longrightarrow> resumable_state remote bs (Truncate (int (length remote)) f) st"
  shows "dl_inv remote bs (d, \<lambda>_. Idle)"
proof -
  let ?tot = "int (length remote)" and ?f = "Truncate (int (length remote)) f"
  let ?c0 = "NewPieceCoordinator ?tot bs (StallTimeout cfg) (MaxRetriesPerBlock cfg)"
  have bs: "0 < bs" "default_block bs = bs"
    unfolding bs_def using block_size_pos [OF cfg(1,2)] by (simp_all add: default_block_def not_le)
  obtain st b where st: "resumable_state remote bs ?f st" "bitset st = Some b"
    and d: "d_file d = ?f" "d_state d = st"
      "d_coord d = fst (if bs_CompletedCount b > 0 then ApplyBitset ?c0 b else (?c0, 0))"
  proof -
    obtain st0 where new: "NewDownloadState now tid u eu fu [] ?tot bs = Some st0" "ds_wf st0"
        "\<And>i. \<not> block_done st0 i" "TotalBlocks (journal st0) = block_count ?tot bs"
      by (rule NewDownloadState_wf [of ?tot bs now tid u eu fu "[]"]) (use bs cfg(3) in \<open>auto simp: add.commute\<close>)
    then have "resumable_state remote bs ?f st0" by (simp add: resumable_state_def)
    with that resumed new(1) setup_download_Some [OF start] show thesis
      unfolding bs_def [symmetric] by (metis option.inject)
  qed
  note new = NewPieceCoordinator_wf [OF bs(1), of ?tot "StallTimeout cfg" "MaxRetriesPerBlock cfg"]
  have wb: "bs_wf b" "bs_size b = block_count ?tot bs" and done_iff: "\<And>i. block_done st i = bs_IsSet b i"
    using st by (auto simp: resumable_state_def ds_wf_def block_done_def)
  have none: "\<not> bs_IsSet b i" if "\<not> bs_CompletedCount b > 0" for i
    using that bitset.members_finite [OF wb(1)] by (auto simp: bs_CompletedCount_card card_gt_0_iff)
  have "pc_wf ?tot bs (d_coord d) \<and> (piece_done (d_coord d) i \<longleftrightarrow> bs_IsSet b i)" for i
  proof (cases "bs_CompletedCount b > 0")
    case True
    obtain pc' n where a: "ApplyBitset ?c0 b = (pc', n)" by fastforce
    note k = ApplyBitset_keeps [OF conjunct1 [OF new] conjunct2 [OF new] a, of i]
    have "d_coord d = pc'" using d(3) True a by simp
    moreover have "bs_IsSet b i \<Longrightarrow> i < block_count ?tot bs" using wb(2) by (simp add: bs_IsSet_bit)
    ultimately show ?thesis using k by blast
  next
    case False
    then show ?thesis using d(3) new none by simp
  qed
  with st d done_iff show ?thesis
    by (auto simp: dl_inv_def phase_ok_def resumable_state_def)
qed

section \<open>Retries\<close>

datatype coord_op = OpNext int instant | OpDone int | OpRequeue int | OpTouch instant int

fun run_ops :: "coord_op list \<Rightarrow> PieceCoordinator \<Rightarrow> int \<times> PieceCoordinator" where
  "run_ops [] pc = (0, pc)"
| "run_ops (OpNext w now # ops) pc =
     (case NextPiece w now pc of
        (None, pc') \<Rightarrow> run_ops ops pc'
      | (Some _, pc') \<Rightarrow> (case run_ops ops pc' of (n, pc2) \<Rightarrow> (n + 1, pc2)))"
| "run_ops (OpDone i # ops) pc = run_ops ops (MarkCompleted i pc)"
| "run_ops (OpRequeue i # ops) pc = run_ops ops (RequeuePiece i pc)"
| "run_ops (OpTouch now i # ops) pc = run_ops ops (TouchPiece now i pc)"

definition attempts :: "PieceCoordinator \<Rightarrow> int" where
  "attempts pc = sum_list (map pAttempts (pc_pieces pc))"

definition retry_ok :: "PieceCoordinator \<Rightarrow> bool" where
  "retry_ok pc \<longleftrightarrow> (\<forall>p \<in> set (pc_pieces pc). pAttempts p \<le> pc_maxRetries pc \<and>
     (pStatus p = PiecePending \<longrightarrow> pAttempts p < pc_maxRetries pc))"

lemma sum_list_update_int:
  "k < length xs \<Longrightarrow> sum_list (xs[k := (y :: int)]) = sum_list xs - xs ! k + y"
proof (induction xs arbitrary: k)
  case (Cons x xs)
  then show ?case by (cases k) auto
qed simp

lemma attempts_set_piece:
  "in_table pc i \<Longrightarrow> attempts (set_piece pc i p) = attempts pc - pAttempts (piece_at pc i) + pAttempts p"
  by (simp add: attempts_def set_piece_def map_update sum_list_update_int in_table_def nat_less_iff)

lemma retry_ok_set_piece:
  "retry_ok pc \<Longrightarrow> pAttempts p \<le> pc_maxRetries pc \<Longrightarrow> (pStatus p = PiecePending \<Longrightarrow> pAttempts p < pc_maxRetries pc) \<Longrightarrow>
   retry_ok (set_piece pc i p)"
  by (auto simp: retry_ok_def set_piece_def dest!: subsetD [OF set_update_subset_insert])

lemma retry_ok_piece:
  assumes "retry_ok pc" "in_table pc i"
  shows "pAttempts (piece_at pc i) \<le> pc_maxRetries pc \<and>
    (pStatus (piece_at pc i) = PiecePending \<longrightarrow> pAttempts (piece_at pc i) < pc_maxRetries pc)"
  using assms by (auto simp: retry_ok_def in_table_def)

lemma retry_bookkeeping [simp]:
  "attempts (pc\<lparr>pc_completed := n\<rparr>) = attempts pc"
  "retry_ok (pc\<lparr>pc_completed := n\<rparr>) = retry_ok pc"
  "pc_maxRetries (set_piece pc i p) = pc_maxRetries pc"
  "length (pc_pieces (set_piece pc i p)) = length (pc_pieces pc)"
  by (simp_all add: attempts_def retry_ok_def set_piece_def)

lemma requeue_retry:
  assumes "retry_ok pc"
  shows "retry_ok (MarkCompleted i pc) \<and> retry_ok (RequeuePiece i pc) \<and> retry_ok (TouchPiece now i pc)"
    and "attempts (MarkCompleted i pc) = attempts pc" "attempts (RequeuePiece i pc) = attempts pc"
      "attempts (TouchPiece now i pc) = attempts pc"
  using assms retry_ok_piece [OF assms, of i]
  by (auto simp: MarkCompleted_def RequeuePiece_def TouchPiece_def attempts_set_piece
      intro!: retry_ok_set_piece)

lemma table_fixed [simp]:
  "pc_maxRetries (MarkCompleted i pc) = pc_maxRetries pc" "pc_maxRetries (RequeuePiece i pc) = pc_maxRetries pc"
  "pc_maxRetries (TouchPiece now i pc) = pc_maxRetries pc"
  "length (pc_pieces (MarkCompleted i pc)) = length (pc_pieces pc)"
  "length (pc_pieces (RequeuePiece i pc)) = length (pc_pieces pc)"
  "length (pc_pieces (TouchPiece now i pc)) = length (pc_pieces pc)"
  by (simp_all add: MarkCompleted_def RequeuePiece_def TouchPiece_def)

lemma NextPiece_retry:
  assumes "retry_ok pc" "NextPiece w now pc = (r, pc')"
  shows "retry_ok pc' \<and> attempts pc' = attempts pc + (if r = None then 0 else 1) \<and>
    pc_maxRetries pc' = pc_maxRetries pc \<and> length (pc_pieces pc') = length (pc_pieces pc)"
  using assms(2)
proof (cases rule: NextPiece_cases)
  case (2 k)
  then have t: "in_table pc (int k)" by (simp add: in_table_def)
  then have "pAttempts (pc_pieces pc ! k) < pc_maxRetries pc"
    using retry_ok_piece [OF assms(1) t] 2(4) by (auto simp: stalled_def)
  with 2 t assms(1) show ?thesis
    by (auto simp: attempts_set_piece assign_piece_def intro!: retry_ok_set_piece)
qed (use assms in simp)

lemma attempts_bound: "retry_ok pc \<Longrightarrow> attempts pc \<le> int (length (pc_pieces pc)) * pc_maxRetries pc"
proof -
  assume "retry_ok pc"
  then have "\<forall>a \<in> set (map pAttempts (pc_pieces pc)). a \<le> pc_maxRetries pc" by (auto simp: retry_ok_def)
  moreover have "\<forall>a \<in> set xs. a \<le> m \<Longrightarrow> sum_list xs \<le> int (length xs) * m" for xs m
    by (induction xs) (auto simp: algebra_simps)
  ultimately show ?thesis unfolding attempts_def by fastforce
qed

lemma run_ops_retry:
  "retry_ok pc \<Longrightarrow> run_ops ops pc = (n, pc') \<Longrightarrow>
   retry_ok pc' \<and> attempts pc' = attempts pc + n \<and> pc_maxRetries pc' = pc_maxRetries pc \<and>
   length (pc_pieces pc') = length (pc_pieces pc)"
proof (induction ops pc arbitrary: n pc' rule: run_ops.induct)
  case (2 w now ops pc)
  obtain r pc1 where s: "NextPiece w now pc = (r, pc1)" by fastforce
  note k = NextPiece_retry [OF 2(3) s]
  show ?case
  proof (cases r)
    case None
    then show ?thesis using 2(1) [OF s [symmetric] None] 2(4) s k by simp
  next
    case (Some i)
    obtain m where m: "run_ops ops pc1 = (m, pc')" "n = m + 1"
      using 2(4) s Some by (auto split: prod.splits)
    then show ?thesis using 2(2) [OF s [symmetric] Some] k Some by simp
  qed
next
  case (3 i ops pc)
  then show ?case using requeue_retry [OF 3(2)] by simp
next
  case (4 i ops pc)
  then show ?case using requeue_retry [OF 4(2)] by simp
next
  case (5 now i ops pc)
  then show ?case using requeue_retry [OF 5(2)] by simp
qed simp

lemma new_retry_ok: "0 < r \<Longrightarrow> retry_ok (NewPieceCoordinator t b st r) \<and> attempts (NewPieceCoordinator t b st r) = 0"
  by (auto simp: retry_ok_def attempts_def NewPieceCoordinator_def Let_def new_piece_def comp_def sum_list_0)

section \<open>Properties\<close>

text \<open>C5: a segmented download is correct under every interleaving of its workers, hedged duplicates,
  retries, short reads, disk errors and cancellations: if the coordinator reports completion, the file
  equals the remote file, byte for byte; and at every moment each block the journal records is right
  on disk, so that a later run may resume from it.\<close>

theorem accelerated_download_correct:
  fixes cfg remote
  defines "bs \<equiv> ComputeDynamicBlockSize (int (length remote)) (MinBlockSize cfg) (MaxBlockSize cfg)"
  assumes cfg: "0 < MinBlockSize cfg" "0 < MaxBlockSize cfg" "int (length remote) + bs + 7 < 2 ^ 63"
    and start: "setup_download cfg now tid u eu fu res (int (length remote)) saved send f = Some d0"
    and resumed: "\<And>st. saved = Some st \<Longrightarrow> resumable_state remote bs (Truncate (int (length remote)) f) st"
    and run: "(dl_step (honest remote))\<^sup>*\<^sup>* (d0, \<lambda>_. Idle) (d, ws)"
  shows "(IsCompleted (d_coord d) \<longrightarrow> d_file d = remote) \<and>
    (\<forall>i. block_done (d_state d) i \<longrightarrow> block_ok remote (d_file d) bs i)"
proof -
  have bs: "0 < bs" "int (length remote) + bs < 2 ^ 63"
    using cfg block_size_pos [OF cfg(1,2)] by (simp_all add: bs_def)
  have "dl_inv remote bs (d0, \<lambda>_. Idle)"
    unfolding bs_def by (rule setup_inv [OF cfg [unfolded bs_def] start resumed [unfolded bs_def]])
  then have inv: "dl_inv remote bs (d, ws)" using dl_steps_inv [OF run bs] by simp
  then have "IsCompleted (d_coord d) \<Longrightarrow> d_file d = remote"
    using pool.finished_iff [of "int (length remote)" bs "d_coord d"]
    by (intro all_blocks_ok [OF bs]) (auto simp: dl_inv_def)
  with inv show ?thesis by (auto simp: dl_inv_def)
qed

text \<open>no block is fetched for ever: whatever the workers do, and however often pieces stall or
  fail, the coordinator hands out at most \<^verbatim>\<open>MaxRetriesPerBlock\<close> attempts per piece.\<close>

theorem retries_bounded:
  assumes "0 < maxRetries"
  shows "fst (run_ops ops (NewPieceCoordinator totalBytes blockSize st maxRetries))
    \<le> block_count totalBytes (default_block blockSize) * maxRetries"
proof -
  let ?c = "NewPieceCoordinator totalBytes blockSize st maxRetries"
  obtain n pc' where r: "run_ops ops ?c = (n, pc')" by fastforce
  note k = run_ops_retry [OF conjunct1 [OF new_retry_ok [OF assms]] r]
  have len: "int (length (pc_pieces ?c)) = block_count totalBytes (default_block blockSize)"
    "pc_maxRetries ?c = maxRetries"
    using block_count_pos [of totalBytes "default_block blockSize"]
    by (simp_all add: NewPieceCoordinator_def Let_def)
  have "n = attempts pc'" using k new_retry_ok [OF assms] by simp
  also have "\<dots> \<le> int (length (pc_pieces pc')) * pc_maxRetries pc'" using k by (intro attempts_bound) simp
  finally show ?thesis using k len r by simp
qed

theorem retries_bounded_witness:
  "fst (run_ops [OpNext 0 0, OpRequeue 0, OpNext 1 5, OpRequeue 0, OpNext 0 9] (NewPieceCoordinator 10 16 3 2))
    \<le> block_count 10 (default_block 16) * 2"
  by (rule retries_bounded) simp

text \<open>when a piece has run out of retries and no transfer is under way, the download never ends by
  itself: completion is never reported, nothing changes any more, and every worker that is not
  cancelled keeps polling, so the error for incomplete downloads is never returned.\<close>

theorem failed_piece_polls_forever:
  assumes settled: "\<forall>p \<in> set (pc_pieces (d_coord d)). pStatus p \<in> {PieceCompleted, PieceFailed}"
    and failed: "\<exists>p \<in> set (pc_pieces (d_coord d)). pStatus p = PieceFailed"
    and wf: "pc_wf tot bs (d_coord d)"
    and quiet: "\<forall>w. ws w \<in> {Idle, Stopped}"
    and run: "(dl_step host)\<^sup>*\<^sup>* (d, ws) (d', ws')"
  shows "d' = d \<and> \<not> IsCompleted (d_coord d') \<and> (\<forall>w now. NextPiece w now (d_coord d') = (None, d_coord d'))"
proof -
  have np: "NextPiece w now (d_coord d) = (None, d_coord d)" for w now
  proof -
    have "first_index (\<lambda>p. pStatus p = PiecePending) (pc_pieces (d_coord d)) = None"
      "first_index (stalled (d_coord d) w now) (pc_pieces (d_coord d)) = None"
      using settled by (auto simp: first_index_None stalled_def)
    then show ?thesis by (simp add: NextPiece_def)
  qed
  have nc: "\<not> IsCompleted (d_coord d)"
  proof -
    have "\<not> (\<forall>p \<in> set (pc_pieces (d_coord d)). pStatus p = PieceCompleted)" using failed by fastforce
    then show ?thesis
      using wf pc_wf_length [OF wf] done_count_full [of "pc_pieces (d_coord d)"]
      by (simp add: IsCompleted_def pc_wf_def)
  qed
  have "d' = d \<and> (\<forall>w. ws' w \<in> {Idle, Stopped})"
    using run
  proof (induction rule: rtranclp_induct2)
    case refl
    then show ?case using quiet by simp
  next
    case (step d1 ws1 d2 ws2)
    then have s: "d1 = d" "\<forall>w. ws1 w = Idle \<or> ws1 w = Stopped" by auto
    then have nf: "ws1 w \<noteq> Fetching i off n" "ws1 w \<noteq> Journaling i" for w i off n
      by (metis phase.distinct)+
    from step(2) show ?case by cases (use s np nc nf in auto)
  qed
  with np nc show ?thesis by simp
qed

text \<open>a host that answers a range request with more bytes than were asked for gets them all
  written: the piece is rejected for its length, but only after the bytes behind it, which belong to
  the next pieces, have been overwritten, while those pieces stay marked as completed.\<close>

theorem overlong_body_overwrites:
  assumes "valid_piece tot bs i" "pc_wf tot bs coord" "body \<noteq> []" "int (length body) \<noteq> pLength (piece_at coord i)"
    and "0 \<le> pStart (piece_at coord i)"
    and "get (pStart (piece_at coord i)) (pEnd (piece_at coord i)) = Some (206, [BodyRead body None, BodyRead [] (Some ReadEOF)])"
  shows "\<exists>t. downloadPiece (\<lambda>_. None) now get i file counter coord = (t, Some PieceError) \<and>
    (\<forall>k < length body. t_file t ! (nat (pStart (piece_at coord i)) + k) = body ! k) \<and>
    (\<forall>j. piece_done (t_coord t) j = piece_done coord j)"
proof -
  let ?p = "piece_at coord i"
  have tab: "in_table coord i" using assms by (simp add: pc_wf_in_table)
  have same: "pLength (piece_at (TouchPiece now i coord) i) = pLength ?p"
    using tab by (simp add: TouchPiece_def set_piece_def in_table_def nat_less_iff)
  let ?t = "\<lparr>t_file = WriteAt file (pStart ?p) body, t_coord = TouchPiece now i coord,
      t_offset = pStart ?p + int (length body), t_read = int (length body), t_counter = counter + int (length body)\<rparr>"
  have "downloadPiece (\<lambda>_. None) now get i file counter coord = (?t, Some PieceError)"
    using assms(3,4,6) same by (simp add: downloadPiece_def status_outcome_def body_turn_def Let_def)
  moreover have "\<forall>k < length body. WriteAt file (pStart ?p) body ! (nat (pStart ?p) + k) = body ! k"
    by (auto simp: WriteAt_def Let_def nth_append min_def)
  moreover have "\<forall>j. piece_done (TouchPiece now i coord) j = piece_done coord j"
    using TouchPiece_keeps [OF assms(2)] by blast
  ultimately show ?thesis by auto
qed

text \<open>the journal of a fresh accelerated download stores the final URL where the entity tag belongs,
  so from any moment of the run the integrity check of the saved state fails against a host that
  sends an entity tag: an interrupted download is then never resumed.\<close>

theorem fresh_journal_never_validates:
  assumes start: "setup_download cfg now tid u eu fu res t None send0 f = Some d0"
    and run: "(dl_step host)\<^sup>*\<^sup>* (d0, \<lambda>_. Idle) (d, ws)"
    and url: "fu \<noteq> []"
    and tags: "\<And>req resp. send req = Some resp \<Longrightarrow> header_ETag resp \<noteq> [] \<and> header_ETag resp \<noteq> fu"
  shows "fst (ValidateRemoteIntegrity send (d_state d)) = False"
proof -
  have "ETag (journal (d_state d0)) = fu"
    using setup_download_Some [OF start] by (auto simp: NewDownloadState_def Let_def)
  with run have "ETag (journal (d_state d)) = fu"
  proof (induction rule: rtranclp_induct2)
    case (step d1 ws1 d2 ws2)
    from step(2) show ?case
      by cases (use step(3,4) in \<open>auto simp: after_piece_def put_transfer_def MarkBlockCompleted_def Let_def
          split: outcome.splits option.splits\<close>)
  qed simp
  with url tags show ?thesis
    by (auto simp: ValidateRemoteIntegrity_def Let_def split: option.splits)
qed

section \<open>Concrete runs\<close>

definition sample_cfg :: AcceleratedConfig where
  "sample_cfg = \<lparr>MaxConnections = 1, MinBlockSize = 2, MaxBlockSize = 2, MinAccelerationBytes = 1,
     StallTimeout = 5, MaxRetriesPerBlock = 1\<rparr>"

definition sample_d0 :: Download where
  "sample_d0 = the (setup_download sample_cfg 0 ''t'' ''u'' ''u'' ''u'' True 2 None (\<lambda>_. None) [])"

definition sample_d1 :: Download where
  "sample_d1 = sample_d0\<lparr>d_coord := snd (NextPiece 0 0 (d_coord sample_d0))\<rparr>"

definition sample_t2 :: Transfer where
  "sample_t2 = fst (body_turn (\<lambda>_. None) 1 0 (BodyRead [7] None) (transfer_of sample_d1 0 0))"

definition sample_d2 :: Download where
  "sample_d2 = put_transfer sample_t2 sample_d1"

definition sample_t3 :: Transfer where
  "sample_t3 = fst (body_turn (\<lambda>_. None) 1 0 (BodyRead [8] (Some ReadEOF)) (transfer_of sample_d2 1 1))"

definition sample_d3 :: Download where
  "sample_d3 = fst (after_piece PieceOK 0 (put_transfer sample_t3 sample_d2))"

lemma sample_setup:
  "setup_download sample_cfg 0 ''t'' ''u'' ''u'' ''u'' True 2 None (\<lambda>_. None) [] = Some sample_d0"
  by code_simp

lemma sample_take: "dl_step host (sample_d0, \<lambda>_. Idle) (sample_d1, (\<lambda>_. Idle)(0 := Fetching 0 0 0))"
proof -
  have n: "\<not> IsCompleted (d_coord sample_d0)"
    "NextPiece 0 0 (d_coord sample_d0) = (Some 0, snd (NextPiece 0 0 (d_coord sample_d0)))"
    "pStart (piece_at (snd (NextPiece 0 0 (d_coord sample_d0))) 0) = 0"
    by code_simp+
  show ?thesis unfolding sample_d1_def using dl_step.take_piece [of "\<lambda>_. Idle" 0, OF refl n(1,2)] n(3) by simp
qed

lemma sample_run:
  "(dl_step (honest [7, 8]))\<^sup>*\<^sup>* (sample_d0, \<lambda>_. Idle) (sample_d3, (\<lambda>_. Idle)(0 := Journaling 0))"
proof -
  have h1: "honest [7, 8] (piece_at (d_coord sample_d1) 0) 0 (BodyRead [7] None)"
    "body_turn (\<lambda>_. None) 1 0 (BodyRead [7] None) (transfer_of sample_d1 0 0) = (sample_t2, None)"
    "t_offset sample_t2 = 1" "t_read sample_t2 = 1"
    by code_simp+
  have h2: "honest [7, 8] (piece_at (d_coord sample_d2) 0) 1 (BodyRead [8] (Some ReadEOF))"
    "body_turn (\<lambda>_. None) 1 0 (BodyRead [8] (Some ReadEOF)) (transfer_of sample_d2 1 1) = (sample_t3, Some PieceOK)"
    "after_piece PieceOK 0 (put_transfer sample_t3 sample_d2) = (sample_d3, Journaling 0)"
    by code_simp+
  have "dl_step (honest [7, 8]) (sample_d1, (\<lambda>_. Idle)(0 := Fetching 0 0 0)) (sample_d2, (\<lambda>_. Idle)(0 := Fetching 0 1 1))"
    using dl_step.transfer [of "(\<lambda>_. Idle)(0 := Fetching 0 0 0)" 0 0 0 0 "honest [7, 8]", OF _ h1(1,2)] h1(3,4) by (simp add: sample_d2_def)
  moreover have "dl_step (honest [7, 8]) (sample_d2, (\<lambda>_. Idle)(0 := Fetching 0 1 1)) (sample_d3, (\<lambda>_. Idle)(0 := Journaling 0))"
    using dl_step.transferred [of "(\<lambda>_. Idle)(0 := Fetching 0 1 1)" 0 0 1 1 "honest [7, 8]", OF _ h2] by simp
  ultimately show ?thesis
    by (blast intro: converse_rtranclp_into_rtranclp [of "dl_step (honest [7, 8])", OF sample_take] rtranclp.intros)
qed

theorem accelerated_download_correct_witness:
  "IsCompleted (d_coord sample_d3) \<and> d_file sample_d3 = [7, 8]"
proof
  show c: "IsCompleted (d_coord sample_d3)" by code_simp
  have "(IsCompleted (d_coord sample_d3) \<longrightarrow> d_file sample_d3 = [7, 8]) \<and>
    (\<forall>i. block_done (d_state sample_d3) i \<longrightarrow> block_ok [7, 8] (d_file sample_d3)
      (ComputeDynamicBlockSize (int (length [7, 8 :: byte])) (MinBlockSize sample_cfg) (MaxBlockSize sample_cfg)) i)"
    by (rule accelerated_download_correct [of sample_cfg "[7, 8]", OF _ _ _ _ _ sample_run])
      (use sample_setup in \<open>auto simp: sample_cfg_def ComputeDynamicBlockSize_def\<close>)
  with c show "d_file sample_d3 = [7, 8]" by simp
qed

text \<open>The only attempt at the only piece is refused by the host: the piece fails and the pool polls.\<close>

definition sample_stuck :: Download where
  "sample_stuck = fst (after_piece PieceError 0 sample_d1)"

theorem failed_piece_polls_forever_witness:
  "(dl_step (honest [7, 8]))\<^sup>*\<^sup>* (sample_d0, \<lambda>_. Idle) (sample_stuck, (\<lambda>_. Idle)(0 := Idle)) \<and>
   \<not> IsCompleted (d_coord sample_stuck) \<and>
   (\<forall>w now. NextPiece w now (d_coord sample_stuck) = (None, d_coord sample_stuck))"
proof
  have a: "after_piece PieceError 0 sample_d1 = (sample_stuck, Idle)" by code_simp
  have "dl_step (honest [7, 8]) (sample_d1, (\<lambda>_. Idle)(0 := Fetching 0 0 0)) (sample_stuck, (\<lambda>_. Idle)(0 := Idle))"
    using dl_step.refused [of "(\<lambda>_. Idle)(0 := Fetching 0 0 0)" 0 0 0 PieceError, OF _ _ a] by simp
  then show "(dl_step (honest [7, 8]))\<^sup>*\<^sup>* (sample_d0, \<lambda>_. Idle) (sample_stuck, (\<lambda>_. Idle)(0 := Idle))"
    by (intro converse_rtranclp_into_rtranclp [of "dl_step (honest [7, 8])", OF sample_take] r_into_rtranclp)
  have p: "map pStatus (pc_pieces (d_coord sample_stuck)) = [PieceFailed]" by code_simp
  have wf: "pc_wf 2 2 (d_coord sample_stuck)" by code_simp
  have f: "p \<in> set (pc_pieces (d_coord sample_stuck)) \<Longrightarrow> pStatus p = PieceFailed" for p
    using p by (cases "pc_pieces (d_coord sample_stuck)") auto
  have ne: "\<exists>p. p \<in> set (pc_pieces (d_coord sample_stuck))" using p by (cases "pc_pieces (d_coord sample_stuck)") auto
  show "\<not> IsCompleted (d_coord sample_stuck) \<and>
      (\<forall>w now. NextPiece w now (d_coord sample_stuck) = (None, d_coord sample_stuck))"
    using failed_piece_polls_forever [OF _ _ wf, of "\<lambda>_. Idle" "honest [7, 8]" sample_stuck "\<lambda>_. Idle"] f ne by auto
qed

theorem overlong_body_overwrites_witness:
  "\<exists>t. downloadPiece (\<lambda>_. None) 0 (\<lambda>_ _. Some (206, [BodyRead [1, 1, 1] None, BodyRead [] (Some ReadEOF)])) 0
      [5, 5, 9, 9] 0 (NewPieceCoordinator 4 2 5 3) = (t, Some PieceError) \<and>
    (\<forall>k < length [1, 1, 1 :: byte]. t_file t ! (nat (pStart (piece_at (NewPieceCoordinator 4 2 5 3) 0)) + k) = [1, 1, 1] ! k) \<and>
    (\<forall>j. piece_done (t_coord t) j = piece_done (NewPieceCoordinator 4 2 5 3) j)"
proof (rule overlong_body_overwrites)
  show "pc_wf 4 2 (NewPieceCoordinator 4 2 5 3)" by (rule conjunct1 [OF NewPieceCoordinator_wf]) simp
  show "valid_piece 4 2 0" by code_simp
  show "int (length [1, 1, 1 :: byte]) \<noteq> pLength (piece_at (NewPieceCoordinator 4 2 5 3) 0)" by code_simp
  show "0 \<le> pStart (piece_at (NewPieceCoordinator 4 2 5 3) 0)" by code_simp
qed simp_all

theorem fresh_journal_never_validates_witness:
  "fst (ValidateRemoteIntegrity (\<lambda>_. Some \<lparr>StatusCode = 200, ContentLength = 2, header_ETag = ''abc''\<rparr>)
     (d_state sample_d3)) = False"
  by (rule fresh_journal_never_validates [OF sample_setup sample_run]) auto

end
