(* ===== verification/Download_Manager.thy ===== *)
theory Download_Manager
  imports Upload_Pipeline Accelerated Download_Links
begin

text \<open>
  The download manager: \<^verbatim>\<open>internal/download/manager.go\<close>, the task of \<^verbatim>\<open>internal/download/types.go\<close> and
  \<^verbatim>\<open>streamWithProgress\<close> of \<^verbatim>\<open>internal/download/torrent.go\<close>. A task is an object shared by the table of tasks
  and by the goroutine that executes it: \<open>dm_objs\<close> holds the objects, \<open>dm_tasks\<close> the keys of the table and
  \<open>dm_jobs\<close> the local variables of the goroutines. A goroutine advances by \<open>job_step\<close>, one action between
  two points where another goroutine can run; the requests of the interface are further events. What the
  transfer functions do to a task is a sequence of writes and callbacks.
\<close>

section \<open>Tasks\<close>

datatype DownloadStatus = StatusPending | StatusDownloading | StatusCompleted | StatusFailed | StatusCancelled

record DownloadTask =
  tk_OwnerID :: int
  tk_FolderID :: string
  tk_URL :: string
  tk_Type :: DownloadType
  tk_Filename :: string
  tk_MimeType :: string
  tk_TotalBytes :: int
  tk_DownloadedBytes :: int
  tk_Progress :: int
  tk_SpeedText :: string
  tk_Status :: DownloadStatus
  tk_StatusText :: string
  tk_ErrorMessage :: string
  tk_FileID :: string
  tk_CasHash :: string
  tk_PlaintextHash :: string
  tk_ActiveThreads :: int
  tk_MaxThreads :: int
  tk_CompletedBlocks :: int
  tk_TotalBlocks :: int
  tk_IsAccelerated :: bool
  tk_CreatedAt :: instant
  tk_CompletedAt :: "instant option"
  tk_cancelled :: bool \<comment> \<open>\<^verbatim>\<open>CancelFunc\<close> was called\<close>
  tk_reporter :: "int option" \<comment> \<open>the progress reporter of an accelerated attempt, with the usage it captured\<close>

text \<open>The points of \<^verbatim>\<open>executeDownload\<close> between which others may run.\<close>

datatype job_phase =
    NotStarted bool bytes
  | Transferring
  | WriteFailed
  | Flushing string string
  | Saving string string
  | Recording string bool string string
  | Marking string string

record Job =
  jb_key :: bytes
  jb_bw :: bufio
  jb_plain :: bytes \<comment> \<open>what the hasher has seen\<close>
  jb_used :: int
  jb_custom :: bool
  jb_phase :: job_phase

record DownloadManager =
  dm_cas :: CASEngine
  dm_fs :: fs
  dm_files :: "FileRow list"
  dm_TmpDir :: string
  dm_QuotaBytes :: int
  dm_tasks :: "string list"
  dm_objs :: "string \<Rightarrow> DownloadTask"
  dm_jobs :: "string \<rightharpoonup> Job"

record JobEnv =
  je_now :: instant
  je_fails :: faults
  je_part :: nat
  je_room :: "nat option"
  je_rnd :: bytes
  je_err :: string \<comment> \<open>the text of the error at hand\<close>
  je_stdKey :: bytes
  je_insertFails :: bool
  je_scale :: "int \<Rightarrow> int \<Rightarrow> int \<Rightarrow> int" \<comment> \<open>\<^verbatim>\<open>int(float64(a)/float64(b)*k)\<close>\<close>
  je_mimeOf :: "string \<Rightarrow> string" \<comment> \<open>\<^verbatim>\<open>mime.TypeByExtension\<close>\<close>

definition set_task :: "string \<Rightarrow> (DownloadTask \<Rightarrow> DownloadTask) \<Rightarrow> DownloadManager \<Rightarrow> DownloadManager" where
  "set_task i f dm = dm\<lparr>dm_objs := (dm_objs dm)(i := f (dm_objs dm i))\<rparr>"

definition failTask :: "instant \<Rightarrow> string \<Rightarrow> DownloadTask \<Rightarrow> DownloadTask" where
  "failTask now msg t =
     t\<lparr>tk_Status := StatusFailed, tk_StatusText := ''Gagal'', tk_SpeedText := ''Gagal'', tk_ErrorMessage := msg,
       tk_Progress := 0, tk_CompletedAt := Some now\<rparr>"

definition cancelTask :: "instant \<Rightarrow> DownloadTask \<Rightarrow> DownloadTask" where
  "cancelTask now t =
     t\<lparr>tk_Status := StatusCancelled, tk_StatusText := ''Dibatalkan'', tk_SpeedText := ''Dibatalkan'',
       tk_Progress := 0, tk_CompletedAt := Some now\<rparr>"

definition finished :: "DownloadStatus \<Rightarrow> bool" where
  "finished s \<longleftrightarrow> s \<in> {StatusCompleted, StatusFailed, StatusCancelled}"

section \<open>Requests\<close>

definition GetTask :: "string \<Rightarrow> DownloadManager \<Rightarrow> DownloadTask option" where
  "GetTask i dm = (if i \<in> set (dm_tasks dm) then Some (dm_objs dm i) else None)"

definition CancelTask :: "instant \<Rightarrow> string \<Rightarrow> DownloadManager \<Rightarrow> DownloadManager \<times> bool" where
  "CancelTask now i dm =
     (if i \<notin> set (dm_tasks dm) then (dm, False)
      else if tk_Status (dm_objs dm i) = StatusCompleted then (dm, False)
      else (set_task i (\<lambda>t. cancelTask now (t\<lparr>tk_cancelled := True\<rparr>)) dm, True))"

definition cancel_active :: "instant \<Rightarrow> DownloadTask \<Rightarrow> DownloadTask" where
  "cancel_active now t = (if finished (tk_Status t) then t else cancelTask now (t\<lparr>tk_cancelled := True\<rparr>))"

definition CancelAllTasks :: "instant \<Rightarrow> DownloadManager \<Rightarrow> DownloadManager" where
  "CancelAllTasks now dm = fold (\<lambda>i. set_task i (cancel_active now)) (dm_tasks dm) dm"

definition ListTasks :: "int \<Rightarrow> DownloadManager \<Rightarrow> (string \<times> DownloadTask) list" where
  "ListTasks ownerID dm =
     sort_key (\<lambda>(i, t). - tk_CreatedAt t)
       (filter (\<lambda>(i, t). tk_OwnerID t = ownerID) (map (\<lambda>i. (i, dm_objs dm i)) (dm_tasks dm)))"

definition DismissTask :: "string \<Rightarrow> int \<Rightarrow> DownloadManager \<Rightarrow> DownloadManager \<times> bool" where
  "DismissTask i ownerID dm =
     (if i \<in> set (dm_tasks dm) \<and> (ownerID = 0 \<or> tk_OwnerID (dm_objs dm i) = ownerID) \<and> finished (tk_Status (dm_objs dm i))
      then (dm\<lparr>dm_tasks := filter (\<lambda>k. k \<noteq> i) (dm_tasks dm)\<rparr>, True)
      else (dm, False))"

definition PruneOldTasks :: "instant \<Rightarrow> duration \<Rightarrow> DownloadManager \<Rightarrow> DownloadManager" where
  "PruneOldTasks now ttl dm =
     dm\<lparr>dm_tasks :=
       filter (\<lambda>i. let t = dm_objs dm i in
         \<not> (finished (tk_Status t) \<and> (case tk_CompletedAt t of None \<Rightarrow> False | Some c \<Rightarrow> now - c > ttl))) (dm_tasks dm)\<rparr>"

definition blank_task :: DownloadTask where
  "blank_task =
     \<lparr>tk_OwnerID = 0, tk_FolderID = [], tk_URL = [], tk_Type = DownloadTypeDirect, tk_Filename = [], tk_MimeType = [],
      tk_TotalBytes = 0, tk_DownloadedBytes = 0, tk_Progress = 0, tk_SpeedText = [], tk_Status = StatusPending, tk_StatusText = [],
      tk_ErrorMessage = [], tk_FileID = [], tk_CasHash = [], tk_PlaintextHash = [], tk_ActiveThreads = 0, tk_MaxThreads = 20,
      tk_CompletedBlocks = 0, tk_TotalBlocks = 0, tk_IsAccelerated = False, tk_CreatedAt = 0, tk_CompletedAt = None,
      tk_cancelled = False, tk_reporter = None\<rparr>"

definition NewDownloadManager :: "faults \<Rightarrow> CASEngine \<Rightarrow> fs \<Rightarrow> FileRow list \<Rightarrow> string \<Rightarrow> int \<Rightarrow> DownloadManager option" where
  "NewDownloadManager fails cas fs files tmpDir quotaBytes =
     (if fails (MkdirCall tmpDir) then None
      else Some \<lparr>dm_cas = cas, dm_fs = fs, dm_files = files, dm_TmpDir = tmpDir, dm_QuotaBytes = quotaBytes, dm_tasks = [],
                 dm_objs = (\<lambda>_. blank_task), dm_jobs = Map.empty\<rparr>)"

text \<open>Starting a task. What \<^verbatim>\<open>ResolveLink\<close>, \<^verbatim>\<open>ParseMagnetURI\<close> and \<^verbatim>\<open>ParseFilenameFromHeaders\<close> find in a link are
  arguments.\<close>

record LinkEnv =
  le_uni :: "string \<Rightarrow> string"
  le_Normalize :: "string \<Rightarrow> string"
  le_Resolved :: "string \<Rightarrow> string option"
  le_Magnet :: "string \<Rightarrow> string option"
  le_Header :: "string \<Rightarrow> string"

record DownloadOptions =
  do_OwnerID :: int
  do_FolderID :: string
  do_Link :: string
  do_FilenameOverride :: string
  do_IsVault :: bool
  do_VaultKey :: bytes
  do_MaxThreads :: int

definition initial_name :: "LinkEnv \<Rightarrow> DownloadOptions \<Rightarrow> DownloadType \<Rightarrow> string \<Rightarrow> string" where
  "initial_name le opts ty norm =
     (let resolved = (case le_Resolved le norm of Some f \<Rightarrow> f | None \<Rightarrow> []) in
      if do_FilenameOverride opts \<noteq> [] then CleanFilename (do_FilenameOverride opts) ''downloaded_file''
      else if resolved \<noteq> [] \<and> \<not> HasPrefix resolved ''download_'' then resolved
      else case ty of
          DownloadTypeMagnet \<Rightarrow>
            (case le_Magnet le norm of Some m \<Rightarrow> (if m \<noteq> [] then m else ''torrent_download.bin'') | None \<Rightarrow> ''torrent_download.bin'')
        | DownloadTypeDirect \<Rightarrow> le_Header le norm)"

definition max_threads :: "int \<Rightarrow> int" where
  "max_threads n = (let n = (if n \<le> 0 then 20 else n) in if n > 32 then 32 else n)"

definition new_task_id :: "JobEnv \<Rightarrow> string" where
  "new_task_id env = ''dl_'' @ Itoa (je_now env div Second) @ ''_'' @ hex_encode (je_rnd env)"

definition StartDownloadWithOptions ::
  "JobEnv \<Rightarrow> LinkEnv \<Rightarrow> DownloadOptions \<Rightarrow> DownloadManager \<Rightarrow> DownloadManager \<times> string option" where
  "StartDownloadWithOptions env le opts dm =
     (let norm = le_Normalize le (do_Link opts) in
      if norm = [] then (dm, None)
      else case DetectLinkType (le_uni le) (le_Normalize le) norm of
          None \<Rightarrow> (dm, None)
        | Some ty \<Rightarrow>
            let i = new_task_id env;
                task = \<lparr>tk_OwnerID = do_OwnerID opts, tk_FolderID = do_FolderID opts, tk_URL = norm, tk_Type = ty,
                        tk_Filename = initial_name le opts ty norm, tk_MimeType = [], tk_TotalBytes = 0, tk_DownloadedBytes = 0,
                        tk_Progress = 5, tk_SpeedText = ''Menghubungkan...'', tk_Status = StatusDownloading,
                        tk_StatusText = ''Menghubungkan...'', tk_ErrorMessage = [], tk_FileID = [], tk_CasHash = [],
                        tk_PlaintextHash = [], tk_ActiveThreads = 0, tk_MaxThreads = max_threads (do_MaxThreads opts),
                        tk_CompletedBlocks = 0, tk_TotalBlocks = 0, tk_IsAccelerated = False, tk_CreatedAt = je_now env,
                        tk_CompletedAt = None, tk_cancelled = False, tk_reporter = None\<rparr>;
                job = \<lparr>jb_key = [], jb_bw = \<lparr>bw_disk = [], bw_room = None, bw_buf = [], bw_err = False\<rparr>, jb_plain = [],
                       jb_used = 0, jb_custom = do_FilenameOverride opts \<noteq> [],
                       jb_phase = NotStarted (do_IsVault opts) (do_VaultKey opts)\<rparr>
            in (dm\<lparr>dm_tasks := List.insert i (dm_tasks dm), dm_objs := (dm_objs dm)(i := task),
                   dm_jobs := (dm_jobs dm)(i \<mapsto> job)\<rparr>, Some i))"

text \<open>A batch: the links that cannot be started are left out.\<close>

fun start_each :: "LinkEnv \<Rightarrow> DownloadOptions \<Rightarrow> (JobEnv \<times> string) list \<Rightarrow> DownloadManager \<Rightarrow> DownloadManager \<times> string list" where
  "start_each le opts [] dm = (dm, [])"
| "start_each le opts ((env, l) # rest) dm =
     (case StartDownloadWithOptions env le (opts\<lparr>do_Link := l, do_FilenameOverride := [], do_MaxThreads := 20\<rparr>) dm of
        (dm1, r) \<Rightarrow> (case start_each le opts rest dm1 of (dm2, ids) \<Rightarrow> (dm2, (case r of None \<Rightarrow> [] | Some i \<Rightarrow> [i]) @ ids)))"

definition StartBatchDownload ::
  "LinkEnv \<Rightarrow> DownloadOptions \<Rightarrow> (JobEnv \<times> string) list \<Rightarrow> DownloadManager \<Rightarrow> DownloadManager \<times> string list option" where
  "StartBatchDownload le opts links dm =
     (case start_each le opts links dm of (dm', created) \<Rightarrow> (dm', if created = [] then None else Some created))"

section \<open>The goroutine of a task\<close>

definition job_temp :: "DownloadManager \<Rightarrow> string \<Rightarrow> string" where
  "job_temp dm i = path_Join [dm_TmpDir dm, (''hornetz_dl_'' @ i) @ ''.tmp'']"

definition put_job :: "string \<Rightarrow> Job \<Rightarrow> DownloadManager \<Rightarrow> DownloadManager" where
  "put_job i j dm = dm\<lparr>dm_jobs := (dm_jobs dm)(i \<mapsto> j)\<rparr>"

text \<open>The bytes of the open file are visible under its name as long as nobody has removed it.\<close>

definition put_temp :: "string \<Rightarrow> bytes \<Rightarrow> DownloadManager \<Rightarrow> DownloadManager" where
  "put_temp i d dm =
     (if dm_fs dm (job_temp dm i) = None then dm else dm\<lparr>dm_fs := (dm_fs dm)(job_temp dm i \<mapsto> d)\<rparr>)"

text \<open>The deferred calls: the buffer is flushed into the open file, which is removed unless the task completed.\<close>

definition end_job :: "JobEnv \<Rightarrow> string \<Rightarrow> Job \<Rightarrow> DownloadManager \<Rightarrow> DownloadManager" where
  "end_job env i j dm =
     (let temp = job_temp dm i;
          fs1 = dm_fs (put_temp i (bw_disk (bufio_Flush (jb_bw j))) dm)
      in dm\<lparr>dm_jobs := (dm_jobs dm)(i := None),
            dm_fs := (if tk_Status (dm_objs dm i) \<noteq> StatusCompleted then os_Remove (je_fails env) temp fs1 else fs1)\<rparr>)"

definition fail_job :: "JobEnv \<Rightarrow> string \<Rightarrow> string \<Rightarrow> Job \<Rightarrow> DownloadManager \<Rightarrow> DownloadManager" where
  "fail_job env msg i j dm = end_job env i j (set_task i (failTask (je_now env) msg) dm)"

definition quota_message :: string where
  "quota_message = ''Kapasitas penyimpanan terlampaui (Storage quota exceeded)''"

definition job_key :: "JobEnv \<Rightarrow> bool \<Rightarrow> bytes \<Rightarrow> bytes option" where
  "job_key env isVault vaultKey =
     (if isVault then (if vaultKey \<noteq> [] \<and> vaultKey \<noteq> je_stdKey env then Some vaultKey else None)
      else Some (je_stdKey env))"

definition begin_job :: "JobEnv \<Rightarrow> bool \<Rightarrow> bytes \<Rightarrow> string \<Rightarrow> Job \<Rightarrow> DownloadManager \<Rightarrow> DownloadManager" where
  "begin_job env isVault vaultKey i j dm =
     (case os_Create (je_fails env) (job_temp dm i) (dm_fs dm) of
        None \<Rightarrow> fail_job env (''failed to create temporary file: '' @ je_err env) i j dm
      | Some fs \<Rightarrow>
          let dm = dm\<lparr>dm_fs := fs\<rparr>; used = GetUserStorageUsed (tk_OwnerID (dm_objs dm i)) (dm_files dm) in
          (case job_key env isVault vaultKey of
             None \<Rightarrow> fail_job env ''Vault locked. Master password required to download into vault folder.'' i j dm
           | Some vk \<Rightarrow>
               if aes_NewCipher vk = None then fail_job env (''failed to initialize encryption stream: '' @ je_err env) i j dm
               else if dm_QuotaBytes dm > 0 \<and> used \<ge> dm_QuotaBytes dm then fail_job env quota_message i j dm
               else put_job i (j\<lparr>jb_key := vk, jb_used := used, jb_phase := Transferring,
                      jb_bw := \<lparr>bw_disk = [], bw_room = je_room env, bw_buf = [], bw_err = False\<rparr>\<rparr>) dm))"

text \<open>A write into the encryption stream and, when that succeeds, into the hasher.\<close>

definition write_job :: "bytes \<Rightarrow> string \<Rightarrow> Job \<Rightarrow> DownloadManager \<Rightarrow> DownloadManager" where
  "write_job p i j dm =
     (case bufio_Write (packet (cipher_NewGCM (jb_key j)) (jb_key j) p) (jb_bw j) of (b, ok) \<Rightarrow>
        put_job i (if ok then j\<lparr>jb_bw := b, jb_plain := jb_plain j @ p\<rparr> else j\<lparr>jb_bw := b, jb_phase := WriteFailed\<rparr>)
          (put_temp i (bw_disk b) dm))"

text \<open>The callbacks: \<^verbatim>\<open>onProgress\<close>, \<^verbatim>\<open>onProgressAccel\<close> and the two \<^verbatim>\<open>onMeta\<close>.\<close>

definition over_quota :: "Job \<Rightarrow> int \<Rightarrow> DownloadManager \<Rightarrow> bool" where
  "over_quota j downloaded dm \<longleftrightarrow> dm_QuotaBytes dm > 0 \<and> wrap64 (jb_used j + downloaded) > dm_QuotaBytes dm"

definition refuse_quota :: "JobEnv \<Rightarrow> DownloadTask \<Rightarrow> DownloadTask" where
  "refuse_quota env t = failTask (je_now env) quota_message (t\<lparr>tk_cancelled := True\<rparr>)"

definition percent :: "JobEnv \<Rightarrow> int \<Rightarrow> int \<Rightarrow> int \<Rightarrow> int \<Rightarrow> int" where
  "percent env k cap downloaded tot =
     (if tot > 0 then 5 + (let calc = je_scale env downloaded tot k in if calc > cap then cap else calc) else 45)"

definition on_progress :: "JobEnv \<Rightarrow> int \<Rightarrow> int \<Rightarrow> string \<Rightarrow> string \<Rightarrow> Job \<Rightarrow> DownloadManager \<Rightarrow> DownloadManager" where
  "on_progress env downloaded tot speed i j dm =
     (if over_quota j downloaded dm then set_task i (refuse_quota env) dm
      else set_task i (\<lambda>t. t\<lparr>tk_DownloadedBytes := downloaded, tk_TotalBytes := (if tot > 0 then tot else tk_TotalBytes t),
             tk_SpeedText := speed, tk_StatusText := ''Mengunduh...'', tk_Progress := percent env 90 92 downloaded tot\<rparr>) dm)"

definition on_progress_accel ::
  "JobEnv \<Rightarrow> int \<Rightarrow> int \<Rightarrow> string \<Rightarrow> int \<Rightarrow> int \<Rightarrow> int \<Rightarrow> string \<Rightarrow> int \<Rightarrow> DownloadManager \<Rightarrow> DownloadManager" where
  "on_progress_accel env downloaded tot speed threads blocks totalBlocks i used dm =
     (if dm_QuotaBytes dm > 0 \<and> wrap64 (used + downloaded) > dm_QuotaBytes dm then set_task i (refuse_quota env) dm
      else set_task i (\<lambda>t. t\<lparr>tk_DownloadedBytes := downloaded, tk_TotalBytes := (if tot > 0 then tot else tk_TotalBytes t),
             tk_SpeedText := speed, tk_ActiveThreads := threads, tk_CompletedBlocks := blocks, tk_TotalBlocks := totalBlocks,
             tk_StatusText := ''Mengunduh ('' @ Itoa threads @ '' thread akselerasi)...'',
             tk_Progress := percent env 88 90 downloaded tot\<rparr>) dm)"

definition on_meta :: "bool \<Rightarrow> string \<Rightarrow> string \<Rightarrow> int \<Rightarrow> string \<Rightarrow> Job \<Rightarrow> DownloadManager \<Rightarrow> DownloadManager" where
  "on_meta direct filename mime tot i j dm =
     set_task i (\<lambda>t. t\<lparr>
       tk_Filename := (if \<not> jb_custom j \<and> filename \<noteq> [] \<and> \<not> HasPrefix filename ''download_'' then filename else tk_Filename t),
       tk_TotalBytes := (if tot > 0 then tot else tk_TotalBytes t),
       tk_MimeType := (if mime \<noteq> [] then mime else tk_MimeType t),
       tk_StatusText := (if direct then ''Mengunduh...'' else tk_StatusText t)\<rparr>) dm"

text \<open>A transfer that returns: with an error the task is cancelled or failed, otherwise the final name is fixed.\<close>

datatype transfer_result = TransferError | DirectResult string string int | MagnetResult string

definition stop_job :: "JobEnv \<Rightarrow> string \<Rightarrow> string \<Rightarrow> Job \<Rightarrow> DownloadManager \<Rightarrow> DownloadManager" where
  "stop_job env msg i j dm =
     (if tk_cancelled (dm_objs dm i) then end_job env i j (set_task i (cancelTask (je_now env)) dm)
      else fail_job env msg i j dm)"

definition failure_message :: "JobEnv \<Rightarrow> DownloadTask \<Rightarrow> string" where
  "failure_message env t =
     (case tk_Type t of DownloadTypeDirect \<Rightarrow> ''Direct download failed: '' | DownloadTypeMagnet \<Rightarrow> ''Torrent download failed: '') @ je_err env"

definition return_job :: "JobEnv \<Rightarrow> transfer_result \<Rightarrow> string \<Rightarrow> Job \<Rightarrow> DownloadManager \<Rightarrow> DownloadManager" where
  "return_job env r i j dm =
     (case r of
        TransferError \<Rightarrow> stop_job env (failure_message env (dm_objs dm i)) i j dm
      | DirectResult filename mime tot \<Rightarrow>
          let final = (if jb_custom j \<and> tk_Filename (dm_objs dm i) \<noteq> [] then tk_Filename (dm_objs dm i) else filename)
          in put_job i (j\<lparr>jb_phase := Flushing final mime\<rparr>) (set_task i (\<lambda>t. t\<lparr>tk_TotalBytes := tot\<rparr>) dm)
      | MagnetResult displayName \<Rightarrow>
          let mime = je_mimeOf env (path_Ext displayName)
          in put_job i (j\<lparr>jb_phase := Flushing displayName (if mime = [] then ''application/octet-stream'' else mime)\<rparr>) dm)"

definition flush_job :: "string \<Rightarrow> string \<Rightarrow> string \<Rightarrow> Job \<Rightarrow> DownloadManager \<Rightarrow> DownloadManager" where
  "flush_job name mime i j dm =
     (let b = bufio_Flush (jb_bw j) in
      put_job i (j\<lparr>jb_bw := b, jb_phase := Saving name mime\<rparr>)
        (set_task i (\<lambda>t. t\<lparr>tk_StatusText := ''Menyimpan ke CAS...'', tk_Progress := 95, tk_Filename := name, tk_MimeType := mime\<rparr>)
          (put_temp i (bw_disk b) dm)))"

definition save_job :: "JobEnv \<Rightarrow> string \<Rightarrow> string \<Rightarrow> string \<Rightarrow> Job \<Rightarrow> DownloadManager \<Rightarrow> DownloadManager" where
  "save_job env name mime i j dm =
     (case MoveToCASWithStatus (je_fails env) (je_part env) (job_temp dm i) (dm_cas dm, dm_fs dm) of
        ((cas, fs), None) \<Rightarrow>
          fail_job env (''Failed to store encrypted payload in CAS: '' @ je_err env) i j (dm\<lparr>dm_cas := cas, dm_fs := fs\<rparr>)
      | ((cas, fs), Some (casHash, existedBefore)) \<Rightarrow>
          put_job i (j\<lparr>jb_phase := Recording casHash existedBefore name mime\<rparr>) (dm\<lparr>dm_cas := cas, dm_fs := fs\<rparr>))"

definition record_job :: "JobEnv \<Rightarrow> string \<Rightarrow> bool \<Rightarrow> string \<Rightarrow> string \<Rightarrow> string \<Rightarrow> Job \<Rightarrow> DownloadManager \<Rightarrow> DownloadManager" where
  "record_job env casHash existedBefore name mime i j dm =
     (let t = dm_objs dm i;
          fileID = ''file_'' @ Itoa (je_now env div Second) @ ''_'' @ take 8 (GenerateID (je_rnd env))
      in if je_insertFails env then
           fail_job env (''Failed to record downloaded file in database: '' @ je_err env) i j
             (if existedBefore then dm
              else dm\<lparr>dm_fs := os_Remove (je_fails env) (cas_Path (dm_cas dm) casHash) (dm_fs dm)\<rparr>)
         else
           put_job i (j\<lparr>jb_phase := Marking fileID casHash\<rparr>)
             (dm\<lparr>dm_files := dm_files dm @
                [\<lparr>f_id = fileID, f_owner = tk_OwnerID t,
                  f_folder = (if tk_FolderID t \<noteq> [] \<and> tk_FolderID t \<noteq> ''root'' then tk_FolderID t else []),
                  f_name = name, f_mime = mime, f_size = tk_DownloadedBytes t, f_cas = casHash,
                  f_plain = hash_of (jb_plain j), f_deleted = False\<rparr>]\<rparr>))"

definition mark_job :: "JobEnv \<Rightarrow> string \<Rightarrow> string \<Rightarrow> string \<Rightarrow> Job \<Rightarrow> DownloadManager \<Rightarrow> DownloadManager" where
  "mark_job env fileID casHash i j dm =
     end_job env i j
       (set_task i (\<lambda>t. t\<lparr>tk_Status := StatusCompleted, tk_StatusText := ''Selesai'', tk_SpeedText := ''Idle'', tk_Progress := 100,
          tk_FileID := fileID, tk_CasHash := casHash, tk_PlaintextHash := hash_of (jb_plain j),
          tk_CompletedAt := Some (je_now env)\<rparr>) dm)"

text \<open>The actions of a goroutine and the phases in which they happen.\<close>

datatype job_act =
    Begin
  | Wrote bytes
  | Report int int string
  | ReportAccel int int string int int int
  | Meta bool string string int
  | AccelStarted
  | AccelFetched
  | AccelFailed
  | RewindFailed
  | CopyFailed
  | BadMagnet
  | Returned transfer_result
  | Advance

definition copy_failed :: "JobEnv \<Rightarrow> string \<Rightarrow> Job \<Rightarrow> DownloadManager \<Rightarrow> DownloadManager" where
  "copy_failed env i j dm = fail_job env (''Encryption stream failed: '' @ je_err env) i j dm"

definition transfer_act :: "JobEnv \<Rightarrow> job_act \<Rightarrow> string \<Rightarrow> Job \<Rightarrow> DownloadManager \<Rightarrow> DownloadManager" where
  "transfer_act env act i j dm =
     (case act of
        Wrote p \<Rightarrow> write_job p i j dm
      | Report d t s \<Rightarrow> on_progress env d t s i j dm
      | ReportAccel d t s n b tb \<Rightarrow> on_progress_accel env d t s n b tb i (jb_used j) dm
      | Meta direct f m t \<Rightarrow> on_meta direct f m t i j dm
      | AccelStarted \<Rightarrow> set_task i (\<lambda>t. t\<lparr>tk_IsAccelerated := True, tk_reporter := Some (jb_used j)\<rparr>) dm
      | AccelFetched \<Rightarrow>
          set_task i (\<lambda>t. t\<lparr>tk_StatusText := ''Mengenkripsi ke CAS...'', tk_SpeedText := ''Optimizing...'', tk_ActiveThreads := 0,
            tk_Progress := 92\<rparr>) dm
      | AccelFailed \<Rightarrow>
          if tk_cancelled (dm_objs dm i) then end_job env i j (set_task i (cancelTask (je_now env)) dm)
          else set_task i (\<lambda>t. t\<lparr>tk_IsAccelerated := False, tk_ActiveThreads := 1\<rparr>) dm
      | RewindFailed \<Rightarrow> fail_job env (''Failed rewinding scratch file: '' @ je_err env) i j dm
      | CopyFailed \<Rightarrow> copy_failed env i j dm
      | BadMagnet \<Rightarrow> fail_job env (''Invalid magnet link: '' @ je_err env) i j dm
      | Returned r \<Rightarrow> return_job env r i j dm
      | _ \<Rightarrow> dm)"

definition job_step :: "JobEnv \<Rightarrow> string \<Rightarrow> job_act \<Rightarrow> DownloadManager \<Rightarrow> DownloadManager" where
  "job_step env i act dm =
     (case dm_jobs dm i of
        None \<Rightarrow> dm
      | Some j \<Rightarrow>
          (case jb_phase j of
             NotStarted isVault vaultKey \<Rightarrow> if act = Begin then begin_job env isVault vaultKey i j dm else dm
           | Transferring \<Rightarrow> transfer_act env act i j dm
           | WriteFailed \<Rightarrow> if act = Returned TransferError then return_job env TransferError i j dm
               else if act = CopyFailed then copy_failed env i j dm else dm
           | Flushing name mime \<Rightarrow> if act = Advance then flush_job name mime i j dm else dm
           | Saving name mime \<Rightarrow> if act = Advance then save_job env name mime i j dm else dm
           | Recording h e name mime \<Rightarrow> if act = Advance then record_job env h e name mime i j dm else dm
           | Marking f h \<Rightarrow> if act = Advance then mark_job env f h i j dm else dm))"

text \<open>The goroutine that reports the progress of an accelerated attempt is stopped when the attempt ends, but nobody
  waits for it: a report can come at any time later, when the task is stored, completed or failed as well.\<close>

definition late_report :: "JobEnv \<Rightarrow> int \<Rightarrow> int \<Rightarrow> string \<Rightarrow> int \<Rightarrow> int \<Rightarrow> int \<Rightarrow> string \<Rightarrow> DownloadManager \<Rightarrow> DownloadManager" where
  "late_report env downloaded tot speed threads blocks totalBlocks i dm =
     (case tk_reporter (dm_objs dm i) of
        None \<Rightarrow> dm
      | Some used \<Rightarrow> on_progress_accel env downloaded tot speed threads blocks totalBlocks i used dm)"

text \<open>A goroutine that runs without interruption.\<close>

definition executeDownload :: "JobEnv \<Rightarrow> job_act list \<Rightarrow> string \<Rightarrow> DownloadManager \<Rightarrow> DownloadManager" where
  "executeDownload env transfer i dm =
     fold (job_step env i) ([Begin] @ transfer @ [Advance, Advance, Advance, Advance]) dm"

text \<open>\<^verbatim>\<open>streamWithProgress\<close>: a turn of its loop finds the context cancelled or reads from the source; a report is due
  when 350 milliseconds have passed. The result are the actions and how the loop returned, if it did.\<close>

datatype src_turn = CtxStop | SrcRead bytes "read_err option" "string option"

fun streamWithProgress :: "int \<Rightarrow> int \<Rightarrow> src_turn list \<Rightarrow> job_act list \<times> bool option" where
  "streamWithProgress tot downloaded [] = ([], None)"
| "streamWithProgress tot downloaded (CtxStop # turns) = ([], Some False)"
| "streamWithProgress tot downloaded (SrcRead p e due # turns) =
     (let downloaded' = downloaded + int (length p);
          acts = (if p = [] then []
                  else Wrote p # (case due of None \<Rightarrow> [] | Some speed \<Rightarrow> [Report downloaded' tot speed]))
      in case e of
           Some ReadEOF \<Rightarrow> (acts @ [Report downloaded' tot ''Idle''], Some True)
         | Some ReadFail \<Rightarrow> (acts, Some False)
         | None \<Rightarrow> (case streamWithProgress tot downloaded' turns of (acts', r) \<Rightarrow> (acts @ acts', r)))"

text \<open>The actions of a transfer whose \<open>n\<close>th write into the destination fails.\<close>

fun cut_write :: "nat \<Rightarrow> job_act list \<Rightarrow> job_act list option" where
  "cut_write n [] = None"
| "cut_write n (Wrote p # acts) = (if n = 0 then Some [Wrote p] else map_option ((#) (Wrote p)) (cut_write (n - 1) acts))"
| "cut_write n (act # acts) = map_option ((#) act) (cut_write n acts)"

section \<open>Events\<close>

datatype dm_event =
    JobEvent JobEnv string job_act
  | LateReport JobEnv string int int string int int int
  | Start JobEnv LinkEnv DownloadOptions
  | Cancel instant string
  | CancelAll instant
  | Dismiss string int
  | Prune instant duration

definition handle_event :: "dm_event \<Rightarrow> DownloadManager \<Rightarrow> DownloadManager" where
  "handle_event ev dm =
     (case ev of
        JobEvent env i act \<Rightarrow> job_step env i act dm
      | LateReport env i d t s n b tb \<Rightarrow> late_report env d t s n b tb i dm
      | Start env le opts \<Rightarrow> fst (StartDownloadWithOptions env le opts dm)
      | Cancel now i \<Rightarrow> fst (CancelTask now i dm)
      | CancelAll now \<Rightarrow> CancelAllTasks now dm
      | Dismiss i ownerID \<Rightarrow> fst (DismissTask i ownerID dm)
      | Prune now ttl \<Rightarrow> PruneOldTasks now ttl dm)"

text \<open>What an event relies on: the disk has room and removes files, inserts succeed, a transfer writes at most
  10 MiB at a time, bytes about to be stored have no other blob with their SHA-256, and a new task has a new id.\<close>

definition no_collision :: "DownloadManager \<Rightarrow> string \<Rightarrow> bool" where
  "no_collision dm i \<longleftrightarrow>
     (\<forall>j name mime d d'. dm_jobs dm i = Some j \<longrightarrow> jb_phase j = Saving name mime \<longrightarrow> dm_fs dm (job_temp dm i) = Some d \<longrightarrow>
        blob_at (dm_cas dm, dm_fs dm) (hash_of d) = Some d' \<longrightarrow> d' = d)"

definition calm :: "JobEnv \<Rightarrow> bool" where
  "calm env \<longleftrightarrow> je_room env = None \<and> \<not> je_insertFails env \<and> (\<forall>p. \<not> je_fails env (RemoveCall p) \<and> \<not> je_fails env (StatCall p))"

definition act_ok :: "job_act \<Rightarrow> bool" where
  "act_ok act \<longleftrightarrow> (case act of Wrote p \<Rightarrow> p \<noteq> [] \<and> length p \<le> 10 * 1024 * 1024 | _ \<Rightarrow> True)"

definition event_ok :: "dm_event \<Rightarrow> DownloadManager \<Rightarrow> bool" where
  "event_ok ev dm \<longleftrightarrow>
     (case ev of
        JobEvent env i act \<Rightarrow> calm env \<and> act_ok act \<and> no_collision dm i
      | Start env le opts \<Rightarrow> dm_jobs dm (new_task_id env) = None
      | _ \<Rightarrow> True)"

inductive dm_step :: "DownloadManager \<Rightarrow> DownloadManager \<Rightarrow> bool" where
  "event_ok ev dm \<Longrightarrow> dm_step dm (handle_event ev dm)"

section \<open>Invariant\<close>

definition stored :: "bytes \<Rightarrow> bytes \<Rightarrow> string \<Rightarrow> DownloadManager \<Rightarrow> bool" where
  "stored key x h dm \<longleftrightarrow>
     aes_NewCipher key \<noteq> None \<and> (\<exists>d. blob_at (dm_cas dm, dm_fs dm) h = Some d \<and> framed key x d)"

definition has_row :: "string \<Rightarrow> string \<Rightarrow> string \<Rightarrow> DownloadManager \<Rightarrow> bool" where
  "has_row fileID h plain dm \<longleftrightarrow>
     (\<exists>row \<in> set (dm_files dm). f_id row = fileID \<and> f_cas row = h \<and> f_plain row = plain)"

definition job_ok :: "DownloadManager \<Rightarrow> string \<Rightarrow> Job \<Rightarrow> bool" where
  "job_ok dm i j \<longleftrightarrow>
     (let key = jb_key j; x = jb_plain j; b = jb_bw j;
          buffered = (aes_NewCipher key \<noteq> None \<and> roomy b \<and> framed key x (bw_disk b @ bw_buf b) \<and> dm_fs dm (job_temp dm i) \<noteq> None)
      in case jb_phase j of
           NotStarted _ _ \<Rightarrow> x = []
         | WriteFailed \<Rightarrow> True
         | Transferring \<Rightarrow> buffered
         | Flushing _ _ \<Rightarrow> buffered
         | Saving _ _ \<Rightarrow> aes_NewCipher key \<noteq> None \<and> (\<exists>d. dm_fs dm (job_temp dm i) = Some d \<and> framed key x d)
         | Recording h _ _ _ \<Rightarrow> stored key x h dm
         | Marking fileID h \<Rightarrow> stored key x h dm \<and> has_row fileID h (hash_of x) dm)"

definition task_ok :: "DownloadManager \<Rightarrow> DownloadTask \<Rightarrow> bool" where
  "task_ok dm t \<longleftrightarrow>
     (tk_Status t = StatusCompleted \<longrightarrow>
        (\<exists>key x. stored key x (tk_CasHash t) dm \<and> tk_PlaintextHash t = hash_of x) \<and>
        has_row (tk_FileID t) (tk_CasHash t) (tk_PlaintextHash t) dm)"

definition dm_inv :: "DownloadManager \<Rightarrow> bool" where
  "dm_inv dm \<longleftrightarrow>
     cas_inv (dm_cas dm, dm_fs dm) \<and> (\<forall>i. task_ok dm (dm_objs dm i)) \<and>
     (\<forall>i j. dm_jobs dm i = Some j \<longrightarrow> CHR ''/'' \<notin> set i \<and> tk_Status (dm_objs dm i) \<noteq> StatusCompleted \<and> job_ok dm i j)"

text \<open>The temporary files: no blob, and one per task.\<close>

lemma job_temp_outside: "outside_store st (job_temp dm i)"
proof -
  have "\<exists>w. path_Join [dm_TmpDir dm, (''hornetz_dl_'' @ i) @ ''.tmp''] = w @ ''.tmp''"
    by (rule path_Join_suffix) (auto simp: append_eq_Cons_conv)
  then obtain w where "job_temp dm i = w @ ''.tmp''" by (auto simp: job_temp_def simp del: path_Join.simps)
  then show ?thesis by (rule outside_store_ext) (simp_all add: is_hex_char_def less_eq_char_def)
qed

lemma job_temp_inject:
  assumes "CHR ''/'' \<notin> set i" "CHR ''/'' \<notin> set k" "job_temp dm i = job_temp dm k"
  shows "i = k"
proof -
  have "plain_name ((''hornetz_dl_'' @ i) @ ''.tmp'')" "plain_name ((''hornetz_dl_'' @ k) @ ''.tmp'')"
    using assms(1,2) by (simp_all add: plain_name_def)
  from path_Join_plain_inject [OF this] assms(3) show ?thesis by (simp add: job_temp_def del: path_Join.simps)
qed

text \<open>What an action of the goroutine of \<open>i\<close> leaves to the others.\<close>

definition grows :: "string \<Rightarrow> DownloadManager \<Rightarrow> DownloadManager \<Rightarrow> bool" where
  "grows i dm dm' \<longleftrightarrow>
     cas_inv (dm_cas dm', dm_fs dm') \<and> cas_Path (dm_cas dm') = cas_Path (dm_cas dm) \<and> dm_TmpDir dm' = dm_TmpDir dm \<and>
     (\<forall>h d. blob_at (dm_cas dm, dm_fs dm) h = Some d \<longrightarrow> blob_at (dm_cas dm', dm_fs dm') h = Some d) \<and>
     (\<forall>k. CHR ''/'' \<notin> set k \<longrightarrow> k \<noteq> i \<longrightarrow> dm_fs dm' (job_temp dm k) = dm_fs dm (job_temp dm k)) \<and>
     set (dm_files dm) \<subseteq> set (dm_files dm') \<and>
     (\<forall>k. k \<noteq> i \<longrightarrow> dm_objs dm' k = dm_objs dm k \<and> dm_jobs dm' k = dm_jobs dm k)"

lemma job_temp_cong: "dm_TmpDir dm' = dm_TmpDir dm \<Longrightarrow> job_temp dm' = job_temp dm"
  by (simp add: job_temp_def fun_eq_iff)

lemma job_temp_upd [simp]:
  "job_temp (dm\<lparr>dm_fs := a\<rparr>) = job_temp dm" "job_temp (dm\<lparr>dm_objs := b\<rparr>) = job_temp dm"
  "job_temp (dm\<lparr>dm_jobs := c\<rparr>) = job_temp dm" "job_temp (dm\<lparr>dm_cas := d\<rparr>) = job_temp dm"
  "job_temp (dm\<lparr>dm_files := e\<rparr>) = job_temp dm"
  by (simp_all add: job_temp_def fun_eq_iff)

lemma stored_grows: "grows i dm dm' \<Longrightarrow> stored key x h dm \<Longrightarrow> stored key x h dm'"
  by (auto simp: stored_def grows_def)

lemma has_row_grows: "grows i dm dm' \<Longrightarrow> has_row f h p dm \<Longrightarrow> has_row f h p dm'"
  by (auto simp: has_row_def grows_def)

lemma job_ok_grows:
  assumes "grows i dm dm'" "k \<noteq> i" "CHR ''/'' \<notin> set k" "job_ok dm k j"
  shows "job_ok dm' k j"
proof -
  have "dm_fs dm' (job_temp dm' k) = dm_fs dm (job_temp dm k)"
    using assms(1-3) job_temp_cong [of dm' dm] by (auto simp: grows_def)
  with assms(4) stored_grows [OF assms(1)] has_row_grows [OF assms(1)] show ?thesis
    by (auto simp: job_ok_def Let_def split: job_phase.splits)
qed

lemma task_ok_grows: "grows i dm dm' \<Longrightarrow> task_ok dm t \<Longrightarrow> task_ok dm' t"
  using stored_grows has_row_grows by (fastforce simp: task_ok_def)

lemma dm_inv_grows:
  assumes "dm_inv dm" "grows i dm dm'" "task_ok dm' (dm_objs dm' i)"
    and "\<And>j. dm_jobs dm' i = Some j \<Longrightarrow> CHR ''/'' \<notin> set i \<and> tk_Status (dm_objs dm' i) \<noteq> StatusCompleted \<and> job_ok dm' i j"
  shows "dm_inv dm'"
proof -
  have other: "dm_objs dm' k = dm_objs dm k" "dm_jobs dm' k = dm_jobs dm k" if "k \<noteq> i" for k
    using assms(2) that by (simp_all add: grows_def)
  have "task_ok dm' (dm_objs dm' k)" for k
    using assms(1,3) other task_ok_grows [OF assms(2)] by (cases "k = i") (simp_all add: dm_inv_def)
  moreover have "CHR ''/'' \<notin> set k \<and> tk_Status (dm_objs dm' k) \<noteq> StatusCompleted \<and> job_ok dm' k j" if "dm_jobs dm' k = Some j" for k j
    using assms(1,4) other job_ok_grows [OF assms(2)] that by (cases "k = i") (auto simp: dm_inv_def)
  moreover have "cas_inv (dm_cas dm', dm_fs dm')" using assms(2) by (simp add: grows_def)
  ultimately show ?thesis by (simp add: dm_inv_def)
qed

text \<open>Actions that touch only the task, the goroutine and its temporary file.\<close>

definition only_own :: "string \<Rightarrow> DownloadManager \<Rightarrow> DownloadManager \<Rightarrow> bool" where
  "only_own i dm dm' \<longleftrightarrow>
     dm_cas dm' = dm_cas dm \<and> dm_TmpDir dm' = dm_TmpDir dm \<and> dm_QuotaBytes dm' = dm_QuotaBytes dm \<and> (\<exists>x. dm_fs dm' = (dm_fs dm)(job_temp dm i := x)) \<and>
     dm_files dm' = dm_files dm \<and> (\<forall>k. k \<noteq> i \<longrightarrow> dm_objs dm' k = dm_objs dm k \<and> dm_jobs dm' k = dm_jobs dm k)"

lemma only_own_trans: "only_own i dm dm1 \<Longrightarrow> only_own i dm1 dm2 \<Longrightarrow> only_own i dm dm2"
  using job_temp_cong [of dm1 dm] by (auto simp: only_own_def)

lemma same_fs: "\<exists>x. fs = fs(p := x)" for fs :: fs
  by (metis fun_upd_triv)

lemma only_own_refl: "only_own i dm dm"
  using same_fs by (auto simp: only_own_def)

lemma only_own_simple [intro]:
  "only_own i dm (set_task i f dm)" "only_own i dm (put_job i j dm)" "only_own i dm (dm\<lparr>dm_fs := (dm_fs dm)(job_temp dm i := x)\<rparr>)"
  using same_fs by (auto simp: only_own_def set_task_def put_job_def)

lemma same_temp [simp]:
  "dm_fs (set_task i f dm) = dm_fs dm" "job_temp (set_task i f dm) = job_temp dm"
  "dm_cas (set_task i f dm) = dm_cas dm" "dm_cas (put_job i j dm) = dm_cas dm"
  "dm_fs (put_job i j dm) = dm_fs dm" "job_temp (put_job i j dm) = job_temp dm"
  by (auto simp: set_task_def put_job_def job_temp_def fun_eq_iff)

lemma only_own_temp: "only_own i dm (put_temp i d dm)"
  using only_own_refl only_own_simple(3) by (auto simp: put_temp_def)

lemma put_temp_sel [simp]:
  "dm_jobs (put_temp i d dm) = dm_jobs dm" "dm_objs (put_temp i d dm) = dm_objs dm" "dm_tasks (put_temp i d dm) = dm_tasks dm"
  "dm_files (put_temp i d dm) = dm_files dm" "dm_cas (put_temp i d dm) = dm_cas dm" "dm_TmpDir (put_temp i d dm) = dm_TmpDir dm"
  "dm_fs dm (job_temp dm i) \<noteq> None \<Longrightarrow> dm_fs (put_temp i d dm) = (dm_fs dm)(job_temp dm i \<mapsto> d)"
  "job_temp (put_temp i d dm) = job_temp dm"
  by (auto simp: put_temp_def job_temp_def fun_eq_iff)

lemma only_own_end: "only_own i dm (end_job env i j dm)"
proof -
  have "\<exists>x. dm_fs (end_job env i j dm) = (dm_fs dm)(job_temp dm i := x)"
    using same_fs by (auto simp: end_job_def put_temp_def os_Remove_def Let_def)
  then show ?thesis by (simp add: only_own_def) (simp add: end_job_def Let_def)
qed

lemma only_own_stop: "only_own i dm (fail_job env msg i j dm)" "only_own i dm (stop_job env msg i j dm)"
  using only_own_trans [OF only_own_simple(1) only_own_end] by (auto simp: fail_job_def stop_job_def)

lemma only_own_grows:
  assumes "dm_inv dm" "CHR ''/'' \<notin> set i" "only_own i dm dm'"
  shows "grows i dm dm'"
proof -
  obtain x where x: "dm_fs dm' = (dm_fs dm)(job_temp dm i := x)" using assms(3) by (auto simp: only_own_def)
  have "cas_inv (dm_cas dm, (dm_fs dm)(job_temp dm i := x))"
    using assms(1) job_temp_outside by (intro cas_inv_remove_temp) (simp_all add: dm_inv_def)
  moreover have "job_temp dm k \<noteq> job_temp dm i" if "CHR ''/'' \<notin> set k" "k \<noteq> i" for k
    using job_temp_inject [OF assms(2) that(1), of dm] that(2) by metis
  ultimately show ?thesis
    using assms(3) blob_at_temp [OF job_temp_outside, of "dm_cas dm" "dm_fs dm" dm i x]
    by (auto simp: grows_def only_own_def x)
qed

lemma only_own_write: "only_own i dm (write_job p i j dm)"
proof -
  obtain b ok where "bufio_Write (packet (cipher_NewGCM (jb_key j)) (jb_key j) p) (jb_bw j) = (b, ok)" by fastforce
  then show ?thesis
    using only_own_trans [OF only_own_temp only_own_simple(2)] by (simp add: write_job_def)
qed

lemma only_own_flush: "only_own i dm (flush_job name mime i j dm)"
  unfolding flush_job_def Let_def
  using only_own_trans [OF only_own_trans [OF only_own_temp only_own_simple(1)] only_own_simple(2)] by blast

lemma only_own_return: "only_own i dm (return_job env r i j dm)"
  using only_own_stop(2) only_own_trans [OF only_own_simple(1) only_own_simple(2)] only_own_simple(2)
  by (auto simp: return_job_def Let_def split: transfer_result.splits)

lemma only_own_begin: "only_own i dm (begin_job env isVault vk i j dm)"
proof (cases "os_Create (je_fails env) (job_temp dm i) (dm_fs dm)")
  case None
  then show ?thesis using only_own_stop(1) by (simp add: begin_job_def)
next
  case (Some fs)
  then have fs: "fs = (dm_fs dm)(job_temp dm i \<mapsto> [])" by (auto simp: os_Create_def split: if_splits)
  note mid = only_own_simple(3) [of i dm "Some []", folded fs]
  show ?thesis
    using only_own_trans [OF mid only_own_stop(1)] only_own_trans [OF mid only_own_simple(2)]
    by (auto simp: begin_job_def Some Let_def split: option.splits)
qed

lemma only_own_transfer: "only_own i dm (transfer_act env act i j dm)"
  using only_own_write only_own_return only_own_refl only_own_simple(1) only_own_stop(1) only_own_trans [OF only_own_simple(1) only_own_end]
  by (auto simp: transfer_act_def copy_failed_def on_progress_def on_progress_accel_def on_meta_def split: job_act.splits)

section \<open>Every step keeps the invariant\<close>

lemma inv_own:
  assumes "dm_inv dm" "CHR ''/'' \<notin> set i" "only_own i dm dm'" "tk_Status (dm_objs dm' i) \<noteq> StatusCompleted"
    and "\<And>j. dm_jobs dm' i = Some j \<Longrightarrow> job_ok dm' i j"
  shows "dm_inv dm'"
  using dm_inv_grows [OF assms(1) only_own_grows [OF assms(1-3)]] assms(2,4,5) by (simp add: task_ok_def)

lemma end_job_sel: "dm_jobs (end_job env i j dm) i = None" "dm_objs (end_job env i j dm) = dm_objs dm"
  by (simp_all add: end_job_def Let_def)

lemma stopped_sel:
  "dm_jobs (fail_job env msg i j dm) i = None" "tk_Status (dm_objs (fail_job env msg i j dm) i) \<noteq> StatusCompleted"
  "dm_jobs (stop_job env msg i j dm) i = None" "tk_Status (dm_objs (stop_job env msg i j dm) i) \<noteq> StatusCompleted"
  by (simp_all add: fail_job_def stop_job_def end_job_sel set_task_def failTask_def cancelTask_def)

lemma set_task_sel [simp]:
  "dm_objs (set_task i f dm) i = f (dm_objs dm i)" "dm_jobs (set_task i f dm) = dm_jobs dm"
  "dm_objs (put_job i j dm) = dm_objs dm" "dm_jobs (put_job i j dm) i = Some j"
  by (simp_all add: set_task_def put_job_def)

lemma framed_snoc: "framed key x d \<Longrightarrow> chunk_ok p \<Longrightarrow> framed key (x @ p) (d @ packet (cipher_NewGCM key) key p)"
  using framed_append [of key x d "[p]"] by simp

lemma chunk_ok_small: "p \<noteq> [] \<Longrightarrow> length p \<le> 10 * 1024 * 1024 \<Longrightarrow> chunk_ok p"
  by (simp add: chunk_ok_def MaxChunkSize_def)

lemma write_job_ok:
  assumes "job_ok dm i j" "jb_phase j = Transferring" "p \<noteq> []" "length p \<le> 10 * 1024 * 1024"
  shows "\<exists>j'. dm_jobs (write_job p i j dm) i = Some j' \<and> jb_phase j' = Transferring \<and>
     job_ok (write_job p i j dm) i j' \<and> jb_plain j' = jb_plain j @ p"
proof -
  let ?k = "jb_key j"
  have ok: "aes_NewCipher ?k \<noteq> None" "roomy (jb_bw j)" "framed ?k (jb_plain j) (bw_disk (jb_bw j) @ bw_buf (jb_bw j))"
    "dm_fs dm (job_temp dm i) \<noteq> None"
    using assms(1,2) by (simp_all add: job_ok_def Let_def)
  obtain b where b: "bufio_Write (packet (cipher_NewGCM ?k) ?k p) (jb_bw j) = (b, True)" "roomy b"
    "bw_disk b @ bw_buf b = (bw_disk (jb_bw j) @ bw_buf (jb_bw j)) @ packet (cipher_NewGCM ?k) ?k p"
    using bufio_Write_roomy [OF ok(2)] by auto
  have "framed ?k (jb_plain j @ p) (bw_disk b @ bw_buf b)"
    unfolding b(3) using framed_snoc [OF ok(3) chunk_ok_small [OF assms(3,4)]] .
  with ok(1,4) b assms(2) show ?thesis by (auto simp: write_job_def job_ok_def Let_def)
qed

lemma dm_inv_job:
  "dm_inv dm \<Longrightarrow> dm_jobs dm i = Some j \<Longrightarrow> CHR ''/'' \<notin> set i \<and> tk_Status (dm_objs dm i) \<noteq> StatusCompleted \<and> job_ok dm i j"
  by (simp add: dm_inv_def)

lemma begin_inv:
  assumes I: "dm_inv dm" and J: "dm_jobs dm i = Some j" "jb_phase j = NotStarted isVault vk" and calm: "calm env"
  shows "dm_inv (begin_job env isVault vk i j dm)"
proof (rule inv_own [OF I _ only_own_begin])
  have j: "CHR ''/'' \<notin> set i" "tk_Status (dm_objs dm i) \<noteq> StatusCompleted" "jb_plain j = []"
    using dm_inv_job [OF I J(1)] J(2) by (simp_all add: job_ok_def Let_def)
  then show "CHR ''/'' \<notin> set i" "tk_Status (dm_objs (begin_job env isVault vk i j dm) i) \<noteq> StatusCompleted"
    by (simp_all add: begin_job_def stopped_sel Let_def split: option.splits)
  show "job_ok (begin_job env isVault vk i j dm) i j'" if "dm_jobs (begin_job env isVault vk i j dm) i = Some j'" for j'
    using that j(3) calm
    by (auto simp: begin_job_def stopped_sel job_ok_def calm_def roomy_def os_Create_def Let_def split: option.splits if_splits)
qed

lemma job_transfer_inv:
  assumes I: "dm_inv dm" and J: "dm_jobs dm i = Some j" "jb_phase j = Transferring" and act: "act_ok act"
  shows "dm_inv (transfer_act env act i j dm)"
proof (rule inv_own [OF I _ only_own_transfer])
  let ?dm = "transfer_act env act i j dm"
  have j: "CHR ''/'' \<notin> set i" "tk_Status (dm_objs dm i) \<noteq> StatusCompleted" "job_ok dm i j"
    using dm_inv_job [OF I J(1)] by simp_all
  show "CHR ''/'' \<notin> set i" by (rule j)
  show "tk_Status (dm_objs ?dm i) \<noteq> StatusCompleted"
    using j(2)
    by (auto simp: transfer_act_def copy_failed_def on_progress_def on_progress_accel_def on_meta_def refuse_quota_def failTask_def
        cancelTask_def return_job_def write_job_def stopped_sel end_job_sel Let_def put_job_def
        split: job_act.splits transfer_result.splits prod.splits)
  have same: "job_ok dm' i j" if "dm_fs dm' = dm_fs dm" "job_temp dm' = job_temp dm" for dm'
    using j(3) J(2) that by (simp add: job_ok_def Let_def)
  show "job_ok ?dm i j'" if "dm_jobs ?dm i = Some j'" for j'
  proof (cases act)
    case (Wrote p)
    then show ?thesis
      using write_job_ok [OF j(3) J(2), of p] act that by (auto simp: transfer_act_def act_ok_def)
  next
    case (Returned r)
    then show ?thesis
      using that j(3) J
      by (auto simp: transfer_act_def return_job_def stopped_sel job_ok_def Let_def split: transfer_result.splits)
  qed (use that same J in \<open>auto simp: transfer_act_def copy_failed_def on_progress_def on_progress_accel_def on_meta_def end_job_sel stopped_sel
         split: if_splits\<close>)
qed

lemma flush_inv:
  assumes I: "dm_inv dm" and J: "dm_jobs dm i = Some j" "jb_phase j = Flushing name mime"
  shows "dm_inv (flush_job name mime i j dm)"
proof (rule inv_own [OF I _ only_own_flush])
  let ?b = "bufio_Flush (jb_bw j)"
  have j: "CHR ''/'' \<notin> set i" "tk_Status (dm_objs dm i) \<noteq> StatusCompleted" "aes_NewCipher (jb_key j) \<noteq> None" "roomy (jb_bw j)"
    "framed (jb_key j) (jb_plain j) (bw_disk (jb_bw j) @ bw_buf (jb_bw j))"
    "dm_fs dm (job_temp dm i) \<noteq> None"
    using dm_inv_job [OF I J(1)] J(2) by (simp_all add: job_ok_def Let_def)
  show "CHR ''/'' \<notin> set i" by (rule j)
  show "tk_Status (dm_objs (flush_job name mime i j dm) i) \<noteq> StatusCompleted" using j(2) by (simp add: flush_job_def Let_def)
  have "framed (jb_key j) (jb_plain j) (bw_disk ?b)" using j(4,5) by (simp add: bufio_Flush_roomy roomy_def)
  then show "job_ok (flush_job name mime i j dm) i j'" if "dm_jobs (flush_job name mime i j dm) i = Some j'" for j'
    using that j(3,6) by (auto simp: flush_job_def job_ok_def Let_def)
qed

lemma mark_inv:
  assumes I: "dm_inv dm" and J: "dm_jobs dm i = Some j" "jb_phase j = Marking f h"
  shows "dm_inv (mark_job env f h i j dm)"
proof -
  let ?dm = "mark_job env f h i j dm"
  have own: "only_own i dm ?dm"
    unfolding mark_job_def using only_own_trans [OF only_own_simple(1) only_own_end] .
  have j: "CHR ''/'' \<notin> set i" "stored (jb_key j) (jb_plain j) h dm" "has_row f h (hash_of (jb_plain j)) dm"
    using dm_inv_job [OF I J(1)] J(2) by (simp_all add: job_ok_def Let_def)
  note G = only_own_grows [OF I j(1) own]
  show ?thesis
  proof (rule dm_inv_grows [OF I G])
    show "task_ok ?dm (dm_objs ?dm i)"
      using stored_grows [OF G j(2)] has_row_grows [OF G j(3)] by (auto simp: task_ok_def mark_job_def end_job_sel)
  qed (simp add: mark_job_def end_job_sel)
qed

lemma save_moved:
  assumes I: "dm_inv dm" and J: "dm_jobs dm i = Some j" "jb_phase j = Saving name mime"
    and calm: "calm env" and coll: "no_collision dm i"
    and M: "MoveToCASWithStatus (je_fails env) (je_part env) (job_temp dm i) (dm_cas dm, dm_fs dm) = ((cas, fs), m)"
  shows "grows i dm (dm\<lparr>dm_cas := cas, dm_fs := fs\<rparr>)"
    and "dm_inv (dm\<lparr>dm_cas := cas, dm_fs := fs, dm_jobs := (dm_jobs dm)(i := None)\<rparr>)"
proof -
  let ?t = "job_temp dm i"
  have j: "CHR ''/'' \<notin> set i" "tk_Status (dm_objs dm i) \<noteq> StatusCompleted" "aes_NewCipher (jb_key j) \<noteq> None"
    using dm_inv_job [OF I J(1)] J(2) by (simp_all add: job_ok_def Let_def)
  let ?dm = "dm\<lparr>dm_cas := cas, dm_fs := fs\<rparr>"
  note out = move_outcome_sound [OF M]
  have inv: "cas_inv (dm_cas dm, dm_fs dm)" and o: "outside_store (dm_cas dm, dm_fs dm) ?t"
    using I job_temp_outside by (simp_all add: dm_inv_def)
  have calls: "\<not> je_fails env (RemoveCall q)" "\<not> je_fails env (StatCall q)" for q using calm by (simp_all add: calm_def)
  have inv': "cas_inv (cas, fs)" using move_outcome_inv [OF out inv o] calls by simp
  have keep: "blob_at (cas, fs) k = Some x" if "blob_at (dm_cas dm, dm_fs dm) k = Some x" for k x
    using move_outcome_keeps [OF out inv o _ that] calls by simp
  have np: "job_temp dm k \<noteq> cas_Path (dm_cas dm) (hash_of x)" for k x
    using outside_store_hash [OF job_temp_outside, of "dm_cas dm" x dm k] by metis
  have "fs (job_temp dm k) = dm_fs dm (job_temp dm k)" if "CHR ''/'' \<notin> set k" "k \<noteq> i" for k
  proof -
    have "job_temp dm k \<noteq> ?t" using job_temp_inject [OF j(1) that(1), of dm] that(2) by metis
    with out np show ?thesis by cases (auto simp: os_Remove_def elim!: ComputeHash_Some)
  qed
  then show G: "grows i dm ?dm"
    using inv' keep move_outcome_dir [OF out] by (simp add: grows_def)
  show "dm_inv (?dm\<lparr>dm_jobs := (dm_jobs dm)(i := None)\<rparr>)"
  proof (rule dm_inv_grows [OF I])
    show "grows i dm (?dm\<lparr>dm_jobs := (dm_jobs dm)(i := None)\<rparr>)" using G by (simp add: grows_def)
  qed (use j(2) in \<open>simp_all add: task_ok_def\<close>)
qed

lemma grows_trans: "grows i dm dm1 \<Longrightarrow> grows i dm1 dm2 \<Longrightarrow> grows i dm dm2"
  using job_temp_cong [of dm1 dm] by (auto simp: grows_def)

lemma save_grows:
  assumes I: "dm_inv dm" and J: "dm_jobs dm i = Some j" "jb_phase j = Saving name mime"
    and calm: "calm env" and coll: "no_collision dm i"
  shows "grows i dm (save_job env name mime i j dm)"
proof -
  obtain cas fs m where M: "MoveToCASWithStatus (je_fails env) (je_part env) (job_temp dm i) (dm_cas dm, dm_fs dm) = ((cas, fs), m)"
    by (metis prod.exhaust)
  let ?dm = "dm\<lparr>dm_cas := cas, dm_fs := fs\<rparr>"
  note G = save_moved(1) [OF I J calm coll M]
  show ?thesis
  proof (cases m)
    case None
    have G0: "grows i dm (?dm\<lparr>dm_jobs := (dm_jobs dm)(i := None)\<rparr>)" using G by (simp add: grows_def)
    have "only_own i (?dm\<lparr>dm_jobs := (dm_jobs dm)(i := None)\<rparr>) (save_job env name mime i j dm)"
      using only_own_stop(1) [of i ?dm env _ j] M None by (simp add: save_job_def only_own_def job_temp_def del: path_Join.simps)
    from only_own_grows [OF save_moved(2) [OF I J calm coll M] _ this] dm_inv_job [OF I J(1)] have
      "grows i (?dm\<lparr>dm_jobs := (dm_jobs dm)(i := None)\<rparr>) (save_job env name mime i j dm)" by blast
    with G0 show ?thesis by (rule grows_trans)
  next
    case (Some he)
    then show ?thesis using G M by (cases he) (simp add: save_job_def grows_def put_job_def)
  qed
qed

lemma save_inv:
  assumes I: "dm_inv dm" and J: "dm_jobs dm i = Some j" "jb_phase j = Saving name mime"
    and calm: "calm env" and coll: "no_collision dm i"
  shows "dm_inv (save_job env name mime i j dm)"
proof -
  let ?t = "job_temp dm i"
  have j: "CHR ''/'' \<notin> set i" "tk_Status (dm_objs dm i) \<noteq> StatusCompleted" "aes_NewCipher (jb_key j) \<noteq> None"
    using dm_inv_job [OF I J(1)] J(2) by (simp_all add: job_ok_def Let_def)
  obtain d where d: "dm_fs dm ?t = Some d" "framed (jb_key j) (jb_plain j) d"
    using dm_inv_job [OF I J(1)] J(2) by (auto simp: job_ok_def Let_def)
  obtain cas fs m where M: "MoveToCASWithStatus (je_fails env) (je_part env) ?t (dm_cas dm, dm_fs dm) = ((cas, fs), m)"
    by (metis prod.exhaust)
  let ?dm = "dm\<lparr>dm_cas := cas, dm_fs := fs\<rparr>"
  note out = move_outcome_sound [OF M]
  have inv: "cas_inv (dm_cas dm, dm_fs dm)" and o: "outside_store (dm_cas dm, dm_fs dm) ?t"
    using I job_temp_outside by (simp_all add: dm_inv_def)
  note G = save_moved(1) [OF I J calm coll M] and I' = save_moved(2) [OF I J calm coll M]
  show ?thesis
  proof (cases m)
    case None
    have "only_own i (?dm\<lparr>dm_jobs := (dm_jobs dm)(i := None)\<rparr>) (save_job env name mime i j dm)"
      using only_own_stop(1) [of i ?dm env _ j] M None by (simp add: save_job_def only_own_def job_temp_def del: path_Join.simps)
    from inv_own [OF I' j(1) this] show ?thesis by (simp add: save_job_def M None stopped_sel)
  next
    case (Some he)
    obtain h e where he: "he = (h, e)" by fastforce
    obtain d' where b: "h = hash_of d" "blob_at (cas, fs) h = Some d'" "\<not> e \<Longrightarrow> d' = d"
      using move_outcome_blob [OF out [unfolded Some he] inv o] d(1) by auto
    have "d' = d"
    proof (cases e)
      case True
      have "blob_at (dm_cas dm, dm_fs dm) h = Some d'"
        using out b(2) True move_outcome_dir [OF out] unfolding Some he
        by cases (auto simp: blob_at_def os_Remove_def split: if_splits)
      then show ?thesis using coll d(1) b(1) J by (simp add: no_collision_def)
    qed (rule b(3))
    then have st: "stored (jb_key j) (jb_plain j) h dm'" if "dm_cas dm' = cas" "dm_fs dm' = fs" for dm'
      using that j(3) d(2) b(2) by (auto simp: stored_def)
    have eq: "save_job env name mime i j dm = put_job i (j\<lparr>jb_phase := Recording h e name mime\<rparr>) ?dm"
      by (simp add: save_job_def M Some he)
    show ?thesis
    proof (rule dm_inv_grows [OF I])
      show "grows i dm (save_job env name mime i j dm)" using G by (simp add: eq grows_def put_job_def)
      show "task_ok (save_job env name mime i j dm) (dm_objs (save_job env name mime i j dm) i)"
        using j(2) by (simp add: eq task_ok_def)
      show "CHR ''/'' \<notin> set i \<and> tk_Status (dm_objs (save_job env name mime i j dm) i) \<noteq> StatusCompleted \<and>
          job_ok (save_job env name mime i j dm) i j'" if "dm_jobs (save_job env name mime i j dm) i = Some j'" for j'
        using that j st [of "save_job env name mime i j dm"] by (auto simp: eq job_ok_def Let_def put_job_def)
    qed
  qed
qed

lemma record_inv:
  assumes I: "dm_inv dm" and J: "dm_jobs dm i = Some j" "jb_phase j = Recording h e name mime" and calm: "calm env"
  shows "dm_inv (record_job env h e name mime i j dm)"
proof -
  let ?dm = "record_job env h e name mime i j dm"
  have j: "CHR ''/'' \<notin> set i" "tk_Status (dm_objs dm i) \<noteq> StatusCompleted" "stored (jb_key j) (jb_plain j) h dm"
    using dm_inv_job [OF I J(1)] J(2) by (simp_all add: job_ok_def Let_def)
  have G: "grows i dm ?dm" using I calm by (auto simp: record_job_def calm_def grows_def put_job_def dm_inv_def Let_def)
  show ?thesis
  proof (rule dm_inv_grows [OF I G])
    show "task_ok ?dm (dm_objs ?dm i)" using j(2) calm by (simp add: record_job_def calm_def task_ok_def Let_def)
    show "CHR ''/'' \<notin> set i \<and> tk_Status (dm_objs ?dm i) \<noteq> StatusCompleted \<and> job_ok ?dm i j'" if "dm_jobs ?dm i = Some j'" for j'
      using that j(1,2) stored_grows [OF G j(3)] calm
      by (auto simp: record_job_def calm_def job_ok_def has_row_def put_job_def Let_def)
  qed
qed

lemma job_step_inv:
  assumes "dm_inv dm" "calm env" "act_ok act" "no_collision dm i"
  shows "dm_inv (job_step env i act dm)"
proof (cases "dm_jobs dm i")
  case None
  then show ?thesis using assms(1) by (simp add: job_step_def)
next
  case (Some j)
  have "dm_inv (return_job env TransferError i j dm)" if "jb_phase j = WriteFailed"
    using dm_inv_job [OF assms(1) Some] only_own_return
    by (intro inv_own [OF assms(1) _ only_own_return]) (simp_all add: return_job_def stopped_sel)
  moreover have "dm_inv (copy_failed env i j dm)"
    using dm_inv_job [OF assms(1) Some] unfolding copy_failed_def
    by (intro inv_own [OF assms(1) _ only_own_stop(1)]) (simp_all add: stopped_sel)
  ultimately show ?thesis
    using assms Some begin_inv [OF assms(1) Some] job_transfer_inv [OF assms(1) Some] flush_inv [OF assms(1) Some]
      save_inv [OF assms(1) Some] record_inv [OF assms(1) Some] mark_inv [OF assms(1) Some]
    by (cases "jb_phase j") (simp_all add: job_step_def)
qed

text \<open>Requests change tasks that have not completed, and the table; a late report leaves a completed task with its file
  or makes it a failed one.\<close>

definition same_file :: "DownloadTask \<Rightarrow> DownloadTask \<Rightarrow> bool" where
  "same_file t t' \<longleftrightarrow> tk_Status t = tk_Status t' \<and> tk_FileID t = tk_FileID t' \<and> tk_CasHash t = tk_CasHash t' \<and>
     tk_PlaintextHash t = tk_PlaintextHash t'"

lemma same_file_refl [simp]: "same_file t t"
  by (simp add: same_file_def)

lemma late_report_objs:
  "late_report env d t s n b tb i dm =
     dm\<lparr>dm_objs := dm_objs (late_report env d t s n b tb i dm), dm_tasks := dm_tasks dm\<rparr> \<and>
   (\<forall>k. same_file (dm_objs (late_report env d t s n b tb i dm) k) (dm_objs dm k) \<or>
        tk_Status (dm_objs (late_report env d t s n b tb i dm) k) \<noteq> StatusCompleted)"
  by (auto simp: late_report_def on_progress_accel_def set_task_def refuse_quota_def failTask_def same_file_def split: option.splits)

lemma inv_requests:
  assumes I: "dm_inv dm" and dm': "dm' = dm\<lparr>dm_objs := g, dm_tasks := ts\<rparr>"
    and g: "\<And>i. same_file (g i) (dm_objs dm i) \<or> tk_Status (g i) \<noteq> StatusCompleted"
  shows "dm_inv dm'"
proof -
  have st: "stored key x h dm' = stored key x h dm" "has_row f h p dm' = has_row f h p dm" for key x h f p
    by (simp_all add: stored_def has_row_def dm')
  have fs: "job_temp dm' = job_temp dm" "dm_fs dm' = dm_fs dm" by (simp_all add: dm' job_temp_def fun_eq_iff)
  have job: "job_ok dm' i j = job_ok dm i j" for i j unfolding job_ok_def st fs ..
  have "task_ok dm' (g i)" for i
  proof -
    have "task_ok dm (dm_objs dm i)" using I by (simp add: dm_inv_def)
    moreover have "same_file (g i) (dm_objs dm i)" if "tk_Status (g i) = StatusCompleted" using g [of i] that by simp
    ultimately show ?thesis unfolding task_ok_def st same_file_def by metis
  qed
  moreover have "tk_Status (g i) \<noteq> StatusCompleted" if "dm_jobs dm i = Some j" for i j
    using dm_inv_job [OF I that] g [of i] by (auto simp: same_file_def)
  ultimately show ?thesis using I job by (auto simp: dm_inv_def dm')
qed

lemma cancel_active_status: "cancel_active now t = t \<or> tk_Status (cancel_active now t) \<noteq> StatusCompleted"
  by (simp add: cancel_active_def cancelTask_def)

lemma cancel_fold:
  assumes "\<And>t. f t = t \<or> tk_Status (f t) \<noteq> StatusCompleted"
  shows "\<exists>g. fold (\<lambda>i. set_task i f) is dm = dm\<lparr>dm_objs := g\<rparr> \<and>
     (\<forall>i. g i = dm_objs dm i \<or> tk_Status (g i) \<noteq> StatusCompleted)"
proof (induction "is" arbitrary: dm)
  case Nil
  then show ?case by (intro exI [of _ "dm_objs dm"]) simp
next
  case (Cons k ks)
  from Cons [of "set_task k f dm"] obtain g where
    g: "fold (\<lambda>i. set_task i f) ks (set_task k f dm) = (set_task k f dm)\<lparr>dm_objs := g\<rparr>"
    "\<And>i. g i = dm_objs (set_task k f dm) i \<or> tk_Status (g i) \<noteq> StatusCompleted" by blast
  have "g i = dm_objs dm i \<or> tk_Status (g i) \<noteq> StatusCompleted" for i
    using g(2) [of i] assms [of "dm_objs dm k"] by (cases "i = k") (auto simp: set_task_def)
  moreover have "(set_task k f dm)\<lparr>dm_objs := g\<rparr> = dm\<lparr>dm_objs := g\<rparr>" by (simp add: set_task_def)
  ultimately show ?case using g(1) by (intro exI [of _ g]) simp
qed

lemma id_no_slash: "CHR ''/'' \<notin> set (new_task_id env)"
proof -
  have "CHR ''/'' \<notin> set (Itoa n)" for n
    using is_digit_nat_digits [of "nat n"] is_digit_nat_digits [of "nat (- n)"]
    by (auto simp: Itoa_def list_all_iff is_digit_def less_eq_char_def)
  then show ?thesis using hex_encode_alphabet [of "je_rnd env"] by (auto simp: new_task_id_def)
qed

lemma start_inv:
  assumes I: "dm_inv dm" and new: "dm_jobs dm (new_task_id env) = None"
  shows "dm_inv (fst (StartDownloadWithOptions env le opts dm))"
proof (cases "le_Normalize le (do_Link opts) = [] \<or> DetectLinkType (le_uni le) (le_Normalize le) (le_Normalize le (do_Link opts)) = None")
  case True
  then show ?thesis using I by (auto simp: StartDownloadWithOptions_def Let_def)
next
  case False
  let ?i = "new_task_id env" and ?dm = "fst (StartDownloadWithOptions env le opts dm)"
  have own: "only_own ?i dm ?dm" using False same_fs by (auto simp: StartDownloadWithOptions_def only_own_def Let_def)
  show ?thesis
    using False by (intro inv_own [OF I id_no_slash own]) (auto simp: StartDownloadWithOptions_def job_ok_def Let_def)
qed

lemma event_inv: "dm_inv dm \<Longrightarrow> event_ok ev dm \<Longrightarrow> dm_inv (handle_event ev dm)"
proof (cases ev)
  case (CancelAll now)
  assume I: "dm_inv dm"
  obtain g where "CancelAllTasks now dm = dm\<lparr>dm_objs := g\<rparr>" "\<And>i. g i = dm_objs dm i \<or> tk_Status (g i) \<noteq> StatusCompleted"
    unfolding CancelAllTasks_def using cancel_fold [where f = "cancel_active now", OF cancel_active_status] by blast
  then show ?thesis unfolding CancelAll handle_event_def
    by (intro inv_requests [OF I, where g = g and ts = "dm_tasks dm"]) (simp, metis same_file_refl)
next
  case (Cancel now i)
  assume I: "dm_inv dm"
  show ?thesis unfolding Cancel handle_event_def
    by (intro inv_requests [OF I, where g = "dm_objs (fst (CancelTask now i dm))" and ts = "dm_tasks dm"])
      (auto simp: CancelTask_def set_task_def cancelTask_def)
next
  case (Dismiss i ownerID)
  assume I: "dm_inv dm"
  show ?thesis unfolding Dismiss handle_event_def
    by (intro inv_requests [OF I, where g = "dm_objs dm" and ts = "dm_tasks (fst (DismissTask i ownerID dm))"]) (auto simp: DismissTask_def)
next
  case (LateReport env i d t s n b tb)
  assume I: "dm_inv dm"
  show ?thesis unfolding LateReport handle_event_def
    using late_report_objs [of env d t s n b tb i dm] unfolding dm_event.case
    by (intro inv_requests [OF I, where g = "dm_objs (late_report env d t s n b tb i dm)" and ts = "dm_tasks dm"]) blast+
next
  case (Prune now ttl)
  assume I: "dm_inv dm"
  show ?thesis unfolding Prune handle_event_def
    by (intro inv_requests [OF I, where g = "dm_objs dm" and ts = "dm_tasks (PruneOldTasks now ttl dm)"]) (auto simp: PruneOldTasks_def)
qed (use job_step_inv start_inv in \<open>auto simp: handle_event_def event_ok_def\<close>)

section \<open>What a task has fetched\<close>

text \<open>A run of the manager is a list of events. The history of a task adds up what its goroutine has passed to the
  destination of its transfer; it begins anew when the task is started.\<close>

definition transferring :: "string \<Rightarrow> DownloadManager \<Rightarrow> bool" where
  "transferring i dm \<longleftrightarrow> (case dm_jobs dm i of None \<Rightarrow> False | Some j \<Rightarrow> jb_phase j = Transferring)"

definition fetched_step :: "string \<Rightarrow> dm_event \<Rightarrow> DownloadManager \<Rightarrow> bytes \<Rightarrow> bytes" where
  "fetched_step i ev dm x =
     (case ev of
        JobEvent env k (Wrote p) \<Rightarrow> if k = i \<and> transferring i dm then x @ p else x
      | Start env le opts \<Rightarrow> if snd (StartDownloadWithOptions env le opts dm) = Some i then [] else x
      | _ \<Rightarrow> x)"

fun fetched :: "string \<Rightarrow> dm_event list \<Rightarrow> DownloadManager \<Rightarrow> bytes \<Rightarrow> bytes" where
  "fetched i [] dm x = x"
| "fetched i (ev # evs) dm x = fetched i evs (handle_event ev dm) (fetched_step i ev dm x)"

fun events_ok :: "dm_event list \<Rightarrow> DownloadManager \<Rightarrow> bool" where
  "events_ok [] dm \<longleftrightarrow> True"
| "events_ok (ev # evs) dm \<longleftrightarrow> event_ok ev dm \<and> events_ok evs (handle_event ev dm)"

lemma job_step_grows:
  assumes I: "dm_inv dm" and env: "calm env" and coll: "no_collision dm i" and J: "dm_jobs dm i = Some j"
  shows "grows i dm (job_step env i act dm)"
proof -
  have i: "CHR ''/'' \<notin> set i" using dm_inv_job [OF I J] by simp
  note own = only_own_grows [OF I i]
  have save: "grows i dm (save_job env name mime i j dm)" if P: "jb_phase j = Saving name mime" for name mime
    by (rule save_grows [OF I J P env coll])
  have rcd: "grows i dm (record_job env h e name mime i j dm)" for h e name mime
    using I env by (auto simp: record_job_def calm_def grows_def put_job_def dm_inv_def Let_def)
  have mark: "only_own i dm (mark_job env f h i j dm)" for f h
    unfolding mark_job_def using only_own_trans [OF only_own_simple(1) only_own_end] .
  show ?thesis
    using save rcd own [OF mark] own [OF only_own_transfer] own [OF only_own_begin] own [OF only_own_return] own [OF only_own_flush]
      own [OF only_own_stop(1)] own [OF only_own_refl]
    by (auto simp: job_step_def J copy_failed_def split: job_phase.splits)
qed

text \<open>Only the last action of a goroutine completes a task, and only a write adds to what the hasher has seen.\<close>

lemma job_step_plain:
  assumes I: "dm_inv dm" and act: "act_ok act" and J: "dm_jobs dm i = Some j" and J': "dm_jobs (job_step env i act dm) i = Some j'"
  shows "jb_plain j' = fetched_step i (JobEvent env i act) dm (jb_plain j)"
proof (cases "jb_phase j = Transferring")
  case True
  have ok: "job_ok dm i j" using dm_inv_job [OF I J] by simp
  show ?thesis
  proof (cases act)
    case (Wrote p)
    then show ?thesis
      using write_job_ok [OF ok True, of p] act J J' True by (auto simp: job_step_def transfer_act_def act_ok_def fetched_step_def transferring_def)
  next
    case (Returned r)
    then show ?thesis using J J' True
      by (cases r) (auto simp: job_step_def transfer_act_def return_job_def fetched_step_def stopped_sel Let_def)
  qed (use J J' True in \<open>auto simp: job_step_def transfer_act_def copy_failed_def on_progress_def on_progress_accel_def on_meta_def
         end_job_sel stopped_sel fetched_step_def split: if_splits\<close>)
next
  case False
  then have f: "fetched_step i (JobEvent env i act) dm (jb_plain j) = jb_plain j"
    using J by (simp add: fetched_step_def transferring_def split: job_act.splits)
  show ?thesis unfolding f using J J' False
    by (cases "jb_phase j")
      (auto simp: job_step_def begin_job_def copy_failed_def flush_job_def save_job_def record_job_def mark_job_def return_job_def
        end_job_sel stopped_sel Let_def split: if_splits option.splits prod.splits)
qed

lemma job_step_completes:
  assumes I: "dm_inv dm" and J: "dm_jobs dm i = Some j" and C: "tk_Status (dm_objs (job_step env i act dm) i) = StatusCompleted"
  shows "\<exists>f h. jb_phase j = Marking f h \<and> act = Advance"
proof (rule ccontr)
  assume n: "\<nexists>f h. jb_phase j = Marking f h \<and> act = Advance"
  have s: "tk_Status (dm_objs dm i) \<noteq> StatusCompleted" using dm_inv_job [OF I J] by simp
  have t: "tk_Status (dm_objs (transfer_act env act i j dm) i) \<noteq> StatusCompleted"
    using s
    by (auto simp: transfer_act_def copy_failed_def on_progress_def on_progress_accel_def on_meta_def refuse_quota_def failTask_def
        cancelTask_def return_job_def write_job_def stopped_sel end_job_sel Let_def put_job_def
        split: job_act.splits transfer_result.splits prod.splits)
  show False using C n s t
    by (cases "jb_phase j")
      (auto simp: job_step_def J begin_job_def copy_failed_def flush_job_def save_job_def record_job_def return_job_def
        stopped_sel Let_def split: if_splits option.splits prod.splits)
qed

text \<open>The history of a task agrees with its goroutine and, when it is completed, with its file.\<close>

definition fetched_inv :: "string \<Rightarrow> bytes \<Rightarrow> DownloadManager \<Rightarrow> bool" where
  "fetched_inv i x dm \<longleftrightarrow>
     (\<forall>j. dm_jobs dm i = Some j \<longrightarrow> jb_plain j = x) \<and>
     (tk_Status (dm_objs dm i) = StatusCompleted \<longrightarrow>
        (\<exists>key. stored key x (tk_CasHash (dm_objs dm i)) dm) \<and> tk_PlaintextHash (dm_objs dm i) = hash_of x)"

lemma fetched_inv_same:
  assumes "fetched_inv i x dm" "dm_jobs dm' i = dm_jobs dm i"
    and "same_file (dm_objs dm' i) (dm_objs dm i) \<or> tk_Status (dm_objs dm' i) \<noteq> StatusCompleted"
    and "\<And>key x h. stored key x h dm \<Longrightarrow> stored key x h dm'"
  shows "fetched_inv i x dm'"
  using assms unfolding fetched_inv_def same_file_def by metis

lemma job_step_fetched:
  assumes I: "dm_inv dm" and ok: "event_ok (JobEvent env k act) dm" and F: "fetched_inv i x dm"
  shows "fetched_inv i (fetched_step i (JobEvent env k act) dm x) (job_step env k act dm)"
proof (cases "dm_jobs dm k")
  case None
  have "fetched_step i (JobEvent env k act) dm x = x"
    using None by (auto simp: fetched_step_def transferring_def split: job_act.splits)
  then show ?thesis using F None by (simp add: job_step_def)
next
  case (Some j)
  have e: "calm env" "act_ok act" "no_collision dm k" using ok by (simp_all add: event_ok_def)
  note G = job_step_grows [OF I e(1,3) Some, of act]
  show ?thesis
  proof (cases "k = i")
    case False
    have "fetched_step i (JobEvent env k act) dm x = x"
      using False by (simp add: fetched_step_def split: job_act.splits)
    then show ?thesis
      using False G stored_grows [OF G] by (simp add: fetched_inv_same [OF F] grows_def)
  next
    case True
    have x: "jb_plain j = x" using F Some by (simp add: fetched_inv_def True)
    have J: "dm_jobs dm i = Some j" using Some True by simp
    have "jb_plain j' = fetched_step i (JobEvent env i act) dm x" if "dm_jobs (job_step env i act dm) i = Some j'" for j'
      using job_step_plain [OF I e(2) J that] x by simp
    moreover have "(\<exists>key. stored key (fetched_step i (JobEvent env i act) dm x) (tk_CasHash (dm_objs (job_step env i act dm) i)) (job_step env i act dm)) \<and>
        tk_PlaintextHash (dm_objs (job_step env i act dm) i) = hash_of (fetched_step i (JobEvent env i act) dm x)"
      if C: "tk_Status (dm_objs (job_step env i act dm) i) = StatusCompleted"
    proof -
      obtain f h where m: "jb_phase j = Marking f h" "act = Advance" using job_step_completes [OF I J C] by blast
      have "stored (jb_key j) x h dm" using dm_inv_job [OF I J] m by (simp add: job_ok_def x)
      then have "stored (jb_key j) x h (job_step env i act dm)" using stored_grows [OF G] True by simp
      moreover have "fetched_step i (JobEvent env i act) dm x = x" by (simp add: fetched_step_def m)
      ultimately show ?thesis using m J x by (auto simp: job_step_def mark_job_def end_job_sel)
    qed
    ultimately show ?thesis unfolding True by (simp add: fetched_inv_def)
  qed
qed

lemma event_fetched:
  assumes I: "dm_inv dm" and ok: "event_ok ev dm" and F: "fetched_inv i x dm"
  shows "fetched_inv i (fetched_step i ev dm x) (handle_event ev dm)"
proof (cases ev)
  case (JobEvent env k act)
  then show ?thesis using job_step_fetched [OF I _ F, of env k act] ok by (simp add: handle_event_def)
next
  case (Start env le opts)
  show ?thesis
    using F by (auto simp: Start handle_event_def fetched_step_def StartDownloadWithOptions_def fetched_inv_def stored_def Let_def split: option.splits)
next
  case (LateReport env k d t s n b tb)
  have e: "late_report env d t s n b tb k dm = dm\<lparr>dm_objs := dm_objs (late_report env d t s n b tb k dm), dm_tasks := dm_tasks dm\<rparr>"
    "same_file (dm_objs (late_report env d t s n b tb k dm) i) (dm_objs dm i) \<or>
       tk_Status (dm_objs (late_report env d t s n b tb k dm) i) \<noteq> StatusCompleted"
    using late_report_objs by blast+
  show ?thesis unfolding LateReport handle_event_def fetched_step_def dm_event.case
    by (rule fetched_inv_same [OF F _ e(2)]) (subst e(1), simp add: stored_def)+
next
  case (CancelAll now)
  obtain g where "CancelAllTasks now dm = dm\<lparr>dm_objs := g\<rparr>" "g i = dm_objs dm i \<or> tk_Status (g i) \<noteq> StatusCompleted"
    unfolding CancelAllTasks_def using cancel_fold [where f = "cancel_active now", OF cancel_active_status] by blast
  then show ?thesis unfolding CancelAll handle_event_def fetched_step_def dm_event.case
    by (intro fetched_inv_same [OF F]) (auto simp: stored_def)
next
  case (Cancel now k)
  then show ?thesis
    using F by (cases "k = i")
      (auto simp: handle_event_def fetched_step_def CancelTask_def set_task_def cancelTask_def stored_def fetched_inv_def)
next
  case (Dismiss k ownerID)
  then show ?thesis
    by (auto simp: handle_event_def fetched_step_def DismissTask_def stored_def intro!: fetched_inv_same [OF F])
next
  case (Prune now ttl)
  then show ?thesis
    by (auto simp: handle_event_def fetched_step_def PruneOldTasks_def stored_def intro!: fetched_inv_same [OF F])
qed

lemma events_fetched:
  "dm_inv dm \<Longrightarrow> events_ok evs dm \<Longrightarrow> fetched_inv i x dm \<Longrightarrow>
   dm_inv (fold handle_event evs dm) \<and> fetched_inv i (fetched i evs dm x) (fold handle_event evs dm)"
  by (induction evs arbitrary: dm x) (auto intro: event_inv event_fetched)

lemma steps_inv: "dm_step\<^sup>*\<^sup>* dm dm' \<Longrightarrow> dm_inv dm \<Longrightarrow> dm_inv dm'"
  by (induction rule: rtranclp_induct) (auto elim!: dm_step.cases intro: event_inv)

section \<open>From the end of a transfer to the end of the task\<close>

text \<open>A goroutine whose transfer has returned asks nobody any more.\<close>

definition no_twin :: "bytes \<Rightarrow> bytes \<Rightarrow> DownloadManager \<Rightarrow> bool" where
  "no_twin key x dm \<longleftrightarrow>
     (\<forall>d d'. framed key x d \<longrightarrow> blob_at (dm_cas dm, dm_fs dm) (hash_of d) = Some d' \<longrightarrow> d' = d)"

lemma flush_run:
  assumes I: "dm_inv dm" and J: "dm_jobs dm i = Some j" "jb_phase j = Flushing name mime" and tw: "no_twin (jb_key j) (jb_plain j) dm"
  shows "\<exists>dm' j'. job_step env i Advance dm = dm' \<and> dm_inv dm' \<and> dm_jobs dm' i = Some j' \<and> jb_phase j' = Saving name mime \<and>
     jb_key j' = jb_key j \<and> jb_plain j' = jb_plain j \<and> no_collision dm' i \<and> dm_files dm' = dm_files dm \<and>
     tk_DownloadedBytes (dm_objs dm' i) = tk_DownloadedBytes (dm_objs dm i) \<and> tk_OwnerID (dm_objs dm' i) = tk_OwnerID (dm_objs dm i)"
proof -
  let ?dm = "flush_job name mime i j dm"
  have I': "dm_inv ?dm" by (rule flush_inv [OF I J])
  have J': "dm_jobs ?dm i = Some (j\<lparr>jb_bw := bufio_Flush (jb_bw j), jb_phase := Saving name mime\<rparr>)"
    by (simp add: flush_job_def Let_def)
  have "blob_at (dm_cas ?dm, dm_fs ?dm) = blob_at (dm_cas dm, dm_fs dm)"
    using blob_at_temp [OF job_temp_outside] by (simp add: flush_job_def Let_def put_temp_def)
  moreover obtain d where "dm_fs ?dm (job_temp ?dm i) = Some d" "framed (jb_key j) (jb_plain j) d"
    using dm_inv_job [OF I' J'] by (auto simp: job_ok_def Let_def)
  ultimately have "no_collision ?dm i" using tw by (auto simp: no_collision_def no_twin_def)
  then show ?thesis using I' J J' by (auto simp: job_step_def flush_job_def Let_def put_job_def set_task_def)
qed

lemma save_run:
  assumes I: "dm_inv dm" and J: "dm_jobs dm i = Some j" "jb_phase j = Saving name mime" and c: "no_collision dm i"
    and env: "calm env" "je_fails env = no_faults"
  shows "\<exists>dm' j' h e. job_step env i Advance dm = dm' \<and> dm_inv dm' \<and> dm_jobs dm' i = Some j' \<and> jb_phase j' = Recording h e name mime \<and>
     jb_key j' = jb_key j \<and> jb_plain j' = jb_plain j \<and> dm_files dm' = dm_files dm \<and> dm_objs dm' = dm_objs dm"
proof -
  obtain d where "dm_fs dm (job_temp dm i) = Some d"
    using dm_inv_job [OF I J(1)] J(2) by (auto simp: job_ok_def Let_def)
  from move_no_faults [of "dm_fs dm" "job_temp dm i" d, OF this] obtain cas fs e where
    M: "MoveToCASWithStatus no_faults (je_part env) (job_temp dm i) (dm_cas dm, dm_fs dm) = ((cas, fs), Some (hash_of d, e))" by blast
  then have "save_job env name mime i j dm =
      put_job i (j\<lparr>jb_phase := Recording (hash_of d) e name mime\<rparr>) (dm\<lparr>dm_cas := cas, dm_fs := fs\<rparr>)"
    by (simp add: save_job_def env(2))
  with save_inv [OF I J env(1) c] J show ?thesis by (auto simp: job_step_def put_job_def)
qed

definition task_row :: "JobEnv \<Rightarrow> DownloadTask \<Rightarrow> string \<Rightarrow> string \<Rightarrow> string \<Rightarrow> bytes \<Rightarrow> FileRow" where
  "task_row env t name mime h x =
     \<lparr>f_id = ''file_'' @ Itoa (je_now env div Second) @ ''_'' @ take 8 (GenerateID (je_rnd env)), f_owner = tk_OwnerID t,
      f_folder = (if tk_FolderID t \<noteq> [] \<and> tk_FolderID t \<noteq> ''root'' then tk_FolderID t else []),
      f_name = name, f_mime = mime, f_size = tk_DownloadedBytes t, f_cas = h, f_plain = hash_of x, f_deleted = False\<rparr>"

lemma record_run:
  assumes I: "dm_inv dm" and J: "dm_jobs dm i = Some j" "jb_phase j = Recording h e name mime" and env: "calm env"
  shows "\<exists>dm' j' f. job_step env i Advance dm = dm' \<and> dm_inv dm' \<and> dm_jobs dm' i = Some j' \<and> jb_phase j' = Marking f h \<and>
     jb_key j' = jb_key j \<and> jb_plain j' = jb_plain j \<and> dm_objs dm' = dm_objs dm \<and>
     dm_files dm' = dm_files dm @ [task_row env (dm_objs dm i) name mime h (jb_plain j)]"
  using record_inv [OF I J env] J env
  by (auto simp: job_step_def record_job_def put_job_def calm_def task_row_def Let_def)

lemma mark_run:
  assumes I: "dm_inv dm" and J: "dm_jobs dm i = Some j" "jb_phase j = Marking f h"
  shows "\<exists>dm'. job_step env i Advance dm = dm' \<and> dm_inv dm' \<and> dm_jobs dm' i = None \<and> stored (jb_key j) (jb_plain j) h dm' \<and>
     dm_files dm' = dm_files dm \<and> tk_Status (dm_objs dm' i) = StatusCompleted \<and> tk_CasHash (dm_objs dm' i) = h \<and>
     tk_PlaintextHash (dm_objs dm' i) = hash_of (jb_plain j) \<and> tk_DownloadedBytes (dm_objs dm' i) = tk_DownloadedBytes (dm_objs dm i)"
proof -
  let ?dm = "mark_job env f h i j dm"
  have own: "only_own i dm ?dm" unfolding mark_job_def using only_own_trans [OF only_own_simple(1) only_own_end] .
  have j: "CHR ''/'' \<notin> set i" "stored (jb_key j) (jb_plain j) h dm"
    using dm_inv_job [OF I J(1)] J(2) by (simp_all add: job_ok_def Let_def)
  have "stored (jb_key j) (jb_plain j) h ?dm" using stored_grows [OF only_own_grows [OF I j(1) own] j(2)] .
  moreover have "dm_files ?dm = dm_files dm" using own by (simp add: only_own_def)
  ultimately show ?thesis using mark_inv [OF I J, of env] J by (simp add: job_step_def mark_job_def end_job_sel)
qed

lemma calm_step: "calm env \<Longrightarrow> no_collision dm i \<Longrightarrow> act_ok act \<Longrightarrow> dm_step dm (job_step env i act dm)"
  using dm_step.intros [of "JobEvent env i act" dm] by (simp add: event_ok_def handle_event_def)

lemma advance_free:
  "dm_jobs dm i = Some j \<Longrightarrow> jb_phase j = Flushing n m \<Longrightarrow> no_collision dm i"
  "dm_jobs dm i = Some j \<Longrightarrow> jb_phase j = Recording h e n m \<Longrightarrow> no_collision dm i"
  "dm_jobs dm i = Some j \<Longrightarrow> jb_phase j = Marking f h \<Longrightarrow> no_collision dm i"
  "dm_jobs dm i = Some j \<Longrightarrow> jb_phase j = NotStarted v k \<Longrightarrow> no_collision dm i"
  "dm_jobs dm i = Some j \<Longrightarrow> jb_phase j = Transferring \<Longrightarrow> no_collision dm i"
  by (simp_all add: no_collision_def)

lemma finish_run:
  assumes I: "dm_inv dm" and J: "dm_jobs dm i = Some j" "jb_phase j = Flushing name mime" and tw: "no_twin (jb_key j) (jb_plain j) dm"
    and env: "calm env" "je_fails env = no_faults" and dm': "dm' = fold (job_step env i) [Advance, Advance, Advance, Advance] dm"
  shows "\<exists>row. dm_step\<^sup>*\<^sup>* dm dm' \<and> dm_jobs dm' i = None \<and> tk_Status (dm_objs dm' i) = StatusCompleted \<and>
     tk_CasHash (dm_objs dm' i) = f_cas row \<and> tk_PlaintextHash (dm_objs dm' i) = hash_of (jb_plain j) \<and>
     stored (jb_key j) (jb_plain j) (f_cas row) dm' \<and> dm_files dm' = dm_files dm @ [row] \<and> f_owner row = tk_OwnerID (dm_objs dm i) \<and>
     f_name row = name \<and> f_size row = tk_DownloadedBytes (dm_objs dm i) \<and> f_plain row = hash_of (jb_plain j)"
proof -
  from flush_run [OF I J tw] obtain dm1 j1 where 1: "job_step env i Advance dm = dm1" "dm_inv dm1" "dm_jobs dm1 i = Some j1"
    "jb_phase j1 = Saving name mime" "jb_key j1 = jb_key j" "jb_plain j1 = jb_plain j" "no_collision dm1 i" "dm_files dm1 = dm_files dm"
    "tk_DownloadedBytes (dm_objs dm1 i) = tk_DownloadedBytes (dm_objs dm i)" "tk_OwnerID (dm_objs dm1 i) = tk_OwnerID (dm_objs dm i)"
    by blast
  from save_run [OF 1(2-4,7) env] obtain dm2 j2 h e where 2: "job_step env i Advance dm1 = dm2" "dm_inv dm2" "dm_jobs dm2 i = Some j2"
    "jb_phase j2 = Recording h e name mime" "jb_key j2 = jb_key j1" "jb_plain j2 = jb_plain j1" "dm_files dm2 = dm_files dm1"
    "dm_objs dm2 = dm_objs dm1" by blast
  from record_run [OF 2(2-4) env(1)] obtain dm3 j3 f where 3: "job_step env i Advance dm2 = dm3" "dm_inv dm3" "dm_jobs dm3 i = Some j3"
    "jb_phase j3 = Marking f h" "jb_key j3 = jb_key j2" "jb_plain j3 = jb_plain j2" "dm_objs dm3 = dm_objs dm2"
    "dm_files dm3 = dm_files dm2 @ [task_row env (dm_objs dm2 i) name mime h (jb_plain j2)]" by blast
  note c = calm_step [OF env(1)] advance_free
  have "dm_step\<^sup>*\<^sup>* dm dm'"
    unfolding dm' using c(1) [OF c(2) [OF J], of Advance] c(1) [OF 1(7), of Advance] c(1) [OF c(3) [OF 2(3,4)], of Advance]
      c(1) [OF c(4) [OF 3(3,4)], of Advance]
    by (auto simp: 1(1) 2(1) 3(1) act_ok_def intro: converse_rtranclp_into_rtranclp)
  moreover from mark_run [OF 3(2-4)] have "dm_jobs dm' i = None \<and> stored (jb_key j3) (jb_plain j3) h dm' \<and>
      dm_files dm' = dm_files dm3 \<and> tk_Status (dm_objs dm' i) = StatusCompleted \<and> tk_CasHash (dm_objs dm' i) = h \<and>
      tk_PlaintextHash (dm_objs dm' i) = hash_of (jb_plain j3)"
    by (simp add: dm' 1(1) 2(1) 3(1))
  ultimately show ?thesis using 1 2 3 by (intro exI [of _ "task_row env (dm_objs dm2 i) name mime h (jb_plain j2)"]) (simp add: task_row_def)
qed

lemma finish_events_ok:
  assumes I: "dm_inv dm" and J: "dm_jobs dm i = Some j" "jb_phase j = Flushing name mime" and tw: "no_twin (jb_key j) (jb_plain j) dm"
    and env: "calm env" "je_fails env = no_faults"
  shows "events_ok (map (JobEvent env i) [Advance, Advance, Advance, Advance]) dm"
proof -
  from flush_run [OF I J tw] obtain dm1 j1 where 1: "job_step env i Advance dm = dm1" "dm_inv dm1" "dm_jobs dm1 i = Some j1"
    "jb_phase j1 = Saving name mime" "no_collision dm1 i"
    by blast
  from save_run [OF 1(2-5) env] obtain dm2 j2 h e where 2: "job_step env i Advance dm1 = dm2" "dm_inv dm2" "dm_jobs dm2 i = Some j2"
    "jb_phase j2 = Recording h e name mime" by blast
  from record_run [OF 2(2-4) env(1)] obtain dm3 j3 f where 3: "job_step env i Advance dm2 = dm3" "dm_jobs dm3 i = Some j3"
    "jb_phase j3 = Marking f h" by blast
  show ?thesis
    using env(1) advance_free(1) [OF J] 1(5) advance_free(2) [OF 2(3,4)] advance_free(3) [OF 3(2,3)]
    by (simp add: event_ok_def act_ok_def handle_event_def 1(1) 2(1) 3(1))
qed

lemma events_ok_append: "events_ok (as @ bs) dm \<longleftrightarrow> events_ok as dm \<and> events_ok bs (fold handle_event as dm)"
  by (induction as arbitrary: dm) auto

section \<open>A transfer\<close>

text \<open>The bytes a stream delivers before it ends.\<close>

fun stream_bytes :: "src_turn list \<Rightarrow> bytes" where
  "stream_bytes [] = []"
| "stream_bytes (CtxStop # turns) = []"
| "stream_bytes (SrcRead p e due # turns) = p @ (case e of None \<Rightarrow> stream_bytes turns | Some _ \<Rightarrow> [])"

text \<open>The bytes a sequence of actions passes to the destination: for a stream, those it delivers.\<close>

fun wrote :: "job_act list \<Rightarrow> bytes" where
  "wrote [] = []"
| "wrote (Wrote p # acts) = p @ wrote acts"
| "wrote (_ # acts) = wrote acts"

lemma wrote_append [simp]: "wrote (as @ bs) = wrote as @ wrote bs"
  by (induction as rule: wrote.induct) auto

lemma wrote_stream: "wrote (fst (streamWithProgress n d turns)) = stream_bytes turns"
proof (induction n d turns rule: streamWithProgress.induct)
  case (3 n d p e due turns)
  then show ?case by (auto simp: Let_def split: option.splits read_err.splits prod.splits)
qed auto

definition small_reads :: "src_turn list \<Rightarrow> bool" where
  "small_reads turns \<longleftrightarrow> list_all (\<lambda>t. case t of CtxStop \<Rightarrow> True | SrcRead p e due \<Rightarrow> length p \<le> 64 * 1024) turns"

text \<open>The goroutine of \<open>i\<close> has received \<open>x\<close> since the state \<open>dm0\<close>, in which its quota was computed.\<close>

definition fetching :: "string \<Rightarrow> bytes \<Rightarrow> int \<Rightarrow> bool \<Rightarrow> bytes \<Rightarrow> DownloadManager \<Rightarrow> DownloadManager \<Rightarrow> bool" where
  "fetching i key used custom x dm0 dm \<longleftrightarrow>
     dm_inv dm \<and>
     (\<exists>j. dm_jobs dm i = Some j \<and> jb_phase j = Transferring \<and> jb_key j = key \<and> jb_used j = used \<and> jb_custom j = custom \<and> jb_plain j = x) \<and>
     dm_files dm = dm_files dm0 \<and> blob_at (dm_cas dm, dm_fs dm) = blob_at (dm_cas dm0, dm_fs dm0) \<and>
     dm_QuotaBytes dm = dm_QuotaBytes dm0 \<and> tk_OwnerID (dm_objs dm i) = tk_OwnerID (dm_objs dm0 i)"

definition within_quota :: "int \<Rightarrow> int \<Rightarrow> DownloadManager \<Rightarrow> bool" where
  "within_quota used n dm \<longleftrightarrow> dm_QuotaBytes dm > 0 \<longrightarrow> 0 \<le> used \<and> used + n \<le> dm_QuotaBytes dm \<and> dm_QuotaBytes dm < 2 ^ 63"

lemma only_own_blobs: "only_own i dm dm' \<Longrightarrow> blob_at (dm_cas dm', dm_fs dm') = blob_at (dm_cas dm, dm_fs dm)"
  using blob_at_temp [OF job_temp_outside] by (auto simp: only_own_def)

lemma wrote_run:
  assumes F: "fetching i key used custom x dm0 dm" and p: "p \<noteq> []" "length p \<le> 10 * 1024 * 1024"
  shows "fetching i key used custom (x @ p) dm0 (job_step env i (Wrote p) dm)"
proof -
  obtain j where j: "dm_jobs dm i = Some j" "jb_phase j = Transferring" "jb_key j = key" "jb_used j = used" "jb_custom j = custom"
    "jb_plain j = x" and I: "dm_inv dm"
    using F by (auto simp: fetching_def)
  let ?dm = "write_job p i j dm"
  have eq: "job_step env i (Wrote p) dm = ?dm" using j by (simp add: job_step_def transfer_act_def)
  have I': "dm_inv ?dm"
    using job_transfer_inv [OF I j(1,2), of "Wrote p" env] p by (simp add: act_ok_def transfer_act_def)
  obtain j' where j': "dm_jobs ?dm i = Some j'" "jb_phase j' = Transferring" "jb_plain j' = x @ p"
    using write_job_ok [OF _ j(2) p] dm_inv_job [OF I j(1)] j(6) by blast
  have "jb_key j' = key \<and> jb_used j' = used \<and> jb_custom j' = custom" "dm_objs ?dm = dm_objs dm"
    using j' j by (auto simp: write_job_def split: prod.splits if_splits)
  with F I' j' only_own_blobs [OF only_own_write [of i dm p j]] only_own_write [of i dm p j] show ?thesis
    unfolding eq by (auto simp: fetching_def only_own_def)
qed

lemma report_run:
  assumes F: "fetching i key used custom x dm0 dm" and q: "within_quota used n dm0" and d: "0 \<le> d" "d \<le> n"
  shows "fetching i key used custom x dm0 (job_step env i (Report d t s) dm)"
    and "tk_DownloadedBytes (dm_objs (job_step env i (Report d t s) dm) i) = d"
proof -
  obtain j where j: "dm_jobs dm i = Some j" "jb_phase j = Transferring" "jb_key j = key" "jb_used j = used" "jb_custom j = custom"
    "jb_plain j = x" and I: "dm_inv dm"
    using F by (auto simp: fetching_def)
  have "wrap64 (used + d) \<le> dm_QuotaBytes dm" if "dm_QuotaBytes dm > 0"
  proof -
    have "0 \<le> used + d" "used + d \<le> dm_QuotaBytes dm" "dm_QuotaBytes dm < 2 ^ 63"
      using q d F that by (auto simp: within_quota_def fetching_def)
    moreover from this have "wrap64 (used + d) = used + d" by (intro wrap64_id) (simp add: is_int64_def)
    ultimately show ?thesis by simp
  qed
  then have nq: "\<not> over_quota j d dm" using j(4) by (auto simp: over_quota_def)
  let ?dm = "on_progress env d t s i j dm"
  have eq: "job_step env i (Report d t s) dm = ?dm" using j by (simp add: job_step_def transfer_act_def)
  have I': "dm_inv ?dm" using job_transfer_inv [OF I j(1,2), of "Report d t s" env] by (simp add: act_ok_def transfer_act_def)
  then show "fetching i key used custom x dm0 (job_step env i (Report d t s) dm)"
    unfolding eq using F j nq by (auto simp: fetching_def on_progress_def set_task_def)
  show "tk_DownloadedBytes (dm_objs (job_step env i (Report d t s) dm) i) = d"
    unfolding eq using nq by (simp add: on_progress_def)
qed

lemma stream_run:
  assumes "streamWithProgress tot (int (length x)) turns = (acts, Some True)" "small_reads turns"
    and "fetching i key used custom x dm0 dm" "within_quota used (int (length (x @ stream_bytes turns))) dm0"
  shows "fetching i key used custom (x @ stream_bytes turns) dm0 (fold (job_step env i) acts dm) \<and>
    tk_DownloadedBytes (dm_objs (fold (job_step env i) acts dm) i) = int (length (x @ stream_bytes turns))"
  using assms
proof (induction turns arbitrary: x acts dm)
  case (Cons turn turns)
  obtain p e due where t: "turn = SrcRead p e due" using Cons.prems(1) by (cases turn) auto
  let ?n = "int (length (x @ p))" and ?tot = "int (length (x @ stream_bytes (turn # turns)))"
  let ?acts = "if p = [] then [] else Wrote p # (case due of None \<Rightarrow> [] | Some speed \<Rightarrow> [Report ?n tot speed])"
  let ?dm = "fold (job_step env i) ?acts dm"
  have n: "0 \<le> ?n" "?n \<le> ?tot" by (simp_all add: t)
  have step: "fetching i key used custom (x @ p) dm0 ?dm"
  proof (cases "p = []")
    case False
    have w: "fetching i key used custom (x @ p) dm0 (job_step env i (Wrote p) dm)"
      using wrote_run [OF Cons.prems(3) False] Cons.prems(2) by (simp add: t small_reads_def)
    with False report_run(1) [OF w Cons.prems(4) n] show ?thesis by (simp split: option.splits)
  qed (use Cons.prems(3) in simp)
  consider "e = Some ReadEOF" "acts = ?acts @ [Report ?n tot ''Idle'']"
    | acts' where "e = None" "streamWithProgress tot ?n turns = (acts', Some True)" "acts = ?acts @ acts'"
    using Cons.prems(1) unfolding t by (auto simp: Let_def split: option.splits read_err.splits prod.splits)
  then show ?case
  proof cases
    case 1
    then show ?thesis using report_run [OF step Cons.prems(4) n, of env tot "''Idle''"] by (simp add: t)
  next
    case (2 acts')
    have "small_reads turns" using Cons.prems(2) by (simp add: small_reads_def)
    from Cons.IH [OF 2(2) this step] Cons.prems(4) 2 show ?thesis by (simp add: t)
  qed
qed simp

lemma begin_run:
  assumes I: "dm_inv dm" and J: "dm_jobs dm i = Some j" "jb_phase j = NotStarted isVault vk" and env: "calm env" "je_fails env = no_faults"
    and key: "job_key env isVault vk = Some key" "aes_NewCipher key \<noteq> None"
    and used: "used = GetUserStorageUsed (tk_OwnerID (dm_objs dm i)) (dm_files dm)" "dm_QuotaBytes dm > 0 \<longrightarrow> used < dm_QuotaBytes dm"
  shows "fetching i key used (jb_custom j) [] dm (job_step env i Begin dm)"
proof -
  let ?dm = "begin_job env isVault vk i j dm"
  have "dm_objs ?dm = dm_objs dm \<and> (\<exists>j'. dm_jobs ?dm i = Some j' \<and> jb_phase j' = Transferring \<and> jb_key j' = key \<and> jb_used j' = used \<and>
      jb_custom j' = jb_custom j \<and> jb_plain j' = [])"
    using key used dm_inv_job [OF I J(1)] J(2)
    by (auto simp: begin_job_def env(2) os_Create_def job_ok_def Let_def)
  with begin_inv [OF I J env(1)] only_own_blobs [OF only_own_begin [of i dm env isVault vk j]] only_own_begin [of i dm env isVault vk j] J
  show ?thesis by (simp add: fetching_def job_step_def only_own_def)
qed

lemma returned_run:
  assumes F: "fetching i key used custom x dm0 dm" and r: "r \<noteq> TransferError"
  shows "\<exists>j f mime. let dm' = job_step env i (Returned r) dm in
     dm_inv dm' \<and> dm_jobs dm' i = Some j \<and> jb_phase j = Flushing f mime \<and> jb_key j = key \<and> jb_plain j = x \<and>
     dm_files dm' = dm_files dm0 \<and> blob_at (dm_cas dm', dm_fs dm') = blob_at (dm_cas dm0, dm_fs dm0) \<and>
     tk_DownloadedBytes (dm_objs dm' i) = tk_DownloadedBytes (dm_objs dm i) \<and> tk_OwnerID (dm_objs dm' i) = tk_OwnerID (dm_objs dm0 i)"
proof -
  obtain j where j: "dm_jobs dm i = Some j" "jb_phase j = Transferring" "jb_key j = key" "jb_plain j = x" and I: "dm_inv dm"
    using F by (auto simp: fetching_def)
  have "dm_inv (job_step env i (Returned r) dm)"
    using job_transfer_inv [OF I j(1,2), of "Returned r" env] j by (simp add: act_ok_def job_step_def)
  then show ?thesis
    using F j r
    by (cases r) (auto simp: fetching_def job_step_def transfer_act_def return_job_def Let_def put_job_def set_task_def)
qed

text \<open>No action of a goroutine changes the table of tasks.\<close>

lemma simple_tasks [simp]:
  "dm_tasks (set_task i f dm) = dm_tasks dm" "dm_tasks (put_job i j dm) = dm_tasks dm" "dm_tasks (end_job env i j dm) = dm_tasks dm"
  by (simp_all add: set_task_def put_job_def end_job_def Let_def)

lemma stop_tasks [simp]: "dm_tasks (fail_job env msg i j dm) = dm_tasks dm" "dm_tasks (stop_job env msg i j dm) = dm_tasks dm"
  by (simp_all add: fail_job_def stop_job_def)

lemma return_tasks [simp]: "dm_tasks (return_job env r i j dm) = dm_tasks dm"
  by (cases r) (simp_all add: return_job_def Let_def)

lemma transfer_tasks [simp]: "dm_tasks (transfer_act env act i j dm) = dm_tasks dm"
  by (cases act)
    (simp_all add: transfer_act_def copy_failed_def write_job_def on_progress_def on_progress_accel_def on_meta_def split: prod.splits)

lemma begin_tasks [simp]: "dm_tasks (begin_job env isVault vk i j dm) = dm_tasks dm"
  by (simp add: begin_job_def Let_def split: option.splits)

lemma final_tasks [simp]:
  "dm_tasks (flush_job name mime i j dm) = dm_tasks dm" "dm_tasks (save_job env name mime i j dm) = dm_tasks dm"
  "dm_tasks (record_job env h e name mime i j dm) = dm_tasks dm" "dm_tasks (mark_job env f h i j dm) = dm_tasks dm"
  by (simp_all add: flush_job_def save_job_def record_job_def mark_job_def Let_def split: prod.splits option.splits)

lemma job_step_tasks: "dm_tasks (job_step env i act dm) = dm_tasks dm"
  by (simp add: job_step_def copy_failed_def split: option.splits job_phase.splits)

section \<open>The fields of a task\<close>

definition typed_task :: "DownloadTask \<Rightarrow> bool" where
  "typed_task t \<longleftrightarrow> 0 \<le> tk_Progress t \<and> tk_Progress t \<le> 100 \<and> (tk_Progress t = 100 \<longrightarrow> tk_Status t = StatusCompleted) \<and>
     (tk_Status t = StatusCompleted \<and> tk_reporter t = None \<longrightarrow> tk_Progress t = 100) \<and>
     (tk_CompletedAt t \<noteq> None \<longleftrightarrow> finished (tk_Status t)) \<and> 1 \<le> tk_MaxThreads t \<and> tk_MaxThreads t \<le> 32"

definition typed_inv :: "DownloadManager \<Rightarrow> bool" where
  "typed_inv dm \<longleftrightarrow> (\<forall>i. typed_task (dm_objs dm i) \<and> (dm_jobs dm i \<noteq> None \<longrightarrow> tk_Status (dm_objs dm i) \<noteq> StatusCompleted))"

text \<open>The conversions of the progress to a percentage do not turn non-negative numbers negative.\<close>

definition sane :: "JobEnv \<Rightarrow> bool" where
  "sane env \<longleftrightarrow> (\<forall>a b k. 0 \<le> a \<longrightarrow> 0 < b \<longrightarrow> 0 \<le> k \<longrightarrow> 0 \<le> je_scale env a b k)"

definition plausible :: "dm_event \<Rightarrow> bool" where
  "plausible ev \<longleftrightarrow>
     (case ev of
        JobEvent env i act \<Rightarrow> sane env \<and> (case act of Report d _ _ \<Rightarrow> 0 \<le> d | ReportAccel d _ _ _ _ _ \<Rightarrow> 0 \<le> d | _ \<Rightarrow> True)
      | LateReport env i d t s n b tb \<Rightarrow> sane env \<and> 0 \<le> d
      | _ \<Rightarrow> True)"

lemma percent_bounds: "sane env \<Longrightarrow> 0 \<le> d \<Longrightarrow> 0 \<le> k \<Longrightarrow> 40 \<le> cap \<Longrightarrow> 0 \<le> percent env k cap d tot \<and> percent env k cap d tot \<le> 5 + cap"
  by (auto simp: percent_def sane_def Let_def)

lemma typed_stop: "typed_task t \<Longrightarrow> typed_task (failTask now msg t)" "typed_task t \<Longrightarrow> typed_task (cancelTask now t)"
  by (simp_all add: typed_task_def failTask_def cancelTask_def finished_def)

text \<open>What an action of a goroutine that is not about to finish does to its task.\<close>

definition keeps_typed :: "string \<Rightarrow> DownloadManager \<Rightarrow> DownloadManager \<Rightarrow> bool" where
  "keeps_typed i dm dm' \<longleftrightarrow>
     (\<forall>k. k \<noteq> i \<longrightarrow> dm_objs dm' k = dm_objs dm k \<and> dm_jobs dm' k = dm_jobs dm k) \<and>
     (typed_task (dm_objs dm i) \<and> tk_Status (dm_objs dm i) \<noteq> StatusCompleted \<longrightarrow>
        typed_task (dm_objs dm' i) \<and> (dm_jobs dm' i \<noteq> None \<longrightarrow> tk_Status (dm_objs dm' i) \<noteq> StatusCompleted))"

lemma keeps_typed_inv: "typed_inv dm \<Longrightarrow> dm_jobs dm i \<noteq> None \<Longrightarrow> keeps_typed i dm dm' \<Longrightarrow> typed_inv dm'"
  unfolding typed_inv_def keeps_typed_def by metis

lemma keeps_same: "dm_objs dm' = dm_objs dm \<Longrightarrow> (\<And>k. k \<noteq> i \<Longrightarrow> dm_jobs dm' k = dm_jobs dm k) \<Longrightarrow> keeps_typed i dm dm'"
  by (simp add: keeps_typed_def)

lemma keeps_put: "dm_objs dm0 = dm_objs dm \<Longrightarrow> dm_jobs dm0 = dm_jobs dm \<Longrightarrow> keeps_typed i dm (put_job i j dm0)"
  by (simp add: keeps_typed_def put_job_def)

lemma keeps_set:
  assumes "dm_objs dm' = (dm_objs dm)(i := f (dm_objs dm i))" "\<And>k. k \<noteq> i \<Longrightarrow> dm_jobs dm' k = dm_jobs dm k"
    and "\<And>t. typed_task t \<Longrightarrow> tk_Status t \<noteq> StatusCompleted \<Longrightarrow> typed_task (f t) \<and> (dm_jobs dm' i \<noteq> None \<longrightarrow> tk_Status (f t) \<noteq> StatusCompleted)"
  shows "keeps_typed i dm dm'"
  using assms by (simp add: keeps_typed_def)

lemma end_job_others: "k \<noteq> i \<Longrightarrow> dm_jobs (end_job env i j dm) k = dm_jobs dm k" by (simp add: end_job_def Let_def)

lemma keeps_end:
  assumes "\<And>t. typed_task t \<Longrightarrow> tk_Status t \<noteq> StatusCompleted \<Longrightarrow> typed_task (f t)" "dm_objs dm0 = dm_objs dm" "dm_jobs dm0 = dm_jobs dm"
  shows "keeps_typed i dm (end_job env i j (set_task i f dm0))"
  using assms by (intro keeps_set [where f = f]) (simp_all add: end_job_sel end_job_others set_task_def)

lemma keeps_fail: "dm_objs dm0 = dm_objs dm \<Longrightarrow> dm_jobs dm0 = dm_jobs dm \<Longrightarrow> keeps_typed i dm (fail_job env msg i j dm0)"
  unfolding fail_job_def by (intro keeps_end typed_stop)

lemma keeps_cancel: "keeps_typed i dm (end_job env i j (set_task i (cancelTask now) dm))"
  by (intro keeps_end typed_stop refl)

lemma keeps_return: "keeps_typed i dm (return_job env r i j dm)"
proof (cases r)
  case TransferError
  then show ?thesis by (simp add: return_job_def stop_job_def keeps_fail keeps_cancel)
next
  case (DirectResult f m n)
  then show ?thesis
    by (auto simp: return_job_def Let_def put_job_def set_task_def typed_task_def intro!: keeps_set [where f = "\<lambda>t. t\<lparr>tk_TotalBytes := n\<rparr>"])
qed (auto simp: return_job_def Let_def put_job_def intro: keeps_same)

lemma keeps_set_task:
  assumes "\<And>t. typed_task t \<Longrightarrow> tk_Status t \<noteq> StatusCompleted \<Longrightarrow> typed_task (f t) \<and> tk_Status (f t) \<noteq> StatusCompleted"
  shows "keeps_typed i dm (set_task i f dm)"
  using assms by (simp add: keeps_typed_def set_task_def)

lemma keeps_transfer:
  assumes "plausible (JobEvent env i act)"
  shows "keeps_typed i dm (transfer_act env act i j dm)"
proof (cases act)
  case (Report d t s)
  have "0 \<le> percent env 90 92 d t" "percent env 90 92 d t < 100"
    using percent_bounds [of env d 90 92 t] assms by (simp_all add: Report plausible_def)
  then show ?thesis
    by (auto simp: Report transfer_act_def on_progress_def refuse_quota_def failTask_def finished_def typed_task_def intro!: keeps_set_task)
next
  case (ReportAccel d t s n b tb)
  have "0 \<le> percent env 88 90 d t" "percent env 88 90 d t < 100"
    using percent_bounds [of env d 88 90 t] assms by (simp_all add: ReportAccel plausible_def)
  then show ?thesis
    by (auto simp: ReportAccel transfer_act_def on_progress_accel_def refuse_quota_def failTask_def finished_def typed_task_def intro!: keeps_set_task)
next
  case (Wrote p)
  then show ?thesis by (auto simp: transfer_act_def write_job_def put_job_def intro!: keeps_same split: prod.splits)
next
  case (Returned r)
  then show ?thesis by (simp add: transfer_act_def keeps_return)
next
  case AccelFailed
  then show ?thesis by (auto simp: transfer_act_def keeps_cancel typed_task_def intro!: keeps_set_task)
qed (auto simp: transfer_act_def copy_failed_def on_meta_def typed_task_def keeps_fail intro!: keeps_set_task keeps_same)

lemma keeps_begin: "keeps_typed i dm (begin_job env isVault vk i j dm)"
  by (auto simp: begin_job_def Let_def intro!: keeps_fail keeps_put split: option.splits)

lemma keeps_final:
  "keeps_typed i dm (flush_job name mime i j dm)" "keeps_typed i dm (save_job env name mime i j dm)"
  "keeps_typed i dm (record_job env h e name mime i j dm)" "keeps_typed i dm (mark_job env f h i j dm)"
proof -
  show "keeps_typed i dm (flush_job name mime i j dm)" unfolding flush_job_def Let_def
    by (rule keeps_set [where f = "\<lambda>t. t\<lparr>tk_StatusText := ''Menyimpan ke CAS...'', tk_Progress := 95, tk_Filename := name, tk_MimeType := mime\<rparr>"])
      (auto simp: put_job_def set_task_def typed_task_def)
  show "keeps_typed i dm (save_job env name mime i j dm)"
    by (auto simp: save_job_def intro!: keeps_fail keeps_put split: prod.splits option.splits)
  show "keeps_typed i dm (record_job env h e name mime i j dm)"
    by (auto simp: record_job_def Let_def intro!: keeps_fail keeps_put)
  show "keeps_typed i dm (mark_job env f h i j dm)"
    unfolding mark_job_def by (rule keeps_end) (auto simp: typed_task_def finished_def)
qed

lemma keeps_job:
  assumes "plausible (JobEvent env i act)"
  shows "keeps_typed i dm (job_step env i act dm)"
proof (cases "dm_jobs dm i")
  case (Some j)
  then show ?thesis
    using keeps_transfer [OF assms] by (cases "jb_phase j") (auto simp: job_step_def copy_failed_def keeps_begin keeps_return keeps_fail keeps_final intro: keeps_same)
qed (simp add: job_step_def keeps_same)

lemma typed_job: "typed_inv dm \<Longrightarrow> plausible (JobEvent env i act) \<Longrightarrow> typed_inv (job_step env i act dm)"
  using keeps_typed_inv [OF _ _ keeps_job, of dm i env act] by (cases "dm_jobs dm i = None") (simp_all add: job_step_def [of env i act dm])

lemma typed_event:
  assumes "typed_inv dm" "plausible ev"
  shows "typed_inv (handle_event ev dm)"
proof (cases ev)
  case (CancelAll now)
  have s: "typed_inv (set_task i (cancel_active now) dm)" if "typed_inv dm" for i dm
    using that by (auto simp: typed_inv_def set_task_def cancel_active_def cancelTask_def typed_task_def finished_def)
  have "typed_inv (fold (\<lambda>i. set_task i (cancel_active now)) is dm)" for "is"
    using assms(1) by (induction "is" arbitrary: dm) (simp_all add: s)
  then show ?thesis by (simp add: CancelAll handle_event_def CancelAllTasks_def)
next
  case (LateReport env i d t s n b tb)
  have p: "0 \<le> percent env 88 90 d t" "percent env 88 90 d t < 100"
    using percent_bounds [of env d 88 90 t] assms(2) by (simp_all add: LateReport plausible_def)
  show ?thesis
  proof (cases "tk_reporter (dm_objs dm i)")
    case None
    then show ?thesis using assms(1) by (simp add: LateReport handle_event_def late_report_def)
  next
    case (Some used)
    let ?t = "dm_objs (handle_event ev dm) i"
    have "typed_task (dm_objs dm i)" using assms(1) by (simp add: typed_inv_def)
    then have t: "typed_task ?t \<and> (tk_Status (dm_objs dm i) \<noteq> StatusCompleted \<longrightarrow> tk_Status ?t \<noteq> StatusCompleted)"
      using Some p by (simp add: LateReport handle_event_def late_report_def on_progress_accel_def refuse_quota_def failTask_def
          typed_task_def finished_def)
    have o: "dm_jobs (handle_event ev dm) = dm_jobs dm" "dm_objs (handle_event ev dm) k = dm_objs dm k" if "k \<noteq> i" for k
      using that by (simp_all add: LateReport handle_event_def late_report_def on_progress_accel_def set_task_def split: option.splits)
    have jobs: "dm_jobs (handle_event ev dm) = dm_jobs dm"
      by (simp add: LateReport handle_event_def late_report_def on_progress_accel_def split: option.splits)
    show ?thesis unfolding typed_inv_def
    proof
      fix k show "typed_task (dm_objs (handle_event ev dm) k) \<and>
          (dm_jobs (handle_event ev dm) k \<noteq> None \<longrightarrow> tk_Status (dm_objs (handle_event ev dm) k) \<noteq> StatusCompleted)"
        using assms(1) t o(2) [of k] jobs by (cases "k = i") (simp_all add: typed_inv_def)
    qed
  qed
next
  case (Start env le opts)
  then show ?thesis using assms(1)
    by (auto simp: handle_event_def StartDownloadWithOptions_def Let_def typed_inv_def typed_task_def finished_def max_threads_def
        split: option.splits)
next
  case (JobEvent env i act)
  then show ?thesis using assms typed_job by (simp add: handle_event_def)
next
  case (Cancel now i)
  then show ?thesis using assms(1)
    by (auto simp: handle_event_def CancelTask_def typed_inv_def set_task_def cancelTask_def typed_task_def finished_def)
next
  case (Dismiss i ownerID)
  then show ?thesis using assms(1) by (simp add: handle_event_def DismissTask_def typed_inv_def)
next
  case (Prune now ttl)
  then show ?thesis using assms(1) by (simp add: handle_event_def PruneOldTasks_def typed_inv_def)
qed

section \<open>Properties\<close>

text \<open>C6: a task that shows as completed has exactly what its transfer fetched. Whatever the interleaving of downloads with
  each other, with late reports and with requests to cancel, dismiss and prune them, and whichever transfers, opens,
  renames and copies fail, there is a row with the file id and the hash of the task, its plaintext hash is that of the
  bytes the transfer passed on, and the blob decrypts to these bytes through any reader and any buffer. The disk has
  room, inserts into the database succeed, files can be removed and looked up, and no other blob has the SHA-256 of
  bytes about to be stored.\<close>

theorem completed_downloads_readable:
  assumes "NewDownloadManager fails cas fs files tmpDir quota = Some dm0" "cas_inv (cas, fs)" "events_ok evs dm0"
    and "dm = fold handle_event evs dm0" "tk_Status (dm_objs dm i) = StatusCompleted" "x = fetched i evs dm0 []"
  shows "\<exists>row \<in> set (dm_files dm). f_id row = tk_FileID (dm_objs dm i) \<and> f_cas row = tk_CasHash (dm_objs dm i) \<and>
    f_plain row = hash_of x \<and> (\<exists>key d. blob_at (dm_cas dm, dm_fs dm) (f_cas row) = Some d \<and>
       (\<forall>kind n. 0 < n \<longrightarrow> (\<exists>ds. NewDecryptStream (new_reader kind d) key = Inr ds \<and> read_all n ds = (x, Some EOF))))"
proof -
  have "dm_inv dm0" "fetched_inv i [] dm0"
    using assms(1,2) by (auto simp: NewDownloadManager_def dm_inv_def task_ok_def fetched_inv_def blank_task_def split: if_splits)
  from events_fetched [OF this(1) assms(3) this(2)] have I: "task_ok dm (dm_objs dm i)" "fetched_inv i x dm"
    using assms(4,6) by (simp_all add: dm_inv_def)
  obtain key where st: "stored key x (tk_CasHash (dm_objs dm i)) dm" "tk_PlaintextHash (dm_objs dm i) = hash_of x"
    using I(2) assms(5) by (auto simp: fetched_inv_def)
  obtain row where row: "row \<in> set (dm_files dm)" "f_id row = tk_FileID (dm_objs dm i)" "f_cas row = tk_CasHash (dm_objs dm i)"
    "f_plain row = hash_of x"
    using I(1) assms(5) st(2) by (auto simp: task_ok_def has_row_def)
  obtain d where d: "blob_at (dm_cas dm, dm_fs dm) (f_cas row) = Some d" "framed key x d" "aes_NewCipher key \<noteq> None"
    using st(1) row(3) by (auto simp: stored_def)
  with row framed_reads [OF d(2,3)] show ?thesis by blast
qed

text \<open>A transfer that returned without an error is stored, whatever kind it was.\<close>

lemma transfer_stored:
  assumes F: "fetching i key used custom x dm0 (fold (job_step env i) acts (job_step env i Begin dm))" and r: "r \<noteq> TransferError"
    and tw: "no_twin key x dm0" and env: "calm env" "je_fails env = no_faults" and dm': "dm' = executeDownload env (acts @ [Returned r]) i dm"
  shows "tk_Status (dm_objs dm' i) = StatusCompleted \<and>
    (\<exists>row. dm_files dm' = dm_files dm0 @ [row] \<and> f_owner row = tk_OwnerID (dm_objs dm0 i) \<and>
       f_size row = tk_DownloadedBytes (dm_objs (fold (job_step env i) acts (job_step env i Begin dm)) i) \<and>
       f_plain row = hash_of x \<and> f_cas row = tk_CasHash (dm_objs dm' i) \<and> stored key x (f_cas row) dm')"
proof -
  let ?dm2 = "fold (job_step env i) acts (job_step env i Begin dm)"
  let ?dm3 = "job_step env i (Returned r) ?dm2"
  from returned_run [OF F r, of env] obtain j3 f mime where
    3: "dm_inv ?dm3" "dm_jobs ?dm3 i = Some j3" "jb_phase j3 = Flushing f mime" "jb_key j3 = key" "jb_plain j3 = x"
    "dm_files ?dm3 = dm_files dm0" "blob_at (dm_cas ?dm3, dm_fs ?dm3) = blob_at (dm_cas dm0, dm_fs dm0)"
    "tk_DownloadedBytes (dm_objs ?dm3 i) = tk_DownloadedBytes (dm_objs ?dm2 i)" "tk_OwnerID (dm_objs ?dm3 i) = tk_OwnerID (dm_objs dm0 i)"
    unfolding Let_def by blast
  have "no_twin (jb_key j3) (jb_plain j3) ?dm3" using tw 3(4,5,7) by (simp add: no_twin_def)
  moreover have "dm' = fold (job_step env i) [Advance, Advance, Advance, Advance] ?dm3"
    using dm' by (simp add: executeDownload_def)
  ultimately show ?thesis using finish_run [OF 3(1-3) _ env] 3(4-9) by fastforce
qed

text \<open>a direct download that runs to its end stores what it received: the task completes, the new row has the
  number of received bytes as its size and their SHA-256 as its plaintext hash, and its blob decrypts to them.\<close>

theorem direct_download_stored:
  assumes "dm_inv dm" "dm_jobs dm i = Some j" "jb_phase j = NotStarted isVault vk" "calm env" "je_fails env = no_faults"
    and "job_key env isVault vk = Some key" "aes_NewCipher key \<noteq> None"
    and "used = GetUserStorageUsed (tk_OwnerID (dm_objs dm i)) (dm_files dm)" "dm_QuotaBytes dm > 0 \<longrightarrow> used < dm_QuotaBytes dm"
    and "streamWithProgress tot 0 turns = (acts, Some True)" "small_reads turns" "x = stream_bytes turns"
    and "within_quota used (int (length x)) dm" "no_twin key x dm"
    and "dm' = executeDownload env (acts @ [Returned (DirectResult name mime n)]) i dm"
  shows "tk_Status (dm_objs dm' i) = StatusCompleted \<and>
    (\<exists>row. dm_files dm' = dm_files dm @ [row] \<and> f_owner row = tk_OwnerID (dm_objs dm i) \<and> f_size row = int (length x) \<and>
       f_plain row = hash_of x \<and> f_cas row = tk_CasHash (dm_objs dm' i) \<and> stored key x (f_cas row) dm')"
proof -
  let ?dm1 = "job_step env i Begin dm"
  have F: "fetching i key used (jb_custom j) [] dm ?dm1" by (rule begin_run [OF assms(1-9)])
  have F2: "fetching i key used (jb_custom j) x dm (fold (job_step env i) acts ?dm1)"
    and len: "tk_DownloadedBytes (dm_objs (fold (job_step env i) acts ?dm1) i) = int (length x)"
    using stream_run [where x = "[]" and acts = acts, OF _ assms(11) F] assms(10,12,13) by simp_all
  from transfer_stored [OF F2 _ assms(14,4,5,15)] len show ?thesis by simp
qed

text \<open>cancelling comes too late without saying so: once its transfer has returned, a task that is cancelled,
  successfully as the answer says, still stores its file and ends as completed.\<close>

theorem cancelled_download_completes:
  assumes "dm_inv dm" "dm_jobs dm i = Some j" "jb_phase j = Flushing name mime" "i \<in> set (dm_tasks dm)"
    and "no_twin (jb_key j) (jb_plain j) dm" "calm env" "je_fails env = no_faults"
    and "CancelTask now i dm = (dm1, ok)" "dm' = fold (job_step env i) [Advance, Advance, Advance, Advance] dm1"
  shows "ok \<and> tk_Status (dm_objs dm1 i) = StatusCancelled \<and> tk_Status (dm_objs dm' i) = StatusCompleted \<and>
    (\<exists>row. dm_files dm' = dm_files dm @ [row] \<and> f_plain row = hash_of (jb_plain j))"
proof -
  have "tk_Status (dm_objs dm i) \<noteq> StatusCompleted" using dm_inv_job [OF assms(1,2)] by simp
  then have dm1: "dm1 = set_task i (\<lambda>t. cancelTask now (t\<lparr>tk_cancelled := True\<rparr>)) dm" "ok"
    using assms(4,8) by (auto simp: CancelTask_def)
  have I: "dm_inv dm1" using event_inv [OF assms(1), of "Cancel now i"] assms(8) by (simp add: handle_event_def event_ok_def)
  have "dm_jobs dm1 i = Some j" "no_twin (jb_key j) (jb_plain j) dm1" "dm_files dm1 = dm_files dm"
    using assms(2,5) by (simp_all add: dm1 no_twin_def set_task_def)
  with finish_run [OF I _ assms(3) _ assms(6,7,9)] dm1 show ?thesis by (auto simp: cancelTask_def)
qed

text \<open>C35: a quota that is exceeded by the last report stops nothing: the report fails and cancels the task, but the
  transfer has no more turns in which to notice, and the file is stored and the task completed.\<close>

theorem over_quota_download_completes:
  assumes "dm_inv dm" "dm_jobs dm i = Some j" "jb_phase j = Transferring" "over_quota j d dm"
    and "no_twin (jb_key j) (jb_plain j) dm" "calm env" "je_fails env = no_faults"
    and "dm1 = job_step env i (Report d t ''Idle'') dm"
    and "dm' = fold (job_step env i) [Returned (DirectResult name mime n), Advance, Advance, Advance, Advance] dm1"
  shows "tk_Status (dm_objs dm1 i) = StatusFailed \<and> tk_ErrorMessage (dm_objs dm1 i) = quota_message \<and> tk_cancelled (dm_objs dm1 i) \<and>
    tk_Status (dm_objs dm' i) = StatusCompleted \<and> (\<exists>row. dm_files dm' = dm_files dm @ [row] \<and> f_plain row = hash_of (jb_plain j))"
proof -
  let ?dm2 = "job_step env i (Returned (DirectResult name mime n)) dm1"
  have dm1: "dm1 = set_task i (refuse_quota env) dm"
    using assms(2-4,8) by (simp add: job_step_def transfer_act_def on_progress_def)
  have "dm_inv dm1" using job_transfer_inv [OF assms(1-3), of "Report d t ''Idle''" env] assms(2-3,8)
    by (simp add: job_step_def act_ok_def)
  then have F: "fetching i (jb_key j) (jb_used j) (jb_custom j) (jb_plain j) dm dm1"
    using assms(2,3) by (simp add: fetching_def dm1 set_task_def refuse_quota_def failTask_def)
  from returned_run [OF F, of "DirectResult name mime n" env] obtain j3 f m where
    3: "dm_inv ?dm2" "dm_jobs ?dm2 i = Some j3" "jb_phase j3 = Flushing f m" "jb_key j3 = jb_key j" "jb_plain j3 = jb_plain j"
    "dm_files ?dm2 = dm_files dm" "blob_at (dm_cas ?dm2, dm_fs ?dm2) = blob_at (dm_cas dm, dm_fs dm)"
    unfolding Let_def by auto
  have "no_twin (jb_key j3) (jb_plain j3) ?dm2" using assms(5) 3(4,5,7) by (simp add: no_twin_def)
  from finish_run [OF 3(1-3) this assms(6,7)] assms(9) 3(4-6) show ?thesis
    by (auto simp: dm1 refuse_quota_def failTask_def)
qed

text \<open>C32: the fields of every task, in every state of the manager, the late reports of accelerated attempts included: the
  progress is a percentage, it is 100 only for completed tasks and for every completed task that never began an
  accelerated attempt, a task has an end time exactly when it is completed, failed or cancelled, and its number of
  threads is between 1 and 32.\<close>

theorem task_fields:
  assumes "NewDownloadManager fails cas fs files tmpDir quota = Some dm0" "list_all plausible evs"
    and "t = dm_objs (fold handle_event evs dm0) i"
  shows "0 \<le> tk_Progress t \<and> tk_Progress t \<le> 100 \<and> (tk_Progress t = 100 \<longrightarrow> tk_Status t = StatusCompleted) \<and>
    (tk_Status t = StatusCompleted \<and> tk_reporter t = None \<longrightarrow> tk_Progress t = 100) \<and>
    (tk_CompletedAt t \<noteq> None \<longleftrightarrow> finished (tk_Status t)) \<and> 1 \<le> tk_MaxThreads t \<and> tk_MaxThreads t \<le> 32"
proof -
  have "typed_inv dm0"
    using assms(1) by (auto simp: NewDownloadManager_def typed_inv_def typed_task_def blank_task_def finished_def split: if_splits)
  then have "typed_inv (fold handle_event evs dm0)"
    using assms(2) by (induction evs arbitrary: dm0) (simp_all add: typed_event)
  then show ?thesis using assms(3) by (simp add: typed_inv_def typed_task_def)
qed

text \<open>a report that comes after the end takes a completed task back below a hundred percent and, when the bytes it
  counted exceed the quota, makes it a failed one.\<close>

theorem late_report_after_the_end:
  assumes "tk_Status (dm_objs dm i) = StatusCompleted" "tk_reporter (dm_objs dm i) = Some used" "sane env" "0 \<le> d"
    and "dm' = handle_event (LateReport env i d t s n b tb) dm"
  shows "tk_Progress (dm_objs dm' i) < 100 \<and>
    tk_Status (dm_objs dm' i) =
      (if dm_QuotaBytes dm > 0 \<and> wrap64 (used + d) > dm_QuotaBytes dm then StatusFailed else StatusCompleted)"
  using percent_bounds [of env d 88 90 t] assms
  by (auto simp: handle_event_def late_report_def on_progress_accel_def refuse_quota_def failTask_def)

section \<open>Witnesses\<close>

definition ex_jenv :: JobEnv where
  "ex_jenv = \<lparr>je_now = 0, je_fails = no_faults, je_part = 0, je_room = None, je_rnd = [1], je_err = [], je_stdKey = replicate 32 7,
     je_insertFails = False, je_scale = (\<lambda>a b k. a * k div b), je_mimeOf = (\<lambda>_. [])\<rparr>"

definition ex_links :: LinkEnv where
  "ex_links = \<lparr>le_uni = (\<lambda>s. s), le_Normalize = (\<lambda>s. s), le_Resolved = (\<lambda>_. None), le_Magnet = (\<lambda>_. None), le_Header = (\<lambda>_. ''a.bin'')\<rparr>"

definition ex_opts :: DownloadOptions where
  "ex_opts = \<lparr>do_OwnerID = 1, do_FolderID = [], do_Link = ''http://x/a.bin'', do_FilenameOverride = [], do_IsVault = False,
     do_VaultKey = [], do_MaxThreads = 0\<rparr>"

definition ex_manager :: DownloadManager where
  "ex_manager = \<lparr>dm_cas = \<lparr>BaseDir = ''cas'', existCache = {}\<rparr>, dm_fs = Map.empty, dm_files = [], dm_TmpDir = ''tmp'', dm_QuotaBytes = 1,
     dm_tasks = [], dm_objs = (\<lambda>_. blank_task), dm_jobs = Map.empty\<rparr>"

definition ex_started :: DownloadManager where
  "ex_started = fst (StartDownloadWithOptions ex_jenv ex_links ex_opts ex_manager)"

abbreviation "ex_task \<equiv> new_task_id ex_jenv"

lemma ex_calm: "calm ex_jenv" "je_fails ex_jenv = no_faults" by (simp_all add: calm_def ex_jenv_def)

lemma ex_manager_ok:
  "NewDownloadManager no_faults \<lparr>BaseDir = ''cas'', existCache = {}\<rparr> Map.empty [] ''tmp'' 1 = Some ex_manager"
  "cas_inv (\<lparr>BaseDir = ''cas'', existCache = {}\<rparr>, Map.empty)"
  by (simp_all add: NewDownloadManager_def ex_manager_def cas_inv_def)

lemma ex_dm_inv: "dm_inv ex_manager"
  using ex_manager_ok(2) by (simp add: ex_manager_def dm_inv_def task_ok_def blank_task_def)

lemma ex_direct: "DetectLinkType (\<lambda>s. s) (\<lambda>s. s) ''http://x/a.bin'' = Some DownloadTypeDirect" by code_simp

lemma ex_job:
  obtains j where "dm_jobs ex_started ex_task = Some j" "jb_phase j = NotStarted False []" "ex_task \<in> set (dm_tasks ex_started)"
    "tk_OwnerID (dm_objs ex_started ex_task) = 1" "\<not> jb_custom j"
  by (rule that) (auto simp: ex_started_def StartDownloadWithOptions_def ex_links_def ex_opts_def ex_direct Let_def)

lemma ex_started_sel [simp]:
  "dm_files ex_started = []" "dm_fs ex_started = Map.empty" "dm_QuotaBytes ex_started = 1" "dm_cas ex_started = \<lparr>BaseDir = ''cas'', existCache = {}\<rparr>"
  by (simp_all add: ex_started_def StartDownloadWithOptions_def ex_links_def ex_opts_def ex_direct Let_def ex_manager_def)

lemma ex_start_step: "dm_step ex_manager ex_started"
  using dm_step.intros [of "Start ex_jenv ex_links ex_opts" ex_manager]
  by (simp add: event_ok_def handle_event_def ex_started_def) (simp add: ex_manager_def)

lemma ex_started_inv: "dm_inv ex_started"
  using steps_inv [of ex_manager ex_started] ex_start_step ex_dm_inv by blast

lemma ex_empty: "no_twin key x ex_started" "GetUserStorageUsed 1 (dm_files ex_started) = 0" "job_key ex_jenv False [] = Some (replicate 32 7)"
  by (simp_all add: no_twin_def blob_at_def GetUserStorageUsed_def job_key_def ex_jenv_def wrap64_def)

theorem direct_download_stored_witness:
  "let dm' = executeDownload ex_jenv ([Wrote [9], Report 1 1 ''Idle''] @ [Returned (DirectResult ''a.bin'' ''x/y'' 1)]) ex_task ex_started
   in tk_Status (dm_objs dm' ex_task) = StatusCompleted \<and>
      (\<exists>row. dm_files dm' = [row] \<and> f_size row = 1 \<and> stored (replicate 32 7) [9] (f_cas row) dm')"
proof -
  obtain j where j: "dm_jobs ex_started ex_task = Some j" "jb_phase j = NotStarted False []" "tk_OwnerID (dm_objs ex_started ex_task) = 1"
    by (rule ex_job)
  let ?turns = "[SrcRead [9] (Some ReadEOF) None]"
  have s: "streamWithProgress 1 0 ?turns = ([Wrote [9], Report 1 1 ''Idle''], Some True)" by simp
  have q: "0 = GetUserStorageUsed (tk_OwnerID (dm_objs ex_started ex_task)) (dm_files ex_started)"
    "dm_QuotaBytes ex_started > 0 \<longrightarrow> 0 < dm_QuotaBytes ex_started"
    "within_quota 0 (int (length [9 :: byte])) ex_started" "small_reads ?turns" "[9] = stream_bytes ?turns"
    using ex_empty(2) by (simp_all add: j within_quota_def small_reads_def)
  show ?thesis
    unfolding Let_def
    using direct_download_stored [OF ex_started_inv j(1,2) ex_calm ex_empty(3) ex_key q(1,2) s q(4,5,3) ex_empty(1) refl] by fastforce
qed

text \<open>The same download, stopped after its first write and after its transfer has returned.\<close>

definition ex_writing :: DownloadManager where
  "ex_writing = job_step ex_jenv ex_task (Wrote [9]) (job_step ex_jenv ex_task Begin ex_started)"

definition ex_returned :: DownloadManager where
  "ex_returned = job_step ex_jenv ex_task (Returned (DirectResult ''a.bin'' ''x/y'' 1)) ex_writing"

lemma ex_begun: "fetching ex_task (replicate 32 7) 0 False [] ex_started (job_step ex_jenv ex_task Begin ex_started)"
proof -
  obtain j where j: "dm_jobs ex_started ex_task = Some j" "jb_phase j = NotStarted False []" "tk_OwnerID (dm_objs ex_started ex_task) = 1"
    "\<not> jb_custom j"
    by (rule ex_job)
  have "0 = GetUserStorageUsed (tk_OwnerID (dm_objs ex_started ex_task)) (dm_files ex_started)"
    "dm_QuotaBytes ex_started > 0 \<longrightarrow> 0 < dm_QuotaBytes ex_started"
    using ex_empty(2) by (simp_all add: j)
  from begin_run [OF ex_started_inv j(1,2) ex_calm ex_empty(3) ex_key this] j(4) show ?thesis by simp
qed

lemma ex_wrote: "fetching ex_task (replicate 32 7) 0 False [9] ex_started ex_writing"
  using wrote_run [OF ex_begun, of "[9]" ex_jenv] by (simp add: ex_writing_def)

lemma ex_returned_job:
  obtains j f m where "dm_inv ex_returned" "dm_jobs ex_returned ex_task = Some j" "jb_phase j = Flushing f m"
    "jb_plain j = [9]" "no_twin (jb_key j) (jb_plain j) ex_returned" "dm_files ex_returned = []"
  using returned_run [OF ex_wrote, of "DirectResult ''a.bin'' ''x/y'' 1" ex_jenv] ex_empty(1) that
  by (auto simp: ex_returned_def [symmetric] Let_def no_twin_def)

lemma ex_tasks: "ex_task \<in> set (dm_tasks ex_returned)"
  using ex_job job_step_tasks by (metis ex_returned_def ex_writing_def)

theorem cancelled_download_completes_witness:
  "\<exists>dm1. CancelTask 7 ex_task ex_returned = (dm1, True) \<and> tk_Status (dm_objs dm1 ex_task) = StatusCancelled \<and>
     tk_Status (dm_objs (fold (job_step ex_jenv ex_task) [Advance, Advance, Advance, Advance] dm1) ex_task) = StatusCompleted"
proof -
  obtain j f m where j: "dm_inv ex_returned" "dm_jobs ex_returned ex_task = Some j" "jb_phase j = Flushing f m"
    "no_twin (jb_key j) (jb_plain j) ex_returned"
    by (rule ex_returned_job)
  obtain dm1 ok where c: "CancelTask 7 ex_task ex_returned = (dm1, ok)" by (rule prod.exhaust)
  from cancelled_download_completes [OF j(1-3) ex_tasks j(4) ex_calm c refl] c show ?thesis by auto
qed

theorem over_quota_download_completes_witness:
  "let dm1 = job_step ex_jenv ex_task (Report 2 2 ''Idle'') ex_writing;
       dm' = fold (job_step ex_jenv ex_task) [Returned (DirectResult ''a.bin'' ''x/y'' 2), Advance, Advance, Advance, Advance] dm1
   in tk_Status (dm_objs dm1 ex_task) = StatusFailed \<and> tk_Status (dm_objs dm' ex_task) = StatusCompleted"
proof -
  obtain j where j: "dm_inv ex_writing" "dm_jobs ex_writing ex_task = Some j" "jb_phase j = Transferring" "over_quota j 2 ex_writing"
    "no_twin (jb_key j) (jb_plain j) ex_writing"
    using ex_wrote ex_empty(1) by (auto simp: fetching_def over_quota_def no_twin_def wrap64_def)
  show ?thesis unfolding Let_def using over_quota_download_completes [OF j ex_calm refl refl] by blast
qed

definition ex_fetch :: "dm_event list" where
  "ex_fetch = Start ex_jenv ex_links ex_opts # map (JobEvent ex_jenv ex_task) [Begin, Wrote [9], Returned (DirectResult ''a.bin'' ''x/y'' 1)]"

definition ex_finish :: "dm_event list" where
  "ex_finish = map (JobEvent ex_jenv ex_task) [Advance, Advance, Advance, Advance]"

lemma ex_fetch_run: "fold handle_event ex_fetch ex_manager = ex_returned"
  by (simp add: ex_fetch_def handle_event_def ex_returned_def ex_writing_def ex_started_def)

lemma ex_finish_run: "fold handle_event ex_finish dm = fold (job_step ex_jenv ex_task) [Advance, Advance, Advance, Advance] dm"
  by (simp add: ex_finish_def handle_event_def)

lemma ex_fetch_ok: "events_ok ex_fetch ex_manager"
proof -
  have "no_collision ex_started ex_task" "no_collision (job_step ex_jenv ex_task Begin ex_started) ex_task" "no_collision ex_writing ex_task"
    using ex_job advance_free(4) ex_begun ex_wrote by (metis, auto simp: fetching_def dest: advance_free(5))
  moreover have "dm_jobs ex_manager ex_task = None" by (simp add: ex_manager_def)
  ultimately show ?thesis
    using ex_calm(1)
    by (simp add: ex_fetch_def event_ok_def act_ok_def handle_event_def ex_writing_def ex_started_def [symmetric])
qed

lemma fetched_append: "fetched i (as @ bs) dm x = fetched i bs (fold handle_event as dm) (fetched i as dm x)"
  by (induction as arbitrary: dm x) auto

lemma fetched_advance: "fetched i (map (JobEvent env k) [Advance, Advance, Advance, Advance]) dm x = x"
  by (simp add: fetched_step_def)

lemma ex_fetched: "fetched ex_task (ex_fetch @ ex_finish) ex_manager [] = [9]"
proof -
  have "transferring ex_task (job_step ex_jenv ex_task Begin ex_started)"
    using ex_begun by (auto simp: fetching_def transferring_def)
  then have "fetched ex_task ex_fetch ex_manager [] = [9]"
    by (simp add: ex_fetch_def fetched_step_def handle_event_def ex_started_def [symmetric])
  then show ?thesis by (simp only: fetched_append ex_finish_def fetched_advance)
qed

theorem completed_downloads_readable_witness:
  "let dm = fold handle_event (ex_fetch @ ex_finish) ex_manager
   in tk_Status (dm_objs dm ex_task) = StatusCompleted \<and>
     (\<exists>row \<in> set (dm_files dm). f_plain row = hash_of [9] \<and> (\<exists>key d. blob_at (dm_cas dm, dm_fs dm) (f_cas row) = Some d \<and>
       (\<forall>kind n. 0 < n \<longrightarrow> (\<exists>ds. NewDecryptStream (new_reader kind d) key = Inr ds \<and> read_all n ds = ([9], Some EOF)))))"
proof -
  obtain j f m where j: "dm_inv ex_returned" "dm_jobs ex_returned ex_task = Some j" "jb_phase j = Flushing f m"
    "no_twin (jb_key j) (jb_plain j) ex_returned"
    by (rule ex_returned_job)
  let ?dm = "fold handle_event (ex_fetch @ ex_finish) ex_manager"
  have r: "?dm = fold (job_step ex_jenv ex_task) [Advance, Advance, Advance, Advance] ex_returned"
    by (simp only: fold_append comp_def ex_fetch_run ex_finish_run)
  have fin: "tk_Status (dm_objs ?dm ex_task) = StatusCompleted"
    unfolding r using finish_run [OF j ex_calm refl] by blast
  have ok: "events_ok (ex_fetch @ ex_finish) ex_manager"
    unfolding events_ok_append ex_fetch_run using ex_fetch_ok finish_events_ok [OF j ex_calm] by (simp only: ex_finish_def simp_thms)
  from completed_downloads_readable [OF ex_manager_ok ok refl fin ex_fetched [symmetric]] fin
  show ?thesis unfolding Let_def by blast
qed

theorem task_fields_witness:
  "let t = dm_objs (fold handle_event [Start ex_jenv ex_links ex_opts, JobEvent ex_jenv ex_task Begin,
       JobEvent ex_jenv ex_task (Report 0 1 []), Cancel 3 ex_task] ex_manager) ex_task
   in 0 \<le> tk_Progress t \<and> tk_Progress t \<le> 100 \<and> (tk_CompletedAt t \<noteq> None \<longleftrightarrow> finished (tk_Status t))"
proof -
  have "sane ex_jenv" by (simp add: sane_def ex_jenv_def pos_imp_zdiv_nonneg_iff)
  then have "list_all plausible [Start ex_jenv ex_links ex_opts, JobEvent ex_jenv ex_task Begin,
      JobEvent ex_jenv ex_task (Report 0 1 []), Cancel 3 ex_task]" by (simp add: plausible_def)
  from task_fields [OF ex_manager_ok(1) this refl] show ?thesis unfolding Let_def by blast
qed

end
