(* ===== verification/Torrent.thy ===== *)
theory Torrent
  imports Magnet Network_Safety Bencode Download_Manager
begin

text \<open>
  The BitTorrent client: \<^verbatim>\<open>internal/download/torrent.go\<close>. What a peer sends until a read from its connection fails is
  the byte string of its environment; a cancelled context, a failing write into the destination and the formatted
  speed depend on the turn of the message loop. What the client does is the list of the writes and reports it makes,
  as \<^verbatim>\<open>executeDownload\<close> sees them, and the list of the messages it sends. A web seed or tracker is the answer to its
  request; building and escaping URLs belongs to \<^verbatim>\<open>net/url\<close> and is not represented.
\<close>

section \<open>Messages\<close>

datatype torrent_error =
    CtxDone | Unsafe net_error | BadURL | RequestFailed | BadStatus int | SourceFailed
  | BadBencode bencode_error | NotADictionary | TrackerFailure string
  | DialFailed | SendFailed | ConnClosed | BadHandshake | HashMismatch | MessageTooLarge | WriteRefused | NoPayload
  | OnlyUDP | NoSources | AllPeersFailed

definition protocol_name :: bytes where
  "protocol_name = bytes_of_string ''BitTorrent protocol''"

definition handshake :: "bytes \<Rightarrow> bytes \<Rightarrow> bytes" where
  "handshake infoHash peerID = 19 # protocol_name @ [0, 0, 0, 0, 0, 0x10, 0, 0] @ take 20 infoHash @ take 20 peerID"

text \<open>\<^verbatim>\<open>NewTorrentClient\<close>, with the random bytes it reads.\<close>

definition NewTorrentClient :: "bytes \<Rightarrow> bytes" where
  "NewTorrentClient rnd = bytes_of_string ''-HZ2000-'' @ take 12 rnd"

definition check_handshake :: "bytes \<Rightarrow> bytes \<Rightarrow> torrent_error option" where
  "check_handshake infoHash h =
     (if take 1 h \<noteq> [19] \<or> take 19 (drop 1 h) \<noteq> protocol_name then Some BadHandshake
      else if take 20 (drop 28 h) \<noteq> infoHash then Some HashMismatch else None)"

definition ext_message :: "byte \<Rightarrow> bval \<Rightarrow> bytes option" where
  "ext_message extID v =
     (case MarshalBencode v of
        Inl e \<Rightarrow> None
      | Inr s \<Rightarrow> Some (put_be32 (of_nat (2 + length s)) @ [20, extID] @ bytes_of_string s))"

definition interested :: bytes where "interested = [0, 0, 0, 1, 2]"

definition request :: "32 word \<Rightarrow> 32 word \<Rightarrow> 32 word \<Rightarrow> bytes" where
  "request index begin_at len = put_be32 13 @ [6] @ put_be32 index @ put_be32 begin_at @ put_be32 len"

text \<open>One message from the connection: the length prefix, and then that many bytes.\<close>

datatype incoming = Closed | KeepAlive bytes | TooLarge | Message bytes bytes

definition read_message :: "bytes \<Rightarrow> incoming" where
  "read_message s =
     (if length s < 4 then Closed
      else
        let msgLen = unat (get_be32 s); rest = drop 4 s in
        if msgLen = 0 then KeepAlive rest
        else if msgLen > 10 * 1024 * 1024 then TooLarge
        else if length rest < msgLen then Closed
        else Message (take msgLen rest) (drop msgLen rest))"

section \<open>The state of a connection\<close>

record PeerEnv =
  pr_check :: NetEnv
  pr_dial :: NetEnv
  pr_refused :: bool
  pr_sendFails :: "nat \<Rightarrow> bool" \<comment> \<open>the three messages sent before the loop\<close>
  pr_stream :: bytes
  pr_done :: "nat \<Rightarrow> bool"
  pr_writeFails :: "nat \<Rightarrow> bool"
  pr_speed :: "nat \<Rightarrow> string"

record PeerConn =
  pc_in :: bytes
  pc_turn :: nat
  pc_acts :: "job_act list"
  pc_sent :: "bytes list"
  pc_downloaded :: int
  pc_total :: int
  pc_pieceLength :: "32 word"
  pc_keepAlives :: int
  pc_info :: MagnetInfo

datatype peer_end = PeerDone | PeerFailed torrent_error | PeerPanic

definition send :: "bytes \<Rightarrow> PeerConn \<Rightarrow> PeerConn" where
  "send m c = c\<lparr>pc_sent := pc_sent c @ [m]\<rparr>"

text \<open>After \<^verbatim>\<open>break\<close>: any payload at all counts as success.\<close>

definition finish :: "PeerConn \<Rightarrow> peer_end" where
  "finish c = (if pc_downloaded c > 0 then PeerDone else PeerFailed NoPayload)"

section \<open>One message\<close>

definition handle_unchoke :: "PeerConn \<Rightarrow> PeerConn" where
  "handle_unchoke c =
     (let initSize = (if pc_total c > 0 \<and> 16384 > pc_total c then of_int (pc_total c) else 16384)
      in send (request 0 0 initSize) c)"

definition next_request :: "32 word \<Rightarrow> int \<Rightarrow> int \<Rightarrow> bytes" where
  "next_request pieceLength total_len downloaded =
     (let nextBlockSize = (if total_len > 0 \<and> total_len - downloaded < 16384 then of_int (total_len - downloaded) else 16384)
      in request (of_int (downloaded div uint pieceLength)) (of_int (downloaded mod uint pieceLength)) nextBlockSize)"

text \<open>A piece: its index and offset are not looked at. A piece length of zero makes the division panic.\<close>

definition handle_piece :: "PeerEnv \<Rightarrow> bytes \<Rightarrow> PeerConn \<Rightarrow> PeerConn \<times> peer_end option" where
  "handle_piece env msgData c =
     (if length msgData \<le> 9 then (c, None)
      else
        let block = drop 9 msgData; c1 = c\<lparr>pc_acts := pc_acts c @ [Wrote block]\<rparr> in
        if pr_writeFails env (pc_turn c) then (c1, Some (PeerFailed WriteRefused))
        else
          let downloaded = pc_downloaded c + int (length block);
              c2 = c1\<lparr>pc_downloaded := downloaded,
                      pc_acts := pc_acts c1 @ [Report downloaded (pc_total c) (pr_speed env (pc_turn c))]\<rparr>
          in if pc_total c = 0 \<or> downloaded < pc_total c then
               (if pc_pieceLength c = 0 then (c2, Some PeerPanic) else (send (next_request (pc_pieceLength c) (pc_total c) downloaded) c2, None))
             else (c2, None))"

fun dict_int :: "(string \<times> bval) list \<Rightarrow> string \<Rightarrow> int option" where
  "dict_int d k = (case map_of d k of Some (BInt n) \<Rightarrow> Some n | _ \<Rightarrow> None)"

definition ut_metadata_id :: "(string \<times> bval) list \<Rightarrow> byte" where
  "ut_metadata_id d =
     (case map_of d ''m'' of
        Some (BDict m) \<Rightarrow> (case dict_int m ''ut_metadata'' of Some u \<Rightarrow> of_int u | None \<Rightarrow> 1)
      | _ \<Rightarrow> 1)"

definition metadata_request :: bval where
  "metadata_request = BDict [(''msg_type'', BInt 0), (''piece'', BInt 0)]"

definition handle_ext_handshake :: "string \<Rightarrow> PeerConn \<Rightarrow> PeerConn" where
  "handle_ext_handshake payload c =
     (case UnmarshalBencode payload of
        Inr (BDict d) \<Rightarrow>
          (case dict_int d ''metadata_size'' of
             Some metaSize \<Rightarrow>
               if metaSize > 0 then
                 (case ext_message (ut_metadata_id d) metadata_request of Some m \<Rightarrow> send m c | None \<Rightarrow> c)
               else c
           | None \<Rightarrow> c)
      | _ \<Rightarrow> c)"

fun files_sum :: "int \<Rightarrow> bval list \<Rightarrow> int" where
  "files_sum acc [] = acc"
| "files_sum acc (BDict fm # fs) = files_sum (case dict_int fm ''length'' of Some fl \<Rightarrow> wrap64 (acc + fl) | None \<Rightarrow> acc) fs"
| "files_sum acc (_ # fs) = files_sum acc fs"

definition set_total :: "int \<Rightarrow> PeerConn \<Rightarrow> PeerConn" where
  "set_total n c = c\<lparr>pc_total := n, pc_info := (pc_info c)\<lparr>mi_ExactLength := n\<rparr>\<rparr>"

definition apply_metadata :: "(string \<times> bval) list \<Rightarrow> PeerConn \<Rightarrow> PeerConn" where
  "apply_metadata m c =
     (let c1 = (case dict_int m ''length'' of Some l \<Rightarrow> if l > 0 then set_total l c else c | None \<Rightarrow> c);
          c2 = (case dict_int m ''piece length'' of
                  Some pl \<Rightarrow> if pl > 0 then c1\<lparr>pc_info := (pc_info c1)\<lparr>mi_PieceLength := pl\<rparr>, pc_pieceLength := of_int pl\<rparr> else c1
                | None \<Rightarrow> c1)
      in case map_of m ''files'' of
           Some (BList files) \<Rightarrow> (let s = files_sum 0 files in if s > 0 then set_total s c2 else c2)
         | _ \<Rightarrow> c2)"

definition handle_metadata :: "string \<Rightarrow> PeerConn \<Rightarrow> PeerConn" where
  "handle_metadata payload c =
     (case UnmarshalBencode payload of
        Inr (BDict d) \<Rightarrow>
          if dict_int d ''msg_type'' = Some 1 then
            (case MarshalBencode (BDict d) of
               Inr dictBytes \<Rightarrow>
                 if length payload > length dictBytes then
                   (case UnmarshalBencode (drop (length dictBytes) payload) of
                      Inr (BDict m) \<Rightarrow> apply_metadata m c
                    | _ \<Rightarrow> c)
                 else c
             | Inl e \<Rightarrow> c)
          else c
      | _ \<Rightarrow> c)"

definition handle_extended :: "bytes \<Rightarrow> PeerConn \<Rightarrow> PeerConn" where
  "handle_extended msgData c =
     (if length msgData \<le> 2 then c
      else let payload = string_of_bytes (drop 2 msgData) in
        if msgData ! 1 = 0 then handle_ext_handshake payload c else handle_metadata payload c)"

text \<open>The \<^verbatim>\<open>switch\<close>. The \<^verbatim>\<open>break\<close> of the choke case leaves the \<^verbatim>\<open>switch\<close>, not the loop.\<close>

definition handle_message :: "PeerEnv \<Rightarrow> bytes \<Rightarrow> PeerConn \<Rightarrow> PeerConn \<times> peer_end option" where
  "handle_message env msgData c =
     (let msgID = hd msgData in
      if msgID = 1 then (handle_unchoke c, None)
      else if msgID = 7 then handle_piece env msgData c
      else if msgID = 20 then (handle_extended msgData c, None)
      else (c, None))"

definition peer_turn :: "PeerEnv \<Rightarrow> PeerConn \<Rightarrow> PeerConn \<times> peer_end option" where
  "peer_turn env c =
     (if pr_done env (pc_turn c) then (c, Some (PeerFailed CtxDone))
      else case read_message (pc_in c) of
          Closed \<Rightarrow> (c, Some (if pc_downloaded c > 0 then finish c else PeerFailed ConnClosed))
        | KeepAlive rest \<Rightarrow>
            let c1 = c\<lparr>pc_in := rest, pc_turn := Suc (pc_turn c), pc_keepAlives := pc_keepAlives c + 1\<rparr> in
            if pc_total c = 0 \<and> pc_downloaded c > 0 \<and> pc_keepAlives c1 \<ge> 2 then (c1, Some (finish c1)) else (c1, None)
        | TooLarge \<Rightarrow> (c, Some (PeerFailed MessageTooLarge))
        | Message msgData rest \<Rightarrow>
            (case handle_message env msgData (c\<lparr>pc_in := rest, pc_keepAlives := 0\<rparr>) of
               (c1, Some e) \<Rightarrow> (c1, Some e)
             | (c1, None) \<Rightarrow>
                 if pc_total c1 > 0 \<and> pc_downloaded c1 \<ge> pc_total c1 then (c1, Some (finish c1))
                 else (c1\<lparr>pc_turn := Suc (pc_turn c1)\<rparr>, None)))"

lemma handle_message_in:
  assumes "handle_message env m c = (c', e)"
  shows "pc_in c' = pc_in c"
proof -
  have "pc_in (handle_unchoke c) = pc_in c" by (simp add: handle_unchoke_def send_def Let_def)
  moreover have "pc_in (fst (handle_piece env m c)) = pc_in c" by (simp add: handle_piece_def send_def Let_def)
  moreover have "pc_in (apply_metadata d c) = pc_in c" for d
    by (simp add: apply_metadata_def set_total_def Let_def split: option.splits bval.splits)
  then have "pc_in (handle_extended m c) = pc_in c"
    by (auto simp: handle_extended_def handle_ext_handshake_def handle_metadata_def send_def Let_def
        split: sum.splits bval.splits option.splits)
  ultimately show ?thesis using assms by (auto simp: handle_message_def Let_def split: if_splits)
qed

lemma read_message_shorter:
  "read_message s = KeepAlive rest \<Longrightarrow> length rest < length s"
  "read_message s = Message m rest \<Longrightarrow> length rest < length s"
  by (auto simp: read_message_def Let_def split: if_splits)

lemma peer_turn_shorter: "peer_turn env c = (c', None) \<Longrightarrow> length (pc_in c') < length (pc_in c)"
  using read_message_shorter [of "pc_in c"] handle_message_in
  by (auto simp: peer_turn_def Let_def split: if_splits incoming.splits prod.splits option.splits)

text \<open>The loop over messages: every turn that goes on has consumed a part of the stream.\<close>

function peer_loop :: "PeerEnv \<Rightarrow> PeerConn \<Rightarrow> PeerConn \<times> peer_end" where
  "peer_loop env c =
     (case peer_turn env c of (c', Some e) \<Rightarrow> (c', e) | (c', None) \<Rightarrow> peer_loop env c')"
  by pat_completeness auto
termination
  by (relation "measure (\<lambda>(env, c). length (pc_in c))") (auto simp: peer_turn_shorter)

declare peer_loop.simps [simp del]

section \<open>A peer\<close>

definition extension_handshake :: bval where
  "extension_handshake = BDict [(''m'', BDict [(''ut_metadata'', BInt 1)])]"

definition first_pieceLength :: "MagnetInfo \<Rightarrow> 32 word" where
  "first_pieceLength info =
     (if mi_PieceLength info > 0 \<and> mi_PieceLength info \<le> 16 * 1024 * 1024 then of_int (mi_PieceLength info) else 256 * 1024)"

definition open_conn :: "PeerEnv \<Rightarrow> MagnetInfo \<Rightarrow> bytes list \<Rightarrow> PeerConn" where
  "open_conn env info msgs =
     \<lparr>pc_in = drop 68 (pr_stream env), pc_turn = 0, pc_acts = [], pc_sent = msgs, pc_downloaded = 0, pc_total = mi_ExactLength info,
      pc_pieceLength = first_pieceLength info, pc_keepAlives = 0, pc_info = info\<rparr>"

definition refused :: "PeerEnv \<Rightarrow> MagnetInfo \<Rightarrow> bytes list \<Rightarrow> torrent_error \<Rightarrow> PeerConn \<times> peer_end" where
  "refused env info msgs e = (open_conn env info msgs, PeerFailed e)"

definition downloadFromPeer :: "PeerEnv \<Rightarrow> bytes \<Rightarrow> string \<Rightarrow> MagnetInfo \<Rightarrow> PeerConn \<times> peer_end" where
  "downloadFromPeer env peerID peerAddr info =
     (case ValidatePeerAddress (pr_check env) False peerAddr of
        Some e \<Rightarrow> refused env info [] (Unsafe e)
      | None \<Rightarrow>
          (case SafeDialContext (pr_dial env) False peerAddr of
             Inl e \<Rightarrow> refused env info [] (Unsafe e)
           | Inr conn \<Rightarrow>
               let hs = handshake (mi_InfoHash info) peerID in
               if pr_refused env then refused env info [] DialFailed
               else if pr_sendFails env 0 then refused env info [] SendFailed
               else if length (pr_stream env) < 68 then refused env info [hs] ConnClosed
               else case check_handshake (mi_InfoHash info) (take 68 (pr_stream env)) of
                   Some e \<Rightarrow> refused env info [hs] e
                 | None \<Rightarrow>
                     (case ext_message 0 extension_handshake of
                        None \<Rightarrow> refused env info [hs] (BadBencode UnsupportedType)
                      | Some ext \<Rightarrow>
                          if pr_sendFails env 1 then refused env info [hs] SendFailed
                          else if pr_sendFails env 2 then refused env info [hs, ext] SendFailed
                          else peer_loop env (open_conn env info [hs, ext, interested]))))"

section \<open>Web seeds and trackers\<close>

text \<open>The answer to a request: status, announced length and what reading the body yields, or \<^const>\<open>None\<close> when no
  answer came. A body that goes on for ever runs into the timeout of the client. \<open>sd_writeFails\<close> is the number of
  the write into the destination that fails.\<close>

record SeedEnv =
  sd_net :: NetEnv
  sd_answer :: "(int \<times> int \<times> src_turn list) option"
  sd_writeFails :: "nat option"

definition seed_url :: "(string \<Rightarrow> string) \<Rightarrow> string \<Rightarrow> MagnetInfo \<Rightarrow> string" where
  "seed_url escape wsURL info =
     (if HasSuffix wsURL ''/'' \<and> mi_DisplayName info \<noteq> [] then wsURL @ escape (mi_DisplayName info) else wsURL)"

definition downloadFromWebSeed ::
  "SeedEnv \<Rightarrow> (string \<Rightarrow> string) \<Rightarrow> string \<Rightarrow> MagnetInfo \<Rightarrow> job_act list \<times> torrent_error option" where
  "downloadFromWebSeed env escape wsURL info =
     (case ValidateSafeURL (sd_net env) False (seed_url escape wsURL info) of
        Some e \<Rightarrow> ([], Some (Unsafe e))
      | None \<Rightarrow>
          (case sd_answer env of
             None \<Rightarrow> ([], Some RequestFailed)
           | Some (status, contentLength, turns) \<Rightarrow>
               if status < 200 \<or> status \<ge> 300 then ([], Some (BadStatus status))
               else
                 let n = (if contentLength \<le> 0 \<and> mi_ExactLength info > 0 then mi_ExactLength info else contentLength) in
                 (case streamWithProgress n 0 turns of
                    (acts, r) \<Rightarrow>
                      (case (case sd_writeFails env of None \<Rightarrow> None | Some k \<Rightarrow> cut_write k acts) of
                         Some acts' \<Rightarrow> (acts', Some WriteRefused)
                       | None \<Rightarrow> (acts, if r = Some True then None else Some SourceFailed)))))"

record TrackerEnv =
  tr_net :: NetEnv
  tr_parse :: bool
  tr_answer :: "(string \<times> string) list \<Rightarrow> (int \<times> bytes option) option" \<comment> \<open>status and body, by the query parameters set\<close>

definition announce_query :: "MagnetInfo \<Rightarrow> bytes \<Rightarrow> (string \<times> string) list" where
  "announce_query info peerID =
     [(''info_hash'', string_of_bytes (mi_InfoHash info)), (''peer_id'', string_of_bytes peerID), (''port'', ''6881''),
      (''uploaded'', ''0''), (''downloaded'', ''0''), (''left'', Itoa (mi_ExactLength info)), (''compact'', ''1''), (''event'', ''started'')]"

fun compact_peers :: "bytes \<Rightarrow> string list" where
  "compact_peers (a # b # c # d # hi # lo # rest) =
     (Join (map (\<lambda>n. Itoa (uint n)) [a, b, c, d]) ''.'' @ '':'' @ Itoa (256 * uint hi + uint lo)) # compact_peers rest"
| "compact_peers _ = []"

fun listed_peers :: "bval list \<Rightarrow> string list" where
  "listed_peers [] = []"
| "listed_peers (BDict d # ps) =
     (let ip = (case map_of d ''ip'' of Some (BStr s) \<Rightarrow> s | _ \<Rightarrow> []);
          port = (case dict_int d ''port'' of Some n \<Rightarrow> n | None \<Rightarrow> 0)
      in if ip \<noteq> [] \<and> port > 0 then (ip @ '':'' @ Itoa port) # listed_peers ps else listed_peers ps)"
| "listed_peers (_ # ps) = listed_peers ps"

definition announced_peers :: "(string \<times> bval) list \<Rightarrow> string list" where
  "announced_peers d =
     (case map_of d ''peers'' of
        Some (BStr s) \<Rightarrow> compact_peers (bytes_of_string s)
      | Some (BList ps) \<Rightarrow> listed_peers ps
      | _ \<Rightarrow> [])"

definition announceHTTPTracker :: "TrackerEnv \<Rightarrow> bytes \<Rightarrow> string \<Rightarrow> MagnetInfo \<Rightarrow> torrent_error + string list" where
  "announceHTTPTracker env peerID trackerURL info =
     (case ValidateSafeURL (tr_net env) False trackerURL of
        Some e \<Rightarrow> Inl (Unsafe e)
      | None \<Rightarrow>
          if \<not> tr_parse env then Inl BadURL
          else case tr_answer env (announce_query info peerID) of
              None \<Rightarrow> Inl RequestFailed
            | Some (status, body) \<Rightarrow>
                if status \<noteq> 200 then Inl (BadStatus status)
                else (case body of
                    None \<Rightarrow> Inl RequestFailed
                  | Some b \<Rightarrow>
                      (case UnmarshalBencode (string_of_bytes (take (1024 * 1024) b)) of
                         Inl e \<Rightarrow> Inl (BadBencode e)
                       | Inr (BDict d) \<Rightarrow>
                           (case map_of d ''failure reason'' of
                              Some (BStr why) \<Rightarrow> if why \<noteq> [] then Inl (TrackerFailure why) else Inr (announced_peers d)
                            | _ \<Rightarrow> Inr (announced_peers d))
                       | Inr _ \<Rightarrow> Inl NotADictionary)))"

section \<open>The download\<close>

datatype source = Seed nat | Tracker nat | Peer nat

record TorrentEnv =
  te_done :: "source \<Rightarrow> bool" \<comment> \<open>the context is found cancelled before the source is tried\<close>
  te_seed :: "nat \<Rightarrow> SeedEnv"
  te_tracker :: "nat \<Rightarrow> TrackerEnv"
  te_peer :: "nat \<Rightarrow> PeerEnv"
  te_escape :: "string \<Rightarrow> string"
  te_peerID :: bytes

text \<open>How a group of sources ended; a panic takes the process with it.\<close>

datatype torrent_outcome = Downloaded | Stopped torrent_error | Exhausted | Panicked

fun try_seeds :: "TorrentEnv \<Rightarrow> MagnetInfo \<Rightarrow> nat \<Rightarrow> string list \<Rightarrow> job_act list \<times> torrent_outcome" where
  "try_seeds env info i [] = ([], Exhausted)"
| "try_seeds env info i (u # us) =
     (if te_done env (Seed i) then ([], Stopped CtxDone)
      else case downloadFromWebSeed (te_seed env i) (te_escape env) u info of
          (acts, None) \<Rightarrow> (acts, Downloaded)
        | (acts, Some e) \<Rightarrow> (case try_seeds env info (Suc i) us of (acts', r) \<Rightarrow> (acts @ acts', r)))"

fun ask_trackers :: "TorrentEnv \<Rightarrow> MagnetInfo \<Rightarrow> nat \<Rightarrow> string list \<Rightarrow> torrent_error + string list" where
  "ask_trackers env info i [] = Inr []"
| "ask_trackers env info i (u # us) =
     (if te_done env (Tracker i) then Inl CtxDone
      else
        let found = (if HasPrefix u ''http://'' \<or> HasPrefix u ''https://''
                     then (case announceHTTPTracker (te_tracker env i) (te_peerID env) u info of Inr ps \<Rightarrow> ps | Inl e \<Rightarrow> [])
                     else [])
        in map_sum id ((@) found) (ask_trackers env info (Suc i) us))"

fun try_peers :: "TorrentEnv \<Rightarrow> MagnetInfo \<Rightarrow> nat \<Rightarrow> string list \<Rightarrow> job_act list \<times> torrent_outcome" where
  "try_peers env info i [] = ([], Exhausted)"
| "try_peers env info i (a # as) =
     (if te_done env (Peer i) then ([], Stopped CtxDone)
      else case downloadFromPeer (te_peer env i) (te_peerID env) a info of
          (c, PeerDone) \<Rightarrow> (pc_acts c, Downloaded)
        | (c, PeerPanic) \<Rightarrow> (pc_acts c, Panicked)
        | (c, PeerFailed e) \<Rightarrow> (case try_peers env (pc_info c) (Suc i) as of (acts, r) \<Rightarrow> (pc_acts c @ acts, r)))"

definition no_source :: "MagnetInfo \<Rightarrow> string list \<Rightarrow> torrent_error" where
  "no_source info peers =
     (if peers = [] \<and> list_ex (\<lambda>tr. HasPrefix tr ''udp://'') (mi_Trackers info) \<and> mi_WebSeeds info = [] then OnlyUDP
      else if peers = [] \<and> mi_WebSeeds info = [] \<and> mi_Trackers info = [] then NoSources
      else AllPeersFailed)"

definition DownloadTorrent :: "TorrentEnv \<Rightarrow> MagnetInfo \<Rightarrow> job_act list \<times> torrent_outcome" where
  "DownloadTorrent env info =
     (case try_seeds env info 0 (mi_WebSeeds info @ mi_ExactSources info) of
        (acts, Exhausted) \<Rightarrow>
          (case ask_trackers env info 0 (mi_Trackers info) of
             Inl e \<Rightarrow> (acts, Stopped e)
           | Inr peers \<Rightarrow>
               (case try_peers env info 0 peers of
                  (acts', Exhausted) \<Rightarrow> (acts @ acts', Stopped (no_source info peers))
                | (acts', r) \<Rightarrow> (acts @ acts', r)))
      | (acts, r) \<Rightarrow> (acts, r))"

text \<open>What \<^verbatim>\<open>executeDownload\<close> does with a magnet task: the actions of the transfer and the result it acts on.\<close>

definition torrent_transfer :: "TorrentEnv \<Rightarrow> MagnetInfo \<Rightarrow> job_act list option" where
  "torrent_transfer env info =
     (case DownloadTorrent env info of
        (acts, Downloaded) \<Rightarrow> Some (acts @ [Returned (MagnetResult (mi_DisplayName info))])
      | (acts, Panicked) \<Rightarrow> None
      | (acts, _) \<Rightarrow> Some (acts @ [Returned TransferError]))"

text \<open>The branch of \<^verbatim>\<open>executeDownload\<close> for magnet tasks: a link that cannot be parsed fails the task, whether it was cancelled
  or not.\<close>

definition magnet_transfer ::
  "TorrentEnv \<Rightarrow> (string \<Rightarrow> string) \<Rightarrow> (string \<Rightarrow> (string \<Rightarrow> string list) option) \<Rightarrow> string \<Rightarrow> job_act list option" where
  "magnet_transfer env uni query url =
     (case ParseMagnetURI uni query url of
        Inl _ \<Rightarrow> Some [BadMagnet]
      | Inr info \<Rightarrow> torrent_transfer env info)"

lemma bad_magnet_fails:
  assumes "ParseMagnetURI uni query url = Inl err" "dm_jobs dm i = Some j" "jb_phase j = Transferring"
  shows "magnet_transfer env uni query url = Some [BadMagnet] \<and>
    tk_Status (dm_objs (job_step jenv i BadMagnet dm) i) = StatusFailed \<and> dm_jobs (job_step jenv i BadMagnet dm) i = None"
  using assms by (simp add: magnet_transfer_def job_step_def transfer_act_def fail_job_def end_job_sel failTask_def)

section \<open>What the actions write\<close>

text \<open>Writes, each with a report of the bytes so far.\<close>

fun tracks :: "int \<Rightarrow> job_act list \<Rightarrow> bool" where
  "tracks d [] \<longleftrightarrow> True"
| "tracks d (Wrote p # Report n t sp # acts) \<longleftrightarrow>
     p \<noteq> [] \<and> length p \<le> 10 * 1024 * 1024 \<and> n = d + int (length p) \<and> tracks n acts"
| "tracks d _ \<longleftrightarrow> False"

lemma tracks_append: "tracks d as \<Longrightarrow> tracks d (as @ bs) \<longleftrightarrow> tracks (d + int (length (wrote as))) bs"
  by (induction d as rule: tracks.induct) (auto simp: add.assoc)

lemma tracks_run:
  assumes "tracks (int (length x)) acts" "fetching i key used custom x dm0 dm"
    and "within_quota used (int (length (x @ wrote acts))) dm0" "acts \<noteq> []"
  shows "fetching i key used custom (x @ wrote acts) dm0 (fold (job_step env i) acts dm) \<and>
    tk_DownloadedBytes (dm_objs (fold (job_step env i) acts dm) i) = int (length (x @ wrote acts))"
  using assms
proof (induction "int (length x)" acts arbitrary: x dm rule: tracks.induct)
  case (2 p n t sp acts)
  let ?x = "x @ p" and ?dm = "job_step env i (Report n t sp) (job_step env i (Wrote p) dm)"
  have p: "p \<noteq> []" "length p \<le> 10 * 1024 * 1024" "n = int (length ?x)" "tracks n acts" using "2.prems"(1) by auto
  have w: "fetching i key used custom ?x dm0 (job_step env i (Wrote p) dm)" by (rule wrote_run [OF "2.prems"(2) p(1,2)])
  have b: "0 \<le> n" "n \<le> int (length (x @ wrote (Wrote p # Report n t sp # acts)))" using p(3) by auto
  note rep = report_run [OF w "2.prems"(3) b, of env t sp]
  show ?case
  proof (cases "acts = []")
    case True
    then show ?thesis using rep p(3) by simp
  next
    case False
    have q: "within_quota used (int (length (?x @ wrote acts))) dm0" using "2.prems"(3) by simp
    show ?thesis using "2.hyps" [OF p(3) _ rep(1) q False] p(3,4) by simp
  qed
qed auto

section \<open>Pieces\<close>

definition peer_piece :: "32 word \<Rightarrow> 32 word \<Rightarrow> bytes \<Rightarrow> bytes" where
  "peer_piece index begin_at block = put_be32 (of_nat (9 + length block)) @ [7] @ put_be32 index @ put_be32 begin_at @ block"

definition piece_ok :: "bytes \<Rightarrow> bool" where
  "piece_ok block \<longleftrightarrow> block \<noteq> [] \<and> length block + 9 \<le> 10 * 1024 * 1024"

lemma read_message_put:
  assumes "0 < length m" "length m \<le> 10 * 1024 * 1024"
  shows "read_message (put_be32 (of_nat (length m)) @ m @ rest) = Message m rest"
proof -
  have "unat (of_nat (length m) :: 32 word) = length m" using assms(2) by (simp add: unat_of_nat)
  then show ?thesis using assms by (simp add: read_message_def Let_def)
qed

lemma read_piece:
  assumes "piece_ok block"
  shows "read_message (peer_piece i b block @ rest) = Message (7 # put_be32 i @ put_be32 b @ block) rest"
  using read_message_put [of "7 # put_be32 i @ put_be32 b @ block" rest] assms
  by (simp add: peer_piece_def piece_ok_def add.commute)

text \<open>The counters of a connection agree with what it wrote.\<close>

definition counted :: "PeerConn \<Rightarrow> bool" where
  "counted c \<longleftrightarrow> tracks 0 (pc_acts c) \<and> pc_downloaded c = int (length (wrote (pc_acts c)))"

definition quiet :: "PeerEnv \<Rightarrow> bool" where
  "quiet env \<longleftrightarrow> (\<forall>n. \<not> pr_done env n \<and> \<not> pr_writeFails env n)"

definition add_block :: "PeerEnv \<Rightarrow> bytes \<Rightarrow> bytes \<Rightarrow> PeerConn \<Rightarrow> PeerConn" where
  "add_block env block rest c =
     (let d = pc_downloaded c + int (length block) in
      c\<lparr>pc_in := rest, pc_keepAlives := 0, pc_downloaded := d,
        pc_acts := pc_acts c @ [Wrote block, Report d (pc_total c) (pr_speed env (pc_turn c))]\<rparr>)"

lemma add_block_counted: "counted c \<Longrightarrow> piece_ok block \<Longrightarrow> counted (add_block env block rest c)"
  by (auto simp: counted_def add_block_def piece_ok_def Let_def tracks_append)

lemma add_block_sel [simp]:
  "pc_in (add_block env block rest c) = rest" "pc_total (add_block env block rest c) = pc_total c"
  "pc_pieceLength (add_block env block rest c) = pc_pieceLength c" "pc_sent (add_block env block rest c) = pc_sent c"
  "pc_downloaded (add_block env block rest c) = pc_downloaded c + int (length block)"
  "wrote (pc_acts (add_block env block rest c)) = wrote (pc_acts c) @ block"
  by (simp_all add: add_block_def Let_def)

lemma piece_turn:
  assumes "pc_in c = peer_piece i b block @ rest" "piece_ok block" "quiet env" "pc_pieceLength c \<noteq> 0" "0 < pc_total c"
    and "c' = add_block env block rest c"
  shows "peer_turn env c =
    (if pc_total c \<le> pc_downloaded c' then (c', Some (finish c'))
     else (send (next_request (pc_pieceLength c) (pc_total c) (pc_downloaded c')) c'\<lparr>pc_turn := Suc (pc_turn c)\<rparr>, None))"
proof -
  let ?c = "c\<lparr>pc_in := rest, pc_keepAlives := 0\<rparr>" and ?m = "7 # put_be32 i @ put_be32 b @ block"
  have l: "\<not> length ?m \<le> 9" "drop 9 ?m = block" using assms(2) by (auto simp: piece_ok_def)
  have h: "handle_message env ?m ?c =
      (if pc_downloaded c' < pc_total c
       then (send (next_request (pc_pieceLength c) (pc_total c) (pc_downloaded c')) c', None) else (c', None))"
    using assms(3,4,5) l by (simp add: handle_message_def handle_piece_def Let_def quiet_def assms(6) add_block_def)
  show ?thesis
    unfolding peer_turn_def assms(1) read_piece [OF assms(2)]
    using assms(3,5) by (auto simp: h quiet_def send_def assms(6) add_block_def Let_def)
qed

section \<open>A run of pieces\<close>

definition pieces :: "(32 word \<times> 32 word \<times> bytes) list \<Rightarrow> bytes" where
  "pieces ps = concat (map (\<lambda>(i, b, block). peer_piece i b block) ps)"

definition payload :: "(32 word \<times> 32 word \<times> bytes) list \<Rightarrow> bytes" where
  "payload ps = concat (map (\<lambda>(i, b, block). block) ps)"

definition pieces_ok :: "(32 word \<times> 32 word \<times> bytes) list \<Rightarrow> bool" where
  "pieces_ok ps \<longleftrightarrow> list_all (\<lambda>(i, b, block). piece_ok block) ps"

text \<open>The requests sent after each of the pieces, \<open>d\<close> bytes having come before them.\<close>

fun asks :: "32 word \<Rightarrow> int \<Rightarrow> int \<Rightarrow> (32 word \<times> 32 word \<times> bytes) list \<Rightarrow> bytes list" where
  "asks pl n d [] = []"
| "asks pl n d ((i, b, block) # ps) = next_request pl n (d + int (length block)) # asks pl n (d + int (length block)) ps"

lemma pieces_simps [simp]:
  "pieces [] = []" "pieces ((i, b, block) # ps) = peer_piece i b block @ pieces ps" "pieces (ps @ qs) = pieces ps @ pieces qs"
  "payload [] = []" "payload ((i, b, block) # ps) = block @ payload ps" "payload (ps @ qs) = payload ps @ payload qs"
  "pieces_ok []" "pieces_ok ((i, b, block) # ps) \<longleftrightarrow> piece_ok block \<and> pieces_ok ps" "pieces_ok (ps @ qs) \<longleftrightarrow> pieces_ok ps \<and> pieces_ok qs"
  by (simp_all add: pieces_def payload_def pieces_ok_def)

text \<open>A connection that has come this far: it continues as \<open>c'\<close>, with the payload written.\<close>

definition conn_received :: "PeerConn \<Rightarrow> bytes \<Rightarrow> bytes list \<Rightarrow> bytes \<Rightarrow> PeerConn \<Rightarrow> bool" where
  "conn_received c x reqs rest c' \<longleftrightarrow>
     counted c' \<and> wrote (pc_acts c') = wrote (pc_acts c) @ x \<and> pc_sent c' = pc_sent c @ reqs \<and> pc_in c' = rest \<and>
     pc_total c' = pc_total c \<and> pc_pieceLength c' = pc_pieceLength c"

lemma pieces_going:
  assumes "pc_in c = pieces ps @ rest" "pieces_ok ps" "quiet env" "pc_pieceLength c \<noteq> 0" "counted c"
    and "pc_downloaded c + int (length (payload ps)) < pc_total c"
  shows "\<exists>c'. peer_loop env c = peer_loop env c' \<and>
    conn_received c (payload ps) (asks (pc_pieceLength c) (pc_total c) (pc_downloaded c) ps) rest c'"
  using assms
proof (induction ps arbitrary: c)
  case (Cons p ps)
  obtain i b block where p: "p = (i, b, block)" by (cases p)
  let ?c = "add_block env block (pieces ps @ rest) c"
  let ?q = "next_request (pc_pieceLength c) (pc_total c) (pc_downloaded ?c)"
  let ?d = "send ?q ?c\<lparr>pc_turn := Suc (pc_turn c)\<rparr>"
  have d0: "0 \<le> pc_downloaded c" using Cons.prems(5) by (simp add: counted_def)
  have in_c: "pc_in c = peer_piece i b block @ (pieces ps @ rest)" "piece_ok block" "pieces_ok ps"
    using Cons.prems(1,2) by (simp_all add: p)
  have "0 < pc_total c" "\<not> pc_total c \<le> pc_downloaded ?c" using d0 Cons.prems(6) by (simp_all add: p)
  then have "peer_turn env c = (?d, None)"
    using piece_turn [OF in_c(1,2) Cons.prems(3,4) _ refl] by simp
  then have eq: "peer_loop env c = peer_loop env ?d" by (simp add: peer_loop.simps [of env c])
  have "counted ?c" by (rule add_block_counted [OF Cons.prems(5) in_c(2)])
  then have "counted ?d" by (simp add: counted_def send_def)
  moreover have "pc_in ?d = pieces ps @ rest" "pc_pieceLength ?d = pc_pieceLength c" "pc_total ?d = pc_total c"
    "pc_downloaded ?d = pc_downloaded c + int (length block)" "wrote (pc_acts ?d) = wrote (pc_acts c) @ block"
    "pc_sent ?d = pc_sent c @ [?q]"
    by (simp_all add: send_def)
  ultimately show ?case
    using Cons.IH [of ?d] Cons.prems(3,4,6) in_c(3) unfolding eq conn_received_def by (simp add: p add.assoc)
qed (auto simp: conn_received_def)

lemma pieces_done:
  assumes "pc_in c = pieces (ps @ [(i, b, block)]) @ rest" "pieces_ok (ps @ [(i, b, block)])" "quiet env" "pc_pieceLength c \<noteq> 0" "counted c"
    and "pc_downloaded c + int (length (payload ps)) < pc_total c"
    and "pc_total c \<le> pc_downloaded c + int (length (payload (ps @ [(i, b, block)])))"
  shows "\<exists>c'. peer_loop env c = (c', PeerDone) \<and>
    conn_received c (payload (ps @ [(i, b, block)])) (asks (pc_pieceLength c) (pc_total c) (pc_downloaded c) ps) rest c'"
proof -
  obtain c1 where 1: "peer_loop env c = peer_loop env c1"
    "conn_received c (payload ps) (asks (pc_pieceLength c) (pc_total c) (pc_downloaded c) ps) (peer_piece i b block @ rest) c1"
    using pieces_going [of c ps "peer_piece i b block @ rest" env] assms by auto
  let ?c = "add_block env block rest c1"
  have d: "pc_downloaded c1 = pc_downloaded c + int (length (payload ps))" "0 \<le> pc_downloaded c"
    using 1(2) assms(5) by (auto simp: conn_received_def counted_def)
  have b: "piece_ok block" using assms(2) by simp
  have "peer_turn env c1 = (?c, Some (finish ?c))"
    using piece_turn [of c1 i b block rest env, OF _ b assms(3) _ _ refl] 1(2) assms(4,6,7) d by (simp add: conn_received_def)
  moreover have "finish ?c = PeerDone" using d assms(6,7) by (simp add: finish_def)
  ultimately have "peer_loop env c = (?c, PeerDone)" using 1(1) by (simp add: peer_loop.simps [of env c1])
  then show ?thesis using 1(2) add_block_counted [OF _ b, of c1 env rest] by (auto simp: conn_received_def)
qed

text \<open>A connection that is lost after some payload: the transfer counts as successful.\<close>

lemma pieces_cut:
  assumes "pc_in c = pieces ps @ rest" "pieces_ok ps" "ps \<noteq> []" "quiet env" "pc_pieceLength c \<noteq> 0" "counted c"
    and "pc_downloaded c + int (length (payload ps)) < pc_total c" "read_message rest = Closed"
  shows "\<exists>c'. peer_loop env c = (c', PeerDone) \<and>
    conn_received c (payload ps) (asks (pc_pieceLength c) (pc_total c) (pc_downloaded c) ps) rest c'"
proof -
  obtain c1 where 1: "peer_loop env c = peer_loop env c1"
    "conn_received c (payload ps) (asks (pc_pieceLength c) (pc_total c) (pc_downloaded c) ps) rest c1"
    using pieces_going [OF assms(1,2,4-7)] by blast
  have "payload ps \<noteq> []" using assms(2,3) by (cases ps) (auto simp: piece_ok_def)
  then have pos: "0 < int (length (payload ps))" unfolding of_nat_0_less_iff length_greater_0_conv .
  have "pc_downloaded c1 = pc_downloaded c + int (length (payload ps))" "0 \<le> pc_downloaded c"
    using 1(2) assms(6) by (auto simp: conn_received_def counted_def)
  with pos have d: "0 < pc_downloaded c1" by linarith
  have "read_message (pc_in c1) = Closed" using 1(2) assms(8) by (simp add: conn_received_def)
  then have "peer_turn env c1 = (c1, Some PeerDone)"
    using d assms(4) unfolding peer_turn_def quiet_def finish_def by simp
  then have "peer_loop env c1 = (c1, PeerDone)" by (subst peer_loop.simps) simp
  with 1 show ?thesis by (intro exI [of _ c1]) simp
qed

section \<open>Up to the first piece\<close>

definition unchoke :: bytes where "unchoke = [0, 0, 0, 1, 1]"

definition admits :: "PeerEnv \<Rightarrow> string \<Rightarrow> bool" where
  "admits env addr \<longleftrightarrow>
     ValidatePeerAddress (pr_check env) False addr = None \<and> (\<exists>conn. SafeDialContext (pr_dial env) False addr = Inr conn) \<and>
     \<not> pr_refused env \<and> (\<forall>n. \<not> pr_sendFails env n) \<and> quiet env"

definition greeting :: "MagnetInfo \<Rightarrow> bytes \<Rightarrow> bool" where
  "greeting info hs \<longleftrightarrow> length hs = 68 \<and> check_handshake (mi_InfoHash info) hs = None"

definition first_messages :: "MagnetInfo \<Rightarrow> bytes \<Rightarrow> bytes list" where
  "first_messages info peerID = [handshake (mi_InfoHash info) peerID, the (ext_message 0 extension_handshake), interested]"

lemma first_pieceLength_pos: "first_pieceLength info \<noteq> 0"
proof (cases "mi_PieceLength info > 0 \<and> mi_PieceLength info \<le> 16 * 1024 * 1024")
  case True
  then have "uint (of_int (mi_PieceLength info) :: 32 word) = mi_PieceLength info" by (simp add: uint_word_of_int take_bit_eq_mod)
  with True show ?thesis by (auto simp: first_pieceLength_def)
qed (auto simp: first_pieceLength_def)

lemma ext_message_ok: "ext_message 0 extension_handshake \<noteq> None"
  by (simp add: ext_message_def extension_handshake_def MarshalBencode_def)

lemma unchoke_turn:
  assumes "pc_in c = unchoke @ rest" "quiet env" "pc_downloaded c = 0" "0 < pc_total c"
  shows "peer_turn env c =
    (send (next_request (pc_pieceLength c) (pc_total c) 0) c\<lparr>pc_in := rest, pc_keepAlives := 0, pc_turn := Suc (pc_turn c)\<rparr>, None)"
proof -
  have "read_message (pc_in c) = Message [1] rest"
    using read_message_put [of "[1]" rest] by (simp add: assms(1) unchoke_def put_be32_def)
  then show ?thesis
    using assms(2-4) by (simp add: peer_turn_def quiet_def handle_message_def handle_unchoke_def send_def next_request_def)
qed

lemma peer_opens:
  assumes "admits env addr" "pr_stream env = hs @ unchoke @ rest" "greeting info hs" "0 < mi_ExactLength info"
  shows "\<exists>c. downloadFromPeer env peerID addr info = peer_loop env c \<and> counted c \<and> wrote (pc_acts c) = [] \<and> pc_in c = rest \<and>
    pc_total c = mi_ExactLength info \<and> pc_pieceLength c = first_pieceLength info \<and> pc_downloaded c = 0 \<and>
    pc_sent c = first_messages info peerID @ [next_request (first_pieceLength info) (mi_ExactLength info) 0]"
proof -
  let ?c = "open_conn env info (first_messages info peerID)"
  obtain ext where ext: "ext_message 0 extension_handshake = Some ext" using ext_message_ok by auto
  obtain conn where "SafeDialContext (pr_dial env) False addr = Inr conn" using assms(1) by (auto simp: admits_def)
  then have d: "downloadFromPeer env peerID addr info = peer_loop env ?c"
    using assms(1-3) by (simp add: downloadFromPeer_def admits_def greeting_def ext first_messages_def Let_def)
  have "pc_in ?c = unchoke @ rest" using assms(2,3) by (simp add: open_conn_def greeting_def)
  moreover have "quiet env" using assms(1) by (simp add: admits_def)
  ultimately have t: "peer_turn env ?c =
      (send (next_request (first_pieceLength info) (mi_ExactLength info) 0)
         ?c\<lparr>pc_in := rest, pc_keepAlives := 0, pc_turn := Suc (pc_turn ?c)\<rparr>, None)"
    using unchoke_turn [of ?c rest env] assms(4) by (simp add: open_conn_def)
  let ?c1 = "send (next_request (first_pieceLength info) (mi_ExactLength info) 0)
     ?c\<lparr>pc_in := rest, pc_keepAlives := 0, pc_turn := Suc (pc_turn ?c)\<rparr>"
  have "peer_loop env ?c = peer_loop env ?c1" unfolding peer_loop.simps [of env ?c] t by simp
  then show ?thesis unfolding d by (intro exI [of _ ?c1]) (simp add: send_def open_conn_def counted_def)
qed

section \<open>A peer that answers what it is asked\<close>

definition tile :: "bytes \<Rightarrow> nat \<Rightarrow> bytes" where
  "tile f k = take 16384 (drop (16384 * k) f)"

definition tile_count :: "bytes \<Rightarrow> nat" where
  "tile_count f = (length f + 16383) div 16384"

definition tile_request :: "32 word \<Rightarrow> bytes \<Rightarrow> nat \<Rightarrow> bytes" where
  "tile_request pl f k = request (of_int (16384 * int k div uint pl)) (of_int (16384 * int k mod uint pl)) (of_nat (length (tile f k)))"

definition tile_answer :: "32 word \<Rightarrow> bytes \<Rightarrow> nat \<Rightarrow> 32 word \<times> 32 word \<times> bytes" where
  "tile_answer pl f k = (of_int (16384 * int k div uint pl), of_int (16384 * int k mod uint pl), tile f k)"

lemma payload_tiles: "payload (map (tile_answer pl f) [0..<n]) = take (16384 * n) f"
proof (induction n)
  case (Suc n)
  have "take (16384 * n + 16384) f = take (16384 * n) f @ tile f n" unfolding tile_def by (rule take_add)
  with Suc show ?case by (simp add: tile_answer_def add.commute)
qed simp

lemma tile_count_bounds: "f \<noteq> [] \<Longrightarrow> 0 < tile_count f \<and> 16384 * (tile_count f - 1) < length f \<and> length f \<le> 16384 * tile_count f"
  by (cases f) (auto simp: tile_count_def)

lemma tiles_ok: "16384 * n < length f + 16384 \<Longrightarrow> pieces_ok (map (tile_answer pl f) [0..<n])"
  by (induction n) (auto simp: tile_answer_def tile_def piece_ok_def)

lemma asks_append: "asks pl n d (ps @ qs) = asks pl n d ps @ asks pl n (d + int (length (payload ps))) qs"
  by (induction pl n d ps rule: asks.induct) (auto simp: add.assoc)

lemma asks_tiles:
  "16384 * n \<le> length f \<Longrightarrow>
     asks pl t 0 (map (tile_answer pl f) [0..<n]) = map (\<lambda>k. next_request pl t (16384 * int (Suc k))) [0..<n]"
proof (induction n)
  case (Suc n)
  have "int (length (take (16384 * n) f)) + int (length (tile f n)) = 16384 * int (Suc n)" using Suc.prems by (simp add: tile_def)
  with Suc show ?case by (simp add: asks_append payload_tiles) (simp add: tile_answer_def add.commute)
qed simp

lemma next_request_tile: "16384 * k < length f \<Longrightarrow> next_request pl (int (length f)) (16384 * int k) = tile_request pl f k"
proof (cases "length f - 16384 * k < 16384")
  case True
  moreover assume "16384 * k < length f"
  moreover from calculation have "0 < length f" "int (length f) - 16384 * int k < 16384" by linarith+
  ultimately show ?thesis by (simp add: next_request_def tile_request_def tile_def Let_def of_nat_diff)
next
  case False
  then have "\<not> int (length f) - 16384 * int k < 16384" by linarith
  with False show ?thesis by (simp add: next_request_def tile_request_def tile_def Let_def min_def)
qed

lemma requests_tiles:
  assumes "0 < n" "16384 * (n - 1) < length f"
  shows "next_request pl (int (length f)) 0 # asks pl (int (length f)) 0 (map (tile_answer pl f) [0..<n - 1]) =
    map (tile_request pl f) [0..<n]"
proof -
  have "16384 * (n - 1) \<le> length f" using assms(2) by simp
  then have "asks pl (int (length f)) 0 (map (tile_answer pl f) [0..<n - 1]) =
      map (\<lambda>k. next_request pl (int (length f)) (16384 * int (Suc k))) [0..<n - 1]" by (rule asks_tiles)
  also have "\<dots> = map (\<lambda>k. next_request pl (int (length f)) (16384 * int k)) [Suc 0..<n]"
  proof -
    have "[Suc 0..<n] = map Suc [0..<n - 1]" using assms(1) by (simp add: map_Suc_upt)
    then show ?thesis by (simp only: list.map_comp comp_def)
  qed
  finally have "next_request pl (int (length f)) 0 # asks pl (int (length f)) 0 (map (tile_answer pl f) [0..<n - 1]) =
      map (\<lambda>k. next_request pl (int (length f)) (16384 * int k)) [0..<n]"
    using assms(1) by (simp add: upt_rec [of 0 n])
  also have "\<dots> = map (tile_request pl f) [0..<n]"
    using assms(2) by (intro map_cong refl next_request_tile) auto
  finally show ?thesis .
qed

lemma peer_delivers:
  assumes "admits env addr" "greeting info hs" "f \<noteq> []" "mi_ExactLength info = int (length f)" "pl = first_pieceLength info"
    and "pr_stream env = hs @ unchoke @ pieces (map (tile_answer pl f) [0..<tile_count f]) @ rest"
  shows "\<exists>c. downloadFromPeer env peerID addr info = (c, PeerDone) \<and> wrote (pc_acts c) = f \<and> tracks 0 (pc_acts c) \<and>
    pc_sent c = first_messages info peerID @ map (tile_request pl f) [0..<tile_count f]"
proof -
  let ?n = "tile_count f"
  let ?ps = "map (tile_answer pl f) [0..<?n - 1]"
  have n: "0 < ?n" "16384 * (?n - 1) < length f" "length f \<le> 16384 * ?n" using tile_count_bounds [OF assms(3)] by auto
  have T: "0 < mi_ExactLength info" using assms(3,4) by simp
  obtain c where c: "downloadFromPeer env peerID addr info = peer_loop env c" "counted c" "wrote (pc_acts c) = []"
    "pc_in c = pieces (map (tile_answer pl f) [0..<?n]) @ rest" "pc_total c = int (length f)" "pc_pieceLength c = pl" "pc_downloaded c = 0"
    "pc_sent c = first_messages info peerID @ [next_request pl (int (length f)) 0]"
    using peer_opens [OF assms(1,6,2) T, of peerID] assms(4,5) by auto
  obtain i b block where last: "tile_answer pl f (?n - 1) = (i, b, block)" by (cases "tile_answer pl f (?n - 1)")
  have split: "map (tile_answer pl f) [0..<?n] = ?ps @ [(i, b, block)]"
    using n(1) last by (cases ?n) auto
  have ok: "pieces_ok (?ps @ [(i, b, block)])" unfolding split [symmetric] using n by (intro tiles_ok) auto
  have pay: "payload (?ps @ [(i, b, block)]) = f" unfolding split [symmetric] payload_tiles using n(3) by simp
  have lt: "pc_downloaded c + int (length (payload ?ps)) < pc_total c" unfolding payload_tiles using n(2) c(5,7) by simp
  have "quiet env" "pc_pieceLength c \<noteq> 0" using assms(1,5) first_pieceLength_pos c(6) by (simp_all add: admits_def)
  from pieces_done [OF c(4) [unfolded split] ok this c(2) lt]
  obtain c' where c': "peer_loop env c = (c', PeerDone)"
    "conn_received c f (asks pl (int (length f)) 0 ?ps) rest c'"
    unfolding pay c(5-7) by auto
  show ?thesis
    using c(1) c' c(3,8) requests_tiles [OF n(1,2), of pl] by (intro exI [of _ c']) (simp add: conn_received_def counted_def)
qed

text \<open>C9: an honest peer delivers the file. The client asks for the file in blocks of 16 KiB, each once and in order,
  with the piece index and offset of the block; when the peer answers these requests, the transfer ends, it has
  written the file, and every report gave the number of bytes so far.\<close>

theorem honest_peer_delivers:
  assumes "admits env addr" "greeting info hs" "f \<noteq> []" "mi_ExactLength info = int (length f)" "pl = first_pieceLength info"
    and "pr_stream env = hs @ unchoke @ pieces (map (tile_answer pl f) [0..<tile_count f]) @ rest"
  shows "\<exists>c. downloadFromPeer env peerID addr info = (c, PeerDone) \<and> wrote (pc_acts c) = f \<and> tracks 0 (pc_acts c) \<and>
    pc_sent c = first_messages info peerID @ map (tile_request pl f) [0..<tile_count f]"
  by (rule peer_delivers [OF assms])

text \<open>a torrent that is cut off is taken for the whole file. When the connection is lost after at least one block and
  before the last one, the transfer succeeds with the blocks received so far.\<close>

theorem truncated_torrent_accepted:
  assumes "admits env addr" "greeting info hs" "mi_ExactLength info = int (length f)" "pl = first_pieceLength info"
    and "pr_stream env = hs @ unchoke @ pieces (map (tile_answer pl f) [0..<n]) @ rest"
    and "0 < n" "16384 * n < length f" "read_message rest = Closed"
  shows "\<exists>c. downloadFromPeer env peerID addr info = (c, PeerDone) \<and> wrote (pc_acts c) = take (16384 * n) f \<and>
    wrote (pc_acts c) \<noteq> f"
proof -
  let ?ps = "map (tile_answer pl f) [0..<n]"
  have "0 < length f" using assms(7) by linarith
  then have T: "0 < mi_ExactLength info" by (simp add: assms(3))
  obtain c where c: "downloadFromPeer env peerID addr info = peer_loop env c" "counted c" "wrote (pc_acts c) = []"
    "pc_in c = pieces ?ps @ rest" "pc_total c = int (length f)" "pc_pieceLength c = pl" "pc_downloaded c = 0"
    using peer_opens [OF assms(1,5,2) T, of peerID] assms(3,4) by auto
  have lt: "pc_downloaded c + int (length (payload ?ps)) < pc_total c" unfolding payload_tiles using assms(7) c(5,7) by simp
  have "quiet env" "pc_pieceLength c \<noteq> 0" "?ps \<noteq> []" "pieces_ok ?ps"
    using assms(1,4,6,7) first_pieceLength_pos c(6) tiles_ok [of n f pl] by (simp_all add: admits_def)
  from pieces_cut [OF c(4) this(4,3,1,2) c(2) lt assms(8)]
  obtain c' where "peer_loop env c = (c', PeerDone)" "wrote (pc_acts c') = take (16384 * n) f"
    using c(3) by (auto simp: conn_received_def payload_tiles)
  moreover have "take (16384 * n) f \<noteq> f" using assms(7) by (metis length_take less_irrefl min.strict_order_iff min.commute)
  ultimately show ?thesis using c(1) by auto
qed

text \<open>C8: a torrent downloaded from an honest peer is stored. A magnet task without web seeds whose trackers name one
  peer, when that peer answers what it is asked and the disk and the database do not fail, ends as completed; the
  new row has the length of the file and its SHA-256, and its blob decrypts to the file.\<close>

theorem torrent_download_stored:
  assumes "dm_inv dm" "dm_jobs dm i = Some j" "jb_phase j = NotStarted isVault vk" "calm jenv" "je_fails jenv = no_faults"
    and "job_key jenv isVault vk = Some key" "aes_NewCipher key \<noteq> None"
    and "used = GetUserStorageUsed (tk_OwnerID (dm_objs dm i)) (dm_files dm)" "dm_QuotaBytes dm > 0 \<longrightarrow> used < dm_QuotaBytes dm"
    and "within_quota used (int (length f)) dm" "no_twin key f dm"
    and "mi_WebSeeds info = []" "mi_ExactSources info = []" "ask_trackers env info 0 (mi_Trackers info) = Inr [addr]" "\<not> te_done env (Peer 0)"
    and "admits (te_peer env 0) addr" "greeting info hs" "f \<noteq> []" "mi_ExactLength info = int (length f)" "pl = first_pieceLength info"
    and "pr_stream (te_peer env 0) = hs @ unchoke @ pieces (map (tile_answer pl f) [0..<tile_count f]) @ rest"
  shows "\<exists>transfer. torrent_transfer env info = Some transfer \<and>
    (let dm' = executeDownload jenv transfer i dm in
     tk_Status (dm_objs dm' i) = StatusCompleted \<and>
     (\<exists>row. dm_files dm' = dm_files dm @ [row] \<and> f_owner row = tk_OwnerID (dm_objs dm i) \<and> f_size row = int (length f) \<and>
        f_plain row = hash_of f \<and> f_cas row = tk_CasHash (dm_objs dm' i) \<and> stored key f (f_cas row) dm'))"
proof -
  obtain c where c: "downloadFromPeer (te_peer env 0) (te_peerID env) addr info = (c, PeerDone)" "wrote (pc_acts c) = f" "tracks 0 (pc_acts c)"
    using peer_delivers [OF assms(16-21)] by blast
  let ?t = "pc_acts c @ [Returned (MagnetResult (mi_DisplayName info))]"
  have t: "torrent_transfer env info = Some ?t" using assms(12-15) c(1) by (simp add: torrent_transfer_def DownloadTorrent_def)
  have "fetching i key used (jb_custom j) [] dm (job_step jenv i Begin dm)" by (rule begin_run [OF assms(1-9)])
  moreover have "pc_acts c \<noteq> []" using c(2) assms(18) by auto
  ultimately have F: "fetching i key used (jb_custom j) f dm (fold (job_step jenv i) (pc_acts c) (job_step jenv i Begin dm))"
    "tk_DownloadedBytes (dm_objs (fold (job_step jenv i) (pc_acts c) (job_step jenv i Begin dm)) i) = int (length f)"
    using tracks_run [of "[]" "pc_acts c" i key used "jb_custom j" dm] c(2,3) assms(10) by auto
  show ?thesis
    unfolding t Let_def using transfer_stored [OF F(1) _ assms(11,4,5) refl, of "MagnetResult (mi_DisplayName info)"] F(2) by simp
qed

section \<open>Failed sources\<close>

definition answers :: "SeedEnv \<Rightarrow> (string \<Rightarrow> string) \<Rightarrow> string \<Rightarrow> MagnetInfo \<Rightarrow> src_turn list \<Rightarrow> bool" where
  "answers env escape u info turns \<longleftrightarrow>
     ValidateSafeURL (sd_net env) False (seed_url escape u info) = None \<and> sd_writeFails env = None \<and>
     (\<exists>n. sd_answer env = Some (200, n, turns))"

fun delivers :: "src_turn list \<Rightarrow> bool" where
  "delivers [] \<longleftrightarrow> False"
| "delivers (CtxStop # turns) \<longleftrightarrow> False"
| "delivers (SrcRead p e due # turns) \<longleftrightarrow> (case e of None \<Rightarrow> delivers turns | Some x \<Rightarrow> x = ReadEOF)"

lemma stream_delivers: "snd (streamWithProgress n d turns) = Some True \<longleftrightarrow> delivers turns"
proof (induction n d turns rule: streamWithProgress.induct)
  case (3 n d p e due turns)
  then show ?case by (auto simp: Let_def split: option.splits read_err.splits prod.splits)
qed auto

lemma seed_result:
  assumes "answers env escape u info turns"
  shows "\<exists>acts. downloadFromWebSeed env escape u info = (acts, if delivers turns then None else Some SourceFailed) \<and>
    wrote acts = stream_bytes turns"
proof -
  obtain n where n: "sd_answer env = Some (200, n, turns)" using assms by (auto simp: answers_def)
  let ?n = "if n \<le> 0 \<and> mi_ExactLength info > 0 then mi_ExactLength info else n"
  obtain acts r where s: "streamWithProgress ?n 0 turns = (acts, r)" by (rule prod.exhaust)
  have "wrote acts = stream_bytes turns" "r = Some True \<longleftrightarrow> delivers turns"
    using wrote_stream [of ?n 0 turns] stream_delivers [of ?n 0 turns] s by auto
  then show ?thesis using assms n s by (simp add: downloadFromWebSeed_def answers_def Let_def)
qed

text \<open>what a failed source wrote stays. When a web seed breaks off after some bytes and the next one delivers the whole
  file, the download succeeds, and its result is the bytes of the first followed by those of the second.\<close>

theorem failed_seed_bytes_remain:
  assumes "mi_WebSeeds info @ mi_ExactSources info = u1 # u2 # us" "\<not> te_done env (Seed 0)" "\<not> te_done env (Seed 1)"
    and "answers (te_seed env 0) (te_escape env) u1 info turns1" "\<not> delivers turns1"
    and "answers (te_seed env 1) (te_escape env) u2 info turns2" "delivers turns2"
  shows "\<exists>acts. DownloadTorrent env info = (acts, Downloaded) \<and> wrote acts = stream_bytes turns1 @ stream_bytes turns2"
proof -
  obtain a1 a2 where "downloadFromWebSeed (te_seed env 0) (te_escape env) u1 info = (a1, Some SourceFailed)" "wrote a1 = stream_bytes turns1"
    "downloadFromWebSeed (te_seed env 1) (te_escape env) u2 info = (a2, None)" "wrote a2 = stream_bytes turns2"
    using seed_result [OF assms(4)] seed_result [OF assms(6)] assms(5,7) by auto
  then show ?thesis using assms(1-3) by (simp add: DownloadTorrent_def)
qed

section \<open>Metadata\<close>

lemma Unmarshal_prefix:
  assumes "fits 0 v" "encodeValue v = Some s"
  shows "UnmarshalBencode (s @ rest) = Inr v"
  using encode_decode_value [OF assms(2,1), of "2 * length (s @ rest) + 1" rest] by (simp add: UnmarshalBencode_def)

text \<open>A metadata message: the dictionary of BEP 9 and behind it the info dictionary.\<close>

definition data_dict :: bval where
  "data_dict = BDict [(''msg_type'', BInt 1), (''piece'', BInt 0)]"

definition encoding :: "bval \<Rightarrow> string" where
  "encoding v = the (encodeValue v)"

lemma data_dict_fits: "fits 0 data_dict"
  by (simp add: data_dict_def maxBencodeDepth_def is_int64_def str_ok_def maxBencodeStringLen_def less_char_def)

lemma handle_metadata_encoded:
  assumes "fits 0 (BDict m)"
  shows "handle_metadata (encoding data_dict @ encoding (BDict m)) c = apply_metadata m c"
proof -
  obtain s where s: "encodeValue data_dict = Some s" using fits_encodable(1) [OF data_dict_fits] by blast
  obtain t where t: "encodeValue (BDict m) = Some t" using fits_encodable(1) [OF assms] by blast
  then have "t \<noteq> []" by (auto split: option.splits)
  moreover have "UnmarshalBencode (s @ t) = Inr data_dict" by (rule Unmarshal_prefix [OF data_dict_fits s])
  moreover have "UnmarshalBencode t = Inr (BDict m)" using Unmarshal_prefix [OF assms t, of "[]"] by simp
  moreover have "MarshalBencode data_dict = Inr s" by (simp add: MarshalBencode_def s)
  moreover have "encoding data_dict = s" "encoding (BDict m) = t" by (simp_all only: encoding_def s t option.sel)
  ultimately show ?thesis by (simp add: handle_metadata_def data_dict_def)
qed

definition extended :: "byte \<Rightarrow> string \<Rightarrow> bytes" where
  "extended extID body = put_be32 (of_nat (2 + length body)) @ [20, extID] @ bytes_of_string body"

lemma extended_turn:
  assumes "pc_in c = extended extID body @ rest" "quiet env" "pc_downloaded c = 0" "body \<noteq> []" "length body + 2 \<le> 10 * 1024 * 1024"
    and "c' = handle_extended (20 # extID # bytes_of_string body) (c\<lparr>pc_in := rest, pc_keepAlives := 0\<rparr>)"
    and "pc_downloaded c' = 0" "pc_turn c' = pc_turn c"
  shows "peer_turn env c = (c'\<lparr>pc_turn := Suc (pc_turn c)\<rparr>, None)"
proof -
  let ?m = "20 # extID # bytes_of_string body"
  have "read_message (pc_in c) = Message ?m rest"
    using read_message_put [of ?m rest] assms(5) by (simp add: assms(1) extended_def)
  moreover have "handle_message env ?m (c\<lparr>pc_in := rest, pc_keepAlives := 0\<rparr>) = (c', None)"
    by (simp add: handle_message_def assms(6))
  ultimately show ?thesis using assms(2,7,8) by (simp add: peer_turn_def quiet_def)
qed

lemma apply_piece_length:
  assumes "dict_int m ''length'' = None" "dict_int m ''piece length'' = Some pl" "pl > 0" "map_of m ''files'' = None"
  shows "apply_metadata m c = c\<lparr>pc_info := (pc_info c)\<lparr>mi_PieceLength := pl\<rparr>, pc_pieceLength := of_int pl\<rparr>"
  using assms by (simp add: apply_metadata_def)

text \<open>one metadata message stops the server. A peer that announces a piece length that is a multiple of two to the 32, and
  then sends a block that does not complete the file, makes the client divide by zero.\<close>

theorem piece_length_crash:
  assumes "admits env addr" "greeting info hs" "mi_ExactLength info = 0 \<or> int (length block) < mi_ExactLength info" "0 \<le> mi_ExactLength info"
    and "fits 0 (BDict m)" "dict_int m ''length'' = None" "dict_int m ''piece length'' = Some pl" "pl > 0" "2 ^ 32 dvd pl"
    and "map_of m ''files'' = None" "length (encoding data_dict @ encoding (BDict m)) + 2 \<le> 10 * 1024 * 1024" "extID \<noteq> 0" "piece_ok block"
    and "pr_stream env = hs @ extended extID (encoding data_dict @ encoding (BDict m)) @ peer_piece i b block @ rest"
  shows "snd (downloadFromPeer env peerID addr info) = PeerPanic"
proof -
  let ?body = "encoding data_dict @ encoding (BDict m)"
  let ?c = "open_conn env info (first_messages info peerID)"
  obtain ext where ext: "ext_message 0 extension_handshake = Some ext" using ext_message_ok by auto
  obtain conn where "SafeDialContext (pr_dial env) False addr = Inr conn" using assms(1) by (auto simp: admits_def)
  then have d: "downloadFromPeer env peerID addr info = peer_loop env ?c"
    using assms(1,2,14) by (simp add: downloadFromPeer_def admits_def greeting_def ext first_messages_def Let_def)
  have q: "quiet env" using assms(1) by (simp add: admits_def)
  have ne: "encoding data_dict \<noteq> []" by (simp add: encoding_def data_dict_def)
  then have body: "?body \<noteq> []" by simp
  let ?r = "peer_piece i b block @ rest"
  let ?opened = "?c\<lparr>pc_in := ?r, pc_keepAlives := 0\<rparr>"
  let ?told = "?opened\<lparr>pc_info := (pc_info ?opened)\<lparr>mi_PieceLength := pl\<rparr>, pc_pieceLength := of_int pl\<rparr>"
  have h: "handle_extended (20 # extID # bytes_of_string ?body) ?opened = ?told"
    using ne assms(12) apply_piece_length [OF assms(6,7,8,10)] handle_metadata_encoded [OF assms(5)]
    by (simp add: handle_extended_def del: bytes_of_string_append)
  have "drop 68 (hs @ x) = x" for x using assms(2) by (simp add: greeting_def)
  then have "pc_in ?c = extended extID ?body @ ?r" by (simp only: open_conn_def assms(14) PeerConn.simps)
  then have t1: "peer_turn env ?c = (?told\<lparr>pc_turn := Suc (pc_turn ?c)\<rparr>, None)"
    by (rule extended_turn [OF _ q _ body assms(11) h [symmetric]]) (simp_all add: open_conn_def)
  let ?next = "?told\<lparr>pc_turn := Suc (pc_turn ?c)\<rparr>"
  have z: "(of_int pl :: 32 word) = 0" using assms(9) by (simp add: word_of_int_eq_0_iff)
  have "snd (peer_turn env ?next) = Some PeerPanic"
    using q assms(3,4,13) z
    by (simp add: peer_turn_def read_piece handle_message_def handle_piece_def quiet_def open_conn_def piece_ok_def Let_def)
  then show ?thesis
    unfolding d peer_loop.simps [of env ?c] t1 by (subst prod.case, subst option.case, subst peer_loop.simps) (auto split: prod.splits option.splits)
qed

section \<open>What reaches the destination\<close>

text \<open>Whatever comes from the network, a write has between one byte and 10 MiB.\<close>

definition acts_fit :: "job_act list \<Rightarrow> bool" where
  "acts_fit acts \<longleftrightarrow> list_all (\<lambda>a. act_ok a \<and> (case a of Wrote p \<Rightarrow> True | Report n t sp \<Rightarrow> True | _ \<Rightarrow> False)) acts"

lemma acts_fit_simps [simp]:
  "acts_fit []" "acts_fit (as @ bs) \<longleftrightarrow> acts_fit as \<and> acts_fit bs"
  "acts_fit (Wrote p # as) \<longleftrightarrow> p \<noteq> [] \<and> length p \<le> 10 * 1024 * 1024 \<and> acts_fit as" "acts_fit (Report n t sp # as) \<longleftrightarrow> acts_fit as"
  by (auto simp: acts_fit_def act_ok_def)

lemma handle_message_fit:
  assumes "acts_fit (pc_acts c)" "length m \<le> 10 * 1024 * 1024"
  shows "acts_fit (pc_acts (fst (handle_message env m c)))"
proof -
  have "pc_acts (handle_unchoke c) = pc_acts c" by (simp add: handle_unchoke_def send_def Let_def)
  moreover have "acts_fit (pc_acts (fst (handle_piece env m c)))"
    using assms by (auto simp: handle_piece_def send_def Let_def)
  moreover have "pc_acts (apply_metadata d c) = pc_acts c" for d
    by (simp add: apply_metadata_def set_total_def Let_def split: option.splits bval.splits)
  then have "pc_acts (handle_extended m c) = pc_acts c"
    by (auto simp: handle_extended_def handle_ext_handshake_def handle_metadata_def send_def Let_def
        split: sum.splits bval.splits option.splits)
  ultimately show ?thesis using assms(1) by (auto simp: handle_message_def Let_def)
qed

lemma read_message_bound: "read_message s = Message m rest \<Longrightarrow> length m \<le> 10 * 1024 * 1024"
  by (auto simp: read_message_def Let_def split: if_splits)

lemma peer_turn_fit:
  assumes "acts_fit (pc_acts c)" "peer_turn env c = (c', r)"
  shows "acts_fit (pc_acts c')"
proof (cases "read_message (pc_in c)")
  case (Message m rest)
  have "acts_fit (pc_acts (fst (handle_message env m (c\<lparr>pc_in := rest, pc_keepAlives := 0\<rparr>))))"
    using handle_message_fit [of "c\<lparr>pc_in := rest, pc_keepAlives := 0\<rparr>" m env] assms(1) read_message_bound [OF Message] by simp
  then show ?thesis using assms Message by (auto simp: peer_turn_def split: if_splits prod.splits option.splits)
qed (use assms in \<open>auto simp: peer_turn_def Let_def split: if_splits\<close>)

lemma peer_loop_fit: "acts_fit (pc_acts c) \<Longrightarrow> acts_fit (pc_acts (fst (peer_loop env c)))"
proof (induction env c rule: peer_loop.induct)
  case (1 env c)
  obtain c' r where t: "peer_turn env c = (c', r)" by (rule prod.exhaust)
  have f: "acts_fit (pc_acts c')" by (rule peer_turn_fit [OF "1.prems" t])
  show ?case
  proof (cases r)
    case None
    then have "peer_loop env c = peer_loop env c'" by (subst peer_loop.simps) (simp add: t)
    moreover have "acts_fit (pc_acts (fst (peer_loop env c')))" using "1.IH" [OF t [symmetric] None f] .
    ultimately show ?thesis by simp
  next
    case (Some e)
    then have "peer_loop env c = (c', e)" by (subst peer_loop.simps) (simp add: t)
    then show ?thesis using f by simp
  qed
qed

lemma downloadFromPeer_fit: "acts_fit (pc_acts (fst (downloadFromPeer env peerID addr info)))"
proof -
  have o: "pc_acts (open_conn env info ms) = []" for ms by (simp add: open_conn_def)
  then have "acts_fit (pc_acts (fst (peer_loop env (open_conn env info ms))))" for ms by (intro peer_loop_fit) simp
  then show ?thesis by (simp add: downloadFromPeer_def refused_def o Let_def split: option.splits sum.splits)
qed

lemma stream_fit: "small_reads turns \<Longrightarrow> acts_fit (fst (streamWithProgress n d turns))"
proof (induction n d turns rule: streamWithProgress.induct)
  case (3 n d p e due turns)
  then show ?case by (auto simp: Let_def small_reads_def split: option.splits read_err.splits prod.splits)
qed auto

lemma cut_write_fit: "acts_fit acts \<Longrightarrow> cut_write n acts = Some acts' \<Longrightarrow> acts_fit acts'"
  by (induction n acts arbitrary: acts' rule: cut_write.induct) (auto simp: acts_fit_def split: if_splits)

lemma downloadFromWebSeed_fit:
  assumes "\<And>st n turns. sd_answer env = Some (st, n, turns) \<Longrightarrow> small_reads turns"
  shows "acts_fit (fst (downloadFromWebSeed env escape u info))"
  using assms stream_fit cut_write_fit
  by (auto simp: downloadFromWebSeed_def Let_def split: option.splits prod.splits) (metis fst_conv)+

definition buffered :: "TorrentEnv \<Rightarrow> bool" where
  "buffered env \<longleftrightarrow> (\<forall>k st n turns. sd_answer (te_seed env k) = Some (st, n, turns) \<longrightarrow> small_reads turns)"

lemma try_seeds_fit: "buffered env \<Longrightarrow> acts_fit (fst (try_seeds env info k us))"
proof (induction env info k us rule: try_seeds.induct)
  case (2 env info k u us)
  have "acts_fit (fst (downloadFromWebSeed (te_seed env k) (te_escape env) u info))"
    using "2.prems" by (intro downloadFromWebSeed_fit) (auto simp: buffered_def)
  with 2 show ?case by (auto split: prod.splits option.splits)
qed simp

lemma try_peers_fit: "acts_fit (fst (try_peers env info k as))"
proof (induction env info k as rule: try_peers.induct)
  case (2 env info k a as)
  have "acts_fit (pc_acts (fst (downloadFromPeer (te_peer env k) (te_peerID env) a info)))" by (rule downloadFromPeer_fit)
  with 2 show ?case by (auto split: prod.splits peer_end.splits)
qed simp

lemma DownloadTorrent_fit: "buffered env \<Longrightarrow> acts_fit (fst (DownloadTorrent env info))"
  using try_seeds_fit [of env info 0 "mi_WebSeeds info @ mi_ExactSources info"] try_peers_fit [of env info 0]
  by (auto simp: DownloadTorrent_def split: prod.splits torrent_outcome.splits sum.splits) (metis fst_conv)+

text \<open>The actions of a transfer keep the invariant of the manager.\<close>

lemma transfer_step_inv:
  assumes "dm_inv dm" "dm_jobs dm i = Some j" "jb_phase j = Transferring" "acts_fit [a]"
  shows "dm_inv (job_step env i a dm) \<and> (\<exists>j'. dm_jobs (job_step env i a dm) i = Some j' \<and> jb_phase j' = Transferring)"
proof -
  have a: "act_ok a" using assms(4) by (simp add: acts_fit_def)
  have s: "job_step env i a dm = transfer_act env a i j dm" using assms(2,3) by (simp add: job_step_def)
  have "dm_inv (transfer_act env a i j dm)" by (rule job_transfer_inv [OF assms(1-3) a])
  moreover have "\<exists>j'. dm_jobs (transfer_act env a i j dm) i = Some j' \<and> jb_phase j' = Transferring"
  proof (cases a)
    case (Wrote p)
    then have p: "p \<noteq> []" "length p \<le> 10 * 1024 * 1024" using assms(4) by auto
    have "job_ok dm i j" using dm_inv_job [OF assms(1,2)] by simp
    from write_job_ok [OF this assms(3) p] show ?thesis by (auto simp: transfer_act_def Wrote)
  next
    case (Report n t sp)
    then show ?thesis using assms(2,3) by (simp add: transfer_act_def on_progress_def)
  qed (use assms(4) in \<open>auto simp: acts_fit_def\<close>)
  ultimately show ?thesis by (simp add: s)
qed

text \<open>C10: nothing a swarm sends disturbs the download manager. Whatever peers, trackers and web seeds answer, the client
  writes between one byte and 10 MiB at a time, so every block it writes can be read back by the decrypting side, and
  its writes and reports keep the invariant of the manager and leave the task transferring.\<close>

theorem torrent_keeps_invariant:
  assumes "buffered env" "dm_inv dm" "dm_jobs dm i = Some j" "jb_phase j = Transferring"
  shows "list_all act_ok (fst (DownloadTorrent env info)) \<and>
    (let dm' = fold (job_step jenv i) (fst (DownloadTorrent env info)) dm in
     dm_inv dm' \<and> (\<exists>j'. dm_jobs dm' i = Some j' \<and> jb_phase j' = Transferring))"
proof -
  have run: "dm_inv (fold (job_step jenv i) acts dm) \<and>
      (\<exists>j'. dm_jobs (fold (job_step jenv i) acts dm) i = Some j' \<and> jb_phase j' = Transferring)"
    if "acts_fit acts" for acts
    using that assms(2-4)
  proof (induction acts arbitrary: dm j)
    case (Cons a acts)
    have "acts_fit [a]" "acts_fit acts" using Cons.prems(1) by (simp_all add: acts_fit_def)
    with transfer_step_inv [OF Cons.prems(2-4), of a jenv] Cons.IH show ?case by auto
  qed auto
  have "acts_fit (fst (DownloadTorrent env info))" by (rule DownloadTorrent_fit [OF assms(1)])
  with run show ?thesis unfolding Let_def by (auto simp: acts_fit_def list_all_iff)
qed

section \<open>Examples\<close>

definition ex_net :: NetEnv where
  "ex_net = \<lparr>ne_url = (\<lambda>u. Some (''http'', ''1.2.3.4'')), ne_lookupIP = (\<lambda>h. None), ne_AllowPrivateNetworks = False, ne_uni = id\<rparr>"

definition ex_info :: "string list \<Rightarrow> int \<Rightarrow> MagnetInfo" where
  "ex_info seeds n =
     \<lparr>mi_InfoHash = replicate 20 3, mi_HexHash = hex_encode (replicate 20 3), mi_DisplayName = ''a.bin'', mi_Trackers = [''http://t/''],
      mi_WebSeeds = seeds, mi_ExactSources = [], mi_ExactLength = n, mi_PieceLength = 0\<rparr>"

definition ex_hello :: bytes where
  "ex_hello = handshake (replicate 20 3) (replicate 20 0)"

definition ex_peer :: "bytes \<Rightarrow> PeerEnv" where
  "ex_peer rest =
     \<lparr>pr_check = ex_net, pr_dial = ex_net, pr_refused = False, pr_sendFails = (\<lambda>_. False), pr_stream = ex_hello @ rest,
      pr_done = (\<lambda>_. False), pr_writeFails = (\<lambda>_. False), pr_speed = (\<lambda>_. [])\<rparr>"

definition ex_seed :: "src_turn list \<Rightarrow> SeedEnv" where
  "ex_seed turns = \<lparr>sd_net = ex_net, sd_answer = Some (200, 1, turns), sd_writeFails = None\<rparr>"

definition ex_peers_dict :: bval where
  "ex_peers_dict = BDict [(''peers'', BStr (string_of_bytes [1, 2, 3, 4, 0, 5]))]"

definition ex_tracker :: TrackerEnv where
  "ex_tracker = \<lparr>tr_net = ex_net, tr_parse = True, tr_answer = (\<lambda>q. Some (200, Some (bytes_of_string (encoding ex_peers_dict))))\<rparr>"

definition ex_swarm :: "(nat \<Rightarrow> src_turn list) \<Rightarrow> bytes \<Rightarrow> TorrentEnv" where
  "ex_swarm turns rest =
     \<lparr>te_done = (\<lambda>_. False), te_seed = (\<lambda>k. ex_seed (turns k)), te_tracker = (\<lambda>_. ex_tracker), te_peer = (\<lambda>_. ex_peer rest),
      te_escape = id, te_peerID = replicate 20 1\<rparr>"

lemma ex_admits: "admits (ex_peer rest) ''1.2.3.4:5''"
proof -
  have "ValidatePeerAddress ex_net False ''1.2.3.4:5'' = None" by code_simp
  moreover have "SafeDialContext ex_net False ''1.2.3.4:5'' = Inr (DialIP (mapped [1, 2, 3, 4]) ''5'')" by code_simp
  ultimately show ?thesis by (simp add: admits_def quiet_def ex_peer_def)
qed

lemma ex_greets: "greeting (ex_info seeds n) ex_hello"
  by (simp add: greeting_def ex_info_def ex_hello_def handshake_def check_handshake_def protocol_name_def bytes_of_string_def numeral_eq_Suc)

lemma ex_first: "first_pieceLength (ex_info seeds n) = 256 * 1024"
  by (simp add: first_pieceLength_def ex_info_def)

lemma ex_url: "ValidateSafeURL ex_net False u = None"
proof -
  have "check_host ex_net ''1.2.3.4'' = None" "ToLower id ''http'' = ''http''" by code_simp+
  then show ?thesis by (simp add: ValidateSafeURL_def ex_net_def)
qed

lemma ex_answers: "answers (ex_seed turns) escape u info turns"
  using ex_url by (simp add: answers_def ex_seed_def)

lemma ex_asked: "ask_trackers (ex_swarm turns rest) (ex_info [] n) 0 (mi_Trackers (ex_info [] n)) = Inr [''1.2.3.4:5'']"
proof -
  note ex_url
  moreover have "fits 0 ex_peers_dict"
    by (simp add: ex_peers_dict_def maxBencodeDepth_def str_ok_def maxBencodeStringLen_def)
  then have "UnmarshalBencode (encoding ex_peers_dict) = Inr ex_peers_dict"
    using Unmarshal_prefix [of ex_peers_dict "encoding ex_peers_dict" "[]"] fits_encodable(1) [of 0 ex_peers_dict]
    by (auto simp: encoding_def)
  moreover have "length (encoding ex_peers_dict) = 17" by (simp add: encoding_def ex_peers_dict_def encodeString_def) code_simp
  moreover have "compact_peers [1, 2, 3, 4, 0, 5] = [''1.2.3.4:5'']" by code_simp
  ultimately show ?thesis
    by (simp add: ex_swarm_def ex_info_def announceHTTPTracker_def ex_tracker_def)
      (simp add: ex_peers_dict_def announced_peers_def)
qed

theorem honest_peer_delivers_witness:
  "\<exists>c. downloadFromPeer (ex_peer (unchoke @ pieces (map (tile_answer (256 * 1024) (replicate 20000 7)) [0..<2]))) (replicate 20 1) ''1.2.3.4:5''
       (ex_info [] 20000) = (c, PeerDone) \<and>
     wrote (pc_acts c) = replicate 20000 7 \<and> length (pc_sent c) = 5"
proof -
  have n: "tile_count (replicate 20000 (7 :: byte)) = 2" by (simp add: tile_count_def)
  have "pr_stream (ex_peer (unchoke @ pieces (map (tile_answer (256 * 1024) (replicate 20000 7)) [0..<2]))) =
      ex_hello @ unchoke @ pieces (map (tile_answer (256 * 1024) (replicate 20000 7)) [0..<tile_count (replicate 20000 7)]) @ []"
    unfolding n by (simp add: ex_peer_def)
  from honest_peer_delivers [OF ex_admits ex_greets _ _ ex_first [symmetric] this, of "[]" 20000 "replicate 20 1"]
  show ?thesis unfolding n by (auto simp: ex_info_def first_messages_def)
qed

theorem truncated_torrent_accepted_witness:
  "\<exists>c. downloadFromPeer (ex_peer (unchoke @ pieces (map (tile_answer (256 * 1024) (replicate 20000 7)) [0..<1]))) (replicate 20 1) ''1.2.3.4:5''
       (ex_info [] 20000) = (c, PeerDone) \<and> wrote (pc_acts c) = replicate 16384 7"
proof -
  have "pr_stream (ex_peer (unchoke @ pieces (map (tile_answer (256 * 1024) (replicate 20000 7)) [0..<1]))) =
      ex_hello @ unchoke @ pieces (map (tile_answer (256 * 1024) (replicate 20000 7)) [0..<1]) @ []"
    by (simp add: ex_peer_def)
  from truncated_torrent_accepted [OF ex_admits ex_greets _ ex_first [symmetric] this, of "[]" 20000 "replicate 20 1"]
  show ?thesis by (auto simp: ex_info_def read_message_def)
qed

theorem torrent_download_stored_witness:
  "\<exists>transfer. torrent_transfer (ex_swarm (\<lambda>_. []) (unchoke @ pieces [tile_answer (256 * 1024) [9] 0])) (ex_info [] 1) = Some transfer \<and>
     (let dm' = executeDownload ex_jenv transfer ex_task ex_started in
      tk_Status (dm_objs dm' ex_task) = StatusCompleted \<and> (\<exists>row. dm_files dm' = [row] \<and> f_size row = 1 \<and> f_plain row = hash_of [9]))"
proof -
  let ?env = "ex_swarm (\<lambda>_. []) (unchoke @ pieces [tile_answer (256 * 1024) [9] 0])"
  obtain j where j: "dm_jobs ex_started ex_task = Some j" "jb_phase j = NotStarted False []" "tk_OwnerID (dm_objs ex_started ex_task) = 1"
    by (rule ex_job)
  have q: "0 = GetUserStorageUsed (tk_OwnerID (dm_objs ex_started ex_task)) (dm_files ex_started)"
    "dm_QuotaBytes ex_started > 0 \<longrightarrow> 0 < dm_QuotaBytes ex_started" "within_quota 0 (int (length [9 :: byte])) ex_started"
    using ex_empty(2) by (simp_all add: j within_quota_def)
  have e: "mi_WebSeeds (ex_info [] 1) = []" "mi_ExactSources (ex_info [] 1) = []" "\<not> te_done ?env (Peer 0)" "[9 :: byte] \<noteq> []"
    "mi_ExactLength (ex_info [] 1) = int (length [9 :: byte])"
    by (simp_all add: ex_info_def ex_swarm_def)
  have p: "admits (te_peer ?env 0) ''1.2.3.4:5''" using ex_admits by (simp add: ex_swarm_def)
  have "tile_count [9 :: byte] = 1" by (simp add: tile_count_def)
  then have st: "pr_stream (te_peer ?env 0) = ex_hello @ unchoke @ pieces (map (tile_answer (256 * 1024) [9]) [0..<tile_count [9]]) @ []"
    by (simp add: ex_swarm_def ex_peer_def)
  from torrent_download_stored [OF ex_started_inv j(1,2) ex_calm ex_empty(3) ex_key q ex_empty(1) e(1,2) ex_asked e(3) p ex_greets e(4,5)
      ex_first [symmetric] st]
  show ?thesis by (auto simp: Let_def)
qed

theorem failed_seed_bytes_remain_witness:
  "\<exists>acts. DownloadTorrent (ex_swarm (\<lambda>k. if k = 0 then [SrcRead [1] (Some ReadFail) None] else [SrcRead [1, 2] (Some ReadEOF) None]) [])
       (ex_info [''http://a/x'', ''http://b/x''] 2) = (acts, Downloaded) \<and> wrote acts = [1, 1, 2]"
proof -
  let ?turns = "\<lambda>k :: nat. if k = 0 then [SrcRead [1] (Some ReadFail) None] else [SrcRead [1, 2] (Some ReadEOF) None]"
  let ?env = "ex_swarm ?turns []"
  let ?i = "ex_info [''http://a/x'', ''http://b/x''] 2"
  have "mi_WebSeeds ?i @ mi_ExactSources ?i = ''http://a/x'' # ''http://b/x'' # []" "\<not> te_done ?env (Seed 0)" "\<not> te_done ?env (Seed 1)"
    "answers (te_seed ?env 0) (te_escape ?env) ''http://a/x'' ?i (?turns 0)" "\<not> delivers (?turns 0)"
    "answers (te_seed ?env 1) (te_escape ?env) ''http://b/x'' ?i (?turns 1)" "delivers (?turns 1)"
    using ex_answers by (simp_all add: ex_info_def ex_swarm_def)
  from failed_seed_bytes_remain [OF this] show ?thesis by simp
qed

definition ex_metadata :: "(string \<times> bval) list" where
  "ex_metadata = [(''piece length'', BInt (2 ^ 32))]"

theorem piece_length_crash_witness:
  "snd (downloadFromPeer (ex_peer (extended 1 (encoding data_dict @ encoding (BDict ex_metadata)) @ peer_piece 0 0 [9])) (replicate 20 1)
     ''1.2.3.4:5'' (ex_info [] 0)) = PeerPanic"
proof -
  have f: "fits 0 (BDict ex_metadata)"
    by (simp add: ex_metadata_def maxBencodeDepth_def is_int64_def str_ok_def maxBencodeStringLen_def)
  have d: "dict_int ex_metadata ''length'' = None" "dict_int ex_metadata ''piece length'' = Some (2 ^ 32)" "map_of ex_metadata ''files'' = None"
    by (simp_all add: ex_metadata_def)
  have "length (encoding data_dict) = 25" by code_simp
  moreover have "length (encoding (BDict ex_metadata)) = 29"
    by (simp add: encoding_def ex_metadata_def encodeString_def Itoa_def nat_digits.simps)
  ultimately have l: "length (encoding data_dict @ encoding (BDict ex_metadata)) + 2 \<le> 10 * 1024 * 1024" by simp
  have b: "mi_ExactLength (ex_info [] 0) = 0 \<or> int (length [9 :: byte]) < mi_ExactLength (ex_info [] 0)" "0 \<le> mi_ExactLength (ex_info [] 0)"
    "piece_ok [9]" "(1 :: byte) \<noteq> 0" "(0 :: int) < 2 ^ 32"
    by (simp_all add: ex_info_def piece_ok_def)
  have st: "pr_stream (ex_peer (extended 1 (encoding data_dict @ encoding (BDict ex_metadata)) @ peer_piece 0 0 [9])) =
      ex_hello @ extended 1 (encoding data_dict @ encoding (BDict ex_metadata)) @ peer_piece 0 0 [9] @ []"
    by (simp add: ex_peer_def)
  show ?thesis by (rule piece_length_crash [OF ex_admits ex_greets b(1,2) f d(1,2) b(5) dvd_refl d(3) l b(4,3) st])
qed

theorem torrent_keeps_invariant_witness:
  "let dm' = fold (job_step ex_jenv ex_task) (fst (DownloadTorrent (ex_swarm (\<lambda>_. []) []) (ex_info [] 1))) (job_step ex_jenv ex_task Begin ex_started)
   in dm_inv dm' \<and> (\<exists>j'. dm_jobs dm' ex_task = Some j' \<and> jb_phase j' = Transferring)"
proof -
  have b: "buffered (ex_swarm (\<lambda>_. []) [])" by (auto simp: buffered_def ex_swarm_def ex_seed_def small_reads_def)
  obtain j where "dm_inv (job_step ex_jenv ex_task Begin ex_started)" "dm_jobs (job_step ex_jenv ex_task Begin ex_started) ex_task = Some j"
    "jb_phase j = Transferring"
    using ex_begun by (auto simp: fetching_def)
  from torrent_keeps_invariant [OF b this] show ?thesis unfolding Let_def by blast
qed

end
