(* ===== verification/Link_Resolver.thy ===== *)
theory Link_Resolver
  imports Download_Links Magnet Network_Safety
begin

text \<open>
  Links and the sites behind them: \<^verbatim>\<open>internal/download/resolver.go\<close>, with \<^verbatim>\<open>ParseFilenameFromHeaders\<close> of \<^verbatim>\<open>direct.go\<close>,
  which it calls. The regular expressions over links are written out as matchers; those over HTML pages, the parser and the
  printer of \<^verbatim>\<open>net/url\<close>, and \<^verbatim>\<open>mime.ParseMediaType\<close> are parameters. A panic of the code is an outcome of its own.
\<close>

section \<open>Strings\<close>

text \<open>\<^verbatim>\<open>SplitN(s, sep, 2)\<close>: what stands before and behind the first separator. \<^verbatim>\<open>ReplaceAll\<close> with a longer separator.\<close>

fun split_first :: "string \<Rightarrow> string \<Rightarrow> (string \<times> string) option" where
  "split_first sep [] = None"
| "split_first sep (c # s) =
     (if HasPrefix (c # s) sep then Some ([], drop (length sep) (c # s))
      else map_option (\<lambda>(a, b). (c # a, b)) (split_first sep s))"

fun replace_amp :: "string \<Rightarrow> string" where
  "replace_amp [] = []"
| "replace_amp (c # s) = (if HasPrefix (c # s) ''&amp;'' then CHR ''&'' # replace_amp (drop 4 s) else c # replace_amp s)"

fun PathUnescape :: "string \<Rightarrow> string option" where
  "PathUnescape [] = Some []"
| "PathUnescape (c # s) =
     (if c \<noteq> CHR ''%'' then map_option ((#) c) (PathUnescape s)
      else if length s < 2 then None
      else case hex_decode (take 2 s) of
          None \<Rightarrow> None
        | Some x \<Rightarrow> map_option ((@) (string_of_bytes x)) (PathUnescape (drop 2 s)))"

definition base64_digit :: "nat \<Rightarrow> char" where
  "base64_digit n = (''ABCDEFGHIJKLMNOPQRSTUVWXYZabcdefghijklmnopqrstuvwxyz0123456789+/'') ! n"

fun base64_encode :: "nat list \<Rightarrow> string" where
  "base64_encode [] = []"
| "base64_encode [a] = [base64_digit (a div 4), base64_digit (a mod 4 * 16), CHR ''='', CHR ''='']"
| "base64_encode [a, b] =
     [base64_digit (a div 4), base64_digit (a mod 4 * 16 + b div 16), base64_digit (b mod 16 * 4), CHR ''='']"
| "base64_encode (a # b # c # rest) =
     base64_digit (a div 4) # base64_digit (a mod 4 * 16 + b div 16) # base64_digit (b mod 16 * 4 + c div 64) #
     base64_digit (c mod 64) # base64_encode rest"

section \<open>What the code is given\<close>

text \<open>A parsed URL; \<open>u_Query\<close> is \<^verbatim>\<open>Query().Get\<close>. \<open>le_without_user\<close> and \<open>le_with_query\<close> print the URL without its user, and with
  one parameter set.\<close>

record URL =
  u_User :: "(string \<times> string) option"
  u_Host :: string
  u_Hostname :: string
  u_Path :: string
  u_Query :: "string \<Rightarrow> string"
  u_RequestURI :: string

datatype html_pattern =
    MediafireBtn | MediafireRawCdn | GenericDownloadBtn | GenericDownloadHref | MediafireTitle | GdriveConfirmUrl | GdriveConfirm

record UrlEnv =
  ue_uni :: "string \<Rightarrow> string"
  ue_parse :: "string \<Rightarrow> URL option"
  ue_without_user :: "string \<Rightarrow> string"
  ue_with_query :: "string \<Rightarrow> string \<Rightarrow> string \<Rightarrow> string"
  ue_values :: "string \<Rightarrow> (string \<Rightarrow> string list) option"
  ue_mediaType :: "string \<Rightarrow> (string \<times> (string \<rightharpoonup> string)) option"
  ue_now :: instant
  ue_html :: "html_pattern \<Rightarrow> string \<Rightarrow> string option" \<comment> \<open>the group of the leftmost match\<close>
  ue_net :: NetEnv
  ue_page :: "string \<Rightarrow> (int \<times> bytes option) option"

section \<open>File names\<close>

definition nonempty :: "string option \<Rightarrow> string option" where
  "nonempty x = (case x of Some [] \<Rightarrow> None | _ \<Rightarrow> x)"

definition disposition_name :: "UrlEnv \<Rightarrow> string \<Rightarrow> string option" where
  "disposition_name env header =
     (if header = [] then None
      else case ue_mediaType env header of
          None \<Rightarrow> None
        | Some (_, params) \<Rightarrow>
            (case nonempty (params ''filename*'') of
               Some filename \<Rightarrow>
                 (case split_first [CHR 0x27, CHR 0x27] filename of
                    Some (_, part) \<Rightarrow>
                      (case PathUnescape part of
                         Some unescaped \<Rightarrow> Some (CleanFilename unescaped [])
                       | None \<Rightarrow> Some (CleanFilename filename []))
                  | None \<Rightarrow> Some (CleanFilename filename []))
             | None \<Rightarrow> map_option (\<lambda>f. CleanFilename f []) (nonempty (params ''filename''))))"

definition query_name :: "UrlEnv \<Rightarrow> URL \<Rightarrow> string option" where
  "query_name env u =
     (if u_Query u ''filename'' \<noteq> [] then Some (CleanFilename (u_Query u ''filename'') [])
      else if u_Query u ''file'' \<noteq> [] then Some (CleanFilename (u_Query u ''file'') [])
      else if u_Query u ''response-content-disposition'' \<noteq> [] then
        (case ue_mediaType env (u_Query u ''response-content-disposition'') of
           None \<Rightarrow> None
         | Some (_, params) \<Rightarrow> map_option (\<lambda>f. CleanFilename f []) (nonempty (params ''filename'')))
      else None)"

definition path_name :: "URL \<Rightarrow> string option" where
  "path_name u =
     (case PathUnescape (path_Base (u_Path u)) of
        None \<Rightarrow> None
      | Some name \<Rightarrow> if name \<noteq> [] \<and> name \<noteq> ''/'' \<and> name \<noteq> ''.'' then Some (CleanFilename name []) else None)"

definition ParseFilenameFromHeaders :: "UrlEnv \<Rightarrow> string \<Rightarrow> string \<Rightarrow> string" where
  "ParseFilenameFromHeaders env header rawURL =
     (case disposition_name env header of
        Some name \<Rightarrow> name
      | None \<Rightarrow>
          (case (case ue_parse env rawURL of
                   None \<Rightarrow> None
                 | Some u \<Rightarrow> (case query_name env u of Some name \<Rightarrow> Some name | None \<Rightarrow> path_name u)) of
             Some name \<Rightarrow> name
           | None \<Rightarrow> ''download_'' @ Itoa (ue_now env div Second)))"

section \<open>Patterns over links\<close>

definition re_space :: "char \<Rightarrow> bool" where
  "re_space c \<longleftrightarrow> c \<in> {CHR 0x09, CHR 0x0A, CHR 0x0C, CHR 0x0D, CHR '' ''}"

text \<open>\<^verbatim>\<open>https?://\<close> followed by at least one of the allowed characters.\<close>

definition http_run :: "(char \<Rightarrow> bool) \<Rightarrow> string \<Rightarrow> bool" where
  "http_run allowed s \<longleftrightarrow>
     list_ex (\<lambda>p. HasPrefix s p \<and> length p < length s \<and> list_all allowed (drop (length p) s)) [''http://'', ''https://'']"

fun markdown_target :: "string \<Rightarrow> string option" where
  "markdown_target [] = None"
| "markdown_target (c # s) =
     (if HasPrefix (c # s) '']('' \<and> tl s \<noteq> [] \<and> last s = CHR '')'' \<and> http_run (\<lambda>c. \<not> re_space c \<and> c \<noteq> CHR '')'') (butlast (tl s))
      then Some (butlast (tl s))
      else if c = CHR 0x0A then None
      else markdown_target s)"

definition markdownLink :: "string \<Rightarrow> string option" where
  "markdownLink s = (case s of c # rest \<Rightarrow> (if c = CHR ''['' then markdown_target rest else None) | [] \<Rightarrow> None)"

definition angleBracket :: "string \<Rightarrow> string option" where
  "angleBracket s =
     (if length s \<ge> 2 \<and> hd s = CHR ''<'' \<and> last s = CHR ''>'' \<and> http_run (\<lambda>c. c \<noteq> CHR ''>'') (butlast (tl s))
      then Some (butlast (tl s)) else None)"

definition domainPrefix :: "string \<Rightarrow> bool" where
  "domainPrefix s \<longleftrightarrow>
     (let host = takeWhile (\<lambda>c. c \<noteq> CHR '':'' \<and> c \<noteq> CHR ''/'') s; rest = drop (length host) s;
          labels = Split host (CHR ''.''); tld = last labels;
          port = (if rest \<noteq> [] \<and> hd rest = CHR '':'' then takeWhile is_digit (tl rest) else []);
          rest1 = (if port \<noteq> [] then drop (length port + 1) rest else rest)
      in length labels \<ge> 2 \<and> list_all (\<lambda>l. l \<noteq> [] \<and> list_all (\<lambda>c. is_letter c \<or> is_digit c \<or> c = CHR ''-'') l) (butlast labels) \<and>
         length tld \<ge> 2 \<and> list_all is_letter tld \<and>
         (rest1 = [] \<or> hd rest1 = CHR ''/'' \<and> CHR 0x0A \<notin> set rest1))"

text \<open>\<^verbatim>\<open>/file/d/([a-zA-Z0-9_-]+)\<close> anywhere in a path.\<close>

fun gdriveFileID :: "string \<Rightarrow> string option" where
  "gdriveFileID [] = None"
| "gdriveFileID (c # s) =
     (let i = takeWhile (\<lambda>c. is_letter c \<or> is_digit c \<or> c = CHR ''_'' \<or> c = CHR ''-'') (drop 7 s)
      in if HasPrefix (c # s) ''/file/d/'' \<and> i \<noteq> [] then Some i else gdriveFileID s)"

text \<open>\<^verbatim>\<open>^/([^/]+)/([^/]+)/M/([^/]+)/(.*)$\<close> with the segments \<open>M\<close> of the site.\<close>

definition blob_parts :: "string list \<Rightarrow> string \<Rightarrow> (string \<times> string \<times> string \<times> string) option" where
  "blob_parts marks p =
     (case Split p (CHR ''/'') of
        e # owner # repo # rest \<Rightarrow>
          (case drop (length marks) rest of
             branch # f # fs \<Rightarrow>
               if e = [] \<and> owner \<noteq> [] \<and> repo \<noteq> [] \<and> take (length marks) rest = marks \<and> branch \<noteq> [] \<and>
                  CHR 0x0A \<notin> set (Join (f # fs) ''/'')
               then Some (owner, repo, branch, Join (f # fs) ''/'') else None
           | _ \<Rightarrow> None)
      | _ \<Rightarrow> None)"

section \<open>Normalisation\<close>

definition quoted :: "string \<Rightarrow> bool" where
  "quoted s \<longleftrightarrow> (\<exists>q \<in> {[CHR 0x22], [CHR 0x27]}. HasPrefix s q \<and> HasSuffix s q)"

definition unwrapRedirects :: "UrlEnv \<Rightarrow> string \<Rightarrow> string" where
  "unwrapRedirects env rawURL =
     (case ue_parse env rawURL of
        None \<Rightarrow> rawURL
      | Some u \<Rightarrow>
          let host = ToLower (ue_uni env) (u_Host u); google = (Contains host ''google.'' \<and> u_Path u = ''/url'');
              trimmed = TrimPrefix (u_RequestURI u) ''/?''
          in if google \<and> u_Query u ''q'' \<noteq> [] then u_Query u ''q''
             else if google \<and> u_Query u ''url'' \<noteq> [] then u_Query u ''url''
             else if Contains host ''href.li'' \<and> (HasPrefix trimmed ''http://'' \<or> HasPrefix trimmed ''https://'') then trimmed
             else rawURL)"

definition unwrapped_input :: "string \<Rightarrow> string" where
  "unwrapped_input s0 =
     (let s1 = (if quoted s0 then TrimSpace (Trim s0 [CHR 0x22, CHR 0x27]) else s0);
          s2 = (case markdownLink s1 of Some t \<Rightarrow> t | None \<Rightarrow> s1)
      in case angleBracket s2 of Some t \<Rightarrow> t | None \<Rightarrow> s2)"

definition with_scheme :: "UrlEnv \<Rightarrow> string \<Rightarrow> string" where
  "with_scheme env s =
     (if \<not> HasPrefix s ''http://'' \<and> \<not> HasPrefix s ''https://'' \<and> \<not> HasPrefix s ''ftp://'' \<and>
         (CHR ''/'' \<in> set s \<or> HasPrefix (ToLower (ue_uni env) s) ''www.'') \<and> domainPrefix s
      then ''https://'' @ s else s)"

definition NormalizeLink :: "UrlEnv \<Rightarrow> string \<Rightarrow> string" where
  "NormalizeLink env input =
     (let s = TrimSpace input in
      if s = [] then []
      else
        let s = unwrapped_input s in
        if HasPrefix s ''magnet:?'' then s else unwrapRedirects env (with_scheme env s))"

definition ExtractBasicAuth :: "UrlEnv \<Rightarrow> string \<Rightarrow> (string \<times> string) option" where
  "ExtractBasicAuth env rawURL =
     (case ue_parse env rawURL of
        None \<Rightarrow> None
      | Some u \<Rightarrow>
          (case u_User u of
             None \<Rightarrow> Some (rawURL, [])
           | Some (username, password) \<Rightarrow>
               Some (ue_without_user env rawURL,
                 ''Basic '' @ base64_encode (map of_char (username @ '':'' @ password)))))"

section \<open>Pages\<close>

definition html_link :: "UrlEnv \<Rightarrow> string \<Rightarrow> string" where
  "html_link env html =
     (case ue_html env MediafireBtn html of
        Some l \<Rightarrow> l
      | None \<Rightarrow>
          (case nonempty (ue_html env MediafireRawCdn html) of
             Some l \<Rightarrow> l
           | None \<Rightarrow>
               (case ue_html env GenericDownloadBtn html of
                  Some l \<Rightarrow> l
                | None \<Rightarrow> (case ue_html env GenericDownloadHref html of Some l \<Rightarrow> l | None \<Rightarrow> []))))"

definition ExtractMediaFireDirectLinkFromHTML :: "UrlEnv \<Rightarrow> string \<Rightarrow> string \<times> string" where
  "ExtractMediaFireDirectLinkFromHTML env html =
     (let directURL = html_link env html;
          title = (case ue_html env MediafireTitle html of
                     None \<Rightarrow> []
                   | Some t \<Rightarrow> (let clean = TrimSpace t in if clean \<noteq> [] \<and> \<not> Contains clean ''MediaFire'' then clean else []));
          filename = (if title = [] \<and> directURL \<noteq> [] then (case ue_parse env directURL of Some u \<Rightarrow> path_Base (u_Path u) | None \<Rightarrow> [])
                      else title)
      in (directURL, filename))"

definition ExtractGoogleDriveConfirmLinkFromHTML :: "UrlEnv \<Rightarrow> string \<Rightarrow> string" where
  "ExtractGoogleDriveConfirmLinkFromHTML env html =
     (case ue_html env GdriveConfirmUrl html of
        Some l \<Rightarrow> replace_amp l
      | None \<Rightarrow> (case ue_html env GdriveConfirm html of Some l \<Rightarrow> ''https://drive.google.com'' @ replace_amp l | None \<Rightarrow> []))"

definition FetchMediaFireDirectLink :: "UrlEnv \<Rightarrow> string \<Rightarrow> (string \<times> string) option" where
  "FetchMediaFireDirectLink env shareURL =
     (if ValidateSafeURL (ue_net env) False shareURL \<noteq> None then None
      else case ue_page env shareURL of
          None \<Rightarrow> None
        | Some (status, body) \<Rightarrow>
            if status < 200 \<or> status \<ge> 400 then None
            else (case body of
                None \<Rightarrow> None
              | Some b \<Rightarrow>
                  (case ExtractMediaFireDirectLinkFromHTML env (string_of_bytes (take (1024 * 1024) b)) of
                     (directURL, filename) \<Rightarrow> if directURL = [] then None else Some (directURL, filename))))"

section \<open>Resolution\<close>

record ResolvedLink =
  rl_OriginalURL :: string
  rl_ResolvedURL :: string
  rl_Domain :: string
  rl_Provider :: string
  rl_ProviderIcon :: string
  rl_Filename :: string
  rl_AuthHeader :: string
  rl_Referer :: string
  rl_Type :: DownloadType
  rl_IsTorrent :: bool

datatype resolution = Resolved ResolvedLink | Unresolvable | ResolvePanic

definition magnet_link :: "UrlEnv \<Rightarrow> string \<Rightarrow> string \<Rightarrow> ResolvedLink" where
  "magnet_link env rawInput norm =
     \<lparr>rl_OriginalURL = rawInput, rl_ResolvedURL = norm, rl_Domain = ''BitTorrent'', rl_Provider = ''BitTorrent Swarm'',
      rl_ProviderIcon = ''zap'',
      rl_Filename = (case ParseMagnetURI (ue_uni env) (ue_values env) norm of
                       Inr m \<Rightarrow> if mi_DisplayName m \<noteq> [] then mi_DisplayName m else ''torrent_download.bin''
                     | Inl _ \<Rightarrow> ''torrent_download.bin''),
      rl_AuthHeader = [], rl_Referer = [], rl_Type = DownloadTypeMagnet, rl_IsTorrent = True\<rparr>"

definition plain_link :: "UrlEnv \<Rightarrow> string \<Rightarrow> string \<Rightarrow> string \<Rightarrow> URL \<Rightarrow> ResolvedLink" where
  "plain_link env rawInput cleanURL authHeader u =
     \<lparr>rl_OriginalURL = rawInput, rl_ResolvedURL = cleanURL, rl_Domain = u_Hostname u, rl_Provider = u_Hostname u,
      rl_ProviderIcon = ''download'', rl_Filename = ParseFilenameFromHeaders env [] cleanURL, rl_AuthHeader = authHeader,
      rl_Referer = [], rl_Type = DownloadTypeDirect, rl_IsTorrent = False\<rparr>"

definition provided :: "string \<Rightarrow> string \<Rightarrow> ResolvedLink \<Rightarrow> ResolvedLink" where
  "provided name icon res = res\<lparr>rl_Provider := name, rl_ProviderIcon := icon\<rparr>"

text \<open>Google Drive. The first eight characters of the id name the file; the slice panics when there are fewer.\<close>

definition gdrive_id :: "URL \<Rightarrow> string" where
  "gdrive_id u = (case gdriveFileID (u_Path u) of Some i \<Rightarrow> i | None \<Rightarrow> u_Query u ''id'')"

definition resolve_gdrive :: "URL \<Rightarrow> ResolvedLink \<Rightarrow> resolution" where
  "resolve_gdrive u res0 =
     (let res = provided ''Google Drive'' ''google'' res0; fileID = gdrive_id u in
      if fileID = [] then Resolved res
      else if length fileID < 8 then ResolvePanic
      else Resolved (res\<lparr>rl_ResolvedURL := ''https://drive.google.com/uc?export=download&id='' @ fileID @ ''&confirm=t'',
                         rl_Filename := ''gdrive_'' @ take 8 fileID @ ''.bin''\<rparr>))"

definition set_query :: "UrlEnv \<Rightarrow> bool \<Rightarrow> string \<Rightarrow> string \<Rightarrow> ResolvedLink \<Rightarrow> ResolvedLink" where
  "set_query env missing key val res = (if missing then res\<lparr>rl_ResolvedURL := ue_with_query env (rl_ResolvedURL res) key val\<rparr> else res)"

definition resolve_blob :: "string list \<Rightarrow> (string \<Rightarrow> string \<Rightarrow> string \<Rightarrow> string \<Rightarrow> string) \<Rightarrow> URL \<Rightarrow> ResolvedLink \<Rightarrow> ResolvedLink option" where
  "resolve_blob marks render u res =
     map_option (\<lambda>(owner, repo, branch, f). res\<lparr>rl_ResolvedURL := render owner repo branch f, rl_Filename := path_Base f\<rparr>)
       (blob_parts marks (u_Path u))"

definition slashed :: "string list \<Rightarrow> string" where
  "slashed ps = Join ps ''/''"

definition resolve_github :: "string \<Rightarrow> URL \<Rightarrow> ResolvedLink \<Rightarrow> ResolvedLink" where
  "resolve_github host u res0 =
     (let res = provided ''GitHub'' ''github'' res0; parts = Split (Trim (u_Path u) ''/'') (CHR ''/'') in
      case resolve_blob [''blob''] (\<lambda>ow r b f. ''https://raw.githubusercontent.com/'' @ slashed [ow, r, b, f]) u res of
        Some r \<Rightarrow> r
      | None \<Rightarrow>
          if HasPrefix host ''gist.github.com'' \<and> length parts \<ge> 2
          then res\<lparr>rl_ResolvedURL := ''https://gist.githubusercontent.com/'' @ slashed [parts ! 0, parts ! 1, ''raw''],
                   rl_Filename := parts ! 1 @ ''.txt''\<rparr>
          else res)"

definition resolve_repo ::
  "string \<Rightarrow> string \<Rightarrow> string list \<Rightarrow> (string \<Rightarrow> string \<Rightarrow> string \<Rightarrow> string \<Rightarrow> string) \<Rightarrow> URL \<Rightarrow> ResolvedLink \<Rightarrow> ResolvedLink" where
  "resolve_repo name icon marks render u res0 =
     (let res = provided name icon res0 in case resolve_blob marks render u res of Some r \<Rightarrow> r | None \<Rightarrow> res)"

definition pastebin_key :: "URL \<Rightarrow> string option" where
  "pastebin_key u =
     (case Split (Trim (u_Path u) ''/'') (CHR ''/'') of [k] \<Rightarrow> (if k \<noteq> [] \<and> k \<noteq> ''raw'' then Some k else None) | _ \<Rightarrow> None)"

text \<open>MediaFire: the key and the name in the path.\<close>

definition mediafire_parts :: "string \<Rightarrow> URL \<Rightarrow> string \<times> string" where
  "mediafire_parts host u =
     (let ps = Split (Trim (u_Path u) ''/'') (CHR ''/'') in
      if HasPrefix host ''download'' then
        (if length ps \<ge> 3 then (ps ! 1, ps ! 2) else if length ps = 2 then (ps ! 0, ps ! 1) else ([], []))
      else if length ps \<ge> 2 \<and> ps ! 0 \<in> {''file'', ''download'', ''file_premium''} then
        (ps ! 1, if length ps \<ge> 3 \<and> ps ! 2 \<noteq> ''file'' then ps ! 2 else [])
      else ([], []))"

definition resolve_mediafire :: "UrlEnv \<Rightarrow> string \<Rightarrow> URL \<Rightarrow> ResolvedLink \<Rightarrow> ResolvedLink" where
  "resolve_mediafire env host u res0 =
     (case mediafire_parts host u of (fileKey, extractedName) \<Rightarrow>
        let res = (provided ''MediaFire'' ''fire'' res0)\<lparr>rl_Referer := ''https://www.mediafire.com/''\<rparr>;
            res = (if extractedName = [] then res
                   else case PathUnescape extractedName of
                       Some n \<Rightarrow> res\<lparr>rl_Filename := CleanFilename n (rl_Filename res)\<rparr>
                     | None \<Rightarrow> res)
        in if HasPrefix host ''download'' \<or> fileKey = [] then res
           else case FetchMediaFireDirectLink env (''https://www.mediafire.com/file/'' @ fileKey @ ''/'') of
               None \<Rightarrow> res
             | Some (directLink, scraped) \<Rightarrow>
                 res\<lparr>rl_ResolvedURL := directLink,
                     rl_Filename := (if scraped \<noteq> [] then CleanFilename scraped (rl_Filename res) else rl_Filename res)\<rparr>)"

definition resolve_host :: "UrlEnv \<Rightarrow> URL \<Rightarrow> ResolvedLink \<Rightarrow> resolution" where
  "resolve_host env u res =
     (let host = ToLower (ue_uni env) (u_Host u) in
      if HasSuffix (ToLower (ue_uni env) (u_Path u)) ''.torrent'' then
        Resolved ((provided ''BitTorrent (.torrent)'' ''zap'' res)\<lparr>rl_IsTorrent := True\<rparr>)
      else if HasSuffix host ''drive.google.com'' \<or> HasSuffix host ''docs.google.com'' then resolve_gdrive u res
      else if HasSuffix host ''dropbox.com'' then
        Resolved (set_query env (u_Query u ''dl'' \<noteq> ''1'') ''dl'' ''1'' (provided ''Dropbox'' ''dropbox'' res))
      else if HasSuffix host ''github.com'' then Resolved (resolve_github host u res)
      else if HasSuffix host ''gitlab.com'' then
        Resolved (resolve_repo ''GitLab'' ''git'' [''-'', ''blob'']
          (\<lambda>ow r b f. ''https://gitlab.com/'' @ slashed [ow, r, ''-'', ''raw'', b, f]) u res)
      else if HasSuffix host ''bitbucket.org'' then
        Resolved (resolve_repo ''Bitbucket'' ''git'' [''src''] (\<lambda>ow r b f. ''https://bitbucket.org/'' @ slashed [ow, r, ''raw'', b, f]) u res)
      else if HasSuffix host ''huggingface.co'' then
        Resolved (resolve_repo ''Hugging Face'' ''box'' [''blob'']
          (\<lambda>ow r b f. ''https://huggingface.co/'' @ slashed [ow, r, ''resolve'', b, f] @ ''?download=true'') u res)
      else if HasSuffix host ''1drv.ms'' \<or> HasSuffix host ''onedrive.live.com'' then
        Resolved (set_query env (u_Query u ''download'' \<noteq> ''1'') ''download'' ''1'' (provided ''OneDrive'' ''cloud'' res))
      else if HasSuffix host ''sourceforge.net'' then
        Resolved (set_query env (HasSuffix (u_Path u) ''/download'' \<and> u_Query u ''use_mirror'' = []) ''use_mirror'' ''autoselect''
          (provided ''SourceForge'' ''download'' res))
      else
        let pastebin = HasSuffix host ''pastebin.com''; res1 = (if pastebin then provided ''Pastebin'' ''code'' res else res) in
        case (if pastebin then pastebin_key u else None) of
          Some k \<Rightarrow> Resolved (res1\<lparr>rl_ResolvedURL := ''https://pastebin.com/raw/'' @ k, rl_Filename := k @ ''.txt''\<rparr>)
        | None \<Rightarrow>
            if HasSuffix host ''archive.org'' then Resolved (provided ''Internet Archive'' ''archive'' res1)
            else if Contains host ''mediafire.com'' then Resolved (resolve_mediafire env host u res1)
            else Resolved res1)"

definition ResolveLink :: "UrlEnv \<Rightarrow> string \<Rightarrow> resolution" where
  "ResolveLink env rawInput =
     (let norm = NormalizeLink env rawInput in
      if norm = [] then Unresolvable
      else if HasPrefix norm ''magnet:?'' then Resolved (magnet_link env rawInput norm)
      else case ExtractBasicAuth env norm of
          None \<Rightarrow> Unresolvable
        | Some (cleanURL, authHeader) \<Rightarrow>
            (case ue_parse env cleanURL of
               None \<Rightarrow> Unresolvable
             | Some u \<Rightarrow> resolve_host env u (plain_link env rawInput cleanURL authHeader u)))"

end
