(* ===== verification/Direct_Transfer.thy ===== *)
theory Direct_Transfer
  imports Link_Resolver Download_Manager
begin

text \<open>
  Direct transfers: \<^verbatim>\<open>internal/download/sniff.go\<close>, \<^verbatim>\<open>direct.go\<close> and \<^verbatim>\<open>prober.go\<close>. The answers of the servers are
  parameters, indexed by the number of the request; the actions of a transfer are those of \<open>Download_Manager\<close>. The retry with
  a link found in a page is a recursion without a bound and is a partial function. \<^verbatim>\<open>http.DetectContentType\<close> is a parameter,
  and so is the printing of floating point numbers.
\<close>

section \<open>Signatures\<close>

definition magicSignatures :: "(nat \<times> bytes \<times> string \<times> string) list" where
  "magicSignatures =
     [(0, [0x25, 0x50, 0x44, 0x46, 0x2d], ''.pdf'', ''application/pdf''),
      (0, [0x50, 0x4b, 0x03, 0x04], ''.zip'', ''application/zip''),
      (0, [0x1f, 0x8b], ''.gz'', ''application/gzip''),
      (0, [0x37, 0x7a, 0xbc, 0xaf, 0x27, 0x1c], ''.7z'', ''application/x-7z-compressed''),
      (0, [0x52, 0x61, 0x72, 0x21, 0x1a, 0x07], ''.rar'', ''application/vnd.rar''),
      (0, [0x89, 0x50, 0x4e, 0x47, 0x0d, 0x0a, 0x1a, 0x0a], ''.png'', ''image/png''),
      (0, [0xff, 0xd8, 0xff], ''.jpg'', ''image/jpeg''),
      (0, bytes_of_string ''GIF87a'', ''.gif'', ''image/gif''),
      (0, bytes_of_string ''GIF89a'', ''.gif'', ''image/gif''),
      (0, bytes_of_string (''SQLite format 3'' @ [CHR 0x00]), ''.sqlite'', ''application/vnd.sqlite3''),
      (0, bytes_of_string ''fLaC'', ''.flac'', ''audio/flac''),
      (0, bytes_of_string ''OggS'', ''.ogg'', ''audio/ogg''),
      (0, bytes_of_string ''ID3'', ''.mp3'', ''audio/mpeg''),
      (4, bytes_of_string ''ftyp'', ''.mp4'', ''video/mp4''),
      (0, [0x1a, 0x45, 0xdf, 0xa3], ''.mkv'', ''video/x-matroska''),
      (0, [0x7f, 0x45, 0x4c, 0x46], ''.elf'', ''application/x-executable''),
      (0, [0x4d, 0x5a], ''.exe'', ''application/x-msdownload''),
      (0, [0x00, 0x61, 0x73, 0x6d], ''.wasm'', ''application/wasm''),
      (257, bytes_of_string ''ustar'', ''.tar'', ''application/x-tar'')]"

definition signed_at :: "bytes \<Rightarrow> nat \<times> bytes \<times> string \<times> string \<Rightarrow> bool" where
  "signed_at buf = (\<lambda>(off, sig, _, _). length buf \<ge> off + length sig \<and> take (length sig) (drop off buf) = sig)"

definition riff_type :: "bytes \<Rightarrow> string \<times> string" where
  "riff_type buf =
     (if length buf \<ge> 12 \<and> prefix (bytes_of_string ''RIFF'') buf then
        (let t = string_of_bytes (take 4 (drop 8 buf)) in
         if t = ''WEBP'' then (''.webp'', ''image/webp'') else if t = ''WAVE'' then (''.wav'', ''audio/wav'') else ([], []))
      else ([], []))"

definition detected :: "(bytes \<Rightarrow> string) \<Rightarrow> bytes \<Rightarrow> string \<times> string" where
  "detected detectContentType buf =
     (case (case find (signed_at buf) magicSignatures of Some (_, _, e, m) \<Rightarrow> (e, m) | None \<Rightarrow> riff_type buf) of
        (e, m) \<Rightarrow>
          (e, if m \<noteq> [] then m
              else let std = detectContentType buf in if std \<noteq> ''application/octet-stream'' then std else []))"

definition generic_exts :: "string list" where
  "generic_exts = [[], ''.bin'', ''.dat'', ''.tmp'', ''.octet-stream'']"

definition SniffMagicBytes ::
  "(string \<Rightarrow> string) \<Rightarrow> (bytes \<Rightarrow> string) \<Rightarrow> bytes \<Rightarrow> string \<Rightarrow> string \<Rightarrow> string \<times> string" where
  "SniffMagicBytes uni detectContentType buf name mime =
     (if buf = [] then (name, mime)
      else case detected detectContentType buf of
          (ext, detectedMime) \<Rightarrow>
            let curExt = ToLower uni (path_Ext name); base = TrimSuffix name curExt
            in (if curExt \<in> set generic_exts \<and> ext \<noteq> [] then (if base = [] then ''download'' else base) @ ext else name,
                if mime \<in> {[], ''application/octet-stream''} \<and> detectedMime \<noteq> [] then detectedMime else mime))"

text \<open>White space and lower case of byte slices, as for strings; \<open>uni\<close> folds what is not ASCII.\<close>

definition IsHTMLPayload :: "(string \<Rightarrow> string) \<Rightarrow> bytes \<Rightarrow> bool" where
  "IsHTMLPayload uni buf \<longleftrightarrow>
     (let lower = ToLower uni (TrimSpace (string_of_bytes buf)) in
      list_ex (HasPrefix lower) [''<!doctype html'', ''<html'', ''<?xml'', ''<head'', ''<body'', ''<script''])"

definition binary_exts :: "string list" where
  "binary_exts =
     [''.zip'', ''.rar'', ''.7z'', ''.tar'', ''.gz'', ''.bz2'', ''.xz'', ''.iso'', ''.dmg'', ''.img'', ''.bin'', ''.exe'', ''.msi'', ''.apk'',
      ''.deb'', ''.rpm'', ''.pdf'', ''.docx'', ''.xlsx'', ''.pptx'', ''.mp4'', ''.mkv'', ''.mp3'', ''.flac'', ''.png'', ''.jpg'', ''.jpeg'',
      ''.gif'', ''.webp'', ''.wasm'', ''.sqlite'', ''.sqlite3'']"

definition IsBinaryExtension :: "(string \<Rightarrow> string) \<Rightarrow> string \<Rightarrow> bool" where
  "IsBinaryExtension uni name \<longleftrightarrow> ToLower uni (path_Ext name) \<in> set binary_exts"

section \<open>The transfer\<close>

text \<open>An answer: status, the URL after redirects, headers, the announced length and what reading the body yields.\<close>

record HttpAnswer =
  ha_Status :: int
  ha_URL :: string
  ha_Header :: "string \<Rightarrow> string"
  ha_Length :: int
  ha_Body :: "src_turn list"
  ha_Truncated :: bool \<comment> \<open>where reading the body fails, it is with \<^verbatim>\<open>io.ErrUnexpectedEOF\<close>\<close>

record DirectEnv =
  de_url :: UrlEnv
  de_detect :: "bytes \<Rightarrow> string"
  de_answer :: "nat \<Rightarrow> string \<Rightarrow> HttpAnswer option" \<comment> \<open>the answer to the request made as the \<open>k\<close>th\<close>
  de_due :: "string option" \<comment> \<open>a report is due after the first bytes\<close>
  de_writeFails :: "nat option" \<comment> \<open>the number of the write that fails\<close>

datatype read_end = Full | Ended | Failed | Broken

text \<open>\<^verbatim>\<open>io.ReadFull\<close> of \<open>n\<close> bytes: what was read, how it ended (in full, with the end of the body, with an error of the
  body, or with the end of the request) and what is left in the body.\<close>

fun read_full :: "nat \<Rightarrow> src_turn list \<Rightarrow> bytes \<times> read_end \<times> src_turn list" where
  "read_full n [] = ([], Broken, [])"
| "read_full n (CtxStop # turns) = ([], Broken, CtxStop # turns)"
| "read_full n (SrcRead p e due # turns) =
     (if n \<le> length p then
        (take n p, Full, if drop n p = [] \<and> e = None then turns else SrcRead (drop n p) e due # turns)
      else case e of
          Some ReadEOF \<Rightarrow> (p, Ended, [SrcRead [] e due])
        | Some ReadFail \<Rightarrow> (p, Failed, [SrcRead [] e due])
        | None \<Rightarrow> (case read_full (n - length p) turns of (q, r, rest) \<Rightarrow> (p @ q, r, rest)))"

definition source_after :: "string option \<Rightarrow> bytes \<Rightarrow> src_turn list \<Rightarrow> src_turn list" where
  "source_after due peek rest = (if peek = [] then rest else SrcRead peek None due # rest)"

definition header_name :: "UrlEnv \<Rightarrow> ResolvedLink \<Rightarrow> HttpAnswer \<Rightarrow> string" where
  "header_name env res a =
     (let name = ParseFilenameFromHeaders env (ha_Header a ''Content-Disposition'') (ha_URL a) in
      if (name = [] \<or> HasPrefix name ''download_'') \<and> rl_Filename res \<noteq> [] \<and> \<not> HasPrefix (rl_Filename res) ''download_''
      then rl_Filename res else name)"

definition header_mime :: "UrlEnv \<Rightarrow> HttpAnswer \<Rightarrow> string" where
  "header_mime env a =
     (let m = ha_Header a ''Content-Type''; m = (if m = [] then ''application/octet-stream'' else m)
      in case ue_mediaType env m of Some (t, _) \<Rightarrow> t | None \<Rightarrow> m)"

definition recovered_link :: "UrlEnv \<Rightarrow> bytes \<Rightarrow> string" where
  "recovered_link env page =
     (let html = string_of_bytes page; l = fst (ExtractMediaFireDirectLinkFromHTML env html)
      in if l = [] then ExtractGoogleDriveConfirmLinkFromHTML env html else l)"

datatype direct_end = DirectDone string string int | DirectFailed | DirectPanic

definition start_stream :: "DirectEnv \<Rightarrow> string \<Rightarrow> string \<Rightarrow> int \<Rightarrow> src_turn list \<Rightarrow> job_act list \<times> direct_end" where
  "start_stream env name mime tot source =
     (case streamWithProgress tot 0 source of
        (acts, r) \<Rightarrow>
          let start = [Meta True name mime tot, Report 0 tot ''Menghubungkan...''] in
          case (case de_writeFails env of None \<Rightarrow> None | Some n \<Rightarrow> cut_write n acts) of
            Some acts' \<Rightarrow> (start @ acts', DirectFailed)
          | None \<Rightarrow> (start @ acts, if r = Some True then DirectDone name mime tot else DirectFailed))"

text \<open>What a page in the place of a file leads to: another link, or an error.\<close>

definition html_in_place :: "DirectEnv \<Rightarrow> ResolvedLink \<Rightarrow> bytes \<Rightarrow> string \<Rightarrow> string \<Rightarrow> bool" where
  "html_in_place env res peek name mime \<longleftrightarrow>
     (let uni = ue_uni (de_url env) in
      peek \<noteq> [] \<and> (HasPrefix mime ''text/html'' \<or> IsHTMLPayload uni peek) \<and>
      (IsBinaryExtension uni name \<or> rl_Filename res \<noteq> [] \<and> IsBinaryExtension uni (rl_Filename res)))"

definition receive :: "DirectEnv \<Rightarrow> ResolvedLink \<Rightarrow> HttpAnswer \<Rightarrow> (job_act list \<times> direct_end) + string" where
  "receive env res a =
     (case read_full 512 (ha_Body a) of
        (peek, r, rest) \<Rightarrow>
          if r = Broken \<or> r = Failed \<and> \<not> ha_Truncated a then Inl ([], DirectFailed)
          else
            case SniffMagicBytes (ue_uni (de_url env)) (de_detect env) peek (header_name (de_url env) res a) (header_mime (de_url env) a) of
              (name, mime) \<Rightarrow>
                if html_in_place env res peek name mime then
                  (let l = recovered_link (de_url env) (peek @ take (1024 * 1024) (stream_bytes rest)) in
                   if l \<noteq> [] \<and> l \<noteq> rl_ResolvedURL res then Inr l else Inl ([], DirectFailed))
                else Inl (start_stream env name mime (ha_Length a) (source_after (de_due env) peek rest)))"

partial_function (option) DownloadDirect :: "DirectEnv \<Rightarrow> nat \<Rightarrow> string \<Rightarrow> (job_act list \<times> direct_end) option" where
  "DownloadDirect env k targetURL =
     (case ResolveLink (de_url env) targetURL of
        Unresolvable \<Rightarrow> Some ([], DirectFailed)
      | ResolvePanic \<Rightarrow> Some ([], DirectPanic)
      | Resolved res \<Rightarrow>
          if ValidateSafeURL (ue_net (de_url env)) False (rl_ResolvedURL res) \<noteq> None then Some ([], DirectFailed)
          else case de_answer env k (rl_ResolvedURL res) of
              None \<Rightarrow> Some ([], DirectFailed)
            | Some a \<Rightarrow>
                if ha_Status a < 200 \<or> ha_Status a \<ge> 300 then Some ([], DirectFailed)
                else (case receive env res a of Inl r \<Rightarrow> Some r | Inr l \<Rightarrow> DownloadDirect env (Suc k) l))"

text \<open>The transfer of a task, as the goroutine goes through it; a panic has no result that anything could handle.\<close>

definition direct_transfer :: "DirectEnv \<Rightarrow> string \<Rightarrow> job_act list option" where
  "direct_transfer env url =
     (case DownloadDirect env 0 url of
        None \<Rightarrow> None
      | Some (acts, DirectPanic) \<Rightarrow> None
      | Some (acts, DirectFailed) \<Rightarrow> Some (acts @ [Returned TransferError])
      | Some (acts, DirectDone name mime tot) \<Rightarrow> Some (acts @ [Returned (DirectResult name mime tot)]))"

section \<open>Probing\<close>

text \<open>The unit of a size: the divisor and the index into the list of units.\<close>

function size_scale :: "int \<Rightarrow> int \<Rightarrow> nat \<Rightarrow> int \<times> nat" where
  "size_scale n d e = (if n < 1024 then (d, e) else size_scale (go_quot n 1024) (wrap64 (d * 1024)) (Suc e))"
  by pat_completeness auto
termination by (relation "measure (\<lambda>(n, d, e). nat n)") (auto simp: go_quot_def)

declare size_scale.simps [simp del]

definition FormatFileSize :: "(int \<Rightarrow> int \<Rightarrow> string) \<Rightarrow> int \<Rightarrow> string option" where
  "FormatFileSize show_ratio n =
     (if n \<le> 0 then Some ''-''
      else if n < 1024 then Some (Itoa n @ '' B'')
      else case size_scale (go_quot n 1024) 1024 0 of
          (d, e) \<Rightarrow>
            let units = [''KB'', ''MB'', ''GB'', ''TB'', ''PB''] in
            if e < length units then Some (show_ratio n d @ '' '' @ units ! e) else None)"

definition ClassifyCategory :: "(string \<Rightarrow> string) \<Rightarrow> string \<Rightarrow> string \<Rightarrow> string" where
  "ClassifyCategory uni name mime =
     (let ext = ToLower uni (path_Ext name); m = ToLower uni mime in
      if HasPrefix m ''image/'' then ''image''
      else if HasPrefix m ''video/'' then ''video''
      else if HasPrefix m ''audio/'' then ''audio''
      else if ext = ''.pdf'' \<or> list_ex (Contains m) [''pdf'', ''word'', ''document'', ''presentation'', ''spreadsheet''] then ''document''
      else if ext \<in> {''.zip'', ''.rar'', ''.7z'', ''.tar'', ''.gz'', ''.bz2'', ''.xz''} \<or>
              list_ex (Contains m) [''zip'', ''compressed'', ''tar'', ''archive''] then ''archive''
      else if ext \<in> {''.iso'', ''.dmg'', ''.img''} then ''disk_image''
      else if ext \<in> {''.exe'', ''.msi'', ''.bin'', ''.apk'', ''.deb'', ''.rpm'', ''.elf''} \<or> Contains m ''executable'' then ''executable''
      else if ext \<in> {''.go'', ''.py'', ''.js'', ''.ts'', ''.html'', ''.css'', ''.json'', ''.yaml'', ''.yml'', ''.sql'', ''.sh''} then ''code''
      else ''file'')"

record ProbeResult =
  pb_URL :: string
  pb_ResolvedURL :: string
  pb_FinalURL :: string
  pb_Type :: DownloadType
  pb_Provider :: string
  pb_ProviderIcon :: string
  pb_Filename :: string
  pb_FileSize :: int
  pb_FormattedSize :: string
  pb_MimeType :: string
  pb_Category :: string
  pb_Resumable :: bool
  pb_StatusCode :: int
  pb_IsTorrent :: bool
  pb_IsBatch :: bool
  pb_BatchCount :: int
  pb_BatchItems :: "string list"

record ProbeEnv =
  pv_url :: UrlEnv
  pv_head :: "string \<Rightarrow> HttpAnswer option"
  pv_get :: "string \<Rightarrow> HttpAnswer option" \<comment> \<open>with the range of the first byte\<close>
  pv_ratio :: "int \<Rightarrow> int \<Rightarrow> string"

datatype probe_end = Probed ProbeResult | ProbeFailed | ProbePanic

definition probe_batch :: "UrlEnv \<Rightarrow> string \<Rightarrow> string list \<Rightarrow> probe_end" where
  "probe_batch env rawURL batch =
     (let found = (\<lambda>provider. Probed
            \<lparr>pb_URL = rawURL, pb_ResolvedURL = hd batch, pb_FinalURL = hd batch, pb_Type = DownloadTypeDirect, pb_Provider = provider,
             pb_ProviderIcon = ''layers'', pb_Filename = ''Batch_'' @ Itoa (int (length batch)) @ ''_items'', pb_FileSize = 0,
             pb_FormattedSize = Itoa (int (length batch)) @ '' berkas'', pb_MimeType = [], pb_Category = ''archive'', pb_Resumable = False,
             pb_StatusCode = 0, pb_IsTorrent = False, pb_IsBatch = True, pb_BatchCount = int (length batch), pb_BatchItems = batch\<rparr>)
      in case ResolveLink env (hd batch) of
           ResolvePanic \<Rightarrow> ProbePanic
         | Unresolvable \<Rightarrow> found ''Batch Downloads''
         | Resolved r \<Rightarrow> found (''Batch ('' @ rl_Provider r @ '')''))"

definition probe_magnet :: "string \<Rightarrow> ResolvedLink \<Rightarrow> ProbeResult" where
  "probe_magnet rawURL r =
     \<lparr>pb_URL = rawURL, pb_ResolvedURL = rl_ResolvedURL r, pb_FinalURL = rl_ResolvedURL r, pb_Type = DownloadTypeMagnet,
      pb_Provider = rl_Provider r, pb_ProviderIcon = rl_ProviderIcon r, pb_Filename = rl_Filename r, pb_FileSize = 0,
      pb_FormattedSize = ''P2P Swarm'', pb_MimeType = [], pb_Category = ''archive'', pb_Resumable = True, pb_StatusCode = 200,
      pb_IsTorrent = True, pb_IsBatch = False, pb_BatchCount = 0, pb_BatchItems = []\<rparr>"

definition probe_answer :: "ProbeEnv \<Rightarrow> string \<Rightarrow> HttpAnswer option" where
  "probe_answer env url =
     (case pv_head env url of
        Some a \<Rightarrow> if ha_Status a \<ge> 400 then pv_get env url else Some a
      | None \<Rightarrow> pv_get env url)"

definition announced_size :: "HttpAnswer \<Rightarrow> int" where
  "announced_size a =
     (case Split (ha_Header a ''Content-Range'') (CHR ''/'') of
        [_, t] \<Rightarrow> if t \<noteq> ''*'' then (case ParseInt t of (n, None) \<Rightarrow> n | (_, Some _) \<Rightarrow> ha_Length a) else ha_Length a
      | _ \<Rightarrow> ha_Length a)"

definition probe_direct :: "ProbeEnv \<Rightarrow> string \<Rightarrow> ResolvedLink \<Rightarrow> HttpAnswer \<Rightarrow> probe_end" where
  "probe_direct env rawURL r a =
     (let name = header_name (pv_url env) r a; mime = header_mime (pv_url env) a; tot = announced_size a in
      case FormatFileSize (pv_ratio env) tot of
        None \<Rightarrow> ProbePanic
      | Some shown \<Rightarrow> Probed
          \<lparr>pb_URL = rawURL, pb_ResolvedURL = rl_ResolvedURL r, pb_FinalURL = ha_URL a, pb_Type = DownloadTypeDirect,
           pb_Provider = rl_Provider r, pb_ProviderIcon = rl_ProviderIcon r, pb_Filename = name, pb_FileSize = tot,
           pb_FormattedSize = shown, pb_MimeType = mime, pb_Category = ClassifyCategory (ue_uni (pv_url env)) name mime,
           pb_Resumable = (fold_ascii (ha_Header a ''Accept-Ranges'') = ''bytes'' \<or> ha_Status a = 206),
           pb_StatusCode = ha_Status a, pb_IsTorrent = rl_IsTorrent r, pb_IsBatch = False, pb_BatchCount = 0, pb_BatchItems = []\<rparr>)"

definition ProbeLink :: "ProbeEnv \<Rightarrow> string \<Rightarrow> probe_end" where
  "ProbeLink env rawURL =
     (let batch = (case ExpandBatchLinks (NormalizeLink (pv_url env)) rawURL of (b, None) \<Rightarrow> b | (_, Some _) \<Rightarrow> []) in
      if length batch > 1 then probe_batch (pv_url env) rawURL batch
      else case ResolveLink (pv_url env) rawURL of
          Unresolvable \<Rightarrow> ProbeFailed
        | ResolvePanic \<Rightarrow> ProbePanic
        | Resolved r \<Rightarrow>
            if rl_Type r = DownloadTypeMagnet then Probed (probe_magnet rawURL r)
            else case probe_answer env (rl_ResolvedURL r) of
                None \<Rightarrow> ProbeFailed
              | Some a \<Rightarrow> probe_direct env rawURL r a)"

section \<open>What a transfer receives\<close>

lemma read_full_bytes:
  assumes "read_full n turns = (peek, r, rest)" "r \<noteq> Broken"
  shows "peek = take n (stream_bytes turns) \<and> peek @ stream_bytes rest = stream_bytes turns \<and> length peek \<le> n \<and>
    (small_reads turns \<longrightarrow> small_reads rest)"
  using assms
proof (induction n turns arbitrary: peek r rest rule: read_full.induct)
  case (3 n p e due turns)
  show ?case
  proof (cases "n \<le> length p")
    case True
    then show ?thesis using "3.prems" by (auto simp: small_reads_def split: if_splits)
  next
    case False
    show ?thesis
    proof (cases e)
      case None
      obtain q r' rest' where q: "read_full (n - length p) turns = (q, r', rest')" by (metis prod_cases3)
      then have "peek = p @ q" "r = r'" "rest = rest'" using "3.prems"(1) False None by auto
      with "3.IH" [OF False None q] "3.prems"(2) False show ?thesis by (auto simp: None small_reads_def)
    next
      case (Some x)
      then show ?thesis using "3.prems" False by (cases x) (auto simp: small_reads_def)
    qed
  qed
qed auto

lemma source_bytes [simp]: "stream_bytes (source_after due peek rest) = peek @ stream_bytes rest"
  by (simp add: source_after_def)

lemma source_small: "length peek \<le> 512 \<Longrightarrow> small_reads rest \<Longrightarrow> small_reads (source_after due peek rest)"
  by (simp add: source_after_def small_reads_def)

definition opening_acts :: "string \<Rightarrow> string \<Rightarrow> int \<Rightarrow> job_act list" where
  "opening_acts name mime tot = [Meta True name mime tot, Report 0 tot ''Menghubungkan...'']"

lemma start_stream_done:
  assumes "start_stream env name mime tot source = (acts, DirectDone name' mime' tot')"
  shows "name' = name \<and> mime' = mime \<and> tot' = tot \<and>
    (\<exists>sacts. streamWithProgress tot 0 source = (sacts, Some True) \<and> acts = opening_acts name mime tot @ sacts)"
proof -
  obtain sacts r where s: "streamWithProgress tot 0 source = (sacts, r)" by (rule prod.exhaust)
  then show ?thesis using assms by (auto simp: start_stream_def opening_acts_def Let_def split: option.splits if_splits)
qed

lemma receive_done:
  assumes "receive env res a = Inl (acts, DirectDone name mime tot)"
  shows "tot = ha_Length a \<and>
    (\<exists>turns sacts. streamWithProgress tot 0 turns = (sacts, Some True) \<and> acts = opening_acts name mime tot @ sacts \<and>
       stream_bytes turns = stream_bytes (ha_Body a) \<and> (small_reads (ha_Body a) \<longrightarrow> small_reads turns)) \<and>
    (IsBinaryExtension (ue_uni (de_url env)) name \<longrightarrow> stream_bytes (ha_Body a) \<noteq> [] \<longrightarrow>
       \<not> HasPrefix mime ''text/html'' \<and> \<not> IsHTMLPayload (ue_uni (de_url env)) (take 512 (stream_bytes (ha_Body a))))"
proof -
  obtain peek r rest where f: "read_full 512 (ha_Body a) = (peek, r, rest)" by (metis prod_cases3)
  obtain n m where n: "SniffMagicBytes (ue_uni (de_url env)) (de_detect env) peek (header_name (de_url env) res a) (header_mime (de_url env) a) = (n, m)"
    by (rule prod.exhaust)
  have r: "r \<noteq> Broken" and h: "\<not> html_in_place env res peek n m"
    and s: "start_stream env n m (ha_Length a) (source_after (de_due env) peek rest) = (acts, DirectDone name mime tot)"
    using assms by (auto simp: receive_def f n Let_def split: if_splits)
  note b = read_full_bytes [OF f r]
  from start_stream_done [OF s] obtain sacts where
    st: "name = n" "mime = m" "tot = ha_Length a" "streamWithProgress tot 0 (source_after (de_due env) peek rest) = (sacts, Some True)"
    "acts = opening_acts name mime tot @ sacts" by auto
  have "peek \<noteq> []" if "stream_bytes (ha_Body a) \<noteq> []" using b that by auto
  then show ?thesis
    using st h b source_small [of peek rest "de_due env"] by (auto simp: html_in_place_def Let_def intro!: exI [of _ "source_after (de_due env) peek rest"])
qed

text \<open>The answer a transfer ended with.\<close>

definition answered_by :: "DirectEnv \<Rightarrow> job_act list \<times> direct_end \<Rightarrow> bool" where
  "answered_by env y \<longleftrightarrow>
     (\<exists>k u res a. de_answer env k u = Some a \<and> ValidateSafeURL (ue_net (de_url env)) False u = None \<and>
        200 \<le> ha_Status a \<and> ha_Status a < 300 \<and> receive env res a = Inl y)"

lemma DownloadDirect_answered:
  assumes "DownloadDirect env k url = Some (acts, DirectDone name mime tot)"
  shows "answered_by env (acts, DirectDone name mime tot)"
proof -
  let ?P = "\<lambda>env (k :: nat) (url :: string) y. (\<exists>n m t. snd y = DirectDone n m t) \<longrightarrow> answered_by env y"
  have "?P env k url (acts, DirectDone name mime tot)"
  proof (rule DownloadDirect.raw_induct [where P = ?P, OF _ assms], rule impI)
    fix loop env k url and y :: "job_act list \<times> direct_end"
    assume IH: "\<And>env k url y. loop env k url = Some y \<Longrightarrow> ?P env k url y"
      and step: "(case ResolveLink (de_url env) url of
         Resolved res \<Rightarrow>
           if ValidateSafeURL (ue_net (de_url env)) False (rl_ResolvedURL res) \<noteq> None then Some ([], DirectFailed)
           else (case de_answer env k (rl_ResolvedURL res) of
               None \<Rightarrow> Some ([], DirectFailed)
             | Some a \<Rightarrow>
                 if ha_Status a < 200 \<or> ha_Status a \<ge> 300 then Some ([], DirectFailed)
                 else (case receive env res a of Inl r \<Rightarrow> Some r | Inr l \<Rightarrow> loop env (Suc k) l))
         | Unresolvable \<Rightarrow> Some ([], DirectFailed) | ResolvePanic \<Rightarrow> Some ([], DirectPanic)) = Some y"
      and d: "\<exists>n m t. snd y = DirectDone n m t"
    have nf: "y \<noteq> ([], DirectFailed)" "y \<noteq> ([], DirectPanic)" using d by auto
    obtain res where res: "ResolveLink (de_url env) url = Resolved res" using step nf by (cases "ResolveLink (de_url env) url") auto
    obtain a where a: "ValidateSafeURL (ue_net (de_url env)) False (rl_ResolvedURL res) = None"
      "de_answer env k (rl_ResolvedURL res) = Some a" "200 \<le> ha_Status a" "ha_Status a < 300"
      using step nf by (auto simp: res split: if_splits option.splits)
    show "answered_by env y"
    proof (cases "receive env res a")
      case (Inl r)
      then have "r = y" using step a by (simp add: res)
      then show ?thesis using a Inl unfolding answered_by_def by blast
    next
      case (Inr l)
      then have "loop env (Suc k) l = Some y" using step a by (simp add: res)
      then show ?thesis using IH d by blast
    qed
  qed
  then show ?thesis by simp
qed

lemma meta_run:
  assumes F: "fetching i key used custom x dm0 dm"
  shows "fetching i key used custom x dm0 (job_step env i (Meta d f m t) dm)"
proof -
  obtain j where j: "dm_jobs dm i = Some j" "jb_phase j = Transferring" and I: "dm_inv dm"
    using F by (auto simp: fetching_def)
  have eq: "job_step env i (Meta d f m t) dm = on_meta d f m t i j dm" using j by (simp add: job_step_def transfer_act_def)
  have "dm_inv (on_meta d f m t i j dm)"
    using job_transfer_inv [OF I j, of "Meta d f m t" env] by (simp add: act_ok_def transfer_act_def)
  then show ?thesis unfolding eq using F j by (auto simp: fetching_def on_meta_def set_task_def)
qed

lemma received_run:
  assumes F: "fetching i key used custom [] dm0 dm" and a: "receive denv res a = Inl (acts, DirectDone name mime tot)"
    and ok: "small_reads (ha_Body a)" "within_quota used (int (length (stream_bytes (ha_Body a)))) dm0"
  shows "fetching i key used custom (stream_bytes (ha_Body a)) dm0 (fold (job_step env i) acts dm) \<and>
    tk_DownloadedBytes (dm_objs (fold (job_step env i) acts dm) i) = int (length (stream_bytes (ha_Body a)))"
proof -
  obtain turns sacts where t: "streamWithProgress tot 0 turns = (sacts, Some True)" "acts = opening_acts name mime tot @ sacts"
    "stream_bytes turns = stream_bytes (ha_Body a)" "small_reads turns"
    using receive_done [OF a] ok(1) by blast
  let ?dm = "fold (job_step env i) (opening_acts name mime tot) dm"
  have "fetching i key used custom [] dm0 ?dm"
    using report_run(1) [OF meta_run [OF F] ok(2), where d = 0] by (simp add: opening_acts_def)
  from stream_run [where x = "[]", OF _ t(4) this] t ok(2) show ?thesis by simp
qed

section \<open>Properties\<close>

text \<open>C7: a direct download is stored as it was sent. When the transfer of a task ends well, within the quota of its owner
  (usage and body together, where a quota is configured) and with no other blob of the same SHA-256 as the encrypted
  body in the store, there is an answer, with a status
  of success and from an address that passed the checks, whose whole body is what the blob of the new row decrypts to; the row
  has its length and its SHA-256, and the task is completed.\<close>

theorem direct_transfer_stored:
  assumes "dm_inv dm" "dm_jobs dm i = Some j" "jb_phase j = NotStarted isVault vk" "calm jenv" "je_fails jenv = no_faults"
    and "job_key jenv isVault vk = Some key" "aes_NewCipher key \<noteq> None"
    and "used = GetUserStorageUsed (tk_OwnerID (dm_objs dm i)) (dm_files dm)" "dm_QuotaBytes dm > 0 \<longrightarrow> used < dm_QuotaBytes dm"
    and "DownloadDirect denv 0 url = Some (acts, DirectDone name mime tot)"
    and "\<And>k u a. de_answer denv k u = Some a \<Longrightarrow> small_reads (ha_Body a) \<and>
           within_quota used (int (length (stream_bytes (ha_Body a)))) dm \<and> no_twin key (stream_bytes (ha_Body a)) dm"
  shows "\<exists>transfer k u a x. direct_transfer denv url = Some transfer \<and> de_answer denv k u = Some a \<and> 200 \<le> ha_Status a \<and>
    ha_Status a < 300 \<and> ValidateSafeURL (ue_net (de_url denv)) False u = None \<and> x = stream_bytes (ha_Body a) \<and>
    (let dm' = executeDownload jenv transfer i dm in
     tk_Status (dm_objs dm' i) = StatusCompleted \<and>
     (\<exists>row. dm_files dm' = dm_files dm @ [row] \<and> f_owner row = tk_OwnerID (dm_objs dm i) \<and> f_size row = int (length x) \<and>
        f_plain row = hash_of x \<and> f_cas row = tk_CasHash (dm_objs dm' i) \<and> stored key x (f_cas row) dm'))"
proof -
  obtain k u res a where a: "de_answer denv k u = Some a" "ValidateSafeURL (ue_net (de_url denv)) False u = None"
    "200 \<le> ha_Status a" "ha_Status a < 300" "receive denv res a = Inl (acts, DirectDone name mime tot)"
    using DownloadDirect_answered [OF assms(10)] by (auto simp: answered_by_def)
  let ?x = "stream_bytes (ha_Body a)" and ?r = "DirectResult name mime tot"
  have ok: "small_reads (ha_Body a)" "within_quota used (int (length ?x)) dm" "no_twin key ?x dm" using assms(11) [OF a(1)] by simp_all
  have t: "direct_transfer denv url = Some (acts @ [Returned ?r])" by (simp add: direct_transfer_def assms(10))
  have "fetching i key used (jb_custom j) [] dm (job_step jenv i Begin dm)" by (rule begin_run [OF assms(1-9)])
  note F = received_run [OF this a(5) ok(1,2), of jenv]
  from transfer_stored [OF conjunct1 [OF F] _ ok(3) assms(4,5) refl, of ?r] F a t show ?thesis
    unfolding Let_def by (intro exI [of _ "acts @ [Returned ?r]"] exI [of _ k] exI [of _ u] exI [of _ a] exI [of _ ?x]) simp
qed

text \<open>C37: a page is not taken for a file. When a direct transfer, which is not an accelerated one, ends well and has settled
  on a name that promises an archive, a program, a document or a medium, the bytes it passed on, the whole body of an
  answer with a status of success, do not begin like an HTML or XML page, whatever the server said about their type.\<close>

theorem page_not_taken_for_file:
  assumes "DownloadDirect env k url = Some (acts, DirectDone name mime tot)" "IsBinaryExtension (ue_uni (de_url env)) name"
  shows "\<not> IsHTMLPayload (ue_uni (de_url env)) (take 512 (wrote acts)) \<and>
    (\<exists>k' u a. de_answer env k' u = Some a \<and> ValidateSafeURL (ue_net (de_url env)) False u = None \<and>
       200 \<le> ha_Status a \<and> ha_Status a < 300 \<and> tot = ha_Length a \<and> wrote acts = stream_bytes (ha_Body a))"
proof -
  obtain k' u res a where a: "de_answer env k' u = Some a" "ValidateSafeURL (ue_net (de_url env)) False u = None"
    "200 \<le> ha_Status a" "ha_Status a < 300" "receive env res a = Inl (acts, DirectDone name mime tot)"
    using DownloadDirect_answered [OF assms(1)] by (auto simp: answered_by_def)
  obtain turns sacts where t: "streamWithProgress tot 0 turns = (sacts, Some True)" "acts = opening_acts name mime tot @ sacts"
    "stream_bytes turns = stream_bytes (ha_Body a)"
    using receive_done [OF a(5)] by blast
  have w: "wrote acts = stream_bytes (ha_Body a)" using wrote_stream [of tot 0 turns] t by (simp add: opening_acts_def)
  have "\<not> IsHTMLPayload uni []" for uni
    by (simp add: IsHTMLPayload_def string_of_bytes_def TrimSpace_def strip_seqs.simps ToLower_def is_ascii_def Let_def)
  then have "\<not> IsHTMLPayload (ue_uni (de_url env)) (take 512 (stream_bytes (ha_Body a)))"
    using receive_done [OF a(5)] assms(2) by (cases "stream_bytes (ha_Body a) = []") auto
  with a w receive_done [OF a(5)] show ?thesis by auto
qed

lemma size_scale_unit:
  assumes "0 \<le> n" "n < 1024 ^ Suc m"
  shows "snd (size_scale n d e) \<le> e + m"
  using assms
proof (induction m arbitrary: n d e)
  case 0
  then show ?case by (subst size_scale.simps) simp
next
  case (Suc m)
  show ?case
  proof (cases "n < 1024")
    case False
    have "go_quot n 1024 = n div 1024" using Suc.prems(1) by (simp add: go_quot_def)
    then have "snd (size_scale (go_quot n 1024) (wrap64 (d * 1024)) (Suc e)) \<le> Suc e + m"
      using Suc.prems by (intro Suc.IH) (auto simp: div_less_iff_less_mult zdiv_mono1)
    then show ?thesis using False by (subst size_scale.simps) simp
  qed (subst size_scale.simps, simp)
qed

lemma size_scale_mono: "e \<le> snd (size_scale n d e)"
  by (induction n d e rule: size_scale.induct) (subst size_scale.simps, auto dest: Suc_leD)

lemma size_scale_above:
  assumes "1024 ^ m \<le> n"
  shows "e + m \<le> snd (size_scale n d e)"
  using assms
proof (induction m arbitrary: n d e)
  case (Suc m)
  have "1024 * 1 \<le> 1024 * (1024 :: int) ^ m" by (rule mult_left_mono) simp_all
  then have n: "1024 \<le> n" using Suc.prems unfolding power_Suc by linarith
  then have "go_quot n 1024 = n div 1024" by (simp add: go_quot_def)
  moreover have "1024 ^ m \<le> n div 1024" using zdiv_mono1 [OF Suc.prems, of 1024] by simp
  ultimately have "Suc e + m \<le> snd (size_scale (go_quot n 1024) (wrap64 (d * 1024)) (Suc e))" by (intro Suc.IH) simp
  then show ?case using n by (subst size_scale.simps) simp
qed (simp add: size_scale_mono)

lemma FormatFileSize_None: "FormatFileSize show_ratio n = None \<longleftrightarrow> 2 ^ 60 \<le> n"
proof (cases "n < 1024")
  case True
  then show ?thesis by (simp add: FormatFileSize_def)
next
  case False
  have q: "go_quot n 1024 = n div 1024" using False by (simp add: go_quot_def)
  obtain d e where s: "size_scale (n div 1024) 1024 0 = (d, e)" by (rule prod.exhaust)
  have "FormatFileSize show_ratio n = None \<longleftrightarrow> 5 \<le> e" using False by (simp add: FormatFileSize_def q s Let_def)
  moreover have "5 \<le> e" if "2 ^ 60 \<le> n"
  proof -
    have "1024 ^ 5 \<le> n div 1024" using zdiv_mono1 [OF that, of 1024] by simp
    from size_scale_above [OF this, of 0 1024] s show ?thesis by simp
  qed
  moreover have "e \<le> 4" if "n < 2 ^ 60"
  proof -
    have "n div 1024 < 1024 ^ Suc 4" using that by (simp add: div_less_iff_less_mult)
    from size_scale_unit [OF _ this, of 1024 0] False s show ?thesis by simp
  qed
  ultimately show ?thesis by (cases "2 ^ 60 \<le> n") (simp, linarith)
qed

text \<open>C40: when probing a link panics. A batch of links panics exactly when the resolution of its first link does. A single
  link panics exactly when its resolution does (a Google Drive id of less than eight characters), or when it resolves to a
  direct link whose answer announces 2 to the 60 bytes or more: the list of units ends with the petabyte. The goroutine
  of a download runs the probe without recovering.\<close>

theorem probe_panics_from_exabyte:
  "ProbeLink env url = ProbePanic \<longleftrightarrow>
     (let batch = (case ExpandBatchLinks (NormalizeLink (pv_url env)) url of (b, None) \<Rightarrow> b | (_, Some _) \<Rightarrow> []) in
      if length batch > 1 then ResolveLink (pv_url env) (hd batch) = ResolvePanic
      else case ResolveLink (pv_url env) url of
          ResolvePanic \<Rightarrow> True
        | Unresolvable \<Rightarrow> False
        | Resolved r \<Rightarrow> rl_Type r = DownloadTypeDirect \<and>
            (\<exists>a. probe_answer env (rl_ResolvedURL r) = Some a \<and> 2 ^ 60 \<le> announced_size a))"
proof -
  have "probe_batch penv url batch = ProbePanic \<longleftrightarrow> ResolveLink penv (hd batch) = ResolvePanic" for penv batch
    by (simp add: probe_batch_def Let_def split: resolution.splits)
  moreover have "probe_direct env url r a = ProbePanic \<longleftrightarrow> 2 ^ 60 \<le> announced_size a" for r a
    using FormatFileSize_None [of "pv_ratio env" "announced_size a"] by (auto simp: probe_direct_def Let_def split: option.splits)
  moreover have "ty = DownloadTypeMagnet \<longleftrightarrow> ty \<noteq> DownloadTypeDirect" for ty by (cases ty) simp_all
  ultimately show ?thesis unfolding ProbeLink_def by (simp add: Let_def split: resolution.splits option.splits)
qed

text \<open>A page in the place of a file leads to another link.\<close>

definition leads_to :: "DirectEnv \<Rightarrow> nat \<Rightarrow> string \<Rightarrow> string \<Rightarrow> bool" where
  "leads_to env k url l \<longleftrightarrow>
     (case ResolveLink (de_url env) url of
        Resolved res \<Rightarrow>
          ValidateSafeURL (ue_net (de_url env)) False (rl_ResolvedURL res) = None \<and>
          (case de_answer env k (rl_ResolvedURL res) of
             Some a \<Rightarrow> 200 \<le> ha_Status a \<and> ha_Status a < 300 \<and> receive env res a = Inr l
           | None \<Rightarrow> False)
      | _ \<Rightarrow> False)"

lemma DownloadDirect_leads: "leads_to env k url l \<Longrightarrow> DownloadDirect env k url = DownloadDirect env (Suc k) l"
  by (subst DownloadDirect.simps) (auto simp: leads_to_def split: resolution.splits option.splits)

text \<open>a server can bring the process down. When it answers the request for a file with a page that links to a Google Drive id of less
  than eight characters, the link is followed, the file name is cut from the id, and the slice panics in the goroutine of the download.\<close>

theorem hostile_page_panics:
  assumes "leads_to env 0 url l" "ResolveLink (de_url env) l = ResolvePanic"
  shows "DownloadDirect env 0 url = Some ([], DirectPanic) \<and> direct_transfer env url = None"
proof -
  have "DownloadDirect env 0 url = Some ([], DirectPanic)"
    unfolding DownloadDirect_leads [OF assms(1)] by (subst DownloadDirect.simps) (simp add: assms(2))
  then show ?thesis by (simp add: direct_transfer_def)
qed

text \<open>pages that lead to each other keep a download running for ever: the retry keeps no count.\<close>

theorem pages_in_a_circle:
  assumes "\<And>k. leads_to env k (page k) (page (Suc k))"
  shows "DownloadDirect env 0 (page 0) = None"
proof -
  let ?P = "\<lambda>env' k url (y :: job_act list \<times> direct_end). \<not> (env' = env \<and> url = page k)"
  have "\<not> (env = env \<and> page 0 = page 0)" if "DownloadDirect env 0 (page 0) = Some y" for y
  proof (rule DownloadDirect.raw_induct [where P = ?P, OF _ that], rule notI)
    fix loop env' k url and y :: "job_act list \<times> direct_end"
    assume IH: "\<And>env k url y. loop env k url = Some y \<Longrightarrow> ?P env k url y"
      and step: "(case ResolveLink (de_url env') url of
         Resolved res \<Rightarrow>
           if ValidateSafeURL (ue_net (de_url env')) False (rl_ResolvedURL res) \<noteq> None then Some ([], DirectFailed)
           else (case de_answer env' k (rl_ResolvedURL res) of
               None \<Rightarrow> Some ([], DirectFailed)
             | Some a \<Rightarrow>
                 if ha_Status a < 200 \<or> ha_Status a \<ge> 300 then Some ([], DirectFailed)
                 else (case receive env' res a of Inl r \<Rightarrow> Some r | Inr l \<Rightarrow> loop env' (Suc k) l))
         | Unresolvable \<Rightarrow> Some ([], DirectFailed) | ResolvePanic \<Rightarrow> Some ([], DirectPanic)) = Some y"
      and here: "env' = env \<and> url = page k"
    have "loop env (Suc k) (page (Suc k)) = Some y"
      using step here assms [of k] by (auto simp: leads_to_def split: resolution.splits option.splits)
    then show False using IH by blast
  qed
  then show ?thesis by (cases "DownloadDirect env 0 (page 0)") auto
qed

section \<open>Concrete transfers\<close>

definition ex_host :: "string \<Rightarrow> string \<Rightarrow> string \<Rightarrow> URL" where
  "ex_host h p i = \<lparr>u_User = None, u_Host = h, u_Hostname = h, u_Path = p, u_Query = (\<lambda>k. if k = ''id'' then i else []), u_RequestURI = p\<rparr>"

definition ex_drive_link :: string where
  "ex_drive_link = ''https://drive.google.com/uc?export=download&id=x''"

text \<open>A site with two files; \<open>link\<close> says what the pages in their place link to.\<close>

definition ex_web :: "(string \<Rightarrow> string option) \<Rightarrow> UrlEnv" where
  "ex_web link =
     \<lparr>ue_uni = id,
      ue_parse = (\<lambda>u. Some (if u = ex_drive_link then ex_host ''drive.google.com'' ''/uc'' ''x''
                            else if u = ''http://a.net/2.zip'' then ex_host ''a.net'' ''/2.zip'' [] else ex_host ''a.net'' ''/1.zip'' [])),
      ue_without_user = id, ue_with_query = (\<lambda>u _ _. u), ue_values = (\<lambda>_. None), ue_mediaType = (\<lambda>_. None), ue_now = 0,
      ue_html = (\<lambda>p html. if p = GdriveConfirmUrl then link html else None),
      ue_net = \<lparr>ne_url = (\<lambda>_. Some (''http'', ''a.net'')), ne_lookupIP = (\<lambda>_. Some [[8, 8, 8, 8]]), ne_AllowPrivateNetworks = False, ne_uni = id\<rparr>,
      ue_page = (\<lambda>_. None)\<rparr>"

definition ex_site :: "(string \<Rightarrow> string option) \<Rightarrow> (string \<Rightarrow> string) \<Rightarrow> DirectEnv" where
  "ex_site link body =
     \<lparr>de_url = ex_web link, de_detect = (\<lambda>_. ''application/octet-stream''),
      de_answer = (\<lambda>k u. Some \<lparr>ha_Status = 200, ha_URL = u, ha_Header = (\<lambda>_. []), ha_Length = -1,
                              ha_Body = [SrcRead (bytes_of_string (body u)) (Some ReadEOF) None], ha_Truncated = False\<rparr>),
      de_due = None, de_writeFails = None\<rparr>"

lemma ex_parse:
  "ue_parse (ex_web link) ''http://a.net/1.zip'' = Some (ex_host ''a.net'' ''/1.zip'' [])"
  "ue_parse (ex_web link) ''http://a.net/2.zip'' = Some (ex_host ''a.net'' ''/2.zip'' [])"
  "ue_parse (ex_web link) ex_drive_link = Some (ex_host ''drive.google.com'' ''/uc'' ''x'')"
  "u_User (ex_host h p i) = None"
  by (simp_all add: ex_web_def ex_drive_link_def ex_host_def)

lemma ex_norm:
  "NormalizeLink (ex_web link) ''http://a.net/1.zip'' = ''http://a.net/1.zip''"
  "NormalizeLink (ex_web link) ''http://a.net/2.zip'' = ''http://a.net/2.zip''"
  "NormalizeLink (ex_web link) ex_drive_link = ex_drive_link"
  by code_simp+

lemma ex_name:
  "ParseFilenameFromHeaders (ex_web link) [] ''http://a.net/1.zip'' = ''1.zip''"
  "ParseFilenameFromHeaders (ex_web link) [] ''http://a.net/2.zip'' = ''2.zip''"
  by code_simp+

lemma ex_resolve_host:
  "resolve_host (ex_web link) (ex_host ''a.net'' ''/1.zip'' []) res = Resolved res"
  "resolve_host (ex_web link) (ex_host ''a.net'' ''/2.zip'' []) res = Resolved res"
  "resolve_host (ex_web link) (ex_host ''drive.google.com'' ''/uc'' ''x'') res = ResolvePanic"
  by code_simp+

text \<open>The link to a file resolves to itself, the link to the short id panics.\<close>

definition ex_target :: "(string \<Rightarrow> string option) \<Rightarrow> string \<Rightarrow> ResolvedLink" where
  "ex_target link u = plain_link (ex_web link) u u [] (the (ue_parse (ex_web link) u))"

lemma ex_resolve:
  "ResolveLink (ex_web link) ''http://a.net/1.zip'' = Resolved (ex_target link ''http://a.net/1.zip'')"
  "ResolveLink (ex_web link) ''http://a.net/2.zip'' = Resolved (ex_target link ''http://a.net/2.zip'')"
  "ResolveLink (ex_web link) ex_drive_link = ResolvePanic"
proof -
  have "ex_drive_link \<noteq> []" "\<not> HasPrefix ex_drive_link ''magnet:?''" by (simp_all add: ex_drive_link_def)
  then show "ResolveLink (ex_web link) ex_drive_link = ResolvePanic"
    by (simp add: ResolveLink_def ExtractBasicAuth_def Let_def ex_norm ex_parse ex_resolve_host)
qed (simp_all add: ResolveLink_def ExtractBasicAuth_def Let_def ex_norm ex_parse ex_resolve_host ex_target_def)

lemma ex_safe: "ValidateSafeURL (ue_net (ex_web link)) False u = None"
proof -
  have "check_host (ue_net (ex_web link)) ''a.net'' = None" by (simp add: ex_web_def) code_simp
  then show ?thesis by (simp add: ValidateSafeURL_def ex_web_def ToLower_def is_ascii_def lower_char_def) 
qed

definition ex_answer :: "(string \<Rightarrow> string) \<Rightarrow> string \<Rightarrow> HttpAnswer" where
  "ex_answer body u =
     \<lparr>ha_Status = 200, ha_URL = u, ha_Header = (\<lambda>_. []), ha_Length = -1,
      ha_Body = [SrcRead (bytes_of_string (body u)) (Some ReadEOF) None], ha_Truncated = False\<rparr>"

lemma ex_site_sel [simp]:
  "de_url (ex_site link body) = ex_web link" "de_answer (ex_site link body) k u = Some (ex_answer body u)"
  "ha_Status (ex_answer body u) = 200" "rl_ResolvedURL (ex_target link u) = u"
  by (simp_all add: ex_site_def ex_answer_def ex_target_def plain_link_def)

lemma ex_header:
  assumes "u \<in> {''http://a.net/1.zip'', ''http://a.net/2.zip''}"
  shows "header_name (ex_web link) res (ex_answer body u) \<in> {''1.zip'', ''2.zip''}"
    "header_mime (ex_web link) (ex_answer body u) = ''application/octet-stream''"
  using assms ex_name [of link] by (auto simp: header_name_def header_mime_def ex_answer_def Let_def) (simp_all add: ex_web_def)

lemma ex_sniff:
  assumes "name \<in> {''1.zip'', ''2.zip''}" "b \<in> {''<html>1'', ''<html>2''}"
  shows "SniffMagicBytes id (\<lambda>_. ''application/octet-stream'') (bytes_of_string b) name ''application/octet-stream'' =
      (name, ''application/octet-stream'')"
    "IsHTMLPayload id (bytes_of_string b)" "IsBinaryExtension id name"
proof -
  show "SniffMagicBytes id (\<lambda>_. ''application/octet-stream'') (bytes_of_string b) name ''application/octet-stream'' =
      (name, ''application/octet-stream'')"
    using assms by (elim insertE emptyE; hypsubst) code_simp+
  show "IsHTMLPayload id (bytes_of_string b)" using assms(2) by (elim insertE emptyE; hypsubst) code_simp+
  show "IsBinaryExtension id name" using assms(1) by (elim insertE emptyE; hypsubst) code_simp+
qed

lemma ex_receive_page:
  assumes u: "u \<in> {''http://a.net/1.zip'', ''http://a.net/2.zip''}" and b: "body u \<in> {''<html>1'', ''<html>2''}"
    and l: "link (body u) = Some l" "replace_amp l = l" "l \<noteq> []" "l \<noteq> u"
  shows "receive (ex_site link body) (ex_target link u) (ex_answer body u) = Inr l"
proof -
  let ?p = "bytes_of_string (body u)" and ?a = "ex_answer body u"
  have "length (body u) = 7" using b by (elim insertE emptyE) simp_all
  then have "length ?p = 7" by simp
  then have "length ?p < 512" "?p \<noteq> []" by (simp_all flip: length_0_conv)
  then have f: "read_full 512 (ha_Body ?a) = (?p, Ended, [SrcRead [] (Some ReadEOF) None])" by (simp add: ex_answer_def)
  obtain name where name: "header_name (ex_web link) (ex_target link u) ?a = name" "name \<in> {''1.zip'', ''2.zip''}"
    using ex_header(1) [OF u] by blast
  have uni: "ue_uni (ex_web link) = id" "de_detect (ex_site link body) = (\<lambda>_. ''application/octet-stream'')"
    by (simp_all add: ex_web_def ex_site_def)
  have h: "html_in_place (ex_site link body) (ex_target link u) ?p name ''application/octet-stream''"
    using ex_sniff [OF name(2) b] \<open>?p \<noteq> []\<close> by (simp add: html_in_place_def uni Let_def)
  have "fst (ExtractMediaFireDirectLinkFromHTML (ex_web link) (body u)) = []"
    by (simp add: ExtractMediaFireDirectLinkFromHTML_def html_link_def nonempty_def ex_web_def Let_def)
  then have "recovered_link (ex_web link) ?p = l"
    using l by (simp add: recovered_link_def ExtractGoogleDriveConfirmLinkFromHTML_def Let_def) (simp add: ex_web_def)
  then show ?thesis
    using l ex_sniff(1) [OF name(2) b] h
    by (simp add: receive_def f name(1) ex_header(2) [OF u] uni Let_def)
qed

theorem hostile_page_panics_witness:
  "direct_transfer (ex_site (\<lambda>_. Some ex_drive_link) (\<lambda>_. ''<html>1'')) ''http://a.net/1.zip'' = None"
proof -
  let ?env = "ex_site (\<lambda>_. Some ex_drive_link) (\<lambda>_. ''<html>1'')" and ?u = "''http://a.net/1.zip''"
  have "receive ?env (ex_target (\<lambda>_. Some ex_drive_link) ?u) (ex_answer (\<lambda>_. ''<html>1'') ?u) = Inr ex_drive_link"
  proof (rule ex_receive_page)
    show "replace_amp ex_drive_link = ex_drive_link" by code_simp
  qed (simp_all add: ex_drive_link_def)
  then have "leads_to ?env 0 ?u ex_drive_link"
    by (simp add: leads_to_def ex_resolve ex_safe)
  from hostile_page_panics [OF this] show ?thesis by (simp add: ex_resolve)
qed

text \<open>Two pages, each of which links to the other file.\<close>

definition ex_page :: "nat \<Rightarrow> string" where
  "ex_page k = (if even k then ''http://a.net/1.zip'' else ''http://a.net/2.zip'')"

definition ex_circle :: DirectEnv where
  "ex_circle =
     ex_site (\<lambda>html. Some (if html = ''<html>1'' then ''http://a.net/2.zip'' else ''http://a.net/1.zip''))
       (\<lambda>u. if u = ''http://a.net/1.zip'' then ''<html>1'' else ''<html>2'')"

theorem pages_in_a_circle_witness: "DownloadDirect ex_circle 0 ''http://a.net/1.zip'' = None"
proof -
  let ?link = "\<lambda>html. Some (if html = ''<html>1'' then ''http://a.net/2.zip'' else ''http://a.net/1.zip'')"
  let ?body = "\<lambda>u. if u = ''http://a.net/1.zip'' then ''<html>1'' else ''<html>2''"
  have amp: "replace_amp ''http://a.net/1.zip'' = ''http://a.net/1.zip''" "replace_amp ''http://a.net/2.zip'' = ''http://a.net/2.zip''"
    by code_simp+
  have "leads_to ex_circle k (ex_page k) (ex_page (Suc k))" for k
  proof (cases "even k")
    case True
    have "receive (ex_site ?link ?body) (ex_target ?link ''http://a.net/1.zip'') (ex_answer ?body ''http://a.net/1.zip'') = Inr ''http://a.net/2.zip''"
      by (rule ex_receive_page) (simp_all add: amp)
    then show ?thesis using True by (simp add: leads_to_def ex_circle_def ex_page_def ex_resolve ex_safe)
  next
    case False
    have "receive (ex_site ?link ?body) (ex_target ?link ''http://a.net/2.zip'') (ex_answer ?body ''http://a.net/2.zip'') = Inr ''http://a.net/1.zip''"
      by (rule ex_receive_page) (simp_all add: amp)
    then show ?thesis using False by (simp add: leads_to_def ex_circle_def ex_page_def ex_resolve ex_safe)
  qed
  from pages_in_a_circle [where page = ex_page, OF this] show ?thesis by (simp add: ex_page_def)
qed

text \<open>A file of one byte.\<close>

lemma ex_received:
  "DownloadDirect (ex_site link (\<lambda>_. ''x'')) 0 ''http://a.net/1.zip'' =
     Some (opening_acts ''1.zip'' ''application/octet-stream'' (-1) @ [Wrote [0x78], Report 1 (-1) ''Idle''],
       DirectDone ''1.zip'' ''application/octet-stream'' (-1))"
proof -
  let ?env = "ex_site link (\<lambda>_. ''x'')" and ?u = "''http://a.net/1.zip''"
  let ?a = "ex_answer (\<lambda>_. ''x'') ?u"
  have p: "bytes_of_string ''x'' = [0x78]" by code_simp
  have f: "read_full 512 (ha_Body ?a) = ([0x78], Ended, [SrcRead [] (Some ReadEOF) None])" by (simp add: ex_answer_def p)
  have n: "header_name (ex_web link) (ex_target link ?u) ?a = ''1.zip''"
    by (simp add: header_name_def ex_answer_def ex_name Let_def)
  have uni: "ue_uni (ex_web link) = id" "de_detect ?env = (\<lambda>_. ''application/octet-stream'')" "de_due ?env = None" "de_writeFails ?env = None"
    by (simp_all add: ex_web_def ex_site_def)
  have s: "SniffMagicBytes id (\<lambda>_. ''application/octet-stream'') [0x78] ''1.zip'' ''application/octet-stream'' = (''1.zip'', ''application/octet-stream'')"
    "\<not> IsHTMLPayload id [0x78]" by code_simp+
  have h: "\<not> html_in_place ?env (ex_target link ?u) [0x78] ''1.zip'' ''application/octet-stream''"
    by (simp add: html_in_place_def uni s(2) Let_def)
  have l: "ha_Length ?a = -1" by (simp add: ex_answer_def)
  have "receive ?env (ex_target link ?u) ?a =
    Inl (opening_acts ''1.zip'' ''application/octet-stream'' (-1) @ [Wrote [0x78], Report 1 (-1) ''Idle''],
      DirectDone ''1.zip'' ''application/octet-stream'' (-1))"
    by (simp add: receive_def f n ex_header(2) uni s(1) h l start_stream_def source_after_def opening_acts_def Let_def)
  then show ?thesis by (subst DownloadDirect.simps) (simp add: ex_resolve ex_safe)
qed

lemma ex_body: "stream_bytes (ha_Body (ex_answer (\<lambda>_. ''x'') u)) = [0x78]" "small_reads (ha_Body (ex_answer (\<lambda>_. ''x'') u))"
proof -
  have "bytes_of_string ''x'' = [0x78]" by code_simp
  then show "stream_bytes (ha_Body (ex_answer (\<lambda>_. ''x'') u)) = [0x78]" "small_reads (ha_Body (ex_answer (\<lambda>_. ''x'') u))"
    by (simp_all add: ex_answer_def small_reads_def)
qed

theorem direct_transfer_stored_witness:
  "\<exists>transfer. direct_transfer (ex_site (\<lambda>_. None) (\<lambda>_. ''x'')) ''http://a.net/1.zip'' = Some transfer \<and>
     (let dm' = executeDownload ex_jenv transfer ex_task ex_started in
      tk_Status (dm_objs dm' ex_task) = StatusCompleted \<and>
      (\<exists>row. dm_files dm' = [row] \<and> f_size row = 1 \<and> stored (replicate 32 7) [0x78] (f_cas row) dm'))"
proof -
  obtain j where j: "dm_jobs ex_started ex_task = Some j" "jb_phase j = NotStarted False []" "tk_OwnerID (dm_objs ex_started ex_task) = 1"
    by (rule ex_job)
  have q: "0 = GetUserStorageUsed (tk_OwnerID (dm_objs ex_started ex_task)) (dm_files ex_started)"
    "dm_QuotaBytes ex_started > 0 \<longrightarrow> 0 < dm_QuotaBytes ex_started"
    using ex_empty(2) by (simp_all add: j)
  have ok: "small_reads (ha_Body a) \<and> within_quota 0 (int (length (stream_bytes (ha_Body a)))) ex_started \<and>
      no_twin (replicate 32 7) (stream_bytes (ha_Body a)) ex_started"
    if "de_answer (ex_site (\<lambda>_. None) (\<lambda>_. ''x'')) k u = Some a" for k u a
    using that ex_empty(1) by (auto simp: ex_body within_quota_def)
  have "\<exists>transfer k u a x. direct_transfer (ex_site (\<lambda>_. None) (\<lambda>_. ''x'')) ''http://a.net/1.zip'' = Some transfer \<and>
    de_answer (ex_site (\<lambda>_. None) (\<lambda>_. ''x'')) k u = Some a \<and> 200 \<le> ha_Status a \<and> ha_Status a < 300 \<and>
    ValidateSafeURL (ue_net (de_url (ex_site (\<lambda>_. None) (\<lambda>_. ''x'')))) False u = None \<and> x = stream_bytes (ha_Body a) \<and>
    (let dm' = executeDownload ex_jenv transfer ex_task ex_started in
     tk_Status (dm_objs dm' ex_task) = StatusCompleted \<and>
     (\<exists>row. dm_files dm' = dm_files ex_started @ [row] \<and> f_owner row = tk_OwnerID (dm_objs ex_started ex_task) \<and>
        f_size row = int (length x) \<and> f_plain row = hash_of x \<and> f_cas row = tk_CasHash (dm_objs dm' ex_task) \<and>
        stored (replicate 32 7) x (f_cas row) dm'))"
    by (rule direct_transfer_stored [OF ex_started_inv j(1,2) ex_calm ex_empty(3) ex_key q ex_received ok])
  then show ?thesis by (auto simp: ex_body Let_def)
qed

theorem page_not_taken_for_file_witness:
  "\<exists>acts d. DownloadDirect (ex_site (\<lambda>_. None) (\<lambda>_. ''x'')) 0 ''http://a.net/1.zip'' = Some (acts, d) \<and>
     wrote acts = [0x78] \<and> \<not> IsHTMLPayload id (take 512 (wrote acts))"
proof -
  have "ue_uni (de_url (ex_site (\<lambda>_. None) (\<lambda>_. ''x''))) = id" by (simp add: ex_web_def)
  moreover have "IsBinaryExtension id ''1.zip''" by code_simp
  ultimately have "\<not> IsHTMLPayload id (take 512 (wrote (opening_acts ''1.zip'' ''application/octet-stream'' (-1) @ [Wrote [0x78], Report 1 (-1) ''Idle''])))"
    using page_not_taken_for_file [OF ex_received [of "\<lambda>_. None"]] by simp
  then show ?thesis using ex_received [of "\<lambda>_. None"] by (simp add: opening_acts_def)
qed

definition ex_exabyte :: ProbeEnv where
  "ex_exabyte =
     \<lparr>pv_url = ex_web (\<lambda>_. None),
      pv_head = (\<lambda>u. Some \<lparr>ha_Status = 206, ha_URL = u,
        ha_Header = (\<lambda>h. if h = ''Content-Range'' then ''bytes 0-0/1152921504606846976'' else []), ha_Length = 1, ha_Body = [], ha_Truncated = False\<rparr>),
      pv_get = (\<lambda>_. None), pv_ratio = (\<lambda>_ _. [])\<rparr>"

theorem probe_panics_from_exabyte_witness: "ProbeLink ex_exabyte ''http://a.net/1.zip'' = ProbePanic"
proof -
  let ?u = "''http://a.net/1.zip''" and ?web = "ex_web (\<lambda>_. None)"
  obtain a where a: "pv_head ex_exabyte ?u = Some a" "ha_Status a = 206" "ha_Header a ''Content-Range'' = ''bytes 0-0/1152921504606846976''"
    by (simp add: ex_exabyte_def)
  have web: "pv_url ex_exabyte = ?web" by (simp add: ex_exabyte_def)
  have b: "length (fst (ExpandBatchLinks (NormalizeLink ?web) ?u)) \<le> 1" by code_simp
  have t: "rl_Type (ex_target (\<lambda>_. None) ?u) = DownloadTypeDirect" by (simp add: ex_target_def plain_link_def)
  have p: "probe_answer ex_exabyte (rl_ResolvedURL (ex_target (\<lambda>_. None) ?u)) = Some a" using a by (simp add: probe_answer_def)
  have "Split ''bytes 0-0/1152921504606846976'' (CHR ''/'') = [''bytes 0-0'', ''1152921504606846976'']" by code_simp
  moreover have "Itoa (2 ^ 60) = ''1152921504606846976''" by (simp add: Itoa_def digit_def nat_digits.simps char_of_def bit_0)
  then have "ParseInt ''1152921504606846976'' = (2 ^ 60, None)" using ParseInt_Itoa [of "2 ^ 60"] by (simp add: is_int64_def)
  ultimately have "announced_size a = 2 ^ 60" by (simp add: announced_size_def a(3))
  with probe_panics_from_exabyte [of ex_exabyte ?u, unfolded web] b t p show ?thesis
    by (auto simp: ex_resolve Let_def split: prod.splits option.splits)
qed

end
