(* ===== verification/Vault_Folders.thy ===== *)
theory Vault_Folders
  imports Prelude
begin

text \<open>
  Which folders belong to the vault: the cached breadth-first search of
  \<^verbatim>\<open>internal/controllers/file_controller.go\<close> and the parent walk that
  \<^verbatim>\<open>internal/controllers/upload_controller.go\<close> falls back to. The \<^verbatim>\<open>folders\<close> table is the list of its
  (id, parent) rows in the order the database returns them, an empty or NULL parent being \<^const>\<open>None\<close>;
  a query that fails is \<^const>\<open>None\<close> instead of the list.
\<close>

section \<open>The folder table\<close>

type_synonym folder_rows = "(string \<times> string option) list"

definition has_parent :: "string \<times> string option \<Rightarrow> bool" where
  "has_parent row \<longleftrightarrow> snd row \<noteq> None \<and> snd row \<noteq> Some []"

text \<open>\<^verbatim>\<open>childrenMap[cur]\<close>.\<close>

definition children_of :: "folder_rows \<Rightarrow> string \<Rightarrow> string list" where
  "children_of rows cur = map fst (filter (\<lambda>row. has_parent row \<and> snd row = Some cur) rows)"

definition vault_edges :: "folder_rows \<Rightarrow> (string \<times> string) set" where
  "vault_edges rows = {(p, c). c \<in> set (children_of rows p)}"

text \<open>What the vault is: the folder \<^verbatim>\<open>f2\<close> and everything below it.\<close>

definition in_vault :: "folder_rows \<Rightarrow> string \<Rightarrow> bool" where
  "in_vault rows f \<longleftrightarrow> (''f2'', f) \<in> (vault_edges rows)\<^sup>*"

section \<open>The cache\<close>

record VaultCache =
  vaultIDs :: "string list"
  vaultCacheValid :: bool

definition InvalidateVaultCache :: "VaultCache \<Rightarrow> VaultCache" where
  "InvalidateVaultCache vc = \<lparr>vaultIDs = [], vaultCacheValid = False\<rparr>"

fun visit :: "string list \<Rightarrow> string list \<Rightarrow> string list \<Rightarrow> string list \<times> string list" where
  "visit [] queue seen = (queue, seen)"
| "visit (child # cs) queue seen =
     (if child \<notin> set seen then visit cs (queue @ [child]) (seen @ [child])
      else visit cs queue seen)"

lemma visit_queue: "\<exists>new. visit cs queue seen = (queue @ new, seen @ new) \<and> set new = set cs - set seen \<and> distinct new"
proof (induction cs queue seen rule: visit.induct)
  case (2 child cs queue seen)
  show ?case
  proof (cases "child \<in> set seen")
    case True
    then show ?thesis using 2 by auto
  next
    case False
    then obtain new where "visit cs (queue @ [child]) (seen @ [child]) = ((queue @ [child]) @ new, (seen @ [child]) @ new)"
        "set new = set cs - set (seen @ [child])" "distinct new"
      using 2 by auto
    with False show ?thesis by (intro exI [of _ "child # new"]) auto
  qed
qed simp

text \<open>Queue and result of the search; every pass takes the first of the queue and appends its unseen
  children to both.\<close>

function bfs :: "folder_rows \<Rightarrow> string list \<Rightarrow> string list \<Rightarrow> string list" where
  "bfs rows queue seen =
     (case queue of
        [] \<Rightarrow> seen
      | cur # rest \<Rightarrow>
          (case visit (children_of rows cur) rest seen of (queue', seen') \<Rightarrow> bfs rows queue' seen'))"
  by pat_completeness auto
termination
proof (relation "measure (\<lambda>(rows, queue, seen). 2 * card (fst ` set rows - set seen) + length queue)")
  fix rows :: folder_rows and queue seen cur rest queue' seen'
  assume q: "queue = cur # rest" and p: "(queue', seen') = visit (children_of rows cur) rest seen"
  obtain new where new: "queue' = rest @ new" "seen' = seen @ new"
      "set new = set (children_of rows cur) - set seen" "distinct new"
    using visit_queue [of "children_of rows cur" rest seen] p by auto
  have sub: "set new \<subseteq> fst ` set rows - set seen" using new(3) by (auto simp: children_of_def)
  have "card (fst ` set rows - set seen') = card ((fst ` set rows - set seen) - set new)"
    using new(2) by (simp add: set_diff_eq Int_def conj_ac cong: conj_cong)
  also have "\<dots> = card (fst ` set rows - set seen) - card (set new)"
    using sub by (intro card_Diff_subset) auto
  finally have "card (fst ` set rows - set seen') = card (fst ` set rows - set seen) - length new"
    using new(4) by (simp add: distinct_card)
  moreover have "length new \<le> card (fst ` set rows - set seen)"
    using card_mono [OF _ sub] new(4) by (simp add: distinct_card)
  ultimately show "((rows, queue', seen'), (rows, queue, seen))
      \<in> measure (\<lambda>(rows, queue, seen). 2 * card (fst ` set rows - set seen) + length queue)"
    using q new(1) by simp
qed simp

declare bfs.simps [simp del]

definition loadVaultCache :: "folder_rows option \<Rightarrow> VaultCache \<Rightarrow> VaultCache" where
  "loadVaultCache query vc =
     (if vaultCacheValid vc then vc
      else
        case query of
          None \<Rightarrow> \<lparr>vaultIDs = [''f2''], vaultCacheValid = True\<rparr>
        | Some rows \<Rightarrow> \<lparr>vaultIDs = bfs rows [''f2''] [''f2''], vaultCacheValid = True\<rparr>)"

definition IsVaultFolder :: "folder_rows option \<Rightarrow> string \<Rightarrow> VaultCache \<Rightarrow> VaultCache \<times> bool" where
  "IsVaultFolder query folderID vc =
     (if folderID = ''f2'' then (vc, True)
      else if folderID \<in> {[], ''f1'', ''f3''} then (vc, False)
      else if vaultCacheValid vc then (vc, folderID \<in> set (vaultIDs vc))
      else let vc' = loadVaultCache query vc in (vc', folderID \<in> set (vaultIDs vc')))"

definition GetAllVaultFolderIDs :: "folder_rows option \<Rightarrow> VaultCache \<Rightarrow> VaultCache \<times> string list" where
  "GetAllVaultFolderIDs query vc =
     (if vaultCacheValid vc then (vc, vaultIDs vc)
      else let vc' = loadVaultCache query vc in (vc', vaultIDs vc'))"

section \<open>The parent walk\<close>

text \<open>\<open>parent\<close> is the query for a folder's parent: \<^const>\<open>None\<close> for an error, no row, or no parent.\<close>

fun walk_up :: "nat \<Rightarrow> (string \<Rightarrow> string option) \<Rightarrow> string \<Rightarrow> bool" where
  "walk_up 0 parent cur = False"
| "walk_up (Suc i) parent cur =
     (case parent cur of
        None \<Rightarrow> False
      | Some p \<Rightarrow> if p = [] then False else if p = ''f2'' then True else walk_up i parent p)"

definition isVaultFolder ::
  "(string \<Rightarrow> bool) option \<Rightarrow> (string \<Rightarrow> string option) option \<Rightarrow> string \<Rightarrow> bool" where
  "isVaultFolder fileCtrl db folderID =
     (if folderID = ''f2'' then True
      else if folderID \<in> {[], ''f1'', ''f3''} then False
      else case fileCtrl of
          Some f \<Rightarrow> f folderID
        | None \<Rightarrow> (case db of None \<Rightarrow> False | Some parent \<Rightarrow> walk_up 50 parent folderID))"

section \<open>The search finds exactly the vault\<close>

definition below :: "folder_rows \<Rightarrow> string \<Rightarrow> string \<Rightarrow> bool" where
  "below rows start x \<longleftrightarrow> (start, x) \<in> (vault_edges rows)\<^sup>*"

definition bfs_inv :: "string \<Rightarrow> folder_rows \<Rightarrow> string list \<Rightarrow> string list \<Rightarrow> bool" where
  "bfs_inv start rows queue seen \<longleftrightarrow>
     start \<in> set seen \<and> set queue \<subseteq> set seen \<and> (\<forall>x \<in> set seen. below rows start x) \<and>
     (\<forall>x \<in> set seen - set queue. set (children_of rows x) \<subseteq> set seen)"

lemma bfs_step_inv:
  assumes inv: "bfs_inv start rows (cur # rest) seen" and v: "visit (children_of rows cur) rest seen = (queue', seen')"
  shows "bfs_inv start rows queue' seen'"
proof -
  obtain new where new: "queue' = rest @ new" "seen' = seen @ new"
      "set new = set (children_of rows cur) - set seen"
    using visit_queue [of "children_of rows cur" rest seen] v by auto
  have c: "below rows start cur" using inv by (auto simp: bfs_inv_def)
  have "below rows start x" if "x \<in> set new" for x
    using that new(3) c unfolding below_def vault_edges_def by (auto intro: rtrancl_into_rtrancl)
  moreover have "set (children_of rows x) \<subseteq> set seen'" if "x \<in> set seen' - set queue'" for x
  proof (cases "x = cur")
    case True
    then show ?thesis using new by auto
  next
    case False
    then show ?thesis using that new inv by (fastforce simp: bfs_inv_def)
  qed
  ultimately show ?thesis using inv new unfolding bfs_inv_def by auto
qed

lemma bfs_result: "bfs_inv start rows queue seen \<Longrightarrow> bfs_inv start rows [] (bfs rows queue seen)"
proof (induction rows queue seen rule: bfs.induct)
  case (1 rows queue seen)
  show ?case
  proof (cases queue)
    case Nil
    then show ?thesis using 1(2) by (subst bfs.simps) simp
  next
    case (Cons cur rest)
    obtain q s where v: "visit (children_of rows cur) rest seen = (q, s)" by fastforce
    show ?thesis
      using 1(1) [OF Cons v [symmetric]] bfs_step_inv [OF 1(2) [unfolded Cons] v] Cons v
      by (subst bfs.simps) simp
  qed
qed

text \<open>From any folder, the search finds exactly the folders below it.\<close>

lemma bfs_below: "x \<in> set (bfs rows [start] [start]) \<longleftrightarrow> below rows start x"
proof -
  have "bfs_inv start rows [start] [start]" by (auto simp: bfs_inv_def below_def)
  then have r: "bfs_inv start rows [] (bfs rows [start] [start])" by (rule bfs_result)
  have "x \<in> set (bfs rows [start] [start])" if "(start, x) \<in> (vault_edges rows)\<^sup>*"
    using that by (induction rule: rtrancl_induct) (use r in \<open>auto simp: bfs_inv_def vault_edges_def\<close>)
  with r show ?thesis by (auto simp: bfs_inv_def below_def)
qed

lemma bfs_vault: "x \<in> set (bfs rows [''f2''] [''f2'']) \<longleftrightarrow> in_vault rows x"
  by (simp add: bfs_below below_def in_vault_def)

definition cache_ok :: "folder_rows \<Rightarrow> VaultCache \<Rightarrow> bool" where
  "cache_ok rows vc \<longleftrightarrow> (vaultCacheValid vc \<longrightarrow> (\<forall>x. x \<in> set (vaultIDs vc) \<longleftrightarrow> in_vault rows x))"

text \<open>Folders that are never inside the vault: the root and the two other preset folders have no
  parent.\<close>

definition presets_ok :: "folder_rows \<Rightarrow> bool" where
  "presets_ok rows \<longleftrightarrow> (\<forall>row \<in> set rows. fst row \<in> {[], ''f1'', ''f3''} \<longrightarrow> \<not> has_parent row)"

lemma presets_outside: "presets_ok rows \<Longrightarrow> f \<in> {[], ''f1'', ''f3''} \<Longrightarrow> \<not> in_vault rows f"
  unfolding in_vault_def
  by (erule contrapos_pn, erule rtranclE) (auto simp: vault_edges_def children_of_def presets_ok_def)

lemma loadVaultCache_ok: "cache_ok rows vc \<Longrightarrow> cache_ok rows (loadVaultCache (Some rows) vc)
    \<and> vaultCacheValid (loadVaultCache (Some rows) vc)"
  by (simp add: cache_ok_def loadVaultCache_def bfs_vault)

text \<open>The walk finds a vault folder within its bound.\<close>

lemma walk_up_sound:
  "walk_up n parent f \<Longrightarrow> (\<And>c p. parent c = Some p \<Longrightarrow> p \<noteq> [] \<Longrightarrow> (c, Some p) \<in> set rows) \<Longrightarrow> in_vault rows f"
proof (induction n arbitrary: f)
  case (Suc n)
  then obtain p where p: "parent f = Some p" "p \<noteq> []" "p = ''f2'' \<or> walk_up n parent p"
    by (auto split: option.splits if_splits)
  then have "in_vault rows p" using Suc by (auto simp: in_vault_def)
  moreover have "(p, f) \<in> vault_edges rows"
    using Suc.prems(2) [OF p(1,2)] p(2) by (auto simp: vault_edges_def children_of_def has_parent_def image_iff)
  ultimately show ?case unfolding in_vault_def by (rule rtrancl_into_rtrancl)
qed simp

text \<open>The answer of the cached search, for the clients of the cache.\<close>

lemma vault_answer:
  assumes "cache_ok rows vc" "presets_ok rows" "IsVaultFolder (Some rows) folderID vc = (vc', b)"
  shows "b = in_vault rows folderID" "cache_ok rows vc'"
  using assms loadVaultCache_ok [OF assms(1)] presets_outside [OF assms(2), of folderID]
  by (auto simp: IsVaultFolder_def Let_def cache_ok_def in_vault_def split: if_splits)

section \<open>Properties\<close>

text \<open>C26: the cached search answers correctly: from a cache that is empty or was filled from the same
  table, a folder is a vault folder if and only if it is \<^verbatim>\<open>f2\<close> or lies below it, cyclic tables
  included, and the cache stays correct.\<close>

theorem IsVaultFolder_correct:
  assumes "cache_ok rows vc" "presets_ok rows" "IsVaultFolder (Some rows) folderID vc = (vc', b)"
  shows "b = in_vault rows folderID \<and> cache_ok rows vc'"
  using vault_answer [OF assms] by simp

theorem IsVaultFolder_correct_witness:
  "snd (IsVaultFolder (Some [(''a'', Some ''f2''), (''b'', Some ''a''), (''a'', Some ''b'')]) ''b'' \<lparr>vaultIDs = [], vaultCacheValid = False\<rparr>)
     = in_vault [(''a'', Some ''f2''), (''b'', Some ''a''), (''a'', Some ''b'')] ''b''"
proof -
  let ?rows = "[(''a'', Some ''f2''), (''b'', Some ''a''), (''a'', Some ''b'')] :: folder_rows"
  obtain vc b where r: "IsVaultFolder (Some ?rows) ''b'' \<lparr>vaultIDs = [], vaultCacheValid = False\<rparr> = (vc, b)" by fastforce
  show ?thesis
    using IsVaultFolder_correct [OF _ _ r] r by (simp add: cache_ok_def presets_ok_def)
qed

text \<open>when the folder query fails, the cache is filled with \<^verbatim>\<open>f2\<close> alone and marked valid, so that
  every folder below the vault is taken for an ordinary one until the next invalidation.\<close>

theorem failed_query_opens_vault:
  assumes "\<not> vaultCacheValid vc" "in_vault rows f" "f \<noteq> ''f2''"
  shows "\<exists>vc1. IsVaultFolder None f vc = (vc1, False) \<and> (f \<notin> {[], ''f1'', ''f3''} \<longrightarrow> IsVaultFolder (Some rows) f vc1 = (vc1, False))"
  using assms by (auto simp: IsVaultFolder_def loadVaultCache_def Let_def)

theorem failed_query_opens_vault_witness:
  "in_vault [(''a'', Some ''f2'')] ''a'' \<and>
   (\<exists>vc1. IsVaultFolder None ''a'' \<lparr>vaultIDs = [], vaultCacheValid = False\<rparr> = (vc1, False) \<and>
      (''a'' \<notin> {[], ''f1'', ''f3''} \<longrightarrow> IsVaultFolder (Some [(''a'', Some ''f2'')]) ''a'' vc1 = (vc1, False)))"
proof
  have "(''f2'', ''a'') \<in> vault_edges [(''a'', Some ''f2'')]"
    by (simp add: vault_edges_def children_of_def has_parent_def)
  then show v: "in_vault [(''a'', Some ''f2'')] ''a''" unfolding in_vault_def by blast
  show "\<exists>vc1. IsVaultFolder None ''a'' \<lparr>vaultIDs = [], vaultCacheValid = False\<rparr> = (vc1, False) \<and>
      (''a'' \<notin> {[], ''f1'', ''f3''} \<longrightarrow> IsVaultFolder (Some [(''a'', Some ''f2'')]) ''a'' vc1 = (vc1, False))"
    by (rule failed_query_opens_vault [OF _ v]) simp_all
qed

end
