(* ===== verification/Auth_Sessions.thy ===== *)
theory Auth_Sessions
  imports Expiring_Store Go_Strings Stream_Crypto
begin

text \<open>
  The volatile sessions of \<^verbatim>\<open>internal/auth\<close>: vault keys kept only in memory (\<^verbatim>\<open>session.go\<close>) and user
  sessions with the middleware that checks them (\<^verbatim>\<open>middleware.go\<close>). A key is a Go slice that the store
  shares with every request that has looked it up, and that is overwritten with random bytes when the
  session ends: keys are therefore addresses into a heap of byte buffers.
\<close>

section \<open>Vault keys\<close>

record sessionEntry =
  key_ref :: nat
  expiresAt :: instant

record SessionStore =
  vaultKeys :: "string \<rightharpoonup> sessionEntry"
  heap :: "nat \<Rightarrow> bytes"

definition SetKeyWithTTL :: "instant \<Rightarrow> string \<Rightarrow> nat \<Rightarrow> duration \<Rightarrow> SessionStore \<Rightarrow> SessionStore" where
  "SetKeyWithTTL now sessionID vk ttl s =
     s\<lparr>vaultKeys := (vaultKeys s)(sessionID \<mapsto> \<lparr>key_ref = vk, expiresAt = now + ttl\<rparr>)\<rparr>"

definition SetKey :: "instant \<Rightarrow> string \<Rightarrow> nat \<Rightarrow> SessionStore \<Rightarrow> SessionStore" where
  "SetKey now sessionID vk s = SetKeyWithTTL now sessionID vk (24 * Hour) s"

definition live_entry :: "instant \<Rightarrow> SessionStore \<Rightarrow> string \<Rightarrow> sessionEntry option" where
  "live_entry now s sessionID = unexpired now expiresAt (vaultKeys s sessionID)"

definition GetKey :: "instant \<Rightarrow> SessionStore \<Rightarrow> string \<Rightarrow> nat option" where
  "GetKey now s sessionID = map_option key_ref (live_entry now s sessionID)"

definition HasKey :: "instant \<Rightarrow> SessionStore \<Rightarrow> string \<Rightarrow> bool" where
  "HasKey now s sessionID \<longleftrightarrow> live_entry now s sessionID \<noteq> None"

text \<open>\<^verbatim>\<open>rand.Read(entry.key)\<close>: the buffer keeps its length; \<open>rnd\<close> gives the bytes for a buffer.\<close>

definition scrub :: "(nat \<Rightarrow> bytes) \<Rightarrow> nat \<Rightarrow> SessionStore \<Rightarrow> SessionStore" where
  "scrub rnd a s = s\<lparr>heap := (heap s)(a := take (length (heap s a)) (rnd a))\<rparr>"

definition DeleteKey :: "(nat \<Rightarrow> bytes) \<Rightarrow> string \<Rightarrow> SessionStore \<Rightarrow> SessionStore" where
  "DeleteKey rnd sessionID s =
     (case vaultKeys s sessionID of
        None \<Rightarrow> s
      | Some e \<Rightarrow> (scrub rnd (key_ref e) s)\<lparr>vaultKeys := (vaultKeys s)(sessionID := None)\<rparr>)"

fun sweep_keys :: "(nat \<Rightarrow> bytes) \<Rightarrow> (sessionEntry \<Rightarrow> bool) \<Rightarrow> string list \<Rightarrow> SessionStore \<Rightarrow> int \<Rightarrow> SessionStore \<times> int" where
  "sweep_keys rnd P [] s cleaned = (s, cleaned)"
| "sweep_keys rnd P (sid # order) s cleaned =
     (case vaultKeys s sid of
        None \<Rightarrow> sweep_keys rnd P order s cleaned
      | Some e \<Rightarrow>
          if P e then sweep_keys rnd P order (DeleteKey rnd sid s) (cleaned + 1)
          else sweep_keys rnd P order s cleaned)"

text \<open>\<open>order\<close> is the order in which Go iterates over the map.\<close>

definition CleanupStaleKeys :: "(nat \<Rightarrow> bytes) \<Rightarrow> string list \<Rightarrow> instant \<Rightarrow> SessionStore \<Rightarrow> SessionStore \<times> int" where
  "CleanupStaleKeys rnd order now s = sweep_keys rnd (\<lambda>e. time_After now (expiresAt e)) order s 0"

definition Purge :: "(nat \<Rightarrow> bytes) \<Rightarrow> string list \<Rightarrow> SessionStore \<Rightarrow> SessionStore" where
  "Purge rnd order s = fst (sweep_keys rnd (\<lambda>_. True) order s 0)"

text \<open>\<^verbatim>\<open>VaultKeyMiddleware\<close>: what it puts into the request context, the key (by reference, \<^const>\<open>None\<close> for the
  development key) and whether the vault is authenticated.\<close>

definition VaultKeyMiddleware :: "instant \<Rightarrow> SessionStore \<Rightarrow> string option \<Rightarrow> nat option \<times> bool" where
  "VaultKeyMiddleware now s cookie =
     (case cookie of
        None \<Rightarrow> (None, False)
      | Some c \<Rightarrow> (case GetKey now s c of None \<Rightarrow> (None, False) | Some a \<Rightarrow> (Some a, True)))"

section \<open>Unlocking the vault\<close>

datatype unlock_error =
    EmptyPassword | NoDatabase | UserNotFound | BadStoredHash | InvalidPassword | VaultKeyUndecryptable

text \<open>The user row: hexadecimal password hash, salt, encrypted vault key. \<open>derive\<close> is the Argon2id function of
  \<^verbatim>\<open>golang.org/x/crypto\<close>; \<open>fresh\<close> is the buffer the decrypted key is allocated in.\<close>

type_synonym user_row = "string \<times> bytes \<times> bytes"

definition VerifyAndUnlockVault ::
  "(bytes \<Rightarrow> bytes \<Rightarrow> bytes) \<Rightarrow> instant \<Rightarrow> bytes \<Rightarrow> nat \<Rightarrow> (int \<Rightarrow> user_row option) option \<Rightarrow> int \<Rightarrow> string \<Rightarrow>
   SessionStore \<Rightarrow> SessionStore \<times> (unlock_error + (string \<times> nat))" where
  "VerifyAndUnlockVault derive now rnd fresh db userID password s =
     (if password = [] then (s, Inl EmptyPassword)
      else case db of
          None \<Rightarrow> (s, Inl NoDatabase)
        | Some query \<Rightarrow>
            (case query userID of
               None \<Rightarrow> (s, Inl UserNotFound)
             | Some (passwordHashHex, salt, encryptedVK) \<Rightarrow>
                 (case hex_decode passwordHashHex of
                    None \<Rightarrow> (s, Inl BadStoredHash)
                  | Some expectedHash \<Rightarrow>
                      if expectedHash = [] then (s, Inl BadStoredHash)
                      else
                        let mek = derive (bytes_of_string password) salt in
                        if mek \<noteq> expectedHash then (s, Inl InvalidPassword)
                        else
                          case DecryptBlock encryptedVK mek of
                            Inl _ \<Rightarrow> (s, Inl VaultKeyUndecryptable)
                          | Inr vk \<Rightarrow>
                              let sessionID = ''sess_'' @ hex_encode (take 16 rnd) in
                              (SetKey now sessionID fresh (s\<lparr>heap := (heap s)(fresh := vk)\<rparr>),
                               Inr (sessionID, fresh)))))"

definition LockVault :: "(nat \<Rightarrow> bytes) \<Rightarrow> string option \<Rightarrow> SessionStore \<Rightarrow> SessionStore" where
  "LockVault rnd cookie s = (case cookie of None \<Rightarrow> s | Some c \<Rightarrow> DeleteKey rnd c s)"

section \<open>User sessions\<close>

record userSessionEntry =
  UserID :: int
  us_ExpiresAt :: instant

type_synonym user_sessions = "string \<rightharpoonup> userSessionEntry"

definition UserSessionTTL :: duration where "UserSessionTTL = 30 * 24 * Hour"

definition CreateUserSession :: "instant \<Rightarrow> bytes \<Rightarrow> int \<Rightarrow> user_sessions \<Rightarrow> user_sessions \<times> string" where
  "CreateUserSession now rnd userID us =
     (let sessID = ''usr_'' @ hex_encode (take 24 rnd)
      in (us(sessID \<mapsto> \<lparr>UserID = userID, us_ExpiresAt = now + UserSessionTTL\<rparr>), sessID))"

definition ValidateUserSession :: "instant \<Rightarrow> user_sessions \<Rightarrow> string \<Rightarrow> int option" where
  "ValidateUserSession now us sessID =
     (if sessID = [] then None else map_option UserID (unexpired now us_ExpiresAt (us sessID)))"

text \<open>\<^verbatim>\<open>EnsureDashboardSessionMiddleware\<close>: the user of the request, and the cookie it sets, if any.\<close>

definition EnsureDashboardSession ::
  "instant \<Rightarrow> bytes \<Rightarrow> string option \<Rightarrow> user_sessions \<Rightarrow> user_sessions \<times> int \<times> string option" where
  "EnsureDashboardSession now rnd cookie us =
     (case (case cookie of None \<Rightarrow> None | Some c \<Rightarrow> ValidateUserSession now us c) of
        Some userID \<Rightarrow> (us, userID, None)
      | None \<Rightarrow> (case CreateUserSession now rnd 1 us of (us', sessID) \<Rightarrow> (us', 1, Some sessID)))"

record AuthRequest =
  rq_Authorization :: string
  rq_UserCookie :: "string option"
  rq_SwarmCookie :: "string option"
  rq_RealIP :: string

datatype auth_result = Proceed int "string option" | Unauthorized

definition RequireAuth ::
  "instant \<Rightarrow> bytes \<Rightarrow> SessionStore \<Rightarrow> AuthRequest \<Rightarrow> user_sessions \<Rightarrow> user_sessions \<times> auth_result" where
  "RequireAuth now rnd vault rq us =
     (let bearer = (if HasPrefix (rq_Authorization rq) ''Bearer '' then TrimPrefix (rq_Authorization rq) ''Bearer '' else []);
          sessID = (if bearer = [] then (case rq_UserCookie rq of None \<Rightarrow> [] | Some c \<Rightarrow> c) else bearer)
      in if sessID = [] \<and> (case rq_SwarmCookie rq of None \<Rightarrow> False | Some c \<Rightarrow> HasKey now vault c) then
           (us, Proceed 1 None)
         else case (if sessID = [] then None else ValidateUserSession now us sessID) of
             Some userID \<Rightarrow> (us, Proceed userID None)
           | None \<Rightarrow>
               if rq_RealIP rq \<in> {''127.0.0.1'', ''::1'', []} then
                 (case CreateUserSession now rnd 1 us of (us', newSess) \<Rightarrow> (us', Proceed 1 (Some newSess)))
               else (us, Unauthorized))"

section \<open>Both tables are expiring stores\<close>

lemma live_entry_simps:
  "live_entry now (SetKeyWithTTL t k a ttl s) k' = (if k' = k then unexpired now expiresAt (Some \<lparr>key_ref = a, expiresAt = t + ttl\<rparr>) else live_entry now s k')"
  "live_entry now (DeleteKey rnd k s) k' = (if k' = k then None else live_entry now s k')"
  by (auto simp: live_entry_def SetKeyWithTTL_def DeleteKey_def scrub_def split: option.splits)

interpretation vault_keys: expiring_store live_entry
  "\<lambda>(t, k, a, ttl). SetKeyWithTTL t k a ttl" "\<lambda>(t, k, a, ttl). k" "\<lambda>(t, k, a, ttl). \<lparr>key_ref = a, expiresAt = t + ttl\<rparr>"
  "DeleteKey rnd" expiresAt for rnd
  by unfold_locales (auto simp: live_entry_simps, auto simp: live_entry_def time_After_def)

interpretation user_table: expiring_store "\<lambda>now us k. unexpired now us_ExpiresAt (us k)"
  "\<lambda>(t, rnd, u). fst \<circ> CreateUserSession t rnd u" "\<lambda>(t, rnd, u). ''usr_'' @ hex_encode (take 24 rnd)"
  "\<lambda>(t, rnd, u). \<lparr>UserID = u, us_ExpiresAt = t + UserSessionTTL\<rparr>" "\<lambda>k us. us(k := None)" us_ExpiresAt
  by unfold_locales (auto simp: CreateUserSession_def Let_def time_After_def)

lemma unwrap_wrap: "EncryptBlock rnd vk k = Inr c \<Longrightarrow> DecryptBlock c k = Inr vk"
  by (auto simp: EncryptBlock_def DecryptBlock_def Let_def aes_gcm.Open_Seal aes_gcm.length_Seal min_def
      split: option.splits if_splits)

section \<open>Sweeping\<close>

lemma DeleteKey_fields:
  "vaultKeys (DeleteKey rnd c s) = (vaultKeys s)(c := None)"
  "heap (DeleteKey rnd c s) a =
     (if \<exists>e. vaultKeys s c = Some e \<and> key_ref e = a then take (length (heap s a)) (rnd a) else heap s a)"
  by (auto simp: DeleteKey_def scrub_def fun_eq_iff split: option.splits)

lemma take_length_scrubbed:
  "length (take (length x) r) = length x \<or> take (length (take (length x) r)) r = take (length x) r"
  by (simp add: min_def)

lemma sweep_keys_all:
  assumes "distinct order"
  shows "vaultKeys (fst (sweep_keys rnd P order s n)) = map_drop_if (\<lambda>c e. c \<in> set order \<and> P e) (vaultKeys s) \<and>
    (\<forall>a. heap (fst (sweep_keys rnd P order s n)) a =
      (if \<exists>c e. c \<in> set order \<and> vaultKeys s c = Some e \<and> P e \<and> key_ref e = a
       then take (length (heap s a)) (rnd a) else heap s a))"
  using assms
proof (induction order arbitrary: s n)
  case Nil
  show ?case by (auto simp: map_drop_if_def fun_eq_iff split: option.splits)
next
  case (Cons c order)
  show ?case
  proof (cases "\<exists>e. vaultKeys s c = Some e \<and> P e")
    case True
    then obtain e where e: "vaultKeys s c = Some e" "P e" by auto
    let ?s = "DeleteKey rnd c s"
    have IH: "vaultKeys (fst (sweep_keys rnd P order ?s (n + 1))) = map_drop_if (\<lambda>c e. c \<in> set order \<and> P e) (vaultKeys ?s)"
      "heap (fst (sweep_keys rnd P order ?s (n + 1))) a =
        (if \<exists>c e. c \<in> set order \<and> vaultKeys ?s c = Some e \<and> P e \<and> key_ref e = a
         then take (length (heap ?s a)) (rnd a) else heap ?s a)" for a
      using Cons.IH [of ?s "n + 1"] Cons.prems by auto
    have "(\<exists>c' e'. c' \<in> set order \<and> vaultKeys ?s c' = Some e' \<and> P e' \<and> key_ref e' = a) =
        (\<exists>c' e'. c' \<in> set order \<and> vaultKeys s c' = Some e' \<and> P e' \<and> key_ref e' = a)" for a
      using Cons.prems by (auto simp: DeleteKey_fields)
    then have "heap (fst (sweep_keys rnd P order ?s (n + 1))) a =
        (if \<exists>c' e'. c' \<in> set (c # order) \<and> vaultKeys s c' = Some e' \<and> P e' \<and> key_ref e' = a
         then take (length (heap s a)) (rnd a) else heap s a)" for a
      using IH(2) [of a] e by (auto simp: DeleteKey_fields min_def)
    moreover have "map_drop_if (\<lambda>c e. c \<in> set order \<and> P e) (vaultKeys ?s)
        = map_drop_if (\<lambda>c' e. c' \<in> set (c # order) \<and> P e) (vaultKeys s)"
      using e Cons.prems by (auto simp: DeleteKey_fields map_drop_if_def fun_eq_iff split: option.splits)
    ultimately show ?thesis using e IH(1) by simp
  next
    case False
    then have "sweep_keys rnd P (c # order) s n = sweep_keys rnd P order s n" by (auto split: option.splits)
    moreover have "map_drop_if (\<lambda>c e. c \<in> set order \<and> P e) (vaultKeys s)
        = map_drop_if (\<lambda>c' e. c' \<in> set (c # order) \<and> P e) (vaultKeys s)"
      using False by (auto simp: map_drop_if_def fun_eq_iff split: option.splits)
    moreover have "(\<exists>c' e'. c' \<in> set (c # order) \<and> vaultKeys s c' = Some e' \<and> P e' \<and> key_ref e' = a) =
        (\<exists>c' e'. c' \<in> set order \<and> vaultKeys s c' = Some e' \<and> P e' \<and> key_ref e' = a)" for a
      using False by auto
    ultimately show ?thesis using Cons.IH [of s n] Cons.prems by simp
  qed
qed

section \<open>Properties\<close>

text \<open>the right master password, and only one that derives the stored hash, opens the vault: the key
  handed out is the one that was wrapped at registration, under a session that is valid for exactly 24
  hours; any other password leaves the store unchanged.\<close>

theorem unlock_vault:
  assumes user: "query userID = Some (hex_encode mek, salt, evk)" and pw: "password \<noteq> []"
    and hash: "derive (bytes_of_string password) salt = mek" and mek: "length mek = 32"
    and wrapped: "EncryptBlock nonce vk mek = Inr evk"
  shows "\<exists>s' sid. VerifyAndUnlockVault derive now rnd fresh (Some query) userID password s = (s', Inr (sid, fresh)) \<and>
      heap s' fresh = vk \<and> (\<forall>t. GetKey t s' sid = (if t \<le> now + 24 * Hour then Some fresh else None)) \<and>
      (\<forall>p. p \<noteq> [] \<and> derive (bytes_of_string p) salt \<noteq> mek \<longrightarrow>
         VerifyAndUnlockVault derive now rnd fresh (Some query) userID p s = (s, Inl InvalidPassword))"
proof -
  have d: "DecryptBlock evk mek = Inr vk" using unwrap_wrap [OF wrapped] .
  have ne: "mek \<noteq> []" using mek by auto
  let ?sid = "''sess_'' @ hex_encode (take 16 rnd)"
  let ?s = "SetKey now ?sid fresh (s\<lparr>heap := (heap s)(fresh := vk)\<rparr>)"
  have "VerifyAndUnlockVault derive now rnd fresh (Some query) userID password s = (?s, Inr (?sid, fresh))"
    using user pw hash d ne by (simp add: VerifyAndUnlockVault_def Let_def)
  moreover have "heap ?s fresh = vk" by (simp add: SetKey_def SetKeyWithTTL_def)
  moreover have "GetKey t ?s ?sid = (if t \<le> now + 24 * Hour then Some fresh else None)" for t
    by (simp add: GetKey_def SetKey_def live_entry_simps time_After_def)
  moreover have "VerifyAndUnlockVault derive now rnd fresh (Some query) userID p s = (s, Inl InvalidPassword)"
    if "p \<noteq> []" "derive (bytes_of_string p) salt \<noteq> mek" for p
    using that user ne by (simp add: VerifyAndUnlockVault_def Let_def)
  ultimately show ?thesis by blast
qed

theorem unlock_vault_witness:
  "\<exists>evk s' sid. EncryptBlock (replicate 12 3) [1, 2] (replicate 32 4) = Inr evk \<and>
     VerifyAndUnlockVault (\<lambda>p _. replicate 32 (if p = bytes_of_string ''pw'' then 4 else 5)) 0 (replicate 16 1) 6
       (Some (\<lambda>_. Some (hex_encode (replicate 32 4), [], evk))) 1 ''pw'' \<lparr>vaultKeys = Map.empty, heap = (\<lambda>_. [])\<rparr>
       = (s', Inr (sid, 6)) \<and> heap s' 6 = [1, 2]"
proof -
  let ?derive = "\<lambda>(p :: bytes) (_ :: bytes). replicate 32 (if p = bytes_of_string ''pw'' then 4 else 5) :: bytes"
  let ?s = "\<lparr>vaultKeys = Map.empty, heap = (\<lambda>_. [])\<rparr> :: SessionStore"
  obtain evk where e: "EncryptBlock (replicate 12 3) [1, 2] (replicate 32 4) = Inr evk"
    by (simp add: EncryptBlock_def aes_NewCipher_def Let_def)
  let ?q = "\<lambda>_. Some (hex_encode (replicate 32 4), [], evk)"
  have "\<exists>s' sid. VerifyAndUnlockVault ?derive 0 (replicate 16 1) 6 (Some ?q) 1 ''pw'' ?s = (s', Inr (sid, 6)) \<and> heap s' 6 = [1, 2]"
    using unlock_vault [of ?q 1 "replicate 32 4" "[]" evk "''pw''" ?derive "replicate 12 3" "[1, 2]" 0 "replicate 16 1" 6 ?s] e
    by auto
  with e show ?thesis by blast
qed

text \<open>the panic purge forgets every vault key and overwrites every buffer that held one with random
  bytes, whatever the order of iteration and however many sessions share a buffer.\<close>

theorem purge_scrubs_keys:
  assumes "distinct order" "set order = dom (vaultKeys s)"
  shows "vaultKeys (Purge rnd order s) = Map.empty \<and> (\<forall>t c. \<not> HasKey t (Purge rnd order s) c) \<and>
    (\<forall>c e. vaultKeys s c = Some e \<longrightarrow>
       heap (Purge rnd order s) (key_ref e) = take (length (heap s (key_ref e))) (rnd (key_ref e)))"
proof -
  note k = sweep_keys_all [OF assms(1), of rnd "\<lambda>_. True" s 0]
  have v: "vaultKeys (Purge rnd order s) = Map.empty"
    using k assms(2) by (auto simp: Purge_def fun_eq_iff map_drop_if_def split: option.splits)
  moreover have "heap (Purge rnd order s) (key_ref e) = take (length (heap s (key_ref e))) (rnd (key_ref e))"
    if "vaultKeys s c = Some e" for c e
  proof -
    have "c \<in> set order" using that assms(2) by auto
    then have "\<exists>c' e'. c' \<in> set order \<and> vaultKeys s c' = Some e' \<and> True \<and> key_ref e' = key_ref e"
      using that by blast
    then show ?thesis using k unfolding Purge_def by simp
  qed
  ultimately show ?thesis by (simp add: HasKey_def live_entry_def)
qed

theorem purge_scrubs_keys_witness:
  "let s = \<lparr>vaultKeys = [''a'' \<mapsto> \<lparr>key_ref = 0, expiresAt = 9\<rparr>, ''b'' \<mapsto> \<lparr>key_ref = 0, expiresAt = 5\<rparr>], heap = (\<lambda>_. [1, 2])\<rparr>
   in vaultKeys (Purge (\<lambda>_. [7, 8, 9]) [''a'', ''b''] s) = Map.empty \<and> heap (Purge (\<lambda>_. [7, 8, 9]) [''a'', ''b''] s) 0 = [7, 8]"
proof -
  let ?s = "\<lparr>vaultKeys = [''a'' \<mapsto> \<lparr>key_ref = 0, expiresAt = 9\<rparr>, ''b'' \<mapsto> \<lparr>key_ref = 0, expiresAt = 5\<rparr>], heap = (\<lambda>_. [1, 2])\<rparr> :: SessionStore"
  have "set [''a'', ''b''] = dom (vaultKeys ?s)" by auto
  note p = purge_scrubs_keys [OF _ this, of "\<lambda>_. [7, 8, 9]"]
  have "vaultKeys ?s ''a'' = Some \<lparr>key_ref = 0, expiresAt = 9\<rparr>" by simp
  then have "heap (Purge (\<lambda>_. [7, 8, 9]) [''a'', ''b''] ?s) 0 = take (length (heap ?s 0)) [7, 8, 9]"
    using p by fastforce
  with p show ?thesis by (simp add: Let_def)
qed

text \<open>locking the vault overwrites the key under the feet of a request that is already past the
  middleware: the slice in its context, still marked as authenticated, now holds random bytes, and
  whatever the request encrypts with it can never be decrypted.\<close>

theorem locking_scrubs_key_in_flight:
  assumes "VaultKeyMiddleware now s (Some c) = (Some a, True)"
  shows "heap (LockVault rnd (Some c) s) a = take (length (heap s a)) (rnd a)"
  using assms
  by (auto simp: VaultKeyMiddleware_def GetKey_def live_entry_def LockVault_def DeleteKey_fields
      split: option.splits)

theorem locking_scrubs_key_in_flight_witness:
  "heap (LockVault (\<lambda>_. [9, 9]) (Some ''c'') \<lparr>vaultKeys = [''c'' \<mapsto> \<lparr>key_ref = 3, expiresAt = 100\<rparr>], heap = (\<lambda>_. [1, 2])\<rparr>) 3
     = take (length (heap \<lparr>vaultKeys = [''c'' \<mapsto> \<lparr>key_ref = 3, expiresAt = 100\<rparr>], heap = (\<lambda>_. [1, 2])\<rparr> 3)) [9, 9]"
  by (rule locking_scrubs_key_in_flight [of 50])
    (simp add: VaultKeyMiddleware_def GetKey_def live_entry_def time_After_def)

text \<open>the API check lets a request through only with an unexpired user session, an unlocked vault, or
  from the machine itself; but any visitor of the dashboard is given a session of user 1, so one
  visit without any credential is enough to pass the check from any address for thirty days.\<close>

theorem dashboard_visit_grants_api_access:
  assumes visit: "EnsureDashboardSession now rnd None us = (us', u, Some sid)"
    and t: "t \<le> now + UserSessionTTL"
  shows "u = 1 \<and>
    RequireAuth t rnd' vault \<lparr>rq_Authorization = [], rq_UserCookie = Some sid, rq_SwarmCookie = None, rq_RealIP = ip\<rparr> us'
      = (us', Proceed 1 None) \<and>
    (\<forall>rq v cookie us''. RequireAuth t rnd' vault rq us = (us'', Proceed v cookie) \<longrightarrow>
       (\<exists>c. ValidateUserSession t us c = Some v) \<or>
       (\<exists>c. rq_SwarmCookie rq = Some c \<and> HasKey t vault c \<and> v = 1) \<or>
       (rq_RealIP rq \<in> {''127.0.0.1'', ''::1'', []} \<and> v = 1))"
proof (intro conjI allI impI)
  show "u = 1" using visit by (auto simp: EnsureDashboardSession_def split: prod.splits)
  have s: "sid = ''usr_'' @ hex_encode (take 24 rnd)" "us' = fst (CreateUserSession now rnd 1 us)"
    using visit by (auto simp: EnsureDashboardSession_def CreateUserSession_def Let_def)
  have "unexpired t us_ExpiresAt (us' sid) = Some \<lparr>UserID = 1, us_ExpiresAt = now + UserSessionTTL\<rparr>"
    using user_table.alive [of t "(now, rnd, 1)" us] t s by (simp add: time_After_def)
  then have "ValidateUserSession t us' sid = Some 1" using s(1) by (simp add: ValidateUserSession_def time_After_def)
  then show "RequireAuth t rnd' vault \<lparr>rq_Authorization = [], rq_UserCookie = Some sid, rq_SwarmCookie = None, rq_RealIP = ip\<rparr> us'
      = (us', Proceed 1 None)"
    using s(1) by (simp add: RequireAuth_def Let_def)
next
  fix rq v cookie us''
  assume "RequireAuth t rnd' vault rq us = (us'', Proceed v cookie)"
  then show "(\<exists>c. ValidateUserSession t us c = Some v) \<or> (\<exists>c. rq_SwarmCookie rq = Some c \<and> HasKey t vault c \<and> v = 1) \<or>
       (rq_RealIP rq \<in> {''127.0.0.1'', ''::1'', []} \<and> v = 1)"
    by (auto simp: RequireAuth_def Let_def split: if_splits option.splits prod.splits)
qed

theorem dashboard_visit_grants_api_access_witness:
  "\<exists>us' sid. EnsureDashboardSession 0 [1] None Map.empty = (us', 1, Some sid) \<and>
     RequireAuth 5 [] \<lparr>vaultKeys = Map.empty, heap = (\<lambda>_. [])\<rparr>
       \<lparr>rq_Authorization = [], rq_UserCookie = Some sid, rq_SwarmCookie = None, rq_RealIP = ''203.0.113.9''\<rparr> us'
       = (us', Proceed 1 None)"
proof -
  obtain us' u sid where v: "EnsureDashboardSession 0 [1] None Map.empty = (us', u, Some sid)"
    by (simp add: EnsureDashboardSession_def CreateUserSession_def Let_def)
  show ?thesis using dashboard_visit_grants_api_access [OF v, of 5] v by (auto simp: UserSessionTTL_def)
qed

end
