(* ===== verification/Download_Controller.thy ===== *)
theory Download_Controller
  imports Download_Manager Vault_Folders Auth_Sessions
begin

text \<open>
  The handlers of \<^verbatim>\<open>internal/controllers/download_controller.go\<close>, except for \<^verbatim>\<open>ParseLink\<close>. The controller
  holds the manager and the \<^verbatim>\<open>folders\<close> table; a request carries what the middlewares stored in its context
  and the key its \<^verbatim>\<open>swarm_session\<close> cookie leads to. A body that does not bind is \<^const>\<open>None\<close>.
\<close>

section \<open>Requests\<close>

text \<open>\<^verbatim>\<open>c.Get("user_id")\<close>: a type assertion succeeds for the dynamic type alone.\<close>

datatype user_value = NoUser | UserInt int | UserInt64 int

fun context_user :: "auth_result \<Rightarrow> user_value" where
  "context_user (Proceed uid cookie) = UserInt64 uid"
| "context_user Unauthorized = NoUser"

fun GetUserID :: "user_value \<Rightarrow> int" where
  "GetUserID (UserInt64 uid) = (if uid > 0 then uid else 1)"
| "GetUserID _ = 1"

record DownloadCall =
  dr_user :: user_value
  dr_vaultKey :: "bytes option" \<comment> \<open>\<^verbatim>\<open>vault_key\<close> of an authenticated vault\<close>
  dr_cookieKey :: "bytes option"
  dr_countFails :: bool \<comment> \<open>the query for the target folder fails\<close>
  dr_parentFails :: "string \<Rightarrow> bool" \<comment> \<open>the query for a folder's parent fails\<close>

record DownloadController =
  dc_Manager :: DownloadManager
  dc_folders :: "folder_rows option"

datatype call_response =
    DownloadError int
  | Accepted string
  | AcceptedBatch "string list"
  | TaskStatus DownloadTask
  | TaskList "(string \<times> DownloadTask) list"
  | DownloadDismissed
  | DownloadCancelled

section \<open>Folders and keys\<close>

definition parent_query :: "DownloadCall \<Rightarrow> folder_rows \<Rightarrow> string \<Rightarrow> string option" where
  "parent_query rq rows f =
     (if dr_parentFails rq f then None
      else case find (\<lambda>row. fst row = f) rows of None \<Rightarrow> None | Some row \<Rightarrow> snd row)"

definition dc_isVaultFolder :: "DownloadCall \<Rightarrow> DownloadController \<Rightarrow> string \<Rightarrow> bool" where
  "dc_isVaultFolder rq dc folderID =
     (if folderID = ''f2'' then True
      else if folderID \<in> {[], ''f1'', ''f3''} then False
      else case dc_folders dc of None \<Rightarrow> False | Some rows \<Rightarrow> walk_up 50 (parent_query rq rows) folderID)"

definition getVaultKey :: "bytes \<Rightarrow> DownloadCall \<Rightarrow> bytes option" where
  "getVaultKey stdKey rq =
     (case dr_vaultKey rq of
        Some k \<Rightarrow> if k \<noteq> [] \<and> k \<noteq> stdKey then Some k else (case dr_cookieKey rq of Some c \<Rightarrow> (if c \<noteq> [] then Some c else None) | None \<Rightarrow> None)
      | None \<Rightarrow> (case dr_cookieKey rq of Some c \<Rightarrow> (if c \<noteq> [] then Some c else None) | None \<Rightarrow> None))"

text \<open>The folder of the request: \<^const>\<open>None\<close> when the table does not have it, or could not be asked.\<close>

definition wanted_folder :: "DownloadCall \<Rightarrow> DownloadController \<Rightarrow> string \<Rightarrow> string option" where
  "wanted_folder rq dc folderID =
     (if folderID = ''root'' then Some []
      else if folderID \<in> {[], ''f1'', ''f2'', ''f3''} then Some folderID
      else case dc_folders dc of
          None \<Rightarrow> Some folderID
        | Some rows \<Rightarrow> if \<not> dr_countFails rq \<and> folderID \<in> fst ` set rows then Some folderID else None)"

text \<open>The checks both starting handlers make: the folder, whether it is in the vault, and the key.\<close>

definition admit_folder ::
  "bytes \<Rightarrow> DownloadCall \<Rightarrow> DownloadController \<Rightarrow> string \<Rightarrow> int + (string \<times> bool \<times> bytes)" where
  "admit_folder stdKey rq dc folderID =
     (case wanted_folder rq dc folderID of
        None \<Rightarrow> Inl 400
      | Some f \<Rightarrow>
          if dc_isVaultFolder rq dc f then (case getVaultKey stdKey rq of None \<Rightarrow> Inl 401 | Some k \<Rightarrow> Inr (f, True, k))
          else Inr (f, False, []))"

section \<open>Handlers\<close>

record StartBody =
  sb_URL :: string
  sb_FolderID :: string
  sb_Filename :: string
  sb_MaxThreads :: int

record BatchBody =
  bb_Input :: string
  bb_URLs :: "string list"
  bb_FolderID :: string

definition StartDownload ::
  "JobEnv \<Rightarrow> LinkEnv \<Rightarrow> DownloadCall \<Rightarrow> StartBody option \<Rightarrow> DownloadController \<Rightarrow> DownloadController \<times> call_response" where
  "StartDownload env le rq body dc =
     (case body of
        None \<Rightarrow> (dc, DownloadError 400)
      | Some b \<Rightarrow>
          let normURL = le_Normalize le (sb_URL b) in
          if \<not> IsDownloadLink (le_uni le) (le_Normalize le) normURL then (dc, DownloadError 400)
          else case admit_folder (je_stdKey env) rq dc (sb_FolderID b) of
              Inl code \<Rightarrow> (dc, DownloadError code)
            | Inr (folderID, isVault, vk) \<Rightarrow>
                (case StartDownloadWithOptions env le
                   \<lparr>do_OwnerID = GetUserID (dr_user rq), do_FolderID = folderID, do_Link = normURL, do_FilenameOverride = sb_Filename b,
                    do_IsVault = isVault, do_VaultKey = vk, do_MaxThreads = max_threads (sb_MaxThreads b)\<rparr> (dc_Manager dc) of
                   (dm, None) \<Rightarrow> (dc\<lparr>dc_Manager := dm\<rparr>, DownloadError 400)
                 | (dm, Some i) \<Rightarrow> (dc\<lparr>dc_Manager := dm\<rparr>, Accepted i)))"

text \<open>\<open>envs\<close> gives the clock and the random bytes of each task of the batch.\<close>

definition batch_urls :: "LinkEnv \<Rightarrow> BatchBody \<Rightarrow> string list option" where
  "batch_urls le b =
     (if bb_URLs b = [] \<and> bb_Input b \<noteq> [] then
        (case ExpandBatchLinks (le_Normalize le) (bb_Input b) of (urls, None) \<Rightarrow> (if urls = [] then None else Some urls) | (_, Some _) \<Rightarrow> None)
      else if bb_URLs b = [] then None else Some (bb_URLs b))"

definition StartBatch ::
  "(nat \<Rightarrow> JobEnv) \<Rightarrow> LinkEnv \<Rightarrow> DownloadCall \<Rightarrow> BatchBody option \<Rightarrow> DownloadController \<Rightarrow> DownloadController \<times> call_response" where
  "StartBatch envs le rq body dc =
     (case (case body of None \<Rightarrow> None | Some b \<Rightarrow> map_option (\<lambda>urls. (urls, bb_FolderID b)) (batch_urls le b)) of
        None \<Rightarrow> (dc, DownloadError 400)
      | Some (urls, folder) \<Rightarrow>
          (case admit_folder (je_stdKey (envs 0)) rq dc folder of
             Inl code \<Rightarrow> (dc, DownloadError code)
           | Inr (folderID, isVault, vk) \<Rightarrow>
               (case StartBatchDownload le
                  \<lparr>do_OwnerID = GetUserID (dr_user rq), do_FolderID = folderID, do_Link = [], do_FilenameOverride = [],
                   do_IsVault = isVault, do_VaultKey = vk, do_MaxThreads = 0\<rparr> (zip (map envs [0..<length urls]) urls) (dc_Manager dc) of
                  (dm, None) \<Rightarrow> (dc\<lparr>dc_Manager := dm\<rparr>, DownloadError 400)
                | (dm, Some ids) \<Rightarrow> (dc\<lparr>dc_Manager := dm\<rparr>, AcceptedBatch ids))))"

text \<open>\<^verbatim>\<open>c.Get("user_id").(int)\<close> and the comparison with the owner.\<close>

definition foreign_task :: "DownloadCall \<Rightarrow> DownloadTask \<Rightarrow> bool" where
  "foreign_task rq t =
     (case dr_user rq of
        UserInt uid \<Rightarrow> uid > 0 \<and> tk_OwnerID t \<noteq> 0 \<and> tk_OwnerID t \<noteq> uid
      | _ \<Rightarrow> False)"

definition GetDownloadStatus :: "DownloadCall \<Rightarrow> string \<Rightarrow> DownloadController \<Rightarrow> call_response" where
  "GetDownloadStatus rq i dc =
     (case GetTask i (dc_Manager dc) of
        None \<Rightarrow> DownloadError 404
      | Some t \<Rightarrow> if foreign_task rq t then DownloadError 403 else TaskStatus t)"

definition ListDownloads :: "DownloadCall \<Rightarrow> DownloadController \<Rightarrow> call_response" where
  "ListDownloads rq dc = TaskList (ListTasks (GetUserID (dr_user rq)) (dc_Manager dc))"

definition CancelDownload :: "instant \<Rightarrow> DownloadCall \<Rightarrow> string \<Rightarrow> bool \<Rightarrow> DownloadController \<Rightarrow> DownloadController \<times> call_response" where
  "CancelDownload now rq i dismiss dc =
     (case GetTask i (dc_Manager dc) of
        None \<Rightarrow> (dc, DownloadError 404)
      | Some t \<Rightarrow>
          if foreign_task rq t then (dc, DownloadError 403)
          else if dismiss \<or> finished (tk_Status t) then
            (dc\<lparr>dc_Manager := fst (DismissTask i (tk_OwnerID t) (dc_Manager dc))\<rparr>, DownloadDismissed)
          else case CancelTask now i (dc_Manager dc) of
              (dm, ok) \<Rightarrow> (dc\<lparr>dc_Manager := dm\<rparr>, if ok then DownloadCancelled else DownloadError 400))"

definition DismissDownload :: "DownloadCall \<Rightarrow> string \<Rightarrow> DownloadController \<Rightarrow> DownloadController \<times> call_response" where
  "DismissDownload rq i dc =
     (case GetTask i (dc_Manager dc) of
        None \<Rightarrow> (dc, DownloadError 404)
      | Some t \<Rightarrow>
          if foreign_task rq t then (dc, DownloadError 403)
          else case DismissTask i (tk_OwnerID t) (dc_Manager dc) of
              (dm, ok) \<Rightarrow> (dc\<lparr>dc_Manager := dm\<rparr>, if ok then DownloadDismissed else DownloadError 400))"

section \<open>The parent walk\<close>

text \<open>A table with one row per id: then the walk sees the folders within fifty levels below the vault, and no other.\<close>

definition depth :: "folder_rows \<Rightarrow> nat \<Rightarrow> string \<Rightarrow> bool" where
  "depth rows k f \<longleftrightarrow> (''f2'', f) \<in> vault_edges rows ^^ k"

lemma parent_query_map_of:
  assumes "\<not> dr_parentFails rq f"
  shows "parent_query rq rows f = (case map_of rows f of None \<Rightarrow> None | Some p \<Rightarrow> p)"
proof -
  have "map_of rows f = map_option snd (find (\<lambda>row. fst row = f) rows)" by (induction rows) auto
  then show ?thesis using assms by (auto simp: parent_query_def split: option.splits)
qed

lemma edge_row: "(p, f) \<in> vault_edges rows \<longleftrightarrow> (f, Some p) \<in> set rows \<and> p \<noteq> []"
  by (force simp: vault_edges_def children_of_def has_parent_def)

lemma edge_parent:
  assumes "distinct (map fst rows)" "\<not> dr_parentFails rq f"
  shows "(p, f) \<in> vault_edges rows \<longleftrightarrow> parent_query rq rows f = Some p \<and> p \<noteq> []"
proof -
  note edge_row
  also have "(f, Some p) \<in> set rows \<longleftrightarrow> map_of rows f = Some (Some p)" using assms(1) by (simp add: map_of_eq_Some_iff)
  finally show ?thesis using parent_query_map_of [OF assms(2), of rows] by (auto split: option.splits)
qed

lemma ex_pos: "(\<exists>k. 1 \<le> k \<and> k \<le> Suc n \<and> P k) \<longleftrightarrow> (\<exists>k \<le> n. P (Suc k))"
proof
  assume "\<exists>k. 1 \<le> k \<and> k \<le> Suc n \<and> P k"
  then obtain k where "1 \<le> k" "k \<le> Suc n" "P k" by blast
  then show "\<exists>k \<le> n. P (Suc k)" by (cases k) auto
qed auto

lemma depth_steps: "(\<exists>k \<le> n. depth rows k p) \<longleftrightarrow> p = ''f2'' \<or> (\<exists>k. 1 \<le> k \<and> k \<le> n \<and> depth rows k p)"
proof
  assume "\<exists>k \<le> n. depth rows k p"
  then obtain k where "k \<le> n" "depth rows k p" by blast
  then show "p = ''f2'' \<or> (\<exists>k. 1 \<le> k \<and> k \<le> n \<and> depth rows k p)" by (cases k) (simp add: depth_def, fastforce)
next
  have "depth rows 0 ''f2''" by (simp add: depth_def)
  then show "p = ''f2'' \<or> (\<exists>k. 1 \<le> k \<and> k \<le> n \<and> depth rows k p) \<Longrightarrow> \<exists>k \<le> n. depth rows k p" by blast
qed

lemma walk_up_depth:
  assumes d: "distinct (map fst rows)" and q: "\<And>f. \<not> dr_parentFails rq f"
  shows "walk_up n (parent_query rq rows) f \<longleftrightarrow> (\<exists>k. 1 \<le> k \<and> k \<le> n \<and> depth rows k f)"
proof (induction n arbitrary: f)
  case (Suc n)
  have step: "depth rows (Suc k) f \<longleftrightarrow> (\<exists>p. depth rows k p \<and> parent_query rq rows f = Some p \<and> p \<noteq> [])" for k
    by (auto simp: depth_def edge_parent [OF d q] relcomp.simps)
  have "(\<exists>k \<le> n. depth rows (Suc k) f) \<longleftrightarrow> (\<exists>p. parent_query rq rows f = Some p \<and> p \<noteq> [] \<and> (\<exists>k \<le> n. depth rows k p))"
    unfolding step by blast
  also have "\<dots> \<longleftrightarrow> walk_up (Suc n) (parent_query rq rows) f"
    unfolding depth_steps Suc.IH [symmetric] by (simp split: option.split) blast
  finally show ?case unfolding ex_pos by simp
qed auto

lemma in_vault_depth: "in_vault rows f \<longleftrightarrow> (\<exists>k. depth rows k f)"
  by (simp add: in_vault_def depth_def rtrancl_power)

section \<open>Starting a download\<close>

lemma started_job:
  assumes "StartDownloadWithOptions env le opts dm = (dm', Some i)"
  shows "i = new_task_id env \<and> (\<exists>j. dm_jobs dm' i = Some j \<and> jb_phase j = NotStarted (do_IsVault opts) (do_VaultKey opts)) \<and>
    tk_OwnerID (dm_objs dm' i) = do_OwnerID opts \<and> tk_FolderID (dm_objs dm' i) = do_FolderID opts \<and> i \<in> set (dm_tasks dm')"
  using assms by (auto simp: StartDownloadWithOptions_def Let_def split: if_splits option.splits)

lemma accepted_job:
  assumes "StartDownload env le rq body dc = (dc', Accepted i)"
  obtains b f isVault vk j where "body = Some b" "admit_folder (je_stdKey env) rq dc (sb_FolderID b) = Inr (f, isVault, vk)"
    "dm_jobs (dc_Manager dc') i = Some j" "jb_phase j = NotStarted isVault vk" "tk_FolderID (dm_objs (dc_Manager dc') i) = f"
  using assms by (fastforce simp: StartDownload_def Let_def split: option.splits if_splits sum.splits prod.splits dest: started_job)

text \<open>A batch: every task it lists has a goroutine with the options of the batch.\<close>

lemma start_keeps:
  assumes "StartDownloadWithOptions env le opts dm = (dm', r)" "dm_jobs dm i = Some j"
    "jb_phase j = NotStarted (do_IsVault opts) (do_VaultKey opts)"
  shows "\<exists>j. dm_jobs dm' i = Some j \<and> jb_phase j = NotStarted (do_IsVault opts) (do_VaultKey opts)"
  using assms by (auto simp: StartDownloadWithOptions_def Let_def split: if_splits option.splits)

lemma start_each_keeps:
  assumes "start_each le opts links dm = (dm', ids)" "dm_jobs dm i = Some j"
    "jb_phase j = NotStarted (do_IsVault opts) (do_VaultKey opts)"
  shows "\<exists>j. dm_jobs dm' i = Some j \<and> jb_phase j = NotStarted (do_IsVault opts) (do_VaultKey opts)"
  using assms
proof (induction links arbitrary: dm j ids dm')
  case (Cons a links)
  obtain env l where a: "a = (env, l)" by fastforce
  obtain dm1 r where 1: "StartDownloadWithOptions env le (opts\<lparr>do_Link := l, do_FilenameOverride := [], do_MaxThreads := 20\<rparr>) dm = (dm1, r)"
    by (rule prod.exhaust)
  obtain dm2 ids2 where 2: "start_each le opts links dm1 = (dm2, ids2)" by (rule prod.exhaust)
  obtain j1 where "dm_jobs dm1 i = Some j1" "jb_phase j1 = NotStarted (do_IsVault opts) (do_VaultKey opts)"
    using start_keeps [OF 1 Cons.prems(2)] Cons.prems(3) by auto
  from Cons.IH [OF 2 this] Cons.prems(1) 1 2 show ?case by (simp add: a)
qed auto

lemma start_each_jobs:
  assumes "start_each le opts links dm = (dm', ids)" "i \<in> set ids"
  shows "\<exists>j. dm_jobs dm' i = Some j \<and> jb_phase j = NotStarted (do_IsVault opts) (do_VaultKey opts)"
  using assms
proof (induction links arbitrary: dm ids dm')
  case (Cons a links)
  obtain env l where a: "a = (env, l)" by fastforce
  obtain dm1 r where 1: "StartDownloadWithOptions env le (opts\<lparr>do_Link := l, do_FilenameOverride := [], do_MaxThreads := 20\<rparr>) dm = (dm1, r)"
    by (rule prod.exhaust)
  obtain dm2 ids2 where 2: "start_each le opts links dm1 = (dm2, ids2)" by (rule prod.exhaust)
  have d: "dm' = dm2" "ids = (case r of None \<Rightarrow> [] | Some i \<Rightarrow> [i]) @ ids2" using Cons.prems(1) 1 2 by (simp_all add: a)
  show ?case
  proof (cases "i \<in> set ids2")
    case True
    then show ?thesis using Cons.IH [OF 2] d by simp
  next
    case False
    then have "r = Some i" using Cons.prems(2) d(2) by (auto split: option.splits)
    with started_job [of env le _ dm dm1 i] 1 obtain j1 where
      "dm_jobs dm1 i = Some j1" "jb_phase j1 = NotStarted (do_IsVault opts) (do_VaultKey opts)" by fastforce
    from start_each_keeps [OF 2 this] d show ?thesis by simp
  qed
qed auto

lemma accepted_batch:
  assumes "StartBatch envs le rq (Some b) dc = (dc', AcceptedBatch ids)" "i \<in> set ids"
  obtains f isVault vk j where "admit_folder (je_stdKey (envs 0)) rq dc (bb_FolderID b) = Inr (f, isVault, vk)"
    "dm_jobs (dc_Manager dc') i = Some j" "jb_phase j = NotStarted isVault vk"
proof -
  obtain urls where u: "batch_urls le b = Some urls" using assms(1) by (auto simp: StartBatch_def split: option.splits)
  obtain f isVault vk where a: "admit_folder (je_stdKey (envs 0)) rq dc (bb_FolderID b) = Inr (f, isVault, vk)"
    using assms(1) by (auto simp: StartBatch_def u split: sum.splits)
  let ?opts = "\<lparr>do_OwnerID = GetUserID (dr_user rq), do_FolderID = f, do_Link = [], do_FilenameOverride = [],
      do_IsVault = isVault, do_VaultKey = vk, do_MaxThreads = 0\<rparr>"
  obtain dm created where s: "start_each le ?opts (zip (map envs [0..<length urls]) urls) (dc_Manager dc) = (dm, created)"
    by (rule prod.exhaust)
  have "dc_Manager dc' = dm" "ids = created"
    using assms(1) by (auto simp: StartBatch_def u a StartBatchDownload_def s split: if_splits)
  with start_each_jobs [OF s] assms(2) that a show thesis by auto
qed

lemma admitted:
  assumes "admit_folder stdKey rq dc folder = Inr (f, isVault, vk)"
  shows "isVault = dc_isVaultFolder rq dc f" "isVault \<Longrightarrow> getVaultKey stdKey rq = Some vk" "wanted_folder rq dc folder = Some f"
  using assms by (auto simp: admit_folder_def split: option.splits if_splits)

lemma vault_key_chosen: "getVaultKey stdKey rq = Some k \<Longrightarrow> k \<noteq> [] \<and> (dr_vaultKey rq = Some k \<or> dr_cookieKey rq = Some k)"
  by (auto simp: getVaultKey_def split: option.splits if_splits)

text \<open>A goroutine that will use the vault key of the request, or none.\<close>

definition vault_job :: "bytes \<Rightarrow> DownloadCall \<Rightarrow> DownloadManager \<Rightarrow> string \<Rightarrow> bool" where
  "vault_job stdKey rq dm i \<longleftrightarrow>
     (\<exists>j vk. dm_jobs dm i = Some j \<and> jb_phase j = NotStarted True vk \<and> vk \<noteq> [] \<and>
        (dr_vaultKey rq = Some vk \<or> dr_cookieKey rq = Some vk) \<and>
        (\<forall>env. je_stdKey env = stdKey \<longrightarrow> job_key env True vk \<in> {None, Some vk} \<and> job_key env True vk \<noteq> Some stdKey))"

section \<open>Properties\<close>

text \<open>C18: a download into the vault is encrypted with a key of the request. Into a folder at most fifty levels below
  the vault, single downloads and batches alike are accepted only with a vault key, and every goroutine they start then
  uses that key or, if it is the storage key, gives up; without a key the answer is an error and no task is made. No
  query for the parent of a folder fails: where one does, the folder counts as one outside the vault.\<close>

theorem vault_download_needs_key:
  assumes "dc_folders dc = Some rows" "distinct (map fst rows)" "\<And>f. \<not> dr_parentFails rq f" "depth rows k f" "k \<le> 50"
    and "presets_ok rows" "f \<noteq> ''root''" "sb_FolderID b = f" "bb_FolderID bb = f"
    and "StartDownload env le rq (Some b) dc = (dc1, r1)" "StartBatch envs le rq (Some bb) dc = (dc2, r2)"
  shows "(getVaultKey (je_stdKey env) rq = None \<longrightarrow> dc1 = dc \<and> (\<exists>code. r1 = DownloadError code)) \<and>
    (\<forall>i. r1 = Accepted i \<longrightarrow> vault_job (je_stdKey env) rq (dc_Manager dc1) i) \<and>
    (getVaultKey (je_stdKey (envs 0)) rq = None \<longrightarrow> dc2 = dc \<and> (\<exists>code. r2 = DownloadError code)) \<and>
    (\<forall>ids. r2 = AcceptedBatch ids \<longrightarrow> (\<forall>i \<in> set ids. vault_job (je_stdKey (envs 0)) rq (dc_Manager dc2) i))"
proof -
  have out: "f \<notin> {[], ''f1'', ''f3''}"
    using presets_outside [OF assms(6), of f] assms(4) by (auto simp: in_vault_depth)
  have v: "dc_isVaultFolder rq dc f"
  proof (cases "f = ''f2''")
    case False
    with assms(4) have "1 \<le> k" by (cases k) (auto simp: depth_def)
    then have "walk_up 50 (parent_query rq rows) f"
      unfolding walk_up_depth [OF assms(2,3)] using assms(4,5) by blast
    then show ?thesis using out False by (simp add: dc_isVaultFolder_def assms(1))
  qed (simp add: dc_isVaultFolder_def)
  have t: "wanted_folder rq dc f \<in> {None, Some f}"
    using assms(7) by (auto simp: wanted_folder_def split: option.splits)
  have admit: "admit_folder stdKey rq dc f \<in> range Inl \<or>
      (\<exists>vk. getVaultKey stdKey rq = Some vk \<and> admit_folder stdKey rq dc f = Inr (f, True, vk))" for stdKey
    using t v by (auto simp: admit_folder_def split: option.splits)
  have job: "vault_job stdKey rq dm i"
    if "getVaultKey stdKey rq = Some vk" "dm_jobs dm i = Some j" "jb_phase j = NotStarted True vk" for stdKey vk dm i j
    using that vault_key_chosen [OF that(1)] by (auto simp: vault_job_def job_key_def)
  have single: "vault_job (je_stdKey env) rq (dc_Manager dc1) i" if "r1 = Accepted i" for i
  proof -
    have S: "StartDownload env le rq (Some b) dc = (dc1, Accepted i)" using assms(10) that by simp
    obtain b' g isVault vk j where "Some b = Some b'" "admit_folder (je_stdKey env) rq dc (sb_FolderID b') = Inr (g, isVault, vk)"
      "dm_jobs (dc_Manager dc1) i = Some j" "jb_phase j = NotStarted isVault vk"
      by (rule accepted_job [OF S])
    with admit [of "je_stdKey env"] job assms(8) show ?thesis by auto
  qed
  have batch: "vault_job (je_stdKey (envs 0)) rq (dc_Manager dc2) i" if R: "r2 = AcceptedBatch ids" "i \<in> set ids" for ids i
  proof -
    have S: "StartBatch envs le rq (Some bb) dc = (dc2, AcceptedBatch ids)" using assms(11) R(1) by simp
    obtain g isVault vk j where "admit_folder (je_stdKey (envs 0)) rq dc (bb_FolderID bb) = Inr (g, isVault, vk)"
      "dm_jobs (dc_Manager dc2) i = Some j" "jb_phase j = NotStarted isVault vk"
      by (rule accepted_batch [OF S R(2)])
    with admit [of "je_stdKey (envs 0)"] job assms(9) show ?thesis by auto
  qed
  have refused: "admit_folder stdKey rq dc f \<in> range Inl" if "getVaultKey stdKey rq = None" for stdKey
    using admit [of stdKey] that by auto
  have "dc1 = dc \<and> (\<exists>code. r1 = DownloadError code)" if "getVaultKey (je_stdKey env) rq = None"
    using refused [OF that] assms(8,10) by (auto simp: StartDownload_def Let_def split: if_splits)
  moreover have "dc2 = dc \<and> (\<exists>code. r2 = DownloadError code)" if "getVaultKey (je_stdKey (envs 0)) rq = None"
    using refused [OF that] assms(9,11) by (auto simp: StartBatch_def split: option.splits)
  ultimately show ?thesis using single batch by blast
qed

text \<open>a failing query for a parent opens the vault: the walk takes the folder for one outside of it, and the download is
  accepted from anybody and encrypted with the storage key.\<close>

theorem failing_parent_query_unprotected:
  assumes "dc_folders dc = Some rows" "f \<in> fst ` set rows" "f \<notin> {[], ''root'', ''f1'', ''f2'', ''f3''}"
    and "dr_parentFails rq f" "\<not> dr_countFails rq" "sb_FolderID b = f" "StartDownload env le rq (Some b) dc = (dc', Accepted i)"
  shows "\<exists>j. dm_jobs (dc_Manager dc') i = Some j \<and> jb_phase j = NotStarted False [] \<and> job_key env False [] = Some (je_stdKey env)"
proof -
  have "\<not> walk_up 50 (parent_query rq rows) f"
    using assms(4) by (subst walk_up.simps(2) [of 49, simplified]) (simp add: parent_query_def)
  then have A: "admit_folder (je_stdKey env) rq dc f = Inr (f, False, [])"
    using assms(1-3,5) by (simp add: admit_folder_def wanted_folder_def dc_isVaultFolder_def)
  obtain b' g isVault vk j where "Some b = Some b'" "admit_folder (je_stdKey env) rq dc (sb_FolderID b') = Inr (g, isVault, vk)"
    "dm_jobs (dc_Manager dc') i = Some j" "jb_phase j = NotStarted isVault vk"
    by (rule accepted_job [OF assms(7)])
  with A assms(6) show ?thesis by (auto simp: job_key_def)
qed

lemma deep_admitted:
  assumes "dc_folders dc = Some rows" "distinct (map fst rows)" "\<And>f. \<not> dr_parentFails rq f" "depth rows k f" "50 < k"
    and "f \<notin> {[], ''root'', ''f1'', ''f2'', ''f3''}" "map_of rows ''f2'' = Some None" "\<not> dr_countFails rq"
  shows "admit_folder stdKey rq dc f = Inr (f, False, [])"
proof -
  have row: "f \<in> fst ` set rows" using assms(4,5) by (cases k) (auto simp: depth_def vault_edges_def children_of_def)
  have nv: "\<not> depth rows m f" if "m \<le> 50" for m
  proof
    assume m: "depth rows m f"
    have top: "(p, ''f2'') \<notin> vault_edges rows" for p
      using edge_parent [OF assms(2,3), of p "''f2''"] assms(7) by (simp add: parent_query_map_of [OF assms(3)])
    have "m = k" using m assms(4)
    proof (induction m arbitrary: k f)
      case 0
      then show ?case using top by (cases k) (auto simp: depth_def)
    next
      case (Suc m)
      then obtain p where p: "depth rows m p" "(p, f) \<in> vault_edges rows" by (auto simp: depth_def)
      then have "k \<noteq> 0" using Suc.prems(2) top by (cases k) (auto simp: depth_def)
      then obtain k' p' where p': "k = Suc k'" "depth rows k' p'" "(p', f) \<in> vault_edges rows"
        using Suc.prems(2) by (cases k) (auto simp: depth_def)
      have "p' = p" using p(2) p'(3) by (simp add: edge_parent [OF assms(2,3)])
      with Suc.IH p p' show ?case by simp
    qed
    with that assms(5) show False by simp
  qed
  then have "\<not> walk_up 50 (parent_query rq rows) f" unfolding walk_up_depth [OF assms(2,3)] by blast
  then show ?thesis
    using assms(1,6,8) row by (simp add: admit_folder_def wanted_folder_def dc_isVaultFolder_def)
qed

text \<open>the parent walk gives up after fifty levels. Into a folder further down, which the file browser treats as part of
  the vault, a download is accepted from anybody, without a vault key, and is encrypted with the storage key.\<close>

theorem deep_vault_download_unprotected:
  assumes "dc_folders dc = Some rows" "distinct (map fst rows)" "\<And>f. \<not> dr_parentFails rq f" "depth rows k f" "50 < k"
    and "f \<notin> {[], ''root'', ''f1'', ''f2'', ''f3''}" "map_of rows ''f2'' = Some None" "\<not> dr_countFails rq"
    and "sb_FolderID b = f" "StartDownload env le rq (Some b) dc = (dc', Accepted i)"
  shows "in_vault rows f \<and> admit_folder (je_stdKey env) rq dc f = Inr (f, False, []) \<and>
    (\<exists>j. dm_jobs (dc_Manager dc') i = Some j \<and> jb_phase j = NotStarted False [] \<and> job_key env False [] = Some (je_stdKey env))"
proof -
  obtain b' g isVault vk j where "Some b = Some b'" "admit_folder (je_stdKey env) rq dc (sb_FolderID b') = Inr (g, isVault, vk)"
    "dm_jobs (dc_Manager dc') i = Some j" "jb_phase j = NotStarted isVault vk"
    by (rule accepted_job [OF assms(10)])
  with deep_admitted [OF assms(1-8), of "je_stdKey env"] assms(4,9) show ?thesis by (auto simp: in_vault_depth job_key_def)
qed

text \<open>the checks of ownership never refuse anything: the middleware stores an \<^verbatim>\<open>int64\<close> and the handlers ask for an
  \<^verbatim>\<open>int\<close>, so that any user who gets through the authentication reads, cancels and dismisses the task of any other.\<close>

theorem ownership_never_checked:
  assumes "RequireAuth now rnd vault arq us = (us', auth)" "dr_user rq = context_user auth" "GetTask i (dc_Manager dc) = Some t"
  shows "GetDownloadStatus rq i dc = TaskStatus t \<and>
    (tk_Status t \<in> {StatusPending, StatusDownloading} \<longrightarrow> snd (CancelDownload at rq i False dc) = DownloadCancelled) \<and>
    (finished (tk_Status t) \<longrightarrow> snd (DismissDownload rq i dc) = DownloadDismissed)"
proof -
  have nf: "\<not> foreign_task rq t" using assms(2) by (cases auth) (auto simp: foreign_task_def)
  have t: "i \<in> set (dm_tasks (dc_Manager dc))" "dm_objs (dc_Manager dc) i = t" using assms(3) by (auto simp: GetTask_def split: if_splits)
  then show ?thesis
    using nf assms(3)
    by (auto simp: GetDownloadStatus_def CancelDownload_def DismissDownload_def CancelTask_def DismissTask_def finished_def split: prod.splits)
qed

section \<open>Witnesses\<close>

definition ex_body :: "string \<Rightarrow> StartBody" where
  "ex_body f = \<lparr>sb_URL = ''http://x/a.bin'', sb_FolderID = f, sb_Filename = [], sb_MaxThreads = 0\<rparr>"

definition ex_request :: "bytes option \<Rightarrow> DownloadCall" where
  "ex_request key = \<lparr>dr_user = UserInt64 2, dr_vaultKey = key, dr_cookieKey = None, dr_countFails = False, dr_parentFails = (\<lambda>_. False)\<rparr>"

text \<open>A chain of 51 folders below the vault.\<close>

definition ex_name :: "nat \<Rightarrow> string" where "ex_name n = replicate (Suc n) (CHR ''x'')"

definition ex_chain :: folder_rows where
  "ex_chain = (''f2'', None) # map (\<lambda>n. (ex_name n, Some (case n of 0 \<Rightarrow> ''f2'' | Suc m \<Rightarrow> ex_name m))) [0..<51]"

lemma ex_name_neq [simp]:
  "ex_name n \<noteq> []" "ex_name n \<noteq> ''root''" "ex_name n \<noteq> ''f1''" "ex_name n \<noteq> ''f2''" "''f2'' \<noteq> ex_name n" "ex_name n \<noteq> ''f3''"
  "ex_name m = ex_name n \<longleftrightarrow> m = n"
  by (auto simp: ex_name_def Cons_replicate_eq replicate_eq_replicate)

lemma ex_chain_row: "n < 51 \<Longrightarrow> (ex_name n, Some (case n of 0 \<Rightarrow> ''f2'' | Suc m \<Rightarrow> ex_name m)) \<in> set ex_chain"
  by (auto simp: ex_chain_def)

lemma ex_chain_ids: "n < 51 \<Longrightarrow> ex_name n \<in> fst ` set ex_chain"
  using ex_chain_row by force

lemma ex_chain_ok: "distinct (map fst ex_chain)" "presets_ok ex_chain" "map_of ex_chain ''f2'' = Some None"
  by (auto simp: ex_chain_def presets_ok_def has_parent_def distinct_map inj_on_def comp_def)

lemma ex_chain_depth: "n < 51 \<Longrightarrow> depth ex_chain (Suc n) (ex_name n)"
proof (induction n)
  case 0
  then show ?case using ex_chain_row [of 0] by (simp add: depth_def edge_row)
next
  case (Suc n)
  then have "(ex_name n, ex_name (Suc n)) \<in> vault_edges ex_chain" using ex_chain_row [of "Suc n"] by (simp add: edge_row)
  then show ?case using Suc by (auto simp: depth_def)
qed

lemma ex_link: "IsDownloadLink (\<lambda>s. s) (\<lambda>s. s) ''http://x/a.bin''" by code_simp

lemma ex_accepts:
  assumes "admit_folder (replicate 32 7) rq dc f = Inr a"
  shows "\<exists>dc' i. StartDownload ex_jenv ex_links rq (Some (ex_body f)) dc = (dc', Accepted i)"
  using assms ex_link ex_direct
  by (cases a) (auto simp: StartDownload_def ex_body_def ex_links_def ex_jenv_def StartDownloadWithOptions_def Let_def)

theorem vault_download_needs_key_witness:
  "\<exists>dc' i. StartDownload ex_jenv ex_links (ex_request (Some (replicate 32 9))) (Some (ex_body (ex_name 0)))
       \<lparr>dc_Manager = ex_manager, dc_folders = Some ex_chain\<rparr> = (dc', Accepted i) \<and>
     vault_job (replicate 32 7) (ex_request (Some (replicate 32 9))) (dc_Manager dc') i"
proof -
  let ?rq = "ex_request (Some (replicate 32 9))" and ?dc = "\<lparr>dc_Manager = ex_manager, dc_folders = Some ex_chain\<rparr>"
  let ?bb = "\<lparr>bb_Input = [], bb_URLs = [''http://x/a.bin''], bb_FolderID = ex_name 0\<rparr>"
  have q: "\<not> dr_parentFails ?rq g" for g by (simp add: ex_request_def)
  have d: "depth ex_chain 1 (ex_name 0)" using ex_chain_depth [of 0] by simp
  have "walk_up 50 (parent_query ?rq ex_chain) (ex_name 0)"
    unfolding walk_up_depth [OF ex_chain_ok(1) q] using d by (intro exI [of _ 1]) simp
  moreover have "ex_name 0 \<in> fst ` set ex_chain" by (simp add: ex_chain_ids)
  ultimately have "admit_folder (replicate 32 7) ?rq ?dc (ex_name 0) = Inr (ex_name 0, True, replicate 32 9)"
    by (simp add: admit_folder_def wanted_folder_def dc_isVaultFolder_def getVaultKey_def ex_request_def)
  from ex_accepts [OF this] obtain dc' i where S:
    "StartDownload ex_jenv ex_links ?rq (Some (ex_body (ex_name 0))) ?dc = (dc', Accepted i)" by blast
  obtain dc2 r2 where B: "StartBatch (\<lambda>_. ex_jenv) ex_links ?rq (Some ?bb) ?dc = (dc2, r2)" by (rule prod.exhaust)
  have dc: "dc_folders ?dc = Some ex_chain" and f: "ex_name 0 \<noteq> ''root''" "sb_FolderID (ex_body (ex_name 0)) = ex_name 0" "bb_FolderID ?bb = ex_name 0"
    by (simp_all add: ex_body_def)
  have "je_stdKey ex_jenv = replicate 32 7" by (simp add: ex_jenv_def)
  with vault_download_needs_key [OF dc ex_chain_ok(1) q d _ ex_chain_ok(2) f S B] S show ?thesis by auto
qed

theorem deep_vault_download_unprotected_witness:
  "in_vault ex_chain (ex_name 50) \<and>
   (\<exists>dc' i j. StartDownload ex_jenv ex_links (ex_request None) (Some (ex_body (ex_name 50)))
       \<lparr>dc_Manager = ex_manager, dc_folders = Some ex_chain\<rparr> = (dc', Accepted i) \<and>
     dm_jobs (dc_Manager dc') i = Some j \<and> jb_phase j = NotStarted False [])"
proof -
  let ?rq = "ex_request None" and ?dc = "\<lparr>dc_Manager = ex_manager, dc_folders = Some ex_chain\<rparr>"
  have q: "\<not> dr_parentFails ?rq g" for g by (simp add: ex_request_def)
  have c: "\<not> dr_countFails ?rq" by (simp add: ex_request_def)
  have d: "depth ex_chain 51 (ex_name 50)" using ex_chain_depth [of 50] by simp
  have n: "ex_name 50 \<notin> {[], ''root'', ''f1'', ''f2'', ''f3''}" and b: "sb_FolderID (ex_body (ex_name 50)) = ex_name 50" and dc: "dc_folders ?dc = Some ex_chain"
    by (simp_all add: ex_body_def)
  have "admit_folder (replicate 32 7) ?rq ?dc (ex_name 50) = Inr (ex_name 50, False, [])"
    using deep_admitted [OF dc ex_chain_ok(1) q d _ n ex_chain_ok(3) c] by simp
  from ex_accepts [OF this] obtain dc' i where S: "StartDownload ex_jenv ex_links ?rq (Some (ex_body (ex_name 50))) ?dc = (dc', Accepted i)" by blast
  from deep_vault_download_unprotected [OF dc ex_chain_ok(1) q d _ n ex_chain_ok(3) c b S] S show ?thesis by auto
qed

theorem ownership_never_checked_witness:
  "\<exists>dc. dr_user (ex_request None) = context_user (Proceed 2 None) \<and>
     tk_OwnerID (dm_objs (dc_Manager dc) ex_task) = 1 \<and>
     GetDownloadStatus (ex_request None) ex_task dc = TaskStatus (dm_objs (dc_Manager dc) ex_task)"
proof -
  obtain j where j: "ex_task \<in> set (dm_tasks ex_started)" "tk_OwnerID (dm_objs ex_started ex_task) = 1" by (rule ex_job)
  let ?dc = "\<lparr>dc_Manager = ex_started, dc_folders = None\<rparr>"
  let ?rq = "\<lparr>rq_Authorization = [], rq_UserCookie = Some ''u'', rq_SwarmCookie = None, rq_RealIP = ''9''\<rparr>"
  have a: "RequireAuth 0 [] \<lparr>vaultKeys = Map.empty, heap = (\<lambda>_. [])\<rparr> ?rq [''u'' \<mapsto> \<lparr>UserID = 2, us_ExpiresAt = 5\<rparr>] =
      ([''u'' \<mapsto> \<lparr>UserID = 2, us_ExpiresAt = 5\<rparr>], Proceed 2 None)"
    by (simp add: RequireAuth_def ValidateUserSession_def time_After_def)
  have t: "GetTask ex_task (dc_Manager ?dc) = Some (dm_objs ex_started ex_task)" using j by (simp add: GetTask_def)
  have u: "dr_user (ex_request None) = context_user (Proceed 2 None)" by (simp add: ex_request_def)
  from ownership_never_checked [OF a u t] j u show ?thesis by (intro exI [of _ ?dc]) simp
qed

end
