(* ===== verification/Panic_Purge.thy ===== *)
theory Panic_Purge
  imports Download_Controller
begin

text \<open>
  The panic purge: \<^verbatim>\<open>internal/controllers/security_controller.go\<close>. It acts on all components at once, so its
  state is a record of theirs: the vault keys, the download manager with the disk, the store and the table of
  files, the upload sessions, the folders and the vault cache. \<^verbatim>\<open>filepath.Walk\<close> is a function from the disk to the
  files it visits; directories are not represented, so \<^verbatim>\<open>pruneEmptyDirs\<close> is left out. Shredding also returns what
  the sectors of the file hold when it is unlinked.
\<close>

section \<open>Shredding\<close>

record ShredEnv =
  sh_fails :: faults
  sh_rnd :: "string \<Rightarrow> nat \<Rightarrow> byte"
  sh_stop :: "string \<Rightarrow> nat option" \<comment> \<open>bytes after which writing to the file fails\<close>
  sh_truncFails :: "string \<Rightarrow> bool"

text \<open>The loop over blocks of the buffer; \<open>rnd\<close> are the random bytes, \<open>d\<close> the contents of the file.\<close>

function shred_loop :: "nat \<Rightarrow> (nat \<Rightarrow> byte) \<Rightarrow> nat option \<Rightarrow> nat \<Rightarrow> bytes \<Rightarrow> bytes" where
  "shred_loop buf rnd stop written d =
     (if written < length d \<and> 0 < buf then
        let n = min buf (length d - written); ok = (case stop of None \<Rightarrow> n | Some s \<Rightarrow> min n (s - written));
            d' = take written d @ map rnd [written..<written + ok] @ drop (written + ok) d
        in if ok < n then d' else shred_loop buf rnd stop (written + n) d'
      else d)"
  by pat_completeness auto
termination
  by (relation "measure (\<lambda>(buf, rnd, stop, written, d). length d - written)") (auto simp: Let_def split: option.splits)

declare shred_loop.simps [simp del]

definition shredFile :: "ShredEnv \<Rightarrow> nat \<Rightarrow> string \<Rightarrow> fs \<Rightarrow> fs \<times> bytes option" where
  "shredFile env buf path fs =
     (case os_Open (sh_fails env) path fs of
        None \<Rightarrow> (os_Remove (sh_fails env) path fs, fs path)
      | Some d \<Rightarrow>
          if sh_fails env (StatCall path) then (os_Remove (sh_fails env) path fs, Some d)
          else
            let d' = shred_loop buf (sh_rnd env path) (sh_stop env path) 0 d
            in (os_Remove (sh_fails env) path (fs(path \<mapsto> if sh_truncFails env path then d' else [])), Some d'))"

definition shred_files :: "ShredEnv \<Rightarrow> nat \<Rightarrow> string list \<Rightarrow> fs \<Rightarrow> fs" where
  "shred_files env buf paths fs = fold (\<lambda>p fs. fst (shredFile env buf p fs)) paths fs"

definition shredDirectoryFiles :: "ShredEnv \<Rightarrow> nat \<Rightarrow> (string \<Rightarrow> fs \<Rightarrow> string list) \<Rightarrow> string \<Rightarrow> fs \<Rightarrow> fs" where
  "shredDirectoryFiles env buf walk root fs = (if root = [] then fs else shred_files env buf (walk root fs) fs)"

section \<open>The purge\<close>

record SecurityController =
  sc_keys :: SessionStore
  sc_dm :: DownloadManager \<comment> \<open>with the disk, the store and the table of files\<close>
  sc_sessions :: SessionManager
  sc_completed :: "string \<rightharpoonup> instant"
  sc_folders :: folder_rows
  sc_vault :: VaultCache
  sc_TmpDir :: string

record PurgeEnv =
  pe_now :: instant
  pe_shred :: ShredEnv
  pe_walk :: "string \<Rightarrow> fs \<Rightarrow> string list"
  pe_verify :: "string \<Rightarrow> bool" \<comment> \<open>\<^verbatim>\<open>VerifyMasterPassword\<close>\<close>
  pe_keyRnd :: "nat \<Rightarrow> bytes"
  pe_keyOrder :: "string list"
  pe_sessionOrder :: "string list"
  pe_listing :: "fs \<Rightarrow> string list option"
  pe_filesFail :: bool
  pe_foldersFail :: bool

record PurgeRequest =
  pq_cookie :: "string option"
  pq_Password :: string

datatype purge_response = Purged | PurgeDenied

definition purge_allowed :: "PurgeEnv \<Rightarrow> PurgeRequest \<Rightarrow> SecurityController \<Rightarrow> bool" where
  "purge_allowed env rq sc \<longleftrightarrow>
     (case pq_cookie rq of None \<Rightarrow> False | Some c \<Rightarrow> HasKey (pe_now env) (sc_keys sc) c) \<or>
     (pq_Password rq \<noteq> [] \<and> pe_verify env (pq_Password rq))"

definition shred_dir :: "PurgeEnv \<Rightarrow> string \<Rightarrow> SecurityController \<Rightarrow> SecurityController" where
  "shred_dir env root sc =
     sc\<lparr>sc_dm := (sc_dm sc)\<lparr>dm_fs := shredDirectoryFiles (pe_shred env) (1024 * 1024) (pe_walk env) root (dm_fs (sc_dm sc))\<rparr>\<rparr>"

definition thumbnails :: string where "thumbnails = ''storage/thumbnails''"

definition purge_memory :: "PurgeEnv \<Rightarrow> SecurityController \<Rightarrow> SecurityController" where
  "purge_memory env sc =
     sc\<lparr>sc_keys := Purge (pe_keyRnd env) (pe_keyOrder env) (sc_keys sc), sc_dm := CancelAllTasks (pe_now env) (sc_dm sc)\<rparr>"

definition purge_store :: "PurgeEnv \<Rightarrow> SecurityController \<Rightarrow> SecurityController" where
  "purge_store env sc =
     (let base = BaseDir (dm_cas (sc_dm sc)); sc1 = shred_dir env base sc in
      if base = [] then sc else sc1\<lparr>sc_dm := (sc_dm sc1)\<lparr>dm_cas := cas_ClearCache (dm_cas (sc_dm sc1))\<rparr>\<rparr>)"

definition purge_tables :: "PurgeEnv \<Rightarrow> SecurityController \<Rightarrow> SecurityController" where
  "purge_tables env sc =
     sc\<lparr>sc_dm := (sc_dm sc)\<lparr>dm_files := (if pe_filesFail env then dm_files (sc_dm sc) else [])\<rparr>,
        sc_folders := (if pe_foldersFail env then sc_folders sc
                       else filter (\<lambda>row. fst row \<in> {''f1'', ''f2'', ''f3''}) (sc_folders sc)),
        sc_vault := InvalidateVaultCache (sc_vault sc)\<rparr>"

definition purge_temp :: "PurgeEnv \<Rightarrow> SecurityController \<Rightarrow> SecurityController" where
  "purge_temp env sc =
     (let sc1 = shred_dir env (sc_TmpDir sc) (shred_dir env thumbnails sc); dir = dm_TmpDir (sc_dm sc)
      in if dir \<noteq> [] \<and> dir \<noteq> sc_TmpDir sc then shred_dir env dir sc1 else sc1)"

definition purge_sessions :: "PurgeEnv \<Rightarrow> SecurityController \<Rightarrow> SecurityController" where
  "purge_sessions env sc =
     (case PurgeAll (sh_fails (pe_shred env)) (pe_sessionOrder env) (pe_listing env) (sc_sessions sc, dm_fs (sc_dm sc)) of
        ((sm, fs), _) \<Rightarrow>
          (case PurgeAll (sh_fails (pe_shred env)) [] (pe_listing env) (sm, fs) of
             ((sm', fs'), _) \<Rightarrow> sc\<lparr>sc_sessions := sm', sc_completed := Map.empty, sc_dm := (sc_dm sc)\<lparr>dm_fs := fs'\<rparr>\<rparr>))"

definition PanicPurge :: "PurgeEnv \<Rightarrow> PurgeRequest \<Rightarrow> SecurityController \<Rightarrow> SecurityController \<times> purge_response" where
  "PanicPurge env rq sc =
     (if \<not> purge_allowed env rq sc then (sc, PurgeDenied)
      else (purge_sessions env (purge_temp env (purge_tables env (purge_store env (purge_memory env sc)))), Purged))"

section \<open>What is left of a file\<close>

definition reached :: "nat option \<Rightarrow> bytes \<Rightarrow> nat" where
  "reached stop d = (case stop of None \<Rightarrow> length d | Some s \<Rightarrow> min s (length d))"

lemma shred_loop_from:
  assumes "0 < buf" "w \<le> length d" "stop = None \<or> (\<exists>s. stop = Some s \<and> w \<le> s)"
  shows "shred_loop buf rnd stop w d = take w d @ map rnd [w..<reached stop d] @ drop (reached stop d) d"
  using assms
proof (induction buf rnd stop w d rule: shred_loop.induct)
  case (1 buf rnd stop w d)
  show ?case
  proof (cases "w < length d")
    case False
    with 1 show ?thesis by (subst shred_loop.simps) (auto simp: reached_def split: option.splits)
  next
    case True
    define n where "n = min buf (length d - w)"
    define j where "j = (case stop of None \<Rightarrow> n | Some s \<Rightarrow> min n (s - w))"
    define d1 where "d1 = take w d @ map rnd [w..<w + j] @ drop (w + j) d"
    have n: "0 < n" "w + n \<le> length d" using True 1(2) by (auto simp: n_def)
    have j: "j \<le> n" "length d1 = length d" using n by (auto simp: j_def d1_def split: option.splits)
    have eq: "shred_loop buf rnd stop w d = (if j < n then d1 else shred_loop buf rnd stop (w + n) d1)"
      using True 1(2) by (subst shred_loop.simps) (simp add: n_def [symmetric] j_def [symmetric] d1_def [symmetric] Let_def)
    show ?thesis
    proof (cases "j < n")
      case less: True
      then have "reached stop d = w + j" using 1(4) n by (auto simp: j_def reached_def split: option.splits)
      with less show ?thesis by (simp add: eq d1_def)
    next
      case False
      then have jn: "j = n" using j by simp
      have st: "stop = None \<or> (\<exists>s. stop = Some s \<and> w + n \<le> s)"
        using 1(4) jn n by (auto simp: j_def split: option.splits)
      have r: "reached stop d1 = reached stop d" "w + n \<le> reached stop d" using j(2) st n by (auto simp: reached_def split: option.splits)
      have cond: "w < length d \<and> 0 < buf" "\<not> j < n" "0 < buf" "w + n \<le> length d1" using True 1(2) False n j(2) by simp_all
      have IH: "shred_loop buf rnd stop (w + n) d1 =
          take (w + n) d1 @ map rnd [w + n..<reached stop d1] @ drop (reached stop d1) d1"
        by (rule 1(1) [OF cond(1) n_def j_def d1_def cond(2) cond(3,4) st])
      have "take (w + n) d1 = take w d @ map rnd [w..<w + n]" "drop (reached stop d) d1 = drop (reached stop d) d"
        using r(2) n by (simp_all add: d1_def jn)
      moreover have "[w..<reached stop d] = [w..<w + n] @ [w + n..<reached stop d]"
        using r(2) upt_add_eq_append [of w "w + n" "reached stop d - (w + n)"] by simp
      ultimately show ?thesis using False by (simp add: eq IH r(1))
    qed
  qed
qed

lemma shred_loop_all: "0 < buf \<Longrightarrow> shred_loop buf rnd stop 0 d = map rnd [0..<reached stop d] @ drop (reached stop d) d"
  by (subst shred_loop_from) auto

lemma shredFile_removes: "sh_fails env = no_faults \<Longrightarrow> fst (shredFile env buf p fs) = fs(p := None)"
  by (auto simp: shredFile_def os_Open_def os_Remove_def Let_def split: option.splits)

lemma shred_files_removes: "sh_fails env = no_faults \<Longrightarrow> shred_files env buf ps fs = (\<lambda>q. if q \<in> set ps then None else fs q)"
  by (induction ps arbitrary: fs) (auto simp: shred_files_def shredFile_removes fun_eq_iff)

section \<open>What is left of the drive\<close>

definition clean_dir :: "string \<Rightarrow> bool" where
  "clean_dir d \<longleftrightarrow> d \<noteq> [] \<and> path_Clean d = d \<and> d \<noteq> ''.'' \<and> last d \<noteq> CHR ''/''"

abbreviation below_dir :: "string \<Rightarrow> string \<Rightarrow> bool" where
  "below_dir d p \<equiv> HasPrefix p (d @ ''/'')"

text \<open>\<^verbatim>\<open>filepath.Walk\<close> visits the files of a directory, on the disk as it is and as files disappear from it.\<close>

definition walks :: "(string \<Rightarrow> fs \<Rightarrow> string list) \<Rightarrow> fs \<Rightarrow> string \<Rightarrow> bool" where
  "walks walk fs0 d \<longleftrightarrow> (\<forall>fs. fs \<subseteq>\<^sub>m fs0 \<longrightarrow> set (walk d fs) = {p. below_dir d p \<and> fs p \<noteq> None})"

definition without :: "string \<Rightarrow> fs \<Rightarrow> fs" where
  "without d fs = (\<lambda>p. if below_dir d p then None else fs p)"

lemma without_le [simp]: "fs \<subseteq>\<^sub>m fs0 \<Longrightarrow> without d fs \<subseteq>\<^sub>m fs0"
  by (auto simp: without_def map_le_def dom_def)

lemma shred_directory:
  "sh_fails env = no_faults \<Longrightarrow> walks walk fs0 d \<Longrightarrow> d \<noteq> [] \<Longrightarrow> fs \<subseteq>\<^sub>m fs0 \<Longrightarrow> shredDirectoryFiles env buf walk d fs = without d fs"
  by (auto simp: shredDirectoryFiles_def shred_files_removes walks_def without_def fun_eq_iff)

lemma CancelAllTasks_eq:
  "\<exists>g. CancelAllTasks now dm = dm\<lparr>dm_objs := g\<rparr> \<and> (\<forall>i \<in> set (dm_tasks dm). finished (tk_Status (g i)))"
proof -
  have fin: "finished (tk_Status (cancel_active now t))" for t by (simp add: cancel_active_def cancelTask_def finished_def)
  have "\<exists>g. fold (\<lambda>i. set_task i (cancel_active now)) ts dm = dm\<lparr>dm_objs := g\<rparr> \<and>
      (\<forall>i. i \<in> set ts \<or> finished (tk_Status (dm_objs dm i)) \<longrightarrow> finished (tk_Status (g i)))" for ts
  proof (induction ts arbitrary: dm)
    case Nil
    show ?case by (intro exI [of _ "dm_objs dm"]) simp
  next
    case (Cons k ts)
    from Cons [of "set_task k (cancel_active now) dm"] obtain g where
      g: "fold (\<lambda>i. set_task i (cancel_active now)) ts (set_task k (cancel_active now) dm) = (set_task k (cancel_active now) dm)\<lparr>dm_objs := g\<rparr>"
      "\<And>i. i \<in> set ts \<or> finished (tk_Status (dm_objs (set_task k (cancel_active now) dm) i)) \<Longrightarrow> finished (tk_Status (g i))" by blast
    have "finished (tk_Status (g i))" if "i \<in> set (k # ts) \<or> finished (tk_Status (dm_objs dm i))" for i
      using that g(2) [of i] fin by (cases "i = k") (auto simp: set_task_def)
    moreover have "(set_task k (cancel_active now) dm)\<lparr>dm_objs := g\<rparr> = dm\<lparr>dm_objs := g\<rparr>" by (simp add: set_task_def)
    ultimately show ?case using g(1) by (intro exI [of _ g]) simp
  qed
  from this [of "dm_tasks dm"] show ?thesis by (auto simp: CancelAllTasks_def)
qed

lemma remove_orphans_mono: "fs p = None \<Longrightarrow> remove_orphans fails dir ns fs p = None"
  by (induction ns arbitrary: fs) (auto simp: os_Remove_def)

lemma unlink_mono: "fs p = None \<Longrightarrow> unlink_session fails sm sid s fs p = None"
  by (auto simp: unlink_session_def os_Remove_def)

lemma sweep_mono: "snd st p = None \<Longrightarrow> snd (fst (sweep fails P order st n)) p = None"
proof (induction order arbitrary: st n)
  case (Cons sid order)
  have "snd (DeleteSession fails sid st) p = None"
    using Cons.prems by (auto simp: DeleteSession_def unlink_mono split: option.splits prod.splits)
  with Cons show ?case by (cases st) (auto split: option.splits)
qed simp

lemma PurgeAll_mono: "fs p = None \<Longrightarrow> PurgeAll fails order listing (sm, fs) = ((sm', fs'), n) \<Longrightarrow> fs' p = None"
  using sweep_mono [of "(sm, fs)" p fails "\<lambda>_. True" order 0]
  by (auto simp: PurgeAll_def remove_orphans_mono split: prod.splits option.splits)

lemma PurgeAll_sessions:
  assumes "distinct order" "set order = dom (sessions sm)" "PurgeAll fails order listing (sm, fs) = ((sm', fs'), n)"
  shows "sessions sm' = Map.empty"
  using sweep_sessions [OF assms(1), of fails "\<lambda>_. True" "(sm, fs)" 0] assms(2,3)
  by (auto simp: PurgeAll_def fun_eq_iff map_drop_if_def split: prod.splits option.splits)

lemma blob_below: "clean_dir (BaseDir c) \<Longrightarrow> IsValidHash h \<Longrightarrow> below_dir (BaseDir c) (cas_Path c h)"
  by (simp add: cas_Path_def clean_dir_def)

text \<open>The disk after the steps that shred, and what the last step makes of it.\<close>

lemma purge_steps:
  assumes "sh_fails (pe_shred env) = no_faults" and dirs: "\<forall>d \<in> drive_dirs. clean_dir d \<and> walks (pe_walk env) (dm_fs (sc_dm sc)) d"
    and d: "drive_dirs = {BaseDir (dm_cas (sc_dm sc)), thumbnails, sc_TmpDir sc, dm_TmpDir (sc_dm sc)}"
    and sc1: "sc1 = purge_temp env (purge_tables env (purge_store env (purge_memory env sc)))"
  shows "dm_fs (sc_dm sc1) = (\<lambda>p. if \<exists>d \<in> drive_dirs. below_dir d p then None else dm_fs (sc_dm sc) p) \<and>
    dm_cas (sc_dm sc1) = cas_ClearCache (dm_cas (sc_dm sc)) \<and> dm_files (sc_dm sc1) = (if pe_filesFail env then dm_files (sc_dm sc) else []) \<and>
    sc_keys sc1 = Purge (pe_keyRnd env) (pe_keyOrder env) (sc_keys sc) \<and> sc_sessions sc1 = sc_sessions sc \<and>
    \<not> vaultCacheValid (sc_vault sc1) \<and> dm_tasks (sc_dm sc1) = dm_tasks (sc_dm sc) \<and>
    dm_TmpDir (sc_dm sc1) = dm_TmpDir (sc_dm sc) \<and>
    dm_jobs (sc_dm sc1) = dm_jobs (sc_dm sc) \<and> dm_objs (sc_dm sc1) = dm_objs (CancelAllTasks (pe_now env) (sc_dm sc)) \<and>
    (\<not> pe_foldersFail env \<longrightarrow> fst ` set (sc_folders sc1) \<subseteq> {''f1'', ''f2'', ''f3''})"
proof -
  obtain g where g: "CancelAllTasks (pe_now env) (sc_dm sc) = (sc_dm sc)\<lparr>dm_objs := g\<rparr>" using CancelAllTasks_eq by blast
  have sh: "shredDirectoryFiles (pe_shred env) n (pe_walk env) x fs = without x fs"
    if "x \<in> {BaseDir (dm_cas (sc_dm sc)), thumbnails, sc_TmpDir sc, dm_TmpDir (sc_dm sc)}" "fs \<subseteq>\<^sub>m dm_fs (sc_dm sc)" for x fs n
    using shred_directory [OF assms(1) _ _ that(2)] dirs that(1) unfolding d by (auto simp: clean_dir_def)
  have "x \<noteq> []" if "x \<in> {BaseDir (dm_cas (sc_dm sc)), thumbnails, sc_TmpDir sc, dm_TmpDir (sc_dm sc)}" for x
    using dirs that unfolding d by (auto simp: clean_dir_def)
  then have "BaseDir (dm_cas (sc_dm sc)) \<noteq> []" "dm_TmpDir (sc_dm sc) \<noteq> []" by auto
  then show ?thesis
    unfolding sc1 d
    by (simp add: purge_temp_def purge_tables_def purge_store_def purge_memory_def shred_dir_def g sh InvalidateVaultCache_def Let_def)
      (auto simp: fun_eq_iff without_def)
qed

lemma dir_prefix_clean: "clean_dir d \<Longrightarrow> dir_prefix d = d @ ''/''"
  by (auto simp: clean_dir_def dir_prefix_def path_Clean_def Let_def split: if_splits)

lemma temp_below: "clean_dir (dm_TmpDir dm) \<Longrightarrow> CHR ''/'' \<notin> set i \<Longrightarrow> below_dir (dm_TmpDir dm) (job_temp dm i)"
  using path_Join_plain [of "(''hornetz_dl_'' @ i) @ ''.tmp''" "dm_TmpDir dm"]
  by (simp add: job_temp_def dir_prefix_clean plain_name_def del: path_Join.simps)

lemma purged_manager:
  assumes "PanicPurge env rq sc = (sc', Purged)" "sh_fails (pe_shred env) = no_faults" "\<not> pe_filesFail env"
    and d: "drive_dirs = {BaseDir (dm_cas (sc_dm sc)), thumbnails, sc_TmpDir sc, dm_TmpDir (sc_dm sc)}"
    and dirs: "\<forall>d \<in> drive_dirs. clean_dir d \<and> walks (pe_walk env) (dm_fs (sc_dm sc)) d"
  shows "dm_files (sc_dm sc') = [] \<and> dm_jobs (sc_dm sc') = dm_jobs (sc_dm sc) \<and> dm_TmpDir (sc_dm sc') = dm_TmpDir (sc_dm sc) \<and>
    (\<forall>d \<in> drive_dirs. \<forall>p. below_dir d p \<longrightarrow> dm_fs (sc_dm sc') p = None) \<and>
    (\<forall>h. blob_at (dm_cas (sc_dm sc'), dm_fs (sc_dm sc')) h = None)"
proof -
  let ?sc = "purge_temp env (purge_tables env (purge_store env (purge_memory env sc)))"
  note P = purge_steps [OF assms(2) dirs d refl]
  obtain sm1 fs1 n1 where p1: "PurgeAll no_faults (pe_sessionOrder env) (pe_listing env) (sc_sessions ?sc, dm_fs (sc_dm ?sc)) = ((sm1, fs1), n1)"
    by (metis prod.collapse)
  obtain sm fs n2 where p2: "PurgeAll no_faults [] (pe_listing env) (sm1, fs1) = ((sm, fs), n2)" by (metis prod.collapse)
  have "purge_allowed env rq sc" using assms(1) by (auto simp: PanicPurge_def split: if_splits)
  then have sc': "sc' = ?sc\<lparr>sc_sessions := sm, sc_completed := Map.empty, sc_dm := (sc_dm ?sc)\<lparr>dm_fs := fs\<rparr>\<rparr>"
    using assms(1,2) p1 p2 by (simp add: PanicPurge_def purge_sessions_def)
  have mono: "fs p = None" if "dm_fs (sc_dm ?sc) p = None" for p using PurgeAll_mono [OF PurgeAll_mono [OF that p1] p2] .
  have gone: "fs p = None" if "d \<in> drive_dirs" "below_dir d p" for d p using P that by (intro mono) auto
  have "fs (cas_Path (dm_cas (sc_dm sc)) h) = None" if "IsValidHash h" for h
    using gone [of "BaseDir (dm_cas (sc_dm sc))"] blob_below [OF _ that, of "dm_cas (sc_dm sc)"] d dirs by blast
  moreover have "cas_Path (cas_ClearCache c) h = cas_Path c h" for c h by (simp add: cas_Path_def cas_ClearCache_def)
  ultimately have "blob_at (dm_cas (sc_dm sc'), dm_fs (sc_dm sc')) h = None" for h using P by (simp add: blob_at_def sc')
  with P assms(3) gone show ?thesis by (simp add: sc')
qed

text \<open>A goroutine whose file has not been stored when its directory is shredded finds nothing to store.\<close>

lemma shredded_download_fails:
  assumes "dm_fs dm (job_temp dm i) = None" "dm_jobs dm i = Some j" "jb_phase j = Saving name mime"
  shows "dm_files (job_step jenv i Advance dm) = dm_files dm \<and> tk_Status (dm_objs (job_step jenv i Advance dm) i) = StatusFailed"
proof -
  have "MoveToCASWithStatus (je_fails jenv) (je_part jenv) (job_temp dm i) (dm_cas dm, dm_fs dm) = ((dm_cas dm, dm_fs dm), None)"
    using assms(1) by (simp add: MoveToCASWithStatus_def ComputeHash_def os_Open_def)
  then show ?thesis
    using assms(2,3) by (simp add: job_step_def save_job_def fail_job_def end_job_def set_task_def failTask_def Let_def)
qed

lemma recording_continues:
  assumes "dm_jobs dm i = Some j" "jb_phase j = Recording h e name mime" "\<not> je_insertFails jenv" "dm_fs dm (job_temp dm i) = None"
    and "dm' = fold (job_step jenv i) [Advance, Advance] dm"
  shows "tk_Status (dm_objs dm' i) = StatusCompleted \<and> (\<exists>row. dm_files dm' = dm_files dm @ [row] \<and> f_cas row = h) \<and>
    dm_fs dm' = dm_fs dm \<and> dm_cas dm' = dm_cas dm"
proof -
  obtain row f where 1: "job_step jenv i Advance dm = put_job i (j\<lparr>jb_phase := Marking f h\<rparr>) (dm\<lparr>dm_files := dm_files dm @ [row]\<rparr>)"
    "f_cas row = h"
    using assms(1-3) by (simp add: job_step_def record_job_def Let_def)
  let ?dm = "put_job i (j\<lparr>jb_phase := Marking f h\<rparr>) (dm\<lparr>dm_files := dm_files dm @ [row]\<rparr>)"
  have t: "dm_fs ?dm (job_temp ?dm i) = None" using assms(4) by (simp add: job_temp_def)
  have "dm' = mark_job jenv f h i (j\<lparr>jb_phase := Marking f h\<rparr>) ?dm"
    unfolding assms(5) by (simp add: 1(1)) (simp add: job_step_def put_job_def)
  then show ?thesis using t 1(2)
    by (simp add: mark_job_def end_job_def put_temp_def put_job_def set_task_def job_temp_def Let_def)
qed

section \<open>Properties\<close>

text \<open>C33: shredding overwrites every byte a file had with random bytes, whatever the size of the buffer, before the
  file is removed; where writing fails, it is the bytes before that point.\<close>

theorem shredding_overwrites:
  assumes "fs p = Some d" "sh_fails env = no_faults" "0 < buf"
  shows "shredFile env buf p fs =
    (fs(p := None), Some (map (sh_rnd env p) [0..<reached (sh_stop env p) d] @ drop (reached (sh_stop env p) d) d)) \<and>
    (sh_stop env p = None \<longrightarrow> snd (shredFile env buf p fs) = Some (map (sh_rnd env p) [0..<length d]))"
  using assms by (simp add: shredFile_def os_Open_def os_Remove_def shred_loop_all reached_def)

text \<open>C20: a permitted panic purge leaves nothing: no vault key in memory, no task that still runs, no file in the store, in
  the thumbnails or in the two temporary directories, no blob, no row of a file, no folder but the preset ones, no
  upload session and no cached answer. One that is not permitted changes nothing.\<close>

theorem panic_purge_complete:
  assumes "PanicPurge env rq sc = (sc', r)" "sh_fails (pe_shred env) = no_faults" "\<not> pe_filesFail env" "\<not> pe_foldersFail env"
    and "drive_dirs = {BaseDir (dm_cas (sc_dm sc)), thumbnails, sc_TmpDir sc, dm_TmpDir (sc_dm sc)}"
    and "\<forall>d \<in> drive_dirs. clean_dir d \<and> walks (pe_walk env) (dm_fs (sc_dm sc)) d"
    and "distinct (pe_keyOrder env)" "set (pe_keyOrder env) = dom (vaultKeys (sc_keys sc))"
    and "distinct (pe_sessionOrder env)" "set (pe_sessionOrder env) = dom (sessions (sc_sessions sc))"
  shows "(\<not> purge_allowed env rq sc \<longrightarrow> sc' = sc \<and> r = PurgeDenied) \<and>
    (purge_allowed env rq sc \<longrightarrow>
      r = Purged \<and> (\<forall>t c. \<not> HasKey t (sc_keys sc') c) \<and>
      (\<forall>i \<in> set (dm_tasks (sc_dm sc')). finished (tk_Status (dm_objs (sc_dm sc') i))) \<and>
      (\<forall>d \<in> drive_dirs. \<forall>p. below_dir d p \<longrightarrow> dm_fs (sc_dm sc') p = None) \<and>
      (\<forall>h. blob_at (dm_cas (sc_dm sc'), dm_fs (sc_dm sc')) h = None) \<and> existCache (dm_cas (sc_dm sc')) = {} \<and>
      dm_files (sc_dm sc') = [] \<and> fst ` set (sc_folders sc') \<subseteq> {''f1'', ''f2'', ''f3''} \<and>
      sessions (sc_sessions sc') = Map.empty \<and> sc_completed sc' = Map.empty \<and> \<not> vaultCacheValid (sc_vault sc'))"
proof (intro conjI impI)
  let ?sc = "purge_temp env (purge_tables env (purge_store env (purge_memory env sc)))"
  assume ok: "purge_allowed env rq sc"
  note P = purge_steps [OF assms(2,6,5) refl]
  obtain sm1 fs1 n1 where p1: "PurgeAll no_faults (pe_sessionOrder env) (pe_listing env) (sc_sessions ?sc, dm_fs (sc_dm ?sc)) = ((sm1, fs1), n1)"
    by (metis prod.collapse)
  obtain sm2 fs2 n2 where p2: "PurgeAll no_faults [] (pe_listing env) (sm1, fs1) = ((sm2, fs2), n2)" by (metis prod.collapse)
  have sc': "sc' = ?sc\<lparr>sc_sessions := sm2, sc_completed := Map.empty, sc_dm := (sc_dm ?sc)\<lparr>dm_fs := fs2\<rparr>\<rparr>" and "r = Purged"
    using assms(1,2) ok p1 p2 by (simp_all add: PanicPurge_def purge_sessions_def)
  show "r = Purged" by fact
  have keys: "\<not> HasKey t (sc_keys ?sc) c" for t c
  proof -
    have "vaultKeys (Purge (pe_keyRnd env) (pe_keyOrder env) (sc_keys sc)) = Map.empty"
      using sweep_keys_all [OF assms(7), of "pe_keyRnd env" "\<lambda>_. True" "sc_keys sc" 0] assms(8)
      by (auto simp: Purge_def fun_eq_iff map_drop_if_def split: option.splits)
    then show ?thesis using P by (simp add: HasKey_def live_entry_def)
  qed
  then show "\<forall>t c. \<not> HasKey t (sc_keys sc') c" by (simp add: sc')
  obtain g where "CancelAllTasks (pe_now env) (sc_dm sc) = (sc_dm sc)\<lparr>dm_objs := g\<rparr>" "\<forall>i \<in> set (dm_tasks (sc_dm sc)). finished (tk_Status (g i))"
    using CancelAllTasks_eq by blast
  then show "\<forall>i \<in> set (dm_tasks (sc_dm sc')). finished (tk_Status (dm_objs (sc_dm sc') i))" using P by (simp add: sc')
  have gone: "fs2 p = None" if "d \<in> drive_dirs" "below_dir d p" for d p
  proof -
    have "dm_fs (sc_dm ?sc) p = None" using P that by auto
    then show ?thesis using PurgeAll_mono [OF PurgeAll_mono [OF _ p1] p2] by blast
  qed
  then show "\<forall>d \<in> drive_dirs. \<forall>p. below_dir d p \<longrightarrow> dm_fs (sc_dm sc') p = None" by (simp add: sc')
  have cas: "dm_cas (sc_dm sc') = cas_ClearCache (dm_cas (sc_dm sc))" "dm_files (sc_dm sc') = []" "sc_folders sc' = sc_folders ?sc"
    using P assms(3) by (simp_all add: sc')
  then show "dm_files (sc_dm sc') = []" "existCache (dm_cas (sc_dm sc')) = {}" "fst ` set (sc_folders sc') \<subseteq> {''f1'', ''f2'', ''f3''}"
    using P assms(4) by (simp_all add: cas_ClearCache_def)
  have path: "cas_Path (cas_ClearCache c) h = cas_Path c h" for c h by (simp add: cas_Path_def cas_ClearCache_def)
  have "fs2 (cas_Path (dm_cas (sc_dm sc)) h) = None" if "IsValidHash h" for h
    using gone [of "BaseDir (dm_cas (sc_dm sc))"] blob_below [OF _ that, of "dm_cas (sc_dm sc)"] assms(5,6) by blast
  then show "\<forall>h. blob_at (dm_cas (sc_dm sc'), dm_fs (sc_dm sc')) h = None"
    unfolding cas(1) by (auto simp: blob_at_def path sc')
  have "sessions sm1 = Map.empty" using PurgeAll_sessions [OF assms(9) _ p1] assms(10) P by simp
  then show "sessions (sc_sessions sc') = Map.empty" using PurgeAll_sessions [OF _ _ p2] by (simp add: sc')
  show "sc_completed sc' = Map.empty" "\<not> vaultCacheValid (sc_vault sc')" using P by (simp_all add: sc')
qed (use assms(1) in \<open>simp_all add: PanicPurge_def\<close>)

text \<open>what the purge does to a download that is still running. One whose file is not in the store yet fails and leaves
  no row. But the goroutine is not waited for: one that has moved its file into the store and not yet recorded it
  goes on behind the purge, inserts a row for a blob that was shredded, and reports the task as completed.\<close>

theorem purge_races_with_download:
  assumes "PanicPurge env rq sc = (sc', Purged)" "sh_fails (pe_shred env) = no_faults" "\<not> pe_filesFail env"
    and "drive_dirs = {BaseDir (dm_cas (sc_dm sc)), thumbnails, sc_TmpDir sc, dm_TmpDir (sc_dm sc)}"
    and "\<forall>d \<in> drive_dirs. clean_dir d \<and> walks (pe_walk env) (dm_fs (sc_dm sc)) d"
    and "dm_jobs (sc_dm sc) i = Some j" "CHR ''/'' \<notin> set i" "\<not> je_insertFails jenv"
  shows "(\<forall>name mime. jb_phase j = Saving name mime \<longrightarrow>
      dm_files (job_step jenv i Advance (sc_dm sc')) = [] \<and> tk_Status (dm_objs (job_step jenv i Advance (sc_dm sc')) i) = StatusFailed) \<and>
    (\<forall>h e name mime. jb_phase j = Recording h e name mime \<longrightarrow>
      (let dm' = fold (job_step jenv i) [Advance, Advance] (sc_dm sc') in
       tk_Status (dm_objs dm' i) = StatusCompleted \<and> (\<exists>row. dm_files dm' = [row] \<and> f_cas row = h) \<and>
       blob_at (dm_cas dm', dm_fs dm') h = None))"
proof -
  note P = purged_manager [OF assms(1-5)]
  have t: "dm_fs (sc_dm sc') (job_temp (sc_dm sc') i) = None"
    using P temp_below [OF _ assms(7), of "sc_dm sc'"] assms(4,5) by auto
  have j: "dm_jobs (sc_dm sc') i = Some j" using P assms(6) by simp
  show ?thesis
    using shredded_download_fails [OF t j] recording_continues [OF j _ assms(8) t refl] P unfolding Let_def by fastforce
qed

section \<open>Witnesses\<close>

definition ex_disk :: fs where
  "ex_disk = [''cas/00/00/'' @ replicate 64 (CHR ''0'') \<mapsto> [1], ''tmp/x'' \<mapsto> [2], ''keep'' \<mapsto> [3]]"

definition ex_recording :: DownloadManager where
  "ex_recording = ex_manager\<lparr>dm_fs := ex_disk, dm_tasks := [''t''],
     dm_jobs := [''t'' \<mapsto> \<lparr>jb_key = replicate 32 7, jb_bw = \<lparr>bw_disk = [], bw_room = None, bw_buf = [], bw_err = False\<rparr>, jb_plain = [],
       jb_used = 0, jb_custom = False, jb_phase = Recording (replicate 64 (CHR ''0'')) False ''n'' ''m''\<rparr>]\<rparr>"

definition ex_server :: SecurityController where
  "ex_server = \<lparr>sc_keys = \<lparr>vaultKeys = [''c'' \<mapsto> \<lparr>key_ref = 0, expiresAt = 9\<rparr>], heap = (\<lambda>_. [7])\<rparr>, sc_dm = ex_recording,
     sc_sessions = \<lparr>sessions = Map.empty, TempDir = ''tmp''\<rparr>, sc_completed = [''u'' \<mapsto> 1], sc_folders = [(''f2'', None), (''a'', Some ''f2'')],
     sc_vault = \<lparr>vaultIDs = [''f2''], vaultCacheValid = True\<rparr>, sc_TmpDir = ''tmp''\<rparr>"

abbreviation ex_paths :: "string list" where
  "ex_paths \<equiv> [''cas/00/00/'' @ replicate 64 (CHR ''0''), ''tmp/x'', ''keep'']"

definition ex_penv :: PurgeEnv where
  "ex_penv = \<lparr>pe_now = 5, pe_shred = \<lparr>sh_fails = no_faults, sh_rnd = (\<lambda>_ n. of_nat n), sh_stop = (\<lambda>_. None), sh_truncFails = (\<lambda>_. False)\<rparr>,
     pe_walk = (\<lambda>d fs. filter (\<lambda>p. below_dir d p \<and> fs p \<noteq> None) ex_paths), pe_verify = (\<lambda>_. False), pe_keyRnd = (\<lambda>_. [0]), pe_keyOrder = [''c''], pe_sessionOrder = [], pe_listing = (\<lambda>_. None),
     pe_filesFail = False, pe_foldersFail = False\<rparr>"

abbreviation "ex_dirs \<equiv> {''cas'', thumbnails, ''tmp''}"

lemma ex_dirs: "ex_dirs = {BaseDir (dm_cas (sc_dm ex_server)), thumbnails, sc_TmpDir ex_server, dm_TmpDir (sc_dm ex_server)}"
  by (auto simp: ex_server_def ex_recording_def ex_manager_def)

lemma ex_walks: "\<forall>d \<in> ex_dirs. clean_dir d \<and> walks (pe_walk ex_penv) (dm_fs (sc_dm ex_server)) d"
proof
  fix d
  assume d: "d \<in> ex_dirs"
  have "path_Clean ''cas'' = ''cas''" "path_Clean ''tmp'' = ''tmp''" "path_Clean ''storage/thumbnails'' = ''storage/thumbnails''" by code_simp+
  with d have "clean_dir d" by (auto simp: clean_dir_def thumbnails_def)
  have m: "p \<in> set ex_paths" if "fs \<subseteq>\<^sub>m ex_disk" "fs p \<noteq> None" for fs p
  proof -
    have "dom fs \<subseteq> dom ex_disk" using map_le_implies_dom_le [OF that(1)] .
    then have "p \<in> dom ex_disk" using that(2) by blast
    then show ?thesis by (auto simp: ex_disk_def split: if_splits)
  qed
  have w: "pe_walk ex_penv d fs = filter (\<lambda>p. below_dir d p \<and> fs p \<noteq> None) ex_paths" for fs by (simp add: ex_penv_def)
  have "walks (pe_walk ex_penv) ex_disk d" unfolding walks_def w set_filter using m by blast
  with \<open>clean_dir d\<close> show "clean_dir d \<and> walks (pe_walk ex_penv) (dm_fs (sc_dm ex_server)) d" by (simp add: ex_server_def ex_recording_def)
qed

lemma ex_allowed: "purge_allowed ex_penv \<lparr>pq_cookie = Some ''c'', pq_Password = []\<rparr> ex_server"
  by (simp add: purge_allowed_def HasKey_def live_entry_def ex_server_def ex_penv_def time_After_def)

lemma ex_penv_ok: "sh_fails (pe_shred ex_penv) = no_faults" "\<not> pe_filesFail ex_penv" "\<not> pe_foldersFail ex_penv"
  by (simp_all add: ex_penv_def)

theorem shredding_overwrites_witness:
  "snd (shredFile \<lparr>sh_fails = no_faults, sh_rnd = (\<lambda>_ n. of_nat n + 7), sh_stop = (\<lambda>_. None), sh_truncFails = (\<lambda>_. False)\<rparr> 2 ''p''
     [''p'' \<mapsto> [1, 1, 1]]) = Some [7, 8, 9]"
  using shredding_overwrites [of "[''p'' \<mapsto> [1, 1, 1]]" "''p''" "[1, 1, 1]"
    "\<lparr>sh_fails = no_faults, sh_rnd = (\<lambda>_ n. of_nat n + 7), sh_stop = (\<lambda>_. None), sh_truncFails = (\<lambda>_. False)\<rparr>" 2]
  by (simp add: upt_conv_Cons reached_def)

theorem panic_purge_complete_witness:
  "\<exists>sc'. PanicPurge ex_penv \<lparr>pq_cookie = Some ''c'', pq_Password = []\<rparr> ex_server = (sc', Purged) \<and>
     dm_fs (sc_dm sc') ''tmp/x'' = None \<and> sessions (sc_sessions sc') = Map.empty"
proof -
  obtain sc' r where P: "PanicPurge ex_penv \<lparr>pq_cookie = Some ''c'', pq_Password = []\<rparr> ex_server = (sc', r)" by (rule prod.exhaust)
  have k: "distinct (pe_keyOrder ex_penv)" "set (pe_keyOrder ex_penv) = dom (vaultKeys (sc_keys ex_server))"
    "distinct (pe_sessionOrder ex_penv)" "set (pe_sessionOrder ex_penv) = dom (sessions (sc_sessions ex_server))"
    by (simp_all add: ex_penv_def ex_server_def)
  have b: "''tmp'' \<in> ex_dirs" "below_dir ''tmp'' ''tmp/x''" by simp_all
  note C = conjunct2 [OF panic_purge_complete [OF P ex_penv_ok ex_dirs ex_walks k], THEN mp, OF ex_allowed]
  from C have "r = Purged" by (elim conjE)
  moreover from C have "\<forall>d \<in> ex_dirs. \<forall>p. below_dir d p \<longrightarrow> dm_fs (sc_dm sc') p = None" by (elim conjE)
  moreover from C have "sessions (sc_sessions sc') = Map.empty" by (elim conjE)
  ultimately show ?thesis using P b by blast
qed

theorem purge_races_with_download_witness:
  "\<exists>sc'. PanicPurge ex_penv \<lparr>pq_cookie = Some ''c'', pq_Password = []\<rparr> ex_server = (sc', Purged) \<and>
     (let dm' = fold (job_step ex_jenv ''t'') [Advance, Advance] (sc_dm sc') in
      tk_Status (dm_objs dm' ''t'') = StatusCompleted \<and> (\<exists>row. dm_files dm' = [row]) \<and>
      blob_at (dm_cas dm', dm_fs dm') (replicate 64 (CHR ''0'')) = None)"
proof -
  obtain sc' where P: "PanicPurge ex_penv \<lparr>pq_cookie = Some ''c'', pq_Password = []\<rparr> ex_server = (sc', Purged)"
    using ex_allowed by (simp add: PanicPurge_def)
  obtain j where j: "dm_jobs (sc_dm ex_server) ''t'' = Some j" "jb_phase j = Recording (replicate 64 (CHR ''0'')) False ''n'' ''m''"
    by (simp add: ex_server_def ex_recording_def)
  have n: "CHR ''/'' \<notin> set ''t''" "\<not> je_insertFails ex_jenv" by (simp_all add: ex_jenv_def)
  show ?thesis
    using purge_races_with_download [OF P ex_penv_ok(1,2) ex_dirs ex_walks j(1) n] j(2) P unfolding Let_def by blast
qed

end
