(* ===== verification/File_Controller.thy ===== *)
theory File_Controller
  imports Upload_Pipeline Vault_Folders Auth_Sessions
begin

text \<open>
  The state the file handlers of \<^verbatim>\<open>internal/controllers/file_controller.go\<close> share, and the listing of files.
  The tables \<^verbatim>\<open>files\<close> and \<^verbatim>\<open>folders\<close> are the lists of their rows (a NULL folder or parent is the empty string: every
  query of the sources treats the two alike); a request carries the user, the session cookie and which SQL
  statements and system calls fail while it is served.
\<close>

section \<open>State\<close>

record FileRecord = FileRow +
  f_starred :: bool
  f_created :: string \<comment> \<open>empty for NULL\<close>

record FolderRecord =
  fd_id :: string
  fd_owner :: int
  fd_parent :: string
  fd_name :: string

record FileController =
  fc_CAS :: "CASEngine option"
  fc_fs :: fs
  fc_files :: "FileRecord list"
  fc_folders :: "FolderRecord list"
  fc_vault :: VaultCache

text \<open>The statements of a handler whose failure the code distinguishes.\<close>

datatype sql_stmt =
    SelectVaultTree | SelectFolder string | SelectFile string | SelectCas string | CountRefs string
  | DeleteFiles | UpdateFile string | BeginTx | SelectTrash | CommitTx | CheckDeleted
  | FolderExists string | NameTaken | InsertFolder | SelectChildren string | UpdateFiles string
  | DeleteFolders string | UpdateFolder | ListFiles | SelectCreated string

record FileEnv =
  fe_now :: instant
  fe_sessions :: SessionStore
  fe_cookie :: "string option" \<comment> \<open>the cookie \<^verbatim>\<open>swarm_session\<close>\<close>
  fe_user :: int
  fe_sql :: "sql_stmt \<Rightarrow> bool" \<comment> \<open>the statements that fail\<close>
  fe_fails :: faults
  fe_part :: nat
  fe_room :: "nat option"
  fe_rnd :: bytes
  fe_stdKey :: bytes
  fe_tmpDir :: string

datatype file_response =
    FileError int
  | FilesListed "FileRecord list"
  | Trashed | PermanentlyDeleted | Restored | StarToggled
  | TrashEmptied int
  | FileRenamed string
  | FileMoved string "string option"
  | BatchMoved int "string list"
  | FolderCreated string string
  | FolderDeleted
  | FolderRenamed string

section \<open>The vault\<close>

definition isVaultUnlocked :: "FileEnv \<Rightarrow> bool" where
  "isVaultUnlocked env =
     (case fe_cookie env of None \<Rightarrow> False | Some c \<Rightarrow> HasKey (fe_now env) (fe_sessions env) c)"

text \<open>The key the cookie's session holds; empty when there is none.\<close>

definition vault_key :: "FileEnv \<Rightarrow> bytes" where
  "vault_key env =
     (case fe_cookie env of
        None \<Rightarrow> []
      | Some c \<Rightarrow>
          (case GetKey (fe_now env) (fe_sessions env) c of None \<Rightarrow> [] | Some a \<Rightarrow> heap (fe_sessions env) a))"

text \<open>The rows of the query of \<^verbatim>\<open>loadVaultCacheLocked\<close>.\<close>

definition tree_rows :: "FolderRecord list \<Rightarrow> folder_rows" where
  "tree_rows folders = map (\<lambda>r. (fd_id r, if fd_parent r = [] then None else Some (fd_parent r))) folders"

definition tree_query :: "FileEnv \<Rightarrow> FileController \<Rightarrow> folder_rows option" where
  "tree_query env st = (if fe_sql env SelectVaultTree then None else Some (tree_rows (fc_folders st)))"

definition fc_IsVaultFolder :: "FileEnv \<Rightarrow> string \<Rightarrow> FileController \<Rightarrow> FileController \<times> bool" where
  "fc_IsVaultFolder env folderID st =
     (case IsVaultFolder (tree_query env st) folderID (fc_vault st) of (vc, b) \<Rightarrow> (st\<lparr>fc_vault := vc\<rparr>, b))"

definition fc_VaultFolderIDs :: "FileEnv \<Rightarrow> FileController \<Rightarrow> FileController \<times> string list" where
  "fc_VaultFolderIDs env st =
     (case GetAllVaultFolderIDs (tree_query env st) (fc_vault st) of (vc, ids) \<Rightarrow> (st\<lparr>fc_vault := vc\<rparr>, ids))"

definition vaultExcludeFilter :: "string list \<Rightarrow> FileRecord \<Rightarrow> bool" where
  "vaultExcludeFilter ids r \<longleftrightarrow> ids = [] \<or> f_folder r = [] \<or> f_folder r \<notin> set ids"

definition vaultIncludeFilter :: "string list \<Rightarrow> FileRecord \<Rightarrow> bool" where
  "vaultIncludeFilter ids r \<longleftrightarrow> (if ids = [] then f_folder r = ''f2'' else f_folder r \<in> set ids)"

text \<open>The guard every handler of a single file or folder starts with: the folder, and whether the request
  is refused because it lies in the vault and the vault is locked.\<close>

definition vault_guard :: "FileEnv \<Rightarrow> string \<Rightarrow> FileController \<Rightarrow> FileController \<times> bool" where
  "vault_guard env folderID st =
     (case fc_IsVaultFolder env folderID st of (st', isv) \<Rightarrow> (st', isv \<and> \<not> isVaultUnlocked env))"

section \<open>Listing\<close>

record ListQuery =
  lq_tab :: string
  lq_search :: string
  lq_folder :: string
  lq_limit :: string
  lq_offset :: string

text \<open>What the database does with a listing: \<open>like\<close> is the comparison \<^verbatim>\<open>LOWER(x) LIKE pattern ESCAPE '\'\<close>, \<open>order\<close> the
  requested order of the rows.\<close>

definition like_escape :: "string \<Rightarrow> string" where
  "like_escape term = ReplaceAll (ReplaceAll (ReplaceAll term (CHR 0x5C) [CHR 0x5C, CHR 0x5C]) (CHR ''%'') [CHR 0x5C, CHR ''%''])
     (CHR ''_'') [CHR 0x5C, CHR ''_'']"

definition search_filter :: "(string \<Rightarrow> string) \<Rightarrow> (string \<Rightarrow> string \<Rightarrow> bool) \<Rightarrow> string \<Rightarrow> FileRecord \<Rightarrow> bool" where
  "search_filter lower like search r \<longleftrightarrow>
     search = [] \<or>
     list_all (\<lambda>term. let pattern = ''%'' @ like_escape term @ ''%'' in like (f_name r) pattern \<or> like (f_cas r) pattern)
       (Fields (ToLower lower search))"

definition tab_filter :: "string list \<Rightarrow> bool \<Rightarrow> bool \<Rightarrow> ListQuery \<Rightarrow> string \<Rightarrow> FileRecord \<Rightarrow> bool" where
  "tab_filter ids unlocked inVault q search r \<longleftrightarrow>
     (if lq_tab q = ''trash'' then f_deleted r \<and> (\<not> unlocked \<longrightarrow> vaultExcludeFilter ids r)
      else
        \<not> f_deleted r \<and>
        (if lq_tab q = ''starred'' then f_starred r \<and> (\<not> unlocked \<longrightarrow> vaultExcludeFilter ids r)
         else if lq_tab q = ''vault'' then
           (if lq_folder q \<noteq> [] \<and> search = [] then f_folder r = lq_folder q
            else if lq_folder q = [] \<and> search = [] then f_folder r = ''f2''
            else vaultIncludeFilter ids r)
         else if lq_folder q \<noteq> [] \<and> search = [] then f_folder r = lq_folder q \<and> \<not> (\<not> unlocked \<and> inVault)
         else if lq_folder q = [] \<and> search = [] then f_folder r = [] \<and> vaultExcludeFilter ids r
         else vaultExcludeFilter ids r))"

text \<open>\<^verbatim>\<open>LIMIT\<close> and \<^verbatim>\<open>OFFSET\<close> are appended only when they parse.\<close>

definition number_from :: "int \<Rightarrow> string \<Rightarrow> int option" where
  "number_from least str =
     (if str = [] then None else case ParseInt str of (n, e) \<Rightarrow> if e = None \<and> n \<ge> least then Some n else None)"

definition page :: "ListQuery \<Rightarrow> 'a list \<Rightarrow> 'a list" where
  "page q rows =
     (case number_from 1 (lq_limit q) of
        None \<Rightarrow> rows
      | Some limit \<Rightarrow>
          take (nat limit) (case number_from 0 (lq_offset q) of None \<Rightarrow> rows | Some off \<Rightarrow> drop (nat off) rows))"

definition GetFiles ::
  "(string \<Rightarrow> string) \<Rightarrow> (string \<Rightarrow> string \<Rightarrow> bool) \<Rightarrow> (FileRecord list \<Rightarrow> FileRecord list) \<Rightarrow>
   FileEnv \<Rightarrow> ListQuery \<Rightarrow> FileController \<Rightarrow> FileController \<times> file_response" where
  "GetFiles lower like order env q st =
     (case fc_VaultFolderIDs env st of (st0, _) \<Rightarrow>
        let search = TrimSpace (lq_search q); unlocked = isVaultUnlocked env in
        case fc_IsVaultFolder env (lq_folder q) st0 of (st1, inVault) \<Rightarrow>
          if (lq_tab q = ''vault'' \<or> inVault) \<and> \<not> unlocked then (st1, FileError 401)
          else
            case fc_VaultFolderIDs env st1 of (st2, ids) \<Rightarrow>
              (st2,
               FilesListed
                 (if fe_sql env ListFiles then []
                  else page q (order (filter (\<lambda>r. f_owner r = fe_user env \<and> tab_filter ids unlocked inVault q search r \<and>
                                                 search_filter lower like search r) (fc_files st2))))))"

section \<open>Vault membership\<close>

text \<open>The folder table and the cache agree; preserved by every query that succeeds.\<close>

definition vault_ok :: "FileController \<Rightarrow> bool" where
  "vault_ok st \<longleftrightarrow> cache_ok (tree_rows (fc_folders st)) (fc_vault st) \<and> presets_ok (tree_rows (fc_folders st))"

abbreviation fc_in_vault :: "FileController \<Rightarrow> string \<Rightarrow> bool" where
  "fc_in_vault st \<equiv> in_vault (tree_rows (fc_folders st))"

lemma fc_IsVaultFolder_sel:
  "fc_IsVaultFolder env f st = (st', b) \<Longrightarrow> \<exists>vc. st' = st\<lparr>fc_vault := vc\<rparr>"
  by (auto simp: fc_IsVaultFolder_def split: prod.splits)

lemma fc_VaultFolderIDs_sel:
  "fc_VaultFolderIDs env st = (st', ids) \<Longrightarrow> \<exists>vc. st' = st\<lparr>fc_vault := vc\<rparr>"
  by (auto simp: fc_VaultFolderIDs_def split: prod.splits)

lemma vault_guard_sel: "vault_guard env f st = (st', b) \<Longrightarrow> \<exists>vc. st' = st\<lparr>fc_vault := vc\<rparr>"
  by (auto simp: vault_guard_def split: prod.splits dest: fc_IsVaultFolder_sel)

lemma fc_IsVaultFolder_ok:
  assumes "vault_ok st" "\<not> fe_sql env SelectVaultTree" "fc_IsVaultFolder env f st = (st', b)"
  shows "b = fc_in_vault st f" "vault_ok st'" "fc_folders st' = fc_folders st" "fc_files st' = fc_files st"
proof -
  obtain vc where v: "IsVaultFolder (Some (tree_rows (fc_folders st))) f (fc_vault st) = (vc, b)"
    and st': "st' = st\<lparr>fc_vault := vc\<rparr>"
    using assms(2,3) by (auto simp: fc_IsVaultFolder_def tree_query_def split: prod.splits)
  show "b = fc_in_vault st f" "vault_ok st'" "fc_folders st' = fc_folders st" "fc_files st' = fc_files st"
    using vault_answer [OF _ _ v] assms(1) by (simp_all add: vault_ok_def st')
qed

lemma fc_VaultFolderIDs_ok:
  assumes "vault_ok st" "\<not> fe_sql env SelectVaultTree" "fc_VaultFolderIDs env st = (st', ids)"
  shows "x \<in> set ids \<longleftrightarrow> fc_in_vault st x" "vault_ok st'" "fc_folders st' = fc_folders st" "fc_files st' = fc_files st"
  using assms loadVaultCache_ok [of "tree_rows (fc_folders st)" "fc_vault st"]
  by (auto simp: fc_VaultFolderIDs_def GetAllVaultFolderIDs_def tree_query_def vault_ok_def cache_ok_def Let_def
      split: if_splits)

lemma vault_guard_ok:
  assumes "vault_ok st" "\<not> fe_sql env SelectVaultTree" "vault_guard env f st = (st', refused)"
  shows "refused \<longleftrightarrow> fc_in_vault st f \<and> \<not> isVaultUnlocked env" "vault_ok st'"
    "fc_folders st' = fc_folders st" "fc_files st' = fc_files st"
  using assms fc_IsVaultFolder_ok [OF assms(1,2)] by (auto simp: vault_guard_def split: prod.splits)

lemma vaultExcludeFilter_outside:
  assumes "\<And>x. x \<in> set ids \<longleftrightarrow> in_vault rows x" "presets_ok rows" "vaultExcludeFilter ids r"
  shows "\<not> in_vault rows (f_folder r)"
proof -
  have "in_vault rows ''f2''" by (simp add: in_vault_def)
  then have "ids \<noteq> []" using assms(1) by fastforce
  then show ?thesis
    using assms(1,3) presets_outside [OF assms(2), of "[]"] by (auto simp: vaultExcludeFilter_def)
qed

lemma set_page: "set (page q rows) \<subseteq> set rows"
  by (auto simp: page_def split: option.splits dest!: in_set_takeD in_set_dropD)

lemma tab_filter_locked:
  assumes ids: "\<And>x. x \<in> set ids \<longleftrightarrow> in_vault rows x" and pre: "presets_ok rows"
    and f: "tab_filter ids False inVault q search r" "lq_tab q \<noteq> ''vault''" "inVault = in_vault rows (lq_folder q)"
  shows "\<not> in_vault rows (f_folder r)"
  using f vaultExcludeFilter_outside [OF ids pre, of r] by (auto simp: tab_filter_def split: if_splits)

section \<open>Properties\<close>

text \<open>C17: while the vault is locked, no listing (any tab, folder, search or page) returns a file that lies in a vault
  folder, as long as the folder query succeeds and the database orders rows without inventing any.\<close>

theorem locked_listing_hides_vault:
  assumes "vault_ok st" "\<not> fe_sql env SelectVaultTree" "\<not> isVaultUnlocked env"
    and order: "\<And>rows. set (order rows) \<subseteq> set rows"
    and L: "GetFiles lower like order env q st = (st', FilesListed rows)" and r: "r \<in> set rows"
  shows "\<not> fc_in_vault st (f_folder r) \<and> f_owner r = fe_user env \<and> r \<in> set (fc_files st)"
proof -
  obtain st0 ids0 where s0: "fc_VaultFolderIDs env st = (st0, ids0)" by fastforce
  note o0 = fc_VaultFolderIDs_ok [OF assms(1,2) s0]
  obtain st1 inV where s1: "fc_IsVaultFolder env (lq_folder q) st0 = (st1, inV)" by fastforce
  note o1 = fc_IsVaultFolder_ok [OF o0(2) assms(2) s1]
  obtain st2 ids where s2: "fc_VaultFolderIDs env st1 = (st2, ids)" by fastforce
  note o2 = fc_VaultFolderIDs_ok [OF o1(2) assms(2) s2]
  have t: "lq_tab q \<noteq> ''vault''" and rows: "rows = (if fe_sql env ListFiles then []
      else page q (order (filter (\<lambda>r. f_owner r = fe_user env \<and> tab_filter ids False inV q (TrimSpace (lq_search q)) r \<and>
                       search_filter lower like (TrimSpace (lq_search q)) r) (fc_files st2))))"
    using L assms(3) by (auto simp: GetFiles_def s0 s1 s2 Let_def split: if_splits)
  have "f_owner r = fe_user env" "tab_filter ids False inV q (TrimSpace (lq_search q)) r" "r \<in> set (fc_files st2)"
    using r rows set_page order by (fastforce split: if_splits)+
  with tab_filter_locked [of ids "tree_rows (fc_folders st)" inV q "TrimSpace (lq_search q)" r] o0 o1 o2 t assms(1)
  show ?thesis by (auto simp: vault_ok_def)
qed

text \<open>A drive with a file at the root and one in the vault, and a request with nothing failing.\<close>

definition ex_file :: "string \<Rightarrow> string \<Rightarrow> string \<Rightarrow> FileRecord" where
  "ex_file i folder h =
     \<lparr>f_id = i, f_owner = 1, f_folder = folder, f_name = i @ ''.txt'', f_mime = ''text/plain'', f_size = 3, f_cas = h,
      f_plain = [], f_deleted = False, f_starred = False, f_created = []\<rparr>"

definition ex_drive :: FileController where
  "ex_drive =
     \<lparr>fc_CAS = None, fc_fs = Map.empty, fc_files = [ex_file ''a'' [] ''h1'', ex_file ''b'' ''s'' ''h2''],
      fc_folders = [\<lparr>fd_id = ''f2'', fd_owner = 1, fd_parent = [], fd_name = ''v''\<rparr>,
                    \<lparr>fd_id = ''s'', fd_owner = 1, fd_parent = ''f2'', fd_name = ''sub''\<rparr>],
      fc_vault = \<lparr>vaultIDs = [], vaultCacheValid = False\<rparr>\<rparr>"

definition ex_fenv :: FileEnv where
  "ex_fenv =
     \<lparr>fe_now = 0, fe_sessions = \<lparr>vaultKeys = Map.empty, heap = (\<lambda>_. [])\<rparr>, fe_cookie = None, fe_user = 1,
      fe_sql = (\<lambda>_. False), fe_fails = no_faults, fe_part = 0, fe_room = None, fe_rnd = replicate 16 1,
      fe_stdKey = replicate 32 7, fe_tmpDir = ''/tmp''\<rparr>"

lemma ex_drive_vault_ok: "vault_ok ex_drive" "\<not> fe_sql ex_fenv s" "\<not> isVaultUnlocked ex_fenv"
  by (simp_all add: vault_ok_def ex_drive_def cache_ok_def presets_ok_def tree_rows_def has_parent_def ex_fenv_def
      isVaultUnlocked_def)

theorem locked_listing_hides_vault_witness:
  "let q = \<lparr>lq_tab = ''recent'', lq_search = ''tx'', lq_folder = [], lq_limit = [], lq_offset = []\<rparr>;
       res = GetFiles id (\<lambda>x p. Contains x ''tx'') rev ex_fenv q ex_drive
   in snd res = FilesListed [ex_file ''a'' [] ''h1''] \<and> \<not> fc_in_vault ex_drive (f_folder (ex_file ''a'' [] ''h1''))"
proof -
  let ?q = "\<lparr>lq_tab = ''recent'', lq_search = ''tx'', lq_folder = [], lq_limit = [], lq_offset = []\<rparr>"
  let ?res = "GetFiles id (\<lambda>x p. Contains x ''tx'') rev ex_fenv ?q ex_drive"
  have r: "snd ?res = FilesListed [ex_file ''a'' [] ''h1'']" by code_simp
  then have "?res = (fst ?res, FilesListed [ex_file ''a'' [] ''h1''])" by (metis prod.collapse)
  from locked_listing_hides_vault [OF ex_drive_vault_ok _ this, of "ex_file ''a'' [] ''h1''"] r
  show ?thesis by (simp add: Let_def)
qed

end
