(* ===== verification/File_Trash.thy ===== *)
theory File_Trash
  imports File_Controller
begin

text \<open>
  The trash: \<^verbatim>\<open>DeleteFile\<close>, \<^verbatim>\<open>RestoreFile\<close>, \<^verbatim>\<open>StarFile\<close> and \<^verbatim>\<open>EmptyTrash\<close> of \<^verbatim>\<open>internal/controllers/file_controller.go\<close>. Rows share
  blobs, so a permanent deletion removes a blob only after counting the rows that still name it.
\<close>

section \<open>Operations\<close>

definition own :: "FileEnv \<Rightarrow> string \<Rightarrow> FileRecord \<Rightarrow> bool" where
  "own env i r \<longleftrightarrow> f_id r = i \<and> f_owner r = fe_user env"

text \<open>A query for one column whose error the code drops: the zero value when it fails or finds no row.\<close>

definition lookup :: "FileEnv \<Rightarrow> sql_stmt \<Rightarrow> (FileRecord \<Rightarrow> bool) \<Rightarrow> (FileRecord \<Rightarrow> string) \<Rightarrow> FileController \<Rightarrow> string" where
  "lookup env q P col st =
     (if fe_sql env q then [] else case find P (fc_files st) of None \<Rightarrow> [] | Some r \<Rightarrow> col r)"

definition update_rows :: "(FileRecord \<Rightarrow> bool) \<Rightarrow> (FileRecord \<Rightarrow> FileRecord) \<Rightarrow> FileController \<Rightarrow> FileController" where
  "update_rows P f st = st\<lparr>fc_files := map (\<lambda>r. if P r then f r else r) (fc_files st)\<rparr>"

definition affects :: "(FileRecord \<Rightarrow> bool) \<Rightarrow> FileController \<Rightarrow> bool" where
  "affects P st \<longleftrightarrow> list_ex P (fc_files st)"

text \<open>An \<^verbatim>\<open>UPDATE\<close> that must fail loudly: 500 for an error, 404 when no row matched.\<close>

definition exec_update ::
  "FileEnv \<Rightarrow> sql_stmt \<Rightarrow> (FileRecord \<Rightarrow> bool) \<Rightarrow> (FileRecord \<Rightarrow> FileRecord) \<Rightarrow> file_response \<Rightarrow> FileController \<Rightarrow>
   FileController \<times> file_response" where
  "exec_update env q P f ok st =
     (if fe_sql env q then (st, FileError 500)
      else if \<not> affects P st then (st, FileError 404)
      else (update_rows P f st, ok))"

text \<open>Removing a blob that no row names any more. A count that fails leaves \<^verbatim>\<open>count\<close> at zero.\<close>

definition ref_count :: "FileEnv \<Rightarrow> string \<Rightarrow> FileController \<Rightarrow> nat" where
  "ref_count env h st = (if fe_sql env (CountRefs h) then 0 else length (filter (\<lambda>r. f_cas r = h) (fc_files st)))"

definition drop_blob :: "FileEnv \<Rightarrow> string \<Rightarrow> FileController \<Rightarrow> FileController" where
  "drop_blob env h st =
     (case fc_CAS st of
        None \<Rightarrow> st
      | Some cas \<Rightarrow>
          if IsValidHash h \<and> ref_count env h st = 0
          then st\<lparr>fc_fs := os_Remove (fe_fails env) (cas_Path cas h) (fc_fs st), fc_CAS := Some (cas_Invalidate h cas)\<rparr>
          else st)"

definition DeleteFile :: "FileEnv \<Rightarrow> string \<Rightarrow> bool \<Rightarrow> FileController \<Rightarrow> FileController \<times> file_response" where
  "DeleteFile env i permanent st =
     (case vault_guard env (lookup env (SelectFolder i) (own env i) f_folder st) st of
        (st, True) \<Rightarrow> (st, FileError 401)
      | (st, False) \<Rightarrow>
          if permanent then
            let casHash = lookup env (SelectCas i) (own env i) f_cas st in
            if fe_sql env DeleteFiles then (st, FileError 500)
            else if \<not> affects (own env i) st then (st, FileError 404)
            else
              let st = st\<lparr>fc_files := filter (\<lambda>r. \<not> own env i r) (fc_files st)\<rparr> in
              (if casHash \<noteq> [] then drop_blob env casHash st else st, PermanentlyDeleted)
          else exec_update env (UpdateFile i) (own env i) (\<lambda>r. r\<lparr>f_deleted := True\<rparr>) Trashed st)"

definition RestoreFile :: "FileEnv \<Rightarrow> string \<Rightarrow> FileController \<Rightarrow> FileController \<times> file_response" where
  "RestoreFile env i st =
     (case vault_guard env (lookup env (SelectFolder i) (own env i) f_folder st) st of
        (st, True) \<Rightarrow> (st, FileError 401)
      | (st, False) \<Rightarrow> exec_update env (UpdateFile i) (own env i) (\<lambda>r. r\<lparr>f_deleted := False\<rparr>) Restored st)"

definition StarFile :: "FileEnv \<Rightarrow> string \<Rightarrow> FileController \<Rightarrow> FileController \<times> file_response" where
  "StarFile env i st =
     (case vault_guard env (lookup env (SelectFolder i) (own env i) f_folder st) st of
        (st, True) \<Rightarrow> (st, FileError 401)
      | (st, False) \<Rightarrow>
          if fe_sql env (UpdateFile i) then (st, FileError 500)
          else if \<not> affects (\<lambda>r. own env i r \<and> \<not> f_deleted r) st then
            (st, FileError (case find (own env i) (fc_files st) of
                              Some r \<Rightarrow> if \<not> fe_sql env CheckDeleted \<and> f_deleted r then 400 else 404
                            | None \<Rightarrow> 404))
          else (update_rows (\<lambda>r. own env i r \<and> \<not> f_deleted r) (\<lambda>r. r\<lparr>f_starred := \<not> f_starred r\<rparr>) st, StarToggled))"

text \<open>\<^verbatim>\<open>EmptyTrash\<close>: one transaction deletes the rows, then the blobs are dropped one by one.\<close>

definition trash_filter :: "FileEnv \<Rightarrow> bool \<Rightarrow> string list \<Rightarrow> FileRecord \<Rightarrow> bool" where
  "trash_filter env unlocked ids r \<longleftrightarrow>
     f_owner r = fe_user env \<and> f_deleted r \<and> (\<not> unlocked \<longrightarrow> vaultExcludeFilter ids r)"

definition EmptyTrash :: "FileEnv \<Rightarrow> FileController \<Rightarrow> FileController \<times> file_response" where
  "EmptyTrash env st =
     (let unlocked = isVaultUnlocked env in
      case (if unlocked then (st, []) else fc_VaultFolderIDs env st) of (st, ids) \<Rightarrow>
        let P = trash_filter env unlocked ids in
        if fe_sql env BeginTx \<or> fe_sql env SelectTrash \<or> fe_sql env DeleteFiles \<or> fe_sql env CommitTx
        then (st, FileError 500)
        else
          let hashes = filter (\<lambda>h. h \<noteq> []) (remdups (map f_cas (filter P (fc_files st))));
              count = int (length (filter P (fc_files st)));
              st = st\<lparr>fc_files := filter (\<lambda>r. \<not> P r) (fc_files st)\<rparr>
          in (fold (drop_blob env) hashes st, TrashEmptied count))"

section \<open>Blobs and rows\<close>

text \<open>The blob a hash names in a controller with a store.\<close>

definition fc_blob :: "FileController \<Rightarrow> string \<Rightarrow> bytes option" where
  "fc_blob st h = (case fc_CAS st of None \<Rightarrow> None | Some cas \<Rightarrow> blob_at (cas, fc_fs st) h)"

definition refs :: "FileController \<Rightarrow> string set" where
  "refs st = f_cas ` set (fc_files st)"

definition store_inv :: "FileController \<Rightarrow> bool" where
  "store_inv st \<longleftrightarrow> (\<forall>cas. fc_CAS st = Some cas \<longrightarrow> cas_inv (cas, fc_fs st))"

lemma fc_vault_sel [simp]:
  "fc_blob (st\<lparr>fc_vault := vc\<rparr>) = fc_blob st" "refs (st\<lparr>fc_vault := vc\<rparr>) = refs st"
  "store_inv (st\<lparr>fc_vault := vc\<rparr>) = store_inv st"
  by (simp_all add: fc_blob_def fun_eq_iff refs_def store_inv_def split: option.split)

lemma fc_files_sel [simp]: "fc_blob (st\<lparr>fc_files := rows\<rparr>) = fc_blob st" "store_inv (st\<lparr>fc_files := rows\<rparr>) = store_inv st"
  by (simp_all add: fc_blob_def fun_eq_iff store_inv_def split: option.split)

lemma drop_blob_files [simp]: "fc_files (drop_blob env h st) = fc_files st"
  by (simp add: drop_blob_def split: option.split)

lemma drop_blob_refs [simp]: "refs (drop_blob env h st) = refs st"
  by (simp add: refs_def)

lemma ref_count_zero: "\<not> fe_sql env (CountRefs h) \<Longrightarrow> ref_count env h st = 0 \<longleftrightarrow> h \<notin> refs st"
  by (auto simp: ref_count_def refs_def filter_empty_conv image_iff)

lemma drop_blob_keeps:
  assumes "\<not> fe_sql env (CountRefs h)" "k \<in> refs st"
  shows "fc_blob (drop_blob env h st) k = fc_blob st k"
proof (cases "fc_CAS st")
  case (Some cas)
  show ?thesis
  proof (cases "IsValidHash h \<and> ref_count env h st = 0")
    case True
    then have "k \<noteq> h" using assms ref_count_zero by auto
    then show ?thesis
      using True Some cas_Path_inject [of k h cas cas]
      by (auto simp: drop_blob_def fc_blob_def blob_at_def os_Remove_def cas_Invalidate_def)
  qed (use Some in \<open>auto simp: drop_blob_def\<close>)
qed (simp add: drop_blob_def)

lemma drop_blob_inv: "store_inv st \<Longrightarrow> store_inv (drop_blob env h st)"
proof (cases "fc_CAS st")
  case (Some cas)
  assume "store_inv st"
  then have i: "cas_inv (cas_Invalidate h cas, fc_fs st)"
    using Some by (auto simp: store_inv_def cas_inv_def cas_Invalidate_def)
  have "cas_inv (cas_Invalidate h cas, os_Remove (fe_fails env) (cas_Path cas h) (fc_fs st))" if "IsValidHash h"
    using cas_inv_drop_blob [OF i that] i by (auto simp: os_Remove_def cas_Invalidate_def)
  then show ?thesis using \<open>store_inv st\<close> Some by (auto simp: drop_blob_def store_inv_def)
qed (simp add: drop_blob_def)

lemma fold_drop_blob:
  assumes "\<And>h. \<not> fe_sql env (CountRefs h)" "store_inv st"
  shows "fc_files (fold (drop_blob env) hs st) = fc_files st \<and> store_inv (fold (drop_blob env) hs st) \<and>
         (\<forall>k \<in> refs st. fc_blob (fold (drop_blob env) hs st) k = fc_blob st k)"
  using assms(2)
proof (induction hs arbitrary: st)
  case (Cons h hs)
  then show ?case
    using Cons.IH [OF drop_blob_inv [OF Cons.prems]] drop_blob_keeps [OF assms(1)] by simp
qed simp

text \<open>What a handler does to the blobs: those of the remaining rows are untouched, and no row names a new one.\<close>

definition blobs_kept :: "FileController \<Rightarrow> FileController \<Rightarrow> bool" where
  "blobs_kept st st' \<longleftrightarrow> store_inv st' \<and> refs st' \<subseteq> refs st \<and> (\<forall>h \<in> refs st'. fc_blob st' h = fc_blob st h)"

lemma blobs_kept_same: "store_inv st \<Longrightarrow> blobs_kept st (st\<lparr>fc_vault := vc\<rparr>)"
  by (simp add: blobs_kept_def)

lemma refs_update:
  assumes "\<And>r. f_cas (f r) = f_cas r"
  shows "refs (update_rows P f st) = refs st"
proof -
  have "map f_cas (fc_files (update_rows P f st)) = map f_cas (fc_files st)"
    using assms by (simp add: update_rows_def)
  then show ?thesis unfolding refs_def by (metis set_map)
qed

lemma exec_update_kept:
  assumes "\<And>r. f_cas (f r) = f_cas r" "exec_update env q P f ok st = (st', r)" "store_inv st"
  shows "blobs_kept st st'"
proof -
  have "st' = st \<or> st' = update_rows P f st" using assms(2) by (auto simp: exec_update_def split: if_splits)
  moreover have "blobs_kept st (update_rows P f st)"
    using assms(3) by (simp add: blobs_kept_def refs_update [OF assms(1)]) (simp add: update_rows_def)
  ultimately show ?thesis using assms(3) by (auto simp: blobs_kept_def)
qed

lemma blobs_kept_vault: "blobs_kept (st\<lparr>fc_vault := vc\<rparr>) st' = blobs_kept st st'"
  by (simp add: blobs_kept_def)

lemma DeleteFile_kept:
  assumes "DeleteFile env i perm st = (st', r)" "store_inv st" "\<And>h. \<not> fe_sql env (CountRefs h)"
  shows "blobs_kept st st'"
proof -
  obtain st1 b where g: "vault_guard env (lookup env (SelectFolder i) (own env i) f_folder st) st = (st1, b)" by fastforce
  then obtain vc where st1: "st1 = st\<lparr>fc_vault := vc\<rparr>" using vault_guard_sel by blast
  have i1: "store_inv st1" using assms(2) st1 by simp
  let ?del = "st1\<lparr>fc_files := filter (\<lambda>r. \<not> own env i r) (fc_files st1)\<rparr>"
  have sub: "refs ?del \<subseteq> refs st1" by (auto simp: refs_def)
  have drop: "blobs_kept st1 (drop_blob env h ?del)" for h
    unfolding blobs_kept_def
    using drop_blob_keeps [OF assms(3), of _ ?del h] drop_blob_inv [of ?del env h] i1 sub by simp
  have "blobs_kept st1 st'"
  proof (cases "b \<or> \<not> perm")
    case True
    then show ?thesis
      using assms(1) i1 exec_update_kept [of "\<lambda>r. r\<lparr>f_deleted := True\<rparr>" env "UpdateFile i" "own env i" Trashed st1 st' r]
      by (auto simp: DeleteFile_def g blobs_kept_def split: bool.splits)
  next
    case False
    then have "st' = st1 \<or> st' = ?del \<or> (\<exists>h. st' = drop_blob env h ?del)"
      using assms(1) by (auto simp: DeleteFile_def g Let_def split: if_splits)
    then show ?thesis using drop sub i1 by (auto simp: blobs_kept_def)
  qed
  then show ?thesis by (simp add: st1 blobs_kept_vault)
qed

lemma RestoreFile_kept:
  assumes "RestoreFile env i st = (st', r)" "store_inv st"
  shows "blobs_kept st st'"
proof -
  obtain st1 b where g: "vault_guard env (lookup env (SelectFolder i) (own env i) f_folder st) st = (st1, b)" by fastforce
  then obtain vc where st1: "st1 = st\<lparr>fc_vault := vc\<rparr>" using vault_guard_sel by blast
  have "blobs_kept st1 st'"
    using assms exec_update_kept [of "\<lambda>r. r\<lparr>f_deleted := False\<rparr>" env "UpdateFile i" "own env i" Restored st1 st' r]
    by (auto simp: RestoreFile_def g st1 blobs_kept_def split: bool.splits)
  then show ?thesis by (simp add: st1 blobs_kept_vault)
qed

lemma StarFile_kept:
  assumes "StarFile env i st = (st', r)" "store_inv st"
  shows "blobs_kept st st'"
proof -
  obtain st1 b where g: "vault_guard env (lookup env (SelectFolder i) (own env i) f_folder st) st = (st1, b)" by fastforce
  then obtain vc where st1: "st1 = st\<lparr>fc_vault := vc\<rparr>" using vault_guard_sel by blast
  let ?upd = "update_rows (\<lambda>r. own env i r \<and> \<not> f_deleted r) (\<lambda>r. r\<lparr>f_starred := \<not> f_starred r\<rparr>) st1"
  have "st' = st1 \<or> st' = ?upd"
    using assms(1) by (auto simp: StarFile_def g split: bool.splits if_splits)
  moreover have "blobs_kept st1 ?upd"
    using assms(2) by (simp add: blobs_kept_def refs_update st1) (simp add: update_rows_def)
  ultimately have "blobs_kept st1 st'" using assms(2) by (auto simp: blobs_kept_def st1)
  then show ?thesis by (simp add: st1 blobs_kept_vault)
qed

lemma EmptyTrash_kept:
  assumes "EmptyTrash env st = (st', r)" "store_inv st" "\<And>h. \<not> fe_sql env (CountRefs h)"
  shows "blobs_kept st st'"
proof -
  obtain st1 ids where g: "(if isVaultUnlocked env then (st, []) else fc_VaultFolderIDs env st) = (st1, ids)" by fastforce
  then obtain vc where st1: "st1 = st\<lparr>fc_vault := vc\<rparr>"
    by (cases "isVaultUnlocked env") (auto dest: fc_VaultFolderIDs_sel intro: that [of "fc_vault st"])
  let ?del = "st1\<lparr>fc_files := filter (\<lambda>r. \<not> trash_filter env (isVaultUnlocked env) ids r) (fc_files st1)\<rparr>"
  have "st' = st1 \<or> (\<exists>hs. st' = fold (drop_blob env) hs ?del)"
    using assms(1) by (auto simp: EmptyTrash_def g Let_def split: if_splits)
  moreover have "blobs_kept st1 (fold (drop_blob env) hs ?del)" for hs
  proof -
    have "refs (fold (drop_blob env) hs ?del) = refs ?del" "refs ?del \<subseteq> refs st1"
      using fold_drop_blob [OF assms(3), of ?del hs] assms(2) by (auto simp: refs_def st1)
    then show ?thesis
      using fold_drop_blob [OF assms(3), of ?del hs] assms(2) by (auto simp: blobs_kept_def st1)
  qed
  ultimately have "blobs_kept st1 st'" using assms(2) by (auto simp: blobs_kept_def st1)
  then show ?thesis by (simp add: st1 blobs_kept_vault)
qed

section \<open>Properties\<close>

lemma lookup_found: "\<not> fe_sql env q \<Longrightarrow> find P (fc_files st) = Some r \<Longrightarrow> lookup env q P col st = col r"
  by (simp add: lookup_def)

lemma affects_found: "find P (fc_files st) = Some r \<Longrightarrow> affects P st"
  by (auto simp: affects_def list_ex_iff find_Some_iff)

text \<open>A permanent deletion that passes the guard: the row goes, then the blob is counted.\<close>

lemma DeleteFile_permanent:
  assumes "vault_ok st" "\<And>q. (\<And>h. q \<noteq> CountRefs h) \<Longrightarrow> \<not> fe_sql env q"
    and r: "find (own env i) (fc_files st) = Some r" "IsValidHash (f_cas r)"
    and open_: "fc_in_vault st (f_folder r) \<Longrightarrow> isVaultUnlocked env"
  shows "\<exists>vc. DeleteFile env i True st =
     (drop_blob env (f_cas r) (st\<lparr>fc_vault := vc, fc_files := filter (\<lambda>q. \<not> own env i q) (fc_files st)\<rparr>), PermanentlyDeleted)"
proof -
  obtain st1 b where g: "vault_guard env (f_folder r) st = (st1, b)" by fastforce
  then obtain vc where st1: "st1 = st\<lparr>fc_vault := vc\<rparr>" using vault_guard_sel by blast
  have "\<not> b" using vault_guard_ok(1) [OF assms(1) _ g] assms(2) open_ by auto
  moreover have "f_cas r \<noteq> []" using r(2) by (auto simp: IsValidHash_def)
  ultimately have "DeleteFile env i True st =
     (drop_blob env (f_cas r) (st\<lparr>fc_vault := vc, fc_files := filter (\<lambda>q. \<not> own env i q) (fc_files st)\<rparr>), PermanentlyDeleted)"
    using g r(1) assms(2) affects_found [OF r(1)]
    by (simp add: DeleteFile_def Let_def lookup_found [OF _ r(1)] st1 lookup_def affects_def)
  then show ?thesis by blast
qed

text \<open>C16: a permanent deletion is exact: the row and only the row of that id and owner goes, and its blob goes with it if and only
  if no remaining row, of any user, trashed or not, has the same contents; every other blob is untouched.\<close>

theorem permanent_delete_exact:
  assumes "vault_ok st" "\<And>q. \<not> fe_sql env q" "\<And>p. \<not> fe_fails env (RemoveCall p)"
    and "fc_CAS st = Some cas" "find (own env i) (fc_files st) = Some r" "IsValidHash (f_cas r)"
    and "fc_in_vault st (f_folder r) \<Longrightarrow> isVaultUnlocked env"
  shows "\<exists>st'. DeleteFile env i True st = (st', PermanentlyDeleted) \<and>
           fc_files st' = filter (\<lambda>q. \<not> own env i q) (fc_files st) \<and>
           (\<forall>h. fc_blob st' h = (if h = f_cas r \<and> h \<notin> refs st' then None else fc_blob st h))"
proof -
  obtain vc where D: "DeleteFile env i True st =
     (drop_blob env (f_cas r) (st\<lparr>fc_vault := vc, fc_files := filter (\<lambda>q. \<not> own env i q) (fc_files st)\<rparr>), PermanentlyDeleted)"
    (is "_ = (drop_blob env _ ?st1, _)")
    using DeleteFile_permanent [OF assms(1,2,5,6,7)] by blast
  have "fc_blob (drop_blob env (f_cas r) ?st1) h = (if h = f_cas r \<and> h \<notin> refs ?st1 then None else fc_blob st h)" for h
  proof (cases "f_cas r \<in> refs ?st1")
    case True
    then have "ref_count env (f_cas r) ?st1 \<noteq> 0" using assms(2) ref_count_zero by blast
    then show ?thesis using True assms(4) by (auto simp: drop_blob_def fc_blob_def)
  next
    case False
    then have "ref_count env (f_cas r) ?st1 = 0" using assms(2) ref_count_zero by blast
    then show ?thesis
      using False assms(3,4,6) cas_Path_inject [of h "f_cas r" cas cas]
      by (auto simp: drop_blob_def fc_blob_def blob_at_def os_Remove_def cas_Invalidate_def)
  qed
  with D show ?thesis by auto
qed

text \<open>Two rows that share a blob.\<close>

definition ex_shared :: FileController where
  "ex_shared =
     (let cas = \<lparr>BaseDir = ''/s'', existCache = {}\<rparr>; h = replicate 64 (CHR ''0'')
      in ex_drive\<lparr>fc_CAS := Some cas, fc_fs := [cas_Path cas h \<mapsto> [1]], fc_files := [ex_file ''a'' [] h, ex_file ''b'' [] h]\<rparr>)"

lemma ex_shared_ok:
  "vault_ok ex_shared" "\<not> fc_in_vault ex_shared []" "find (own ex_fenv ''a'') (fc_files ex_shared) = Some (ex_file ''a'' [] (replicate 64 (CHR ''0'')))"
  "IsValidHash (replicate 64 (CHR ''0''))" "fc_CAS ex_shared = Some \<lparr>BaseDir = ''/s'', existCache = {}\<rparr>"
  "fc_blob ex_shared (replicate 64 (CHR ''0'')) = Some [1]"
proof -
  show v: "vault_ok ex_shared" using ex_drive_vault_ok(1) by (simp add: ex_shared_def vault_ok_def Let_def)
  show "\<not> fc_in_vault ex_shared []" using v presets_outside by (auto simp: vault_ok_def)
  show h: "IsValidHash (replicate 64 (CHR ''0''))" by code_simp
  show "find (own ex_fenv ''a'') (fc_files ex_shared) = Some (ex_file ''a'' [] (replicate 64 (CHR ''0'')))"
    by (simp add: ex_shared_def own_def ex_fenv_def ex_file_def Let_def)
  show "fc_CAS ex_shared = Some \<lparr>BaseDir = ''/s'', existCache = {}\<rparr>" by (simp add: ex_shared_def Let_def)
  show "fc_blob ex_shared (replicate 64 (CHR ''0'')) = Some [1]"
    using h by (simp add: ex_shared_def fc_blob_def blob_at_def Let_def)
qed

theorem permanent_delete_exact_witness:
  "\<exists>st'. DeleteFile ex_fenv ''a'' True ex_shared = (st', PermanentlyDeleted) \<and>
     fc_files st' = [ex_file ''b'' [] (replicate 64 (CHR ''0''))] \<and> fc_blob st' (replicate 64 (CHR ''0'')) = Some [1]"
proof -
  have "\<not> fe_fails ex_fenv c" for c by (simp add: ex_fenv_def)
  from permanent_delete_exact [OF ex_shared_ok(1) ex_drive_vault_ok(2) this ex_shared_ok(5,3)] ex_shared_ok(2,4,6)
  obtain st' where D: "DeleteFile ex_fenv ''a'' True ex_shared = (st', PermanentlyDeleted)"
    and f: "fc_files st' = filter (\<lambda>q. \<not> own ex_fenv ''a'' q) (fc_files ex_shared)"
    and b: "\<forall>h. fc_blob st' h = (if h = replicate 64 (CHR ''0'') \<and> h \<notin> refs st' then None else fc_blob ex_shared h)"
    by (auto simp: ex_file_def)
  have f': "fc_files st' = [ex_file ''b'' [] (replicate 64 (CHR ''0''))]"
    by (simp add: f ex_shared_def Let_def own_def ex_file_def ex_fenv_def)
  then have "replicate 64 (CHR ''0'') \<in> refs st'" by (simp add: refs_def ex_file_def)
  then have "fc_blob st' (replicate 64 (CHR ''0'')) = Some [1]" using b ex_shared_ok(6) by presburger
  with D f' show ?thesis by blast
qed

text \<open>the count of the remaining rows is read from a query whose error is dropped: when that query fails, a permanent
  deletion removes the blob although other rows still need it.\<close>

theorem failed_count_loses_shared_blob:
  assumes "vault_ok st" "\<And>q. fe_sql env q \<longleftrightarrow> q = CountRefs (f_cas r)" "\<And>p. \<not> fe_fails env (RemoveCall p)"
    and "fc_CAS st = Some cas" "find (own env i) (fc_files st) = Some r" "IsValidHash (f_cas r)"
    and "fc_in_vault st (f_folder r) \<Longrightarrow> isVaultUnlocked env"
    and r2: "r2 \<in> set (fc_files st)" "f_id r2 \<noteq> i" "f_cas r2 = f_cas r"
  shows "\<exists>st'. DeleteFile env i True st = (st', PermanentlyDeleted) \<and> r2 \<in> set (fc_files st') \<and> fc_blob st' (f_cas r2) = None"
proof -
  obtain vc where D: "DeleteFile env i True st =
     (drop_blob env (f_cas r) (st\<lparr>fc_vault := vc, fc_files := filter (\<lambda>q. \<not> own env i q) (fc_files st)\<rparr>), PermanentlyDeleted)"
    using DeleteFile_permanent [OF assms(1) _ assms(5,6,7)] assms(2) by blast
  then show ?thesis
    using assms by (auto simp: drop_blob_def fc_blob_def blob_at_def ref_count_def own_def os_Remove_def cas_Invalidate_def)
qed

theorem failed_count_loses_shared_blob_witness:
  "\<exists>st'. DeleteFile (ex_fenv\<lparr>fe_sql := \<lambda>q. q = CountRefs (replicate 64 (CHR ''0''))\<rparr>) ''a'' True ex_shared = (st', PermanentlyDeleted) \<and>
     ex_file ''b'' [] (replicate 64 (CHR ''0'')) \<in> set (fc_files st') \<and> fc_blob st' (replicate 64 (CHR ''0'')) = None"
proof -
  let ?env = "ex_fenv\<lparr>fe_sql := \<lambda>q. q = CountRefs (replicate 64 (CHR ''0''))\<rparr>"
  let ?r = "ex_file ''a'' [] (replicate 64 (CHR ''0''))" and ?r2 = "ex_file ''b'' [] (replicate 64 (CHR ''0''))"
  have "find (own ?env ''a'') (fc_files ex_shared) = Some ?r" using ex_shared_ok(3) by (simp add: own_def [abs_def])
  moreover have "?r2 \<in> set (fc_files ex_shared)" by (simp add: ex_shared_def Let_def)
  ultimately show ?thesis
    using failed_count_loses_shared_blob [OF ex_shared_ok(1) _ _ ex_shared_ok(5), of ?env ?r "''a''" ?r2] ex_shared_ok(2,4)
    by (simp add: ex_file_def ex_fenv_def)
qed

end
