(* ===== verification/File_Moves.thy ===== *)
theory File_Moves
  imports File_Trash
begin

text \<open>
  Renaming and moving files: \<^verbatim>\<open>RenameFile\<close>, \<^verbatim>\<open>MoveFile\<close> and \<^verbatim>\<open>MoveFilesBatch\<close> of
  \<^verbatim>\<open>internal/controllers/file_controller.go\<close>. A file that enters or leaves the vault is decrypted with one key,
  encrypted with the other into a temporary file, and stored as a new blob.
\<close>

section \<open>Operations\<close>

definition clean_entry_name :: "string \<Rightarrow> string option" where
  "clean_entry_name raw =
     (let name = TrimSpace raw in
      if name = [] then None
      else
        let cleanName = path_Base (path_Clean name) in
        if cleanName \<in> {''.'', ''..'', ''/'', []} then None else Some cleanName)"

text \<open>Another live file of the user with this name in the folder; a query that fails finds none.\<close>

definition file_name_taken :: "FileEnv \<Rightarrow> string \<Rightarrow> string \<Rightarrow> string \<Rightarrow> FileController \<Rightarrow> bool" where
  "file_name_taken env folder name i st \<longleftrightarrow>
     \<not> fe_sql env NameTaken \<and>
     list_ex (\<lambda>r. f_folder r = folder \<and> f_name r = name \<and> f_id r \<noteq> i \<and> f_owner r = fe_user env \<and> \<not> f_deleted r)
       (fc_files st)"

definition live :: "FileEnv \<Rightarrow> string \<Rightarrow> FileRecord \<Rightarrow> bool" where
  "live env i r \<longleftrightarrow> own env i r \<and> \<not> f_deleted r"

definition RenameFile :: "FileEnv \<Rightarrow> string \<Rightarrow> string \<Rightarrow> FileController \<Rightarrow> FileController \<times> file_response" where
  "RenameFile env i raw st =
     (case clean_entry_name raw of
        None \<Rightarrow> (st, FileError 400)
      | Some cleanName \<Rightarrow>
          if \<not> fe_sql env (SelectFolder i) \<and> \<not> affects (live env i) st then (st, FileError 404)
          else
            let folderID = lookup env (SelectFolder i) (live env i) f_folder st in
            case vault_guard env folderID st of
              (st, True) \<Rightarrow> (st, FileError 401)
            | (st, False) \<Rightarrow>
                if file_name_taken env folderID cleanName i st then (st, FileError 409)
                else exec_update env (UpdateFile i) (live env i) (\<lambda>r. r\<lparr>f_name := cleanName\<rparr>) (FileRenamed cleanName) st)"

text \<open>\<^verbatim>\<open>io.Copy(encStream, decStream)\<close>, through a buffer of 32 KiB.\<close>

function copy_stream :: "DecryptStream \<Rightarrow> EncryptStream \<Rightarrow> EncryptStream \<times> stream_error option" where
  "copy_stream ds es =
     (case DecryptStream_Read 32768 ds of
        (ds', Inl e) \<Rightarrow> (es, if e = EOF then None else Some e)
      | (ds', Inr out) \<Rightarrow>
          (case EncryptStream_Write out es of
             (es', Inl e) \<Rightarrow> (es', Some e)
           | (es', Inr _) \<Rightarrow> copy_stream ds' es'))"
  by pat_completeness auto
termination
  by (relation "inv_image read_progress fst") (auto simp: wf_read_progress intro: Read_shrinks)

declare copy_stream.simps [simp del]

definition reenc_path :: "FileEnv \<Rightarrow> string \<Rightarrow> string" where
  "reenc_path env i = path_Join [fe_tmpDir env, ''reenc_'' @ i @ ''_'' @ Itoa (fe_now env) @ ''.tmp'']"

datatype reenc_result = Reencrypted string | ReencFailed string | NilStore | VaultLocked

definition store_reencrypted ::
  "FileEnv \<Rightarrow> string \<Rightarrow> CASEngine \<times> fs \<Rightarrow> FileController \<Rightarrow> FileController \<times> reenc_result" where
  "store_reencrypted env tmp store st =
     (case MoveToCASWithStatus (fe_fails env) (fe_part env) tmp store of
        ((cas', fs'), None) \<Rightarrow>
          (st\<lparr>fc_CAS := Some cas', fc_fs := os_Remove (fe_fails env) tmp fs'\<rparr>, ReencFailed ''CAS move error'')
      | ((cas', fs'), Some (h, _)) \<Rightarrow> (st\<lparr>fc_CAS := Some cas', fc_fs := fs'\<rparr>, Reencrypted h))"

text \<open>The block that \<^verbatim>\<open>MoveFile\<close> and \<^verbatim>\<open>MoveFilesBatch\<close> repeat: open the blob, decrypt, encrypt into the temporary file, store.
  The failure is named as the batch reports it.\<close>

definition reencrypt ::
  "FileEnv \<Rightarrow> bytes \<Rightarrow> bytes \<Rightarrow> string \<Rightarrow> string \<Rightarrow> FileController \<Rightarrow> FileController \<times> reenc_result" where
  "reencrypt env srcKey dstKey i casHash st =
     (case fc_CAS st of
        None \<Rightarrow> (st, NilStore)
      | Some cas \<Rightarrow>
          let casPath = cas_Path cas casHash; tmp = reenc_path env i; fails = fe_fails env in
          case os_Open fails casPath (fc_fs st) of
            None \<Rightarrow> (st, ReencFailed ''cannot open file'')
          | Some d \<Rightarrow>
              (case NewDecryptStream ((new_reader ReadSeekerAt d)\<lparr>r_fault := fails (ReadCall casPath)\<rparr>) srcKey of
                 Inl _ \<Rightarrow> (st, ReencFailed ''decrypt error'')
               | Inr ds \<Rightarrow>
                   (case os_Create fails tmp (fc_fs st) of
                      None \<Rightarrow> (st, ReencFailed ''temp file error'')
                    | Some fs1 \<Rightarrow>
                        (case NewEncryptStream \<lparr>w_data = [], w_room = fe_room env\<rparr> dstKey of
                           Inl _ \<Rightarrow> (st\<lparr>fc_fs := os_Remove fails tmp fs1\<rparr>, ReencFailed ''encrypt error'')
                         | Inr es \<Rightarrow>
                             (case copy_stream ds es of (es', e) \<Rightarrow>
                                let fs2 = fs1(tmp \<mapsto> w_data (es_w es')) in
                                if e \<noteq> None then (st\<lparr>fc_fs := os_Remove fails tmp fs2\<rparr>, ReencFailed ''copy error'')
                                else store_reencrypted env tmp (cas, fs2) st)))))"

definition target_folder :: "string \<Rightarrow> string" where
  "target_folder raw = (let t = TrimSpace raw in if t = ''root'' then [] else t)"

definition folder_exists :: "FileEnv \<Rightarrow> string \<Rightarrow> FileController \<Rightarrow> bool" where
  "folder_exists env f st \<longleftrightarrow>
     \<not> fe_sql env (FolderExists f) \<and> list_ex (\<lambda>r. fd_id r = f \<and> fd_owner r = fe_user env) (fc_folders st)"

text \<open>The keys of a move, from the vault to standard storage or back.\<close>

definition move_keys :: "FileEnv \<Rightarrow> bool \<Rightarrow> bytes \<times> bytes" where
  "move_keys env isSrcVault =
     (if isSrcVault then (vault_key env, fe_stdKey env) else (fe_stdKey env, vault_key env))"

text \<open>The hash a moved file gets: its own within one domain, that of the re-encrypted blob across domains.\<close>

definition cross_vault ::
  "FileEnv \<Rightarrow> bool \<Rightarrow> string \<Rightarrow> string \<Rightarrow> bool \<Rightarrow> bool \<Rightarrow> FileController \<Rightarrow> FileController \<times> reenc_result" where
  "cross_vault env locked i casHash isSrcVault isDstVault st =
     (if isSrcVault = isDstVault then (st, Reencrypted casHash)
      else if locked then (st, VaultLocked)
      else case move_keys env isSrcVault of (srcKey, dstKey) \<Rightarrow> reencrypt env srcKey dstKey i casHash st)"

definition no_vault_key :: "FileEnv \<Rightarrow> bool" where
  "no_vault_key env \<longleftrightarrow> \<not> isVaultUnlocked env \<or> vault_key env = []"

definition place_row :: "FileEnv \<Rightarrow> string \<Rightarrow> string \<Rightarrow> string \<Rightarrow> FileController \<Rightarrow> FileController" where
  "place_row env i target h st = update_rows (own env i) (\<lambda>r. r\<lparr>f_folder := target, f_cas := h\<rparr>) st"

definition MoveFile :: "FileEnv \<Rightarrow> string \<Rightarrow> string \<Rightarrow> FileController \<Rightarrow> FileController \<times> file_response" where
  "MoveFile env i raw st =
     (let target = target_folder raw in
      if fe_sql env (SelectFile i) then (st, FileError 500)
      else case find (live env i) (fc_files st) of
          None \<Rightarrow> (st, FileError 404)
        | Some r \<Rightarrow>
            if f_folder r = target then (st, FileMoved target None)
            else if target \<noteq> [] \<and> \<not> folder_exists env target st then (st, FileError 400)
            else if file_name_taken env target (f_name r) i st then (st, FileError 409)
            else
              case fc_IsVaultFolder env (f_folder r) st of (st, isSrcVault) \<Rightarrow>
              case fc_IsVaultFolder env target st of (st, isDstVault) \<Rightarrow>
              (case cross_vault env (no_vault_key env) i (f_cas r) isSrcVault isDstVault st of
                 (st, Reencrypted h) \<Rightarrow>
                   if fe_sql env (UpdateFile i) then (st, FileError 500)
                   else (place_row env i target h st, FileMoved target (Some h))
               | (st, VaultLocked) \<Rightarrow> (st, FileError 401)
               | (st, _) \<Rightarrow> (st, FileError 500)))"

text \<open>One file of a batch: moved, skipped with a message, or the request ends.\<close>

datatype batch_step = BatchMovedOne | BatchError string | BatchAbort int

definition move_one :: "FileEnv \<Rightarrow> string \<Rightarrow> string \<Rightarrow> FileController \<Rightarrow> FileController \<times> batch_step" where
  "move_one env target i st =
     (case (if fe_sql env (SelectFile i) then None else find (live env i) (fc_files st)) of
        None \<Rightarrow> (st, BatchError (i @ '': not found''))
      | Some r \<Rightarrow>
          if f_folder r = target then (st, BatchMovedOne)
          else if file_name_taken env target (f_name r) i st
          then (st, BatchError (i @ '': name conflict with '' @ [CHR 0x27] @ f_name r @ [CHR 0x27]))
          else
            case fc_IsVaultFolder env (f_folder r) st of (st, isSrcVault) \<Rightarrow>
            case fc_IsVaultFolder env target st of (st, isDstVault) \<Rightarrow>
            (case cross_vault env (\<not> isVaultUnlocked env) i (f_cas r) isSrcVault isDstVault st of
               (st, Reencrypted h) \<Rightarrow>
                 if fe_sql env (UpdateFile i) then (st, BatchError (i @ '': db error''))
                 else (place_row env i target h st, BatchMovedOne)
             | (st, ReencFailed msg) \<Rightarrow> (st, BatchError (i @ '': '' @ msg))
             | (st, NilStore) \<Rightarrow> (st, BatchAbort 500)
             | (st, VaultLocked) \<Rightarrow> (st, BatchAbort 401)))"

fun move_each :: "FileEnv \<Rightarrow> string \<Rightarrow> string list \<Rightarrow> int \<Rightarrow> string list \<Rightarrow> FileController \<Rightarrow> FileController \<times> file_response" where
  "move_each env target [] moved errs st = (st, BatchMoved moved errs)"
| "move_each env target (i # ids) moved errs st =
     (case move_one env target i st of
        (st, BatchMovedOne) \<Rightarrow> move_each env target ids (moved + 1) errs st
      | (st, BatchError msg) \<Rightarrow> move_each env target ids moved (errs @ [msg]) st
      | (st, BatchAbort code) \<Rightarrow> (st, FileError code))"

definition MoveFilesBatch :: "FileEnv \<Rightarrow> string list \<Rightarrow> string \<Rightarrow> FileController \<Rightarrow> FileController \<times> file_response" where
  "MoveFilesBatch env ids raw st =
     (if ids = [] then (st, FileError 400)
      else
        let target = target_folder raw in
        if target \<noteq> [] \<and> \<not> folder_exists env target st then (st, FileError 400)
        else move_each env target ids 0 [] st)"

section \<open>Re-encryption\<close>

lemma copy_stream_frames:
  assumes "ds_aesgcm ds = cipher_NewGCM key" "stream_at ds key ps" "w_room (es_w es) = None"
  shows "\<exists>es' qs. copy_stream ds es = (es', None) \<and>
           w_data (es_w es') = w_data (es_w es) @ frames (es_aesgcm es) (es_key es) qs \<and>
           list_all chunk_ok qs \<and> concat qs = ds_buf ds @ concat ps"
  using assms
proof (induction ds es arbitrary: ps rule: copy_stream.induct)
  case (1 ds es)
  note prems = "1.prems"
  show ?case
  proof (cases "ds_buf ds \<noteq> [] \<or> ps \<noteq> []")
    case False
    then have "DecryptStream_Read 32768 ds = (ds, Inl EOF)"
      using next_chunk_end prems(2) by (simp add: DecryptStream_Read_def)
    then show ?thesis using False by (subst copy_stream.simps) (auto intro!: exI [of _ "[]"])
  next
    case True
    from aes_gcm.Read_stream [OF prems(1) prems(2) [folded stream_upto_at], of 32768] True obtain ds' out qs
      where R: "DecryptStream_Read 32768 ds = (ds', Inr out)" "ds_aesgcm ds' = cipher_NewGCM key" "stream_at ds' key qs"
        "ds_buf ds @ concat ps = out @ ds_buf ds' @ concat qs" "length out \<le> 32768"
      by (auto simp: stream_upto_at)
    let ?new = "if out = [] then [] else [out]"
    obtain es1 w where W0: "EncryptStream_Write out es = (es1, w)" by fastforce
    have W: "EncryptStream_Write out es = (es1, Inr (length out))" "w_room (es_w es1) = None"
      "w_data (es_w es1) = w_data (es_w es) @ frames (es_aesgcm es) (es_key es) ?new"
      "es_aesgcm es1 = es_aesgcm es" "es_key es1 = es_key es"
      using prems(3) W0 by (auto simp: EncryptStream_Write_def writer_Write_def split: if_splits)
    from "1.IH" [OF R(1) [symmetric] refl W(1) [symmetric] refl R(2,3) W(2)] obtain es' rs where
      I: "copy_stream ds' es1 = (es', None)" "list_all chunk_ok rs" "concat rs = ds_buf ds' @ concat qs"
      "w_data (es_w es') = w_data (es_w es1) @ frames (es_aesgcm es1) (es_key es1) rs" by blast
    have "copy_stream ds es = (es', None)" using R(1) W(1) I(1) by (subst copy_stream.simps) simp
    moreover have "list_all chunk_ok (?new @ rs)"
      using R(5) I(2) by (simp add: chunk_ok_def MaxChunkSize_def)
    moreover have "concat (?new @ rs) = ds_buf ds @ concat ps" using R(4) I(3) by simp
    moreover have "w_data (es_w es') = w_data (es_w es) @ frames (es_aesgcm es) (es_key es) (?new @ rs)"
      using I(4) W(3,4,5) by (simp add: frames_def)
    ultimately show ?thesis by blast
  qed
qed

lemma NewEncryptStream_fresh:
  "aes_NewCipher key \<noteq> None \<Longrightarrow> NewEncryptStream w key = Inr \<lparr>es_w = w, es_aesgcm = cipher_NewGCM key, es_key = key\<rparr>"
  by (auto simp: NewEncryptStream_def aes_NewCipher_def split: if_splits)

text \<open>Copying a framed blob frames the same bytes under the other key.\<close>

lemma copy_stream_reframes:
  assumes "framed srcKey x d" "aes_NewCipher srcKey \<noteq> None" "aes_NewCipher dstKey \<noteq> None"
  shows "\<exists>ds es es'. NewDecryptStream (new_reader ReadSeekerAt d) srcKey = Inr ds \<and>
           NewEncryptStream \<lparr>w_data = [], w_room = None\<rparr> dstKey = Inr es \<and> copy_stream ds es = (es', None) \<and>
           framed dstKey x (w_data (es_w es'))"
proof -
  from assms(1) obtain ps where ps: "d = frames (cipher_NewGCM srcKey) srcKey ps" "list_all chunk_ok ps" "concat ps = x"
    by (auto simp: framed_def)
  let ?es = "\<lparr>es_w = \<lparr>w_data = [], w_room = None\<rparr>, es_aesgcm = cipher_NewGCM dstKey, es_key = dstKey\<rparr>"
  have "stream_at (fresh_stream ReadSeekerAt srcKey d) srcKey ps"
    using fresh_stream_upto [OF ps(2), of ReadSeekerAt srcKey "[]"] by (simp add: stream_upto_at ps(1))
  from copy_stream_frames [OF _ this, of ?es] obtain es' qs where
    "copy_stream (fresh_stream ReadSeekerAt srcKey d) ?es = (es', None)"
    "w_data (es_w es') = frames (cipher_NewGCM dstKey) dstKey qs" "list_all chunk_ok qs" "concat qs = x"
    using ps(3) by auto
  with NewDecryptStream_fresh [OF assms(2)] NewEncryptStream_fresh [OF assms(3)] show ?thesis
    by (auto simp: framed_def)
qed

section \<open>Moves keep the store\<close>

text \<open>What the handlers rely on: files can be removed and looked up.\<close>

definition orderly :: "FileEnv \<Rightarrow> bool" where
  "orderly env \<longleftrightarrow> (\<forall>p. \<not> fe_fails env (RemoveCall p) \<and> \<not> fe_fails env (StatCall p))"

text \<open>The temporary file ends in \<^verbatim>\<open>.tmp\<close>, whatever the id of the file is, and so is no blob.\<close>

lemma reenc_path_outside: "outside_store st (reenc_path env i)"
proof -
  have "\<exists>w. path_Join [fe_tmpDir env, (''reenc_'' @ i @ ''_'' @ Itoa (fe_now env)) @ ''.tmp''] = w @ ''.tmp''"
    by (rule path_Join_suffix) (auto simp: append_eq_Cons_conv)
  then obtain w where "reenc_path env i = w @ ''.tmp''" by (auto simp: reenc_path_def simp del: path_Join.simps)
  then show ?thesis by (rule outside_store_ext) (simp_all add: is_hex_char_def less_eq_char_def)
qed

text \<open>The effect of a re-encryption on everything but its result: blobs stay, and the new one is there.\<close>

definition store_grows :: "FileController \<Rightarrow> FileController \<Rightarrow> bool" where
  "store_grows st st' \<longleftrightarrow>
     store_inv st' \<and> fc_files st' = fc_files st \<and> fc_folders st' = fc_folders st \<and> fc_vault st' = fc_vault st \<and>
     map_option BaseDir (fc_CAS st') = map_option BaseDir (fc_CAS st) \<and>
     (\<forall>h d. fc_blob st h = Some d \<longrightarrow> fc_blob st' h = Some d)"

lemma store_grows_temp:
  assumes "store_inv st" "fc_CAS st = Some cas" "outside_store (cas, fc_fs st) p"
  shows "store_grows st (st\<lparr>fc_fs := (fc_fs st)(p := x)\<rparr>)"
  using assms cas_inv_remove_temp [of cas "fc_fs st" p x] blob_at_temp [OF assms(3)]
  by (auto simp: store_grows_def store_inv_def fc_blob_def)

lemma store_reencrypted_grows:
  assumes "store_reencrypted env p (cas, (fc_fs st)(p \<mapsto> d)) st = (st', r)"
    and st: "store_inv st" "fc_CAS st = Some cas" "outside_store (cas, fc_fs st) p"
    and calls: "\<And>q. \<not> fe_fails env (RemoveCall q) \<and> \<not> fe_fails env (StatCall q)"
  shows "store_grows st st' \<and> (\<forall>h. r = Reencrypted h \<longrightarrow> h = hash_of d \<and> fc_blob st' h \<noteq> None)"
proof -
  let ?fs = "(fc_fs st)(p \<mapsto> d)"
  obtain cas' fs' m where M: "MoveToCASWithStatus (fe_fails env) (fe_part env) p (cas, ?fs) = ((cas', fs'), m)"
    by (metis prod.exhaust)
  note out = move_outcome_sound [OF M]
  have o: "outside_store (cas, ?fs) p" using st(3) by (simp add: outside_store_def)
  have inv: "cas_inv (cas, ?fs)" using st cas_inv_remove_temp [of cas "fc_fs st" p "Some d"] by (auto simp: store_inv_def)
  have inv': "cas_inv (cas', fs')" using move_outcome_inv [OF out inv o] calls by simp
  have dir: "BaseDir cas' = BaseDir cas" "cas_Path cas' = cas_Path cas" using move_outcome_dir [OF out] by simp_all
  have o': "outside_store (cas', fs') p" using o dir(2) by (simp add: outside_store_def)
  have keep: "blob_at (cas', fs') h = Some x" if "fc_blob st h = Some x" for h x
    using move_outcome_keeps [OF out inv o] calls that blob_at_temp [OF st(3)] st(2) by (simp add: fc_blob_def)
  show ?thesis
  proof (cases m)
    case None
    then have "st' = st\<lparr>fc_CAS := Some cas', fc_fs := fs'(p := None)\<rparr>" "r \<notin> range Reencrypted"
      using assms(1) M calls by (auto simp: store_reencrypted_def os_Remove_def)
    then show ?thesis
      using keep cas_inv_remove_temp [OF inv' o'] blob_at_temp [OF o'] st(2) dir(1)
      by (auto simp: store_grows_def store_inv_def fc_blob_def)
  next
    case (Some hb)
    then obtain h b where m: "m = Some (h, b)" by (cases hb) auto
    then have "st' = st\<lparr>fc_CAS := Some cas', fc_fs := fs'\<rparr>" "r = Reencrypted h"
      using assms(1) M by (auto simp: store_reencrypted_def)
    moreover have "h = hash_of d" "blob_at (cas', fs') h \<noteq> None"
      using move_outcome_blob [OF out [unfolded m] inv o] by auto
    ultimately show ?thesis using keep inv' st(2) dir(1) by (auto simp: store_grows_def store_inv_def fc_blob_def)
  qed
qed

lemma reencrypt_grows:
  assumes R: "reencrypt env k1 k2 i h st = (st', r)" and "orderly env" "store_inv st"
  shows "store_grows st st' \<and> (\<forall>h. r = Reencrypted h \<longrightarrow> fc_blob st' h \<noteq> None)"
proof (cases "fc_CAS st")
  case None
  then show ?thesis using R assms(3) by (auto simp: reencrypt_def store_grows_def)
next
  case (Some cas)
  let ?tmp = "reenc_path env i"
  have calls: "\<not> fe_fails env (RemoveCall q) \<and> \<not> fe_fails env (StatCall q)" for q
    using assms(2) by (simp add: orderly_def)
  have o: "outside_store (cas, fc_fs st) ?tmp" by (rule reenc_path_outside)
  have "st' = st \<and> r \<notin> range Reencrypted \<or> st' = st\<lparr>fc_fs := (fc_fs st)(?tmp := None)\<rparr> \<and> r \<notin> range Reencrypted \<or>
      (\<exists>d. store_reencrypted env ?tmp (cas, (fc_fs st)(?tmp \<mapsto> d)) st = (st', r))"
    using R calls by (auto simp: reencrypt_def Some Let_def os_Create_def os_Remove_def split: option.splits sum.splits prod.splits if_splits)
  then show ?thesis
    using store_reencrypted_grows [OF _ assms(3) Some o calls, of _ st' r] store_grows_temp [OF assms(3) Some o, of None] assms(3)
    by (auto simp: store_grows_def)
qed

text \<open>Every row names a blob of the store, or a hash that was missing from the beginning (the seeded example rows).\<close>

definition rows_stored :: "string set \<Rightarrow> FileController \<Rightarrow> bool" where
  "rows_stored M st \<longleftrightarrow> store_inv st \<and> (\<forall>h \<in> refs st. h \<in> M \<or> fc_blob st h \<noteq> None)"

lemma rows_stored_kept: "rows_stored M st \<Longrightarrow> blobs_kept st st' \<Longrightarrow> rows_stored M st'"
  by (auto simp: rows_stored_def blobs_kept_def)

lemma rows_stored_vault [simp]: "rows_stored M (st\<lparr>fc_vault := vc\<rparr>) = rows_stored M st"
  by (simp add: rows_stored_def)

lemma rows_stored_grows: "rows_stored M st \<Longrightarrow> store_grows st st' \<Longrightarrow> rows_stored M st'"
  by (fastforce simp: rows_stored_def store_grows_def refs_def)

lemma rows_stored_place:
  assumes "rows_stored M st" "h \<in> refs st \<or> fc_blob st h \<noteq> None"
  shows "rows_stored M (place_row env i target h st)"
proof -
  have "refs (place_row env i target h st) \<subseteq> insert h (refs st)"
    by (auto simp: refs_def place_row_def update_rows_def)
  with assms show ?thesis
    unfolding rows_stored_def by (auto simp: place_row_def update_rows_def)
qed

lemma cross_vault_stored:
  assumes "rows_stored M st" "orderly env" "h \<in> refs st" "cross_vault env locked i h b1 b2 st = (st', x)"
  shows "rows_stored M st' \<and> (\<forall>h. x = Reencrypted h \<longrightarrow> h \<in> refs st' \<or> fc_blob st' h \<noteq> None)"
proof -
  obtain k1 k2 where k: "move_keys env b1 = (k1, k2)" by fastforce
  obtain st1 res where R: "reencrypt env k1 k2 i h st = (st1, res)" by fastforce
  have inv: "store_inv st" using assms(1) by (simp add: rows_stored_def)
  note G = reencrypt_grows [OF R assms(2) inv]
  show ?thesis
  proof (cases "b1 = b2 \<or> locked")
    case True
    then show ?thesis using assms by (auto simp: cross_vault_def split: if_splits)
  next
    case False
    then have "st' = st1" "x = res" using assms(4) k R by (simp_all add: cross_vault_def)
    then show ?thesis
      using G rows_stored_grows [OF assms(1), of st1] by simp
  qed
qed

lemma row_found: "find P (fc_files st) = Some r \<Longrightarrow> P r \<and> r \<in> set (fc_files st) \<and> f_cas r \<in> refs st"
  by (auto simp: find_Some_iff refs_def)

text \<open>What the two handlers do once the row is found, on the state with the vault cache loaded.\<close>

lemma placed_stored:
  assumes "rows_stored M st" "orderly env" "find (live env i) (fc_files st) = Some r"
    and v: "fc_IsVaultFolder env (f_folder r) st = (st1, b1)" "fc_IsVaultFolder env target st1 = (st2, b2)"
    and c: "cross_vault env locked i (f_cas r) b1 b2 st2 = (st3, x)"
    and st': "st' = st3 \<or> (\<exists>h. x = Reencrypted h \<and> st' = place_row env i target h st3)"
  shows "rows_stored M st'"
proof -
  obtain vc where st2: "st2 = st\<lparr>fc_vault := vc\<rparr>" using v by (auto dest!: fc_IsVaultFolder_sel)
  have p: "rows_stored M st2" "orderly env" "f_cas r \<in> refs st2"
    using assms(1,2) row_found [OF assms(3)] by (simp_all add: st2)
  from cross_vault_stored [OF p c] st' show ?thesis
    using rows_stored_place [of M st3] by (auto simp: place_row_def)
qed

lemma MoveFile_stored:
  assumes "rows_stored M st" "orderly env" "MoveFile env i raw st = (st', res)"
  shows "rows_stored M st'"
proof (cases "find (live env i) (fc_files st)")
  case None
  then show ?thesis using assms by (auto simp: MoveFile_def Let_def split: if_splits)
next
  case (Some r)
  obtain st1 b1 where v1: "fc_IsVaultFolder env (f_folder r) st = (st1, b1)" by fastforce
  obtain st2 b2 where v2: "fc_IsVaultFolder env (target_folder raw) st1 = (st2, b2)" by fastforce
  obtain st3 x where c: "cross_vault env (no_vault_key env) i (f_cas r) b1 b2 st2 = (st3, x)"
    by fastforce
  have "st' = st \<or> st' = st3 \<or> (\<exists>h. x = Reencrypted h \<and> st' = place_row env i (target_folder raw) h st3)"
    using assms(3) by (auto simp: MoveFile_def Let_def Some v1 v2 c split: if_splits reenc_result.splits)
  then show ?thesis using placed_stored [OF assms(1,2) Some v1 v2 c] assms(1) by blast
qed

lemma move_one_stored:
  assumes "rows_stored M st" "orderly env" "move_one env target i st = (st', res)"
  shows "rows_stored M st'"
proof (cases "fe_sql env (SelectFile i) \<or> find (live env i) (fc_files st) = None")
  case True
  then have "st' = st" using assms(3) by (auto simp: move_one_def split: if_splits)
  then show ?thesis using assms by simp
next
  case False
  then obtain r where r: "find (live env i) (fc_files st) = Some r" by auto
  obtain st1 b1 where v1: "fc_IsVaultFolder env (f_folder r) st = (st1, b1)" by fastforce
  obtain st2 b2 where v2: "fc_IsVaultFolder env target st1 = (st2, b2)" by fastforce
  obtain st3 x where c: "cross_vault env (\<not> isVaultUnlocked env) i (f_cas r) b1 b2 st2 = (st3, x)" by fastforce
  have "st' = st \<or> st' = st3 \<or> (\<exists>h. x = Reencrypted h \<and> st' = place_row env i target h st3)"
    using assms(3) False by (auto simp: move_one_def r v1 v2 c split: if_splits reenc_result.splits)
  then show ?thesis using placed_stored [OF assms(1,2) r v1 v2 c] assms(1,2) by blast
qed

lemma move_each_stored:
  "rows_stored M st \<Longrightarrow> orderly env \<Longrightarrow> move_each env target ids n errs st = (st', res) \<Longrightarrow> rows_stored M st'"
proof (induction ids arbitrary: n errs st)
  case (Cons i ids)
  obtain st1 b where m: "move_one env target i st = (st1, b)" by fastforce
  with move_one_stored [OF Cons.prems(1,2) m] Cons show ?case by (cases b) auto
qed simp

lemma MoveFilesBatch_stored:
  assumes "rows_stored M st" "orderly env" "MoveFilesBatch env ids raw st = (st', res)"
  shows "rows_stored M st'"
  using assms move_each_stored [OF assms(1,2)] by (auto simp: MoveFilesBatch_def Let_def split: if_splits)

lemma RenameFile_kept:
  assumes "RenameFile env i raw st = (st', r)" "store_inv st"
  shows "blobs_kept st st'"
proof -
  let ?f = "lookup env (SelectFolder i) (live env i) f_folder st"
  obtain st1 b where g: "vault_guard env ?f st = (st1, b)" by fastforce
  then obtain vc where st1: "st1 = st\<lparr>fc_vault := vc\<rparr>" using vault_guard_sel by blast
  have i1: "store_inv st1" using assms(2) by (simp add: st1)
  have "st' = st \<or> st' = st1 \<or> (\<exists>n. exec_update env (UpdateFile i) (live env i) (\<lambda>r. r\<lparr>f_name := n\<rparr>) (FileRenamed n) st1 = (st', r))"
    using assms(1) by (auto simp: RenameFile_def g Let_def split: option.splits if_splits bool.splits)
  then have "blobs_kept st1 st'"
    using exec_update_kept [of "\<lambda>r. r\<lparr>f_name := _\<rparr>" env "UpdateFile i" "live env i" _ st1 st' r] i1
    by (auto simp: blobs_kept_def st1)
  then show ?thesis by (simp add: st1 blobs_kept_vault)
qed

section \<open>A move across the vault's border\<close>

lemma new_blob_exact:
  assumes "move_outcome fails part p c fs c' fs' (Some (h, e))" "cas_inv (c, fs)" "outside_store (c, fs) p"
    and "fs p = Some d" "blob_at (c, fs) h = None"
  shows "blob_at (c', fs') h = Some d"
proof -
  have "\<not> e" using assms(1)
  proof cases
    case dedup
    then show ?thesis using cas_Exists_True [OF assms(2), of fails h c'] assms(5) by (simp add: blob_at_def)
  qed simp
  then show ?thesis using move_outcome_blob [OF assms(1-3)] assms(4) by auto
qed

text \<open>The blob with hash \<open>h\<close> holds the bytes \<open>x\<close> under the key: it is an encryption of them, or it was stored before and has the
  same SHA-256 as one.\<close>

definition holds :: "FileController \<Rightarrow> bytes \<Rightarrow> bytes \<Rightarrow> FileController \<Rightarrow> string \<Rightarrow> bool" where
  "holds st0 key x st h \<longleftrightarrow>
     (\<exists>d b. framed key x d \<and> h = hash_of d \<and> fc_blob st h = Some b \<and> hash_of b = hash_of d \<and> (fc_blob st0 h = None \<longrightarrow> b = d))"

lemma orderly_no_faults: "fe_fails env = no_faults \<Longrightarrow> orderly env"
  by (simp add: orderly_def)

text \<open>Without failures a re-encryption of a framed blob succeeds and stores the same bytes under the other key.\<close>

lemma reencrypt_framed:
  assumes "store_inv st" "fe_fails env = no_faults" "fe_room env = None"
    and blob: "fc_blob st h = Some d" "framed k1 x d" and k: "aes_NewCipher k1 \<noteq> None" "aes_NewCipher k2 \<noteq> None"
  shows "\<exists>st' h'. reencrypt env k1 k2 i h st = (st', Reencrypted h') \<and> store_grows st st' \<and> holds st k2 x st' h'"
proof -
  obtain cas where cas: "fc_CAS st = Some cas" and h: "IsValidHash h" "fc_fs st (cas_Path cas h) = Some d"
    using blob(1) by (auto simp: fc_blob_def blob_at_def split: option.splits if_splits)
  let ?tmp = "reenc_path env i"
  note o = reenc_path_outside [of "(cas, fc_fs st)" env i]
  obtain ds es es' where c: "NewDecryptStream (new_reader ReadSeekerAt d) k1 = Inr ds"
    "NewEncryptStream \<lparr>w_data = [], w_room = None\<rparr> k2 = Inr es" "copy_stream ds es = (es', None)"
    "framed k2 x (w_data (es_w es'))"
    using copy_stream_reframes [OF blob(2) k] by blast
  let ?d = "w_data (es_w es')" let ?fs = "(fc_fs st)(?tmp \<mapsto> ?d)"
  have nf: "(new_reader ReadSeekerAt d)\<lparr>r_fault := False\<rparr> = new_reader ReadSeekerAt d" by (simp add: new_reader_def)
  have R: "reencrypt env k1 k2 i h st = store_reencrypted env ?tmp (cas, ?fs) st"
    using c h by (simp add: reencrypt_def cas Let_def os_Open_def os_Create_def assms(2,3) nf)
  obtain cas' fs' e where M: "MoveToCASWithStatus no_faults (fe_part env) ?tmp (cas, ?fs) = ((cas', fs'), Some (hash_of ?d, e))"
    using move_no_faults [of ?fs ?tmp ?d "fe_part env" cas] by auto
  let ?st' = "st\<lparr>fc_CAS := Some cas', fc_fs := fs'\<rparr>"
  have S: "reencrypt env k1 k2 i h st = (?st', Reencrypted (hash_of ?d))"
    using R M by (simp add: store_reencrypted_def assms(2))
  note G = reencrypt_grows [OF S orderly_no_faults [OF assms(2)] assms(1)]
  have inv: "cas_inv (cas, ?fs)" using assms(1) cas cas_inv_remove_temp [OF _ o] by (auto simp: store_inv_def)
  have new: "blob_at (cas', fs') (hash_of ?d) = Some ?d" if "fc_blob st (hash_of ?d) = None"
    using new_blob_exact [OF move_outcome_sound [OF M] inv] o that blob_at_temp [OF o] cas
    by (simp add: outside_store_def fc_blob_def)
  obtain b where b: "fc_blob ?st' (hash_of ?d) = Some b" using G by auto
  moreover have "hash_of b = hash_of ?d"
    using G b by (auto simp: store_grows_def store_inv_def cas_inv_def fc_blob_def blob_at_def)
  moreover have "fc_blob st (hash_of ?d) = None \<longrightarrow> b = ?d" using new b by (auto simp: fc_blob_def)
  ultimately have "holds st k2 x ?st' (hash_of ?d)" unfolding holds_def using c(4) by (intro exI [of _ ?d] exI [of _ b]) simp
  then show ?thesis using S G by blast
qed

text \<open>What a client of \<^verbatim>\<open>MoveFile\<close> has to bring for the move to be made.\<close>

definition movable :: "FileEnv \<Rightarrow> string \<Rightarrow> string \<Rightarrow> FileRecord \<Rightarrow> FileController \<Rightarrow> bool" where
  "movable env i target r st \<longleftrightarrow>
     find (live env i) (fc_files st) = Some r \<and> (target = [] \<or> folder_exists env target st) \<and>
     \<not> file_name_taken env target (f_name r) i st"

definition placed :: "FileEnv \<Rightarrow> string \<Rightarrow> string \<Rightarrow> string \<Rightarrow> FileRecord list \<Rightarrow> FileRecord list" where
  "placed env i target h rows = map (\<lambda>q. if own env i q then q\<lparr>f_folder := target, f_cas := h\<rparr> else q) rows"

lemma MoveFile_crosses:
  assumes ok: "vault_ok st" "store_inv st"
    and env: "\<And>q. \<not> fe_sql env q" "fe_fails env = no_faults" "fe_room env = None" "\<not> no_vault_key env"
    and r: "movable env i target r st" "target = target_folder raw"
    and cross: "fc_in_vault st (f_folder r) \<noteq> fc_in_vault st target"
    and k: "move_keys env (fc_in_vault st (f_folder r)) = (k1, k2)" "aes_NewCipher k1 \<noteq> None" "aes_NewCipher k2 \<noteq> None"
    and blob: "fc_blob st (f_cas r) = Some d" "framed k1 x d"
  shows "\<exists>st' h. MoveFile env i raw st = (st', FileMoved target (Some h)) \<and> holds st k2 x st' h \<and>
           fc_files st' = placed env i target h (fc_files st) \<and> fc_blob st' (f_cas r) = Some d"
proof -
  obtain st1 b1 where v1: "fc_IsVaultFolder env (f_folder r) st = (st1, b1)" by fastforce
  note o1 = fc_IsVaultFolder_ok [OF ok(1) env(1) v1]
  obtain st2 b2 where v2: "fc_IsVaultFolder env target st1 = (st2, b2)" by fastforce
  note o2 = fc_IsVaultFolder_ok [OF o1(2) env(1) v2]
  obtain vc where st2: "st2 = st\<lparr>fc_vault := vc\<rparr>" using v1 v2 by (auto dest!: fc_IsVaultFolder_sel)
  from reencrypt_framed [of st2 env "f_cas r" d k1 x k2 i] ok env blob k
  obtain st3 h where R: "reencrypt env k1 k2 i (f_cas r) st2 = (st3, Reencrypted h)" "store_grows st2 st3" "holds st2 k2 x st3 h"
    by (auto simp: st2)
  have b: "b1 = fc_in_vault st (f_folder r)" "b2 = fc_in_vault st target" using o1 o2 by simp_all
  have "cross_vault env (no_vault_key env) i (f_cas r) b1 b2 st2 = (st3, Reencrypted h)"
    using R(1) k(1) cross env(4) by (simp add: cross_vault_def b)
  moreover have "f_folder r \<noteq> target" using cross by auto
  ultimately have M: "MoveFile env i raw st = (place_row env i target h st3, FileMoved target (Some h))"
    using r env(1) v1 v2 by (auto simp: MoveFile_def movable_def Let_def)
  have "fc_blob st3 (f_cas r) = Some d" "fc_files st3 = fc_files st"
    using R(2) blob(1) by (auto simp: store_grows_def st2)
  then show ?thesis using M R(3) by (auto simp: place_row_def update_rows_def placed_def holds_def st2)
qed

section \<open>Properties\<close>

text \<open>C12: a file moved across the border of the vault, in either direction, keeps its contents: with the vault unlocked and
  nothing failing, \<^verbatim>\<open>MoveFile\<close> succeeds, the row gets the target folder and the hash of a blob that holds exactly
  the plaintext, encrypted under the key of its new domain.\<close>

theorem move_reencrypts:
  assumes "vault_ok st" "store_inv st"
    and "\<And>q. \<not> fe_sql env q" "fe_fails env = no_faults" "fe_room env = None" "\<not> no_vault_key env"
    and "movable env i (target_folder raw) r st"
    and "fc_in_vault st (f_folder r) \<noteq> fc_in_vault st (target_folder raw)"
    and "move_keys env (fc_in_vault st (f_folder r)) = (k1, k2)" "aes_NewCipher k1 \<noteq> None" "aes_NewCipher k2 \<noteq> None"
    and "fc_blob st (f_cas r) = Some d" "framed k1 x d"
  shows "\<exists>st' h. MoveFile env i raw st = (st', FileMoved (target_folder raw) (Some h)) \<and> holds st k2 x st' h \<and>
           fc_files st' = placed env i (target_folder raw) h (fc_files st)"
  using MoveFile_crosses [OF assms(1-7) refl assms(8-13)] by blast

text \<open>A drive whose only file is stored under the standard key, and a request of an unlocked session.\<close>

definition ex_blob :: bytes where
  "ex_blob = frames (cipher_NewGCM (replicate 32 7)) (replicate 32 7) [[1, 2, 3]]"

definition ex_store :: FileController where
  "ex_store =
     (let cas = \<lparr>BaseDir = ''/s'', existCache = {}\<rparr>
      in ex_drive\<lparr>fc_CAS := Some cas, fc_fs := [cas_Path cas (hash_of ex_blob) \<mapsto> ex_blob],
                  fc_files := [ex_file ''a'' [] (hash_of ex_blob)]\<rparr>)"

definition ex_unlocked :: FileEnv where
  "ex_unlocked =
     ex_fenv\<lparr>fe_cookie := Some ''c'',
       fe_sessions := \<lparr>vaultKeys = [''c'' \<mapsto> \<lparr>key_ref = 0, expiresAt = 10\<rparr>], heap = (\<lambda>_. replicate 32 9)\<rparr>\<rparr>"

lemma ex_blob_framed: "framed (replicate 32 7) [1, 2, 3] ex_blob"
  unfolding framed_def by (rule exI [of _ "[[1, 2, 3]]"]) (simp add: ex_blob_def chunk_ok_def MaxChunkSize_def)

lemma ex_store_ok: "vault_ok ex_store" "store_inv ex_store" "fc_blob ex_store (hash_of ex_blob) = Some ex_blob"
proof -
  show "vault_ok ex_store" using ex_drive_vault_ok(1) by (simp add: ex_store_def vault_ok_def Let_def)
  show "store_inv ex_store"
    using cas_Path_inject [of _ "hash_of ex_blob"]
    by (auto simp: ex_store_def store_inv_def cas_inv_def Let_def split: if_splits)
  show "fc_blob ex_store (hash_of ex_blob) = Some ex_blob"
    by (simp add: ex_store_def fc_blob_def blob_at_def Let_def)
qed

lemma ex_unlocked_ok:
  "\<not> fe_sql ex_unlocked q" "fe_fails ex_unlocked = no_faults" "fe_room ex_unlocked = None" "\<not> no_vault_key ex_unlocked"
  "vault_key ex_unlocked = replicate 32 9" "fe_stdKey ex_unlocked = replicate 32 7"
  by (simp_all add: ex_unlocked_def ex_fenv_def no_vault_key_def isVaultUnlocked_def vault_key_def HasKey_def GetKey_def
      live_entry_def unexpired_def time_After_def)

lemma ex_target: "target_folder ''s'' = ''s''"
  by code_simp

lemma ex_movable: "movable ex_unlocked ''a'' ''s'' (ex_file ''a'' [] (hash_of ex_blob)) ex_store"
  by (simp add: movable_def ex_store_def ex_unlocked_def ex_fenv_def ex_drive_def ex_file_def live_def own_def folder_exists_def
      file_name_taken_def Let_def)

lemma ex_in_vault: "fc_in_vault ex_store ''s''" "\<not> fc_in_vault ex_store []"
proof -
  have "(''f2'', ''s'') \<in> vault_edges (tree_rows (fc_folders ex_store))"
    by (simp add: vault_edges_def children_of_def has_parent_def tree_rows_def ex_store_def ex_drive_def Let_def)
  then show "fc_in_vault ex_store ''s''" unfolding in_vault_def by blast
  show "\<not> fc_in_vault ex_store []" using ex_store_ok(1) presets_outside by (auto simp: vault_ok_def)
qed

theorem move_reencrypts_witness:
  "\<exists>st' h. MoveFile ex_unlocked ''a'' ''s'' ex_store = (st', FileMoved ''s'' (Some h)) \<and>
     holds ex_store (replicate 32 9) [1, 2, 3] st' h \<and> fc_files st' = [ex_file ''a'' ''s'' h]"
  using move_reencrypts [of ex_store ex_unlocked "''a''" "''s''" "ex_file ''a'' [] (hash_of ex_blob)" "replicate 32 7" "replicate 32 9"
      ex_blob "[1, 2, 3]", unfolded ex_target, OF ex_store_ok(1,2) ex_unlocked_ok(1-4) ex_movable _ _ _ _ _ ex_blob_framed]
    ex_in_vault ex_store_ok(3) ex_unlocked_ok(5,6)
  by (auto simp: move_keys_def ex_file_def aes_NewCipher_def placed_def own_def ex_store_def ex_unlocked_def ex_fenv_def Let_def)

text \<open>the move leaves the old blob behind: after a file that no other row shares was moved into the vault, the store still
  holds its contents under the standard key although no row names that blob any more (unless both encryptions have the
  same hash, as for an empty file), so that no later deletion removes it.\<close>

theorem move_into_vault_leaves_copy:
  assumes "vault_ok st" "store_inv st"
    and "\<And>q. \<not> fe_sql env q" "fe_fails env = no_faults" "fe_room env = None" "\<not> no_vault_key env"
    and "movable env i (target_folder raw) r st"
    and src: "\<not> fc_in_vault st (f_folder r)" and dst: "fc_in_vault st (target_folder raw)"
    and "aes_NewCipher (fe_stdKey env) \<noteq> None" "aes_NewCipher (vault_key env) \<noteq> None"
    and blob: "fc_blob st (f_cas r) = Some d" "framed (fe_stdKey env) x d"
    and only: "\<And>q. q \<in> set (fc_files st) \<Longrightarrow> f_cas q = f_cas r \<Longrightarrow> own env i q"
  shows "\<exists>st' h. MoveFile env i raw st = (st', FileMoved (target_folder raw) (Some h)) \<and>
           fc_blob st' (f_cas r) = Some d \<and> framed (fe_stdKey env) x d \<and> (f_cas r \<notin> refs st' \<or> h = f_cas r)"
proof -
  have k: "move_keys env (fc_in_vault st (f_folder r)) = (fe_stdKey env, vault_key env)" using src by (simp add: move_keys_def)
  obtain st' h where M: "MoveFile env i raw st = (st', FileMoved (target_folder raw) (Some h))" "fc_blob st' (f_cas r) = Some d"
    and rows: "fc_files st' = placed env i (target_folder raw) h (fc_files st)"
    using MoveFile_crosses [OF assms(1-7) refl _ k assms(10,11) blob] src dst by blast
  have "f_cas r \<notin> refs st' \<or> h = f_cas r" using only by (auto simp: refs_def rows placed_def split: if_splits)
  with M blob show ?thesis by blast
qed

theorem move_into_vault_leaves_copy_witness:
  "\<exists>st' h. MoveFile ex_unlocked ''a'' ''s'' ex_store = (st', FileMoved ''s'' (Some h)) \<and>
     fc_blob st' (hash_of ex_blob) = Some ex_blob \<and> framed (fe_stdKey ex_unlocked) [1, 2, 3] ex_blob \<and>
     (hash_of ex_blob \<notin> refs st' \<or> h = hash_of ex_blob)"
  using move_into_vault_leaves_copy [of ex_store ex_unlocked "''a''" "''s''" "ex_file ''a'' [] (hash_of ex_blob)" ex_blob "[1, 2, 3]",
      unfolded ex_target, OF ex_store_ok(1,2) ex_unlocked_ok(1-4) ex_movable]
    ex_in_vault ex_store_ok(3) ex_unlocked_ok(5,6) ex_blob_framed
  by (simp add: ex_file_def aes_NewCipher_def own_def ex_store_def ex_unlocked_def ex_fenv_def Let_def)

text \<open>a locked vault does not protect its files from moves inside it: when source and target folder are both in the vault,
  \<^verbatim>\<open>MoveFile\<close> never asks whether the vault is unlocked.\<close>

theorem locked_vault_allows_inner_moves:
  assumes "vault_ok st" "\<And>q. \<not> fe_sql env q" "\<not> isVaultUnlocked env"
    and "movable env i (target_folder raw) r st" "f_folder r \<noteq> target_folder raw"
    and "fc_in_vault st (f_folder r)" "fc_in_vault st (target_folder raw)"
  shows "\<exists>st'. MoveFile env i raw st = (st', FileMoved (target_folder raw) (Some (f_cas r))) \<and>
           (\<exists>q \<in> set (fc_files st'). f_id q = i \<and> f_folder q = target_folder raw)"
proof -
  obtain st1 b1 where v1: "fc_IsVaultFolder env (f_folder r) st = (st1, b1)" by fastforce
  note o1 = fc_IsVaultFolder_ok [OF assms(1,2) v1]
  obtain st2 b2 where v2: "fc_IsVaultFolder env (target_folder raw) st1 = (st2, b2)" by fastforce
  note o2 = fc_IsVaultFolder_ok [OF o1(2) assms(2) v2]
  have f: "find (live env i) (fc_files st) = Some r" using assms(4) by (simp add: movable_def)
  have "MoveFile env i raw st = (place_row env i (target_folder raw) (f_cas r) st2, FileMoved (target_folder raw) (Some (f_cas r)))"
    using assms o1(1,3) o2(1) v1 v2 f by (auto simp: MoveFile_def movable_def Let_def cross_vault_def)
  moreover have "\<exists>q \<in> set (fc_files (place_row env i (target_folder raw) (f_cas r) st2)). f_id q = i \<and> f_folder q = target_folder raw"
    using row_found [OF f] o1(4) o2(4)
    by (intro bexI [of _ "r\<lparr>f_folder := target_folder raw, f_cas := f_cas r\<rparr>"])
      (auto simp: place_row_def update_rows_def live_def own_def image_iff intro!: bexI [of _ r])
  ultimately show ?thesis by blast
qed

theorem locked_vault_allows_inner_moves_witness:
  "let st = ex_drive\<lparr>fc_files := [ex_file ''b'' ''s'' ''h2'']\<rparr>
   in \<not> isVaultUnlocked ex_fenv \<and>
      (\<exists>st'. MoveFile ex_fenv ''b'' ''f2'' st = (st', FileMoved ''f2'' (Some ''h2'')) \<and>
        (\<exists>q \<in> set (fc_files st'). f_id q = ''b'' \<and> f_folder q = ''f2''))"
proof -
  let ?st = "ex_drive\<lparr>fc_files := [ex_file ''b'' ''s'' ''h2'']\<rparr>"
  have t: "target_folder ''f2'' = ''f2''" by code_simp
  have v: "vault_ok ?st" "fc_in_vault ?st ''s''" "fc_in_vault ?st ''f2''"
    using ex_drive_vault_ok(1) ex_in_vault(1) by (simp_all add: vault_ok_def ex_store_def Let_def in_vault_def)
  have m: "movable ex_fenv ''b'' ''f2'' (ex_file ''b'' ''s'' ''h2'') ?st"
    by (simp add: movable_def ex_fenv_def ex_drive_def ex_file_def live_def own_def folder_exists_def file_name_taken_def)
  from locked_vault_allows_inner_moves [of ?st ex_fenv "''b''" "''f2''" "ex_file ''b'' ''s'' ''h2''", unfolded t, OF v(1) ex_drive_vault_ok(2,3) m] v
  show ?thesis by (simp add: ex_file_def ex_drive_vault_ok(3) Let_def)
qed

end
