(* ===== verification/File_Download.thy ===== *)
theory File_Download
  imports File_Moves
begin

text \<open>
  Serving a file: \<^verbatim>\<open>parseRangeHeader\<close>, \<^verbatim>\<open>openContentReader\<close> and \<^verbatim>\<open>DownloadFile\<close> of
  \<^verbatim>\<open>internal/controllers/file_controller.go\<close>. The handler answers conditional and range requests from the row and then copies
  the decrypted blob, positioned at the start of the range, to the client.
\<close>

section \<open>Ranges\<close>

text \<open>Start, end, whether the range can be satisfied, and whether the header is a range at all.\<close>

definition parseRangeHeader :: "string \<Rightarrow> int \<Rightarrow> int \<times> int \<times> bool \<times> bool" where
  "parseRangeHeader rangeHeader totalSize =
     (if \<not> HasPrefix rangeHeader ''bytes='' then (0, totalSize - 1, False, False)
      else case Split (TrimPrefix rangeHeader ''bytes='') (CHR ''-'') of
          [p0, p1] \<Rightarrow>
            if p0 = [] \<and> p1 \<noteq> [] then
              (case ParseInt p1 of (suffixLen, err) \<Rightarrow>
                 if err \<noteq> None \<or> suffixLen \<le> 0 then (0, 0, False, True)
                 else if totalSize \<le> 0 then (0, 0, False, True)
                 else (totalSize - min suffixLen totalSize, totalSize - 1, True, True))
            else
              (case ParseInt p0 of (s, err) \<Rightarrow>
                 if err \<noteq> None \<or> s < 0 \<or> s \<ge> totalSize then (0, 0, False, True)
                 else if p1 = [] then (s, totalSize - 1, True, True)
                 else
                   (case ParseInt p1 of (e, err) \<Rightarrow>
                      if err \<noteq> None \<or> e < s then (0, 0, False, True)
                      else (s, if e < totalSize then e else totalSize - 1, True, True)))
        | _ \<Rightarrow> (0, totalSize - 1, False, False))"

section \<open>Content\<close>

definition LegacyStorageKey :: bytes where
  "LegacyStorageKey = bytes_of_string ''0123456789abcdef0123456789abcdef''"

datatype content = RawContent reader | Decrypted DecryptStream

definition decrypt_from :: "reader \<Rightarrow> bytes \<Rightarrow> int \<Rightarrow> DecryptStream option" where
  "decrypt_from f key start =
     (case Seek 0 f of
        (_, Some _) \<Rightarrow> None
      | (r, None) \<Rightarrow>
          (case NewDecryptStream r key of
             Inl _ \<Rightarrow> None
           | Inr ds \<Rightarrow>
               (case (if start = 0 then PreloadFirstChunk ds else SeekTo start ds) of
                  (ds', None) \<Rightarrow> Some ds'
                | (_, Some _) \<Rightarrow> None)))"

definition raw_from :: "reader \<Rightarrow> int \<Rightarrow> content option" where
  "raw_from f start = (case Seek (nat start) f of (r, None) \<Rightarrow> Some (RawContent r) | (_, Some _) \<Rightarrow> None)"

text \<open>\<^verbatim>\<open>openContentReader\<close>: raw data is recognised by an impossible chunk length; then the active key, the legacy key and, outside
  the vault, the raw bytes are tried.\<close>

definition openContentReader :: "reader \<Rightarrow> bool \<Rightarrow> bytes \<Rightarrow> int \<Rightarrow> content option" where
  "openContentReader f isVault vk start =
     (if (case ReadAt 4 0 f of Inl _ \<Rightarrow> False | Inr hdr \<Rightarrow> bad_chunk_len (get_be32 hdr)) then raw_from f start
      else case decrypt_from f vk start of
          Some ds \<Rightarrow> Some (Decrypted ds)
        | None \<Rightarrow>
            if isVault then None
            else case decrypt_from f LegacyStorageKey start of
                Some ds \<Rightarrow> Some (Decrypted ds)
              | None \<Rightarrow> raw_from f start)"

text \<open>\<^verbatim>\<open>io.CopyBuffer\<close> through the 256 KiB buffer, up to \<open>rest\<close> bytes when limited: what reaches the client and the error that ended it.\<close>

function read_limited :: "nat \<Rightarrow> DecryptStream \<Rightarrow> bytes \<times> stream_error option" where
  "read_limited rest s =
     (if rest = 0 then ([], None)
      else
        case DecryptStream_Read (min rest 262144) s of
          (s', Inl e) \<Rightarrow> ([], if e = EOF then None else Some e)
        | (s', Inr out) \<Rightarrow> (case read_limited (rest - length out) s' of (r, e) \<Rightarrow> (out @ r, e)))"
  by pat_completeness auto
termination
  by (relation "inv_image read_progress snd") (auto simp: wf_read_progress intro: Read_shrinks)

declare read_limited.simps [simp del]

definition copy_content :: "int option \<Rightarrow> content \<Rightarrow> bytes \<times> stream_error option" where
  "copy_content limit c =
     (case c of
        RawContent r \<Rightarrow>
          (case limit of
             None \<Rightarrow> (unread r, if r_fault r then Some ReadFault else None)
           | Some n \<Rightarrow> (take (nat n) (unread r), if r_fault r \<and> length (unread r) < nat n then Some ReadFault else None))
      | Decrypted ds \<Rightarrow>
          (case limit of
             None \<Rightarrow> (case read_all 262144 ds of (out, e) \<Rightarrow> (out, if e = Some EOF then None else e))
           | Some n \<Rightarrow> read_limited (nat n) ds))"

section \<open>The handler\<close>

record DownloadRequest =
  dq_id :: string
  dq_head :: bool
  dq_ifNoneMatch :: string
  dq_ifModSince :: string
  dq_range :: string
  dq_ifRange :: string

text \<open>Dates: \<open>layouts\<close> is the attempt at the three layouts of \<^verbatim>\<open>created_at\<close>, \<open>http_time\<close> is \<^verbatim>\<open>http.ParseTime\<close>.\<close>

record Dates =
  layouts :: "string \<Rightarrow> instant option"
  http_time :: "string \<Rightarrow> instant option"

datatype download_response =
    DownloadError int
  | NotModified
  | HeadersOnly int
  | RangeNotSatisfiable int
  | Whole int bytes "stream_error option"
  | Partial int int int bytes "stream_error option"

definition whole_seconds :: "instant \<Rightarrow> instant" where
  "whole_seconds t = t - t mod Second"

definition etag_of :: "FileRecord \<Rightarrow> string" where
  "etag_of r = [CHR 0x22] @ f_cas r @ [CHR 0x22]"

definition last_modified :: "FileEnv \<Rightarrow> Dates \<Rightarrow> FileRecord \<Rightarrow> instant option" where
  "last_modified env dates r =
     (if fe_sql env (SelectCreated (f_id r)) \<or> f_created r = [] then None else layouts dates (f_created r))"

definition not_modified :: "Dates \<Rightarrow> DownloadRequest \<Rightarrow> string \<Rightarrow> instant option \<Rightarrow> bool" where
  "not_modified dates rq etag lastMod =
     (if dq_ifNoneMatch rq \<noteq> [] then TrimPrefix (dq_ifNoneMatch rq) ''W/'' = etag \<or> dq_ifNoneMatch rq = ''*''
      else case lastMod of
          None \<Rightarrow> False
        | Some t \<Rightarrow>
            (if dq_ifModSince rq = [] then False
             else case http_time dates (dq_ifModSince rq) of None \<Rightarrow> False | Some u \<Rightarrow> \<not> time_After (whole_seconds t) u))"

definition range_allowed :: "Dates \<Rightarrow> DownloadRequest \<Rightarrow> string \<Rightarrow> instant option \<Rightarrow> bool" where
  "range_allowed dates rq etag lastMod =
     (if dq_range rq \<noteq> [] \<and> dq_ifRange rq \<noteq> [] then
        (if HasPrefix (dq_ifRange rq) [CHR 0x22] \<or> HasPrefix (dq_ifRange rq) (''W/'' @ [CHR 0x22])
         then TrimPrefix (dq_ifRange rq) ''W/'' = etag
         else case lastMod of
             None \<Rightarrow> True
           | Some t \<Rightarrow> (case http_time dates (dq_ifRange rq) of None \<Rightarrow> False | Some u \<Rightarrow> whole_seconds t = u))
      else True)"

text \<open>The range to serve: none, one that cannot be satisfied, or a slice.\<close>

datatype slice = NoSlice | BadSlice | Slice int int

definition wanted_range :: "DownloadRequest \<Rightarrow> bool \<Rightarrow> int \<Rightarrow> slice" where
  "wanted_range rq allowed totalSize =
     (if dq_range rq \<noteq> [] \<and> allowed then
        (case parseRangeHeader (dq_range rq) totalSize of (s, e, satisfiable, isRange) \<Rightarrow>
           if isRange then (if satisfiable then Slice s e else BadSlice) else NoSlice)
      else NoSlice)"

definition serve_mock :: "string \<Rightarrow> slice \<Rightarrow> download_response" where
  "serve_mock name sl =
     (let body = bytes_of_string (''Decrypted Content of '' @ name); totalSize = int (length body) in
      case sl of
        NoSlice \<Rightarrow> Whole totalSize body None
      | BadSlice \<Rightarrow> RangeNotSatisfiable totalSize
      | Slice s e \<Rightarrow> Partial s e totalSize (take (nat (e - s + 1)) (drop (nat s) body)) None)"

definition serve_blob :: "reader \<Rightarrow> bool \<Rightarrow> bytes \<Rightarrow> int \<Rightarrow> slice \<Rightarrow> download_response" where
  "serve_blob f isVault vk totalSize sl =
     (case sl of
        BadSlice \<Rightarrow> RangeNotSatisfiable totalSize
      | NoSlice \<Rightarrow>
          (case openContentReader f isVault vk 0 of
             None \<Rightarrow> DownloadError 500
           | Some c \<Rightarrow> (case copy_content None c of (body, e) \<Rightarrow> Whole totalSize body e))
      | Slice s e \<Rightarrow>
          (case openContentReader f isVault vk s of
             None \<Rightarrow> DownloadError 500
           | Some c \<Rightarrow> (case copy_content (Some (e - s + 1)) c of (body, err) \<Rightarrow> Partial s e totalSize body err)))"

definition blob_file :: "FileEnv \<Rightarrow> string \<Rightarrow> FileController \<Rightarrow> reader option" where
  "blob_file env h st =
     (case fc_CAS st of
        None \<Rightarrow> None
      | Some cas \<Rightarrow>
          map_option (\<lambda>d. (new_reader ReadSeekerAt d)\<lparr>r_fault := fe_fails env (ReadCall (cas_Path cas h))\<rparr>)
            (os_Open (fe_fails env) (cas_Path cas h) (fc_fs st)))"

definition DownloadFile :: "FileEnv \<Rightarrow> Dates \<Rightarrow> DownloadRequest \<Rightarrow> FileController \<Rightarrow> FileController \<times> download_response" where
  "DownloadFile env dates rq st =
     (case (if fe_sql env (SelectFile (dq_id rq)) then None else find (live env (dq_id rq)) (fc_files st)) of
        None \<Rightarrow> (st, DownloadError 404)
      | Some r \<Rightarrow>
          let lastMod = last_modified env dates r; etag = etag_of r in
          case fc_IsVaultFolder env (f_folder r) st of (st, isVault) \<Rightarrow>
            (st,
             if isVault \<and> \<not> isVaultUnlocked env then DownloadError 401
             else if not_modified dates rq etag lastMod then NotModified
             else if dq_head rq then HeadersOnly (f_size r)
             else
               let allowed = range_allowed dates rq etag lastMod in
               case blob_file env (f_cas r) st of
                 None \<Rightarrow> serve_mock (f_name r) (wanted_range rq allowed (int (length (''Decrypted Content of '' @ f_name r))))
               | Some f \<Rightarrow>
                   let vk = (if isVault then vault_key env else fe_stdKey env) in
                   if isVault \<and> vk = [] then DownloadError 401
                   else serve_blob f isVault vk (f_size r) (wanted_range rq allowed (f_size r))))"

section \<open>Range headers\<close>

lemma parseRange_bounds:
  assumes "parseRangeHeader h n = (s, e, True, isRange)"
  shows "0 \<le> s \<and> s \<le> e \<and> e < n \<and> isRange"
  using assms by (auto simp: parseRangeHeader_def split: if_splits list.splits prod.splits)

lemma dash_Itoa: "0 \<le> i \<Longrightarrow> CHR ''-'' \<notin> set (Itoa i)"
  using is_digit_nat_digits [of "nat i"] digit_not_sign by (auto simp: Itoa_def list_all_iff)

lemma Itoa_not_Nil: "0 \<le> i \<Longrightarrow> Itoa i \<noteq> []"
  by (simp add: Itoa_def)

lemma Split_range: "0 \<le> a \<Longrightarrow> CHR ''-'' \<notin> set t \<Longrightarrow> Split (Itoa a @ CHR ''-'' # t) (CHR ''-'') = [Itoa a, t]"
  using dash_Itoa [of a] by (simp add: Split_append Split_plain)

lemma parseRange_closed:
  assumes "0 \<le> a" "is_int64 a" "0 \<le> b" "is_int64 b"
  shows "parseRangeHeader (''bytes='' @ Itoa a @ ''-'' @ Itoa b) n =
    (if a < n \<and> a \<le> b then (a, min b (n - 1), True, True) else (0, 0, False, True))"
  using assms Split_range [OF assms(1) dash_Itoa [OF assms(3)]] Itoa_not_Nil [OF assms(1)] Itoa_not_Nil [OF assms(3)]
  by (auto simp: parseRangeHeader_def TrimPrefix_def ParseInt_Itoa)

lemma parseRange_open:
  assumes "0 \<le> a" "is_int64 a"
  shows "parseRangeHeader (''bytes='' @ Itoa a @ ''-'') n = (if a < n then (a, n - 1, True, True) else (0, 0, False, True))"
  using assms Split_range [OF assms(1), of "[]"] Itoa_not_Nil [OF assms(1)]
  by (auto simp: parseRangeHeader_def TrimPrefix_def ParseInt_Itoa)

lemma parseRange_suffix:
  assumes "0 \<le> k" "is_int64 k"
  shows "parseRangeHeader (''bytes=-'' @ Itoa k) n =
    (if 0 < k \<and> 0 < n then (n - min k n, n - 1, True, True) else (0, 0, False, True))"
  using assms Split_append [OF dash_Itoa [OF assms(1)], of "[]"] Itoa_not_Nil [OF assms(1)]
  by (auto simp: parseRangeHeader_def TrimPrefix_def ParseInt_Itoa)

section \<open>What a client receives\<close>

lemma read_limited_stream:
  assumes "ds_aesgcm s = cipher_NewGCM key" "stream_at s key ps"
  shows "read_limited n s = (take n (ds_buf s @ concat ps), None)"
  using assms
proof (induction n s arbitrary: ps rule: read_limited.induct)
  case (1 n s)
  note prems = "1.prems"
  show ?case
  proof (cases "n = 0 \<or> ds_buf s = [] \<and> ps = []")
    case True
    moreover have "DecryptStream_Read (min n 262144) s = (s, Inl EOF)" if "n \<noteq> 0" "ds_buf s = []" "ps = []"
      using that next_chunk_end prems(2) by (simp add: DecryptStream_Read_def)
    ultimately show ?thesis by (subst read_limited.simps) auto
  next
    case False
    then obtain s' out qs where R: "DecryptStream_Read (min n 262144) s = (s', Inr out)" "ds_aesgcm s' = cipher_NewGCM key"
        "stream_at s' key qs" "ds_buf s @ concat ps = out @ ds_buf s' @ concat qs" "length out \<le> min n 262144"
      using aes_gcm.Read_stream [OF prems(1) prems(2) [folded stream_upto_at], of "min n 262144"] by (auto simp: stream_upto_at)
    have "n \<noteq> 0" using False by simp
    with "1.IH" [OF _ R(1) [symmetric] refl R(2,3)] R(1,4,5) show ?thesis by (subst read_limited.simps) simp
  qed
qed

lemma Preload_at:
  assumes "ds_aesgcm s = cipher_NewGCM key" "stream_at s key (p # ps)" "ds_buf s = []"
  shows "\<exists>s'. PreloadFirstChunk s = (s', None) \<and> ds_aesgcm s' = cipher_NewGCM key \<and> stream_at s' key ps \<and> ds_buf s' = p"
  using aes_gcm.next_chunk_upto [OF assms(1), of key p ps "[]"] assms by (auto simp: PreloadFirstChunk_def stream_upto_at)

text \<open>The stream that \<^verbatim>\<open>openContentReader\<close> returns on an encrypted blob: right from the start and inside a chunk, rewound at the boundary
  of two chunks.\<close>

lemma openContentReader_at:
  assumes f: "f = new_reader ReadSeekerAt (frames (cipher_NewGCM key) key ps)" and ps: "list_all chunk_ok ps" "ps \<noteq> []"
    and key: "aes_NewCipher key \<noteq> None" and start: "0 \<le> start" "nat start \<le> length (concat ps)"
  shows "\<exists>ds qs. openContentReader f isVault key start = Some (Decrypted ds) \<and> ds_aesgcm ds = cipher_NewGCM key \<and>
           stream_at ds key qs \<and>
           ds_buf ds @ concat qs = drop (if start = 0 \<or> \<not> boundary ps (nat start) then nat start else 0) (concat ps)"
proof -
  let ?d = "frames (cipher_NewGCM key) key ps"
  let ?s = "fresh_stream ReadSeekerAt key ?d"
  obtain p qs where pq: "ps = p # qs" using ps(2) by (cases ps) auto
  have sniff: "\<not> (case ReadAt 4 0 f of Inl _ \<Rightarrow> False | Inr hdr \<Rightarrow> bad_chunk_len (get_be32 hdr))"
  proof -
    let ?l = "of_nat (length p + 16) :: 32 word"
    have "ReadAt 4 0 f = Inr (put_be32 ?l)"
      using f pq by (simp add: ReadAt_def new_reader_def aes_gcm.packet_parts del: of_nat_add)
    moreover have "get_be32 (put_be32 ?l) = ?l" using get_be32_put_be32 [of ?l "[]"] by simp
    ultimately show ?thesis using chunk_ok_len(2) [of p] ps(1) pq by (simp del: of_nat_add)
  qed
  have at: "stream_at ?s key ps" using fresh_stream_upto [OF ps(1), of ReadSeekerAt key "[]"] by (simp add: stream_upto_at)
  have op: "opened_on ReadSeekerAt key ps ?s" using ps(1) by (simp add: opened_on_def fresh_stream_def new_reader_def)
  have new: "NewDecryptStream f key = Inr ?s" using NewDecryptStream_fresh [OF key] f by simp
  have seek: "Seek 0 f = (f, None)" using f by (simp add: Seek_def new_reader_def)
  have "\<exists>ds qs. (if start = 0 then PreloadFirstChunk ?s else SeekTo start ?s) = (ds, None) \<and> ds_aesgcm ds = cipher_NewGCM key \<and>
          stream_at ds key qs \<and>
          ds_buf ds @ concat qs = drop (if start = 0 \<or> \<not> boundary ps (nat start) then nat start else 0) (concat ps)"
  proof -
    consider "start = 0" | "start \<noteq> 0" "boundary ps (nat start)" | "start \<noteq> 0" "\<not> boundary ps (nat start)" by blast
    then show ?thesis
    proof cases
      case 1
      then show ?thesis using Preload_at [of ?s key p qs] at pq by auto
    next
      case 2
      then show ?thesis using SeekTo_boundary_at [OF op start(1)] by auto
    next
      case 3
      then show ?thesis using SeekTo_inside_at [OF op start] by auto
    qed
  qed
  then obtain ds rs where D: "(if start = 0 then PreloadFirstChunk ?s else SeekTo start ?s) = (ds, None)" "ds_aesgcm ds = cipher_NewGCM key"
    "stream_at ds key rs" "ds_buf ds @ concat rs = drop (if start = 0 \<or> \<not> boundary ps (nat start) then nat start else 0) (concat ps)"
    by blast
  have "decrypt_from f key start = Some ds" using seek new D(1) by (simp add: decrypt_from_def)
  then have "openContentReader f isVault key start = Some (Decrypted ds)" using sniff by (simp add: openContentReader_def)
  with D show ?thesis by blast
qed

lemma serve_slice:
  assumes f: "f = new_reader ReadSeekerAt (frames (cipher_NewGCM key) key ps)" and ps: "list_all chunk_ok ps" "ps \<noteq> []"
    and key: "aes_NewCipher key \<noteq> None" and s: "0 \<le> s" "nat s \<le> length (concat ps)"
  shows "serve_blob f isVault key n (Slice s e) =
    Partial s e n (take (nat (e - s + 1)) (drop (if s = 0 \<or> \<not> boundary ps (nat s) then nat s else 0) (concat ps))) None"
proof -
  from openContentReader_at [OF assms, of isVault] obtain ds qs where
    o: "openContentReader f isVault key s = Some (Decrypted ds)" "ds_aesgcm ds = cipher_NewGCM key" "stream_at ds key qs"
    "ds_buf ds @ concat qs = drop (if s = 0 \<or> \<not> boundary ps (nat s) then nat s else 0) (concat ps)" by blast
  from read_limited_stream [OF o(2,3)] o show ?thesis by (simp only: serve_blob_def copy_content_def slice.case content.case option.case prod.case)
qed

lemma serve_whole:
  assumes f: "f = new_reader ReadSeekerAt (frames (cipher_NewGCM key) key ps)" and ps: "list_all chunk_ok ps" "ps \<noteq> []"
    and key: "aes_NewCipher key \<noteq> None"
  shows "serve_blob f isVault key n NoSlice = Whole n (concat ps) None"
proof -
  from openContentReader_at [OF assms, of 0 isVault] obtain ds qs where
    o: "openContentReader f isVault key 0 = Some (Decrypted ds)" "ds_aesgcm ds = cipher_NewGCM key" "stream_at ds key qs"
    "ds_buf ds @ concat qs = concat ps" by auto
  from aes_gcm.read_all_stream [OF o(2,3), of 262144] o show ?thesis by (simp add: serve_blob_def copy_content_def)
qed

text \<open>A request without conditional headers for a live row whose blob holds the chunks \<open>ps\<close> under the key of the row's domain.\<close>

definition domain_key :: "FileEnv \<Rightarrow> FileController \<Rightarrow> FileRecord \<Rightarrow> bytes" where
  "domain_key env st r = (if fc_in_vault st (f_folder r) then vault_key env else fe_stdKey env)"

definition unconditional :: "string \<Rightarrow> string \<Rightarrow> DownloadRequest" where
  "unconditional i h =
     \<lparr>dq_id = i, dq_head = False, dq_ifNoneMatch = [], dq_ifModSince = [], dq_range = h, dq_ifRange = []\<rparr>"

definition downloadable :: "FileEnv \<Rightarrow> string \<Rightarrow> FileRecord \<Rightarrow> bytes list \<Rightarrow> FileController \<Rightarrow> bool" where
  "downloadable env i r ps st \<longleftrightarrow>
     vault_ok st \<and> (\<forall>q. \<not> fe_sql env q) \<and> fe_fails env = no_faults \<and> find (live env i) (fc_files st) = Some r \<and>
     (fc_in_vault st (f_folder r) \<longrightarrow> isVaultUnlocked env) \<and> aes_NewCipher (domain_key env st r) \<noteq> None \<and>
     fc_blob st (f_cas r) = Some (frames (cipher_NewGCM (domain_key env st r)) (domain_key env st r) ps) \<and>
     list_all chunk_ok ps \<and> ps \<noteq> [] \<and> f_size r = int (length (concat ps))"

lemma DownloadFile_serves:
  assumes D: "downloadable env i r ps st"
  shows "snd (DownloadFile env dates (unconditional i h) st) =
    serve_blob (new_reader ReadSeekerAt (frames (cipher_NewGCM (domain_key env st r)) (domain_key env st r) ps))
      (fc_in_vault st (f_folder r)) (domain_key env st r) (f_size r) (wanted_range (unconditional i h) True (f_size r))"
proof -
  let ?d = "frames (cipher_NewGCM (domain_key env st r)) (domain_key env st r) ps"
  have q: "\<not> fe_sql env s" for s using D by (simp add: downloadable_def)
  obtain st1 b where v: "fc_IsVaultFolder env (f_folder r) st = (st1, b)" by fastforce
  have b: "b = fc_in_vault st (f_folder r)" using fc_IsVaultFolder_ok(1) [OF _ q v] D by (simp add: downloadable_def)
  obtain vc where st1: "st1 = st\<lparr>fc_vault := vc\<rparr>" using fc_IsVaultFolder_sel [OF v] by blast
  obtain cas where cas: "fc_CAS st = Some cas" "fc_fs st (cas_Path cas (f_cas r)) = Some ?d"
    using D by (auto simp: downloadable_def fc_blob_def blob_at_def split: option.splits if_splits)
  have "(new_reader ReadSeekerAt ?d)\<lparr>r_fault := False\<rparr> = new_reader ReadSeekerAt ?d" by (simp add: new_reader_def)
  then have f: "blob_file env (f_cas r) st1 = Some (new_reader ReadSeekerAt ?d)"
    using D cas by (simp add: blob_file_def st1 os_Open_def downloadable_def)
  have k: "domain_key env st r \<noteq> []" using D by (auto simp: downloadable_def aes_NewCipher_def)
  have key: "domain_key env st r = (if b then vault_key env else fe_stdKey env)" by (simp add: domain_key_def b)
  have r: "find (live env i) (fc_files st) = Some r" "b \<longrightarrow> isVaultUnlocked env" using D b by (simp_all add: downloadable_def)
  show ?thesis
    using q v r f k unfolding key b [symmetric]
    by (auto simp: DownloadFile_def unconditional_def Let_def not_modified_def range_allowed_def split: option.splits)
qed

lemma DownloadFile_slice:
  assumes D: "downloadable env i r ps st" and ab: "0 \<le> a" "a \<le> b" "a < f_size r" "is_int64 a" "is_int64 b"
  shows "snd (DownloadFile env dates (unconditional i (''bytes='' @ Itoa a @ ''-'' @ Itoa b)) st) =
    (let e = min b (f_size r - 1) in Partial a e (f_size r)
       (take (nat (e - a + 1)) (drop (if a = 0 \<or> \<not> boundary ps (nat a) then nat a else 0) (concat ps))) None)"
proof -
  let ?h = "''bytes='' @ Itoa a @ ''-'' @ Itoa b"
  have w: "wanted_range (unconditional i ?h) True (f_size r) = Slice a (min b (f_size r - 1))"
    using parseRange_closed [of a b "f_size r"] ab by (simp add: wanted_range_def unconditional_def)
  have ok: "list_all chunk_ok ps" "ps \<noteq> []" "aes_NewCipher (domain_key env st r) \<noteq> None" "nat a \<le> length (concat ps)"
    using D ab by (simp_all add: downloadable_def del: length_concat)
  show ?thesis
    unfolding DownloadFile_serves [OF D] w Let_def by (rule serve_slice [OF refl ok(1-3) ab(1) ok(4)])
qed

lemma DownloadFile_whole:
  assumes D: "downloadable env i r ps st"
  shows "snd (DownloadFile env dates (unconditional i []) st) = Whole (f_size r) (concat ps) None"
proof -
  have w: "wanted_range (unconditional i []) True (f_size r) = NoSlice" by (simp add: wanted_range_def unconditional_def)
  have ok: "list_all chunk_ok ps" "ps \<noteq> []" "aes_NewCipher (domain_key env st r) \<noteq> None"
    using D by (simp_all add: downloadable_def)
  show ?thesis unfolding DownloadFile_serves [OF D] w by (rule serve_whole [OF refl ok])
qed

text \<open>A stored file of two chunks.\<close>

definition ex_chunks :: FileController where
  "ex_chunks =
     (let cas = \<lparr>BaseDir = ''/s'', existCache = {}\<rparr>; h = replicate 64 (CHR ''0'')
      in ex_drive\<lparr>fc_CAS := Some cas,
           fc_fs := [cas_Path cas h \<mapsto> frames (cipher_NewGCM (replicate 32 7)) (replicate 32 7) [[1, 2], [3]]],
           fc_files := [ex_file ''a'' [] h]\<rparr>)"

lemma ex_file_sel:
  "f_cas (ex_file i f h) = h" "f_folder (ex_file i f h) = f" "f_size (ex_file i f h) = 3" "fe_fails ex_fenv = no_faults"
  by (simp_all add: ex_file_def ex_fenv_def)

lemma ex_downloadable: "downloadable ex_fenv ''a'' (ex_file ''a'' [] (replicate 64 (CHR ''0''))) [[1, 2], [3]] ex_chunks"
proof -
  have v: "vault_ok ex_chunks" using ex_drive_vault_ok(1) by (simp add: ex_chunks_def vault_ok_def Let_def)
  have nv: "\<not> fc_in_vault ex_chunks []" using v presets_outside by (auto simp: vault_ok_def)
  have k: "domain_key ex_fenv ex_chunks (ex_file ''a'' [] (replicate 64 (CHR ''0''))) = replicate 32 7"
    using nv by (simp add: domain_key_def ex_file_def ex_fenv_def)
  have "find (live ex_fenv ''a'') (fc_files ex_chunks) = Some (ex_file ''a'' [] (replicate 64 (CHR ''0'')))"
    by (simp add: ex_chunks_def live_def own_def ex_fenv_def ex_file_def Let_def)
  moreover have "fc_blob ex_chunks (replicate 64 (CHR ''0'')) = Some (frames (cipher_NewGCM (replicate 32 7)) (replicate 32 7) [[1, 2], [3]])"
    using ex_shared_ok(4) by (simp add: ex_chunks_def fc_blob_def blob_at_def Let_def)
  ultimately show ?thesis
    using v nv ex_drive_vault_ok(2) ex_file_sel
    by (simp add: downloadable_def k aes_NewCipher_def chunk_ok_def MaxChunkSize_def)
qed

definition ex_dates :: Dates where
  "ex_dates = \<lparr>layouts = (\<lambda>_. None), http_time = (\<lambda>_. None)\<rparr>"

section \<open>Properties\<close>

text \<open>C21: a range request returns exactly the bytes it asks for: for a live file of the caller stored as encrypted chunks, the header
  \<^verbatim>\<open>bytes=a-b\<close> with \<open>a\<close> inside the file is answered with 206, the range clipped to the file's end, and the decrypted slice as the body,
  when \<open>a\<close> is 0 or falls strictly inside a chunk.\<close>

theorem range_download_exact:
  assumes D: "downloadable env i r ps st" and ab: "0 \<le> a" "a \<le> b" "a < f_size r" "is_int64 a" "is_int64 b"
    and at: "a = 0 \<or> \<not> boundary ps (nat a)"
  shows "snd (DownloadFile env dates (unconditional i (''bytes='' @ Itoa a @ ''-'' @ Itoa b)) st) =
    (let e = min b (f_size r - 1) in Partial a e (f_size r) (take (nat (e - a + 1)) (drop (nat a) (concat ps))) None)"
  using at by (simp only: DownloadFile_slice [OF D ab] if_True)

theorem range_download_exact_witness:
  "snd (DownloadFile ex_fenv ex_dates (unconditional ''a'' (''bytes='' @ Itoa 1 @ ''-'' @ Itoa 9)) ex_chunks) = Partial 1 2 3 [2, 3] None"
  using range_download_exact [OF ex_downloadable, of 1 9 ex_dates] by (simp add: ex_file_def is_int64_def Let_def)

text \<open>when the range starts at the boundary of two chunks, the response still announces the range asked for, but its body is the
  beginning of the file: the seek over an \<^verbatim>\<open>*os.File\<close> leaves the stream rewound there.\<close>

theorem range_download_at_boundary:
  assumes D: "downloadable env i r ps st" and ab: "0 < a" "a \<le> b" "a < f_size r" "is_int64 a" "is_int64 b"
    and at: "boundary ps (nat a)"
  shows "snd (DownloadFile env dates (unconditional i (''bytes='' @ Itoa a @ ''-'' @ Itoa b)) st) =
    (let e = min b (f_size r - 1) in Partial a e (f_size r) (take (nat (e - a + 1)) (concat ps)) None)"
  using at DownloadFile_slice [OF D _ ab(2-5)] ab(1) by simp

theorem range_download_at_boundary_witness:
  "snd (DownloadFile ex_fenv ex_dates (unconditional ''a'' (''bytes='' @ Itoa 2 @ ''-'' @ Itoa 2)) ex_chunks) = Partial 2 2 3 [1] None"
  using range_download_at_boundary [OF ex_downloadable, of 2 2 ex_dates] by (simp add: ex_file_def is_int64_def Let_def)

text \<open>C22: whatever the header, a range that is served lies within the file, and closed, open and suffix ranges mean what RFC 7233 says.\<close>

theorem range_header_meaning:
  assumes "0 \<le> a" "is_int64 a" "0 \<le> b" "is_int64 b"
  shows "(parseRangeHeader h n = (s, e, True, isRange) \<longrightarrow> 0 \<le> s \<and> s \<le> e \<and> e < n \<and> isRange) \<and>
    parseRangeHeader (''bytes='' @ Itoa a @ ''-'' @ Itoa b) n =
      (if a < n \<and> a \<le> b then (a, min b (n - 1), True, True) else (0, 0, False, True)) \<and>
    parseRangeHeader (''bytes='' @ Itoa a @ ''-'') n = (if a < n then (a, n - 1, True, True) else (0, 0, False, True)) \<and>
    parseRangeHeader (''bytes=-'' @ Itoa a) n =
      (if 0 < a \<and> 0 < n then (n - min a n, n - 1, True, True) else (0, 0, False, True))"
  using parseRange_bounds parseRange_closed [OF assms] parseRange_open [OF assms(1,2)] parseRange_suffix [OF assms(1,2)]
  by blast

theorem range_header_meaning_witness:
  "parseRangeHeader (''bytes='' @ Itoa 5 @ ''-'' @ Itoa 20) 10 = (5, 9, True, True) \<and>
   parseRangeHeader (''bytes=-'' @ Itoa 5) 8 = (3, 7, True, True)"
  using range_header_meaning [of 5 20 "[]" 10] range_header_meaning [of 5 20 "[]" 8] by (simp add: is_int64_def)

end
