(* ===== verification/Folder_Operations.thy ===== *)
theory Folder_Operations
  imports File_Moves "HOL-Library.Multiset"
begin

text \<open>
  Creating, renaming and deleting folders: \<^verbatim>\<open>CreateFolder\<close>, \<^verbatim>\<open>RenameFolder\<close> and \<^verbatim>\<open>DeleteFolder\<close> of
  \<^verbatim>\<open>internal/controllers/file_controller.go\<close>. \<^verbatim>\<open>DeleteFolder\<close> collects the folders below with a queue and no set of visited
  folders, so whether it returns depends on the shape of the table; its loop is a partial function. The
  foreign keys of the schema (\<^verbatim>\<open>data/migrations_sqlite3/00001_init.sql\<close>) delete the files and folders inside a deleted folder.
\<close>

section \<open>Operations\<close>

definition new_fc_folder :: "FileEnv \<Rightarrow> string" where
  "new_fc_folder env = ''f_'' @ Itoa (fe_now env div Second) @ ''_'' @ take 8 (GenerateID (fe_rnd env))"

text \<open>Another folder with this name under the parent. \<^verbatim>\<open>CreateFolder\<close> looks at the folders of every user.\<close>

definition folder_name_taken :: "FileEnv \<Rightarrow> (FolderRecord \<Rightarrow> bool) \<Rightarrow> string \<Rightarrow> string \<Rightarrow> FileController \<Rightarrow> bool" where
  "folder_name_taken env who parent name st \<longleftrightarrow>
     \<not> fe_sql env NameTaken \<and> list_ex (\<lambda>r. fd_parent r = parent \<and> fd_name r = name \<and> who r) (fc_folders st)"

definition invalidated :: "FileController \<Rightarrow> FileController" where
  "invalidated st = st\<lparr>fc_vault := InvalidateVaultCache (fc_vault st)\<rparr>"

definition CreateFolder :: "FileEnv \<Rightarrow> string \<Rightarrow> string \<Rightarrow> FileController \<Rightarrow> FileController \<times> file_response" where
  "CreateFolder env raw parentID st =
     (case clean_entry_name raw of
        None \<Rightarrow> (st, FileError 400)
      | Some cleanName \<Rightarrow>
          let parent = (if parentID = ''root'' then [] else parentID) in
          case (if parent \<noteq> [] then vault_guard env parent st else (st, False)) of
            (st, True) \<Rightarrow> (st, FileError 401)
          | (st, False) \<Rightarrow>
              if parent \<noteq> [] \<and> (fe_sql env (FolderExists parent) \<or> \<not> list_ex (\<lambda>r. fd_id r = parent) (fc_folders st))
              then (st, FileError 400)
              else if folder_name_taken env (\<lambda>_. True) parent cleanName st then (st, FileError 409)
              else
                let i = new_fc_folder env in
                if fe_sql env InsertFolder \<or> list_ex (\<lambda>r. fd_id r = i) (fc_folders st) then (st, FileError 500)
                else
                  (invalidated (st\<lparr>fc_folders := fc_folders st @
                       [\<lparr>fd_id = i, fd_owner = fe_user env, fd_parent = parent, fd_name = cleanName\<rparr>]\<rparr>),
                   FolderCreated i cleanName))"

definition preset_folder :: "string \<Rightarrow> bool" where
  "preset_folder i \<longleftrightarrow> i \<in> {''f1'', ''f2'', ''f3''}"

definition own_folder :: "FileEnv \<Rightarrow> string \<Rightarrow> FolderRecord \<Rightarrow> bool" where
  "own_folder env i r \<longleftrightarrow> fd_id r = i \<and> fd_owner r = fe_user env"

definition renamed :: "FileEnv \<Rightarrow> string \<Rightarrow> string \<Rightarrow> FolderRecord list \<Rightarrow> FolderRecord list" where
  "renamed env i n folders = map (\<lambda>r. if own_folder env i r then r\<lparr>fd_name := n\<rparr> else r) folders"

definition RenameFolder :: "FileEnv \<Rightarrow> string \<Rightarrow> string \<Rightarrow> FileController \<Rightarrow> FileController \<times> file_response" where
  "RenameFolder env i raw st =
     (if preset_folder i then (st, FileError 403)
      else case vault_guard env i st of
          (st, True) \<Rightarrow> (st, FileError 401)
        | (st, False) \<Rightarrow>
            (case clean_entry_name raw of
               None \<Rightarrow> (st, FileError 400)
             | Some cleanName \<Rightarrow>
                 if \<not> fe_sql env (SelectFolder i) \<and> \<not> list_ex (own_folder env i) (fc_folders st) then (st, FileError 404)
                 else
                   let parent = (if fe_sql env (SelectFolder i) then []
                                 else case find (own_folder env i) (fc_folders st) of None \<Rightarrow> [] | Some r \<Rightarrow> fd_parent r) in
                   if folder_name_taken env (\<lambda>r. fd_id r \<noteq> i \<and> fd_owner r = fe_user env) parent cleanName st
                   then (st, FileError 409)
                   else if fe_sql env UpdateFolder then (st, FileError 500)
                   else if \<not> list_ex (own_folder env i) (fc_folders st) then (st, FileError 404)
                   else
                     (invalidated (st\<lparr>fc_folders := renamed env i cleanName (fc_folders st)\<rparr>), FolderRenamed cleanName)))"

text \<open>The loop of \<^verbatim>\<open>DeleteFolder\<close>: \<^verbatim>\<open>queue\<close> and \<^verbatim>\<open>allFolderIDs\<close>.\<close>

definition child_ids :: "FileEnv \<Rightarrow> FolderRecord list \<Rightarrow> string \<Rightarrow> string list" where
  "child_ids env folders cur =
     (if fe_sql env (SelectChildren cur) then []
      else map fd_id (filter (\<lambda>r. fd_parent r = cur \<and> fd_owner r = fe_user env) folders))"

partial_function (option) collect :: "(string \<Rightarrow> string list) \<Rightarrow> string list \<Rightarrow> string list \<Rightarrow> string list option" where
  "collect kids queue ids =
     (case queue of
        [] \<Rightarrow> Some ids
      | cur # rest \<Rightarrow> collect kids (rest @ kids cur) (ids @ kids cur))"

text \<open>The statements of the transaction; errors are dropped. A deleted folder takes what is inside with it.\<close>

definition trash_folder :: "FileEnv \<Rightarrow> bool \<Rightarrow> string \<Rightarrow> FileRecord list \<Rightarrow> FileRecord list" where
  "trash_folder env isVault f files =
     (if fe_sql env (UpdateFiles f) then files
      else map (\<lambda>r. if f_folder r = f \<and> f_owner r = fe_user env
                    then r\<lparr>f_deleted := True, f_folder := (if isVault then ''f2'' else [])\<rparr> else r) files)"

definition delete_folder :: "FileEnv \<Rightarrow> string \<Rightarrow> FileRecord list \<times> FolderRecord list \<Rightarrow> FileRecord list \<times> FolderRecord list" where
  "delete_folder env f = (\<lambda>(files, folders).
     if fe_sql env (DeleteFolders f) \<or> \<not> list_ex (own_folder env f) folders then (files, folders)
     else
       let gone = bfs (tree_rows folders) [f] [f]
       in (filter (\<lambda>r. f_folder r \<notin> set gone) files, filter (\<lambda>r. fd_id r \<notin> set gone) folders))"

definition DeleteFolder :: "FileEnv \<Rightarrow> string \<Rightarrow> FileController \<Rightarrow> (FileController \<times> file_response) option" where
  "DeleteFolder env i st =
     (if preset_folder i then Some (st, FileError 403)
      else if fe_sql env (FolderExists i) \<or> \<not> list_ex (own_folder env i) (fc_folders st) then Some (st, FileError 404)
      else
        case vault_guard env i st of
          (st, True) \<Rightarrow> Some (st, FileError 401)
        | (st, False) \<Rightarrow>
            (case collect (child_ids env (fc_folders st)) [i] [i] of
               None \<Rightarrow> None
             | Some ids \<Rightarrow>
                 if fe_sql env BeginTx then Some (st, FileError 500)
                 else
                   case fc_IsVaultFolder env i st of (st, isVault) \<Rightarrow>
                     if fe_sql env CommitTx then Some (st, FileError 500)
                     else
                       case fold (delete_folder env) (rev ids) (fold (trash_folder env isVault) ids (fc_files st), fc_folders st) of
                         (files, folders) \<Rightarrow> Some (invalidated (st\<lparr>fc_files := files, fc_folders := folders\<rparr>), FolderDeleted)))"

section \<open>The collecting loop\<close>

text \<open>On a table without cycles the loop returns, by the multiset order on the queue: a folder is replaced by the folders inside it.\<close>

definition kid_edges :: "(string \<Rightarrow> string list) \<Rightarrow> (string \<times> string) set" where
  "kid_edges kids = {(p, c). c \<in> set (kids p)}"

lemma collect_terminates:
  assumes wf: "wf ((kid_edges kids)\<inverse>)"
  shows "\<exists>new. collect kids queue ids = Some (ids @ new) \<and> (\<forall>x. x \<in> set new \<longleftrightarrow> (\<exists>q \<in> set queue. (q, x) \<in> (kid_edges kids)\<^sup>+))"
proof (induction queue arbitrary: ids rule: wf_induct [OF wf_inv_image [of _ mset, OF wf_mult [OF wf]]])
  case (1 queue)
  show ?case
  proof (cases queue)
    case Nil
    then show ?thesis by (simp add: collect.simps)
  next
    case (Cons cur rest)
    have "(rest @ kids cur, queue) \<in> inv_image (mult ((kid_edges kids)\<inverse>)) mset"
      using one_step_implies_mult [of "{#cur#}" "mset (kids cur)" "(kid_edges kids)\<inverse>" "mset rest"]
      by (auto simp: Cons kid_edges_def)
    from 1 [rule_format, OF this, of "ids @ kids cur"] obtain new where new: "collect kids (rest @ kids cur) (ids @ kids cur) = Some ((ids @ kids cur) @ new)"
      "\<forall>x. x \<in> set new \<longleftrightarrow> (\<exists>q \<in> set (rest @ kids cur). (q, x) \<in> (kid_edges kids)\<^sup>+)"
      by blast
    have "(cur, x) \<in> (kid_edges kids)\<^sup>+ \<longleftrightarrow> x \<in> set (kids cur) \<or> (\<exists>q \<in> set (kids cur). (q, x) \<in> (kid_edges kids)\<^sup>+)" for x
      by (subst trancl_unfold_left) (auto simp: kid_edges_def rtrancl_eq_or_trancl relcomp_unfold)
    then show ?thesis
      using new by (subst collect.simps) (auto simp: Cons)
  qed
qed

text \<open>A folder on a cycle keeps the loop running for ever.\<close>

lemma collect_diverges:
  assumes "q \<in> set queue" "(q, q) \<in> (kid_edges kids)\<^sup>+"
  shows "collect kids queue ids = None"
proof -
  have "\<forall>q \<in> set queue. (q, q) \<notin> (kid_edges kids)\<^sup>+" if "collect kids queue ids = Some r" for r
  proof (rule collect.raw_induct [where P = "\<lambda>kids queue ids r. \<forall>q \<in> set queue. (q, q) \<notin> (kid_edges kids)\<^sup>+", OF _ that])
    fix loop kids queue ids r
    assume 1: "\<And>kids queue ids r. loop kids queue ids = Some r \<Longrightarrow> \<forall>q \<in> set queue. (q, q) \<notin> (kid_edges kids)\<^sup>+"
      "(case queue of [] \<Rightarrow> Some ids | cur # rest \<Rightarrow> loop kids (rest @ kids cur) (ids @ kids cur)) = Some (r :: string list)"
    show "\<forall>q \<in> set queue. (q, q) \<notin> (kid_edges kids)\<^sup>+"
    proof (cases queue)
      case (Cons cur rest)
      then have rec: "loop kids (rest @ kids cur) (ids @ kids cur) = Some r" using 1(2) by simp
      have no: "\<forall>q \<in> set (rest @ kids cur). (q, q) \<notin> (kid_edges kids)\<^sup>+" using 1(1) [OF rec] .
      moreover have "(cur, cur) \<notin> (kid_edges kids)\<^sup>+"
      proof
        assume c: "(cur, cur) \<in> (kid_edges kids)\<^sup>+"
        then obtain y where y: "(cur, y) \<in> kid_edges kids" "(y, cur) \<in> (kid_edges kids)\<^sup>*" by (auto dest: tranclD)
        then have "(y, y) \<in> (kid_edges kids)\<^sup>+" by (meson rtrancl_into_trancl1 r_into_rtrancl rtrancl_into_trancl2 trancl_rtrancl_trancl)
        then show False using no y(1) by (auto simp: kid_edges_def)
      qed
      ultimately show ?thesis by (simp add: Cons)
    qed simp
  qed
  then show ?thesis using assms by (cases "collect kids queue ids") auto
qed

section \<open>The folder table is a forest\<close>

abbreviation edges :: "FolderRecord list \<Rightarrow> (string \<times> string) set" where
  "edges folders \<equiv> vault_edges (tree_rows folders)"

lemma edges_iff: "(p, c) \<in> edges folders \<longleftrightarrow> p \<noteq> [] \<and> (\<exists>r \<in> set folders. fd_id r = c \<and> fd_parent r = p)"
  by (auto simp: vault_edges_def children_of_def tree_rows_def has_parent_def image_iff split: if_splits)

definition forest :: "FolderRecord list \<Rightarrow> bool" where
  "forest folders \<longleftrightarrow>
     acyclic (edges folders) \<and>
     (\<forall>r \<in> set folders. fd_id r \<noteq> [] \<and> (fd_parent r = [] \<or> fd_parent r \<in> fd_id ` set folders))"

lemma forest_filter:
  assumes "forest folders" "\<And>p c. (p, c) \<in> edges folders \<Longrightarrow> p \<in> gone \<Longrightarrow> c \<in> gone"
  shows "forest (filter (\<lambda>r. fd_id r \<notin> gone) folders)"
proof -
  have "edges (filter (\<lambda>r. fd_id r \<notin> gone) folders) \<subseteq> edges folders" by (auto simp: edges_iff)
  then have "acyclic (edges (filter (\<lambda>r. fd_id r \<notin> gone) folders))"
    using assms(1) by (auto simp: forest_def intro: acyclic_subset)
  moreover have "fd_parent r = [] \<or> fd_parent r \<in> fd_id ` {r \<in> set folders. fd_id r \<notin> gone}"
    if r: "r \<in> set folders" "fd_id r \<notin> gone" for r
  proof (cases "fd_parent r = []")
    case False
    then have "(fd_parent r, fd_id r) \<in> edges folders" using r by (auto simp: edges_iff)
    then have "fd_parent r \<notin> gone" using assms(2) r(2) by blast
    then show ?thesis using False assms(1) r(1) by (auto simp: forest_def)
  qed simp
  ultimately show ?thesis using assms(1) by (simp add: forest_def)
qed

lemma delete_folder_forest:
  "forest folders \<Longrightarrow> delete_folder env f (files, folders) = (files', folders') \<Longrightarrow> forest folders'"
  using forest_filter [of folders "{x. below (tree_rows folders) f x}"]
  by (auto simp: delete_folder_def Let_def bfs_below below_def split: if_splits intro: rtrancl_into_rtrancl)

lemma delete_folders_forest:
  "forest folders \<Longrightarrow> fold (delete_folder env) fs (files, folders) = (files', folders') \<Longrightarrow> forest folders'"
proof (induction fs arbitrary: files folders)
  case (Cons f fs)
  obtain fi fo where d: "delete_folder env f (files, folders) = (fi, fo)" by fastforce
  show ?case using Cons.IH [OF delete_folder_forest [OF Cons.prems(1) d]] Cons.prems(2) d by simp
qed simp

lemma forest_insert:
  assumes "forest folders" "fd_id new \<notin> fd_id ` set folders" "fd_id new \<noteq> []"
    and "fd_parent new = [] \<or> fd_parent new \<in> fd_id ` set folders"
  shows "forest (folders @ [new])"
proof -
  have leaf: "(fd_id new, c) \<notin> edges folders" for c
    using assms(1,2) by (simp add: edges_iff forest_def) metis
  have ne: "fd_parent new \<noteq> fd_id new" using assms(2-4) by metis
  have "edges (folders @ [new]) \<subseteq> insert (fd_parent new, fd_id new) (edges folders)"
    by (auto simp: edges_iff)
  moreover have "acyclic (insert (fd_parent new, fd_id new) (edges folders))"
    using assms(1) leaf ne by (auto simp: forest_def acyclic_insert dest: converse_rtranclE)
  ultimately show ?thesis
    using assms by (auto simp: forest_def intro: acyclic_subset)
qed

lemma new_fc_folder_fresh: "new_fc_folder env \<notin> {[], ''f1'', ''f2'', ''f3''}"
  by (simp add: new_fc_folder_def)

text \<open>The exits of the handlers. \<open>loaded st0 st1\<close>: nothing but the vault cache was touched.\<close>

definition loaded :: "FileController \<Rightarrow> FileController \<Rightarrow> bool" where
  "loaded st st' \<longleftrightarrow> (\<exists>vc. st' = st\<lparr>fc_vault := vc\<rparr> \<and> (vault_ok st \<longrightarrow> vault_ok st'))"

lemma loaded_refl [simp]: "loaded st st"
  unfolding loaded_def by (intro exI [of _ "fc_vault st"]) simp

lemma loaded_guard: "vault_guard env f st = (st', b) \<Longrightarrow> \<not> fe_sql env SelectVaultTree \<Longrightarrow> loaded st st'"
  using vault_guard_sel vault_guard_ok(2) unfolding loaded_def by blast

lemma loaded_IsVault: "fc_IsVaultFolder env f st = (st', b) \<Longrightarrow> \<not> fe_sql env SelectVaultTree \<Longrightarrow> loaded st st'"
  using fc_IsVaultFolder_sel fc_IsVaultFolder_ok(2) unfolding loaded_def by blast

lemma loaded_IDs: "fc_VaultFolderIDs env st = (st', b) \<Longrightarrow> \<not> fe_sql env SelectVaultTree \<Longrightarrow> loaded st st'"
  using fc_VaultFolderIDs_sel fc_VaultFolderIDs_ok(2) unfolding loaded_def by blast

lemma loaded_trans: "loaded st st1 \<Longrightarrow> loaded st1 st2 \<Longrightarrow> loaded st st2"
  by (auto simp: loaded_def)

lemma loaded_sel:
  "loaded st st' \<Longrightarrow> fc_folders st' = fc_folders st \<and> fc_files st' = fc_files st \<and> fc_blob st' = fc_blob st \<and> store_inv st' = store_inv st"
  by (auto simp: loaded_def)

lemma CreateFolder_exits:
  assumes "CreateFolder env raw p st = (st', res)" "\<not> fe_sql env SelectVaultTree"
  obtains (refused) "loaded st st'"
  | (created) st1 parent name where "loaded st st1" "parent = [] \<or> parent \<in> fd_id ` set (fc_folders st)"
      "new_fc_folder env \<notin> fd_id ` set (fc_folders st)"
      "st' = invalidated (st1\<lparr>fc_folders := fc_folders st @
          [\<lparr>fd_id = new_fc_folder env, fd_owner = fe_user env, fd_parent = parent, fd_name = name\<rparr>]\<rparr>)"
proof -
  let ?parent = "if p = ''root'' then [] else p"
  obtain st1 b where g: "(if ?parent \<noteq> [] then vault_guard env ?parent st else (st, False)) = (st1, b)" by fastforce
  have l: "loaded st st1"
  proof (cases "?parent = []")
    case False
    then show ?thesis using g assms(2) loaded_guard [of env ?parent st st1 b] by simp
  qed (use g in simp)
  have fs: "fc_folders st1 = fc_folders st" using loaded_sel [OF l] by simp
  show thesis
  proof (cases "st' = st \<or> st' = st1")
    case True
    then show ?thesis using refused l by auto
  next
    case False
    note F = assms(1) [unfolded CreateFolder_def Let_def g]
    show ?thesis
      by (rule created [OF l, of ?parent "the (clean_entry_name raw)"])
        (use F False in \<open>auto simp: fs list_ex_iff split: option.splits bool.splits if_splits\<close>)
  qed
qed

lemma RenameFolder_exits:
  assumes "RenameFolder env i raw st = (st', res)" "\<not> fe_sql env SelectVaultTree"
  obtains (refused) "loaded st st'"
  | (renamed) st1 n where "loaded st st1" "st' = invalidated (st1\<lparr>fc_folders := renamed env i n (fc_folders st)\<rparr>)"
proof -
  obtain st1 b where g: "vault_guard env i st = (st1, b)" by fastforce
  have l: "loaded st st1" using loaded_guard [OF g assms(2)] .
  have fs: "fc_folders st1 = fc_folders st" using loaded_sel [OF l] by simp
  show thesis
  proof (cases "st' = st \<or> st' = st1")
    case True
    then show ?thesis using refused l by auto
  next
    case False
    show ?thesis
      by (rule renamed [OF l, of "the (clean_entry_name raw)"])
        (use assms(1) False in \<open>auto simp: RenameFolder_def Let_def g fs split: option.splits bool.splits if_splits\<close>)
  qed
qed

lemma DeleteFolder_exits:
  assumes "DeleteFolder env i st = Some (st', res)" "\<not> fe_sql env SelectVaultTree"
  obtains (refused) "loaded st st'"
  | (deleted) st1 v ids files folders where "loaded st st1" "collect (child_ids env (fc_folders st)) [i] [i] = Some ids"
      "fold (delete_folder env) (rev ids) (fold (trash_folder env v) ids (fc_files st), fc_folders st) = (files, folders)"
      "st' = invalidated (st1\<lparr>fc_files := files, fc_folders := folders\<rparr>)"
proof -
  obtain st1 b where g: "vault_guard env i st = (st1, b)" by fastforce
  obtain st2 v where v: "fc_IsVaultFolder env i st1 = (st2, v)" by fastforce
  have l: "loaded st st1" "loaded st st2"
    using loaded_guard [OF g assms(2)] loaded_IsVault [OF v assms(2)] by (auto intro: loaded_trans)
  note sel = loaded_sel [OF l(1)] loaded_sel [OF l(2)]
  show thesis
  proof (cases "st' = st \<or> st' = st1 \<or> st' = st2")
    case True
    then show ?thesis using refused l by auto
  next
    case False
    then obtain ids where ids: "collect (child_ids env (fc_folders st)) [i] [i] = Some ids"
      using assms(1) by (auto simp: DeleteFolder_def g v sel split: option.splits bool.splits if_splits)
    obtain files folders where d:
      "fold (delete_folder env) (rev ids) (fold (trash_folder env v) ids (fc_files st), fc_folders st) = (files, folders)"
      by fastforce
    show ?thesis
      by (rule deleted [OF l(2) ids d])
        (use assms(1) False ids d in \<open>auto simp: DeleteFolder_def g v sel split: bool.splits if_splits\<close>)
  qed
qed

lemma invalidated_sel [simp]:
  "fc_folders (invalidated st) = fc_folders st" "fc_files (invalidated st) = fc_files st" "fc_blob (invalidated st) = fc_blob st"
  "store_inv (invalidated st) = store_inv st"
  by (simp_all add: invalidated_def)

lemma tree_rows_renamed [simp]: "tree_rows (renamed env i n folders) = tree_rows folders"
  by (simp add: tree_rows_def renamed_def)

lemma ids_renamed: "fd_id ` set (renamed env i n folders) = fd_id ` set folders"
proof -
  have "map fd_id (renamed env i n folders) = map fd_id folders" by (simp add: renamed_def)
  then show ?thesis by (metis list.set_map)
qed

lemma forest_renamed: "forest folders \<Longrightarrow> forest (renamed env i n folders)"
  unfolding forest_def ids_renamed tree_rows_renamed by (auto simp: renamed_def)

text \<open>Every folder handler keeps the forest.\<close>

lemma CreateFolder_forest:
  assumes "forest (fc_folders st)" "CreateFolder env raw p st = (st', res)" "\<not> fe_sql env SelectVaultTree"
  shows "forest (fc_folders st')"
  using assms(2,3)
proof (cases rule: CreateFolder_exits)
  case (created st1 parent name)
  then show ?thesis
    using assms(1) new_fc_folder_fresh [of env] by (auto intro!: forest_insert)
qed (use assms(1) loaded_sel in auto)

lemma RenameFolder_forest:
  assumes "forest (fc_folders st)" "RenameFolder env i raw st = (st', res)" "\<not> fe_sql env SelectVaultTree"
  shows "forest (fc_folders st')"
  using assms(2,3) by (cases rule: RenameFolder_exits) (use assms(1) loaded_sel forest_renamed in auto)

lemma DeleteFolder_forest:
  assumes "forest (fc_folders st)" "DeleteFolder env i st = Some (st', res)" "\<not> fe_sql env SelectVaultTree"
  shows "forest (fc_folders st')"
  using assms(2,3)
proof (cases rule: DeleteFolder_exits)
  case (deleted st1 v ids files folders)
  then show ?thesis using delete_folders_forest [OF assms(1)] by auto
qed (use assms(1) loaded_sel in auto)

section \<open>The drive's invariant\<close>

lemma vault_ok_cong: "fc_folders st' = fc_folders st \<Longrightarrow> fc_vault st' = fc_vault st \<Longrightarrow> vault_ok st' = vault_ok st"
  by (simp add: vault_ok_def)

lemma drop_blob_vault [simp]: "fc_folders (drop_blob env h st) = fc_folders st" "fc_vault (drop_blob env h st) = fc_vault st"
  by (simp_all add: drop_blob_def split: option.split)

lemma fold_drop_blob_vault [simp]:
  "fc_folders (fold (drop_blob env) hs st) = fc_folders st" "fc_vault (fold (drop_blob env) hs st) = fc_vault st"
  by (induction hs arbitrary: st) simp_all

lemma update_rows_vault [simp]: "fc_folders (update_rows P f st) = fc_folders st" "fc_vault (update_rows P f st) = fc_vault st"
  by (simp_all add: update_rows_def)

text \<open>The table of folders and a correct cache, which the file handlers keep.\<close>

definition same_tree :: "FileController \<Rightarrow> FileController \<Rightarrow> bool" where
  "same_tree st st' \<longleftrightarrow> fc_folders st' = fc_folders st \<and> (vault_ok st \<longrightarrow> vault_ok st')"

lemma same_treeI:
  "loaded st st1 \<Longrightarrow> fc_folders st' = fc_folders st1 \<Longrightarrow> fc_vault st' = fc_vault st1 \<Longrightarrow> same_tree st st'"
  using vault_ok_cong [of st' st1] by (auto simp: same_tree_def loaded_def)

lemma exec_update_vault:
  "exec_update env q P f ok st = (st', r) \<Longrightarrow> fc_folders st' = fc_folders st \<and> fc_vault st' = fc_vault st"
  by (auto simp: exec_update_def split: if_splits)

lemma DeleteFile_tree:
  assumes "DeleteFile env i p st = (st', r)" "\<not> fe_sql env SelectVaultTree"
  shows "same_tree st st'"
proof -
  obtain st1 b where g: "vault_guard env (lookup env (SelectFolder i) (own env i) f_folder st) st = (st1, b)" by fastforce
  show ?thesis
    using assms(1) by (intro same_treeI [OF loaded_guard [OF g assms(2)]])
      (auto simp: DeleteFile_def g Let_def dest!: exec_update_vault split: bool.splits if_splits)
qed

lemma RestoreFile_tree:
  assumes "RestoreFile env i st = (st', r)" "\<not> fe_sql env SelectVaultTree"
  shows "same_tree st st'"
proof -
  obtain st1 b where g: "vault_guard env (lookup env (SelectFolder i) (own env i) f_folder st) st = (st1, b)" by fastforce
  show ?thesis
    using assms(1) by (intro same_treeI [OF loaded_guard [OF g assms(2)]])
      (auto simp: RestoreFile_def g dest!: exec_update_vault split: bool.splits)
qed

lemma StarFile_tree:
  assumes "StarFile env i st = (st', r)" "\<not> fe_sql env SelectVaultTree"
  shows "same_tree st st'"
proof -
  obtain st1 b where g: "vault_guard env (lookup env (SelectFolder i) (own env i) f_folder st) st = (st1, b)" by fastforce
  show ?thesis
    using assms(1) by (intro same_treeI [OF loaded_guard [OF g assms(2)]])
      (auto simp: StarFile_def g split: bool.splits if_splits)
qed

lemma EmptyTrash_tree:
  assumes "EmptyTrash env st = (st', r)" "\<not> fe_sql env SelectVaultTree"
  shows "same_tree st st'"
proof -
  obtain st1 ids where g: "(if isVaultUnlocked env then (st, []) else fc_VaultFolderIDs env st) = (st1, ids)" by fastforce
  then have "loaded st st1" using loaded_IDs [of env st st1 ids] assms(2) by (auto split: if_splits)
  then show ?thesis
    using assms(1) by (elim same_treeI) (auto simp: EmptyTrash_def g Let_def split: if_splits)
qed

lemma RenameFile_tree:
  assumes "RenameFile env i raw st = (st', r)" "\<not> fe_sql env SelectVaultTree"
  shows "same_tree st st'"
proof -
  obtain st1 b where g: "vault_guard env (lookup env (SelectFolder i) (live env i) f_folder st) st = (st1, b)" by fastforce
  have "st' = st \<or> (fc_folders st' = fc_folders st1 \<and> fc_vault st' = fc_vault st1)"
    using assms(1) by (auto simp: RenameFile_def g Let_def dest!: exec_update_vault split: option.splits bool.splits if_splits)
  then show ?thesis using same_treeI [OF loaded_guard [OF g assms(2)]] by (auto simp: same_tree_def)
qed

lemma cross_vault_tree:
  assumes "cross_vault env locked i h b1 b2 st = (st', x)" "orderly env" "store_inv st"
  shows "fc_folders st' = fc_folders st \<and> fc_vault st' = fc_vault st"
proof -
  obtain k1 k2 where k: "move_keys env b1 = (k1, k2)" by fastforce
  obtain st1 res where R: "reencrypt env k1 k2 i h st = (st1, res)" by fastforce
  show ?thesis
    using assms(1) reencrypt_grows [OF R assms(2,3)] R k by (cases "b1 = b2 \<or> locked") (auto simp: cross_vault_def store_grows_def split: if_splits)
qed

lemma placed_tree:
  assumes "store_inv st" "orderly env" "\<not> fe_sql env SelectVaultTree"
    and v: "fc_IsVaultFolder env f st = (st1, b1)" "fc_IsVaultFolder env target st1 = (st2, b2)"
    and c: "cross_vault env locked i h b1 b2 st2 = (st3, x)"
    and st': "st' = st3 \<or> (\<exists>h. st' = place_row env i target h st3)"
  shows "same_tree st st'"
proof -
  have l: "loaded st st2" using loaded_IsVault v assms(3) loaded_trans by blast
  then have "store_inv st2" using loaded_sel assms(1) by blast
  from cross_vault_tree [OF c assms(2) this] st' show ?thesis
    by (intro same_treeI [OF l]) (auto simp: place_row_def)
qed

lemma MoveFile_tree:
  assumes "MoveFile env i raw st = (st', res)" "\<not> fe_sql env SelectVaultTree" "store_inv st" "orderly env"
  shows "same_tree st st'"
proof (cases "find (live env i) (fc_files st)")
  case None
  then show ?thesis using assms by (auto simp: MoveFile_def Let_def same_tree_def split: if_splits)
next
  case (Some r)
  obtain st1 b1 where v1: "fc_IsVaultFolder env (f_folder r) st = (st1, b1)" by fastforce
  obtain st2 b2 where v2: "fc_IsVaultFolder env (target_folder raw) st1 = (st2, b2)" by fastforce
  obtain st3 x where c: "cross_vault env (no_vault_key env) i (f_cas r) b1 b2 st2 = (st3, x)" by fastforce
  have "st' = st \<or> st' = st3 \<or> (\<exists>h. st' = place_row env i (target_folder raw) h st3)"
    using assms(1) by (auto simp: MoveFile_def Let_def Some v1 v2 c split: if_splits reenc_result.splits)
  then show ?thesis using placed_tree [OF assms(3,4,2) v1 v2 c] by (auto simp: same_tree_def)
qed

lemma move_one_tree:
  assumes "move_one env target i st = (st', res)" "\<not> fe_sql env SelectVaultTree" "store_inv st" "orderly env"
  shows "same_tree st st'"
proof (cases "fe_sql env (SelectFile i) \<or> find (live env i) (fc_files st) = None")
  case True
  then have "st' = st" using assms(1) by (auto simp: move_one_def split: if_splits)
  then show ?thesis by (simp add: same_tree_def)
next
  case False
  then obtain r where r: "find (live env i) (fc_files st) = Some r" by auto
  obtain st1 b1 where v1: "fc_IsVaultFolder env (f_folder r) st = (st1, b1)" by fastforce
  obtain st2 b2 where v2: "fc_IsVaultFolder env target st1 = (st2, b2)" by fastforce
  obtain st3 x where c: "cross_vault env (\<not> isVaultUnlocked env) i (f_cas r) b1 b2 st2 = (st3, x)" by fastforce
  have "st' = st \<or> st' = st3 \<or> (\<exists>h. st' = place_row env i target h st3)"
    using assms(1) False by (auto simp: move_one_def r v1 v2 c split: if_splits reenc_result.splits)
  then show ?thesis using placed_tree [OF assms(3,4,2) v1 v2 c] by (auto simp: same_tree_def)
qed

lemma move_each_tree:
  "move_each env target ids n errs st = (st', res) \<Longrightarrow> \<not> fe_sql env SelectVaultTree \<Longrightarrow> rows_stored M st \<Longrightarrow> orderly env \<Longrightarrow>
   same_tree st st'"
proof (induction ids arbitrary: n errs st)
  case (Cons i ids)
  obtain st1 b where m: "move_one env target i st = (st1, b)" by fastforce
  have "same_tree st st1" using move_one_tree [OF m] Cons.prems by (simp add: rows_stored_def)
  moreover have "same_tree st1 st'"
    using Cons.IH [of _ _ st1] Cons.prems move_one_stored [OF _ _ m] m by (cases b) (auto simp: same_tree_def)
  ultimately show ?case by (simp add: same_tree_def)
qed (simp add: same_tree_def)

lemma MoveFilesBatch_tree:
  assumes "MoveFilesBatch env ids raw st = (st', res)" "\<not> fe_sql env SelectVaultTree" "rows_stored M st" "orderly env"
  shows "same_tree st st'"
  using assms move_each_tree [OF _ assms(2-4)]
  by (auto simp: MoveFilesBatch_def Let_def same_tree_def split: if_splits)

lemma vault_ok_invalidated [simp]: "vault_ok (invalidated st) = presets_ok (tree_rows (fc_folders st))"
  by (simp add: vault_ok_def invalidated_def InvalidateVaultCache_def cache_ok_def)

lemma presets_ok_subset: "presets_ok rows \<Longrightarrow> set rows' \<subseteq> set rows \<Longrightarrow> presets_ok rows'"
  by (auto simp: presets_ok_def)

lemma set_delete_folders:
  "fold (delete_folder env) fs (files, folders) = (files', folders') \<Longrightarrow> set files' \<subseteq> set files \<and> set folders' \<subseteq> set folders"
proof (induction fs arbitrary: files folders)
  case (Cons f fs)
  obtain fi fo where d: "delete_folder env f (files, folders) = (fi, fo)" by fastforce
  moreover have "set fi \<subseteq> set files \<and> set fo \<subseteq> set folders" using d by (auto simp: delete_folder_def Let_def split: if_splits)
  ultimately show ?case using Cons.IH [of fi fo] Cons.prems by auto
qed simp

lemma trash_folders_cas: "map f_cas (fold (trash_folder env v) fs files) = map f_cas files"
proof (induction fs arbitrary: files)
  case (Cons f fs)
  have "map f_cas (trash_folder env v f files) = map f_cas files" by (simp add: trash_folder_def)
  then show ?case using Cons by simp
qed simp

lemma CreateFolder_vault:
  assumes "CreateFolder env raw p st = (st', res)" "\<not> fe_sql env SelectVaultTree" "vault_ok st"
  shows "vault_ok st'"
  using assms(1,2)
proof (cases rule: CreateFolder_exits)
  case (created st1 parent name)
  have "presets_ok (tree_rows (fc_folders st))" using assms(3) by (simp add: vault_ok_def)
  then show ?thesis
    using created(4) new_fc_folder_fresh [of env] by (auto simp: presets_ok_def tree_rows_def)
qed (use assms(3) in \<open>auto simp: loaded_def\<close>)

lemma RenameFolder_vault:
  assumes "RenameFolder env i raw st = (st', res)" "\<not> fe_sql env SelectVaultTree" "vault_ok st"
  shows "vault_ok st'"
  using assms(1,2)
proof (cases rule: RenameFolder_exits)
  case (renamed st1 n)
  have "presets_ok (tree_rows (fc_folders st))" using assms(3) by (simp add: vault_ok_def)
  then show ?thesis using renamed(2) by simp
qed (use assms(3) in \<open>auto simp: loaded_def\<close>)

lemma DeleteFolder_vault:
  assumes "DeleteFolder env i st = Some (st', res)" "\<not> fe_sql env SelectVaultTree" "vault_ok st"
  shows "vault_ok st'"
  using assms(1,2)
proof (cases rule: DeleteFolder_exits)
  case (deleted st1 v ids files folders)
  then have "set (tree_rows folders) \<subseteq> set (tree_rows (fc_folders st))"
    using set_delete_folders [OF deleted(3)] by (auto simp: tree_rows_def)
  moreover have "presets_ok (tree_rows (fc_folders st))" using assms(3) by (simp add: vault_ok_def)
  ultimately show ?thesis using deleted(4) presets_ok_subset by simp
qed (use assms(3) in \<open>auto simp: loaded_def\<close>)

text \<open>None of the three names a new blob.\<close>

lemma rows_stored_cong:
  "rows_stored M st \<Longrightarrow> fc_blob st' = fc_blob st \<Longrightarrow> store_inv st' = store_inv st \<Longrightarrow> refs st' \<subseteq> refs st \<Longrightarrow> rows_stored M st'"
  by (auto simp: rows_stored_def)

lemma loaded_stored: "loaded st st' \<Longrightarrow> rows_stored M st \<Longrightarrow> rows_stored M st'"
  by (auto simp: loaded_def)

lemma fc_folders_blob [simp]: "fc_blob (st\<lparr>fc_folders := x\<rparr>) = fc_blob st" "store_inv (st\<lparr>fc_folders := x\<rparr>) = store_inv st"
  by (auto simp: fc_blob_def fun_eq_iff store_inv_def split: option.split)

lemma CreateFolder_stored:
  assumes "CreateFolder env raw p st = (st', res)" "\<not> fe_sql env SelectVaultTree" "rows_stored M st"
  shows "rows_stored M st'"
  using assms(1,2)
proof (cases rule: CreateFolder_exits)
  case (created st1 parent name)
  then show ?thesis
    using loaded_sel [OF created(1)] by (intro rows_stored_cong [OF assms(3)]) (simp_all add: refs_def)
qed (use assms(3) loaded_stored in blast)

lemma RenameFolder_stored:
  assumes "RenameFolder env i raw st = (st', res)" "\<not> fe_sql env SelectVaultTree" "rows_stored M st"
  shows "rows_stored M st'"
  using assms(1,2)
proof (cases rule: RenameFolder_exits)
  case (renamed st1 n)
  then show ?thesis
    using loaded_sel [OF renamed(1)] by (intro rows_stored_cong [OF assms(3)]) (simp_all add: refs_def)
qed (use assms(3) loaded_stored in blast)

lemma DeleteFolder_stored:
  assumes "DeleteFolder env i st = Some (st', res)" "\<not> fe_sql env SelectVaultTree" "rows_stored M st"
  shows "rows_stored M st'"
  using assms(1,2)
proof (cases rule: DeleteFolder_exits)
  case (deleted st1 v ids files folders)
  have "f_cas ` set files \<subseteq> f_cas ` set (fold (trash_folder env v) ids (fc_files st))"
    using set_delete_folders [OF deleted(3)] by blast
  also have "\<dots> = f_cas ` set (fc_files st)" using trash_folders_cas [of env v ids "fc_files st"] by (metis list.set_map)
  finally show ?thesis
    using deleted loaded_sel [OF deleted(1)] by (intro rows_stored_cong [OF assms(3)]) (simp_all add: refs_def)
qed (use assms(3) loaded_stored in blast)

text \<open>Every handler as one step of the drive. The steps rely on the count of references and the folder query being answered, and on
  files being removable; every other statement and call may fail.\<close>

definition served :: "FileEnv \<Rightarrow> bool" where
  "served env \<longleftrightarrow> orderly env \<and> \<not> fe_sql env SelectVaultTree \<and> (\<forall>h. \<not> fe_sql env (CountRefs h))"

inductive fc_step :: "FileController \<Rightarrow> FileController \<Rightarrow> bool" where
  delete: "served env \<Longrightarrow> DeleteFile env i permanent st = (st', r) \<Longrightarrow> fc_step st st'"
| restore: "served env \<Longrightarrow> RestoreFile env i st = (st', r) \<Longrightarrow> fc_step st st'"
| star: "served env \<Longrightarrow> StarFile env i st = (st', r) \<Longrightarrow> fc_step st st'"
| empty: "served env \<Longrightarrow> EmptyTrash env st = (st', r) \<Longrightarrow> fc_step st st'"
| rename: "served env \<Longrightarrow> RenameFile env i raw st = (st', r) \<Longrightarrow> fc_step st st'"
| move: "served env \<Longrightarrow> MoveFile env i raw st = (st', r) \<Longrightarrow> fc_step st st'"
| batch: "served env \<Longrightarrow> MoveFilesBatch env ids raw st = (st', r) \<Longrightarrow> fc_step st st'"
| create_folder: "served env \<Longrightarrow> CreateFolder env raw parent st = (st', r) \<Longrightarrow> fc_step st st'"
| rename_folder: "served env \<Longrightarrow> RenameFolder env i raw st = (st', r) \<Longrightarrow> fc_step st st'"
| delete_folder: "served env \<Longrightarrow> DeleteFolder env i st = Some (st', r) \<Longrightarrow> fc_step st st'"

definition drive_inv :: "string set \<Rightarrow> FileController \<Rightarrow> bool" where
  "drive_inv M st \<longleftrightarrow> rows_stored M st \<and> vault_ok st \<and> forest (fc_folders st)"

lemma file_step_inv:
  assumes "drive_inv M st" "same_tree st st'" "rows_stored M st'"
  shows "drive_inv M st'"
  using assms by (simp add: drive_inv_def same_tree_def)

lemma fc_step_inv: "fc_step st st' \<Longrightarrow> drive_inv M st \<Longrightarrow> drive_inv M st'"
proof (induction rule: fc_step.induct)
  case (delete env i permanent st st' r)
  then have "rows_stored M st'"
    using DeleteFile_kept [of env i permanent st st' r] rows_stored_kept [of M st st'] by (auto simp: drive_inv_def served_def rows_stored_def)
  with delete show ?case by (auto intro: file_step_inv DeleteFile_tree simp: served_def)
next
  case (restore env i st st' r)
  then have "rows_stored M st'"
    using RestoreFile_kept rows_stored_kept by (auto simp: drive_inv_def served_def) (metis rows_stored_def)
  with restore show ?case by (auto intro: file_step_inv RestoreFile_tree simp: served_def)
next
  case (star env i st st' r)
  then have "rows_stored M st'"
    using StarFile_kept rows_stored_kept by (auto simp: drive_inv_def served_def) (metis rows_stored_def)
  with star show ?case by (auto intro: file_step_inv StarFile_tree simp: served_def)
next
  case (empty env st st' r)
  then have "rows_stored M st'"
    using EmptyTrash_kept [of env st st' r] rows_stored_kept [of M st st'] by (auto simp: drive_inv_def served_def rows_stored_def)
  with empty show ?case by (auto intro: file_step_inv EmptyTrash_tree simp: served_def)
next
  case (rename env i raw st st' r)
  then have "rows_stored M st'"
    using RenameFile_kept rows_stored_kept by (auto simp: drive_inv_def served_def) (metis rows_stored_def)
  with rename show ?case by (auto intro: file_step_inv RenameFile_tree simp: served_def)
next
  case (move env i raw st st' r)
  then show ?case
    using MoveFile_stored [of M st env i raw st' r] MoveFile_tree [of env i raw st st' r]
    by (auto simp: served_def drive_inv_def rows_stored_def same_tree_def)
next
  case (batch env ids raw st st' r)
  then show ?case
    using MoveFilesBatch_stored [of M st env ids raw st' r] MoveFilesBatch_tree [of env ids raw st st' r M]
    by (auto simp: served_def drive_inv_def same_tree_def)
next
  case create_folder
  then show ?case using CreateFolder_stored CreateFolder_vault CreateFolder_forest by (simp add: served_def drive_inv_def) blast
next
  case rename_folder
  then show ?case using RenameFolder_stored RenameFolder_vault RenameFolder_forest by (simp add: served_def drive_inv_def) blast
next
  case delete_folder
  then show ?case using DeleteFolder_stored DeleteFolder_vault DeleteFolder_forest by (simp add: served_def drive_inv_def) blast
qed

section \<open>Deleting a folder\<close>

lemma kid_edges_forest:
  assumes "forest folders"
  shows "wf ((kid_edges (child_ids env folders))\<inverse>)"
proof (rule finite_acyclic_wf_converse)
  let ?K = "kid_edges (child_ids env folders)"
  have row: "\<exists>r \<in> set folders. fd_parent r = p \<and> fd_id r = c" if "(p, c) \<in> ?K" for p c
    using that by (auto simp: kid_edges_def child_ids_def split: if_splits)
  have "?K \<subseteq> (\<lambda>r. (fd_parent r, fd_id r)) ` set folders" using row by force
  then show "finite ?K" by (rule finite_subset) simp
  have step: "(p, c) \<in> edges folders \<and> c \<noteq> []" if "(p, c) \<in> ?K" "p \<noteq> []" for p c
    using row [OF that(1)] that(2) assms by (auto simp: edges_iff forest_def)
  have reach: "(p, c) \<in> (edges folders)\<^sup>+ \<and> c \<noteq> []" if "(p, c) \<in> ?K\<^sup>+" "p \<noteq> []" for p c
    using that by (induction rule: trancl_induct) (use step in \<open>auto intro: trancl_into_trancl\<close>)
  have "x \<noteq> []" if "(x, x) \<in> ?K\<^sup>+" for x
    using tranclD2 [OF that] row assms by (fastforce simp: forest_def)
  then show "acyclic ?K" using reach assms by (auto simp: acyclic_def forest_def)
qed

text \<open>The loop follows the folders of the user alone.\<close>

definition own_folders :: "FileEnv \<Rightarrow> FolderRecord list \<Rightarrow> FolderRecord list" where
  "own_folders env folders = filter (\<lambda>r. fd_owner r = fe_user env) folders"

lemma collect_below:
  assumes f: "forest folders" and q: "\<And>c. \<not> fe_sql env (SelectChildren c)" and i: "i \<noteq> []"
  shows "\<exists>ids. collect (child_ids env folders) [i] [i] = Some ids \<and> set ids = {x. below (tree_rows (own_folders env folders)) i x}"
proof -
  let ?K = "kid_edges (child_ids env folders)" and ?E = "edges (own_folders env folders)"
  have K: "(p, c) \<in> ?K \<longleftrightarrow> (p, c) \<in> ?E" if "p \<noteq> []" for p c
    using that q by (auto simp: kid_edges_def child_ids_def own_folders_def edges_iff)
  have ne: "c \<noteq> []" if "(p, c) \<in> ?E" for p c using that f by (auto simp: own_folders_def edges_iff forest_def)
  have 1: "(i, x) \<in> ?E\<^sup>+ \<and> x \<noteq> []" if "(i, x) \<in> ?K\<^sup>+" for x
    using that by (induction rule: trancl_induct) (use K i ne in \<open>auto intro: trancl_into_trancl\<close>)
  have 2: "(i, x) \<in> ?K\<^sup>+ \<and> x \<noteq> []" if "(i, x) \<in> ?E\<^sup>+" for x
    using that by (induction rule: trancl_induct) (use K i ne in \<open>auto intro: trancl_into_trancl\<close>)
  obtain new where "collect (child_ids env folders) [i] [i] = Some ([i] @ new)" "\<forall>x. x \<in> set new \<longleftrightarrow> (i, x) \<in> ?K\<^sup>+"
    using collect_terminates [OF kid_edges_forest [OF f, of env], of "[i]" "[i]"] by auto
  then show ?thesis using 1 2 by (auto simp: below_def rtrancl_eq_or_trancl)
qed

text \<open>The user's files of the folders \<open>S\<close> go to the trash.\<close>

definition trashed_rows :: "int \<Rightarrow> string \<Rightarrow> string set \<Rightarrow> FileRecord list \<Rightarrow> FileRecord list" where
  "trashed_rows user dest S files =
     map (\<lambda>r. if f_folder r \<in> S \<and> f_owner r = user then r\<lparr>f_deleted := True, f_folder := dest\<rparr> else r) files"

lemma trashed_rows_insert:
  "dest \<notin> S \<Longrightarrow> trashed_rows user dest S (trashed_rows user dest {f} files) = trashed_rows user dest (insert f S) files"
  by (auto simp: trashed_rows_def)

lemma trash_folders:
  assumes "\<And>f. \<not> fe_sql env (UpdateFiles f)" and "(if v then ''f2'' else []) \<notin> set ids"
  shows "fold (trash_folder env v) ids files = trashed_rows (fe_user env) (if v then ''f2'' else []) (set ids) files"
  using assms(2)
proof (induction ids arbitrary: files)
  case (Cons f ids)
  let ?dest = "if v then ''f2'' else []"
  have t: "trash_folder env v f files = trashed_rows (fe_user env) ?dest {f} files"
    using Cons.prems(1) assms(1) by (simp add: trash_folder_def trashed_rows_def)
  with Cons.IH [of "trashed_rows (fe_user env) ?dest {f} files"] Cons.prems trashed_rows_insert [of ?dest "set ids" _ f files]
  show ?case by (simp add: t)
qed (simp add: trashed_rows_def)

lemma below_trans: "below rows a b \<Longrightarrow> below rows b c \<Longrightarrow> below rows a c"
  by (auto simp: below_def)

lemma below_mono: "set rows' \<subseteq> set rows \<Longrightarrow> below rows' a b \<Longrightarrow> below rows a b"
  unfolding below_def by (erule rtrancl_mono [THEN subsetD, rotated]) (auto simp: vault_edges_def children_of_def)

text \<open>The deletions, in whatever order, remove the folders below \<open>i\<close>, whoever owns them, with the files still inside. What
  has gone is closed: nothing below a deleted folder is left.\<close>

definition closed_below :: "FolderRecord list \<Rightarrow> string set \<Rightarrow> bool" where
  "closed_below folders D \<longleftrightarrow> (\<forall>p c. (p, c) \<in> edges folders \<longrightarrow> p \<in> D \<longrightarrow> c \<in> D)"

lemma closed_all: "closed_below folders D \<Longrightarrow> i \<in> D \<Longrightarrow> below (tree_rows folders) i x \<Longrightarrow> x \<in> D"
  unfolding below_def by (erule rtrancl_induct) (auto simp: closed_below_def)

lemma delete_one:
  assumes own: "list_ex (own_folder env f) folders" and q: "\<not> fe_sql env (DeleteFolders f)"
    and D: "closed_below folders D" "D \<subseteq> {x. below (tree_rows folders) i x}" "below (tree_rows folders) i f"
  shows "\<exists>D'. delete_folder env f (filter (\<lambda>r. f_folder r \<notin> D) files, filter (\<lambda>r. fd_id r \<notin> D) folders) =
      (filter (\<lambda>r. f_folder r \<notin> D') files, filter (\<lambda>r. fd_id r \<notin> D') folders) \<and>
      insert f D \<subseteq> D' \<and> D' \<subseteq> {x. below (tree_rows folders) i x} \<and> closed_below folders D'"
proof -
  let ?rows = "filter (\<lambda>r. fd_id r \<notin> D) folders"
  let ?gone = "{x. below (tree_rows ?rows) f x}"
  show ?thesis
  proof (cases "list_ex (own_folder env f) ?rows")
    case False
    then have "f \<in> D" using own by (auto simp: list_ex_iff own_folder_def)
    with False D show ?thesis by (intro exI [of _ D]) (auto simp: delete_folder_def)
  next
    case True
    have "set (tree_rows ?rows) \<subseteq> set (tree_rows folders)" by (auto simp: tree_rows_def)
    then have gone: "?gone \<subseteq> {x. below (tree_rows folders) i x}" using below_mono below_trans D(3) by blast
    have step: "c \<in> D \<union> ?gone" if "(p, c) \<in> edges folders" "p \<in> ?gone" for p c
    proof (cases "c \<in> D")
      case False
      then have "(p, c) \<in> edges ?rows" using that(1) by (auto simp: edges_iff)
      then show ?thesis using that(2) by (auto simp: below_def intro: rtrancl_into_rtrancl)
    qed simp
    have "delete_folder env f (filter (\<lambda>r. f_folder r \<notin> D) files, ?rows) =
        (filter (\<lambda>r. f_folder r \<notin> D \<union> ?gone) files, filter (\<lambda>r. fd_id r \<notin> D \<union> ?gone) folders)"
      using True q by (simp add: delete_folder_def Let_def bfs_below conj_commute)
    moreover have "f \<in> ?gone" by (simp add: below_def)
    moreover have "closed_below folders (D \<union> ?gone)" using D(1) step by (auto simp: closed_below_def)
    ultimately show ?thesis using gone D(2) by (intro exI [of _ "D \<union> ?gone"]) auto
  qed
qed

lemma delete_folders_exact:
  assumes q: "\<And>f. \<not> fe_sql env (DeleteFolders f)"
    and ids: "\<And>f. f \<in> set ids \<Longrightarrow> list_ex (own_folder env f) folders \<and> below (tree_rows folders) i f"
    and D: "closed_below folders D" "D \<subseteq> {x. below (tree_rows folders) i x}"
  shows "\<exists>D'. fold (delete_folder env) ids (filter (\<lambda>r. f_folder r \<notin> D) files, filter (\<lambda>r. fd_id r \<notin> D) folders) =
      (filter (\<lambda>r. f_folder r \<notin> D') files, filter (\<lambda>r. fd_id r \<notin> D') folders) \<and>
      D \<union> set ids \<subseteq> D' \<and> D' \<subseteq> {x. below (tree_rows folders) i x} \<and> closed_below folders D'"
  using ids D
proof (induction ids arbitrary: D)
  case (Cons f ids)
  obtain D1 where D1: "delete_folder env f (filter (\<lambda>r. f_folder r \<notin> D) files, filter (\<lambda>r. fd_id r \<notin> D) folders) =
      (filter (\<lambda>r. f_folder r \<notin> D1) files, filter (\<lambda>r. fd_id r \<notin> D1) folders)"
    "insert f D \<subseteq> D1" "D1 \<subseteq> {x. below (tree_rows folders) i x}" "closed_below folders D1"
    using delete_one [OF _ q Cons.prems(2,3), of f files] Cons.prems(1) by auto
  from Cons.IH [OF _ D1(4,3)] Cons.prems(1) obtain D' where
    "fold (delete_folder env) ids (filter (\<lambda>r. f_folder r \<notin> D1) files, filter (\<lambda>r. fd_id r \<notin> D1) folders) =
      (filter (\<lambda>r. f_folder r \<notin> D') files, filter (\<lambda>r. fd_id r \<notin> D') folders)"
    "D1 \<union> set ids \<subseteq> D'" "D' \<subseteq> {x. below (tree_rows folders) i x}" "closed_below folders D'" by auto
  with D1(1,2) show ?case by (intro exI [of _ D']) auto
qed auto

lemma own_below: "below (tree_rows (own_folders env folders)) i x \<Longrightarrow> below (tree_rows folders) i x"
  by (erule below_mono [rotated]) (auto simp: tree_rows_def own_folders_def)

lemma own_below_row:
  assumes "below (tree_rows (own_folders env folders)) i x" "list_ex (own_folder env i) folders"
  shows "list_ex (own_folder env x) folders"
  using assms unfolding below_def
  by (cases rule: rtrancl.cases) (auto simp: edges_iff own_folders_def list_ex_iff own_folder_def)

lemma DeleteFolder_result:
  assumes inv: "forest (fc_folders st)" "vault_ok st" and q: "\<And>s. \<not> fe_sql env s"
    and i: "list_ex (own_folder env i) (fc_folders st)" "\<not> preset_folder i"
    and unlocked: "fc_in_vault st i \<Longrightarrow> isVaultUnlocked env"
  shows "\<exists>st'. DeleteFolder env i st = Some (st', FolderDeleted) \<and>
     fc_files st' = filter (\<lambda>r. \<not> below (tree_rows (fc_folders st)) i (f_folder r))
       (trashed_rows (fe_user env) (if fc_in_vault st i then ''f2'' else [])
         {x. below (tree_rows (own_folders env (fc_folders st))) i x} (fc_files st)) \<and>
     fc_folders st' = filter (\<lambda>r. \<not> below (tree_rows (fc_folders st)) i (fd_id r)) (fc_folders st) \<and>
     \<not> below (tree_rows (fc_folders st)) i (if fc_in_vault st i then ''f2'' else [])"
proof -
  let ?rows = "tree_rows (fc_folders st)" and ?own = "tree_rows (own_folders env (fc_folders st))"
  let ?S = "{x. below ?rows i x}" and ?v = "fc_in_vault st i"
  have i0: "i \<noteq> []" using i(1) inv(1) by (auto simp: forest_def list_ex_iff own_folder_def)
  obtain st1 b where g: "vault_guard env i st = (st1, b)" by fastforce
  note o1 = vault_guard_ok [OF inv(2) q g]
  obtain st2 v where v: "fc_IsVaultFolder env i st1 = (st2, v)" by fastforce
  note o2 = fc_IsVaultFolder_ok [OF o1(2) q v]
  have vv: "v = ?v" using o2(1) o1(3) by simp
  obtain ids where ids: "collect (child_ids env (fc_folders st)) [i] [i] = Some ids" "set ids = {x. below ?own i x}"
    using collect_below [OF inv(1) q i0] by blast
  have dest: "(if ?v then ''f2'' else []) \<notin> ?S"
  proof (cases ?v)
    case True
    have "i \<noteq> ''f2''" using i(2) by (simp add: preset_folder_def)
    then have "(''f2'', i) \<in> (edges (fc_folders st))\<^sup>+" using True by (auto simp: in_vault_def rtrancl_eq_or_trancl)
    then have "(i, ''f2'') \<notin> (edges (fc_folders st))\<^sup>*" using inv(1) by (auto simp: forest_def acyclic_def dest: trancl_rtrancl_trancl)
    then show ?thesis using True by (simp add: below_def)
  next
    case False
    have "(p, []) \<notin> edges (fc_folders st)" for p using inv(1) by (auto simp: edges_iff forest_def)
    then show ?thesis using False i0 by (auto simp: below_def elim: rtranclE)
  qed
  let ?files = "trashed_rows (fe_user env) (if ?v then ''f2'' else []) {x. below ?own i x} (fc_files st)"
  have "(if v then ''f2'' else []) \<notin> set ids" using dest own_below ids(2) by (auto simp: vv)
  then have t: "fold (trash_folder env v) ids (fc_files st) = ?files"
    using trash_folders [OF q] by (simp add: vv ids(2))
  have each: "list_ex (own_folder env f) (fc_folders st) \<and> below ?rows i f" if "f \<in> set (rev ids)" for f
    using that ids(2) own_below own_below_row [OF _ i(1)] by auto
  obtain D where D: "fold (delete_folder env) (rev ids) (?files, fc_folders st) =
      (filter (\<lambda>r. f_folder r \<notin> D) ?files, filter (\<lambda>r. fd_id r \<notin> D) (fc_folders st))" "set ids \<subseteq> D" "D \<subseteq> ?S"
    "closed_below (fc_folders st) D"
  proof -
    have "closed_below (fc_folders st) {}" by (simp add: closed_below_def)
    from delete_folders_exact [where env = env and ids = "rev ids" and files = ?files, OF q each this] that show thesis by auto
  qed
  have "i \<in> D" using D(2) ids(2) by (auto simp: below_def)
  then have "D = ?S" using D(3) closed_all [OF D(4)] by blast
  then have d: "fold (delete_folder env) (rev ids) (?files, fc_folders st) =
      (filter (\<lambda>r. \<not> below ?rows i (f_folder r)) ?files, filter (\<lambda>r. \<not> below ?rows i (fd_id r)) (fc_folders st))"
    using D(1) by simp
  have "DeleteFolder env i st = Some (invalidated (st2\<lparr>fc_files := filter (\<lambda>r. \<not> below ?rows i (f_folder r)) ?files,
      fc_folders := filter (\<lambda>r. \<not> below ?rows i (fd_id r)) (fc_folders st)\<rparr>), FolderDeleted)"
    using o1 o2 q i unlocked ids(1) t d g v by (auto simp: DeleteFolder_def)
  then show ?thesis using dest by simp
qed

section \<open>Properties\<close>

text \<open>C11: in every state the drive's handlers can reach (any sequence of deletions, restores, moves, renames and folder operations by any
  users, with any statement or call failing except the count of references, the folder query and file removal), every
  row still has its blob, stored under the SHA-256 of its contents (unless the blob was missing at the start), the vault
  cache agrees with the folder table, and the folder table is a forest.\<close>

theorem drive_invariant:
  assumes "fc_step\<^sup>*\<^sup>* st st'" "drive_inv M st"
  shows "drive_inv M st'"
  using assms by (induction rule: rtranclp_induct) (auto intro: fc_step_inv)

theorem drive_invariant_witness:
  "let st = ex_store\<lparr>fc_folders := []\<rparr>; st' = fst (CreateFolder ex_fenv ''x'' ''root'' st)
   in fc_step\<^sup>*\<^sup>* st st' \<and> drive_inv {} st \<and> drive_inv {} st'"
proof -
  let ?st = "ex_store\<lparr>fc_folders := []\<rparr>"
  let ?st' = "fst (CreateFolder ex_fenv ''x'' ''root'' ?st)"
  have "served ex_fenv" by (simp add: served_def orderly_def ex_fenv_def)
  then have "fc_step ?st ?st'" using create_folder [of ex_fenv "''x''" "''root''" ?st] by (metis prod.collapse)
  then have s: "fc_step\<^sup>*\<^sup>* ?st ?st'" by blast
  have v: "vault_ok ?st"
    by (simp add: vault_ok_def cache_ok_def presets_ok_def tree_rows_def ex_store_def ex_drive_def Let_def)
  have "rows_stored {} ?st"
    using ex_store_ok(2,3) by (simp add: rows_stored_def refs_def) (simp add: ex_store_def ex_file_def Let_def)
  then have i: "drive_inv {} ?st" using v by (simp add: drive_inv_def forest_def tree_rows_def vault_edges_def children_of_def acyclic_def)
  show ?thesis using drive_invariant [OF s i] s i by (simp add: Let_def)
qed

text \<open>C13: deleting one of the user's folders returns, on every forest of folders of any number of users, and is exact when no
  statement fails. Exactly the folder and all folders below it are removed, whoever owns them. Every file of the user in the
  folder, or in a folder below it that is reached through folders of the user alone, is moved to the trash, at the root
  or, for a folder of the vault, in the vault's own folder. The other files inside go with their folders, and all other files
  stay as they are: when everything inside belongs to the user, no file is lost.\<close>

theorem DeleteFolder_exact:
  assumes inv: "forest (fc_folders st)" "vault_ok st" and q: "\<And>s. \<not> fe_sql env s"
    and i: "list_ex (own_folder env i) (fc_folders st)" "\<not> preset_folder i"
    and unlocked: "fc_in_vault st i \<Longrightarrow> isVaultUnlocked env"
  shows "\<exists>st'. DeleteFolder env i st = Some (st', FolderDeleted) \<and>
     fc_files st' = filter (\<lambda>r. \<not> below (tree_rows (fc_folders st)) i (f_folder r))
       (map (\<lambda>r. if below (tree_rows (own_folders env (fc_folders st))) i (f_folder r) \<and> f_owner r = fe_user env
                then r\<lparr>f_deleted := True, f_folder := (if fc_in_vault st i then ''f2'' else [])\<rparr> else r) (fc_files st)) \<and>
     fc_folders st' = filter (\<lambda>r. \<not> below (tree_rows (fc_folders st)) i (fd_id r)) (fc_folders st) \<and>
     ((\<forall>r \<in> set (fc_files st). below (tree_rows (fc_folders st)) i (f_folder r) \<longrightarrow>
         f_owner r = fe_user env \<and> below (tree_rows (own_folders env (fc_folders st))) i (f_folder r)) \<longrightarrow>
       length (fc_files st') = length (fc_files st))"
proof -
  let ?t = "\<lambda>r. if below (tree_rows (own_folders env (fc_folders st))) i (f_folder r) \<and> f_owner r = fe_user env
      then r\<lparr>f_deleted := True, f_folder := (if fc_in_vault st i then ''f2'' else [])\<rparr> else r"
  obtain st' where r: "DeleteFolder env i st = Some (st', FolderDeleted)"
    "fc_files st' = filter (\<lambda>r. \<not> below (tree_rows (fc_folders st)) i (f_folder r)) (map ?t (fc_files st))"
    "fc_folders st' = filter (\<lambda>r. \<not> below (tree_rows (fc_folders st)) i (fd_id r)) (fc_folders st)"
    "\<not> below (tree_rows (fc_folders st)) i (if fc_in_vault st i then ''f2'' else [])"
    using DeleteFolder_result [OF assms] by (auto simp: trashed_rows_def)
  have "fc_files st' = map ?t (fc_files st)"
    if "\<forall>r \<in> set (fc_files st). below (tree_rows (fc_folders st)) i (f_folder r) \<longrightarrow>
         f_owner r = fe_user env \<and> below (tree_rows (own_folders env (fc_folders st))) i (f_folder r)"
    unfolding r(2) filter_id_conv using that r(4) by auto
  then have "length (fc_files st') = length (fc_files st)"
    if "\<forall>r \<in> set (fc_files st). below (tree_rows (fc_folders st)) i (f_folder r) \<longrightarrow>
         f_owner r = fe_user env \<and> below (tree_rows (own_folders env (fc_folders st))) i (f_folder r)"
    using that by simp
  with r(1-3) show ?thesis by blast
qed

text \<open>the files of another user in the folder are lost: the rows are deleted by the foreign key, not moved to the trash.\<close>

theorem DeleteFolder_loses_foreign_files:
  assumes "forest (fc_folders st)" "vault_ok st" "\<And>s. \<not> fe_sql env s" "list_ex (own_folder env i) (fc_folders st)"
    "\<not> preset_folder i" "fc_in_vault st i \<Longrightarrow> isVaultUnlocked env"
    and "r \<in> set (fc_files st)" "f_folder r = i" "f_owner r \<noteq> fe_user env" "distinct (map f_id (fc_files st))"
  shows "\<exists>st'. DeleteFolder env i st = Some (st', FolderDeleted) \<and> f_id r \<notin> f_id ` set (fc_files st')"
proof -
  let ?t = "trashed_rows (fe_user env) (if fc_in_vault st i then ''f2'' else [])
      {x. below (tree_rows (own_folders env (fc_folders st))) i x} (fc_files st)"
  obtain st' where d: "DeleteFolder env i st = Some (st', FolderDeleted)"
    "fc_files st' = filter (\<lambda>r. \<not> below (tree_rows (fc_folders st)) i (f_folder r)) ?t"
    using DeleteFolder_result [OF assms(1-6)] by blast
  have "f_id r \<notin> f_id ` set (fc_files st')"
  proof
    assume "f_id r \<in> f_id ` set (fc_files st')"
    then obtain r' where r': "r' \<in> set ?t" "f_id r' = f_id r" "\<not> below (tree_rows (fc_folders st)) i (f_folder r')"
      by (auto simp: d(2))
    then obtain r0 where r0: "r0 \<in> set (fc_files st)" "f_id r0 = f_id r'" "r' = r0 \<or> f_owner r0 = fe_user env"
      by (auto simp: trashed_rows_def split: if_splits)
    then have "r0 = r" using assms(7,10) r'(2) by (auto simp: distinct_map inj_on_def)
    then show False using r0(3) r'(3) assms(8,9) by (auto simp: below_def)
  qed
  with d(1) show ?thesis by blast
qed

definition ex_tree :: FileController where
  "ex_tree =
     ex_drive\<lparr>fc_folders := [\<lparr>fd_id = ''d'', fd_owner = 1, fd_parent = [], fd_name = ''docs''\<rparr>,
                            \<lparr>fd_id = ''e'', fd_owner = 1, fd_parent = ''d'', fd_name = ''sub''\<rparr>,
                            \<lparr>fd_id = ''g'', fd_owner = 2, fd_parent = [], fd_name = ''other''\<rparr>],
              fc_files := [ex_file ''a'' ''e'' ''h1'', ex_file ''b'' ''g'' ''h2'', (ex_file ''c'' ''e'' ''h3'')\<lparr>f_owner := 2\<rparr>]\<rparr>"

lemma ex_tree_edges: "edges (fc_folders ex_tree) = {(''d'', ''e'')}" "edges (own_folders ex_fenv (fc_folders ex_tree)) = {(''d'', ''e'')}"
  by (rule set_eqI; auto simp: ex_tree_def ex_fenv_def own_folders_def edges_iff)+

lemma ex_tree_below:
  "below (tree_rows (fc_folders ex_tree)) ''d'' x \<longleftrightarrow> x \<in> {''d'', ''e''}"
  "below (tree_rows (own_folders ex_fenv (fc_folders ex_tree))) ''d'' x \<longleftrightarrow> x \<in> {''d'', ''e''}"
proof -
  have "{(''d'', ''e'')}\<^sup>* = {(''d'', ''e'')}\<^sup>="
    by (intro rtrancl_trancl_reflcl [THEN trans]) (auto simp: trancl_id trans_def)
  then show "below (tree_rows (fc_folders ex_tree)) ''d'' x \<longleftrightarrow> x \<in> {''d'', ''e''}"
    "below (tree_rows (own_folders ex_fenv (fc_folders ex_tree))) ''d'' x \<longleftrightarrow> x \<in> {''d'', ''e''}"
    by (auto simp: below_def ex_tree_edges)
qed

theorem DeleteFolder_exact_witness:
  "\<exists>st'. DeleteFolder ex_fenv ''d'' ex_tree = Some (st', FolderDeleted) \<and>
     fc_files st' = [(ex_file ''a'' [] ''h1'')\<lparr>f_deleted := True\<rparr>, ex_file ''b'' ''g'' ''h2''] \<and>
     map fd_id (fc_folders st') = [''g'']"
proof -
  have v: "vault_ok ex_tree"
    by (simp add: vault_ok_def ex_tree_def ex_drive_def cache_ok_def presets_ok_def tree_rows_def has_parent_def)
  have nv: "\<not> fc_in_vault ex_tree ''d''"
    unfolding in_vault_def ex_tree_edges by (auto elim: rtranclE)
  have f: "forest (fc_folders ex_tree)"
    unfolding forest_def ex_tree_edges by (auto simp: ex_tree_def acyclic_def trancl_id trans_def)
  have i: "list_ex (own_folder ex_fenv ''d'') (fc_folders ex_tree)" "\<not> preset_folder ''d''"
    by (simp_all add: ex_tree_def ex_fenv_def own_folder_def preset_folder_def)
  have u: "fe_user ex_fenv = 1" by (simp add: ex_fenv_def)
  from DeleteFolder_exact [OF f v ex_drive_vault_ok(2) i] nv
  show ?thesis
    by (auto simp: ex_tree_below u) (simp_all add: ex_tree_def ex_file_def)
qed

end
