(* ===== verification/Zip_Stream.thy ===== *)
theory Zip_Stream
  imports File_Download Folder_Operations Download_Links
begin

text \<open>
  Downloading a folder: \<^verbatim>\<open>internal/controllers/zip_stream.go\<close>. The archive is the list of its directory names and of its
  entries, each with the bytes written into it; the format belongs to \<^verbatim>\<open>archive/zip\<close>. The loop over the folder table keeps
  no set of visited folders and is a partial function. The order of the rows of a query is a parameter.
\<close>

section \<open>Names\<close>

fun strip_dots :: "string \<Rightarrow> string" where
  "strip_dots (a # b # s) = (if a = CHR ''.'' \<and> b = CHR ''.'' then strip_dots s else a # b # s)"
| "strip_dots s = s"

definition sanitizeZipSegment :: "string \<Rightarrow> string" where
  "sanitizeZipSegment name0 =
     (let name = ReplaceAll name0 (CHR 0x5C) ''_'';
          name = ReplaceAll name (CHR ''/'') ''_'';
          name = ReplaceAll name (CHR 0x00) [];
          name = ReplaceAll name (CHR 0x0D) [];
          name = ReplaceAll name (CHR 0x0A) [];
          name = strip_dots (TrimSpace name);
          name = TrimPrefix (path_Clean (CHR ''/'' # name)) ''/''
      in if name = [] \<or> name = ''.'' then ''unnamed'' else name)"

definition sanitizeHeaderFilename :: "string \<Rightarrow> string" where
  "sanitizeHeaderFilename name =
     (let safe = ReplaceAll name (CHR 0x22) ''_'';
          safe = ReplaceAll safe (CHR 0x5C) ''_'';
          safe = ReplaceAll safe (CHR ''/'') ''_'';
          safe = ReplaceAll safe (CHR '' '') ''_'';
          safe = ReplaceAll safe (CHR 0x0D) [];
          safe = ReplaceAll safe (CHR 0x0A) [];
          safe = TrimSpace safe
      in if safe = [] then ''folder'' else safe)"

definition compressed_exts :: "string list" where
  "compressed_exts =
     [''.zip'', ''.gz'', ''.tgz'', ''.bz2'', ''.xz'', ''.7z'', ''.rar'', ''.zst'', ''.mp4'', ''.mkv'', ''.avi'', ''.mov'', ''.webm'', ''.flv'', ''.m4v'',
      ''.mp3'', ''.ogg'', ''.wav'', ''.aac'', ''.flac'', ''.m4a'', ''.opus'', ''.jpg'', ''.jpeg'', ''.png'', ''.gif'', ''.webp'', ''.avif'',
      ''.docx'', ''.xlsx'', ''.pptx'', ''.odt'', ''.ods'', ''.odp'']"

definition isPrecompressedFile :: "(string \<Rightarrow> string) \<Rightarrow> string \<Rightarrow> string \<Rightarrow> bool" where
  "isPrecompressedFile uni mime0 filename \<longleftrightarrow>
     ToLower uni (path_Ext filename) \<in> set compressed_exts \<or>
     (let mime = ToLower uni mime0 in
      list_ex (HasPrefix mime) [''video/'', ''audio/'', ''image/jpeg'', ''image/png'', ''image/webp'', ''image/gif''] \<or>
      list_ex (Contains mime) [''zip'', ''gzip'', ''compressed''])"

text \<open>\<open>parse\<close> is \<^verbatim>\<open>time.Parse\<close>; the first layout is the constant \<^verbatim>\<open>time.RFC3339\<close>.\<close>

definition parseFileTime :: "instant \<Rightarrow> (string \<Rightarrow> string \<Rightarrow> instant option) \<Rightarrow> string \<Rightarrow> instant" where
  "parseFileTime now parse s =
     (if s = [] then now
      else case parse ''2006-01-02T15:04:05Z07:00'' s of
        Some t \<Rightarrow> t
      | None \<Rightarrow>
          (case parse ''2006-01-02 15:04:05'' s of
             Some t \<Rightarrow> t
           | None \<Rightarrow> (case parse ''2006-01-02T15:04:05Z'' s of Some t \<Rightarrow> t | None \<Rightarrow> now)))"

section \<open>The folders\<close>

record folderTreeItem =
  ti_id :: string
  ti_name :: string
  ti_relPath :: string

definition zip_children :: "(string \<Rightarrow> (string \<times> string) list) \<Rightarrow> folderTreeItem \<Rightarrow> folderTreeItem list" where
  "zip_children kids cur =
     map (\<lambda>(i, n). \<lparr>ti_id = i, ti_name = n, ti_relPath = path_Join [ti_relPath cur, sanitizeZipSegment n]\<rparr>) (kids (ti_id cur))"

partial_function (option) zip_tree ::
  "(string \<Rightarrow> (string \<times> string) list) \<Rightarrow> folderTreeItem list \<Rightarrow> folderTreeItem list \<Rightarrow> folderTreeItem list option" where
  "zip_tree kids queue allFolders =
     (case queue of
        [] \<Rightarrow> Some allFolders
      | cur # rest \<Rightarrow> zip_tree kids (rest @ zip_children kids cur) (allFolders @ [cur]))"

section \<open>The files\<close>

record ZipEnv =
  ze_folderRows :: "FolderRecord list \<Rightarrow> FolderRecord list" \<comment> \<open>\<^verbatim>\<open>ORDER BY name ASC\<close>\<close>
  ze_fileRows :: "FileRecord list \<Rightarrow> FileRecord list"
  ze_filesFail :: "string \<Rightarrow> bool"
  ze_dirFails :: "string \<Rightarrow> bool"
  ze_entryFails :: "string \<Rightarrow> bool"
  ze_gone :: "nat \<Rightarrow> bool" \<comment> \<open>the client has left before this file\<close>
  ze_closeFails :: bool
  ze_head :: bool
  ze_uni :: "string \<Rightarrow> string"
  ze_escape :: "string \<Rightarrow> string"
  ze_timeParse :: "string \<Rightarrow> string \<Rightarrow> instant option"

definition zip_kids :: "FileEnv \<Rightarrow> ZipEnv \<Rightarrow> FolderRecord list \<Rightarrow> string \<Rightarrow> (string \<times> string) list" where
  "zip_kids env ze folders cur =
     (if fe_sql env (SelectChildren cur) then []
      else map (\<lambda>r. (fd_id r, fd_name r)) (ze_folderRows ze (filter (\<lambda>r. fd_parent r = cur \<and> fd_owner r = fe_user env) folders)))"

definition zip_rows :: "FileEnv \<Rightarrow> ZipEnv \<Rightarrow> FileRecord list \<Rightarrow> string \<Rightarrow> FileRecord list" where
  "zip_rows env ze files fld =
     (if ze_filesFail ze fld then []
      else ze_fileRows ze (filter (\<lambda>r. f_folder r = fld \<and> f_owner r = fe_user env \<and> \<not> f_deleted r) files))"

text \<open>The path of a file; \<open>seen\<close> is the map \<^verbatim>\<open>seenPaths\<close>.\<close>

definition zip_path :: "string \<Rightarrow> (string \<rightharpoonup> int) \<Rightarrow> string \<Rightarrow> (string \<rightharpoonup> int) \<times> string" where
  "zip_path relPath seen name =
     (let cleanFileName = sanitizeZipSegment name; rawPath = path_Join [relPath, cleanFileName] in
      case seen rawPath of
        Some dups \<Rightarrow>
          let ext = path_Ext cleanFileName; base = TrimSuffix cleanFileName ext
          in (seen(rawPath \<mapsto> dups + 1), path_Join [relPath, base @ '' ('' @ Itoa dups @ '')'' @ ext])
      | None \<Rightarrow> (seen(rawPath \<mapsto> 1), rawPath))"

fun zip_folder :: "string \<Rightarrow> (string \<rightharpoonup> int) \<Rightarrow> FileRecord list \<Rightarrow> (string \<rightharpoonup> int) \<times> (FileRecord \<times> string) list" where
  "zip_folder relPath seen [] = (seen, [])"
| "zip_folder relPath seen (r # rs) =
     (case zip_path relPath seen (f_name r) of (seen1, p) \<Rightarrow>
        (case zip_folder relPath seen1 rs of (seen2, es) \<Rightarrow> (seen2, (r, p) # es)))"

fun zip_files :: "(string \<Rightarrow> FileRecord list) \<Rightarrow> (string \<rightharpoonup> int) \<Rightarrow> folderTreeItem list \<Rightarrow> (FileRecord \<times> string) list" where
  "zip_files rows seen [] = []"
| "zip_files rows seen (fld # flds) =
     (case zip_folder (ti_relPath fld) seen (rows (ti_id fld)) of (seen1, es) \<Rightarrow> es @ zip_files rows seen1 flds)"

section \<open>The archive\<close>

record ZipEntry =
  en_path :: string
  en_stored :: bool
  en_modified :: instant
  en_body :: bytes

datatype zip_end = ZipClosed | ZipUnclosed | ClientGone

datatype zip_response =
    ZipError int
  | ZipHeaders string bool
  | ZipBroken "string list"
  | ZipArchive "string list" "ZipEntry list" zip_end

definition streamFileToZipEntry :: "FileEnv \<Rightarrow> FileRecord \<Rightarrow> bool \<Rightarrow> bytes \<Rightarrow> FileController \<Rightarrow> bytes" where
  "streamFileToZipEntry env r isVault vk st =
     (case blob_file env (f_cas r) st of
        None \<Rightarrow> bytes_of_string (''Decrypted Content of '' @ f_name r)
      | Some f \<Rightarrow>
          (case openContentReader f isVault vk 0 of
             None \<Rightarrow> bytes_of_string (''[Error: Could not decrypt file '' @ f_name r @ '']'')
           | Some c \<Rightarrow> fst (copy_content None c)))"

definition zip_entry :: "FileEnv \<Rightarrow> ZipEnv \<Rightarrow> bool \<Rightarrow> bytes \<Rightarrow> FileController \<Rightarrow> FileRecord \<times> string \<Rightarrow> ZipEntry" where
  "zip_entry env ze isVault vk st = (\<lambda>(r, p).
     \<lparr>en_path = p, en_stored = isPrecompressedFile (ze_uni ze) (f_mime r) (f_name r),
      en_modified = parseFileTime (fe_now env) (ze_timeParse ze) (f_created r),
      en_body = streamFileToZipEntry env r isVault vk st\<rparr>)"

fun zip_entries :: "ZipEnv \<Rightarrow> (FileRecord \<times> string \<Rightarrow> ZipEntry) \<Rightarrow> nat \<Rightarrow> (FileRecord \<times> string) list \<Rightarrow> ZipEntry list \<times> zip_end" where
  "zip_entries ze enter k [] = ([], if ze_closeFails ze then ZipUnclosed else ZipClosed)"
| "zip_entries ze enter k (x # xs) =
     (if ze_gone ze k then ([], ClientGone)
      else
        case zip_entries ze enter (Suc k) xs of
          (es, e) \<Rightarrow> (if ze_entryFails ze (snd x) then es else enter x # es, e))"

definition zip_disposition :: "ZipEnv \<Rightarrow> string \<Rightarrow> string" where
  "zip_disposition ze name =
     ''attachment; filename='' @ [CHR 0x22] @ sanitizeHeaderFilename name @ ''.zip'' @ [CHR 0x22] @ ''; filename*=UTF-8'' @
     [CHR 0x27, CHR 0x27] @ ze_escape ze name @ ''.zip''"

definition root_item :: "FolderRecord \<Rightarrow> folderTreeItem" where
  "root_item f =
     (let clean = sanitizeZipSegment (fd_name f)
      in \<lparr>ti_id = fd_id f, ti_name = fd_name f, ti_relPath = (if clean = [] then ''folder'' else clean)\<rparr>)"

definition zip_archive :: "FileEnv \<Rightarrow> ZipEnv \<Rightarrow> bool \<Rightarrow> bytes \<Rightarrow> folderTreeItem list \<Rightarrow> FileController \<Rightarrow> zip_response" where
  "zip_archive env ze isVault vk allFolders st =
     (let dirs = map (\<lambda>fld. ti_relPath fld @ ''/'') allFolders in
      if list_ex (ze_dirFails ze) dirs then ZipBroken (takeWhile (\<lambda>d. \<not> ze_dirFails ze d) dirs)
      else
        case zip_entries ze (zip_entry env ze isVault vk st) 0 (zip_files (zip_rows env ze (fc_files st)) Map.empty allFolders) of
          (es, e) \<Rightarrow> ZipArchive dirs es e)"

definition DownloadFolder :: "FileEnv \<Rightarrow> ZipEnv \<Rightarrow> string \<Rightarrow> FileController \<Rightarrow> (FileController \<times> zip_response) option" where
  "DownloadFolder env ze folderID st =
     (case (if fe_sql env (SelectFolder folderID) then None else find (own_folder env folderID) (fc_folders st)) of
        None \<Rightarrow> Some (st, ZipError 404)
      | Some rootFolder \<Rightarrow>
          (case fc_IsVaultFolder env folderID st of (st, isVault) \<Rightarrow>
             let vk = (if isVault then vault_key env else fe_stdKey env) in
             if isVault \<and> (\<not> isVaultUnlocked env \<or> vk = []) then Some (st, ZipError 401)
             else
               (case zip_tree (zip_kids env ze (fc_folders st)) [root_item rootFolder] [] of
                  None \<Rightarrow> None
                | Some allFolders \<Rightarrow>
                    Some (st,
                      if ze_head ze then ZipHeaders (zip_disposition ze (fd_name rootFolder)) isVault
                      else zip_archive env ze isVault vk allFolders st))))"

section \<open>Paths inside the archive\<close>

definition zip_segment :: "string \<Rightarrow> bool" where
  "zip_segment n \<longleftrightarrow> plain_name n \<and> CHR 0x5C \<notin> set n"

definition zip_safe :: "string \<Rightarrow> string \<Rightarrow> bool" where
  "zip_safe root p \<longleftrightarrow> (\<exists>segs. p = Join (root # segs) ''/'' \<and> list_all zip_segment (root # segs))"

lemma set_ReplaceAll: "set (ReplaceAll s a b) \<subseteq> (set s - {a}) \<union> set b"
  by (auto simp: ReplaceAll_def split: if_splits)

lemma set_strip_dots: "set (strip_dots s) \<subseteq> set s"
  by (induction s rule: strip_dots.induct) auto

lemma strip_dots_start: "\<not> prefix ''..'' (strip_dots s)"
  by (induction s rule: strip_dots.induct) (auto simp: prefix_def)

lemma Split_rooted: "CHR ''/'' \<notin> set n \<Longrightarrow> Split (CHR ''/'' # n) (CHR ''/'') = [[], n]"
  by (simp add: Split_plain)

lemma clean_single: "n \<noteq> ''..'' \<Longrightarrow> clean_parts True [[], n] [] = (if n = [] \<or> n = ''.'' then [] else [n])"
  by simp

lemma Clean_rooted: "path_Clean (CHR ''/'' # n) = CHR ''/'' # Join (clean_parts True (Split (CHR ''/'' # n) (CHR ''/'')) []) ''/''"
  by (simp add: path_Clean_def Let_def del: Split.simps clean_parts.simps)

lemma Join_single: "Join (if n = [] \<or> n = ''.'' then [] else [n]) ''/'' = (if n = ''.'' then [] else n)"
  by (cases "n = [] \<or> n = ''.''") auto

lemma Clean_segment:
  assumes "CHR ''/'' \<notin> set n" "n \<noteq> ''..''"
  shows "TrimPrefix (path_Clean (CHR ''/'' # n)) ''/'' = (if n = ''.'' then [] else n)"
  unfolding Clean_rooted Split_rooted [OF assms(1)] clean_single [OF assms(2)] Join_single by (simp add: TrimPrefix_def)

lemma sanitize_segment: "zip_segment (sanitizeZipSegment name)"
proof -
  define n where "n = strip_dots (TrimSpace (ReplaceAll (ReplaceAll (ReplaceAll (ReplaceAll (ReplaceAll name (CHR 0x5C) ''_'')
    (CHR ''/'') ''_'') (CHR 0x00) []) (CHR 0x0D) []) (CHR 0x0A) []))"
  let ?m = "ReplaceAll (ReplaceAll name (CHR 0x5C) ''_'') (CHR ''/'') ''_''"
  have "set (ReplaceAll s a []) \<subseteq> set s" for s a using set_ReplaceAll [of s a "[]"] by auto
  then have "set n \<subseteq> set ?m"
    unfolding n_def by (meson order_trans set_strip_dots set_TrimSpace)
  then have s: "CHR ''/'' \<notin> set n" "CHR 0x5C \<notin> set n"
    using set_ReplaceAll [of "ReplaceAll name (CHR 0x5C) ''_''" "CHR ''/''" "''_''"] set_ReplaceAll [of name "CHR 0x5C" "''_''"] by auto
  have d: "n \<noteq> ''..''" using strip_dots_start unfolding n_def by (metis prefix_order.refl)
  have "sanitizeZipSegment name = (if n = [] \<or> n = ''.'' then ''unnamed'' else n)"
    unfolding sanitizeZipSegment_def Let_def n_def [symmetric] Clean_segment [OF s(1) d] by simp
  then show ?thesis using s d by (auto simp: zip_segment_def plain_name_def)
qed

lemma Join_split:
  assumes "segs \<noteq> []" "list_all plain_name segs"
  shows "Split (Join segs ''/'') (CHR ''/'') = segs \<and> Join segs ''/'' \<noteq> [] \<and> hd (Join segs ''/'') \<noteq> CHR ''/''"
  using assms
proof (induction segs rule: rev_induct)
  case (snoc n segs)
  have n: "CHR ''/'' \<notin> set n" "n \<noteq> []" "hd n \<noteq> CHR ''/''" using snoc.prems(2) by (cases n; auto simp: plain_name_def)+
  show ?case
  proof (cases "segs = []")
    case True
    then show ?thesis using n by (simp add: Split_plain)
  next
    case False
    with snoc n show ?thesis by (simp add: Join_snoc Split_append)
  qed
qed simp

lemma clean_parts_plain: "list_all plain_name segs \<Longrightarrow> clean_parts r segs out = rev out @ segs"
  by (induction segs arbitrary: out) (auto simp: plain_name_def)

lemma dir_prefix_Join: "segs \<noteq> [] \<Longrightarrow> list_all plain_name segs \<Longrightarrow> dir_prefix (Join segs ''/'') = Join segs ''/'' @ ''/''"
  using Join_split [of segs] clean_parts_plain [of segs False "[]"] by (simp add: dir_prefix_def Let_def)

lemma zip_Join:
  assumes "zip_safe root p" "zip_segment n"
  shows "path_Join [p, n] = p @ ''/'' @ n"
proof -
  obtain segs where segs: "p = Join (root # segs) ''/''" "list_all zip_segment (root # segs)" using assms(1) by (auto simp: zip_safe_def)
  then have "list_all plain_name (root # segs)" by (auto simp: list_all_iff zip_segment_def)
  then have d: "dir_prefix p = p @ ''/''" using dir_prefix_Join [of "root # segs"] unfolding segs(1) by blast
  have "path_Join [p, n] = dir_prefix p @ n" by (rule path_Join_plain) (use assms(2) in \<open>simp add: zip_segment_def\<close>)
  then show ?thesis by (simp only: d append_assoc)
qed

lemma zip_safe_Join:
  assumes "zip_safe root p" "zip_segment n"
  shows "zip_safe root (path_Join [p, n])"
proof -
  obtain segs where segs: "p = Join (root # segs) ''/''" "list_all zip_segment (root # segs)" using assms(1) by (auto simp: zip_safe_def)
  have "path_Join [p, n] = Join ((root # segs) @ [n]) ''/''" unfolding zip_Join [OF assms] unfolding segs(1) Join_snoc by simp
  then show ?thesis using segs(2) assms(2) by (auto simp: zip_safe_def simp del: path_Join.simps intro: exI [of _ "segs @ [n]"])
qed

lemma Itoa_chars: "c \<in> set (Itoa i) \<Longrightarrow> c = CHR ''-'' \<or> is_digit c"
  using is_digit_nat_digits [of "nat i"] is_digit_nat_digits [of "nat (- i)"] by (auto simp: Itoa_def list_all_iff split: if_splits)

lemma set_path_Ext: "set (path_Ext s) \<subseteq> insert (CHR ''.'') (set s)"
  unfolding path_Ext_def after_last_slash_def Let_def by (auto dest!: set_takeWhileD)

lemma numbered_segment:
  assumes "zip_segment n"
  shows "zip_segment (TrimSuffix n (path_Ext n) @ '' ('' @ Itoa k @ '')'' @ path_Ext n)"
proof -
  let ?m = "TrimSuffix n (path_Ext n) @ '' ('' @ Itoa k @ '')'' @ path_Ext n"
  have "set (TrimSuffix n (path_Ext n)) \<subseteq> set n" by (auto simp: TrimSuffix_def dest: in_set_takeD)
  moreover have "CHR ''/'' \<notin> set (Itoa k)" "CHR 0x5C \<notin> set (Itoa k)" 
    using Itoa_chars [of "CHR ''/''" k] Itoa_chars [of "CHR 0x5C" k] by (auto simp: is_digit_def less_eq_char_def)
  ultimately have "CHR ''/'' \<notin> set ?m" "CHR 0x5C \<notin> set ?m" using set_path_Ext [of n] assms by (auto simp: zip_segment_def plain_name_def)
  moreover have "CHR '' '' \<in> set ?m" by simp
  then have "?m \<noteq> ''.''" "?m \<noteq> ''..''" "?m \<noteq> []" by auto
  ultimately show ?thesis unfolding zip_segment_def plain_name_def by blast
qed

lemma zip_path_safe: "zip_safe root rel \<Longrightarrow> zip_safe root (snd (zip_path rel seen name))"
  using zip_safe_Join [OF _ sanitize_segment, of root rel name] zip_safe_Join [OF _ numbered_segment [OF sanitize_segment], of root rel name]
  by (simp add: zip_path_def Let_def split: option.splits del: path_Join.simps)

lemma zip_folder_safe: "zip_safe root rel \<Longrightarrow> (r, p) \<in> set (snd (zip_folder rel seen rs)) \<Longrightarrow> zip_safe root p"
proof (induction rs arbitrary: seen)
  case (Cons x rs)
  obtain seen1 q where z: "zip_path rel seen (f_name x) = (seen1, q)" by (rule prod.exhaust)
  then have "zip_safe root q" using zip_path_safe [OF Cons.prems(1), of seen "f_name x"] by simp
  moreover have "zip_safe root p" if "(r, p) \<in> set (snd (zip_folder rel seen1 rs))" using Cons.IH [OF Cons.prems(1) that] .
  ultimately show ?case using Cons.prems(2) z by (auto split: prod.splits)
qed simp

lemma zip_files_safe: "\<forall>f \<in> set flds. zip_safe root (ti_relPath f) \<Longrightarrow> (r, p) \<in> set (zip_files rows seen flds) \<Longrightarrow> zip_safe root p"
proof (induction flds arbitrary: seen)
  case (Cons f flds)
  obtain seen1 es where z: "zip_folder (ti_relPath f) seen (rows (ti_id f)) = (seen1, es)" by (rule prod.exhaust)
  have "zip_safe root p" if "(r, p) \<in> set es" using zip_folder_safe [of root "ti_relPath f" r p seen "rows (ti_id f)"] Cons.prems(1) that z by simp
  with Cons z show ?case by auto
qed simp

lemma zip_tree_inv:
  assumes "zip_tree kids queue out = Some res" "\<forall>f \<in> set (queue @ out). P f"
    and step: "\<And>cur c. P cur \<Longrightarrow> c \<in> set (zip_children kids cur) \<Longrightarrow> P c"
  shows "\<forall>f \<in> set res. P f"
proof -
  let ?P = "\<lambda>ks queue out res. ks = kids \<and> (\<forall>f \<in> set (queue @ out). P f) \<longrightarrow> (\<forall>f \<in> set res. P f)"
  have "?P kids queue out res"
  proof (rule zip_tree.raw_induct [where P = ?P, OF _ assms(1)], rule impI)
    fix loop ks queue out res
    assume IH: "\<And>ks queue out res. loop ks queue out = Some res \<Longrightarrow> ?P ks queue out res"
      and run: "(case queue of [] \<Rightarrow> Some out | cur # rest \<Rightarrow> loop ks (rest @ zip_children ks cur) (out @ [cur])) = Some res"
      and all: "ks = kids \<and> (\<forall>f \<in> set (queue @ out). P f)"
    show "\<forall>f \<in> set res. P f"
    proof (cases queue)
      case Nil
      then show ?thesis using run all by simp
    next
      case (Cons cur rest)
      then have "\<forall>f \<in> set ((rest @ zip_children kids cur) @ out @ [cur]). P f" using all step [of cur] by auto
      moreover have "loop kids (rest @ zip_children kids cur) (out @ [cur]) = Some res" using run Cons all by simp
      ultimately show ?thesis using IH by blast
    qed
  qed
  with assms(2) show ?thesis by blast
qed

lemma zip_children_safe:
  "zip_safe root (ti_relPath cur) \<Longrightarrow> c \<in> set (zip_children kids cur) \<Longrightarrow> zip_safe root (ti_relPath c)"
  using zip_safe_Join [OF _ sanitize_segment] by (auto simp: zip_children_def simp del: path_Join.simps)

lemma root_item_safe: "zip_safe (sanitizeZipSegment (fd_name f)) (ti_relPath (root_item f))"
proof -
  have seg: "zip_segment (sanitizeZipSegment (fd_name f))" by (rule sanitize_segment)
  then have "sanitizeZipSegment (fd_name f) \<noteq> []" by (auto simp: zip_segment_def plain_name_def)
  then show ?thesis unfolding zip_safe_def using seg by (intro exI [of _ "[]"]) (simp add: root_item_def Let_def)
qed

lemma zip_entries_paths: "e \<in> set (fst (zip_entries ze enter k xs)) \<Longrightarrow> \<exists>x \<in> set xs. e = enter x"
  by (induction ze enter k xs rule: zip_entries.induct) (auto split: if_splits prod.splits)

lemma archive_of:
  assumes "DownloadFolder env ze folderID st = Some (st', ZipArchive dirs entries fin)"
  obtains f st1 flds isVault vk where "zip_tree (zip_kids env ze (fc_folders st1)) [root_item f] [] = Some flds"
    "zip_archive env ze isVault vk flds st1 = ZipArchive dirs entries fin"
proof -
  obtain f where f: "(if fe_sql env (SelectFolder folderID) then None else find (own_folder env folderID) (fc_folders st)) = Some f"
    using assms unfolding DownloadFolder_def by (fastforce split: option.splits)
  obtain st1 isVault where v: "fc_IsVaultFolder env folderID st = (st1, isVault)" by (rule prod.exhaust)
  let ?vk = "if isVault then vault_key env else fe_stdKey env"
  have ok: "\<not> (isVault \<and> (\<not> isVaultUnlocked env \<or> ?vk = []))"
  proof
    assume "isVault \<and> (\<not> isVaultUnlocked env \<or> ?vk = [])"
    then have "DownloadFolder env ze folderID st = Some (st1, ZipError 401)" unfolding DownloadFolder_def f v Let_def by auto
    with assms show False by simp
  qed
  then obtain flds where z: "zip_tree (zip_kids env ze (fc_folders st1)) [root_item f] [] = Some flds"
    using assms ok unfolding DownloadFolder_def f v Let_def by (auto split: option.splits if_splits)
  with ok have "zip_archive env ze isVault ?vk flds st1 = ZipArchive dirs entries fin"
    using assms unfolding DownloadFolder_def f v Let_def by (auto split: if_splits)
  with z show ?thesis by (rule that)
qed

text \<open>C36: no archive reaches outside its folder. Whatever the names of the folders and files, every path in the archive begins
  with one segment for the folder itself, and no segment is empty, a dot, two dots, or contains a slash or a backslash.\<close>

theorem zip_paths_safe:
  assumes "DownloadFolder env ze folderID st = Some (st', ZipArchive dirs entries fin)"
  shows "\<exists>root. zip_segment root \<and> (\<forall>d \<in> set dirs. \<exists>p. d = p @ ''/'' \<and> zip_safe root p) \<and> (\<forall>e \<in> set entries. zip_safe root (en_path e))"
proof -
  obtain f st1 flds isVault vk where f: "zip_tree (zip_kids env ze (fc_folders st1)) [root_item f] [] = Some flds"
    "zip_archive env ze isVault vk flds st1 = ZipArchive dirs entries fin"
    by (rule archive_of [OF assms])
  let ?root = "sanitizeZipSegment (fd_name f)"
  have seg: "zip_segment ?root" by (rule sanitize_segment)
  have safe: "\<forall>x \<in> set flds. zip_safe ?root (ti_relPath x)"
    by (rule zip_tree_inv [OF f(1)]) (use root_item_safe zip_children_safe in auto)
  have "dirs = map (\<lambda>x. ti_relPath x @ ''/'') flds"
    "entries = fst (zip_entries ze (zip_entry env ze isVault vk st1) 0 (zip_files (zip_rows env ze (fc_files st1)) Map.empty flds))"
    using f(2) by (auto simp: zip_archive_def Let_def split: if_splits prod.splits)
  moreover have "zip_safe ?root (en_path e)" if "e \<in> set entries" for e
  proof -
    have "\<exists>x \<in> set (zip_files (zip_rows env ze (fc_files st1)) Map.empty flds). e = zip_entry env ze isVault vk st1 x"
      by (rule zip_entries_paths) (use that calculation(2) in blast)
    then obtain r p where "(r, p) \<in> set (zip_files (zip_rows env ze (fc_files st1)) Map.empty flds)" "e = zip_entry env ze isVault vk st1 (r, p)"
      by (metis surj_pair)
    with zip_files_safe [OF safe] show ?thesis by (simp add: zip_entry_def)
  qed
  ultimately show ?thesis using seg safe by (intro exI [of _ ?root]) auto
qed

definition ex_zip :: ZipEnv where
  "ex_zip =
     \<lparr>ze_folderRows = id, ze_fileRows = id, ze_filesFail = (\<lambda>_. False), ze_dirFails = (\<lambda>_. False), ze_entryFails = (\<lambda>_. False),
      ze_gone = (\<lambda>_. False), ze_closeFails = False, ze_head = False, ze_uni = id, ze_escape = id, ze_timeParse = (\<lambda>_ _. None)\<rparr>"

section \<open>The whole subtree\<close>

lemma zip_tree_collect:
  fixes queue :: "folderTreeItem list"
  assumes "collect ks q ids = Some res" "\<And>c. map fst (kids c) = ks c" "map ti_id queue = q" "map ti_id (out @ queue) = ids"
  shows "\<exists>flds. zip_tree kids queue out = Some flds \<and> map ti_id flds = res"
proof -
  let ?P = "\<lambda>ks q ids res. \<forall>(queue :: folderTreeItem list) out. (\<forall>c. map fst (kids c) = ks c) \<and> map ti_id queue = q \<and> map ti_id (out @ queue) = ids \<longrightarrow>
    (\<exists>flds. zip_tree kids queue out = Some flds \<and> map ti_id flds = res)"
  have "?P ks q ids res"
  proof (rule collect.raw_induct [where P = ?P, OF _ assms(1)], intro allI impI)
    fix loop ks q ids res and queue out :: "folderTreeItem list"
    assume IH: "\<And>ks q ids res. loop ks q ids = Some res \<Longrightarrow> ?P ks q ids res"
      and step: "(case q of [] \<Rightarrow> Some ids | cur # rest \<Rightarrow> loop ks (rest @ ks cur) (ids @ ks cur)) = Some res"
      and inv: "(\<forall>c. map fst (kids c) = ks c) \<and> map ti_id queue = q \<and> map ti_id (out @ queue) = ids"
    show "\<exists>flds. zip_tree kids queue out = Some flds \<and> map ti_id flds = res"
    proof (cases queue)
      case Nil
      then show ?thesis using step inv by (auto simp: zip_tree.simps)
    next
      case (Cons cur rest)
      have k: "map ti_id (zip_children kids cur) = ks (ti_id cur)" using inv by (auto simp: zip_children_def o_def case_prod_beta)
      have loop: "loop ks (map ti_id rest @ ks (ti_id cur)) (ids @ ks (ti_id cur)) = Some res" using step inv Cons by auto
      have "map ti_id (rest @ zip_children kids cur) = map ti_id rest @ ks (ti_id cur)" using k by simp
      moreover have "map ti_id ((out @ [cur]) @ rest @ zip_children kids cur) = ids @ ks (ti_id cur)" using inv k Cons by auto
      ultimately have "\<exists>flds. zip_tree kids (rest @ zip_children kids cur) (out @ [cur]) = Some flds \<and> map ti_id flds = res"
        using IH [OF loop] inv by blast
      then show ?thesis unfolding Cons by (simp add: zip_tree.simps [of kids "cur # rest"])
    qed
  qed
  with assms(2-4) show ?thesis by blast
qed

text \<open>When every folder has one parent, none is visited twice.\<close>

definition fresh_inv :: "(string \<Rightarrow> string list) \<Rightarrow> string \<Rightarrow> string list \<Rightarrow> string list \<Rightarrow> bool" where
  "fresh_inv kids i queue ids \<longleftrightarrow>
     distinct ids \<and>
     (\<exists>out. ids = out @ queue \<and> (\<forall>x \<in> set ids. (i, x) \<in> (kid_edges kids)\<^sup>* \<and> (x = i \<or> (\<exists>p \<in> set out. x \<in> set (kids p)))))"

lemma fresh_step:
  assumes one: "\<And>p q x. x \<in> set (kids p) \<Longrightarrow> x \<in> set (kids q) \<Longrightarrow> p = q" and dist: "\<And>p. distinct (kids p)"
    and ac: "acyclic (kid_edges kids)" and inv: "fresh_inv kids i (cur # rest) ids"
  shows "fresh_inv kids i (rest @ kids cur) (ids @ kids cur)"
proof -
  obtain out where o: "ids = out @ cur # rest" "\<forall>x \<in> set ids. (i, x) \<in> (kid_edges kids)\<^sup>* \<and> (x = i \<or> (\<exists>p \<in> set out. x \<in> set (kids p)))"
    and d: "distinct ids" using inv by (auto simp: fresh_inv_def)
  have cur: "(i, cur) \<in> (kid_edges kids)\<^sup>*" "cur \<notin> set out" using o d by auto
  have new: "x \<notin> set ids" if "x \<in> set (kids cur)" for x
  proof
    assume x: "x \<in> set ids"
    have e: "(cur, x) \<in> kid_edges kids" using that by (simp add: kid_edges_def)
    have "x \<noteq> i" using ac rtrancl_into_trancl1 [OF cur(1) e] by (auto simp: acyclic_def)
    then obtain p where "p \<in> set out" "x \<in> set (kids p)" using o(2) x by blast
    with one [OF that, of p] cur(2) show False by simp
  qed
  have k: "(i, x) \<in> (kid_edges kids)\<^sup>* \<and> (\<exists>p \<in> set (out @ [cur]). x \<in> set (kids p))" if "x \<in> set (kids cur)" for x
    using rtrancl_into_rtrancl [OF cur(1), of x] that by (auto simp: kid_edges_def)
  have "\<forall>x \<in> set (ids @ kids cur). (i, x) \<in> (kid_edges kids)\<^sup>* \<and> (x = i \<or> (\<exists>p \<in> set (out @ [cur]). x \<in> set (kids p)))"
    using o(2) k by auto
  moreover have "ids @ kids cur = (out @ [cur]) @ rest @ kids cur" using o(1) by simp
  moreover have "distinct (ids @ kids cur)" using d dist new by auto
  ultimately show ?thesis unfolding fresh_inv_def by blast
qed

lemma collect_distinct:
  assumes "collect kids queue ids = Some res" "fresh_inv kids i queue ids"
    and one: "\<And>p q x. x \<in> set (kids p) \<Longrightarrow> x \<in> set (kids q) \<Longrightarrow> p = q" "\<And>p. distinct (kids p)" "acyclic (kid_edges kids)"
  shows "distinct res"
proof -
  let ?P = "\<lambda>ks queue ids res. ks = kids \<and> fresh_inv kids i queue ids \<longrightarrow> distinct (res :: string list)"
  have "?P kids queue ids res"
  proof (rule collect.raw_induct [where P = ?P, OF _ assms(1)], rule impI)
    fix loop ks queue ids res
    assume IH: "\<And>ks queue ids res. loop ks queue ids = Some res \<Longrightarrow> ?P ks queue ids res"
      and step: "(case queue of [] \<Rightarrow> Some ids | cur # rest \<Rightarrow> loop ks (rest @ ks cur) (ids @ ks cur)) = Some res"
      and inv: "ks = kids \<and> fresh_inv kids i queue ids"
    show "distinct res"
    proof (cases queue)
      case Nil
      then show ?thesis using step inv by (simp add: fresh_inv_def)
    next
      case (Cons cur rest)
      then have "loop kids (rest @ kids cur) (ids @ kids cur) = Some res" using step inv by simp
      moreover have "fresh_inv kids i (rest @ kids cur) (ids @ kids cur)"
        by (rule fresh_step) (use one inv Cons in \<open>auto intro: one(1)\<close>)
      ultimately show ?thesis using IH by blast
    qed
  qed
  with assms(2) show ?thesis by blast
qed

text \<open>A row that belongs in the archive of the folder \<open>i\<close>.\<close>

definition zipped :: "FileEnv \<Rightarrow> FileController \<Rightarrow> string \<Rightarrow> FileRecord \<Rightarrow> bool" where
  "zipped env st i r \<longleftrightarrow> below (tree_rows (own_folders env (fc_folders st))) i (f_folder r) \<and> f_owner r = fe_user env \<and> \<not> f_deleted r"

definition zip_faultless :: "ZipEnv \<Rightarrow> bool" where
  "zip_faultless ze \<longleftrightarrow>
     (\<forall>rs. mset (ze_folderRows ze rs) = mset rs) \<and> (\<forall>rs. mset (ze_fileRows ze rs) = mset rs) \<and> (\<forall>f. \<not> ze_filesFail ze f) \<and>
     (\<forall>d. \<not> ze_dirFails ze d) \<and> (\<forall>p. \<not> ze_entryFails ze p) \<and> (\<forall>k. \<not> ze_gone ze k) \<and> \<not> ze_closeFails ze \<and> \<not> ze_head ze"

definition archive_key :: "FileEnv \<Rightarrow> FileController \<Rightarrow> string \<Rightarrow> bytes" where
  "archive_key env st i = (if fc_in_vault st i then vault_key env else fe_stdKey env)"

text \<open>The folder is the user's, nothing fails, and the files below it are sealed with the key of the folder.\<close>

definition archivable :: "FileEnv \<Rightarrow> string \<Rightarrow> (FileRecord \<Rightarrow> bytes list) \<Rightarrow> FileController \<Rightarrow> bool" where
  "archivable env i ps st \<longleftrightarrow>
     vault_ok st \<and> forest (own_folders env (fc_folders st)) \<and> distinct (map fd_id (own_folders env (fc_folders st))) \<and> i \<in> fd_id ` set (own_folders env (fc_folders st)) \<and>
     (\<forall>q. \<not> fe_sql env q) \<and> fe_fails env = no_faults \<and> (fc_in_vault st i \<longrightarrow> isVaultUnlocked env) \<and>
     aes_NewCipher (archive_key env st i) \<noteq> None \<and>
     (\<forall>r \<in> set (fc_files st). zipped env st i r \<longrightarrow>
        fc_blob st (f_cas r) = Some (frames (cipher_NewGCM (archive_key env st i)) (archive_key env st i) (ps r)) \<and>
        list_all chunk_ok (ps r) \<and> ps r \<noteq> [])"

text \<open>The path of a folder below \<open>i\<close>: the sanitized names from \<open>i\<close> down to it, with slashes between.\<close>

inductive folder_path :: "FolderRecord list \<Rightarrow> string \<Rightarrow> string \<Rightarrow> string \<Rightarrow> bool" for folders i where
  top: "f \<in> set folders \<Longrightarrow> fd_id f = i \<Longrightarrow> folder_path folders i i (sanitizeZipSegment (fd_name f))"
| sub: "folder_path folders i p d \<Longrightarrow> f \<in> set folders \<Longrightarrow> fd_parent f = p \<Longrightarrow>
    folder_path folders i (fd_id f) (d @ ''/'' @ sanitizeZipSegment (fd_name f))"




lemma zip_kids_mset:
  assumes "zip_faultless ze" "\<not> fe_sql env (SelectChildren c)"
  shows "mset (map fst (zip_kids env ze folders c)) = mset (child_ids env folders c)"
proof -
  let ?rs = "filter (\<lambda>r. fd_parent r = c \<and> fd_owner r = fe_user env) folders"
  have "mset (ze_folderRows ze ?rs) = mset ?rs" using assms(1) by (simp add: zip_faultless_def)
  then have "image_mset fd_id (mset (ze_folderRows ze ?rs)) = image_mset fd_id (mset ?rs)" by simp
  then show ?thesis using assms(2) by (simp add: zip_kids_def child_ids_def o_def)
qed

lemma child_ids_own: "child_ids env (own_folders env folders) c = child_ids env folders c"
  by (simp add: child_ids_def own_folders_def conj_commute conj_left_commute)

lemma own_own: "own_folders env (own_folders env folders) = own_folders env folders"
  by (simp add: own_folders_def)

lemma zip_tree_complete:
  assumes f: "forest (own_folders env folders)" and i: "ti_id root \<noteq> []"
    and d: "distinct (map fd_id (own_folders env folders))" and q: "\<And>c. \<not> fe_sql env (SelectChildren c)"
    and z: "zip_faultless ze"
  shows "\<exists>flds. zip_tree (zip_kids env ze folders) [root] [] = Some flds \<and> distinct (map ti_id flds) \<and>
    ti_id ` set flds = {x. below (tree_rows (own_folders env folders)) (ti_id root) x}"
proof -
  let ?mine = "own_folders env folders"
  define ks where "ks = (\<lambda>c. map fst (zip_kids env ze folders c))"
  have m: "mset (ks c) = mset (child_ids env ?mine c)" for c
    using zip_kids_mset [OF z q, of folders c] by (simp add: ks_def child_ids_own)
  then have s: "set (ks c) = set (child_ids env ?mine c)" for c by (rule mset_eq_setD)
  have e: "kid_edges ks = kid_edges (child_ids env ?mine)" by (simp add: kid_edges_def s)
  have wf: "wf ((kid_edges ks)\<inverse>)" unfolding e by (rule kid_edges_forest [OF f])
  have row: "\<exists>r \<in> set ?mine. fd_id r = x \<and> fd_parent r = p" if "x \<in> set (ks p)" for x p
    using that q by (auto simp: s child_ids_def)
  have one: "p = p'" if "x \<in> set (ks p)" "x \<in> set (ks p')" for p p' x
    using row [OF that(1)] row [OF that(2)] d by (auto simp: distinct_map dest: inj_onD)
  have dist: "distinct (ks p)" for p
  proof -
    have "distinct (child_ids env ?mine p)"
      using distinct_map_filter [OF d] by (simp add: child_ids_def)
    then show ?thesis using m mset_eq_imp_distinct_iff by blast
  qed
  have ac: "acyclic (kid_edges ks)" using wf by (metis acyclic_converse wf_acyclic)
  obtain new where res: "collect ks [ti_id root] [ti_id root] = Some (ti_id root # new)"
    and new: "\<forall>x. x \<in> set new \<longleftrightarrow> (ti_id root, x) \<in> (kid_edges ks)\<^sup>+"
    using collect_terminates [OF wf, of "[ti_id root]" "[ti_id root]"] by auto
  obtain ids where ids: "collect (child_ids env ?mine) [ti_id root] [ti_id root] = Some ids"
    "set ids = {x. below (tree_rows ?mine) (ti_id root) x}"
    using collect_below [OF f q i, unfolded own_own] by auto
  have "set (ti_id root # new) = set ids"
    using collect_terminates [OF kid_edges_forest [OF f, of env], of "[ti_id root]" "[ti_id root]"] ids(1) new
    by (auto simp: e)
  moreover have "distinct (ti_id root # new)"
    by (rule collect_distinct [OF res _ one dist ac]) (auto simp: fresh_inv_def)
  moreover obtain flds where "zip_tree (zip_kids env ze folders) [root] [] = Some flds" "map ti_id flds = ti_id root # new"
    using zip_tree_collect [OF res, of "zip_kids env ze folders" "[root]" "[]"] by (auto simp: ks_def)
  ultimately show ?thesis using ids(2) by (metis list.set_map)
qed

lemma zip_tree_paths:
  assumes "zip_tree (zip_kids env ze folders) [root_item f] [] = Some flds" "zip_faultless ze"
    "f \<in> set (own_folders env folders)"
  shows "\<forall>x \<in> set flds. zip_safe (sanitizeZipSegment (fd_name f)) (ti_relPath x) \<and>
    folder_path (own_folders env folders) (fd_id f) (ti_id x) (ti_relPath x)"
proof (rule zip_tree_inv [OF assms(1)])
  let ?own = "own_folders env folders" and ?root = "sanitizeZipSegment (fd_name f)"
  have "ti_relPath (root_item f) = ?root" "ti_id (root_item f) = fd_id f"
    using sanitize_segment [of "fd_name f"] by (auto simp: root_item_def Let_def zip_segment_def plain_name_def)
  then show "\<forall>x \<in> set ([root_item f] @ []). zip_safe ?root (ti_relPath x) \<and> folder_path ?own (fd_id f) (ti_id x) (ti_relPath x)"
    using root_item_safe [of f] folder_path.top [OF assms(3) refl] by simp
  fix cur c assume cur: "zip_safe ?root (ti_relPath cur) \<and> folder_path ?own (fd_id f) (ti_id cur) (ti_relPath cur)"
    and c: "c \<in> set (zip_children (zip_kids env ze folders) cur)"
  let ?rows = "filter (\<lambda>r. fd_parent r = ti_id cur \<and> fd_owner r = fe_user env) folders"
  have "mset (ze_folderRows ze ?rows) = mset ?rows" using assms(2) by (simp add: zip_faultless_def)
  then have rows: "set (ze_folderRows ze ?rows) = set ?rows" by (rule mset_eq_setD)
  from c obtain r where "r \<in> set (ze_folderRows ze ?rows)"
    and c': "ti_id c = fd_id r" "ti_relPath c = path_Join [ti_relPath cur, sanitizeZipSegment (fd_name r)]"
    by (auto simp: zip_children_def zip_kids_def simp del: path_Join.simps split: if_splits)
  then have r: "r \<in> set ?own" "fd_parent r = ti_id cur" by (auto simp: rows own_folders_def)
  have "ti_relPath c = ti_relPath cur @ ''/'' @ sanitizeZipSegment (fd_name r)"
    using zip_Join [OF conjunct1 [OF cur] sanitize_segment] c'(2) by simp
  then show "zip_safe ?root (ti_relPath c) \<and> folder_path ?own (fd_id f) (ti_id c) (ti_relPath c)"
    using zip_children_safe [OF conjunct1 [OF cur] c] folder_path.sub [OF conjunct2 [OF cur] r] c'(1) by simp
qed














lemma zip_entries_all: "zip_faultless ze \<Longrightarrow> zip_entries ze enter k xs = (map enter xs, ZipClosed)"
  by (induction ze enter k xs rule: zip_entries.induct) (auto simp: zip_faultless_def)





lemma DownloadFolder_runs:
  assumes A: "archivable env i ps st" and z: "zip_faultless ze"
  obtains b vc flds root where
    "DownloadFolder env ze i st = Some (st\<lparr>fc_vault := vc\<rparr>, ZipArchive (map (\<lambda>fld. ti_relPath fld @ ''/'') flds)
      (map (zip_entry env ze b (archive_key env st i) (st\<lparr>fc_vault := vc\<rparr>)) (zip_files (zip_rows env ze (fc_files st)) Map.empty flds)) ZipClosed)"
    "distinct (map ti_id flds)" "ti_id ` set flds = {x. below (tree_rows (own_folders env (fc_folders st))) i x}"
    "\<forall>x \<in> set flds. zip_safe root (ti_relPath x) \<and> folder_path (own_folders env (fc_folders st)) i (ti_id x) (ti_relPath x)"
proof -
  have q: "\<not> fe_sql env c" for c using A by (simp add: archivable_def)
  have "\<exists>r \<in> set (fc_folders st). own_folder env i r" using A by (auto simp: archivable_def own_folder_def own_folders_def)
  then obtain f where f: "find (own_folder env i) (fc_folders st) = Some f" by (metis find_None_iff option.exhaust)
  then have fi: "fd_id f = i" "f \<in> set (own_folders env (fc_folders st))" by (auto simp: find_Some_iff own_folder_def own_folders_def)
  then have i: "i \<noteq> []" using A by (auto simp: archivable_def forest_def)
  obtain st1 b where v: "fc_IsVaultFolder env i st = (st1, b)" by (rule prod.exhaust)
  have b: "b = fc_in_vault st i" using fc_IsVaultFolder_ok(1) [OF _ q v] A by (simp add: archivable_def)
  obtain vc where st1: "st1 = st\<lparr>fc_vault := vc\<rparr>" using fc_IsVaultFolder_sel [OF v] by blast
  have key: "(if b then vault_key env else fe_stdKey env) = archive_key env st i" by (simp add: archive_key_def b)
  have k: "archive_key env st i \<noteq> []" "b \<longrightarrow> isVaultUnlocked env" using A b by (auto simp: archivable_def aes_NewCipher_def)
  obtain flds where flds: "zip_tree (zip_kids env ze (fc_folders st)) [root_item f] [] = Some flds" "distinct (map ti_id flds)"
    "ti_id ` set flds = {x. below (tree_rows (own_folders env (fc_folders st))) i x}"
    using zip_tree_complete [of env "fc_folders st" "root_item f" ze] A q z fi(1) i by (auto simp: archivable_def root_item_def Let_def)
  let ?rows = "zip_rows env ze (fc_files st)" and ?enter = "zip_entry env ze b (archive_key env st i) st1"
  let ?items = "zip_files ?rows Map.empty flds" and ?dirs = "map (\<lambda>fld. ti_relPath fld @ ''/'') flds"
  have head: "\<not> ze_head ze" using z by (simp add: zip_faultless_def)
  have "\<not> list_ex (ze_dirFails ze) ?dirs" using z by (simp add: zip_faultless_def list_ex_iff)
  then have "zip_archive env ze b (archive_key env st i) flds st1 = ZipArchive ?dirs (map ?enter ?items) ZipClosed"
    by (simp add: zip_archive_def zip_entries_all [OF z] st1 Let_def)
  then have arch: "zip_archive env ze b (if b then vault_key env else fe_stdKey env) flds st1 = ZipArchive ?dirs (map ?enter ?items) ZipClosed"
    unfolding key .
  have "DownloadFolder env ze i st = Some (st1, ZipArchive ?dirs (map ?enter ?items) ZipClosed)"
  proof (cases b)
    case True
    then show ?thesis using q k flds(1) arch head key unfolding DownloadFolder_def v f by (simp add: st1)
  next
    case False
    then show ?thesis using q flds(1) arch head unfolding DownloadFolder_def v f by (simp add: st1)
  qed
  then show ?thesis unfolding st1 using flds(2,3) zip_tree_paths [OF flds(1) z fi(2), unfolded fi(1)] by (rule that)
qed

lemma DownloadFolder_closes:
  assumes "archivable env i ps st" "zip_faultless ze"
  shows "\<exists>st' dirs entries. DownloadFolder env ze i st = Some (st', ZipArchive dirs entries ZipClosed)"
proof -
  obtain b vc flds root where "DownloadFolder env ze i st = Some (st\<lparr>fc_vault := vc\<rparr>, ZipArchive (map (\<lambda>fld. ti_relPath fld @ ''/'') flds)
      (map (zip_entry env ze b (archive_key env st i) (st\<lparr>fc_vault := vc\<rparr>)) (zip_files (zip_rows env ze (fc_files st)) Map.empty flds)) ZipClosed)"
    by (rule DownloadFolder_runs [OF assms])
  then show ?thesis by blast
qed


definition ex_zip_drive :: FileController where
  "ex_zip_drive =
     (let h = replicate 64 (CHR ''0'')
      in ex_chunks\<lparr>fc_folders := fc_folders ex_tree, fc_files := [ex_file ''a'' ''e'' h, ex_file ''b'' ''g'' h]\<rparr>)"

lemma ex_zip_folders: "fc_folders ex_zip_drive = fc_folders ex_tree"
  by (simp add: ex_zip_drive_def Let_def)

lemma ex_tree_own:
  "own_folders ex_fenv (fc_folders ex_tree) =
     [\<lparr>fd_id = ''d'', fd_owner = 1, fd_parent = [], fd_name = ''docs''\<rparr>,
      \<lparr>fd_id = ''e'', fd_owner = 1, fd_parent = ''d'', fd_name = ''sub''\<rparr>]"
  by (simp add: own_folders_def ex_tree_def ex_fenv_def)


lemma ex_zip_zipped:
  "zipped ex_fenv ex_zip_drive ''d'' r \<longleftrightarrow> f_folder r \<in> {''d'', ''e''} \<and> f_owner r = fe_user ex_fenv \<and> \<not> f_deleted r"
  unfolding zipped_def ex_zip_folders ex_tree_below by simp

lemma ex_zip_archivable: "archivable ex_fenv ''d'' (\<lambda>_. [[1, 2], [3]]) ex_zip_drive"
proof -
  have v: "vault_ok ex_zip_drive"
    by (simp add: vault_ok_def ex_zip_drive_def ex_chunks_def ex_tree_def ex_drive_def cache_ok_def presets_ok_def tree_rows_def has_parent_def Let_def)
  have nv: "\<not> fc_in_vault ex_zip_drive ''d''"
    unfolding in_vault_def ex_zip_folders ex_tree_edges by (auto elim: rtranclE)
  have f: "forest (own_folders ex_fenv (fc_folders ex_tree))"
    unfolding forest_def ex_tree_edges by (auto simp: ex_tree_def own_folders_def acyclic_def trancl_id trans_def)
  have blob: "fc_blob ex_zip_drive (replicate 64 (CHR ''0'')) = Some (frames (cipher_NewGCM (replicate 32 7)) (replicate 32 7) [[1, 2], [3]])"
    using ex_shared_ok(4) by (simp add: ex_zip_drive_def ex_chunks_def fc_blob_def blob_at_def Let_def)
  have k: "archive_key ex_fenv ex_zip_drive ''d'' = replicate 32 7" using nv by (simp add: archive_key_def ex_fenv_def)
  have files: "fc_files ex_zip_drive = [ex_file ''a'' ''e'' (replicate 64 (CHR ''0'')), ex_file ''b'' ''g'' (replicate 64 (CHR ''0''))]"
    by (simp add: ex_zip_drive_def Let_def)
  show ?thesis unfolding archivable_def ex_zip_folders ex_zip_zipped files k
    using v nv [unfolded ex_zip_folders] f blob ex_drive_vault_ok(2) ex_file_sel
    by (auto simp: ex_tree_own aes_NewCipher_def chunk_ok_def MaxChunkSize_def)
qed

lemma ex_zip_faultless: "zip_faultless ex_zip"
  by (simp add: zip_faultless_def ex_zip_def)


theorem zip_paths_safe_witness:
  "\<exists>st' dirs entries root.
     DownloadFolder ex_fenv ex_zip ''d'' ex_zip_drive = Some (st', ZipArchive dirs entries ZipClosed) \<and>
     zip_segment root \<and> (\<forall>d \<in> set dirs. \<exists>p. d = p @ ''/'' \<and> zip_safe root p) \<and> (\<forall>e \<in> set entries. zip_safe root (en_path e))"
proof -
  obtain st' dirs entries where a: "DownloadFolder ex_fenv ex_zip ''d'' ex_zip_drive = Some (st', ZipArchive dirs entries ZipClosed)"
    using DownloadFolder_closes [OF ex_zip_archivable ex_zip_faultless] by blast
  obtain root where r: "zip_segment root" "\<forall>d \<in> set dirs. \<exists>p. d = p @ ''/'' \<and> zip_safe root p"
    "\<forall>e \<in> set entries. zip_safe root (en_path e)" using zip_paths_safe [OF a] by (elim exE conjE)
  show ?thesis by (rule exI [of _ st'], rule exI [of _ dirs], rule exI [of _ entries], rule exI [of _ root]) (intro conjI a r)
qed

section \<open>What an archive does not tell\<close>

text \<open>a file whose content is gone from the disk is still put into the archive, with the words of a test fixture as its content.\<close>

theorem missing_blob_is_made_up:
  "streamFileToZipEntry env r isVault vk (st\<lparr>fc_fs := Map.empty\<rparr>) = bytes_of_string (''Decrypted Content of '' @ f_name r)"
  by (simp add: streamFileToZipEntry_def blob_file_def os_Open_def split: option.splits)

text \<open>the number added to a duplicate is not looked up itself: a file that already has the numbered name keeps its path, and the
  archive has two entries with one path.\<close>

theorem numbered_name_collides:
  "map snd (zip_files (\<lambda>_. [r1\<lparr>f_name := ''a (1).txt''\<rparr>, r2\<lparr>f_name := ''a.txt''\<rparr>, r3\<lparr>f_name := ''a.txt''\<rparr>]) Map.empty
     [\<lparr>ti_id = i, ti_name = ''d'', ti_relPath = ''d''\<rparr>]) = [''d/a (1).txt'', ''d/a.txt'', ''d/a (1).txt'']"
  by (simp add: zip_path_def) code_simp

end
