(* ===== verification/Storage_Key.thy ===== *)
theory Storage_Key
  imports Go_Files Go_Crypto
begin

text \<open>
  The master key for ordinary (non-vault) files, \<^verbatim>\<open>internal/crypto/storage_key.go\<close>: derived from a
  configured secret, or kept in the file \<^verbatim>\<open>.master_key\<close> of the storage directory. The package's variable
  is the state; \<open>rnd\<close> are the bytes the random source delivers, fewer than 32 of them being its failure.
\<close>

record KeyState =
  standardKey :: bytes
  initDone :: bool \<comment> \<open>\<^verbatim>\<open>defaultInitOnce\<close> has run\<close>

definition key_path :: "string \<Rightarrow> string" where
  "key_path storageDir = path_Join [if storageDir = [] then ''storage'' else storageDir, ''.master_key'']"

definition InitStandardStorageKey ::
  "faults \<Rightarrow> bytes \<Rightarrow> string \<Rightarrow> string \<Rightarrow> KeyState \<times> fs \<Rightarrow> (KeyState \<times> fs) \<times> bytes option" where
  "InitStandardStorageKey fails rnd configuredKey storageDir st =
     (case st of (ks, fs) \<Rightarrow>
        if configuredKey \<noteq> [] then
          let k = sha256 (bytes_of_string configuredKey) in ((ks\<lparr>standardKey := k\<rparr>, fs), Some k)
        else
          let keyPath = key_path storageDir in
          case os_ReadFile fails keyPath fs of
            Some d \<Rightarrow>
              if length d = 32 then ((ks\<lparr>standardKey := d\<rparr>, fs), Some d)
              else if length rnd < 32 then ((ks, fs), None)
              else let newKey = take 32 rnd in
                ((ks\<lparr>standardKey := newKey\<rparr>, fst (os_WriteFile fails keyPath newKey fs)), Some newKey)
          | None \<Rightarrow>
              if length rnd < 32 then ((ks, fs), None)
              else let newKey = take 32 rnd in
                ((ks\<lparr>standardKey := newKey\<rparr>, fst (os_WriteFile fails keyPath newKey fs)), Some newKey))"

definition GetStandardStorageKey :: "faults \<Rightarrow> bytes \<Rightarrow> KeyState \<times> fs \<Rightarrow> (KeyState \<times> fs) \<times> bytes" where
  "GetStandardStorageKey fails rnd st =
     (if length (standardKey (fst st)) = 32 then (st, standardKey (fst st))
      else
        let st' = (if initDone (fst st) then st
                   else case InitStandardStorageKey fails rnd [] ''storage'' st of
                     ((ks, fs), _) \<Rightarrow> (ks\<lparr>initDone := True\<rparr>, fs))
        in (st', standardKey (fst st')))"

lemma init_reads_key:
  "fs (key_path dir) = Some k \<Longrightarrow> length k = 32 \<Longrightarrow> \<not> fails (OpenCall (key_path dir)) \<Longrightarrow>
   \<not> fails (ReadCall (key_path dir)) \<Longrightarrow>
   InitStandardStorageKey fails rnd [] dir (ks, fs) = ((ks\<lparr>standardKey := k\<rparr>, fs), Some k)"
  by (simp add: InitStandardStorageKey_def os_ReadFile_def Let_def)

text \<open>a key generated by a first start is the key of every later start with a readable disk, whatever
  the random source delivers then: files written before a restart stay readable.\<close>

theorem storage_key_survives_restart:
  assumes "fs (key_path dir) = None" "32 \<le> length rnd"
    and "InitStandardStorageKey no_faults rnd [] dir (ks, fs) = ((ks1, fs1), r1)"
  shows "r1 = Some (take 32 rnd) \<and> standardKey ks1 = take 32 rnd \<and>
    InitStandardStorageKey no_faults rnd' [] dir (ks', fs1) = ((ks'\<lparr>standardKey := take 32 rnd\<rparr>, fs1), r1)"
proof -
  have "r1 = Some (take 32 rnd)" "standardKey ks1 = take 32 rnd" "fs1 = fs(key_path dir \<mapsto> take 32 rnd)"
    using assms by (auto simp: InitStandardStorageKey_def os_defs Let_def)
  then show ?thesis using assms(2) init_reads_key [of fs1 dir "take 32 rnd" no_faults rnd' ks'] by simp
qed

theorem storage_key_survives_restart_witness:
  "\<exists>ks1 fs1. InitStandardStorageKey no_faults (replicate 32 5) [] ''d'' (\<lparr>standardKey = [], initDone = False\<rparr>, Map.empty)
       = ((ks1, fs1), Some (replicate 32 5)) \<and>
     InitStandardStorageKey no_faults (replicate 40 9) [] ''d'' (\<lparr>standardKey = [], initDone = False\<rparr>, fs1)
       = ((\<lparr>standardKey = replicate 32 5, initDone = False\<rparr>, fs1), Some (replicate 32 5))"
proof -
  obtain ks1 fs1 r1 where r: "InitStandardStorageKey no_faults (replicate 32 5) [] ''d''
      (\<lparr>standardKey = [], initDone = False\<rparr>, Map.empty) = ((ks1, fs1), r1)" by (metis prod.collapse)
  have "r1 = Some (take 32 (replicate 32 5))" "InitStandardStorageKey no_faults (replicate 40 9) [] ''d''
      (\<lparr>standardKey = [], initDone = False\<rparr>, fs1)
      = ((\<lparr>standardKey = [], initDone = False\<rparr>\<lparr>standardKey := take 32 (replicate 32 5)\<rparr>, fs1), r1)"
    using storage_key_survives_restart [OF _ _ r, of "replicate 40 9" "\<lparr>standardKey = [], initDone = False\<rparr>"] by simp_all
  then show ?thesis using r by simp
qed

text \<open>a start during which the existing key file cannot be read replaces it by a fresh key on disk:
  the old key, and with it every file written under it, is lost for good.\<close>

theorem unreadable_key_is_overwritten:
  assumes "fs (key_path dir) = Some k" "fails (ReadCall (key_path dir))"
    and "\<not> fails (CreateCall (key_path dir))" "\<not> fails (WriteCall (key_path dir))" "32 \<le> length rnd"
  shows "\<exists>ks1 fs1. InitStandardStorageKey fails rnd [] dir (ks, fs) = ((ks1, fs1), Some (take 32 rnd)) \<and>
    fs1 (key_path dir) = Some (take 32 rnd)"
  using assms by (simp add: InitStandardStorageKey_def os_defs Let_def)

theorem unreadable_key_is_overwritten_witness:
  "\<exists>ks1 fs1. InitStandardStorageKey (\<lambda>c. c = ReadCall (key_path ''d'')) (replicate 32 5) [] ''d''
      (\<lparr>standardKey = [], initDone = False\<rparr>, [key_path ''d'' \<mapsto> replicate 32 8]) = ((ks1, fs1), Some (take 32 (replicate 32 5))) \<and>
    fs1 (key_path ''d'') = Some (take 32 (replicate 32 5))"
  by (rule unreadable_key_is_overwritten) simp_all

end
