(* ===== verification/Merkle.thy ===== *)
theory Merkle
  imports Upload_Pipeline
begin

text \<open>
  The Merkle trees of \<^verbatim>\<open>internal/reconcile/merkle.go\<close>: nodes, the hash of a directory, file and byte
  counts, and the tree the server builds from its tables. A node is a value, and an operation that
  changes nodes returns the changed tree; the types of nodes are the strings the client sends.
  \<^verbatim>\<open>sort.Slice\<close> orders the children by name; children of one directory with the same name, whose order
  Go leaves open, keep their order here.
\<close>

section \<open>Nodes and their hashes\<close>

datatype MerkleNode = MerkleNode
  (n_Name: string) (n_Path: string) (n_Type: string) (n_Size: int) (n_Hash: string)
  (n_FolderID: string) (n_FileID: string) (n_MimeType: string) (n_Children: "MerkleNode list")

definition NodeFile :: string where "NodeFile = ''file''"
definition NodeDir :: string where "NodeDir = ''directory''"

lemma node_types [simp]: "NodeFile \<noteq> NodeDir" "NodeDir \<noteq> NodeFile"
  by (simp_all add: NodeFile_def NodeDir_def)

definition leaf_hash :: "string \<Rightarrow> int \<Rightarrow> string" where
  "leaf_hash nm sz = hash_of (bytes_of_string (nm @ '':'' @ Itoa sz))"

text \<open>One child in the text that is hashed for its directory.\<close>

definition child_entry :: "MerkleNode \<Rightarrow> string" where
  "child_entry c = n_Name c @ '':'' @ n_Type c @ '':'' @ Itoa (n_Size c) @ '':'' @ n_Hash c @ '';''"

definition dir_text :: "MerkleNode list \<Rightarrow> string" where
  "dir_text cs = concat (map child_entry cs)"

fun ComputeDirectoryHash :: "MerkleNode \<Rightarrow> MerkleNode" where
  "ComputeDirectoryHash (MerkleNode nm pa ty sz h fo fi mi cs) =
     (if ty \<noteq> NodeDir then MerkleNode nm pa ty sz (if h = [] then leaf_hash nm sz else h) fo fi mi cs
      else
        let cs' = sort_key n_Name (map ComputeDirectoryHash cs)
        in MerkleNode nm pa ty (fold (\<lambda>c t. wrap64 (t + n_Size c)) cs' 0)
             (hash_of (bytes_of_string (dir_text cs'))) fo fi mi cs')"

fun CountStats :: "MerkleNode \<Rightarrow> int \<times> int" where
  "CountStats (MerkleNode nm pa ty sz h fo fi mi cs) =
     (if ty = NodeFile then (1, sz)
      else fold (\<lambda>(fc, tb) (n, t). (n + fc, wrap64 (t + tb))) (map CountStats cs) (0, 0))"

section \<open>The tree of the server\<close>

record FolderRow =
  d_id :: string
  d_owner :: int
  d_parent :: string \<comment> \<open>empty for NULL\<close>
  d_name :: string

definition file_node :: "FileRow \<Rightarrow> MerkleNode" where
  "file_node r =
     MerkleNode (f_name r) [] NodeFile (f_size r) (if f_plain r = [] then leaf_hash (f_name r) (f_size r) else f_plain r)
       (f_folder r) (f_id r) (f_mime r) []"

text \<open>The node of a folder with its files and then its subfolders. A folder's id is its primary key, so
  its row hangs under one parent: the rows attached on the way down are not met again.\<close>

function folder_node :: "FileRow list \<Rightarrow> FolderRow list \<Rightarrow> FolderRow \<Rightarrow> MerkleNode" where
  "folder_node files folders f =
     MerkleNode (d_name f) [] NodeDir 0 [] (d_id f) [] []
       (map file_node (filter (\<lambda>r. f_folder r = d_id f) files) @
        map (folder_node files (filter (\<lambda>g. d_parent g \<noteq> d_id f) folders)) (filter (\<lambda>g. d_parent g = d_id f) folders))"
  by pat_completeness auto
termination
proof (relation "measure (\<lambda>(files, folders, f). length folders)", simp, goal_cases)
  case (1 files folders f g)
  then show ?case
    using length_filter_less [of g folders "\<lambda>g. d_parent g \<noteq> d_id f"] by simp
qed

declare folder_node.simps [simp del]

definition BuildRemoteTree ::
  "bool \<Rightarrow> bool \<Rightarrow> FolderRow list \<Rightarrow> FileRow list \<Rightarrow> int \<Rightarrow> string \<Rightarrow> MerkleNode option" where
  "BuildRemoteTree folderQueryFails fileQueryFails folderTable fileTable ownerID rootFolderID =
     (if folderQueryFails then None
      else
        let folders = filter (\<lambda>f. d_owner f = ownerID) folderTable;
            files = filter (\<lambda>r. f_owner r = ownerID \<and> \<not> f_deleted r) fileTable;
            below = filter (\<lambda>f. d_id f \<noteq> rootFolderID) folders
        in if rootFolderID \<noteq> [] \<and> rootFolderID \<notin> d_id ` set folders then None
           else if fileQueryFails then None
           else if rootFolderID \<noteq> [] then
             map_option (\<lambda>f. ComputeDirectoryHash (folder_node files below f)) (find (\<lambda>f. d_id f = rootFolderID) folders)
           else Some (ComputeDirectoryHash
             (MerkleNode ''root'' [] NodeDir 0 [] [] [] []
               (map (folder_node files below) (filter (\<lambda>f. d_parent f = []) folders)))))"

section \<open>Counting\<close>

lemma wrap64_mod: "wrap64 a = wrap64 b \<longleftrightarrow> a mod 2 ^ 64 = b mod 2 ^ 64"
proof -
  have "(a + 2 ^ 63) mod 2 ^ 64 = (b + 2 ^ 63) mod 2 ^ 64 \<longleftrightarrow> a mod 2 ^ 64 = b mod 2 ^ 64"
    by (simp only: mod_eq_dvd_iff add_diff_cancel_right)
  then show ?thesis by (simp add: wrap64_def)
qed

lemma wrap64_mod_self: "wrap64 a mod 2 ^ 64 = a mod 2 ^ 64"
  using wrap64_id [OF wrap64_range, of a] by (simp only: wrap64_mod)

lemma wrap64_add [simp]: "wrap64 (wrap64 a + b) = wrap64 (a + b)" "wrap64 (a + wrap64 b) = wrap64 (a + b)"
  unfolding wrap64_mod by (rule mod_add_cong [OF wrap64_mod_self refl], rule mod_add_cong [OF refl wrap64_mod_self])

lemma count_fold:
  "fold (\<lambda>(fc, tb) (n, t). (n + fc, wrap64 (t + tb))) xs (n0, wrap64 t0) =
     (n0 + sum_list (map fst xs), wrap64 (t0 + sum_list (map snd xs)))"
  by (induction xs arbitrary: n0 t0) (auto simp: add.assoc)

lemma wrap64_0 [simp]: "wrap64 0 = 0"
  by (simp add: wrap64_def)

lemma CountStats_dir:
  assumes "n_Type t \<noteq> NodeFile"
  shows "CountStats t = (sum_list (map (fst \<circ> CountStats) (n_Children t)), wrap64 (sum_list (map (snd \<circ> CountStats) (n_Children t))))"
  using assms count_fold [of "map CountStats (n_Children t)" 0 0] by (cases t) simp

lemma CountStats_file [simp]: "n_Type t = NodeFile \<Longrightarrow> CountStats t = (1, n_Size t)"
  by (cases t) simp

section \<open>What a directory hash determines\<close>

text \<open>The content of a tree without paths and ids.\<close>

datatype snapshot = FileSnap string int string | DirSnap string "snapshot list"

fun snap :: "MerkleNode \<Rightarrow> snapshot" where
  "snap (MerkleNode nm pa ty sz h fo fi mi cs) =
     (if ty = NodeDir then DirSnap nm (map snap cs) else FileSnap nm sz h)"

definition clean_text :: "string \<Rightarrow> bool" where
  "clean_text s \<longleftrightarrow> CHR '':'' \<notin> set s \<and> CHR '';'' \<notin> set s"

text \<open>Nodes are files or directories, sizes are 64-bit numbers, and no name or given hash contains one of
  the two separators.\<close>

fun clean_node :: "MerkleNode \<Rightarrow> bool" where
  "clean_node (MerkleNode nm pa ty sz h fo fi mi cs) \<longleftrightarrow>
     clean_text nm \<and> clean_text h \<and> ty \<in> {NodeFile, NodeDir} \<and> is_int64 sz \<and> list_all clean_node cs"

fun hashed :: "MerkleNode \<Rightarrow> bool" where
  "hashed (MerkleNode nm pa ty sz h fo fi mi cs) \<longleftrightarrow>
     (ty = NodeDir \<longrightarrow> h = hash_of (bytes_of_string (dir_text cs)) \<and> list_all hashed cs)"

fun dir_texts :: "MerkleNode \<Rightarrow> string set" where
  "dir_texts (MerkleNode nm pa ty sz h fo fi mi cs) =
     (if ty = NodeDir then insert (dir_text cs) (\<Union> (set (map dir_texts cs))) else {})"

lemma clean_hex [simp]: "clean_text (hex_encode bs)"
  using hex_encode_alphabet [of bs] by (auto simp: clean_text_def)

lemma clean_hash [simp]: "clean_text (hash_of d)"
  by (simp add: hash_of_def)

lemma clean_Itoa [simp]: "clean_text (Itoa i)"
proof -
  have "\<not> is_digit (CHR '':'')" "\<not> is_digit (CHR '';'')" by (simp_all add: is_digit_def)
  then have "clean_text (nat_digits n)" for n
    using is_digit_nat_digits [of n] by (auto simp: clean_text_def list_all_iff)
  then show ?thesis by (auto simp: Itoa_def clean_text_def)
qed

lemma clean_types: "clean_text NodeFile" "clean_text NodeDir"
  by (simp_all add: clean_text_def NodeFile_def NodeDir_def)

text \<open>Clean entries can be told apart and cut out of the text one by one.\<close>

definition clean_entry :: "MerkleNode \<Rightarrow> bool" where
  "clean_entry c \<longleftrightarrow> clean_text (n_Name c) \<and> clean_text (n_Type c) \<and> clean_text (n_Hash c) \<and> is_int64 (n_Size c)"

lemma cut_at: "c \<notin> set xs \<Longrightarrow> c \<notin> set ys \<Longrightarrow> xs @ c # r = ys @ c # r' \<longleftrightarrow> xs = ys \<and> r = r'"
  by (auto simp: append_eq_Cons_conv Cons_eq_append_conv append_eq_append_conv2)

lemma Itoa_inject: "is_int64 i \<Longrightarrow> is_int64 j \<Longrightarrow> Itoa i = Itoa j \<longleftrightarrow> i = j"
  by (metis ParseInt_Itoa prod.inject)

lemma child_entry_inject:
  assumes "clean_entry c" "clean_entry c'" "child_entry c @ rest = child_entry c' @ rest'"
  shows "n_Name c = n_Name c' \<and> n_Type c = n_Type c' \<and> n_Size c = n_Size c' \<and> n_Hash c = n_Hash c' \<and> rest = rest'"
proof -
  have sep: "CHR '':'' \<notin> set (n_Name d) \<and> CHR '':'' \<notin> set (n_Type d) \<and> CHR '':'' \<notin> set (Itoa (n_Size d)) \<and>
      CHR '';'' \<notin> set (n_Hash d)" if "clean_entry d" for d
    using that clean_Itoa [of "n_Size d"] by (simp add: clean_entry_def clean_text_def)
  show ?thesis
    using assms(3) sep [OF assms(1)] sep [OF assms(2)] Itoa_inject assms(1,2)
    by (simp add: child_entry_def cut_at clean_entry_def)
qed

lemma child_entry_not_Nil [simp]: "child_entry c \<noteq> []"
  by (simp add: child_entry_def)

lemma dir_text_inject:
  assumes "list_all clean_entry cs" "list_all clean_entry cs'" "dir_text cs = dir_text cs'"
  shows "list_all2 (\<lambda>c c'. n_Name c = n_Name c' \<and> n_Type c = n_Type c' \<and> n_Size c = n_Size c' \<and> n_Hash c = n_Hash c') cs cs'"
  using assms
proof (induction cs arbitrary: cs')
  case Nil
  then show ?case by (cases cs') (simp_all add: dir_text_def)
next
  case (Cons c cs)
  then obtain c' ds where cs': "cs' = c' # ds" by (cases cs') (simp_all add: dir_text_def)
  have eq: "child_entry c @ dir_text cs = child_entry c' @ dir_text ds"
    using Cons.prems(3) by (simp add: dir_text_def cs')
  from child_entry_inject [OF _ _ eq] Cons.prems Cons.IH [of ds] show ?case by (simp add: cs')
qed

lemma clean_entry_node: "clean_node c \<Longrightarrow> clean_entry c"
  using clean_types by (cases c) (auto simp: clean_entry_def)

text \<open>Computing the hashes keeps a tree clean and makes it hashed.\<close>

lemma Compute_type [simp]: "n_Type (ComputeDirectoryHash t) = n_Type t" "n_Name (ComputeDirectoryHash t) = n_Name t"
  by (cases t; simp add: Let_def)+

lemma fold_size_int64: "is_int64 t0 \<Longrightarrow> is_int64 (fold (\<lambda>c t. wrap64 (t + n_Size c)) cs t0)"
  by (induction cs arbitrary: t0) (simp_all add: wrap64_range)

lemma Compute_clean: "clean_node t \<Longrightarrow> clean_node (ComputeDirectoryHash t)"
proof (induction t rule: ComputeDirectoryHash.induct)
  case (1 nm pa ty sz h fo fi mi cs)
  have "is_int64 0" by (simp add: is_int64_def)
  then show ?case
    using 1 by (auto simp: Let_def list_all_iff leaf_hash_def fold_size_int64)
qed

lemma Compute_hashed: "clean_node t \<Longrightarrow> hashed (ComputeDirectoryHash t)"
  by (induction t rule: ComputeDirectoryHash.induct) (auto simp: Let_def list_all_iff)

lemma hash_of_inject: "hash_of a = hash_of b \<longleftrightarrow> sha256 a = sha256 b"
  by (metis hash_of_def hex_decode_encode option.inject)

text \<open>Two clean hashed directories with the same hash have the same content, unless two of the texts hashed
  for them collide.\<close>

lemma hashed_inject:
  assumes "hashed a" "hashed b" "clean_node a" "clean_node b" "n_Type a = NodeDir" "n_Type b = NodeDir" "n_Hash a = n_Hash b"
    and "inj_on (sha256 \<circ> bytes_of_string) (dir_texts a \<union> dir_texts b)"
  shows "map snap (n_Children a) = map snap (n_Children b)"
  using assms
proof (induction a arbitrary: b)
  case (MerkleNode nm pa ty sz h fo fi mi cs)
  obtain nm' pa' sz' h' fo' fi' mi' ds where b: "b = MerkleNode nm' pa' NodeDir sz' h' fo' fi' mi' ds"
    using MerkleNode.prems(6) by (cases b) simp
  have ty: "ty = NodeDir" using MerkleNode.prems(5) by simp
  have texts: "dir_text cs \<in> dir_texts (MerkleNode nm pa ty sz h fo fi mi cs)" "dir_text ds \<in> dir_texts b"
    by (simp_all add: ty b)
  have h: "h = hash_of (bytes_of_string (dir_text cs))" "h' = hash_of (bytes_of_string (dir_text ds))" "h = h'"
    "list_all hashed cs" "list_all hashed ds" "list_all clean_node cs" "list_all clean_node ds"
    using MerkleNode.prems(1-4,7) by (simp_all add: b ty)
  have "dir_text cs = dir_text ds"
    using h(1-3) texts by (intro inj_onD [OF MerkleNode.prems(8)]) (simp_all add: hash_of_inject)
  then have eq: "list_all2 (\<lambda>c c'. n_Name c = n_Name c' \<and> n_Type c = n_Type c' \<and> n_Size c = n_Size c' \<and> n_Hash c = n_Hash c') cs ds"
    using h by (intro dir_text_inject) (auto simp: list_all_iff clean_entry_node)
  have "snap c = snap c'" if c: "c \<in> set cs" "c' \<in> set ds" "n_Name c = n_Name c'" "n_Type c = n_Type c'"
    "n_Size c = n_Size c'" "n_Hash c = n_Hash c'" for c c'
  proof (cases "n_Type c = NodeDir")
    case True
    have "inj_on (sha256 \<circ> bytes_of_string) (dir_texts c \<union> dir_texts c')"
      using c(1,2) ty by (intro inj_on_subset [OF MerkleNode.prems(8)]) (auto simp: b)
    then have "map snap (n_Children c) = map snap (n_Children c')"
      using True c h by (intro MerkleNode.IH) (auto simp: list_all_iff comp_def)
    then show ?thesis using True c by (cases c; cases c') simp
  next
    case False
    then show ?thesis using c by (cases c; cases c') simp
  qed
  then have "map snap cs = map snap ds"
    using eq by (auto simp: list_all2_conv_all_nth intro!: nth_equalityI)
  then show ?case by (simp add: b)
qed

section \<open>Properties\<close>

text \<open>C25: equal root hashes mean equal trees. For two trees of files and directories in which no name and no
  given file hash contains a colon or a semicolon, if the computed hashes of the roots agree and no two of
  the texts hashed for their directories have the same SHA-256, then below the roots the trees have the
  same directories and the same files with the same names, sizes and hashes, in the same order.\<close>

theorem merkle_hash_determines_tree:
  assumes "clean_node a" "clean_node b" "n_Type a = NodeDir" "n_Type b = NodeDir"
    and "A = ComputeDirectoryHash a" "B = ComputeDirectoryHash b" "n_Hash A = n_Hash B"
    and "inj_on (sha256 \<circ> bytes_of_string) (dir_texts A \<union> dir_texts B)"
  shows "map snap (n_Children A) = map snap (n_Children B)"
  using assms by (intro hashed_inject) (simp_all add: Compute_hashed Compute_clean)

text \<open>with separators in names, different directories have the same hash: the directory with the files
  \<open>x\<close> and \<open>y\<close> and the directory with one file, whose name spells the entry of \<open>x\<close> and then the name of
  \<open>y\<close>, are hashed to the same value, whatever the names, sizes and hashes of the two files.\<close>

theorem merkle_hash_forgeable:
  assumes "n_Type x = NodeFile" "n_Type y = NodeFile" "n_Name x \<le> n_Name y" "n_Hash x \<noteq> []" "n_Hash y \<noteq> []"
    and "z = MerkleNode (child_entry x @ n_Name y) p NodeFile (n_Size y) (n_Hash y) fo fi mi []"
  shows "n_Hash (ComputeDirectoryHash (MerkleNode nm pa NodeDir sz h fo' fi' mi' [x, y])) =
         n_Hash (ComputeDirectoryHash (MerkleNode nm pa NodeDir sz h fo' fi' mi' [z]))"
proof -
  have leaf: "ComputeDirectoryHash n = n" if "n_Type n = NodeFile" "n_Hash n \<noteq> []" for n
    using that by (cases n) simp
  have "ComputeDirectoryHash z = z" using assms(5,6) by (intro leaf) simp_all
  moreover have "child_entry z = child_entry x @ child_entry y"
    using assms(2,6) by (simp add: child_entry_def)
  ultimately show ?thesis
    using assms(3) leaf [OF assms(1,4)] leaf [OF assms(2,5)] by (simp add: Let_def dir_text_def)
qed

definition ex_leaf :: "string \<Rightarrow> MerkleNode" where
  "ex_leaf nm = MerkleNode nm [] NodeFile 3 ''ab'' [] [] [] []"

definition ex_dir :: "MerkleNode list \<Rightarrow> MerkleNode" where
  "ex_dir cs = MerkleNode ''d'' [] NodeDir 0 [] [] [] [] cs"

lemma ex_computed:
  "ComputeDirectoryHash (ex_dir [ex_leaf ''b'', ex_leaf ''a'']) = ComputeDirectoryHash (ex_dir [ex_leaf ''a'', ex_leaf ''b''])"
  "dir_texts (ComputeDirectoryHash (ex_dir [ex_leaf ''a'', ex_leaf ''b''])) = {dir_text [ex_leaf ''a'', ex_leaf ''b'']}"
  by (simp_all add: ex_dir_def ex_leaf_def Let_def)

theorem merkle_hash_determines_tree_witness:
  "map snap (n_Children (ComputeDirectoryHash (ex_dir [ex_leaf ''b'', ex_leaf ''a'']))) =
   map snap (n_Children (ComputeDirectoryHash (ex_dir [ex_leaf ''a'', ex_leaf ''b''])))"
  by (rule merkle_hash_determines_tree [OF _ _ _ _ refl refl])
    (simp_all add: ex_computed, simp_all add: ex_dir_def ex_leaf_def clean_text_def is_int64_def)

lemma ex_Itoa: "Itoa 3 = ''3''"
  by (simp add: Itoa_def nat_digits.simps digit_def char_of_def bit_0)

theorem merkle_hash_forgeable_witness:
  "n_Hash (ComputeDirectoryHash (ex_dir [ex_leaf ''a'', ex_leaf ''b''])) =
   n_Hash (ComputeDirectoryHash (ex_dir [ex_leaf ''a:file:3:ab;b'']))"
  unfolding ex_dir_def
  by (rule merkle_hash_forgeable [where p = "[]" and fo = "[]" and fi = "[]" and mi = "[]"])
    (simp_all add: ex_leaf_def child_entry_def NodeFile_def ex_Itoa)

end
