(* ===== verification/Reconcile.thy ===== *)
theory Reconcile
  imports Merkle
begin

text \<open>
  The reconciliation of \<^verbatim>\<open>internal/reconcile/reconciler.go\<close> and its handler \<^verbatim>\<open>DiffTree\<close>: the client's tree is
  compared with the server's, and a plan says which files are there, which uploads can be resumed and which
  files are missing; folders that do not exist are created on the way. The state is the plan, the folders
  table and the number of ids drawn so far; the environment gives the random bytes and the failures.
\<close>

section \<open>Plans\<close>

datatype ActionType = ActionSkip | ActionResume | ActionUploadNew | ActionCreateDir

record ReconcileAction =
  a_Path :: string
  a_Name :: string
  a_Type :: string
  a_Action :: ActionType
  a_Reason :: string
  a_PrunedCount :: int
  a_BytesSaved :: int
  a_SessionID :: string
  a_UploadedBytes :: int
  a_TotalSize :: int
  a_TargetFolderID :: string
  a_MimeType :: string

record FolderProvision =
  v_Path :: string
  v_Name :: string
  v_ParentID :: string
  v_FolderID :: string

record ReconciliationSummary =
  TotalFiles :: int
  TotalSize :: int
  AlreadySyncedFiles :: int
  AlreadySyncedBytes :: int
  ResumableFiles :: int
  MissingFiles :: int
  BytesRemaining :: int

record ReconciliationPlan =
  RootSynced :: bool
  ReconciliationID :: string
  RootFolderID :: string
  Summary :: ReconciliationSummary
  Actions :: "ReconcileAction list"
  FoldersProvisioned :: "FolderProvision list"

record Recon =
  rplan :: ReconciliationPlan
  rfolders :: "FolderRow list"
  rdrawn :: nat

record ReconEnv =
  q_now :: instant
  q_rnd :: "nat \<Rightarrow> bytes"
  q_insertFails :: "nat \<Rightarrow> bool"
  q_folderQueryFails :: bool
  q_fileQueryFails :: bool
  q_files :: "FileRow list"
  q_sm :: SessionManager
  q_fs :: fs
  q_fails :: faults
  q_order :: "string list"
  q_owner :: int

definition new_folder_id :: "ReconEnv \<Rightarrow> nat \<Rightarrow> string" where
  "new_folder_id env k = ''f_'' @ Itoa (q_now env div Second) @ ''_'' @ take 8 (GenerateID (q_rnd env k))"

definition no_action :: "string \<Rightarrow> string \<Rightarrow> string \<Rightarrow> ActionType \<Rightarrow> string \<Rightarrow> ReconcileAction" where
  "no_action path nm ty act reason =
     \<lparr>a_Path = path, a_Name = nm, a_Type = ty, a_Action = act, a_Reason = reason, a_PrunedCount = 0, a_BytesSaved = 0,
      a_SessionID = [], a_UploadedBytes = 0, a_TotalSize = 0, a_TargetFolderID = [], a_MimeType = []\<rparr>"

definition add_action :: "ReconcileAction \<Rightarrow> (ReconciliationSummary \<Rightarrow> ReconciliationSummary) \<Rightarrow> Recon \<Rightarrow> Recon" where
  "add_action a f st =
     st\<lparr>rplan := (rplan st)\<lparr>Summary := f (Summary (rplan st)), Actions := Actions (rplan st) @ [a]\<rparr>\<rparr>"

text \<open>A new folder: its row (unless the insert fails) and its entry in the plan.\<close>

definition provision :: "ReconEnv \<Rightarrow> string \<Rightarrow> string \<Rightarrow> string \<Rightarrow> Recon \<Rightarrow> string \<times> Recon" where
  "provision env path nm parent st =
     (let fid = new_folder_id env (rdrawn st);
          row = \<lparr>d_id = fid, d_owner = q_owner env, d_parent = parent, d_name = nm\<rparr>
      in (fid, st\<lparr>rdrawn := rdrawn st + 1,
                  rfolders := (if q_insertFails env (rdrawn st) then rfolders st else rfolders st @ [row]),
                  rplan := (rplan st)\<lparr>FoldersProvisioned := FoldersProvisioned (rplan st) @
                    [\<lparr>v_Path = path, v_Name = nm, v_ParentID = parent, v_FolderID = fid\<rparr>]\<rparr>\<rparr>))"

definition subtree_skip :: "string \<Rightarrow> MerkleNode \<Rightarrow> string \<Rightarrow> Recon \<Rightarrow> Recon" where
  "subtree_skip path c target st =
     (case CountStats c of (subFiles, subBytes) \<Rightarrow>
        add_action ((no_action path (n_Name c) NodeDir ActionSkip ''subtree_merkle_match'')
            \<lparr>a_PrunedCount := subFiles, a_BytesSaved := subBytes, a_TargetFolderID := target\<rparr>)
          (\<lambda>s. s\<lparr>AlreadySyncedFiles := AlreadySyncedFiles s + subFiles,
                 AlreadySyncedBytes := wrap64 (AlreadySyncedBytes s + subBytes)\<rparr>) st)"

text \<open>The three cases of a file: there, half uploaded, missing.\<close>

definition reconcile_file ::
  "ReconEnv \<Rightarrow> string \<Rightarrow> string \<Rightarrow> MerkleNode \<Rightarrow> MerkleNode option \<Rightarrow> Recon \<Rightarrow> Recon" where
  "reconcile_file env path folderID c remote st =
     (if \<exists>r. remote = Some r \<and> n_Type r = NodeFile \<and> n_Size r = n_Size c then
        add_action ((no_action path (n_Name c) NodeFile ActionSkip ''file_already_completed'')
            \<lparr>a_BytesSaved := n_Size c, a_TotalSize := n_Size c, a_TargetFolderID := folderID\<rparr>)
          (\<lambda>s. s\<lparr>AlreadySyncedFiles := AlreadySyncedFiles s + 1,
                 AlreadySyncedBytes := wrap64 (AlreadySyncedBytes s + n_Size c)\<rparr>) st
      else
        case FindActiveSession (q_fails env) (q_order env) (q_owner env) folderID (n_Name c) (n_Size c) (q_sm env, q_fs env) of
          Some a \<Rightarrow>
            if s_UploadedSize a > 0 \<and> s_UploadedSize a < s_ExpectedSize a then
              add_action ((no_action path (n_Name c) NodeFile ActionResume ''incomplete_session_found'')
                  \<lparr>a_SessionID := s_ID a, a_UploadedBytes := s_UploadedSize a, a_TotalSize := s_ExpectedSize a,
                   a_TargetFolderID := folderID, a_MimeType := n_MimeType c\<rparr>)
                (\<lambda>s. s\<lparr>ResumableFiles := ResumableFiles s + 1,
                       AlreadySyncedBytes := wrap64 (AlreadySyncedBytes s + s_UploadedSize a),
                       BytesRemaining := wrap64 (BytesRemaining s + wrap64 (n_Size c - s_UploadedSize a))\<rparr>) st
            else
              add_action ((no_action path (n_Name c) NodeFile ActionUploadNew ''missing_file'')
                  \<lparr>a_TotalSize := n_Size c, a_TargetFolderID := folderID, a_MimeType := n_MimeType c\<rparr>)
                (\<lambda>s. s\<lparr>MissingFiles := MissingFiles s + 1, BytesRemaining := wrap64 (BytesRemaining s + n_Size c)\<rparr>) st
        | None \<Rightarrow>
              add_action ((no_action path (n_Name c) NodeFile ActionUploadNew ''missing_file'')
                  \<lparr>a_TotalSize := n_Size c, a_TargetFolderID := folderID, a_MimeType := n_MimeType c\<rparr>)
                (\<lambda>s. s\<lparr>MissingFiles := MissingFiles s + 1, BytesRemaining := wrap64 (BytesRemaining s + n_Size c)\<rparr>) st)"

text \<open>\<^verbatim>\<open>rChildrenMap\<close>: the last child of a name counts.\<close>

definition child_named :: "MerkleNode option \<Rightarrow> string \<Rightarrow> MerkleNode option" where
  "child_named rDir nm =
     (case rDir of None \<Rightarrow> None | Some r \<Rightarrow> find (\<lambda>c. n_Name c = nm) (rev (n_Children r)))"

definition child_path :: "string \<Rightarrow> MerkleNode \<Rightarrow> string" where
  "child_path dirPath c = (if n_Path c = [] then path_Join [dirPath, n_Name c] else n_Path c)"

fun reconcileDirNodes :: "ReconEnv \<Rightarrow> string \<Rightarrow> MerkleNode \<Rightarrow> MerkleNode option \<Rightarrow> Recon \<Rightarrow> Recon"
  and reconcile_children :: "ReconEnv \<Rightarrow> string \<Rightarrow> MerkleNode list \<Rightarrow> MerkleNode option \<Rightarrow> Recon \<Rightarrow> Recon" where
  "reconcileDirNodes env path (MerkleNode nm pa ty sz h fo fi mi cs) rDir st = reconcile_children env path cs rDir st"
| "reconcile_children env path [] rDir st = st"
| "reconcile_children env path (c # cs) rDir st =
     reconcile_children env path cs rDir
       (let childPath = child_path path c;
            folderID = (case rDir of None \<Rightarrow> [] | Some r \<Rightarrow> n_FolderID r);
            remote = child_named rDir (n_Name c)
        in if n_Type c = NodeDir then
             (case (if \<exists>r. remote = Some r \<and> n_Type r = NodeDir then remote else None) of
                Some r \<Rightarrow>
                  if n_Hash c \<noteq> [] \<and> n_Hash r \<noteq> [] \<and> n_Hash c = n_Hash r then subtree_skip childPath c (n_FolderID r) st
                  else reconcileDirNodes env childPath c (Some r) st
              | None \<Rightarrow>
                  (case provision env childPath (n_Name c) folderID st of (fid, st1) \<Rightarrow>
                     reconcileDirNodes env childPath c (Some (MerkleNode (n_Name c) childPath NodeDir 0 [] fid [] [] [])) st1))
           else if n_Type c = NodeFile then reconcile_file env childPath folderID c remote st
           else st)"

definition root_name :: "MerkleNode \<Rightarrow> string" where
  "root_name t = (let n = path_Base (path_Clean (n_Name t)) in if n \<in> {''.'', ''/'', []} then ''uploaded_folder'' else n)"

definition empty_plan :: "ReconEnv \<Rightarrow> int \<Rightarrow> int \<Rightarrow> ReconciliationPlan" where
  "empty_plan env totalFiles totalBytes =
     \<lparr>RootSynced = False, ReconciliationID = ''rec_'' @ take 12 (GenerateID (q_rnd env 0)), RootFolderID = [],
      Summary = \<lparr>TotalFiles = totalFiles, TotalSize = totalBytes, AlreadySyncedFiles = 0, AlreadySyncedBytes = 0,
                 ResumableFiles = 0, MissingFiles = 0, BytesRemaining = 0\<rparr>,
      Actions = [], FoldersProvisioned = []\<rparr>"

text \<open>Steps 3 and 4 of \<^verbatim>\<open>ReconcileTree\<close>: the whole tree is skipped on equal root hashes, or the nodes are
  compared.\<close>

definition compare_roots :: "ReconEnv \<Rightarrow> MerkleNode \<Rightarrow> string \<Rightarrow> string \<Rightarrow> MerkleNode option \<Rightarrow> string \<Rightarrow> Recon \<Rightarrow> Recon" where
  "compare_roots env clientTree rootName rootPath remote fid st =
     (let (totalFiles, totalBytes) = CountStats clientTree;
          st1 = st\<lparr>rplan := (rplan st)\<lparr>RootFolderID := fid\<rparr>\<rparr>
      in if \<exists>r. remote = Some r \<and> n_Hash r \<noteq> [] \<and> n_Hash clientTree \<noteq> [] \<and> n_Hash clientTree = n_Hash r then
           add_action ((no_action rootPath rootName NodeDir ActionSkip ''root_merkle_match'')
               \<lparr>a_PrunedCount := totalFiles, a_BytesSaved := totalBytes\<rparr>)
             (\<lambda>s. s\<lparr>AlreadySyncedFiles := totalFiles, AlreadySyncedBytes := totalBytes, BytesRemaining := 0\<rparr>)
             (st1\<lparr>rplan := (rplan st1)\<lparr>RootSynced := True\<rparr>\<rparr>)
         else reconcileDirNodes env rootPath clientTree remote st1)"

text \<open>\<^verbatim>\<open>ReconcileTree\<close>: the folders table afterwards and the plan, nothing for an error.\<close>

definition ReconcileTree :: "ReconEnv \<Rightarrow> FolderRow list \<Rightarrow> MerkleNode \<Rightarrow> string \<Rightarrow> Recon option" where
  "ReconcileTree env folders tree targetFolderID =
     (let target = (if targetFolderID = ''root'' then [] else targetFolderID);
          clientTree = ComputeDirectoryHash tree;
          rootName = root_name clientTree;
          rootPath = (if n_Path clientTree = [] then rootName else n_Path clientTree);
          st0 = \<lparr>rplan = empty_plan env (fst (CountStats clientTree)) (snd (CountStats clientTree)), rfolders = folders, rdrawn = 1\<rparr>;
          existing = find (\<lambda>f. d_owner f = q_owner env \<and> d_name f = rootName \<and>
              (if target = [] then d_parent f \<in> {[], ''root''} else d_parent f = target)) folders;
          fid = (case existing of None \<Rightarrow> [] | Some f \<Rightarrow> d_id f)
      in if fid = [] then
           if q_insertFails env 1 then None
           else (case provision env rootPath rootName target st0 of (newID, st1) \<Rightarrow>
             Some (compare_roots env clientTree rootName rootPath
               (Some (MerkleNode rootName rootPath NodeDir 0 [] newID [] [] [])) newID st1))
         else
           Some (compare_roots env clientTree rootName rootPath
             (BuildRemoteTree (q_folderQueryFails env) (q_fileQueryFails env) folders (q_files env) (q_owner env) fid) fid st0))"

section \<open>The handler\<close>

datatype diff_response = DiffError int | DiffPlan ReconciliationPlan

record DiffRequest =
  g_target :: string
  g_rootName :: string
  g_tree :: "MerkleNode option"
  g_unlocked :: bool

definition request_tree :: "DiffRequest \<Rightarrow> MerkleNode \<Rightarrow> MerkleNode" where
  "request_tree rq t =
     (let n1 = (if g_rootName rq \<noteq> [] \<and> n_Name t = [] then g_rootName rq else n_Name t);
          n2 = (if n1 = [] then ''uploaded_folder'' else n1)
      in case t of MerkleNode nm pa ty sz h fo fi mi cs \<Rightarrow> MerkleNode (path_Base (path_Clean n2)) pa ty sz h fo fi mi cs)"

definition DiffTree ::
  "ReconEnv \<Rightarrow> int \<Rightarrow> (string \<Rightarrow> bool) \<Rightarrow> DiffRequest \<Rightarrow> FolderRow list \<Rightarrow> FolderRow list \<times> diff_response" where
  "DiffTree env quota isVault rq folders =
     (case g_tree rq of
        None \<Rightarrow> (folders, DiffError 400)
      | Some t \<Rightarrow>
          if isVault (g_target rq) \<and> \<not> g_unlocked rq then (folders, DiffError 401)
          else case ReconcileTree env folders (request_tree rq t) (g_target rq) of
              None \<Rightarrow> (folders, DiffError 500)
            | Some st \<Rightarrow>
                let remaining = BytesRemaining (Summary (rplan st)) in
                if quota > 0 \<and> remaining > 0 \<and>
                   wrap64 (GetUserStorageUsed (q_owner env) (q_files env) + remaining) > quota
                then (rfolders st, DiffError 413)
                else (rfolders st, DiffPlan (if RootFolderID (rplan st) = [] \<and> TrimSpace (g_target rq) \<noteq> []
                        then (rplan st)\<lparr>RootFolderID := g_target rq\<rparr> else rplan st)))"

section \<open>Bookkeeping\<close>

fun typed :: "MerkleNode \<Rightarrow> bool" where
  "typed (MerkleNode nm pa ty sz h fo fi mi cs) \<longleftrightarrow> ty = NodeFile \<or> ty = NodeDir \<and> list_all typed cs"

definition files_seen :: "Recon \<Rightarrow> int" where
  "files_seen st = (let s = Summary (rplan st) in AlreadySyncedFiles s + ResumableFiles s + MissingFiles s)"

definition bytes_seen :: "Recon \<Rightarrow> int" where
  "bytes_seen st = (let s = Summary (rplan st) in AlreadySyncedBytes s + BytesRemaining s)"

lemma seen_add_action:
  "files_seen (add_action a f st) = (let s = f (Summary (rplan st)) in AlreadySyncedFiles s + ResumableFiles s + MissingFiles s)"
  "bytes_seen (add_action a f st) = (let s = f (Summary (rplan st)) in AlreadySyncedBytes s + BytesRemaining s)"
  "Summary (rplan (add_action a f st)) = f (Summary (rplan st))"
  by (simp_all add: files_seen_def bytes_seen_def add_action_def)

lemma provision_seen: "provision env path nm parent st = (fid, st1) \<Longrightarrow> Summary (rplan st1) = Summary (rplan st)"
  by (auto simp: provision_def Let_def)

lemma wrap64_terms:
  "wrap64 (wrap64 (a + u) + b + wrap64 (c - u)) = wrap64 (a + b + c)"
  "wrap64 (wrap64 (a + c) + b) = wrap64 (a + b + c)" "wrap64 (a + wrap64 (b + c)) = wrap64 (a + b + c)"
proof -
  have "wrap64 (wrap64 (a + u) + b + wrap64 (c - u)) = wrap64 (wrap64 (a + u) + (b + (c - u)))"
    by (simp only: wrap64_add(2)) (simp only: add.assoc)
  also have "\<dots> = wrap64 (a + u + (b + (c - u)))" by (rule wrap64_add(1))
  finally show "wrap64 (wrap64 (a + u) + b + wrap64 (c - u)) = wrap64 (a + b + c)" by (simp add: add.commute add.left_commute)
qed (simp_all add: ac_simps)

lemma reconcile_file_seen:
  "files_seen (reconcile_file env path fid c remote st) = files_seen st + 1 \<and>
   wrap64 (bytes_seen (reconcile_file env path fid c remote st)) = wrap64 (bytes_seen st + n_Size c)"
  by (auto simp: reconcile_file_def seen_add_action files_seen_def bytes_seen_def Let_def wrap64_terms split: option.splits
      simp del: wrap64_add)

lemma subtree_skip_seen:
  "files_seen (subtree_skip path c t st) = files_seen st + fst (CountStats c) \<and>
   wrap64 (bytes_seen (subtree_skip path c t st)) = wrap64 (bytes_seen st + snd (CountStats c))"
  by (auto simp: subtree_skip_def seen_add_action files_seen_def bytes_seen_def Let_def wrap64_terms split: prod.splits simp del: wrap64_add)

text \<open>A directory adds what \<^verbatim>\<open>CountStats\<close> counts in it.\<close>

lemma reconcile_seen:
  "typed t \<Longrightarrow> n_Type t = NodeDir \<Longrightarrow>
     files_seen (reconcileDirNodes env path t rDir st) = files_seen st + fst (CountStats t) \<and>
     wrap64 (bytes_seen (reconcileDirNodes env path t rDir st)) = wrap64 (bytes_seen st + snd (CountStats t))"
  "list_all typed cs \<Longrightarrow>
     files_seen (reconcile_children env path cs rDir st) = files_seen st + sum_list (map (fst \<circ> CountStats) cs) \<and>
     wrap64 (bytes_seen (reconcile_children env path cs rDir st)) = wrap64 (bytes_seen st + sum_list (map (snd \<circ> CountStats) cs))"
proof (induction env path t rDir st and env path cs rDir st rule: reconcileDirNodes_reconcile_children.induct)
  case (1 env path nm pa ty sz h fo fi mi cs rDir st)
  let ?t = "MerkleNode nm pa ty sz h fo fi mi cs"
  have "CountStats ?t = (sum_list (map (fst \<circ> CountStats) cs), wrap64 (sum_list (map (snd \<circ> CountStats) cs)))"
    using "1.prems"(2) CountStats_dir [of ?t] by simp
  then show ?case using 1 by (simp add: comp_def del: CountStats.simps)
next
  case (2 env path rDir st)
  show ?case by simp
next
  case (3 env path c cs rDir st)
  let ?fid = "case rDir of None \<Rightarrow> [] | Some r \<Rightarrow> n_FolderID r" and ?remote = "child_named rDir (n_Name c)"
  let ?there = "if \<exists>r. ?remote = Some r \<and> n_Type r = NodeDir then ?remote else None"
  let ?path = "child_path path c"
  have ty: "typed c" "list_all typed cs" "n_Type c = NodeFile \<or> n_Type c = NodeDir"
    using "3.prems" by (cases c; auto)+
  define st1 where "st1 = (if n_Type c = NodeDir then
             (case ?there of
                Some r \<Rightarrow>
                  if n_Hash c \<noteq> [] \<and> n_Hash r \<noteq> [] \<and> n_Hash c = n_Hash r then subtree_skip ?path c (n_FolderID r) st
                  else reconcileDirNodes env ?path c (Some r) st
              | None \<Rightarrow>
                  (case provision env ?path (n_Name c) ?fid st of (fid, st1) \<Rightarrow>
                     reconcileDirNodes env ?path c (Some (MerkleNode (n_Name c) ?path NodeDir 0 [] fid [] [] [])) st1))
           else if n_Type c = NodeFile then reconcile_file env ?path ?fid c ?remote st
           else st)"
  have one: "files_seen st1 = files_seen st + fst (CountStats c) \<and> wrap64 (bytes_seen st1) = wrap64 (bytes_seen st + snd (CountStats c))"
  proof (cases "n_Type c = NodeFile")
    case True
    then show ?thesis using reconcile_file_seen by (simp add: st1_def)
  next
    case False
    then have dir: "n_Type c = NodeDir" using ty(3) by simp
    show ?thesis
    proof (cases ?there)
      case None
      obtain fid st2 where p: "provision env ?path (n_Name c) ?fid st = (fid, st2)" by fastforce
      have "files_seen st2 = files_seen st" "bytes_seen st2 = bytes_seen st"
        using provision_seen [OF p] by (simp_all add: files_seen_def bytes_seen_def)
      then show ?thesis
        using "3.IH"(1) [OF refl refl refl dir None p [symmetric] ty(1) dir] dir None p by (simp add: st1_def)
    next
      case (Some r)
      show ?thesis
        using "3.IH"(2) [OF refl refl refl dir Some _ ty(1) dir] subtree_skip_seen [of ?path c "n_FolderID r" st] dir Some
        by (auto simp: st1_def)
    qed
  qed
  have step: "reconcile_children env path (c # cs) rDir st = reconcile_children env path cs rDir st1"
    by (simp add: st1_def Let_def)
  have rest: "files_seen (reconcile_children env path cs rDir st1) = files_seen st1 + sum_list (map (fst \<circ> CountStats) cs) \<and>
      wrap64 (bytes_seen (reconcile_children env path cs rDir st1)) = wrap64 (bytes_seen st1 + sum_list (map (snd \<circ> CountStats) cs))"
    using "3.IH"(3) [OF ty(2)] unfolding st1_def Let_def .
  have "wrap64 (bytes_seen st1 + sum_list (map (snd \<circ> CountStats) cs)) =
      wrap64 (wrap64 (bytes_seen st1) + sum_list (map (snd \<circ> CountStats) cs))" by simp
  also have "\<dots> = wrap64 (bytes_seen st + snd (CountStats c) + sum_list (map (snd \<circ> CountStats) cs))"
    using one by simp
  finally show ?case using one rest unfolding step by (simp add: add.assoc comp_def)
qed

section \<open>Properties\<close>

lemma typed_Compute: "typed t \<Longrightarrow> typed (ComputeDirectoryHash t)"
  by (induction t rule: ComputeDirectoryHash.induct) (auto simp: Let_def list_all_iff)

lemma CountStats_wrapped: "n_Type t \<noteq> NodeFile \<Longrightarrow> wrap64 (snd (CountStats t)) = snd (CountStats t)"
  by (simp add: CountStats_dir wrap64_range)

definition totals :: "Recon \<Rightarrow> int \<times> int" where
  "totals st = (TotalFiles (Summary (rplan st)), TotalSize (Summary (rplan st)))"

lemma totals_add_action:
  "(\<And>s. TotalFiles (f s) = TotalFiles s \<and> TotalSize (f s) = TotalSize s) \<Longrightarrow> totals (add_action a f st) = totals st"
  by (simp add: totals_def add_action_def)

lemma totals_steps:
  "totals (subtree_skip path c t st) = totals st" "totals (reconcile_file env path fid c remote st) = totals st"
  by (simp_all add: subtree_skip_def reconcile_file_def totals_add_action split: prod.split option.split)

lemma totals_provision: "provision env path nm parent st = (fid, st1) \<Longrightarrow> totals st1 = totals st"
  by (auto simp: totals_def dest: provision_seen)

lemma reconcile_totals:
  "totals (reconcileDirNodes env path t rDir st) = totals st"
  "totals (reconcile_children env path cs rDir st) = totals st"
proof (induction env path t rDir st and env path cs rDir st rule: reconcileDirNodes_reconcile_children.induct)
  case (3 env path c cs rDir st)
  show ?case
    unfolding reconcile_children.simps(2) "3.IH"(3)
    using "3.IH"(1,2)
    by (simp add: totals_steps totals_provision Let_def split: option.split prod.split)
qed simp_all

definition accounted :: "MerkleNode \<Rightarrow> Recon \<Rightarrow> bool" where
  "accounted t st \<longleftrightarrow> totals st = CountStats t \<and> files_seen st = fst (CountStats t) \<and> wrap64 (bytes_seen st) = snd (CountStats t)"

lemma compare_roots_accounted:
  assumes "typed t" "n_Type t = NodeDir" "totals st = CountStats t" "files_seen st = 0" "bytes_seen st = 0"
    and "ResumableFiles (Summary (rplan st)) = 0" "MissingFiles (Summary (rplan st)) = 0"
  shows "accounted t (compare_roots env t nm path remote fid st)"
proof -
  let ?st1 = "st\<lparr>rplan := (rplan st)\<lparr>RootFolderID := fid\<rparr>\<rparr>"
  have 1: "totals ?st1 = CountStats t" "files_seen ?st1 = 0" "bytes_seen ?st1 = 0"
    using assms by (simp_all add: totals_def files_seen_def bytes_seen_def)
  have w: "wrap64 (snd (CountStats t)) = snd (CountStats t)" using assms(2) by (intro CountStats_wrapped) simp
  then have "accounted t (reconcileDirNodes env path t remote ?st1)"
    using reconcile_seen(1) [OF assms(1,2), of env path remote ?st1] 1 by (simp add: accounted_def reconcile_totals)
  then show ?thesis
    using assms w
    by (auto simp: compare_roots_def accounted_def Let_def totals_def add_action_def files_seen_def bytes_seen_def split: prod.splits)
qed

lemma ReconcileTree_accounted:
  assumes R: "ReconcileTree env folders tree target = Some st" and t: "typed tree" "n_Type tree = NodeDir"
  shows "accounted (ComputeDirectoryHash tree) st"
proof -
  let ?t = "ComputeDirectoryHash tree"
  let ?st0 = "\<lparr>rplan = empty_plan env (fst (CountStats ?t)) (snd (CountStats ?t)), rfolders = folders, rdrawn = 1\<rparr>"
  have z: "totals ?st0 = CountStats ?t" "Summary (rplan ?st0) = Summary (rplan ?st0)"
    "files_seen ?st0 = 0" "bytes_seen ?st0 = 0" "ResumableFiles (Summary (rplan ?st0)) = 0" "MissingFiles (Summary (rplan ?st0)) = 0"
    by (simp_all add: totals_def files_seen_def bytes_seen_def empty_plan_def)
  note ok = compare_roots_accounted [OF typed_Compute [OF t(1)]]
  have "totals st1 = CountStats ?t" "files_seen st1 = 0" "bytes_seen st1 = 0"
    "ResumableFiles (Summary (rplan st1)) = 0" "MissingFiles (Summary (rplan st1)) = 0"
    if "provision env path nm parent ?st0 = (fid, st1)" for path nm parent fid st1
    using provision_seen [OF that] totals_provision [OF that] z by (simp_all add: files_seen_def bytes_seen_def)
  then show ?thesis
    using R t(2) z ok by (auto simp: ReconcileTree_def Let_def split: if_splits prod.splits)
qed

text \<open>C24: a reconciliation plan accounts for everything. For any client tree of files and directories, any
  server state, and whichever inserts and queries fail, a plan counts every file of the tree exactly once
  as there, resumable or missing, and the synced and the remaining bytes add up to the bytes of the tree
  (in 64-bit arithmetic).\<close>

theorem plan_accounts_for_every_file:
  assumes "ReconcileTree env folders tree target = Some st" "typed tree" "n_Type tree = NodeDir"
  shows "let s = Summary (rplan st) in
     (TotalFiles s, TotalSize s) = CountStats (ComputeDirectoryHash tree) \<and>
     AlreadySyncedFiles s + ResumableFiles s + MissingFiles s = TotalFiles s \<and>
     wrap64 (AlreadySyncedBytes s + BytesRemaining s) = TotalSize s"
  using ReconcileTree_accounted [OF assms]
  by (cases "CountStats (ComputeDirectoryHash tree)") (simp add: accounted_def totals_def files_seen_def bytes_seen_def Let_def)

lemma ReconcileTree_plans: "\<not> q_insertFails env 1 \<Longrightarrow> \<exists>st. ReconcileTree env folders tree target = Some st"
  by (simp add: ReconcileTree_def provision_def Let_def)

text \<open>A server with one folder in the root, and a client that offers the folder with one file.\<close>

definition one_folder :: "ReconEnv \<Rightarrow> FolderRow \<Rightarrow> string \<Rightarrow> bool" where
  "one_folder env f nm \<longleftrightarrow> d_id f \<noteq> [] \<and> d_owner f = q_owner env \<and> d_parent f = [] \<and> d_name f = nm \<and> \<not> q_folderQueryFails env"

definition client_dir :: "string \<Rightarrow> MerkleNode list \<Rightarrow> MerkleNode" where
  "client_dir nm cs = MerkleNode nm [] NodeDir 0 [] [] [] [] cs"

lemma ReconcileTree_one:
  assumes "one_folder env f (root_name (client_dir nm [c]))"
  shows "ReconcileTree env [f] (client_dir nm [c]) [] =
    (let t = ComputeDirectoryHash (client_dir nm [c]); rn = root_name (client_dir nm [c])
     in Some (compare_roots env t rn rn
          (BuildRemoteTree False (q_fileQueryFails env) [f] (q_files env) (q_owner env) (d_id f)) (d_id f)
          \<lparr>rplan = empty_plan env (fst (CountStats t)) (snd (CountStats t)), rfolders = [f], rdrawn = 1\<rparr>))"
proof -
  have "root_name (ComputeDirectoryHash (client_dir nm [c])) = root_name (client_dir nm [c])" by (simp add: root_name_def)
  moreover have "n_Path (ComputeDirectoryHash (client_dir nm [c])) = []" by (simp add: client_dir_def Let_def)
  ultimately show ?thesis using assms by (simp add: ReconcileTree_def one_folder_def Let_def)
qed

text \<open>a file that was edited without changing its length is never uploaded again. When the server has a
  file of the same name and size in the folder, the plan skips the client's file and asks for no bytes,
  although the hash the client sent differs from the one the server recorded.\<close>

theorem edited_file_is_skipped:
  assumes F: "one_folder env f (root_name (client_dir nm [c]))" and "\<not> q_fileQueryFails env"
    and c: "n_Type c = NodeFile" "n_Hash c \<noteq> f_plain r" "n_Name c = f_name r" "n_Size c = f_size r"
    and r: "q_files env = [r]" "f_owner r = q_owner env" "\<not> f_deleted r" "f_folder r = d_id f"
  shows "\<exists>st. ReconcileTree env [f] (client_dir nm [c]) [] = Some st \<and> map a_Action (Actions (rplan st)) = [ActionSkip] \<and>
           BytesRemaining (Summary (rplan st)) = 0 \<and> MissingFiles (Summary (rplan st)) = 0"
proof -
  have C: "n_Children (ComputeDirectoryHash (client_dir nm [c])) = [ComputeDirectoryHash c]"
    "n_Type (ComputeDirectoryHash c) = NodeFile" "n_Name (ComputeDirectoryHash c) = n_Name c" "n_Size (ComputeDirectoryHash c) = n_Size c"
    using c(1) by (cases c; simp add: client_dir_def Let_def)+
  obtain R where R: "BuildRemoteTree False False [f] (q_files env) (q_owner env) (d_id f) = Some R"
    "n_Children R = [ComputeDirectoryHash (file_node r)]" "n_FolderID R = d_id f"
    using F r by (auto simp: BuildRemoteTree_def one_folder_def folder_node.simps Let_def)
  have N: "n_Type (ComputeDirectoryHash (file_node r)) = NodeFile" "n_Name (ComputeDirectoryHash (file_node r)) = f_name r"
    "n_Size (ComputeDirectoryHash (file_node r)) = f_size r"
    by (simp_all add: file_node_def)
  have "reconcileDirNodes env path t (Some R) st = reconcile_children env path (n_Children t) (Some R) st" for path t st
    by (cases t) simp
  then have "map a_Action (Actions (rplan (reconcileDirNodes env path (ComputeDirectoryHash (client_dir nm [c])) (Some R) st))) =
        map a_Action (Actions (rplan st)) @ [ActionSkip] \<and>
      BytesRemaining (Summary (rplan (reconcileDirNodes env path (ComputeDirectoryHash (client_dir nm [c])) (Some R) st))) = BytesRemaining (Summary (rplan st)) \<and>
      MissingFiles (Summary (rplan (reconcileDirNodes env path (ComputeDirectoryHash (client_dir nm [c])) (Some R) st))) = MissingFiles (Summary (rplan st))" for path st
    using C N R c by (simp add: child_named_def reconcile_file_def Let_def add_action_def no_action_def)
  then show ?thesis
    using R(1) assms(2) unfolding ReconcileTree_one [OF F] Let_def
    by (auto simp: compare_roots_def empty_plan_def add_action_def no_action_def Let_def split: prod.splits)
qed

text \<open>when the query for the server's files fails, the plan for an existing folder sends the upload to the
  root of the drive: the plan names the folder, but the file's target folder is empty.\<close>

theorem failed_query_targets_root:
  assumes F: "one_folder env f (root_name (client_dir nm [c]))" and "q_fileQueryFails env" "n_Type c = NodeFile" "q_order env = []"
  shows "\<exists>st a. ReconcileTree env [f] (client_dir nm [c]) [] = Some st \<and> RootFolderID (rplan st) = d_id f \<and> d_id f \<noteq> [] \<and>
           Actions (rplan st) = [a] \<and> a_Action a = ActionUploadNew \<and> a_TargetFolderID a = []"
proof -
  have C: "n_Children (ComputeDirectoryHash (client_dir nm [c])) = [ComputeDirectoryHash c]"
    "n_Type (ComputeDirectoryHash c) = NodeFile"
    using assms(3) by (cases c; simp add: client_dir_def Let_def)+
  have "BuildRemoteTree False True [f] (q_files env) (q_owner env) (d_id f) = None"
    using F by (simp add: BuildRemoteTree_def one_folder_def)
  moreover have "reconcileDirNodes env path t None st = reconcile_children env path (n_Children t) None st" for path t st
    by (cases t) simp
  ultimately show ?thesis
    using C assms(2,4) F unfolding ReconcileTree_one [OF F] Let_def
    by (auto simp: compare_roots_def empty_plan_def add_action_def no_action_def child_named_def reconcile_file_def one_folder_def
        Let_def split: prod.splits)
qed

definition ex_renv :: "bool \<Rightarrow> FileRow list \<Rightarrow> ReconEnv" where
  "ex_renv failing files =
     \<lparr>q_now = 7 * Second, q_rnd = (\<lambda>k. [of_nat k, 1, 2, 3, 4, 5, 6]), q_insertFails = (\<lambda>_. False), q_folderQueryFails = False,
      q_fileQueryFails = failing, q_files = files, q_sm = \<lparr>sessions = Map.empty, TempDir = ''tmp''\<rparr>, q_fs = Map.empty,
      q_fails = no_faults, q_order = [], q_owner = 1\<rparr>"

definition ex_folder :: FolderRow where
  "ex_folder = \<lparr>d_id = ''f9'', d_owner = 1, d_parent = [], d_name = ''d''\<rparr>"

definition ex_row :: FileRow where
  "ex_row = \<lparr>f_id = ''x'', f_owner = 1, f_folder = ''f9'', f_name = ''a'', f_mime = [], f_size = 3, f_cas = ''cc'',
     f_plain = ''dd'', f_deleted = False\<rparr>"

lemma ex_root_name: "root_name (client_dir ''d'' cs) = ''d''"
proof -
  have "path_Base (path_Clean ''d'') = ''d''" by code_simp
  then show ?thesis by (simp add: root_name_def client_dir_def)
qed

theorem plan_accounts_for_every_file_witness:
  "\<exists>st. ReconcileTree (ex_renv False []) [] (client_dir ''d'' [ex_leaf ''a'', ex_dir [ex_leaf ''b'']]) [] = Some st \<and>
     AlreadySyncedFiles (Summary (rplan st)) + ResumableFiles (Summary (rplan st)) + MissingFiles (Summary (rplan st)) =
       TotalFiles (Summary (rplan st))"
proof -
  let ?t = "client_dir ''d'' [ex_leaf ''a'', ex_dir [ex_leaf ''b'']]"
  obtain st where st: "ReconcileTree (ex_renv False []) [] ?t [] = Some st"
    using ReconcileTree_plans [of "ex_renv False []" "[]" ?t "[]"] by (auto simp: ex_renv_def)
  have "typed ?t" "n_Type ?t = NodeDir" by (simp_all add: client_dir_def ex_dir_def ex_leaf_def)
  from plan_accounts_for_every_file [OF st this] st show ?thesis by (simp add: Let_def)
qed

theorem edited_file_is_skipped_witness:
  "\<exists>st. ReconcileTree (ex_renv False [ex_row]) [ex_folder] (client_dir ''d'' [ex_leaf ''a'']) [] = Some st \<and>
     map a_Action (Actions (rplan st)) = [ActionSkip] \<and> BytesRemaining (Summary (rplan st)) = 0 \<and>
     MissingFiles (Summary (rplan st)) = 0"
  by (rule edited_file_is_skipped [where r = ex_row])
    (simp_all add: one_folder_def ex_root_name, simp_all add: ex_folder_def ex_renv_def ex_row_def ex_leaf_def)

theorem failed_query_targets_root_witness:
  "\<exists>st a. ReconcileTree (ex_renv True []) [ex_folder] (client_dir ''d'' [ex_leaf ''a'']) [] = Some st \<and>
     RootFolderID (rplan st) = d_id ex_folder \<and> d_id ex_folder \<noteq> [] \<and>
     Actions (rplan st) = [a] \<and> a_Action a = ActionUploadNew \<and> a_TargetFolderID a = []"
  by (rule failed_query_targets_root)
    (simp_all add: one_folder_def ex_root_name, simp_all add: ex_folder_def ex_renv_def ex_leaf_def)

end
