(* ===== verification/Spec2Isabelle.thy ===== *)
theory Spec2Isabelle
  imports Torrent Direct_Transfer Panic_Purge Zip_Stream Stream_Crypto Storage_Key CAS_Engine Upload_Sessions Proof_Of_Ownership Upload_Pipeline Folder_Operations File_Download Merkle Reconcile
    Vault_Folders Auth_Sessions Bencode Download_State Accelerated
begin

text \<open>
  \<^bold>\<open>hornetzDrive: a verification library.\<close>

  hornetzDrive is a self-hosted drive written in Go. Files reach it through resumable chunked uploads or
  through its own download manager, are encrypted chunk by chunk with AES-256-GCM, and are stored once per
  content in a store addressed by SHA-256. Folders below the folder \<^verbatim>\<open>f2\<close> form a vault whose key lives only
  in the memory of an unlocked session. A client that already has a tree of files asks for a reconciliation
  plan, and one that already has the bytes of a blob proves it with an HMAC over random samples.

  \<^bold>\<open>How the parts interact.\<close> \<^verbatim>\<open>UploadChunk\<close> looks a session up in the session manager, checks offset and
  quota, takes the key (the storage key, or the vault key of the request's session), encrypts the body
  into the session's temporary file through \<^verbatim>\<open>EncryptStream\<close>, records the progress beside it, and moves a
  full file into the content store; the row it inserts names the blob by its hash. The file browser reads the
  blob back through \<^verbatim>\<open>DecryptStream\<close>, whole, by ranges, or as an entry of an archive of a folder; it moves rows
  between folders, encrypts a blob anew when a file crosses the border of the vault, and drops a blob when the
  last row that names it is deleted. The download manager runs one goroutine per task: it resolves the link,
  probes it, receives the bytes (from a web server, in parallel pieces with a journal on disk, or from the peers
  of a torrent), writes them through an \<^verbatim>\<open>EncryptStream\<close> into a temporary file, and stores and records the
  result as an upload does. A purge cancels the tasks and empties store, tables and sessions.

  \<^bold>\<open>Theories and the code they model\<close> (paths below \<^verbatim>\<open>src/internal/\<close>).

  \<^item> \<^verbatim>\<open>Prelude\<close>, \<^verbatim>\<open>Go_Strings\<close>, \<^verbatim>\<open>Go_Files\<close>, \<^verbatim>\<open>Go_Crypto\<close>: what the sources use of Go's standard library. Byte
    slices are lists of 8-bit words, \<^verbatim>\<open>int64\<close> sums wrap through \<^const>\<open>wrap64\<close>, the disk is a map from paths to
    contents with a predicate saying which operating system calls fail, and SHA-256, HMAC and AES-GCM are
    written out and computable.
  \<^item> \<^verbatim>\<open>Stream_Crypto\<close>: \<^verbatim>\<open>crypto/stream.go\<close> and the block functions of \<^verbatim>\<open>crypto/vault.go\<close>. The state of
    \<^const>\<open>EncryptStream_Write\<close> and \<^const>\<open>DecryptStream_Read\<close> is a record with the fields of the Go structs; the
    three seek strategies are \<^const>\<open>seek_readerAt\<close>, \<^const>\<open>seek_seeker\<close> and \<^const>\<open>discard\<close>. Writing and reading back is
    the identity for any sizes of writes and buffers.
  \<^item> \<^verbatim>\<open>Storage_Key\<close>: \<^verbatim>\<open>crypto/storage_key.go\<close>.
  \<^item> \<^verbatim>\<open>CAS_Engine\<close>: \<^verbatim>\<open>storage/cas.go\<close>, with the existence cache, the rename and the copy fall-back; no sequence of moves
    loses a blob.
  \<^item> \<^verbatim>\<open>Upload_Sessions\<close>: \<^verbatim>\<open>upload/session.go\<close>, the table of sessions and its two files per session; a restart restores it, but for a
    hash announced since the last write.
  \<^item> \<^verbatim>\<open>Proof_Of_Ownership\<close> over \<^verbatim>\<open>Expiring_Store\<close>: \<^verbatim>\<open>upload/pow.go\<close>.
  \<^item> \<^verbatim>\<open>Upload_Pipeline\<close>: \<^verbatim>\<open>controllers/upload_controller.go\<close>, every handler, with an abstract upload that
    \<^const>\<open>UploadChunk\<close> refines. The limit of a chunk is computed in 64 bits, as in the code.
  \<^item> \<^verbatim>\<open>Merkle\<close>, \<^verbatim>\<open>Reconcile\<close>: \<^verbatim>\<open>reconcile/merkle.go\<close>, \<^verbatim>\<open>reconcile/reconciler.go\<close> and \<^verbatim>\<open>controllers/reconcile_controller.go\<close>.
  \<^item> \<^verbatim>\<open>Vault_Folders\<close>, \<^verbatim>\<open>File_Controller\<close>, \<^verbatim>\<open>File_Trash\<close>, \<^verbatim>\<open>File_Moves\<close>, \<^verbatim>\<open>Folder_Operations\<close>, \<^verbatim>\<open>File_Download\<close>:
    \<^verbatim>\<open>controllers/file_controller.go\<close>, in this order the vault cache, the tables with the listing, the trash, renaming and
    moving, the folders, and the download with its ranges. The state is \<^const>\<open>fc_files\<close>, \<^const>\<open>fc_folders\<close> and the store; the
    invariant of \<^const>\<open>drive_inv\<close> holds over any sequence of the handlers. Tables hold the rows of all users.
  \<^item> \<^verbatim>\<open>Zip_Stream\<close>: \<^verbatim>\<open>controllers/zip_stream.go\<close>. The archive of a folder has one entry per live file of the subtree, under
    the path of its folder and its own name, and no path leaves the folder.
  \<^item> \<^verbatim>\<open>Auth_Sessions\<close>: \<^verbatim>\<open>auth/session.go\<close> and \<^verbatim>\<open>auth/middleware.go\<close>.
  \<^item> \<^verbatim>\<open>Download_Links\<close>, \<^verbatim>\<open>Magnet\<close>, \<^verbatim>\<open>Link_Resolver\<close>: \<^verbatim>\<open>download/detector.go\<close> and \<^verbatim>\<open>batch.go\<close>, \<^verbatim>\<open>magnet.go\<close>, \<^verbatim>\<open>resolver.go\<close>.
    The expressions over links are matchers; a link is resolved per site, and a panic of the code is an outcome.
  \<^item> \<^verbatim>\<open>Network_Safety\<close>: \<^verbatim>\<open>download/security.go\<close>, with the addresses, masks and parsers of package \<^verbatim>\<open>net\<close>.
  \<^item> \<^verbatim>\<open>Direct_Transfer\<close>: \<^verbatim>\<open>download/direct.go\<close>, \<^verbatim>\<open>sniff.go\<close> and \<^verbatim>\<open>prober.go\<close>. What is stored is the body of an answer from a
    checked address, and no page under the name of a binary file.
  \<^item> \<^verbatim>\<open>Download_Manager\<close>: \<^verbatim>\<open>download/manager.go\<close>, \<^verbatim>\<open>types.go\<close> and \<^verbatim>\<open>streamWithProgress\<close>. A goroutine is a step function over the
    phases of its \<^const>\<open>jb_phase\<close>; requests, the steps of all goroutines and the late reports of reporters nobody waits for
    interleave in \<^const>\<open>handle_event\<close>. The history \<^const>\<open>fetched\<close> holds the bytes a task has written, and the blob of a
    completed task decrypts to them.
  \<^item> \<^verbatim>\<open>Torrent\<close>, \<^verbatim>\<open>Bencode\<close>: \<^verbatim>\<open>download/torrent.go\<close>, \<^verbatim>\<open>bencode.go\<close>. A connection to a peer is a function of the bytes received.
  \<^item> \<^verbatim>\<open>Download_State\<close>, \<^verbatim>\<open>Accelerated\<close>: \<^verbatim>\<open>download/state.go\<close> and \<^verbatim>\<open>download/accelerated.go\<close>, the pool of workers as a step relation.
  \<^item> \<^verbatim>\<open>Download_Controller\<close>: the handlers of \<^verbatim>\<open>controllers/download_controller.go\<close> but \<^verbatim>\<open>ParseLink\<close>.
  \<^item> \<^verbatim>\<open>Panic_Purge\<close>: \<^verbatim>\<open>controllers/security_controller.go\<close>.

  \<^bold>\<open>Bounds and fuel.\<close> The Bencode decoder has fuel of twice the length of its input plus one, which is proved to be enough.
  Loops over tables that may be cyclic (\<^verbatim>\<open>DeleteFolder\<close>, \<^verbatim>\<open>DownloadFolder\<close>) and the retry of \<^verbatim>\<open>DownloadDirect\<close> are partial
  functions; on forests the first two are proved to return, and the retry is proved to run for ever on a circle of pages. The
  loop over a peer's messages ends because every turn consumes input, and the loops of seeking and shredding because the
  rest of the file shrinks. Widths are kept: \<^verbatim>\<open>uint32\<close> lengths are 32-bit words, \<^verbatim>\<open>int64\<close> sums wrap.

  \<^bold>\<open>Parameters.\<close> Failures of the disk and the database, the clock, random bytes, the order of the rows of a query, the answers of
  servers, peers and resolvers, the JSON codec, \<^verbatim>\<open>net/url\<close>, \<^verbatim>\<open>mime\<close>, Unicode case folding outside ASCII, the expressions
  over HTML pages, and the printing of floating point numbers.

  \<^bold>\<open>Not modelled.\<close> The HTTP framework \<^verbatim>\<open>echo\<close> is vendored, the user interface is generated by \<^verbatim>\<open>templ\<close>. The packages beside
  \<^verbatim>\<open>internal\<close> are a general framework (tokens, audit, realtime, validation, an upload stack of its own) that the drive's logic
  does not rest on. \<^verbatim>\<open>TotalCapacity\<close> and the disk queries ask the operating system; \<^verbatim>\<open>storage/shuffler.go\<close> changes nothing
  but time stamps. Of \<^verbatim>\<open>file_controller.go\<close> the previews, the thumbnails,
  the statistics, the seeding and the rendered lists of folders are left out. Command
  line, configuration and logging set the process up.
\<close>

section \<open>The upload and the file handlers together\<close>

text \<open>The two controllers share the store, the disk and the table of files; the file browser's view of a row
  has two more columns.\<close>

definition shares :: "UploadController \<Rightarrow> FileController \<Rightarrow> bool" where
  "shares u fc \<longleftrightarrow>
     fc_CAS fc = Some (u_cas u) \<and> fc_fs fc = u_fs u \<and> map FileRow.truncate (fc_files fc) = u_files u"

lemma truncate_sel:
  "f_id (FileRow.truncate r) = f_id r" "f_owner (FileRow.truncate r) = f_owner r" "f_folder (FileRow.truncate r) = f_folder r"
  "f_size (FileRow.truncate r) = f_size r" "f_cas (FileRow.truncate r) = f_cas r" "f_deleted (FileRow.truncate r) = f_deleted r"
  by (simp_all add: FileRow.truncate_def)

lemma recorded_row:
  assumes "recorded s0 h rows (u_files u)" "shares u fc"
  obtains fs r where "fc_files fc = fs @ [r]" "f_cas r = h" "f_size r = s_ExpectedSize s0" "f_owner r = s_OwnerID s0"
    "\<not> f_deleted r"
proof -
  obtain row where row: "map FileRow.truncate (fc_files fc) = rows @ [row]" "f_cas row = h" "f_size row = s_ExpectedSize s0"
    "f_owner row = s_OwnerID s0" "\<not> f_deleted row"
    using assms by (auto simp: recorded_def shares_def)
  then obtain fs r where "fc_files fc = fs @ [r]" "FileRow.truncate r = row" by (cases "fc_files fc" rule: rev_cases) auto
  with row show ?thesis by (intro that [of fs r]) (auto simp: truncate_sel)
qed

lemma find_last:
  fixes r :: FileRecord
  assumes "distinct (map f_id (fs @ [r]))" "f_owner r = fe_user env" "\<not> f_deleted r"
  shows "find (live env (f_id r)) (fs @ [r]) = Some r"
proof -
  have "find (live env (f_id r)) fs = None" using assms(1) by (fastforce simp: find_None_iff live_def own_def image_iff)
  with assms(2,3) show ?thesis by (induction fs) (auto simp: live_def own_def)
qed

lemma reads_key: "blob_reads key h y st \<Longrightarrow> aes_NewCipher key \<noteq> None"
  by (fastforce simp: blob_reads_def NewDecryptStream_def split: option.splits)

lemma uploaded_downloadable:
  assumes reads: "blob_reads key h y u" and len: "int (length y) = s_ExpectedSize s0" "0 < s_ExpectedSize s0"
    and rec: "recorded s0 h rows (u_files u)" and sh: "shares u fc" and ids: "distinct (map f_id (fc_files fc))"
    and env: "vault_ok fc" "\<And>q. \<not> fe_sql env q" "fe_fails env = no_faults" "fe_user env = s_OwnerID s0"
    and r: "r = last (fc_files fc)" and key: "domain_key env fc r = key" and un: "fc_in_vault fc (f_folder r) \<longrightarrow> isVaultUnlocked env"
  shows "\<exists>ps. downloadable env (f_id r) r ps fc \<and> concat ps = y"
proof -
  obtain ps where ps: "blob_at (u_cas u, u_fs u) h = Some (frames (cipher_NewGCM key) key ps)" "list_all chunk_ok ps" "concat ps = y"
    using reads by (auto simp: blob_reads_def framed_def)
  obtain fs r' where f: "fc_files fc = fs @ [r']" "f_cas r' = h" "f_size r' = s_ExpectedSize s0" "f_owner r' = s_OwnerID s0"
    "\<not> f_deleted r'" by (rule recorded_row [OF rec sh])
  then have r': "r' = r" by (simp add: r)
  have "find (live env (f_id r)) (fc_files fc) = Some r" using find_last [of fs r env] ids f env by (simp add: r')
  moreover have "fc_blob fc (f_cas r) = Some (frames (cipher_NewGCM key) key ps)"
    using sh ps(1) f(2) by (simp add: fc_blob_def shares_def r')
  moreover have "f_size r = int (length (concat ps))" "ps \<noteq> []" using ps(3) len f(3) by (auto simp: r')
  ultimately show ?thesis
    using env un ps(2,3) reads_key [OF reads] by (intro exI [of _ ps]) (simp add: downloadable_def key)
qed

text \<open>C1: what was uploaded is what is downloaded. After a resumable upload of a file that is not empty has completed, the
  owner's download of the new row, by a request without conditional headers and with the key the upload used, answers
  200 with the announced length and exactly the acknowledged bytes, in the vault and outside of it. An empty file has
  a blob without a chunk, and the download of one in the vault answers 500.\<close>

theorem upload_then_download:
  assumes "receiving s0 key [] st" "list_all (client_of s0 key) (rqs @ [(env, rq)])"
    and "upload_all (rqs @ [(env, rq)]) st = (st', rs @ [UploadCompleted h])" "list_all unfinished rs"
    and "y = acknowledged (rqs @ [(env, rq)]) (rs @ [UploadCompleted h])" "0 < s_ExpectedSize s0"
    and "\<And>d d'. framed key y d \<Longrightarrow> blob_at (u_cas st, u_fs st) (hash_of d) = Some d' \<Longrightarrow> d' = d"
    and "shares st' fc" "distinct (map f_id (fc_files fc))" "vault_ok fc"
    and "\<And>q. \<not> fe_sql fenv q" "fe_fails fenv = no_faults" "fe_user fenv = s_OwnerID s0"
    and "r = last (fc_files fc)" "domain_key fenv fc r = key" "fc_in_vault fc (f_folder r) \<longrightarrow> isVaultUnlocked fenv"
  shows "snd (DownloadFile fenv dates (unconditional (f_id r) []) fc) = Whole (s_ExpectedSize s0) y None"
proof -
  have up: "blob_reads key h y st'" "int (length y) = s_ExpectedSize s0" "recorded s0 h (u_files st) (u_files st')"
    using resumable_run [OF assms(1-5)] assms(7) by blast+
  obtain ps where D: "downloadable fenv (f_id r) r ps fc" and y: "concat ps = y"
    using uploaded_downloadable [OF up(1,2) assms(6) up(3) assms(8-16)] by blast
  have "f_size r = s_ExpectedSize s0" using D y up(2) by (simp add: downloadable_def)
  with DownloadFile_whole [OF D] y show ?thesis by simp
qed

definition browser :: "UploadController \<Rightarrow> FileController" where
  "browser u = \<lparr>fc_CAS = Some (u_cas u), fc_fs = u_fs u,
     fc_files = map (\<lambda>row. FileRow.extend row (FileRecord.fields False [])) (u_files u),
     fc_folders = [], fc_vault = \<lparr>vaultIDs = [], vaultCacheValid = False\<rparr>\<rparr>"

lemma browser_shares: "shares u (browser u)" "vault_ok (browser u)" "f_folder r = [] \<Longrightarrow> \<not> fc_in_vault (browser u) (f_folder r)"
proof -
  have "FileRow.truncate (FileRow.extend row (FileRecord.fields False [])) = row" for row :: FileRow
    by (cases row) (simp add: FileRow.truncate_def FileRow.extend_def)
  then show "shares u (browser u)" by (simp add: shares_def browser_def comp_def)
  show v: "vault_ok (browser u)"
    by (simp add: vault_ok_def browser_def cache_ok_def presets_ok_def tree_rows_def has_parent_def)
  show "f_folder r = [] \<Longrightarrow> \<not> fc_in_vault (browser u) (f_folder r)" using v presets_outside by (auto simp: vault_ok_def)
qed

theorem upload_then_download_witness:
  "\<exists>u rs h. upload_all ex_requests ex_upload = (u, rs @ [UploadCompleted h]) \<and>
     snd (DownloadFile ex_fenv ex_dates (unconditional (f_id (last (fc_files (browser u)))) []) (browser u)) = Whole 3 [1, 2, 3] None"
proof -
  obtain u r1 h where 1: "upload_all ex_requests ex_upload = (u, [r1] @ [UploadCompleted h])"
    "list_all unfinished [r1]" "[1, 2, 3] = acknowledged ex_requests ([r1] @ [UploadCompleted h])"
    using ex_run by metis
  let ?fc = "browser u" and ?run = "[(ex_env None, ex_chunk [] [1, 2])] @ [(ex_env None, ex_chunk ''bytes 2-2/3'' [3])]"
  have run: "list_all (client_of ex_session (replicate 32 7)) ?run" "upload_all ?run ex_upload = (u, [r1] @ [UploadCompleted h])"
    "[1, 2, 3] = acknowledged ?run ([r1] @ [UploadCompleted h])"
    using 1 by (simp_all add: ex_client)
  have coll: "d' = d" if "blob_at (u_cas ex_upload, u_fs ex_upload) (hash_of d) = Some d'" for d d' :: bytes
    using that ex_no_blob by simp
  have "recorded ex_session h (u_files ex_upload) (u_files u)"
    using resumable_run [OF ex_receiving run(1,2) 1(2) run(3)] coll by blast
  then obtain row where row: "u_files u = [row]" "f_folder row = []" by (auto simp: recorded_def ex_session_def)
  let ?r = "FileRow.extend row (FileRecord.fields False [])"
  have fc: "fc_files ?fc = [?r]" "f_folder ?r = []" using row by (simp_all add: browser_def FileRow.extend_def)
  have nv: "\<not> fc_in_vault ?fc (f_folder ?r)" using browser_shares(3) fc(2) .
  have env: "\<not> fe_sql ex_fenv q" "fe_fails ex_fenv = no_faults" "fe_user ex_fenv = s_OwnerID ex_session" for q
    by (simp_all add: ex_fenv_def ex_session_def)
  have k: "domain_key ex_fenv ?fc (last (fc_files ?fc)) = replicate 32 7" using nv fc by (simp add: domain_key_def ex_fenv_def)
  have ids: "distinct (map f_id (fc_files ?fc))" "fc_in_vault ?fc (f_folder (last (fc_files ?fc))) \<longrightarrow> isVaultUnlocked ex_fenv"
    using fc nv by simp_all
  have "snd (DownloadFile ex_fenv ex_dates (unconditional (f_id (last (fc_files ?fc))) []) ?fc) =
      Whole (s_ExpectedSize ex_session) [1, 2, 3] None"
    using coll by (intro upload_then_download [OF ex_receiving run(1,2) 1(2) run(3) _ _ browser_shares(1) ids(1) browser_shares(2)
      env refl k ids(2)]) auto
  with 1(1) show ?thesis by (intro exI [of _ u] exI [of _ "[r1]"] exI [of _ h]) simp
qed

end
